(* ===== verification/Prelude.thy ===== *)
theory Prelude
  imports Main "HOL-Library.Word"
begin

text \<open>
  Shared vocabulary of the development: the machine integer types of the C code, the three
  two-valued enumerations of \<^verbatim>\<open>at32f4xx.h\<close>, the faults a C expression can raise (values of a
  sum type here), and the word lemmas that every register-level proof uses.  The collection
  \<open>reg_simps\<close> holds the facts about a masked field of a register.
\<close>

unbundle bit_operations_syntax

named_theorems reg_simps \<open>set, clear and read back a masked field of a register\<close>

section \<open>Machine integers and enumerations\<close>

type_synonym u8 = "8 word"
type_synonym u16 = "16 word"
type_synonym u32 = "32 word"
type_synonym u64 = "64 word"

datatype FlagStatus = RESET | SET
datatype FunctionalState = DISABLE | ENABLE
datatype ErrorStatus = ERROR | SUCCESS

text \<open>
  The cast \<^verbatim>\<open>(FunctionalState)flag\<close> of an \<^verbatim>\<open>int\<close>: every driver function tests its argument with
  \<^verbatim>\<open>!= DISABLE\<close> only, so any non-zero value acts as \<^verbatim>\<open>ENABLE\<close>.
\<close>

definition to_FunctionalState :: "int \<Rightarrow> FunctionalState" where
  "to_FunctionalState flag = (if flag = 0 then DISABLE else ENABLE)"

text \<open>What the C code can do that C leaves undefined; each is an error value of the model.\<close>

datatype fault = NullDeref | OutOfBounds | DivByZero | DanglingPtr | BadShift | SignedOverflow | AssertFailed

section \<open>Steps that may fault\<close>

definition seq :: "'e + 'a \<Rightarrow> ('a \<Rightarrow> 'e + 'b) \<Rightarrow> 'e + 'b" where
  "seq r f = (case r of Inl e \<Rightarrow> Inl e | Inr a \<Rightarrow> f a)"

lemma seq_simps [simp]: "seq (Inl e) f = Inl e" "seq (Inr a) f = f a"
  by (simp_all add: seq_def)

lemma seq_Inr_iff: "seq r f = Inr b \<longleftrightarrow> (\<exists>a. r = Inr a \<and> f a = Inr b)"
  by (cases r) simp_all

text \<open>An array access with the bound of the array, and a dereference of an entry that may be NULL.\<close>

definition index :: "'a list \<Rightarrow> nat \<Rightarrow> fault + 'a" where
  "index xs i = (if i < length xs then Inr (xs ! i) else Inl OutOfBounds)"

definition nonnull :: "'a option \<Rightarrow> fault + 'a" where
  "nonnull p = (case p of None \<Rightarrow> Inl NullDeref | Some a \<Rightarrow> Inr a)"

definition deref :: "(nat \<rightharpoonup> 'a) \<Rightarrow> nat \<Rightarrow> fault + 'a" where
  "deref h p = (case h p of None \<Rightarrow> Inl DanglingPtr | Some a \<Rightarrow> Inr a)"

lemma index_Inr [simp]: "i < length xs \<Longrightarrow> index xs i = Inr (xs ! i)"
  by (simp add: index_def)

lemma nonnull_simps [simp]: "nonnull None = Inl NullDeref" "nonnull (Some a) = Inr a"
  by (simp_all add: nonnull_def)

lemma deref_Some [simp]: "h p = Some a \<Longrightarrow> deref h p = Inr a"
  by (simp add: deref_def)

section \<open>Masked fields of a word\<close>

lemma or_and_mask [reg_simps]: "((x::'a::len word) OR m) AND m = m"
  by (simp add: bit_eq_iff bit_simps)

lemma clear_and_mask [reg_simps]: "((x::'a::len word) AND NOT m) AND m = 0"
  by (simp add: bit_eq_iff bit_simps)

lemma field_write_read:
  "(v::'a::len word) AND NOT m = 0 \<Longrightarrow> ((x AND NOT m) OR v) AND m = v"
  by (auto simp add: bit_eq_iff bit_simps)

lemma field_write_frame:
  "(v::'a::len word) AND NOT m = 0 \<Longrightarrow> ((x AND NOT m) OR v) AND NOT m = x AND NOT m"
  by (auto simp add: bit_eq_iff bit_simps)

lemma field_write_other:
  assumes "(v::'a::len word) AND NOT m = 0" and "k AND m = 0"
  shows "((x AND NOT m) OR v) AND k = x AND k"
proof (rule bit_word_eqI)
  fix n assume n: "n < LENGTH('a)"
  have "\<not> (bit v n \<and> \<not> bit m n)" "\<not> (bit k n \<and> bit m n)"
    using assms n by (auto simp: bit_eq_iff bit_simps)
  then show "bit (((x AND NOT m) OR v) AND k) n = bit (x AND k) n"
    using n by (auto simp: bit_simps)
qed

lemma or_other: "(k::'a::len word) AND m = 0 \<Longrightarrow> (x OR m) AND k = x AND k"
  by (auto simp add: bit_eq_iff bit_simps)

lemma clear_other: "(k::'a::len word) AND m = 0 \<Longrightarrow> (x AND NOT m) AND k = x AND k"
  by (auto simp add: bit_eq_iff bit_simps)

lemma or_idem_mask [reg_simps]: "((x::'a::len word) OR m) OR m = x OR m"
  by (simp add: bit_eq_iff bit_simps)

lemma clear_idem_mask [reg_simps]: "((x::'a::len word) AND NOT m) AND NOT m = x AND NOT m"
  by (simp add: bit_eq_iff bit_simps)

lemma set_then_clear [reg_simps]: "((x::'a::len word) OR m) AND NOT m = x AND NOT m"
  by (auto simp add: bit_eq_iff bit_simps)

lemma clear_then_set [reg_simps]: "((x::'a::len word) AND NOT m) OR m = x OR m"
  by (auto simp add: bit_eq_iff bit_simps)

lemma unat_and_mask_le: "unat (x AND m) \<le> unat (m :: 'a::len word)"
  by (metis word_and_le1 word_le_nat_alt)

lemma unat_drop_and_le:
  "unat (drop_bit k (x AND m)) \<le> unat (m :: 'a::len word) div 2 ^ k"
proof -
  have "unat (drop_bit k (x AND m)) = unat (x AND m) div 2 ^ k"
    by (simp only: unat_drop_bit_eq drop_bit_eq_div [where 'a=nat])
  then show ?thesis by (simp add: unat_and_mask_le div_le_mono)
qed

text \<open>
  The same two facts with the complement written out as a constant \<open>c\<close>: on numerals their side
  conditions compute, so they work as conditional rewrite rules.
\<close>

lemma keep_clear_inside:
  assumes "c AND k = 0"
  shows "(((x::'a::len word) AND c) OR v) AND k = v AND k"
proof (rule bit_word_eqI)
  fix n assume "n < LENGTH('a)"
  moreover have "\<not> bit (c AND k) n" using assms by simp
  ultimately show "bit (((x AND c) OR v) AND k) n = bit (v AND k) n"
    by (auto simp: bit_simps)
qed

lemma keep_clear_outside:
  assumes "v AND k = 0" and "c AND k = k"
  shows "(((x::'a::len word) AND c) OR v) AND k = x AND k"
proof (rule bit_word_eqI)
  fix n assume "n < LENGTH('a)"
  moreover have "\<not> bit (v AND k) n" "bit (c AND k) n = bit k n" using assms by simp_all
  ultimately show "bit (((x AND c) OR v) AND k) n = bit (x AND k) n"
    by (auto simp: bit_simps)
qed

lemma keep_only_inside: "c AND k = 0 \<Longrightarrow> ((x::'a::len word) AND c) AND k = 0"
  using keep_clear_inside [of c k x 0] by simp

lemma keep_only_outside: "c AND k = k \<Longrightarrow> ((x::'a::len word) AND c) AND k = x AND k"
  using keep_clear_outside [of 0 k c x] by simp

lemmas keep_fields = keep_clear_inside keep_clear_outside keep_only_inside keep_only_outside

text \<open>A single-bit mask \<open>push_bit n 1\<close> selects bit \<open>n\<close>.\<close>

lemma and_push_bit_one_eq_0:
  "((x::'a::len word) AND push_bit n 1 = 0) = (\<not> (n < LENGTH('a) \<and> bit x n))"
  by (auto simp add: bit_eq_iff [where 'a="'a word"] bit_simps)

lemma unat_or_less:
  assumes "unat (a :: 'a::len word) < 2 ^ k" and "unat b < 2 ^ k"
  shows "unat (a OR b) < 2 ^ k"
proof -
  have "unat (take_bit k a) = unat a" "unat (take_bit k b) = unat b"
    using assms by (simp_all add: unsigned_take_bit_eq take_bit_nat_eq_self)
  then have "take_bit k a = a" "take_bit k b = b" by (simp_all add: word_unat_eq_iff)
  then have "take_bit k (a OR b) = a OR b" by (simp add: take_bit_or)
  then have "take_bit k (unat (a OR b)) = unat (a OR b)"
    by (metis unsigned_take_bit_eq)
  then show ?thesis by (metis take_bit_nat_less_exp)
qed

lemma unat_and_low: "unat (x AND mask n) = unat (x :: 'a::len word) mod 2 ^ n"
  unfolding take_bit_eq_mask [symmetric] unsigned_take_bit_eq by (simp add: take_bit_eq_mod)

lemma unat_drop: "unat (drop_bit k (w :: 'a::len word)) = unat w div 2 ^ k"
  by (simp only: unat_drop_bit_eq drop_bit_eq_div [where 'a=nat])

lemma unat_of_nat_small: "n < 2 ^ LENGTH('a) \<Longrightarrow> unat (of_nat n :: 'a::len word) = n"
  by (simp add: unat_of_nat)

section \<open>A writable field of a register, as an interface\<close>

text \<open>
  A configuration function of a driver replaces one field of a register of the state \<open>'s\<close> and
  promises its clients two things: the field holds the encoding of what was written, and no bit
  of that register outside the field changes.  What a client derives from that (the last write
  wins, writes to disjoint fields commute) is proved here once.
\<close>

locale reg_field =
  fixes wr :: "u32 \<Rightarrow> 's \<Rightarrow> 's"
    and get :: "'s \<Rightarrow> u32"
    and enc :: "u32 \<Rightarrow> u32"
    and fmask :: u32
  assumes read_back: "enc v AND NOT fmask = 0 \<Longrightarrow> get (wr v s) AND fmask = enc v"
    and frame: "enc v AND NOT fmask = 0 \<Longrightarrow> get (wr v s) AND NOT fmask = get s AND NOT fmask"
begin

lemma determined: "enc v AND NOT fmask = 0 \<Longrightarrow> get (wr v s) = (get s AND NOT fmask) OR enc v"
proof -
  assume v: "enc v AND NOT fmask = 0"
  have "get (wr v s) = (get (wr v s) AND NOT fmask) OR (get (wr v s) AND fmask)"
    by (auto simp: bit_eq_iff bit_simps)
  then show ?thesis by (simp add: read_back frame v)
qed

lemma last_write_wins:
  "enc v AND NOT fmask = 0 \<Longrightarrow> enc w AND NOT fmask = 0 \<Longrightarrow> get (wr w (wr v s)) = get (wr w s)"
  by (simp add: determined [of w] frame)

lemma other_field: "enc v AND NOT fmask = 0 \<Longrightarrow> k AND fmask = 0 \<Longrightarrow> get (wr v s) AND k = get s AND k"
  using field_write_other [of "enc v" fmask k "get s"] by (simp add: determined)

end

locale reg_field_pair =
  a: reg_field wa get ea ma + b: reg_field wb get eb mb
  for wa :: "u32 \<Rightarrow> 's \<Rightarrow> 's" and ea ma wb eb mb and get :: "'s \<Rightarrow> u32" +
  assumes disjoint: "ma AND mb = 0"
begin

lemma commute:
  assumes v: "ea v AND NOT ma = 0" and w: "eb w AND NOT mb = 0"
  shows "get (wb w (wa v s)) = get (wa v (wb w s))"
proof -
  have "(((x AND NOT ma) OR ea v) AND NOT mb) OR eb w = (((x AND NOT mb) OR eb w) AND NOT ma) OR ea v"
    for x
  proof (rule bit_word_eqI)
    fix n assume n: "n < LENGTH(32)"
    have "\<not> bit (ea v AND NOT ma) n" "\<not> bit (eb w AND NOT mb) n" "\<not> bit (ma AND mb) n"
      by (simp_all add: v w disjoint)
    then show "bit ((((x AND NOT ma) OR ea v) AND NOT mb) OR eb w) n
        = bit ((((x AND NOT mb) OR eb w) AND NOT ma) OR ea v) n"
      using n by (auto simp: bit_simps)
  qed
  then show ?thesis by (simp add: a.determined b.determined v w)
qed

end

section \<open>Byte lanes of a 32-bit register\<close>

definition byte_lane :: "nat \<Rightarrow> u32" where
  "byte_lane k = push_bit (8 * k) (mask 8)"

text \<open>The store \<^verbatim>\<open>*(__IO uint8_t*)(base + k) = b\<close> and the load of the same byte.\<close>

definition wr_byte :: "nat \<Rightarrow> u8 \<Rightarrow> u32 \<Rightarrow> u32" where
  "wr_byte k b r = (r AND NOT (byte_lane k)) OR push_bit (8 * k) (ucast b)"

definition rd_byte :: "nat \<Rightarrow> u32 \<Rightarrow> u8" where
  "rd_byte k r = ucast (drop_bit (8 * k) r)"

lemma rd_wr_byte [reg_simps]: "k < 4 \<Longrightarrow> rd_byte k (wr_byte k b r) = b"
proof (rule bit_word_eqI)
  fix n assume "n < LENGTH(8)" and "k < 4"
  then have "8 * k + n < 32" and "n < 8" by simp_all
  then show "bit (rd_byte k (wr_byte k b r)) n = bit b n"
    by (auto simp: rd_byte_def wr_byte_def byte_lane_def bit_simps)
qed

text \<open>The bit-band alias of bit \<open>n\<close>: a 32-bit store of 0 or 1 writes that bit alone.\<close>

definition wr_bitband :: "nat \<Rightarrow> FunctionalState \<Rightarrow> u32 \<Rightarrow> u32" where
  "wr_bitband n st r = (if st = ENABLE then set_bit n r else unset_bit n r)"

lemma bit_wr_bitband:
  "m < 32 \<Longrightarrow> bit (wr_bitband n st r) m = (if m = n then st = ENABLE else bit r m)"
  by (auto simp: wr_bitband_def bit_simps)

text \<open>
  A status register whose flags are cleared by writing zero: a written one is without effect.
\<close>

definition rc_w0 :: "'a::len word \<Rightarrow> 'a word \<Rightarrow> 'a word" where
  "rc_w0 old written = old AND written"

section \<open>Bounded polling\<close>

text \<open>
  The loop
  \<^verbatim>\<open>do { status = read(); count++; } while (status == RESET && count != lim);\<close>
  with the counter at its width.  \<open>ready c\<close> is what the read number \<open>c\<close> finds; the result is the
  last status and the counter.  The loop ends for every start value, because the counter
  meets \<open>lim\<close> after at most \<open>2 ^ 32\<close> increments.
\<close>

function poll_loop :: "(u32 \<Rightarrow> bool) \<Rightarrow> u32 \<Rightarrow> u32 \<Rightarrow> bool \<times> u32" where
  "poll_loop ready lim c =
     (let st = ready c; c' = c + 1
      in if \<not> st \<and> c' \<noteq> lim then poll_loop ready lim c' else (st, c'))"
  by pat_completeness auto
termination
proof (relation "measure (\<lambda>(ready, lim, c). unat (lim - 1 - c))")
  show "wf (measure (\<lambda>(ready :: u32 \<Rightarrow> bool, lim, c). unat (lim - 1 - c :: u32)))"
    by simp
next
  fix ready :: "u32 \<Rightarrow> bool" and lim c c' :: u32 and st :: bool
  assume "c' = c + 1" and "\<not> st \<and> c' \<noteq> lim"
  then have nz: "lim - 1 - c \<noteq> 0" and e: "lim - 1 - c' = (lim - 1 - c) - 1"
    by (auto simp: algebra_simps)
  have "unat (lim - 1 - c') = unat (lim - 1 - c) - 1"
    unfolding e by (rule unat_minus_one [OF nz])
  moreover have "0 < unat (lim - 1 - c)" using nz by (simp only: unat_gt_0 not_False_eq_True)
  ultimately show "((ready, lim, c'), (ready, lim, c))
      \<in> measure (\<lambda>(ready, lim, c). unat (lim - 1 - c))"
    by simp
qed

declare poll_loop.simps [simp del]

lemma unat_succ: "(c :: 'a::len word) < lim \<Longrightarrow> unat (c + 1) = Suc (unat c)"
proof -
  assume "c < lim"
  then have "unat c + 1 < 2 ^ LENGTH('a)"
    using order.strict_trans1 [OF Suc_leI unsigned_less [of lim]]
    by (simp add: word_less_nat_alt)
  then show ?thesis by (simp add: unat_word_ariths)
qed

lemma succ_le: "(c :: 'a::len word) < lim \<Longrightarrow> c + 1 \<le> lim"
  by (simp add: word_le_nat_alt unat_succ) (simp add: word_less_nat_alt)

text \<open>No read up to the limit succeeds: the counter stops at the limit.\<close>

lemma poll_loop_timeout:
  assumes "c < lim" and "\<And>i. c \<le> i \<Longrightarrow> i < lim \<Longrightarrow> \<not> ready i"
  shows "poll_loop ready lim c = (False, lim)"
  using assms
proof (induction ready lim c rule: poll_loop.induct)
  case (1 ready lim c)
  have r: "\<not> ready c" using "1.prems" by simp
  show ?case
  proof (cases "c + 1 = lim")
    case True
    then show ?thesis using r by (simp add: poll_loop.simps [of ready lim c])
  next
    case False
    have lt: "c + 1 < lim" using succ_le [OF "1.prems"(1)] False by simp
    have "c \<le> i" if "c + 1 \<le> i" for i
      using that unat_succ [OF "1.prems"(1)] by (simp add: word_le_nat_alt)
    then have "poll_loop ready lim (c + 1) = (False, lim)"
      using "1.IH" [OF refl refl] r False lt "1.prems"(2) by blast
    then show ?thesis using r False by (simp add: poll_loop.simps [of ready lim c])
  qed
qed

text \<open>The first read that succeeds, before the limit, is number \<open>k\<close>: the loop stops there.\<close>

lemma poll_loop_found:
  assumes "c \<le> k" and "k < lim" and "ready k"
    and "\<And>i. c \<le> i \<Longrightarrow> i < k \<Longrightarrow> \<not> ready i"
  shows "poll_loop ready lim c = (True, k + 1)"
  using assms
proof (induction ready lim c rule: poll_loop.induct)
  case (1 ready lim c)
  show ?case
  proof (cases "c = k")
    case True
    then show ?thesis using "1.prems"(3) by (simp add: poll_loop.simps [of ready lim k])
  next
    case False
    then have ck: "c < k" using "1.prems"(1) by simp
    have r: "\<not> ready c" using "1.prems"(4) ck by simp
    have le: "c + 1 \<le> k" by (rule succ_le [OF ck])
    have ne: "c + 1 \<noteq> lim" using le "1.prems"(2) by auto
    have "c \<le> i" if "c + 1 \<le> i" for i
      using that unat_succ [OF ck] by (simp add: word_le_nat_alt)
    then have "poll_loop ready lim (c + 1) = (True, k + 1)"
      using "1.IH" [OF refl refl] r ne le "1.prems" by blast
    then show ?thesis using r ne by (simp add: poll_loop.simps [of ready lim c])
  qed
qed

text \<open>
  The counter ends at the limit exactly when no read before the last one succeeds, whatever the last
  read finds.
\<close>

lemma poll_loop_count:
  assumes "0 < lim"
  shows "snd (poll_loop ready lim 0) = lim \<longleftrightarrow> (\<forall>c < lim - 1. \<not> ready c)"
proof -
  have last: "c < lim \<longleftrightarrow> c < lim - 1 \<or> c = lim - 1" for c :: u32
    using assms by (auto simp: word_less_nat_alt unat_minus_one word_unat_eq_iff)
  show ?thesis
  proof (cases "\<exists>k. k < lim - 1 \<and> ready k")
    case True
    define k where "k = (LEAST k. k < lim - 1 \<and> ready k)"
    have k: "k < lim - 1" "ready k"
      unfolding k_def using LeastI_ex [OF True] by blast+
    have "\<not> ready i" if "i < k" for i
      using that k(1) not_less_Least [of i "\<lambda>k. k < lim - 1 \<and> ready k"]
      by (auto simp: k_def dest: order.strict_trans)
    then have "poll_loop ready lim 0 = (True, k + 1)"
      using k by (intro poll_loop_found) (auto simp: last)
    moreover have "k + 1 \<noteq> lim" using k(1) by auto
    ultimately show ?thesis using True by auto
  next
    case False
    then have none: "\<not> ready c" if "c < lim - 1" for c using that by blast
    have "snd (poll_loop ready lim 0) = lim"
    proof (cases "ready (lim - 1)")
      case True
      then have "poll_loop ready lim 0 = (True, lim - 1 + 1)"
        using none by (intro poll_loop_found) (auto simp: last)
      then show ?thesis by simp
    next
      case False
      then have "poll_loop ready lim 0 = (False, lim)"
        using none assms by (intro poll_loop_timeout) (auto simp: last)
      then show ?thesis by simp
    qed
    then show ?thesis using False by blast
  qed
qed

end
