(* ===== verification/Rcc.thy ===== *)
theory Rcc
  imports Prelude
begin

text \<open>
  Reset and clock control, \<^verbatim>\<open>at32f4xx_rcc.c\<close> as built for the AT32F407: the register block, the
  configuration functions, the peripheral clock gates and \<^verbatim>\<open>RCC_GetClocksFreq\<close>, whose result the
  baud rate and the system tick are computed from.  A register is the value last written or
  presented by the hardware; \<^verbatim>\<open>assert_param\<close> is empty (\<^verbatim>\<open>USE_FULL_ASSERT\<close> is not defined).
\<close>

section \<open>Registers and constants\<close>

record rcc_regs =
  rcc_CTRL :: u32
  rcc_CFG :: u32
  rcc_CLKINT :: u32
  rcc_APB2RST :: u32
  rcc_APB1RST :: u32
  rcc_AHBEN :: u32
  rcc_APB2EN :: u32
  rcc_APB1EN :: u32
  rcc_BDC :: u32
  rcc_CTRLSTS :: u32
  rcc_AHBRST :: u32
  rcc_MISC :: u32
  rcc_TEST :: u32
  rcc_MISC2 :: u32
  rcc_INTCTRL :: u32

record RCC_ClockType =
  SYSCLK_Freq :: u32
  AHBCLK_Freq :: u32
  APB1CLK_Freq :: u32
  APB2CLK_Freq :: u32
  ADCCLK_Freq :: u32

abbreviation (input) HSE_VALUE :: u32 where "HSE_VALUE \<equiv> 8000000"
abbreviation (input) HSI_VALUE :: u32 where "HSI_VALUE \<equiv> 8000000"
abbreviation (input) HSE_STARTUP_TIMEOUT :: u32 where "HSE_STARTUP_TIMEOUT \<equiv> 0x3000"
abbreviation (input) RCC_PLL_RANGE :: u32 where "RCC_PLL_RANGE \<equiv> 72000000"
abbreviation (input) RCC_CTRL_HSITWK :: u32 where "RCC_CTRL_HSITWK \<equiv> 0x000000FE"
abbreviation (input) RCC_CTRL_HSICAL :: u32 where "RCC_CTRL_HSICAL \<equiv> 0x0000FF00"
abbreviation (input) RCC_CTRL_HSEEN :: u32 where "RCC_CTRL_HSEEN \<equiv> 0x00010000"
abbreviation (input) RCC_CTRL_HSEBYPS :: u32 where "RCC_CTRL_HSEBYPS \<equiv> 0x00040000"
abbreviation (input) RCC_CFG_SYSCLKSEL :: u32 where "RCC_CFG_SYSCLKSEL \<equiv> 0x00000003"
abbreviation (input) RCC_CFG_SYSCLKSTS :: u32 where "RCC_CFG_SYSCLKSTS \<equiv> 0x0000000C"
abbreviation (input) RCC_CFG_AHBPSC :: u32 where "RCC_CFG_AHBPSC \<equiv> 0x000000F0"
abbreviation (input) RCC_CFG_AHBPSC_3 :: u32 where "RCC_CFG_AHBPSC_3 \<equiv> 0x00000080"
abbreviation (input) RCC_CFG_APB1PSC :: u32 where "RCC_CFG_APB1PSC \<equiv> 0x00000700"
abbreviation (input) RCC_CFG_APB1PSC_2 :: u32 where "RCC_CFG_APB1PSC_2 \<equiv> 0x00000400"
abbreviation (input) RCC_CFG_APB2PSC :: u32 where "RCC_CFG_APB2PSC \<equiv> 0x00003800"
abbreviation (input) RCC_CFG_APB2PSC_2 :: u32 where "RCC_CFG_APB2PSC_2 \<equiv> 0x00002000"
abbreviation (input) RCC_CFG_PLLRC :: u32 where "RCC_CFG_PLLRC \<equiv> 0x00010000"
abbreviation (input) RCC_CFG_PLLHSEPSC :: u32 where "RCC_CFG_PLLHSEPSC \<equiv> 0x00020000"
abbreviation (input) RCC_CFG_ADCPSC :: u32 where "RCC_CFG_ADCPSC \<equiv> 0x1000C000"
abbreviation (input) RCC_CFG_PLLMULT :: u32 where "RCC_CFG_PLLMULT \<equiv> 0x603C0000"
abbreviation (input) RCC_CFG_PLLMULT_LB_MASK :: u32 where "RCC_CFG_PLLMULT_LB_MASK \<equiv> 0x003C0000"
abbreviation (input) RCC_CFG_PLLMULT_HB_MASK :: u32 where "RCC_CFG_PLLMULT_HB_MASK \<equiv> 0x60000000"
abbreviation (input) RCC_CFG_PLLRANGE :: u32 where "RCC_CFG_PLLRANGE \<equiv> 0x80000000"
abbreviation (input) RCC_CFG_USBPSC :: u32 where "RCC_CFG_USBPSC \<equiv> 0x08C00000"
abbreviation (input) RCC_CFG_CLKOUT :: u32 where "RCC_CFG_CLKOUT \<equiv> 0x07000000"
abbreviation (input) CFG_PLL_Mask :: u32 where "CFG_PLL_Mask \<equiv> 0x1FC0FFFF"
abbreviation (input) CFG_ADCPSC_Set_Mask :: u32 where "CFG_ADCPSC_Set_Mask \<equiv> 0x0000C000"
abbreviation (input) CFG_ADCPSCBit2_Set_Mask :: u32 where "CFG_ADCPSCBit2_Set_Mask \<equiv> 0x10000000"
abbreviation (input) RCC_HSI_DIV_EN :: u32 where "RCC_HSI_DIV_EN \<equiv> 0x02000000"
abbreviation (input) RCC_AUTO_STEP_EN :: u32 where "RCC_AUTO_STEP_EN \<equiv> 0x00000030"
abbreviation (input) RCC_HSI_FOR_USB :: u32 where "RCC_HSI_FOR_USB \<equiv> 0x00000100"
abbreviation (input) RCC_INTCTRL_USB_INT_CTRL :: u32 where "RCC_INTCTRL_USB_INT_CTRL \<equiv> 0x00000001"
abbreviation (input) RCC_TEST_MCO2TMR_EN :: u32 where "RCC_TEST_MCO2TMR_EN \<equiv> 0x00010000"
abbreviation (input) RCC_HSI_SYS_CTRL :: u32 where "RCC_HSI_SYS_CTRL \<equiv> 0x00000200"
abbreviation (input) RCC_HSE_DIV_MASK :: u32 where "RCC_HSE_DIV_MASK \<equiv> 0x00003000"
abbreviation (input) RCC_MISC_CLKOUT_3 :: u32 where "RCC_MISC_CLKOUT_3 \<equiv> 0x00010000"
abbreviation (input) RCC_MCOPRE_MASK :: u32 where "RCC_MCOPRE_MASK \<equiv> 0xF0000000"
abbreviation (input) RCC_CTRLSTS_RSTFC :: u32 where "RCC_CTRLSTS_RSTFC \<equiv> 0x01000000"
abbreviation (input) RCC_HSE_ENABLE :: u32 where "RCC_HSE_ENABLE \<equiv> 0x00010000"
abbreviation (input) RCC_HSE_BYPASS :: u32 where "RCC_HSE_BYPASS \<equiv> 0x00040000"
abbreviation (input) RCC_FLAG_HSESTBL :: u8 where "RCC_FLAG_HSESTBL \<equiv> 0x31"
abbreviation (input) RCC_LSE_DISABLE :: u8 where "RCC_LSE_DISABLE \<equiv> 0x00"
abbreviation (input) RCC_LSE_ENABLE :: u8 where "RCC_LSE_ENABLE \<equiv> 0x01"
abbreviation (input) RCC_LSE_BYPASS :: u8 where "RCC_LSE_BYPASS \<equiv> 0x04"

section \<open>Reset and oscillators\<close>

definition RCC_Reset :: "rcc_regs \<Rightarrow> rcc_regs" where
  "RCC_Reset r =
     (let r = r\<lparr>rcc_CTRL := rcc_CTRL r OR 0x00000001\<rparr>;
          r = r\<lparr>rcc_CFG := rcc_CFG r AND 0xE8FF0000\<rparr>;
          r = r\<lparr>rcc_CTRL := rcc_CTRL r AND 0xFEF6FFFF\<rparr>;
          r = r\<lparr>rcc_CTRL := rcc_CTRL r AND 0xFFFBFFFF\<rparr>;
          r = r\<lparr>rcc_CFG := rcc_CFG r AND 0x1700FFFF\<rparr>;
          r = r\<lparr>rcc_CLKINT := 0x009F0000\<rparr>
      in r\<lparr>rcc_MISC := rcc_MISC r AND 0xFEFEFF00\<rparr>)"

definition RCC_HSEConfig :: "u32 \<Rightarrow> rcc_regs \<Rightarrow> rcc_regs" where
  "RCC_HSEConfig hse r =
     (let r = r\<lparr>rcc_CTRL := rcc_CTRL r AND NOT RCC_CTRL_HSEEN\<rparr>;
          r = r\<lparr>rcc_CTRL := rcc_CTRL r AND NOT RCC_CTRL_HSEBYPS\<rparr>
      in if hse = RCC_HSE_ENABLE then r\<lparr>rcc_CTRL := rcc_CTRL r OR RCC_CTRL_HSEEN\<rparr>
         else if hse = RCC_HSE_BYPASS
           then r\<lparr>rcc_CTRL := rcc_CTRL r OR (RCC_CTRL_HSEBYPS OR RCC_CTRL_HSEEN)\<rparr>
         else r)"

definition RCC_GetFlagStatus :: "u8 \<Rightarrow> rcc_regs \<Rightarrow> FlagStatus" where
  "RCC_GetFlagStatus flag r =
     (let tmp = drop_bit 5 flag;
          statusreg = (if tmp = 1 then rcc_CTRL r
                       else if tmp = 2 then rcc_BDC r else rcc_CTRLSTS r);
          pos = unat (flag AND 0x1F)
      in if statusreg AND push_bit pos 1 \<noteq> 0 then SET else RESET)"

text \<open>
  \<open>env c\<close> is the register block as the read number \<open>c\<close> finds it; the last read, after the
  stabilisation delay (a counting loop without effect), is number \<open>StartUpCounter\<close>.
\<close>

definition RCC_WaitForHSEStable :: "(u32 \<Rightarrow> rcc_regs) \<Rightarrow> ErrorStatus" where
  "RCC_WaitForHSEStable env =
     (let (st, counter) =
            poll_loop (\<lambda>c. RCC_GetFlagStatus RCC_FLAG_HSESTBL (env c) \<noteq> RESET)
              HSE_STARTUP_TIMEOUT 0
      in if RCC_GetFlagStatus RCC_FLAG_HSESTBL (env counter) \<noteq> RESET then SUCCESS else ERROR)"

definition RCC_SetHSITweakValue :: "u8 \<Rightarrow> rcc_regs \<Rightarrow> rcc_regs" where
  "RCC_SetHSITweakValue v r =
     (let tmpreg = rcc_CTRL r;
          tmpreg = tmpreg AND NOT RCC_CTRL_HSITWK;
          tmpreg = tmpreg OR push_bit 2 (ucast v)
      in r\<lparr>rcc_CTRL := tmpreg\<rparr>)"

definition RCC_SetHSICalibValue :: "u8 \<Rightarrow> rcc_regs \<Rightarrow> rcc_regs" where
  "RCC_SetHSICalibValue v r =
     (let r = r\<lparr>rcc_MISC := wr_byte 0 0x5A (rcc_MISC r)\<rparr>;
          tmpreg = rcc_CTRL r AND NOT RCC_CTRL_HSICAL;
          tmpreg = tmpreg OR push_bit 8 (ucast v);
          r = r\<lparr>rcc_CTRL := tmpreg\<rparr>
      in r\<lparr>rcc_MISC := wr_byte 0 0x0 (rcc_MISC r)\<rparr>)"

definition RCC_HSICmd :: "FunctionalState \<Rightarrow> rcc_regs \<Rightarrow> rcc_regs" where
  "RCC_HSICmd st r = r\<lparr>rcc_CTRL := wr_bitband 0 st (rcc_CTRL r)\<rparr>"

definition RCC_PLLCmd :: "FunctionalState \<Rightarrow> rcc_regs \<Rightarrow> rcc_regs" where
  "RCC_PLLCmd st r = r\<lparr>rcc_CTRL := wr_bitband 0x18 st (rcc_CTRL r)\<rparr>"

definition RCC_HSEClockFailureDetectorCmd :: "FunctionalState \<Rightarrow> rcc_regs \<Rightarrow> rcc_regs" where
  "RCC_HSEClockFailureDetectorCmd st r = r\<lparr>rcc_CTRL := wr_bitband 0x13 st (rcc_CTRL r)\<rparr>"

definition RCC_LSEConfig :: "u8 \<Rightarrow> rcc_regs \<Rightarrow> rcc_regs" where
  "RCC_LSEConfig lse r =
     (let r = r\<lparr>rcc_BDC := wr_byte 0 RCC_LSE_DISABLE (rcc_BDC r)\<rparr>;
          r = r\<lparr>rcc_BDC := wr_byte 0 RCC_LSE_DISABLE (rcc_BDC r)\<rparr>
      in if lse = RCC_LSE_ENABLE then r\<lparr>rcc_BDC := wr_byte 0 RCC_LSE_ENABLE (rcc_BDC r)\<rparr>
         else if lse = RCC_LSE_BYPASS
           then r\<lparr>rcc_BDC := wr_byte 0 (RCC_LSE_BYPASS OR RCC_LSE_ENABLE) (rcc_BDC r)\<rparr>
         else r)"

definition RCC_LSICmd :: "FunctionalState \<Rightarrow> rcc_regs \<Rightarrow> rcc_regs" where
  "RCC_LSICmd st r = r\<lparr>rcc_CTRLSTS := wr_bitband 0 st (rcc_CTRLSTS r)\<rparr>"

definition RCC_RTCCLKConfig :: "u32 \<Rightarrow> rcc_regs \<Rightarrow> rcc_regs" where
  "RCC_RTCCLKConfig sel r = r\<lparr>rcc_BDC := rcc_BDC r OR sel\<rparr>"

definition RCC_RTCCLKCmd :: "FunctionalState \<Rightarrow> rcc_regs \<Rightarrow> rcc_regs" where
  "RCC_RTCCLKCmd st r = r\<lparr>rcc_BDC := wr_bitband 0x0F st (rcc_BDC r)\<rparr>"

definition RCC_BackupResetCmd :: "FunctionalState \<Rightarrow> rcc_regs \<Rightarrow> rcc_regs" where
  "RCC_BackupResetCmd st r = r\<lparr>rcc_BDC := wr_bitband 0x10 st (rcc_BDC r)\<rparr>"

section \<open>The clock tree configuration\<close>

definition RCC_PLLConfig :: "u32 \<Rightarrow> u32 \<Rightarrow> u32 \<Rightarrow> rcc_regs \<Rightarrow> rcc_regs" where
  "RCC_PLLConfig refclk mult rng r =
     (let tmpreg = rcc_CFG r;
          tmpreg = tmpreg AND CFG_PLL_Mask;
          tmpreg = tmpreg OR (refclk OR mult OR rng)
      in r\<lparr>rcc_CFG := tmpreg\<rparr>)"

definition RCC_SYSCLKConfig :: "u32 \<Rightarrow> rcc_regs \<Rightarrow> rcc_regs" where
  "RCC_SYSCLKConfig sel r =
     (let tmpreg = rcc_CFG r;
          tmpreg = tmpreg AND NOT RCC_CFG_SYSCLKSEL;
          tmpreg = tmpreg OR sel
      in r\<lparr>rcc_CFG := tmpreg\<rparr>)"

definition RCC_GetSYSCLKSelction :: "rcc_regs \<Rightarrow> u8" where
  "RCC_GetSYSCLKSelction r = ucast (rcc_CFG r AND RCC_CFG_SYSCLKSTS)"

definition RCC_AHBCLKConfig :: "u32 \<Rightarrow> rcc_regs \<Rightarrow> rcc_regs" where
  "RCC_AHBCLKConfig d r =
     (let tmpreg = rcc_CFG r;
          tmpreg = tmpreg AND NOT RCC_CFG_AHBPSC;
          tmpreg = tmpreg OR d
      in r\<lparr>rcc_CFG := tmpreg\<rparr>)"

definition RCC_APB1CLKConfig :: "u32 \<Rightarrow> rcc_regs \<Rightarrow> rcc_regs" where
  "RCC_APB1CLKConfig d r =
     (let tmpreg = rcc_CFG r;
          tmpreg = tmpreg AND NOT RCC_CFG_APB1PSC;
          tmpreg = tmpreg OR d
      in r\<lparr>rcc_CFG := tmpreg\<rparr>)"

definition RCC_APB2CLKConfig :: "u32 \<Rightarrow> rcc_regs \<Rightarrow> rcc_regs" where
  "RCC_APB2CLKConfig d r =
     (let tmpreg = rcc_CFG r;
          tmpreg = tmpreg AND NOT RCC_CFG_APB2PSC;
          tmpreg = tmpreg OR push_bit 3 d
      in r\<lparr>rcc_CFG := tmpreg\<rparr>)"

definition RCC_USBCLKConfig :: "u32 \<Rightarrow> rcc_regs \<Rightarrow> rcc_regs" where
  "RCC_USBCLKConfig sel r =
     (let tmpreg = rcc_CFG r;
          tmpreg = tmpreg AND NOT RCC_CFG_USBPSC;
          tmpreg = tmpreg OR sel
      in r\<lparr>rcc_CFG := tmpreg\<rparr>)"

definition RCC_ADCCLKConfig :: "u32 \<Rightarrow> rcc_regs \<Rightarrow> rcc_regs" where
  "RCC_ADCCLKConfig d r =
     (let tmpreg = rcc_CFG r;
          tmpreg = tmpreg AND NOT RCC_CFG_ADCPSC;
          tmpreg = tmpreg OR d
      in r\<lparr>rcc_CFG := tmpreg\<rparr>)"

definition RCC_CLKOUTConfig :: "u32 \<Rightarrow> u32 \<Rightarrow> rcc_regs \<Rightarrow> rcc_regs" where
  "RCC_CLKOUTConfig clkout pre r =
     (let r = r\<lparr>rcc_MISC := rcc_MISC r AND NOT RCC_MCOPRE_MASK\<rparr>;
          r = r\<lparr>rcc_MISC := rcc_MISC r OR pre\<rparr>;
          tmpreg = rcc_CFG r;
          r = r\<lparr>rcc_MISC := rcc_MISC r AND NOT RCC_MISC_CLKOUT_3\<rparr>;
          tmpreg = tmpreg AND NOT RCC_CFG_CLKOUT
      in if clkout AND 0x10000000 = 0 then r\<lparr>rcc_CFG := tmpreg OR clkout\<rparr>
         else (let r = r\<lparr>rcc_MISC := rcc_MISC r OR RCC_MISC_CLKOUT_3\<rparr>
               in r\<lparr>rcc_CFG := tmpreg OR (clkout AND 0xFFFFFFF)\<rparr>))"

definition RCC_HSEDivConfig :: "u32 \<Rightarrow> rcc_regs \<Rightarrow> rcc_regs" where
  "RCC_HSEDivConfig d r =
     (let r = r\<lparr>rcc_MISC2 := rcc_MISC2 r AND NOT RCC_HSE_DIV_MASK\<rparr>
      in r\<lparr>rcc_MISC2 := rcc_MISC2 r OR d\<rparr>)"

definition RCC_HSI2SYS48M :: "FunctionalState \<Rightarrow> rcc_regs \<Rightarrow> rcc_regs" where
  "RCC_HSI2SYS48M st r =
     (if st = ENABLE
      then (let r = r\<lparr>rcc_MISC := rcc_MISC r OR RCC_HSI_DIV_EN\<rparr>
            in r\<lparr>rcc_MISC2 := rcc_MISC2 r OR RCC_HSI_SYS_CTRL\<rparr>)
      else r\<lparr>rcc_MISC2 := rcc_MISC2 r AND NOT RCC_HSI_SYS_CTRL\<rparr>)"

definition RCC_StepModeCmd :: "FunctionalState \<Rightarrow> rcc_regs \<Rightarrow> rcc_regs" where
  "RCC_StepModeCmd st r =
     (if ENABLE = st then r\<lparr>rcc_MISC2 := rcc_MISC2 r OR RCC_AUTO_STEP_EN\<rparr>
      else r\<lparr>rcc_MISC2 := rcc_MISC2 r AND NOT RCC_AUTO_STEP_EN\<rparr>)"

definition RCC_HSI2USB48M :: "FunctionalState \<Rightarrow> rcc_regs \<Rightarrow> rcc_regs" where
  "RCC_HSI2USB48M st r =
     (if ENABLE = st
      then (let r = r\<lparr>rcc_MISC := rcc_MISC r OR RCC_HSI_DIV_EN\<rparr>
            in r\<lparr>rcc_MISC2 := rcc_MISC2 r OR RCC_HSI_FOR_USB\<rparr>)
      else r\<lparr>rcc_MISC2 := rcc_MISC2 r AND NOT RCC_HSI_FOR_USB\<rparr>)"

definition RCC_USBINTRemap :: "FunctionalState \<Rightarrow> rcc_regs \<Rightarrow> rcc_regs" where
  "RCC_USBINTRemap st r =
     (if ENABLE = st then r\<lparr>rcc_INTCTRL := rcc_INTCTRL r OR RCC_INTCTRL_USB_INT_CTRL\<rparr>
      else r\<lparr>rcc_INTCTRL := rcc_INTCTRL r AND NOT RCC_INTCTRL_USB_INT_CTRL\<rparr>)"

definition RCC_MCO2TMR10 :: "FunctionalState \<Rightarrow> rcc_regs \<Rightarrow> rcc_regs" where
  "RCC_MCO2TMR10 st r =
     (if ENABLE = st then r\<lparr>rcc_TEST := rcc_TEST r OR RCC_TEST_MCO2TMR_EN\<rparr>
      else r\<lparr>rcc_TEST := rcc_TEST r AND NOT RCC_TEST_MCO2TMR_EN\<rparr>)"

section \<open>Interrupt and reset flags\<close>

definition RCC_INTConfig :: "u8 \<Rightarrow> FunctionalState \<Rightarrow> rcc_regs \<Rightarrow> rcc_regs" where
  "RCC_INTConfig i st r =
     (if st \<noteq> DISABLE
      then r\<lparr>rcc_CLKINT := wr_byte 1 (rd_byte 1 (rcc_CLKINT r) OR i) (rcc_CLKINT r)\<rparr>
      else r\<lparr>rcc_CLKINT := wr_byte 1 (rd_byte 1 (rcc_CLKINT r) AND NOT i) (rcc_CLKINT r)\<rparr>)"

definition RCC_ClearFlag :: "rcc_regs \<Rightarrow> rcc_regs" where
  "RCC_ClearFlag r = r\<lparr>rcc_CTRLSTS := rcc_CTRLSTS r OR RCC_CTRLSTS_RSTFC\<rparr>"

definition RCC_GetINTStatus :: "u8 \<Rightarrow> rcc_regs \<Rightarrow> FlagStatus" where
  "RCC_GetINTStatus i r = (if rcc_CLKINT r AND ucast i \<noteq> 0 then SET else RESET)"

definition RCC_ClearINTPendingBit :: "u8 \<Rightarrow> rcc_regs \<Rightarrow> rcc_regs" where
  "RCC_ClearINTPendingBit i r = r\<lparr>rcc_CLKINT := wr_byte 2 i (rcc_CLKINT r)\<rparr>"

section \<open>Peripheral clock gates and resets\<close>

definition RCC_AHBPeriphClockCmd :: "u32 \<Rightarrow> FunctionalState \<Rightarrow> rcc_regs \<Rightarrow> rcc_regs" where
  "RCC_AHBPeriphClockCmd p st r =
     (if st \<noteq> DISABLE then r\<lparr>rcc_AHBEN := rcc_AHBEN r OR p\<rparr>
      else r\<lparr>rcc_AHBEN := rcc_AHBEN r AND NOT p\<rparr>)"

definition RCC_APB2PeriphClockCmd :: "u32 \<Rightarrow> FunctionalState \<Rightarrow> rcc_regs \<Rightarrow> rcc_regs" where
  "RCC_APB2PeriphClockCmd p st r =
     (if st \<noteq> DISABLE then r\<lparr>rcc_APB2EN := rcc_APB2EN r OR p\<rparr>
      else r\<lparr>rcc_APB2EN := rcc_APB2EN r AND NOT p\<rparr>)"

definition RCC_APB1PeriphClockCmd :: "u32 \<Rightarrow> FunctionalState \<Rightarrow> rcc_regs \<Rightarrow> rcc_regs" where
  "RCC_APB1PeriphClockCmd p st r =
     (if st \<noteq> DISABLE then r\<lparr>rcc_APB1EN := rcc_APB1EN r OR p\<rparr>
      else r\<lparr>rcc_APB1EN := rcc_APB1EN r AND NOT p\<rparr>)"

definition RCC_AHBPeriphResetCmd :: "u32 \<Rightarrow> FunctionalState \<Rightarrow> rcc_regs \<Rightarrow> rcc_regs" where
  "RCC_AHBPeriphResetCmd p st r =
     (if st \<noteq> DISABLE then r\<lparr>rcc_AHBRST := rcc_AHBRST r OR p\<rparr>
      else r\<lparr>rcc_AHBRST := rcc_AHBRST r AND NOT p\<rparr>)"

definition RCC_APB2PeriphResetCmd :: "u32 \<Rightarrow> FunctionalState \<Rightarrow> rcc_regs \<Rightarrow> rcc_regs" where
  "RCC_APB2PeriphResetCmd p st r =
     (if st \<noteq> DISABLE then r\<lparr>rcc_APB2RST := rcc_APB2RST r OR p\<rparr>
      else r\<lparr>rcc_APB2RST := rcc_APB2RST r AND NOT p\<rparr>)"

definition RCC_APB1PeriphResetCmd :: "u32 \<Rightarrow> FunctionalState \<Rightarrow> rcc_regs \<Rightarrow> rcc_regs" where
  "RCC_APB1PeriphResetCmd p st r =
     (if st \<noteq> DISABLE then r\<lparr>rcc_APB1RST := rcc_APB1RST r OR p\<rparr>
      else r\<lparr>rcc_APB1RST := rcc_APB1RST r AND NOT p\<rparr>)"

section \<open>Reading the clock frequencies back\<close>

definition APBAHBPscTable :: "u32 list" where
  "APBAHBPscTable = [1, 2, 3, 4, 6, 7, 8, 9]"

definition ADCPscTable :: "u32 list" where
  "ADCPscTable = [2, 4, 6, 8, 2, 12, 8, 16]"

definition RCC_GET_PLLMULT :: "u32 \<Rightarrow> u32" where
  "RCC_GET_PLLMULT m =
     (drop_bit 18 (m AND RCC_CFG_PLLMULT_LB_MASK) OR drop_bit (29 - 4) (m AND RCC_CFG_PLLMULT_HB_MASK))
     + (if m AND RCC_CFG_PLLMULT_HB_MASK = 0
           \<and> m AND RCC_CFG_PLLMULT_LB_MASK \<noteq> RCC_CFG_PLLMULT_LB_MASK then 2 else 1)"

text \<open>The system clock: the switch on \<^verbatim>\<open>SYSCLKSTS\<close>.\<close>

definition sysclk_freq :: "rcc_regs \<Rightarrow> u32" where
  "sysclk_freq r =
     (let tmp = rcc_CFG r AND RCC_CFG_SYSCLKSTS
      in if tmp = 0x00 then
           (if rcc_MISC r AND RCC_HSI_DIV_EN \<noteq> 0 \<and> rcc_MISC2 r AND RCC_HSI_SYS_CTRL \<noteq> 0
            then HSI_VALUE * 6 else HSI_VALUE)
         else if tmp = 0x04 then HSE_VALUE
         else if tmp = 0x08 then
           (let pllrefclk = rcc_CFG r AND RCC_CFG_PLLRC;
                pllmult = RCC_GET_PLLMULT (rcc_CFG r AND RCC_CFG_PLLMULT);
                freq = (if pllrefclk = 0x00 then drop_bit 1 HSI_VALUE * pllmult
                        else if rcc_CFG r AND RCC_CFG_PLLHSEPSC \<noteq> 0 then
                          (let prediv = drop_bit 12 (rcc_MISC2 r AND RCC_HSE_DIV_MASK)
                           in (HSE_VALUE div (prediv + 2)) * pllmult)
                        else HSE_VALUE * pllmult)
            in if rcc_CFG r AND RCC_CFG_PLLRANGE = 0 \<and> RCC_PLL_RANGE < freq
               then RCC_PLL_RANGE else freq)
         else HSI_VALUE)"

text \<open>A prescaler field: the top bit selects the table, the low three bits index it.\<close>

definition bus_psc :: "u32 \<Rightarrow> u32 \<Rightarrow> nat \<Rightarrow> u32 \<Rightarrow> nat" where
  "bus_psc msk tp pos cfg =
     (let tmp = drop_bit pos (cfg AND (msk XOR tp))
      in if cfg AND tp \<noteq> 0 then unat (APBAHBPscTable ! unat tmp) else 0)"

definition RCC_GetClocksFreq :: "rcc_regs \<Rightarrow> RCC_ClockType" where
  "RCC_GetClocksFreq r =
     (let sys = sysclk_freq r;
          ahb = drop_bit (bus_psc RCC_CFG_AHBPSC RCC_CFG_AHBPSC_3 4 (rcc_CFG r)) sys;
          apb1 = drop_bit (bus_psc RCC_CFG_APB1PSC RCC_CFG_APB1PSC_2 8 (rcc_CFG r)) ahb;
          apb2 = drop_bit (bus_psc RCC_CFG_APB2PSC RCC_CFG_APB2PSC_2 11 (rcc_CFG r)) ahb;
          tmp = drop_bit 14 (rcc_CFG r AND CFG_ADCPSC_Set_Mask);
          tmp = (if rcc_CFG r AND CFG_ADCPSCBit2_Set_Mask \<noteq> 0 then tmp OR 4 else tmp);
          psc = ADCPscTable ! unat tmp
      in \<lparr>SYSCLK_Freq = sys, AHBCLK_Freq = ahb, APB1CLK_Freq = apb1, APB2CLK_Freq = apb2,
          ADCCLK_Freq = apb2 div psc\<rparr>)"

section \<open>The fields of the configuration register\<close>

text \<open>Each clock configuration function is a write of one field of \<^verbatim>\<open>RCC_CFG\<close>.\<close>

lemma rcc_CFG_written: "rcc_CFG (s\<lparr>rcc_CFG := x\<rparr>) = x" by simp

interpretation ahb_field: reg_field RCC_AHBCLKConfig rcc_CFG "\<lambda>d. d" RCC_CFG_AHBPSC
  by unfold_locales (simp_all only: RCC_AHBCLKConfig_def Let_def rcc_CFG_written
      field_write_read field_write_frame)

interpretation apb1_field: reg_field RCC_APB1CLKConfig rcc_CFG "\<lambda>d. d" RCC_CFG_APB1PSC
  by unfold_locales (simp_all only: RCC_APB1CLKConfig_def Let_def rcc_CFG_written
      field_write_read field_write_frame)

interpretation apb2_field: reg_field RCC_APB2CLKConfig rcc_CFG "push_bit 3" RCC_CFG_APB2PSC
  by unfold_locales (simp_all only: RCC_APB2CLKConfig_def Let_def rcc_CFG_written
      field_write_read field_write_frame)

interpretation usb_field: reg_field RCC_USBCLKConfig rcc_CFG "\<lambda>d. d" RCC_CFG_USBPSC
  by unfold_locales (simp_all only: RCC_USBCLKConfig_def Let_def rcc_CFG_written
      field_write_read field_write_frame)

interpretation sysclk_field: reg_field RCC_SYSCLKConfig rcc_CFG "\<lambda>d. d" RCC_CFG_SYSCLKSEL
  by unfold_locales (simp_all only: RCC_SYSCLKConfig_def Let_def rcc_CFG_written
      field_write_read field_write_frame)

interpretation adc_field: reg_field RCC_ADCCLKConfig rcc_CFG "\<lambda>d. d" RCC_CFG_ADCPSC
  by unfold_locales (simp_all only: RCC_ADCCLKConfig_def Let_def rcc_CFG_written
      field_write_read field_write_frame)

interpretation ahb_apb1: reg_field_pair RCC_AHBCLKConfig "\<lambda>d. d" RCC_CFG_AHBPSC
    RCC_APB1CLKConfig "\<lambda>d. d" RCC_CFG_APB1PSC rcc_CFG
  by unfold_locales simp

interpretation ahb_apb2: reg_field_pair RCC_AHBCLKConfig "\<lambda>d. d" RCC_CFG_AHBPSC
    RCC_APB2CLKConfig "push_bit 3" RCC_CFG_APB2PSC rcc_CFG
  by unfold_locales simp

interpretation apb1_apb2: reg_field_pair RCC_APB1CLKConfig "\<lambda>d. d" RCC_CFG_APB1PSC
    RCC_APB2CLKConfig "push_bit 3" RCC_CFG_APB2PSC rcc_CFG
  by unfold_locales simp

section \<open>Prescalers\<close>

lemma APBAHBPscTable_le: "i < 8 \<Longrightarrow> unat (APBAHBPscTable ! i) \<le> 9"
proof -
  assume i: "i < 8"
  have "\<forall>x \<in> set APBAHBPscTable. unat x \<le> 9" by (simp add: APBAHBPscTable_def)
  moreover have "length APBAHBPscTable = 8" by (simp add: APBAHBPscTable_def)
  ultimately show ?thesis using i by simp
qed

lemma small_index: "unat (m :: u32) div 2 ^ k < 8 \<Longrightarrow> unat (drop_bit k (x AND m)) < 8"
  using unat_drop_and_le [of k x m] by simp

lemma sysclk_freq_frame:
  assumes "rcc_CFG r' AND RCC_CFG_SYSCLKSTS = rcc_CFG r AND RCC_CFG_SYSCLKSTS"
    and "rcc_CFG r' AND RCC_CFG_PLLRC = rcc_CFG r AND RCC_CFG_PLLRC"
    and "rcc_CFG r' AND RCC_CFG_PLLMULT = rcc_CFG r AND RCC_CFG_PLLMULT"
    and "rcc_CFG r' AND RCC_CFG_PLLHSEPSC = rcc_CFG r AND RCC_CFG_PLLHSEPSC"
    and "rcc_CFG r' AND RCC_CFG_PLLRANGE = rcc_CFG r AND RCC_CFG_PLLRANGE"
    and "rcc_MISC r' = rcc_MISC r" and "rcc_MISC2 r' = rcc_MISC2 r"
  shows "sysclk_freq r' = sysclk_freq r"
  using assms by (simp only: sysclk_freq_def Let_def)

text \<open>The codes of the headers and the divisor each stands for.\<close>

definition AHBCLK_codes :: "(u32 \<times> nat) list" where
  "AHBCLK_codes = [(0x00, 1), (0x80, 2), (0x90, 4), (0xA0, 8), (0xB0, 16), (0xC0, 64),
     (0xD0, 128), (0xE0, 256), (0xF0, 512)]"

definition APBCLK_codes :: "(u32 \<times> nat) list" where
  "APBCLK_codes = [(0x000, 1), (0x400, 2), (0x500, 4), (0x600, 8), (0x700, 16)]"

lemma drop_bit_div: "unat (drop_bit k (w :: 'a::len word)) = unat w div 2 ^ k"
  by (simp only: unat_drop_bit_eq drop_bit_eq_div [where 'a=nat])

lemma sysclk_AHBCLKConfig:
  "(c, d) \<in> set AHBCLK_codes \<Longrightarrow> sysclk_freq (RCC_AHBCLKConfig c r) = sysclk_freq r"
  by (rule sysclk_freq_frame)
     (auto simp: RCC_AHBCLKConfig_def AHBCLK_codes_def keep_fields)

lemma sysclk_APB1CLKConfig:
  "(c, d) \<in> set APBCLK_codes \<Longrightarrow> sysclk_freq (RCC_APB1CLKConfig c r) = sysclk_freq r"
  by (rule sysclk_freq_frame)
     (auto simp: RCC_APB1CLKConfig_def APBCLK_codes_def keep_fields)

lemma sysclk_APB2CLKConfig:
  "(c, d) \<in> set APBCLK_codes \<Longrightarrow> sysclk_freq (RCC_APB2CLKConfig c r) = sysclk_freq r"
  by (rule sysclk_freq_frame)
     (auto simp: RCC_APB2CLKConfig_def APBCLK_codes_def keep_fields)

lemma bus_psc_AHBCLKConfig:
  "(c, d) \<in> set AHBCLK_codes \<Longrightarrow>
     2 ^ bus_psc RCC_CFG_AHBPSC RCC_CFG_AHBPSC_3 4 (rcc_CFG (RCC_AHBCLKConfig c r)) = d"
  by (auto simp: AHBCLK_codes_def RCC_AHBCLKConfig_def bus_psc_def APBAHBPscTable_def
      keep_fields)

lemma bus_psc_APB1CLKConfig:
  "(c, d) \<in> set APBCLK_codes \<Longrightarrow>
     2 ^ bus_psc RCC_CFG_APB1PSC RCC_CFG_APB1PSC_2 8 (rcc_CFG (RCC_APB1CLKConfig c r)) = d"
  by (auto simp: APBCLK_codes_def RCC_APB1CLKConfig_def bus_psc_def APBAHBPscTable_def
      keep_fields)

lemma bus_psc_APB2CLKConfig:
  "(c, d) \<in> set APBCLK_codes \<Longrightarrow>
     2 ^ bus_psc RCC_CFG_APB2PSC RCC_CFG_APB2PSC_2 11 (rcc_CFG (RCC_APB2CLKConfig c r)) = d"
  by (auto simp: APBCLK_codes_def RCC_APB2CLKConfig_def bus_psc_def APBAHBPscTable_def
      keep_fields)

lemma bus_psc_frame:
  "cfg' AND msk = cfg AND msk \<Longrightarrow> tp AND NOT msk = 0 \<Longrightarrow> bus_psc msk tp pos cfg' = bus_psc msk tp pos cfg"
proof -
  assume m: "cfg' AND msk = cfg AND msk" and t: "tp AND NOT msk = 0"
  have sub: "cfg' AND k = cfg AND k" if k: "k AND NOT msk = 0" for k
  proof (rule bit_word_eqI)
    fix n assume n: "n < LENGTH(32)"
    have "bit (cfg' AND msk) n = bit (cfg AND msk) n" "\<not> bit (k AND NOT msk) n"
      using m k by simp_all
    then show "bit (cfg' AND k) n = bit (cfg AND k) n" using n by (auto simp: bit_simps)
  qed
  have "(msk XOR tp) AND NOT msk = 0"
    using t by (auto simp: bit_eq_iff [where 'a="32 word"] bit_simps)
  then show ?thesis using sub t by (simp add: bus_psc_def)
qed

lemma AHB_of_APB1CLKConfig:
  "(c, d) \<in> set APBCLK_codes \<Longrightarrow>
     AHBCLK_Freq (RCC_GetClocksFreq (RCC_APB1CLKConfig c r)) = AHBCLK_Freq (RCC_GetClocksFreq r)"
proof -
  assume c: "(c, d) \<in> set APBCLK_codes"
  have "bus_psc RCC_CFG_AHBPSC RCC_CFG_AHBPSC_3 4 (rcc_CFG (RCC_APB1CLKConfig c r))
      = bus_psc RCC_CFG_AHBPSC RCC_CFG_AHBPSC_3 4 (rcc_CFG r)"
    by (rule bus_psc_frame)
       (use c in \<open>auto simp: APBCLK_codes_def RCC_APB1CLKConfig_def keep_fields\<close>)
  then show ?thesis by (simp add: RCC_GetClocksFreq_def Let_def sysclk_APB1CLKConfig [OF c])
qed

lemma AHB_of_APB2CLKConfig:
  "(c, d) \<in> set APBCLK_codes \<Longrightarrow>
     AHBCLK_Freq (RCC_GetClocksFreq (RCC_APB2CLKConfig c r)) = AHBCLK_Freq (RCC_GetClocksFreq r)"
proof -
  assume c: "(c, d) \<in> set APBCLK_codes"
  have "bus_psc RCC_CFG_AHBPSC RCC_CFG_AHBPSC_3 4 (rcc_CFG (RCC_APB2CLKConfig c r))
      = bus_psc RCC_CFG_AHBPSC RCC_CFG_AHBPSC_3 4 (rcc_CFG r)"
    by (rule bus_psc_frame)
       (use c in \<open>auto simp: APBCLK_codes_def RCC_APB2CLKConfig_def keep_fields\<close>)
  then show ?thesis by (simp add: RCC_GetClocksFreq_def Let_def sysclk_APB2CLKConfig [OF c])
qed

section \<open>The PLL\<close>

text \<open>The multiplication factors of the header, \<^verbatim>\<open>RCC_PLLMult_2\<close> to \<^verbatim>\<open>RCC_PLLMult_64\<close>.\<close>

definition RCC_PLLMult_codes :: "(u32 \<times> nat) list" where
  "RCC_PLLMult_codes =
    [(0x00000000, 2), (0x00040000, 3), (0x00080000, 4), (0x000C0000, 5),
     (0x00100000, 6), (0x00140000, 7), (0x00180000, 8), (0x001C0000, 9),
     (0x00200000, 10), (0x00240000, 11), (0x00280000, 12), (0x002C0000, 13),
     (0x00300000, 14), (0x00340000, 15), (0x00380000, 16), (0x20000000, 17),
     (0x20040000, 18), (0x20080000, 19), (0x200C0000, 20), (0x20100000, 21),
     (0x20140000, 22), (0x20180000, 23), (0x201C0000, 24), (0x20200000, 25),
     (0x20240000, 26), (0x20280000, 27), (0x202C0000, 28), (0x20300000, 29),
     (0x20340000, 30), (0x20380000, 31), (0x203C0000, 32), (0x40000000, 33),
     (0x40040000, 34), (0x40080000, 35), (0x400C0000, 36), (0x40100000, 37),
     (0x40140000, 38), (0x40180000, 39), (0x401C0000, 40), (0x40200000, 41),
     (0x40240000, 42), (0x40280000, 43), (0x402C0000, 44), (0x40300000, 45),
     (0x40340000, 46), (0x40380000, 47), (0x403C0000, 48), (0x60000000, 49),
     (0x60040000, 50), (0x60080000, 51), (0x600C0000, 52), (0x60100000, 53),
     (0x60140000, 54), (0x60180000, 55), (0x601C0000, 56), (0x60200000, 57),
     (0x60240000, 58), (0x60280000, 59), (0x602C0000, 60), (0x60300000, 61),
     (0x60340000, 62), (0x60380000, 63), (0x603C0000, 64)]"

definition RCC_PLLRefClk_codes :: "u32 list" where
  "RCC_PLLRefClk_codes = [0x00000000, 0x00010000, 0x00030000]"

lemma PLLMult_code_facts:
  "(m, n) \<in> set RCC_PLLMult_codes \<Longrightarrow>
     RCC_GET_PLLMULT m = of_nat n \<and> m AND NOT RCC_CFG_PLLMULT = 0 \<and> n \<le> 64"
proof -
  have "list_all (\<lambda>(m, n). RCC_GET_PLLMULT m = of_nat n \<and> m AND NOT RCC_CFG_PLLMULT = 0 \<and> n \<le> 64)
      RCC_PLLMult_codes"
    by (simp add: RCC_PLLMult_codes_def RCC_GET_PLLMULT_def)
  then show "(m, n) \<in> set RCC_PLLMult_codes \<Longrightarrow> ?thesis"
    by (auto simp: list_all_iff)
qed

text \<open>The clock that enters the PLL, in Hz, for a reference selection.\<close>

definition pll_input :: "u32 \<Rightarrow> rcc_regs \<Rightarrow> nat" where
  "pll_input ref r =
     (if ref = 0x00000000 then 4000000
      else if ref = 0x00010000 then 8000000
      else 8000000 div (unat (drop_bit 12 (rcc_MISC2 r AND RCC_HSE_DIV_MASK)) + 2))"

lemma prediv_le: "unat (drop_bit 12 (w AND RCC_HSE_DIV_MASK)) \<le> 3"
  using unat_drop_and_le [of 12 w RCC_HSE_DIV_MASK] by simp

lemma unat_div_plus2:
  "unat (p :: u32) \<le> 3 \<Longrightarrow> unat (HSE_VALUE div (p + 2)) = 8000000 div (unat p + 2)"
  by (simp add: unat_div unat_word_ariths)

lemma pll_input_le: "pll_input ref r \<le> 8000000"
  by (simp add: pll_input_def)

lemma unat_scaled:
  "a \<le> 8000000 \<Longrightarrow> n \<le> 64 \<Longrightarrow> unat (of_nat a * of_nat n :: u32) = a * n"
proof -
  assume "a \<le> 8000000" and "n \<le> 64"
  then have "a * n \<le> 8000000 * 64" by (rule mult_le_mono)
  then have "a * n < 2 ^ LENGTH(32)" by simp
  then have "unat (of_nat (a * n) :: u32) = a * n" by (rule unat_of_nat_small)
  then show ?thesis by simp
qed

text \<open>
  What \<open>sysclk_freq\<close> computes on the PLL branch, over the naturals: the product cannot wrap, and
  without the range bit it is capped at 72 MHz.
\<close>

lemma sysclk_pll:
  assumes st: "rcc_CFG r AND RCC_CFG_SYSCLKSTS = 0x08"
    and mult: "RCC_GET_PLLMULT (rcc_CFG r AND RCC_CFG_PLLMULT) = of_nat n" and n: "n \<le> 64"
    and ref: "rcc_CFG r AND RCC_CFG_PLLRC = ref AND RCC_CFG_PLLRC"
      "rcc_CFG r AND RCC_CFG_PLLHSEPSC = ref AND RCC_CFG_PLLHSEPSC"
      "ref \<in> set RCC_PLLRefClk_codes"
  shows "unat (sysclk_freq r) =
     (if rcc_CFG r AND RCC_CFG_PLLRANGE = 0 then min 72000000 (pll_input ref r * n)
      else pll_input ref r * n)"
proof -
  let ?psc = "drop_bit 12 (rcc_MISC2 r AND RCC_HSE_DIV_MASK)"
  have "8000000 div (unat ?psc + 2) < 2 ^ LENGTH(32)"
    by (rule order.strict_trans1 [OF div_le_dividend]) simp
  then have q: "HSE_VALUE div (?psc + 2) = of_nat (8000000 div (unat ?psc + 2))"
    by (intro word_unat_eq_iff [THEN iffD2])
       (simp only: unat_of_nat_small unat_div_plus2 [OF prediv_le])
  let ?f = "if rcc_CFG r AND RCC_CFG_PLLRC = 0x00 then drop_bit 1 HSI_VALUE * of_nat n
      else if rcc_CFG r AND RCC_CFG_PLLHSEPSC \<noteq> 0 then (HSE_VALUE div (?psc + 2)) * of_nat n
      else HSE_VALUE * of_nat n"
  have "?f = of_nat (pll_input ref r) * of_nat n"
    using ref q by (auto simp: RCC_PLLRefClk_codes_def pll_input_def)
  then have f: "unat ?f = pll_input ref r * n"
    using unat_scaled [OF pll_input_le [of ref r] n] by simp
  have "sysclk_freq r = (if rcc_CFG r AND RCC_CFG_PLLRANGE = 0 \<and> RCC_PLL_RANGE < ?f
      then RCC_PLL_RANGE else ?f)"
    using st by (simp add: sysclk_freq_def mult Let_def)
  then show ?thesis using f by (auto simp: word_less_nat_alt)
qed

section \<open>Properties\<close>

text \<open>
  Each bus prescaler reads back as configured: after \<^verbatim>\<open>RCC_AHBCLKConfig\<close> with the header's code
  for a divisor \<open>d\<close> the AHB clock is the unchanged system clock divided by \<open>d\<close>, and after
  \<^verbatim>\<open>RCC_APB1CLKConfig\<close> and \<^verbatim>\<open>RCC_APB2CLKConfig\<close> that bus runs at the unchanged AHB clock divided
  by \<open>d\<close>, whatever the rest of the register block holds.
\<close>

lemma bus_clock_roundtrip:
  assumes "(ca, da) \<in> set AHBCLK_codes" and "(cb, db) \<in> set APBCLK_codes"
  shows "unat (AHBCLK_Freq (RCC_GetClocksFreq (RCC_AHBCLKConfig ca r)))
           = unat (SYSCLK_Freq (RCC_GetClocksFreq r)) div da
       \<and> unat (APB1CLK_Freq (RCC_GetClocksFreq (RCC_APB1CLKConfig cb r)))
           = unat (AHBCLK_Freq (RCC_GetClocksFreq r)) div db
       \<and> unat (APB2CLK_Freq (RCC_GetClocksFreq (RCC_APB2CLKConfig cb r)))
           = unat (AHBCLK_Freq (RCC_GetClocksFreq r)) div db"
proof (intro conjI)
  show "unat (AHBCLK_Freq (RCC_GetClocksFreq (RCC_AHBCLKConfig ca r)))
      = unat (SYSCLK_Freq (RCC_GetClocksFreq r)) div da"
    using bus_psc_AHBCLKConfig [OF assms(1)]
    by (simp add: RCC_GetClocksFreq_def Let_def drop_bit_div sysclk_AHBCLKConfig [OF assms(1)])
  have "APB1CLK_Freq (RCC_GetClocksFreq q) = drop_bit (bus_psc RCC_CFG_APB1PSC RCC_CFG_APB1PSC_2 8
      (rcc_CFG q)) (AHBCLK_Freq (RCC_GetClocksFreq q))" for q
    by (simp add: RCC_GetClocksFreq_def Let_def)
  then show "unat (APB1CLK_Freq (RCC_GetClocksFreq (RCC_APB1CLKConfig cb r)))
      = unat (AHBCLK_Freq (RCC_GetClocksFreq r)) div db"
    using bus_psc_APB1CLKConfig [OF assms(2)]
    by (simp add: drop_bit_div AHB_of_APB1CLKConfig [OF assms(2)])
  have "APB2CLK_Freq (RCC_GetClocksFreq q) = drop_bit (bus_psc RCC_CFG_APB2PSC RCC_CFG_APB2PSC_2 11
      (rcc_CFG q)) (AHBCLK_Freq (RCC_GetClocksFreq q))" for q
    by (simp add: RCC_GetClocksFreq_def Let_def)
  then show "unat (APB2CLK_Freq (RCC_GetClocksFreq (RCC_APB2CLKConfig cb r)))
      = unat (AHBCLK_Freq (RCC_GetClocksFreq r)) div db"
    using bus_psc_APB2CLKConfig [OF assms(2)]
    by (simp add: drop_bit_div AHB_of_APB2CLKConfig [OF assms(2)])
qed

definition rcc_after_reset :: rcc_regs where
  "rcc_after_reset = \<lparr>rcc_CTRL = 0x83, rcc_CFG = 0, rcc_CLKINT = 0, rcc_APB2RST = 0,
     rcc_APB1RST = 0, rcc_AHBEN = 0x14, rcc_APB2EN = 0, rcc_APB1EN = 0, rcc_BDC = 0,
     rcc_CTRLSTS = 0, rcc_AHBRST = 0, rcc_MISC = 0, rcc_TEST = 0, rcc_MISC2 = 0, rcc_INTCTRL = 0\<rparr>"

lemma bus_clock_roundtrip_witness:
  "unat (AHBCLK_Freq (RCC_GetClocksFreq (RCC_AHBCLKConfig 0x90 rcc_after_reset))) = 2000000
   \<and> unat (APB1CLK_Freq (RCC_GetClocksFreq (RCC_APB1CLKConfig 0x400 rcc_after_reset))) = 4000000"
proof -
  have c: "(0x90, 4) \<in> set AHBCLK_codes" "(0x400, 2) \<in> set APBCLK_codes"
    by (simp_all add: AHBCLK_codes_def APBCLK_codes_def)
  show ?thesis using bus_clock_roundtrip [OF c, of rcc_after_reset]
    by (simp add: RCC_GetClocksFreq_def rcc_after_reset_def sysclk_freq_def bus_psc_def)
qed

text \<open>
  C37.  The PLL reads back as configured: with the PLL running as system clock, after
  \<^verbatim>\<open>RCC_PLLConfig\<close> with the header's code of a factor \<open>n\<close> in 2..64, \<^verbatim>\<open>RCC_GetClocksFreq\<close> reports
  the PLL input clock times \<open>n\<close>, computed without wrap-around, and caps it at 72 MHz exactly
  when the range bit is not set.
\<close>

theorem pll_roundtrip:
  assumes m: "(m, n) \<in> set RCC_PLLMult_codes" and ref: "ref \<in> set RCC_PLLRefClk_codes"
    and rng: "rng \<in> {0x00000000, 0x80000000}"
    and st: "rcc_CFG r AND RCC_CFG_SYSCLKSTS = 0x08"
  shows "unat (SYSCLK_Freq (RCC_GetClocksFreq (RCC_PLLConfig ref m rng r))) =
     (if rng = 0 then min 72000000 (pll_input ref r * n) else pll_input ref r * n)"
proof -
  let ?r = "RCC_PLLConfig ref m rng r"
  from PLLMult_code_facts [OF m]
  have mf: "RCC_GET_PLLMULT m = of_nat n" "m AND NOT RCC_CFG_PLLMULT = 0" "n \<le> 64" by simp_all
  have m_out: "m AND k = 0" if "k AND RCC_CFG_PLLMULT = 0" for k
    using mf(2) that field_write_other [of m RCC_CFG_PLLMULT k 0] by simp
  have m_in: "m AND RCC_CFG_PLLMULT = m"
    using field_write_read [OF mf(2), of 0] by simp
  have cfg: "rcc_CFG ?r = (rcc_CFG r AND CFG_PLL_Mask) OR (ref OR m OR rng)"
    by (simp add: RCC_PLLConfig_def)
  have refs: "ref = 0 \<or> ref = 0x00010000 \<or> ref = 0x00030000" "rng = 0 \<or> rng = 0x80000000"
    using ref rng by (auto simp: RCC_PLLRefClk_codes_def)
  have fields: "rcc_CFG ?r AND RCC_CFG_SYSCLKSTS = 0x08"
      "rcc_CFG ?r AND RCC_CFG_PLLMULT = m"
      "rcc_CFG ?r AND RCC_CFG_PLLRC = ref AND RCC_CFG_PLLRC"
      "rcc_CFG ?r AND RCC_CFG_PLLHSEPSC = ref AND RCC_CFG_PLLHSEPSC"
      "rcc_CFG ?r AND RCC_CFG_PLLRANGE = rng"
    using refs st
    by (auto simp: cfg keep_fields bit.conj_disj_distrib2 m_out m_in)
  have "pll_input ref (RCC_PLLConfig ref m k r) = pll_input ref r" for k
    by (simp add: pll_input_def RCC_PLLConfig_def)
  then show ?thesis
    using sysclk_pll [of ?r n ref] fields mf ref by (simp add: RCC_GetClocksFreq_def Let_def)
qed

theorem pll_roundtrip_witness:
  "unat (SYSCLK_Freq (RCC_GetClocksFreq
     (RCC_PLLConfig 0x00010000 0x20200000 0x80000000 (rcc_after_reset\<lparr>rcc_CFG := 0x0A\<rparr>)))) = 200000000"
proof -
  have h: "(0x20200000, 25) \<in> set RCC_PLLMult_codes" "0x00010000 \<in> set RCC_PLLRefClk_codes"
      "(0x80000000 :: u32) \<in> {0x00000000, 0x80000000}"
      "rcc_CFG (rcc_after_reset\<lparr>rcc_CFG := 0x0A\<rparr>) AND RCC_CFG_SYSCLKSTS = 0x08"
    by (simp_all add: RCC_PLLMult_codes_def RCC_PLLRefClk_codes_def)
  show ?thesis using pll_roundtrip [OF h] by (simp add: pll_input_def)
qed

lemma RCC_GET_PLLMULT_le: "unat (RCC_GET_PLLMULT m) \<le> 64"
proof -
  let ?lb = "drop_bit 18 (m AND RCC_CFG_PLLMULT_LB_MASK)"
  let ?hb = "drop_bit (29 - 4) (m AND RCC_CFG_PLLMULT_HB_MASK)"
  have lb: "unat ?lb < 2 ^ 4" and hb: "unat ?hb < 2 ^ 6"
    using unat_drop_and_le [of 18 m RCC_CFG_PLLMULT_LB_MASK]
      unat_drop_and_le [of 25 m RCC_CFG_PLLMULT_HB_MASK] by simp_all
  have u: "unat (?lb OR ?hb) < 2 ^ 6" using lb hb by (intro unat_or_less) simp_all
  have low: "m AND RCC_CFG_PLLMULT_HB_MASK = 0 \<Longrightarrow> unat (?lb OR ?hb) < 2 ^ 4"
    using lb by simp
  have add: "unat (x + y) \<le> 64" if "unat x + unat y \<le> 64" for x y :: u32
    using that unat_plus_simple [of x y] by (simp add: unat_word_ariths)
  show ?thesis
  proof (cases "m AND RCC_CFG_PLLMULT_HB_MASK = 0 \<and> m AND RCC_CFG_PLLMULT_LB_MASK \<noteq> RCC_CFG_PLLMULT_LB_MASK")
    case True
    then have "unat (?lb OR ?hb) + unat (2 :: u32) \<le> 64" using low by simp
    then show ?thesis unfolding RCC_GET_PLLMULT_def if_P [OF True] by (rule add)
  next
    case False
    have "unat (?lb OR ?hb) + unat (1 :: u32) \<le> 64" using u by simp
    then show ?thesis unfolding RCC_GET_PLLMULT_def if_not_P [OF False] by (rule add)
  qed
qed

lemma sysclk_freq_le: "unat (sysclk_freq r) \<le> 512000000"
proof -
  define m where "m = RCC_GET_PLLMULT (rcc_CFG r AND RCC_CFG_PLLMULT)"
  define d where "d = HSE_VALUE div (drop_bit 12 (rcc_MISC2 r AND RCC_HSE_DIV_MASK) + 2)"
  have m: "unat m \<le> 64" by (simp add: m_def RCC_GET_PLLMULT_le)
  have d: "unat d \<le> 8000000" by (simp add: d_def unat_div)
  have prod: "unat (f * m) \<le> 512000000" if "unat f \<le> 8000000" for f :: u32
  proof -
    have "unat f * unat m \<le> 8000000 * 64" using that m by (rule mult_le_mono)
    moreover have "unat (f * m) \<le> unat f * unat m" by (simp add: unat_word_ariths)
    ultimately show ?thesis by simp
  qed
  show ?thesis
    unfolding sysclk_freq_def Let_def m_def [symmetric] d_def [symmetric]
    using prod [OF d] prod [of HSE_VALUE] prod [of "drop_bit 1 HSI_VALUE"] by simp
qed

lemma adc_index_less:
  "unat (if c then drop_bit 14 (x AND CFG_ADCPSC_Set_Mask) OR 4
         else drop_bit 14 (x AND CFG_ADCPSC_Set_Mask)) < 8"
proof -
  have a: "unat (drop_bit 14 (x AND CFG_ADCPSC_Set_Mask)) < 2 ^ 3"
    using unat_drop_and_le [of 14 x CFG_ADCPSC_Set_Mask] by simp
  have "unat (drop_bit 14 (x AND CFG_ADCPSC_Set_Mask) OR 4) < 2 ^ 3"
    by (rule unat_or_less [OF a]) simp
  with a show ?thesis by simp
qed

lemma ADCPscTable_ge: "i < 8 \<Longrightarrow> 2 \<le> unat (ADCPscTable ! i)"
proof -
  assume i: "i < 8"
  have "\<forall>x \<in> set ADCPscTable. 2 \<le> unat x" by (simp add: ADCPscTable_def)
  moreover have "length ADCPscTable = 8" by (simp add: ADCPscTable_def)
  ultimately show ?thesis using i by simp
qed

text \<open>
  The clocks \<^verbatim>\<open>RCC_GetClocksFreq\<close> reports in any register state: the bus prescaler table is indexed within its
  eight entries, the system clock stays at or below 512 MHz, no bus runs faster than the clock it is
  derived from, and the ADC clock is at most half the APB2 clock.
\<close>

lemma clocks_in_range:
  "let c = RCC_GetClocksFreq r in
     unat (drop_bit 4 (rcc_CFG r AND (RCC_CFG_AHBPSC XOR RCC_CFG_AHBPSC_3))) < length APBAHBPscTable
   \<and> unat (drop_bit 8 (rcc_CFG r AND (RCC_CFG_APB1PSC XOR RCC_CFG_APB1PSC_2))) < length APBAHBPscTable
   \<and> unat (drop_bit 11 (rcc_CFG r AND (RCC_CFG_APB2PSC XOR RCC_CFG_APB2PSC_2))) < length APBAHBPscTable
   \<and> unat (SYSCLK_Freq c) \<le> 512000000
   \<and> unat (AHBCLK_Freq c) \<le> unat (SYSCLK_Freq c)
   \<and> unat (APB1CLK_Freq c) \<le> unat (AHBCLK_Freq c)
   \<and> unat (APB2CLK_Freq c) \<le> unat (AHBCLK_Freq c)
   \<and> 2 * unat (ADCCLK_Freq c) \<le> unat (APB2CLK_Freq c)"
proof -
  have div2: "2 * unat (x div p) \<le> unat x" if "2 \<le> unat p" for x p :: u32
  proof -
    have "unat (x div p) \<le> unat x div 2" using that by (simp add: unat_div div_le_mono2)
    then show ?thesis by simp
  qed
  have idx: "unat (drop_bit 4 (rcc_CFG r AND 0x70)) < 8"
      "unat (drop_bit 8 (rcc_CFG r AND 0x300)) < 8" "unat (drop_bit 11 (rcc_CFG r AND 0x1800)) < 8"
    using unat_drop_and_le [of 4 "rcc_CFG r" "0x70"] unat_drop_and_le [of 8 "rcc_CFG r" "0x300"]
      unat_drop_and_le [of 11 "rcc_CFG r" "0x1800"] by simp_all
  have len: "length APBAHBPscTable = 8" by (simp add: APBAHBPscTable_def)
  have adc: "2 * unat (ADCCLK_Freq (RCC_GetClocksFreq r)) \<le> unat (APB2CLK_Freq (RCC_GetClocksFreq r))"
    unfolding RCC_GetClocksFreq_def Let_def RCC_ClockType.simps
    by (rule div2) (rule ADCPscTable_ge [OF adc_index_less])
  have xors: "RCC_CFG_AHBPSC XOR RCC_CFG_AHBPSC_3 = 0x70" "RCC_CFG_APB1PSC XOR RCC_CFG_APB1PSC_2 = 0x300"
      "RCC_CFG_APB2PSC XOR RCC_CFG_APB2PSC_2 = 0x1800" by simp_all
  show ?thesis
    unfolding Let_def xors len
    using idx adc by (simp only: RCC_GetClocksFreq_def Let_def RCC_ClockType.simps drop_bit_div)
      (simp add: sysclk_freq_le)
qed

end
