(* ===== verification/Usart.thy ===== *)
theory Usart
  imports Rcc
begin

text \<open>
  The USART driver, \<^verbatim>\<open>at32f4xx_usart.c\<close>: the register block, initialisation with the baud rate
  computation, the interrupt enable and status functions, data transfer and the mode switches.
  A peripheral is named by \<open>usart_id\<close>, the values \<^verbatim>\<open>USART1\<close> .. \<^verbatim>\<open>UART8\<close> of the AT32F407.
\<close>

section \<open>Registers and init structures\<close>

datatype usart_id = USART1 | USART2 | USART3 | UART4 | UART5 | USART6 | UART7 | UART8

record usart_regs =
  us_STS :: u16
  us_DT :: u16
  us_BAUDR :: u16
  us_CTRL1 :: u16
  us_CTRL2 :: u16
  us_CTRL3 :: u16
  us_GTP :: u16

record USART_InitType =
  USART_BaudRate :: u32
  USART_WordLength :: u16
  USART_StopBits :: u16
  USART_Parity :: u16
  USART_Mode :: u16
  USART_HardwareFlowControl :: u16

record USART_ClockInitType =
  USART_Clock :: u16
  USART_CPOL :: u16
  USART_CPHA :: u16
  USART_LastBit :: u16

abbreviation (input) CTRL1_UEN_Set :: u16 where "CTRL1_UEN_Set \<equiv> 0x2000"
abbreviation (input) CTRL1_UEN_Reset :: u16 where "CTRL1_UEN_Reset \<equiv> 0xDFFF"
abbreviation (input) CTRL1_WUMODE_Mask :: u16 where "CTRL1_WUMODE_Mask \<equiv> 0xF7FF"
abbreviation (input) CTRL1_RECMUTE_Set :: u16 where "CTRL1_RECMUTE_Set \<equiv> 0x0002"
abbreviation (input) CTRL1_RECMUTE_Reset :: u16 where "CTRL1_RECMUTE_Reset \<equiv> 0xFFFD"
abbreviation (input) CTRL1_SBRK_Set :: u16 where "CTRL1_SBRK_Set \<equiv> 0x0001"
abbreviation (input) CTRL1_CLEAR_MASK :: u32 where "CTRL1_CLEAR_MASK \<equiv> 0xE9F3"
abbreviation (input) CTRL2_ADDRESS_Mask :: u16 where "CTRL2_ADDRESS_Mask \<equiv> 0xFFF0"
abbreviation (input) CTRL2_LINEN_Set :: u16 where "CTRL2_LINEN_Set \<equiv> 0x4000"
abbreviation (input) CTRL2_LINEN_Reset :: u16 where "CTRL2_LINEN_Reset \<equiv> 0xBFFF"
abbreviation (input) CTRL2_LBDLEN_Mask :: u16 where "CTRL2_LBDLEN_Mask \<equiv> 0xFFDF"
abbreviation (input) CTRL2_STOPB_CLEAR_Mask :: u32 where "CTRL2_STOPB_CLEAR_Mask \<equiv> 0xCFFF"
abbreviation (input) CTRL2_CLOCK_CLEAR_Mask :: u32 where "CTRL2_CLOCK_CLEAR_Mask \<equiv> 0xF0FF"
abbreviation (input) CTRL3_SCMEN_Set :: u16 where "CTRL3_SCMEN_Set \<equiv> 0x0020"
abbreviation (input) CTRL3_SCMEN_Reset :: u16 where "CTRL3_SCMEN_Reset \<equiv> 0xFFDF"
abbreviation (input) CTRL3_NACKEN_Set :: u16 where "CTRL3_NACKEN_Set \<equiv> 0x0010"
abbreviation (input) CTRL3_NACKEN_Reset :: u16 where "CTRL3_NACKEN_Reset \<equiv> 0xFFEF"
abbreviation (input) CTRL3_HALFSEL_Set :: u16 where "CTRL3_HALFSEL_Set \<equiv> 0x0008"
abbreviation (input) CTRL3_HALFSEL_Reset :: u16 where "CTRL3_HALFSEL_Reset \<equiv> 0xFFF7"
abbreviation (input) CTRL3_IRDALP_Mask :: u16 where "CTRL3_IRDALP_Mask \<equiv> 0xFFFB"
abbreviation (input) CTRL3_CLEAR_Mask :: u32 where "CTRL3_CLEAR_Mask \<equiv> 0xFCFF"
abbreviation (input) CTRL3_IRDAEN_Set :: u16 where "CTRL3_IRDAEN_Set \<equiv> 0x0002"
abbreviation (input) CTRL3_IRDAEN_Reset :: u16 where "CTRL3_IRDAEN_Reset \<equiv> 0xFFFD"
abbreviation (input) GTPR_LSB_Mask :: u16 where "GTPR_LSB_Mask \<equiv> 0x00FF"
abbreviation (input) GTPR_MSB_Mask :: u16 where "GTPR_MSB_Mask \<equiv> 0xFF00"
abbreviation (input) INT_Mask :: u16 where "INT_Mask \<equiv> 0x001F"
abbreviation (input) USART_WordLength_8b :: u16 where "USART_WordLength_8b \<equiv> 0x0000"
abbreviation (input) USART_StopBits_1 :: u16 where "USART_StopBits_1 \<equiv> 0x0000"
abbreviation (input) USART_Parity_No :: u16 where "USART_Parity_No \<equiv> 0x0000"
abbreviation (input) USART_Mode_Rx :: u16 where "USART_Mode_Rx \<equiv> 0x0004"
abbreviation (input) USART_Mode_Tx :: u16 where "USART_Mode_Tx \<equiv> 0x0008"
abbreviation (input) USART_HardwareFlowControl_None :: u16 where "USART_HardwareFlowControl_None \<equiv> 0x0000"
abbreviation (input) USART_INT_RDNE :: u16 where "USART_INT_RDNE \<equiv> 0x0525"
abbreviation (input) USART_FLAG_TRAC :: u16 where "USART_FLAG_TRAC \<equiv> 0x0040"

section \<open>Initialisation\<close>

text \<open>The reset line of each peripheral: its bus and its bit.\<close>

definition USART_Reset :: "usart_id \<Rightarrow> rcc_regs \<Rightarrow> rcc_regs" where
  "USART_Reset u r =
     (let pulse2 = (\<lambda>p. RCC_APB2PeriphResetCmd p DISABLE (RCC_APB2PeriphResetCmd p ENABLE r));
          pulse1 = (\<lambda>p. RCC_APB1PeriphResetCmd p DISABLE (RCC_APB1PeriphResetCmd p ENABLE r))
      in case u of
           USART1 \<Rightarrow> pulse2 0x00004000
         | USART2 \<Rightarrow> pulse1 0x00020000
         | USART3 \<Rightarrow> pulse1 0x00040000
         | UART4 \<Rightarrow> pulse1 0x00080000
         | UART5 \<Rightarrow> pulse1 0x00100000
         | USART6 \<Rightarrow> pulse2 0x01000000
         | UART7 \<Rightarrow> pulse2 0x02000000
         | UART8 \<Rightarrow> pulse2 0x04000000)"

text \<open>
  The divider of \<^verbatim>\<open>USART_Init\<close> in sixteenths, from the bus clock and the baud rate: the
  quotient is computed in 64 bits with three more decimals, stored in 32 bits, split into an
  integer and a decimal part, and the decimal part is rounded to sixteenths with a carry.
\<close>

definition baud_divider :: "u32 \<Rightarrow> u32 \<Rightarrow> u16" where
  "baud_divider apbclock baud =
     (let tmpreg = (ucast ((ucast apbclock :: u64) * 1000 div 16 div ucast baud) :: u32);
          integerdivider = tmpreg div 1000;
          fractionaldivider = 16 * (tmpreg mod 1000);
          (integerdivider, fractionaldivider) =
            (if fractionaldivider mod 1000 < 500
             then (integerdivider, fractionaldivider div 1000)
             else (let f = fractionaldivider div 1000 + 1
                   in if 16 \<le> f then (integerdivider + 1, 0) else (integerdivider, f)))
      in ucast (push_bit 4 integerdivider OR fractionaldivider))"

definition USART_Init ::
    "usart_id \<Rightarrow> USART_InitType \<Rightarrow> rcc_regs \<Rightarrow> usart_regs \<Rightarrow> fault + usart_regs" where
  "USART_Init u init rcc us =
     (let tmpreg = ucast (us_CTRL2 us) :: u32;
          tmpreg = tmpreg AND CTRL2_STOPB_CLEAR_Mask;
          tmpreg = tmpreg OR ucast (USART_StopBits init);
          us = us\<lparr>us_CTRL2 := ucast tmpreg\<rparr>;
          tmpreg = ucast (us_CTRL1 us) :: u32;
          tmpreg = tmpreg AND CTRL1_CLEAR_MASK;
          tmpreg = tmpreg OR (ucast (USART_WordLength init) OR ucast (USART_Parity init)
                              OR ucast (USART_Mode init));
          us = us\<lparr>us_CTRL1 := ucast tmpreg\<rparr>;
          tmpreg = ucast (us_CTRL3 us) :: u32;
          tmpreg = tmpreg AND CTRL3_CLEAR_Mask;
          tmpreg = tmpreg OR ucast (USART_HardwareFlowControl init);
          us = us\<lparr>us_CTRL3 := ucast tmpreg\<rparr>;
          clocks = RCC_GetClocksFreq rcc;
          apbclock = (if u = USART1 \<or> u = USART6 \<or> u = UART7 \<or> u = UART8
                      then APB2CLK_Freq clocks else APB1CLK_Freq clocks)
      in if USART_BaudRate init = 0 then Inl DivByZero
         else Inr (us\<lparr>us_BAUDR := baud_divider apbclock (USART_BaudRate init)\<rparr>))"

definition USART_StructInit :: USART_InitType where
  "USART_StructInit = \<lparr>USART_BaudRate = 9600, USART_WordLength = USART_WordLength_8b,
     USART_StopBits = USART_StopBits_1, USART_Parity = USART_Parity_No,
     USART_Mode = USART_Mode_Rx OR USART_Mode_Tx,
     USART_HardwareFlowControl = USART_HardwareFlowControl_None\<rparr>"

definition USART_ClockInit :: "USART_ClockInitType \<Rightarrow> usart_regs \<Rightarrow> usart_regs" where
  "USART_ClockInit ci us =
     (let tmpreg = ucast (us_CTRL2 us) :: u32;
          tmpreg = tmpreg AND CTRL2_CLOCK_CLEAR_Mask;
          tmpreg = tmpreg OR (ucast (USART_Clock ci) OR ucast (USART_CPOL ci)
                              OR ucast (USART_CPHA ci) OR ucast (USART_LastBit ci))
      in us\<lparr>us_CTRL2 := ucast tmpreg\<rparr>)"

definition USART_ClockStructInit :: USART_ClockInitType where
  "USART_ClockStructInit = \<lparr>USART_Clock = 0, USART_CPOL = 0, USART_CPHA = 0, USART_LastBit = 0\<rparr>"

section \<open>Enable, interrupts and flags\<close>

definition USART_Cmd :: "FunctionalState \<Rightarrow> usart_regs \<Rightarrow> usart_regs" where
  "USART_Cmd st us =
     (if st \<noteq> DISABLE then us\<lparr>us_CTRL1 := us_CTRL1 us OR CTRL1_UEN_Set\<rparr>
      else us\<lparr>us_CTRL1 := us_CTRL1 us AND CTRL1_UEN_Reset\<rparr>)"

text \<open>
  An interrupt code holds the control register in bits 7..5, the enable bit in bits 4..0 and the
  status bit in bits 15..8.  The 32-bit access to \<^verbatim>\<open>usartxbase\<close> touches the 16-bit register and the
  reserved half above it, which is not modelled.
\<close>

definition USART_INTConfig :: "u16 \<Rightarrow> FunctionalState \<Rightarrow> usart_regs \<Rightarrow> usart_regs" where
  "USART_INTConfig i st us =
     (let usartreg = drop_bit 5 (ucast i :: u8);
          itpos = unat (i AND INT_Mask);
          itmask = push_bit itpos (1 :: u32);
          f = (\<lambda>w :: u16. ucast (if st \<noteq> DISABLE then (ucast w :: u32) OR itmask
                                 else (ucast w :: u32) AND NOT itmask) :: u16)
      in if usartreg = 0x01 then us\<lparr>us_CTRL1 := f (us_CTRL1 us)\<rparr>
         else if usartreg = 0x02 then us\<lparr>us_CTRL2 := f (us_CTRL2 us)\<rparr>
         else us\<lparr>us_CTRL3 := f (us_CTRL3 us)\<rparr>)"

definition USART_GetFlagStatus :: "u16 \<Rightarrow> usart_regs \<Rightarrow> FlagStatus" where
  "USART_GetFlagStatus flag us = (if us_STS us AND flag \<noteq> 0 then SET else RESET)"

definition USART_ClearFlag :: "u16 \<Rightarrow> usart_regs \<Rightarrow> usart_regs" where
  "USART_ClearFlag flag us = us\<lparr>us_STS := rc_w0 (us_STS us) (NOT flag)\<rparr>"

definition USART_GetITStatus :: "u16 \<Rightarrow> usart_regs \<Rightarrow> FlagStatus" where
  "USART_GetITStatus i us =
     (let usartreg = drop_bit 5 (ucast i :: u8);
          itmask = push_bit (unat (i AND INT_Mask)) (1 :: u32);
          itmask = (if usartreg = 0x01 then itmask AND ucast (us_CTRL1 us)
                    else if usartreg = 0x02 then itmask AND ucast (us_CTRL2 us)
                    else itmask AND ucast (us_CTRL3 us));
          bitpos = push_bit (unat (drop_bit 8 i)) (1 :: u32);
          bitpos = bitpos AND ucast (us_STS us)
      in if itmask \<noteq> 0 \<and> bitpos \<noteq> 0 then SET else RESET)"

definition USART_ClearITPendingBit :: "u16 \<Rightarrow> usart_regs \<Rightarrow> usart_regs" where
  "USART_ClearITPendingBit i us =
     (let bitpos = unat (drop_bit 8 i); itmask = push_bit bitpos (1 :: u16)
      in us\<lparr>us_STS := rc_w0 (us_STS us) (NOT itmask)\<rparr>)"

definition USART_DMACmd :: "u16 \<Rightarrow> FunctionalState \<Rightarrow> usart_regs \<Rightarrow> usart_regs" where
  "USART_DMACmd req st us =
     (if st \<noteq> DISABLE then us\<lparr>us_CTRL3 := us_CTRL3 us OR req\<rparr>
      else us\<lparr>us_CTRL3 := us_CTRL3 us AND NOT req\<rparr>)"

section \<open>Data\<close>

definition USART_SendData :: "u16 \<Rightarrow> usart_regs \<Rightarrow> usart_regs" where
  "USART_SendData d us = us\<lparr>us_DT := d AND 0x01FF\<rparr>"

definition USART_ReceiveData :: "usart_regs \<Rightarrow> u16" where
  "USART_ReceiveData us = us_DT us AND 0x01FF"

definition USART_SendBreak :: "usart_regs \<Rightarrow> usart_regs" where
  "USART_SendBreak us = us\<lparr>us_CTRL1 := us_CTRL1 us OR CTRL1_SBRK_Set\<rparr>"

section \<open>Modes\<close>

definition USART_SetAddress :: "u8 \<Rightarrow> usart_regs \<Rightarrow> usart_regs" where
  "USART_SetAddress a us =
     (let us = us\<lparr>us_CTRL2 := us_CTRL2 us AND CTRL2_ADDRESS_Mask\<rparr>
      in us\<lparr>us_CTRL2 := us_CTRL2 us OR ucast a\<rparr>)"

definition USART_WakeUpConfig :: "u16 \<Rightarrow> usart_regs \<Rightarrow> usart_regs" where
  "USART_WakeUpConfig w us =
     (let us = us\<lparr>us_CTRL1 := us_CTRL1 us AND CTRL1_WUMODE_Mask\<rparr>
      in us\<lparr>us_CTRL1 := us_CTRL1 us OR w\<rparr>)"

definition USART_ReceiverWakeUpCmd :: "FunctionalState \<Rightarrow> usart_regs \<Rightarrow> usart_regs" where
  "USART_ReceiverWakeUpCmd st us =
     (if st \<noteq> DISABLE then us\<lparr>us_CTRL1 := us_CTRL1 us OR CTRL1_RECMUTE_Set\<rparr>
      else us\<lparr>us_CTRL1 := us_CTRL1 us AND CTRL1_RECMUTE_Reset\<rparr>)"

definition USART_LINBreakDetectLengthConfig :: "u16 \<Rightarrow> usart_regs \<Rightarrow> usart_regs" where
  "USART_LINBreakDetectLengthConfig l us =
     (let us = us\<lparr>us_CTRL2 := us_CTRL2 us AND CTRL2_LBDLEN_Mask\<rparr>
      in us\<lparr>us_CTRL2 := us_CTRL2 us OR l\<rparr>)"

definition USART_LINCmd :: "FunctionalState \<Rightarrow> usart_regs \<Rightarrow> usart_regs" where
  "USART_LINCmd st us =
     (if st \<noteq> DISABLE then us\<lparr>us_CTRL2 := us_CTRL2 us OR CTRL2_LINEN_Set\<rparr>
      else us\<lparr>us_CTRL2 := us_CTRL2 us AND CTRL2_LINEN_Reset\<rparr>)"

definition USART_SetGuardTime :: "u8 \<Rightarrow> usart_regs \<Rightarrow> usart_regs" where
  "USART_SetGuardTime g us =
     (let us = us\<lparr>us_GTP := us_GTP us AND GTPR_LSB_Mask\<rparr>
      in us\<lparr>us_GTP := us_GTP us OR push_bit 8 (ucast g)\<rparr>)"

definition USART_SetPrescaler :: "u8 \<Rightarrow> usart_regs \<Rightarrow> usart_regs" where
  "USART_SetPrescaler p us =
     (let us = us\<lparr>us_GTP := us_GTP us AND GTPR_MSB_Mask\<rparr>
      in us\<lparr>us_GTP := us_GTP us OR ucast p\<rparr>)"

definition USART_IrDAConfig :: "u16 \<Rightarrow> usart_regs \<Rightarrow> usart_regs" where
  "USART_IrDAConfig m us =
     (let us = us\<lparr>us_CTRL3 := us_CTRL3 us AND CTRL3_IRDALP_Mask\<rparr>
      in us\<lparr>us_CTRL3 := us_CTRL3 us OR m\<rparr>)"

definition USART_IrDACmd :: "FunctionalState \<Rightarrow> usart_regs \<Rightarrow> usart_regs" where
  "USART_IrDACmd st us =
     (if st \<noteq> DISABLE then us\<lparr>us_CTRL3 := us_CTRL3 us OR CTRL3_IRDAEN_Set\<rparr>
      else us\<lparr>us_CTRL3 := us_CTRL3 us AND CTRL3_IRDAEN_Reset\<rparr>)"

definition USART_SmartCardCmd :: "FunctionalState \<Rightarrow> usart_regs \<Rightarrow> usart_regs" where
  "USART_SmartCardCmd st us =
     (if st \<noteq> DISABLE then us\<lparr>us_CTRL3 := us_CTRL3 us OR CTRL3_SCMEN_Set\<rparr>
      else us\<lparr>us_CTRL3 := us_CTRL3 us AND CTRL3_SCMEN_Reset\<rparr>)"

definition USART_SmartCardNACKCmd :: "FunctionalState \<Rightarrow> usart_regs \<Rightarrow> usart_regs" where
  "USART_SmartCardNACKCmd st us =
     (if st \<noteq> DISABLE then us\<lparr>us_CTRL3 := us_CTRL3 us OR CTRL3_NACKEN_Set\<rparr>
      else us\<lparr>us_CTRL3 := us_CTRL3 us AND CTRL3_NACKEN_Reset\<rparr>)"

definition USART_HalfDuplexCmd :: "FunctionalState \<Rightarrow> usart_regs \<Rightarrow> usart_regs" where
  "USART_HalfDuplexCmd st us =
     (if st \<noteq> DISABLE then us\<lparr>us_CTRL3 := us_CTRL3 us OR CTRL3_HALFSEL_Set\<rparr>
      else us\<lparr>us_CTRL3 := us_CTRL3 us AND CTRL3_HALFSEL_Reset\<rparr>)"

section \<open>The baud rate divider\<close>

text \<open>The split-and-carry rounding is rounding to the nearest sixteenth.\<close>

lemma round_half_1000:
  fixes f :: nat
  shows "(f + 500) div 1000 = f div 1000 + (if f mod 1000 < 500 then 0 else 1)"
proof -
  define q r where "q = f div 1000" and "r = f mod 1000"
  have f: "f + 500 = 1000 * q + (r + 500)" and r: "r < 1000"
    by (simp_all add: q_def r_def)
  have "(f + 500) div 1000 = q + (r + 500) div 1000"
    unfolding f by simp
  moreover have "(r + 500) div 1000 = (if r < 500 then 0 else 1)"
    using r by (auto intro: div_nat_eqI)
  ultimately show ?thesis by (simp add: q_def r_def)
qed

lemma round_sixteenth:
  fixes t :: nat
  shows "(16 * t + 500) div 1000 =
     16 * (t div 1000) + ((16 * (t mod 1000)) div 1000
        + (if (16 * (t mod 1000)) mod 1000 < 500 then 0 else 1))"
proof -
  define q r where "q = t div 1000" and "r = t mod 1000"
  have "t = 1000 * q + r" by (simp add: q_def r_def)
  then have "16 * t + 500 = 1000 * (16 * q) + (16 * r + 500)" by simp
  then have "(16 * t + 500) div 1000 = 16 * q + (16 * r + 500) div 1000"
    by simp
  then show ?thesis by (simp only: round_half_1000 q_def r_def)
qed

lemma push_bit_or_low:
  assumes "unat (a :: u32) < 2 ^ 28" and "unat (f :: u32) < 16"
  shows "unat (push_bit 4 a OR f) = 16 * unat a + unat f"
proof -
  have a: "unat (push_bit 4 a) = 16 * unat a"
    using assms(1) by (simp add: push_bit_eq_mult unat_word_ariths)
  have "push_bit 4 a AND f = 0"
  proof (rule bit_word_eqI)
    fix n assume n: "n < LENGTH(32)"
    have "\<not> bit f n" if "4 \<le> n"
    proof -
      have "unat f < 2 ^ n" using assms(2) power_increasing [OF that, of "2 :: nat"] by simp
      then have "\<not> bit (unat f) n" by (metis bit_take_bit_iff order.irrefl take_bit_nat_eq_self)
      then show ?thesis by (simp add: bit_unsigned_iff n)
    qed
    then show "bit (push_bit 4 a AND f) n = bit (0 :: u32) n"
      by (auto simp: bit_simps)
  qed
  then have "push_bit 4 a OR f = push_bit 4 a + f"
    by (simp add: disjunctive_add_eq_or)
  then show ?thesis using a assms by (simp add: unat_word_ariths)
qed

lemma baud_word_rounding:
  fixes tw :: u32
  assumes t: "unat tw < 4096000" and fit: "(16 * unat tw + 500) div 1000 < 65536"
  shows "unat (let integerdivider = tw div 1000;
          fractionaldivider = 16 * (tw mod 1000);
          (integerdivider, fractionaldivider) =
            (if fractionaldivider mod 1000 < 500
             then (integerdivider, fractionaldivider div 1000)
             else (let f = fractionaldivider div 1000 + 1
                   in if 16 \<le> f then (integerdivider + 1, 0) else (integerdivider, f)))
      in (ucast (push_bit 4 integerdivider OR fractionaldivider) :: u16))
    = (16 * unat tw + 500) div 1000"
proof -
  define I F where "I = tw div 1000" and "F = 16 * (tw mod 1000)"
  have I: "unat I = unat tw div 1000" by (simp add: I_def unat_div)
  have r: "unat (tw mod 1000) = unat tw mod 1000" by (simp add: unat_mod)
  have F: "unat F = 16 * (unat tw mod 1000)"
  proof -
    have "16 * (unat tw mod 1000) < 16000" by simp
    then show ?thesis by (simp add: F_def unat_word_ariths r)
  qed
  have I_less: "unat I < 4096" using t by (simp add: I less_mult_imp_div_less)
  have Fd: "unat (F div 1000) < 16" by (simp add: unat_div F less_mult_imp_div_less)
  have F1: "unat (F div 1000 + 1) = unat F div 1000 + 1"
  proof -
    have "unat F div 1000 < 16" using Fd by (simp add: unat_div)
    then show ?thesis by (simp add: unat_word_ariths)
  qed
  have I1: "unat (I + 1) = unat I + 1" using I_less by (simp add: unat_word_ariths)
  have sum: "16 * unat I + (unat F div 1000 + (if unat F mod 1000 < 500 then 0 else 1))
      = (16 * unat tw + 500) div 1000" by (simp only: round_sixteenth I F)
  have c: "(F mod 1000 < 500) = (unat F mod 1000 < 500)"
    by (simp add: word_less_nat_alt unat_mod)
  have join: "unat (ucast (push_bit 4 a OR f) :: u16) = (16 * unat tw + 500) div 1000"
    if "unat a < 2 ^ 28" "unat f < 16" "16 * unat a + unat f = (16 * unat tw + 500) div 1000"
    for a f :: u32
    using push_bit_or_low [OF that(1,2)] that(3) fit
    by (simp add: unsigned_ucast_eq take_bit_nat_eq_self)
  note fold = I_def [symmetric] F_def [symmetric] Let_def [of "tw div 1000"]
    Let_def [of "16 * (tw mod 1000)"]
  show ?thesis
  proof (cases "F mod 1000 < 500")
    case True
    then have "unat (ucast (push_bit 4 I OR F div 1000) :: u16) = (16 * unat tw + 500) div 1000"
      using join [of I "F div 1000"] I_less Fd sum c by (simp add: unat_div)
    then show ?thesis using True by (simp add: fold)
  next
    case False
    then have s: "16 * unat I + (unat F div 1000 + 1) = (16 * unat tw + 500) div 1000"
      using sum c by simp
    have le16: "unat F div 1000 + 1 \<le> 16" using Fd by (simp add: unat_div)
    show ?thesis
    proof (cases "16 \<le> F div 1000 + 1")
      case True
      then have "unat F div 1000 + 1 = 16" using le16 F1 by (simp add: word_le_nat_alt)
      then have "unat (ucast (push_bit 4 (I + 1) OR 0) :: u16) = (16 * unat tw + 500) div 1000"
        using join [of "I + 1" 0] I_less I1 s by simp
      then show ?thesis using False True by (simp add: fold)
    next
      case c2: False
      then have "unat (F div 1000 + 1) < 16" by (simp add: word_le_nat_alt)
      then have "unat (ucast (push_bit 4 I OR (F div 1000 + 1)) :: u16)
          = (16 * unat tw + 500) div 1000"
        using join [of I "F div 1000 + 1"] I_less F1 s by simp
      then show ?thesis using False c2 by (simp add: fold)
    qed
  qed
qed

lemma unat_baud_divider:
  assumes clk: "unat clk < 65535 * unat baud"
  shows "unat (baud_divider clk baud) = (16 * (unat clk * 1000 div 16 div unat baud) + 500) div 1000"
proof -
  define t where "t = unat clk * 1000 div 16 div unat baud"
  define tw where "tw = (ucast ((ucast clk :: u64) * 1000 div 16 div ucast baud) :: u32)"
  have t_eq: "t = unat clk * 1000 div (16 * unat baud)" by (simp add: t_def flip: div_mult2_eq)
  have t_le: "t < 4095938"
    unfolding t_eq by (rule less_mult_imp_div_less) (use clk in linarith)
  have "unat clk < 2 ^ 32" using unsigned_less [of clk] by simp
  then have c: "unat ((ucast clk :: u64) * 1000) = unat clk * 1000"
    by (simp add: unat_word_ariths unsigned_ucast_eq take_bit_nat_eq_self)
  have "unat baud < 2 ^ LENGTH(32)" by (rule unsigned_less)
  then have "unat baud < 2 ^ 64" by simp
  then have b: "unat (ucast baud :: u64) = unat baud"
    by (simp add: unsigned_ucast_eq take_bit_nat_eq_self)
  have "unat ((ucast clk :: u64) * 1000 div 16 div ucast baud) = t"
    by (simp only: unat_div c b t_def) simp
  then have t: "unat tw = t"
    using t_le by (simp add: tw_def unsigned_ucast_eq take_bit_nat_eq_self)
  have fit: "(16 * t + 500) div 1000 < 65536"
    by (rule less_mult_imp_div_less) (use t_le in linarith)
  show ?thesis
    unfolding baud_divider_def tw_def [symmetric] t_def [symmetric] Let_def [of tw]
    using baud_word_rounding [of tw] t t_le fit by simp
qed

text \<open>The bus clock of a peripheral.\<close>

definition usart_bus_clock :: "usart_id \<Rightarrow> rcc_regs \<Rightarrow> u32" where
  "usart_bus_clock u rcc =
     (if u \<in> {USART1, USART6, UART7, UART8} then APB2CLK_Freq (RCC_GetClocksFreq rcc)
      else APB1CLK_Freq (RCC_GetClocksFreq rcc))"

lemma USART_Init_BAUDR:
  "USART_BaudRate init \<noteq> 0 \<Longrightarrow> \<exists>us'. USART_Init u init rcc us = Inr us'
     \<and> us_BAUDR us' = baud_divider (usart_bus_clock u rcc) (USART_BaudRate init)"
  by (simp add: USART_Init_def Let_def usart_bus_clock_def)

lemma rounding_error:
  fixes c b :: nat
  assumes b: "0 < b" and q: "q = (16 * (c * 1000 div 16 div b) + 500) div 1000"
  shows "1000 * q * b \<le> 1000 * c + 500 * b" and "1000 * c \<le> 1000 * q * b + 516 * b"
proof -
  define t where "t = c * 1000 div (16 * b)"
  have tq: "q = (16 * t + 500) div 1000" using q by (simp add: t_def flip: div_mult2_eq)
  have "16 * b * t \<le> c * 1000" unfolding t_def by (rule times_div_less_eq_dividend)
  then have lo: "16 * t * b \<le> c * 1000" by (simp only: mult.assoc mult.commute [of b t])
  have "c * 1000 < 16 * b * (t + 1)"
    using b dividend_less_times_div [of "16 * b" "c * 1000"] by (simp add: t_def)
  then have hi: "c * 1000 \<le> 16 * t * b + 16 * b" by (simp add: algebra_simps)
  have "1000 * q \<le> 16 * t + 500" by (simp only: tq times_div_less_eq_dividend)
  then have "1000 * q * b \<le> (16 * t + 500) * b" by (rule mult_le_mono1)
  with lo show "1000 * q * b \<le> 1000 * c + 500 * b" by (simp add: algebra_simps)
  have "16 * t + 500 \<le> 1000 * q + 1000"
    using dividend_less_times_div [of 1000 "16 * t + 500"] by (simp add: tq)
  then have "16 * t * b \<le> (1000 * q + 500) * b" by (intro mult_le_mono1) simp
  with hi show "1000 * c \<le> 1000 * q * b + 516 * b" by (simp add: algebra_simps)
qed

lemma baud_error:
  assumes "baud \<noteq> 0" and "unat clk < 65535 * unat baud"
  shows "\<bar>1000 * int (unat (baud_divider clk baud)) * int (unat baud) - 1000 * int (unat clk)\<bar>
    \<le> 516 * int (unat baud)"
proof -
  have pos: "0 < unat baud" using assms(1) by (simp add: unat_gt_0)
  note r = rounding_error [OF pos unat_baud_divider [OF assms(2)]]
  have "int (1000 * unat (baud_divider clk baud) * unat baud) \<le> int (1000 * unat clk + 500 * unat baud)"
      "int (1000 * unat clk) \<le> int (1000 * unat (baud_divider clk baud) * unat baud + 516 * unat baud)"
    using r by (simp_all only: of_nat_le_iff)
  then show ?thesis by (simp add: abs_le_iff)
qed

section \<open>Interrupt gating\<close>

text \<open>Where an interrupt code points: control register 1, 2 or 3 and the enable bit in it.\<close>

definition int_enable_bit :: "u16 \<Rightarrow> nat \<times> nat" where
  "int_enable_bit i =
     (let k = drop_bit 5 (ucast i :: u8)
      in (if k = 0x01 then 1 else if k = 0x02 then 2 else 3, unat (i AND INT_Mask)))"

definition int_enabled :: "u16 \<Rightarrow> usart_regs \<Rightarrow> bool" where
  "int_enabled i us =
     (let (k, n) = int_enable_bit i
      in bit (if k = 1 then us_CTRL1 us else if k = 2 then us_CTRL2 us else us_CTRL3 us) n)"

definition int_pending :: "u16 \<Rightarrow> usart_regs \<Rightarrow> bool" where
  "int_pending i us = bit (us_STS us) (unat (drop_bit 8 i))"

lemma one_bit_and_ucast:
  "((2 :: u32) ^ n AND ucast (w :: u16) = 0) = (\<not> bit w n)"
  unfolding push_bit_of_1 [symmetric] and.commute [of "push_bit n 1"] and_push_bit_one_eq_0
  using bit_imp_le_length [of w n] by (auto simp: bit_ucast_iff)

lemma GetITStatus_iff:
  "USART_GetITStatus i us = SET \<longleftrightarrow> int_enabled i us \<and> int_pending i us"
  by (auto simp: USART_GetITStatus_def int_enabled_def int_enable_bit_def int_pending_def
      Let_def one_bit_and_ucast)

lemma bit_ucast_set:
  assumes "n < 16"
  shows "bit (ucast ((ucast (w :: u16) :: u32) OR 2 ^ m) :: u16) n \<longleftrightarrow> bit w n \<or> n = m"
    and "bit (ucast ((ucast (w :: u16) :: u32) AND NOT (2 ^ m)) :: u16) n \<longleftrightarrow> bit w n \<and> n \<noteq> m"
  using assms by (auto simp: bit_simps simp del: push_bit_of_1 simp flip: push_bit_of_1)

lemma int_enabled_INTConfig:
  assumes "snd (int_enable_bit j) < 16"
  shows "int_enabled j (USART_INTConfig i st us) \<longleftrightarrow>
     (if int_enable_bit j = int_enable_bit i then st = ENABLE else int_enabled j us)"
proof -
  obtain k n where j: "int_enable_bit j = (k, n)" by fastforce
  have k: "k = 1 \<or> k = 2 \<or> k = 3" using j by (auto simp: int_enable_bit_def Let_def split: if_splits)
  have n: "n < 16" using assms j by simp
  have st: "st \<noteq> DISABLE \<longleftrightarrow> st = ENABLE" by (cases st) simp_all
  show ?thesis
    using k n j by (cases st)
      (auto simp: int_enabled_def USART_INTConfig_def Let_def int_enable_bit_def [of i]
        bit_ucast_set)
qed

lemma int_pending_INTConfig: "int_pending j (USART_INTConfig i st us) = int_pending j us"
  by (simp add: int_pending_def USART_INTConfig_def Let_def)

section \<open>Properties\<close>


definition usart_after_reset :: usart_regs where
  "usart_after_reset = \<lparr>us_STS = 0xC0, us_DT = 0, us_BAUDR = 0, us_CTRL1 = 0, us_CTRL2 = 0,
     us_CTRL3 = 0, us_GTP = 0\<rparr>"


text \<open>
  Interrupt gating: after \<^verbatim>\<open>USART_INTConfig\<close> with any header code \<open>i\<close>, \<^verbatim>\<open>USART_GetITStatus\<close>
  of \<open>i\<close> reports exactly the status bit if it was enabled and never if it was disabled, and every
  code \<open>j\<close> with another enable bit reports what it reported before.
\<close>

lemma interrupt_gating:
  assumes "unat (i AND INT_Mask) < 16" and "unat (j AND INT_Mask) < 16"
    and "int_enable_bit j \<noteq> int_enable_bit i"
  shows "(USART_GetITStatus i (USART_INTConfig i ENABLE us) = SET
            \<longleftrightarrow> bit (us_STS us) (unat (drop_bit 8 i)))
       \<and> USART_GetITStatus i (USART_INTConfig i DISABLE us) = RESET
       \<and> USART_GetITStatus j (USART_INTConfig i st us) = USART_GetITStatus j us"
proof -
  have s: "snd (int_enable_bit i) < 16" "snd (int_enable_bit j) < 16"
    using assms(1,2) by (simp_all add: int_enable_bit_def Let_def)
  note e = int_enabled_INTConfig [OF s(1)] int_enabled_INTConfig [OF s(2)] int_pending_INTConfig
  have eq: "f = g" if "f = SET \<longleftrightarrow> g = SET" for f g :: FlagStatus
    using that by (cases f; cases g) simp_all
  have "USART_GetITStatus i (USART_INTConfig i DISABLE us) \<noteq> SET"
    by (simp add: GetITStatus_iff e)
  then have "USART_GetITStatus i (USART_INTConfig i DISABLE us) = RESET"
    by (cases "USART_GetITStatus i (USART_INTConfig i DISABLE us)") simp_all
  moreover have "USART_GetITStatus j (USART_INTConfig i st us) = USART_GetITStatus j us"
    by (rule eq) (simp add: GetITStatus_iff e assms(3))
  ultimately show ?thesis by (simp add: GetITStatus_iff e) (simp add: int_pending_def)
qed

text \<open>The receive interrupt of \<^verbatim>\<open>hy_uart.c\<close> against the idle-line one.\<close>

lemma interrupt_gating_witness:
  "USART_GetITStatus USART_INT_RDNE (USART_INTConfig USART_INT_RDNE ENABLE
      (usart_after_reset\<lparr>us_STS := 0x20\<rparr>)) = SET"
proof -
  have h: "unat (USART_INT_RDNE AND INT_Mask) < 16" "unat ((0x0424 :: u16) AND INT_Mask) < 16"
      "int_enable_bit 0x0424 \<noteq> int_enable_bit USART_INT_RDNE"
    by (simp_all add: int_enable_bit_def)
  show ?thesis using interrupt_gating [OF h, of "usart_after_reset\<lparr>us_STS := 0x20\<rparr>"] by simp
qed

text \<open>
  \<^verbatim>\<open>USART_Reset\<close> pulses the one reset line of its peripheral and leaves it released; no other
  bit of any register of the clock controller changes.
\<close>

lemma usart_reset_pulse:
  "USART_Reset u r =
     (if u \<in> {USART1, USART6, UART7, UART8}
      then r\<lparr>rcc_APB2RST := unset_bit (case u of USART1 \<Rightarrow> 14 | USART6 \<Rightarrow> 24 | UART7 \<Rightarrow> 25 | _ \<Rightarrow> 26)
               (rcc_APB2RST r)\<rparr>
      else r\<lparr>rcc_APB1RST := unset_bit (case u of USART2 \<Rightarrow> 17 | USART3 \<Rightarrow> 18 | UART4 \<Rightarrow> 19 | _ \<Rightarrow> 20)
               (rcc_APB1RST r)\<rparr>)"
  by (cases u) (simp_all add: USART_Reset_def Let_def RCC_APB2PeriphResetCmd_def
      RCC_APB1PeriphResetCmd_def unset_bit_eq_and_not push_bit_eq_mult reg_simps set_then_clear)

end
