(* ===== verification/Gpio.thy ===== *)
theory Gpio
  imports Rcc
begin

text \<open>
  The GPIO and AFIO driver, \<^verbatim>\<open>at32f4xx_gpio.c\<close> as built for the AT32F407: pin configuration, data
  access and the alternate-function remapping.  The set, reset, lock and output registers act on
  the store itself, so the port keeps the sequence of those stores; the remaining registers hold
  the value last written or presented by the hardware.
\<close>

section \<open>Registers\<close>

datatype gpio_port = GPIOA | GPIOB | GPIOC | GPIOD | GPIOE

datatype gpio_store = ST_OPTDT u32 | ST_BSRE u32 | ST_BRE u32 | ST_LOCK u32

record gpio_regs =
  gp_CTRLL :: u32
  gp_CTRLH :: u32
  gp_IPTDT :: u32
  gp_OPTDT :: u32
  gp_SRCTR :: u32
  gp_HDRV :: u32
  gp_stores :: "gpio_store list"

record afio_regs =
  af_EVCTRL :: u32
  af_MAP :: u32
  af_EXTIC :: "u32 list"
  af_MAP2 :: u32
  af_MAP3 :: u32
  af_MAP4 :: u32
  af_MAP5 :: u32
  af_MAP6 :: u32
  af_MAP7 :: u32
  af_MAP8 :: u32

record GPIO_InitType =
  GPIO_Pins :: u16
  GPIO_MaxSpeed :: u32
  GPIO_Mode :: u32

abbreviation (input) GPIO_MaxSpeed_10MHz :: u32 where "GPIO_MaxSpeed_10MHz \<equiv> 1"
abbreviation (input) GPIO_MaxSpeed_2MHz :: u32 where "GPIO_MaxSpeed_2MHz \<equiv> 2"
abbreviation (input) GPIO_MaxSpeed_50MHz :: u32 where "GPIO_MaxSpeed_50MHz \<equiv> 2"
abbreviation (input) GPIO_Mode_IN_ANALOG :: u32 where "GPIO_Mode_IN_ANALOG \<equiv> 0x0"
abbreviation (input) GPIO_Mode_IN_FLOATING :: u32 where "GPIO_Mode_IN_FLOATING \<equiv> 0x04"
abbreviation (input) GPIO_Mode_IN_PD :: u32 where "GPIO_Mode_IN_PD \<equiv> 0x28"
abbreviation (input) GPIO_Mode_IN_PU :: u32 where "GPIO_Mode_IN_PU \<equiv> 0x48"
abbreviation (input) GPIO_Mode_OUT_OD :: u32 where "GPIO_Mode_OUT_OD \<equiv> 0x14"
abbreviation (input) GPIO_Mode_OUT_PP :: u32 where "GPIO_Mode_OUT_PP \<equiv> 0x10"
abbreviation (input) GPIO_Mode_AF_OD :: u32 where "GPIO_Mode_AF_OD \<equiv> 0x1C"
abbreviation (input) GPIO_Mode_AF_PP :: u32 where "GPIO_Mode_AF_PP \<equiv> 0x18"
abbreviation (input) GPIO_Pins_All :: u16 where "GPIO_Pins_All \<equiv> 0xFFFF"
abbreviation (input) RCC_APB2PERIPH_AFIO :: u32 where "RCC_APB2PERIPH_AFIO \<equiv> 0x00000001"
abbreviation (input) RCC_APB2PERIPH_GPIOA :: u32 where "RCC_APB2PERIPH_GPIOA \<equiv> 0x00000004"
abbreviation (input) RCC_APB2PERIPH_GPIOB :: u32 where "RCC_APB2PERIPH_GPIOB \<equiv> 0x00000008"
abbreviation (input) RCC_APB2PERIPH_GPIOC :: u32 where "RCC_APB2PERIPH_GPIOC \<equiv> 0x00000010"
abbreviation (input) RCC_APB2PERIPH_GPIOD :: u32 where "RCC_APB2PERIPH_GPIOD \<equiv> 0x00000020"
abbreviation (input) RCC_APB2PERIPH_GPIOE :: u32 where "RCC_APB2PERIPH_GPIOE \<equiv> 0x00000040"
abbreviation (input) EVCR_PORTPINCONFIG_MASK :: u32 where "EVCR_PORTPINCONFIG_MASK \<equiv> 0xFF80"

section \<open>Reset and pin configuration\<close>

definition GPIO_Reset :: "gpio_port \<Rightarrow> rcc_regs \<Rightarrow> rcc_regs" where
  "GPIO_Reset x r =
     (let pulse = (\<lambda>p. RCC_APB2PeriphResetCmd p DISABLE (RCC_APB2PeriphResetCmd p ENABLE r))
      in if x = GPIOA then pulse RCC_APB2PERIPH_GPIOA
         else if x = GPIOB then pulse RCC_APB2PERIPH_GPIOB
         else if x = GPIOC then pulse RCC_APB2PERIPH_GPIOC
         else if x = GPIOD then pulse RCC_APB2PERIPH_GPIOD
         else if x = GPIOE then pulse RCC_APB2PERIPH_GPIOE
         else r)"

definition GPIO_AFIOReset :: "rcc_regs \<Rightarrow> rcc_regs" where
  "GPIO_AFIOReset r =
     RCC_APB2PeriphResetCmd RCC_APB2PERIPH_AFIO DISABLE
       (RCC_APB2PeriphResetCmd RCC_APB2PERIPH_AFIO ENABLE r)"

definition store :: "gpio_store \<Rightarrow> gpio_regs \<Rightarrow> gpio_regs" where
  "store s g = g\<lparr>gp_stores := gp_stores g @ [s]\<rparr>"

text \<open>One round of the loop over the eight low pins, then over the eight high ones.\<close>

definition GPIO_Init_low ::
    "GPIO_InitType \<Rightarrow> u32 \<Rightarrow> nat \<Rightarrow> u32 \<times> gpio_regs \<Rightarrow> u32 \<times> gpio_regs" where
  "GPIO_Init_low init currentmode pinpos = (\<lambda>(tmpreg, g).
     let pos = push_bit pinpos 1;
         currentpin = (ucast (GPIO_Pins init) :: u32) AND pos
     in if currentpin = pos then
          (let pos = pinpos * 4;
               pinmask = push_bit pos 0x0F;
               tmpreg = tmpreg AND NOT pinmask;
               tmpreg = tmpreg OR push_bit pos currentmode;
               g = (if GPIO_Mode init = GPIO_Mode_IN_PD then store (ST_BRE (push_bit pinpos 1)) g
                    else if GPIO_Mode init = GPIO_Mode_IN_PU then store (ST_BSRE (push_bit pinpos 1)) g
                    else g)
           in (tmpreg, g))
        else (tmpreg, g))"

definition GPIO_Init_high ::
    "GPIO_InitType \<Rightarrow> u32 \<Rightarrow> nat \<Rightarrow> u32 \<times> gpio_regs \<Rightarrow> u32 \<times> gpio_regs" where
  "GPIO_Init_high init currentmode pinpos = (\<lambda>(tmpreg, g).
     let pos = push_bit (pinpos + 8) 1;
         currentpin = (ucast (GPIO_Pins init) :: u32) AND pos
     in if currentpin = pos then
          (let pos = pinpos * 4;
               pinmask = push_bit pos 0x0F;
               tmpreg = tmpreg AND NOT pinmask;
               tmpreg = tmpreg OR push_bit pos currentmode;
               g = (if GPIO_Mode init = GPIO_Mode_IN_PD
                    then store (ST_BRE (push_bit (pinpos + 8) 1)) g else g);
               g = (if GPIO_Mode init = GPIO_Mode_IN_PU
                    then store (ST_BSRE (push_bit (pinpos + 8) 1)) g else g)
           in (tmpreg, g))
        else (tmpreg, g))"

definition GPIO_Init :: "GPIO_InitType \<Rightarrow> gpio_regs \<Rightarrow> gpio_regs" where
  "GPIO_Init init g =
     (let currentmode = GPIO_Mode init AND 0x0F;
          currentmode = (if GPIO_Mode init AND 0x10 \<noteq> 0 then currentmode OR GPIO_MaxSpeed init
                         else currentmode);
          g = (if (ucast (GPIO_Pins init) :: u32) AND 0x00FF \<noteq> 0 then
                 (let (tmpreg, g) = fold (GPIO_Init_low init currentmode) [0..<8] (gp_CTRLL g, g)
                  in g\<lparr>gp_CTRLL := tmpreg\<rparr>)
               else g)
      in if 0x00FF < GPIO_Pins init then
           (let (tmpreg, g) = fold (GPIO_Init_high init currentmode) [0..<8] (gp_CTRLH g, g)
            in g\<lparr>gp_CTRLH := tmpreg\<rparr>)
         else g)"

definition GPIO_StructInit :: GPIO_InitType where
  "GPIO_StructInit = \<lparr>GPIO_Pins = GPIO_Pins_All, GPIO_MaxSpeed = GPIO_MaxSpeed_2MHz,
     GPIO_Mode = GPIO_Mode_IN_FLOATING\<rparr>"

section \<open>Data access\<close>

datatype BitState = Bit_RESET | Bit_SET

definition GPIO_ReadInputDataBit :: "u16 \<Rightarrow> gpio_regs \<Rightarrow> BitState" where
  "GPIO_ReadInputDataBit pin g = (if gp_IPTDT g AND ucast pin \<noteq> 0 then Bit_SET else Bit_RESET)"

definition GPIO_ReadInputData :: "gpio_regs \<Rightarrow> u16" where
  "GPIO_ReadInputData g = ucast (gp_IPTDT g)"

definition GPIO_ReadOutputDataBit :: "u16 \<Rightarrow> gpio_regs \<Rightarrow> BitState" where
  "GPIO_ReadOutputDataBit pin g = (if gp_OPTDT g AND ucast pin \<noteq> 0 then Bit_SET else Bit_RESET)"

definition GPIO_ReadOutputData :: "gpio_regs \<Rightarrow> u16" where
  "GPIO_ReadOutputData g = ucast (gp_OPTDT g)"

definition GPIO_SetBits :: "u16 \<Rightarrow> gpio_regs \<Rightarrow> gpio_regs" where
  "GPIO_SetBits pin g = store (ST_BSRE (ucast pin)) g"

definition GPIO_ResetBits :: "u16 \<Rightarrow> gpio_regs \<Rightarrow> gpio_regs" where
  "GPIO_ResetBits pin g = store (ST_BRE (ucast pin)) g"

definition GPIO_WriteBit :: "u16 \<Rightarrow> BitState \<Rightarrow> gpio_regs \<Rightarrow> gpio_regs" where
  "GPIO_WriteBit pin v g =
     (if v \<noteq> Bit_RESET then store (ST_BSRE (ucast pin)) g else store (ST_BRE (ucast pin)) g)"

definition GPIO_Write :: "u16 \<Rightarrow> gpio_regs \<Rightarrow> gpio_regs" where
  "GPIO_Write v g = store (ST_OPTDT (ucast v)) g"

definition GPIO_PinsLockConfig :: "u16 \<Rightarrow> gpio_regs \<Rightarrow> gpio_regs" where
  "GPIO_PinsLockConfig pin g =
     (let tmp = 0x00010000 OR ucast pin;
          g = store (ST_LOCK tmp) g;
          g = store (ST_LOCK (ucast pin)) g
      in store (ST_LOCK tmp) g)"

definition GPIO_PinsEnhanceSlewRate :: "u16 \<Rightarrow> FunctionalState \<Rightarrow> gpio_regs \<Rightarrow> gpio_regs" where
  "GPIO_PinsEnhanceSlewRate pin st g =
     (if ENABLE = st then g\<lparr>gp_SRCTR := gp_SRCTR g OR ucast pin\<rparr>
      else g\<lparr>gp_SRCTR := gp_SRCTR g AND NOT (ucast pin)\<rparr>)"

definition GPIO_PinsHugeDriven :: "u16 \<Rightarrow> FunctionalState \<Rightarrow> gpio_regs \<Rightarrow> gpio_regs" where
  "GPIO_PinsHugeDriven pin st g =
     (if ENABLE = st then g\<lparr>gp_HDRV := gp_HDRV g OR ucast pin\<rparr>
      else g\<lparr>gp_HDRV := gp_HDRV g AND NOT (ucast pin)\<rparr>)"

section \<open>Event output and external interrupt lines\<close>

definition GPIO_EventOutputConfig :: "u8 \<Rightarrow> u8 \<Rightarrow> afio_regs \<Rightarrow> afio_regs" where
  "GPIO_EventOutputConfig port pin a =
     (let tmpreg = af_EVCTRL a;
          tmpreg = tmpreg AND EVCR_PORTPINCONFIG_MASK;
          tmpreg = tmpreg OR push_bit 4 (ucast port);
          tmpreg = tmpreg OR ucast pin
      in a\<lparr>af_EVCTRL := tmpreg\<rparr>)"

definition GPIO_EventOutputCmd :: "FunctionalState \<Rightarrow> afio_regs \<Rightarrow> afio_regs" where
  "GPIO_EventOutputCmd st a = a\<lparr>af_EVCTRL := wr_bitband 7 st (af_EVCTRL a)\<rparr>"

text \<open>The pin source is not checked: above 15 the index leaves the four-entry array.\<close>

definition GPIO_EXTILineConfig :: "u8 \<Rightarrow> u8 \<Rightarrow> afio_regs \<Rightarrow> fault + afio_regs" where
  "GPIO_EXTILineConfig port pin a =
     (let sh = 4 * unat (pin AND 0x03);
          tmp = push_bit sh (0x0F :: u32);
          k = unat (drop_bit 2 pin)
      in if k < length (af_EXTIC a) then
           (let a = a\<lparr>af_EXTIC := (af_EXTIC a)[k := af_EXTIC a ! k AND NOT tmp]\<rparr>
            in Inr (a\<lparr>af_EXTIC := (af_EXTIC a)[k := af_EXTIC a ! k OR push_bit sh (ucast port)]\<rparr>))
         else Inl OutOfBounds)"

text \<open>The bit-band alias takes bit 0 of the value stored.\<close>

definition GPIO_ETH_MediaInterfaceConfig :: "u32 \<Rightarrow> afio_regs \<Rightarrow> afio_regs" where
  "GPIO_ETH_MediaInterfaceConfig v a =
     a\<lparr>af_MAP := wr_bitband 0x17 (if bit v 0 then ENABLE else DISABLE) (af_MAP a)\<rparr>"

section \<open>Remapping of alternate functions\<close>

text \<open>
  A code above \<^verbatim>\<open>0x80000000\<close> names one of the registers MAP3 to MAP8 (bits 30..7), a group of four
  bits in it (bits 6..4) and the value of the group (bits 3..0).
\<close>

definition afio_map :: "u32 \<Rightarrow> afio_regs \<Rightarrow> u32 option" where
  "afio_map k a =
     (if k = 0 then Some (af_MAP3 a) else if k = 1 then Some (af_MAP4 a)
      else if k = 2 then Some (af_MAP5 a) else if k = 3 then Some (af_MAP6 a)
      else if k = 4 then Some (af_MAP7 a) else if k = 5 then Some (af_MAP8 a)
      else None)"

definition afio_map_write :: "u32 \<Rightarrow> u32 \<Rightarrow> afio_regs \<Rightarrow> afio_regs" where
  "afio_map_write k v a =
     (if k = 0 then a\<lparr>af_MAP3 := v\<rparr> else if k = 1 then a\<lparr>af_MAP4 := v\<rparr>
      else if k = 2 then a\<lparr>af_MAP5 := v\<rparr> else if k = 3 then a\<lparr>af_MAP6 := v\<rparr>
      else if k = 4 then a\<lparr>af_MAP7 := v\<rparr> else if k = 5 then a\<lparr>af_MAP8 := v\<rparr>
      else a)"

text \<open>
  The pointer is set by the \<^verbatim>\<open>switch\<close>; with a register number it does not know, the accesses below
  it go through an uninitialised pointer.
\<close>

definition GPIO_PinsRemap_grouped :: "u32 \<Rightarrow> FunctionalState \<Rightarrow> afio_regs \<Rightarrow> fault + afio_regs" where
  "GPIO_PinsRemap_grouped GPIO_Remap st a =
     (let Remap_Addr = GPIO_Remap AND 0x7FFFFFFF;
          reg_ost = drop_bit 7 Remap_Addr;
          Remap_Addr = Remap_Addr AND 0x7f;
          bit_ost = drop_bit 4 Remap_Addr;
          Remap_Addr = Remap_Addr AND 0x0f;
          Remap_val = push_bit (unat (bit_ost * 4)) Remap_Addr
      in case afio_map reg_ost a of
           None \<Rightarrow> Inl DanglingPtr
         | Some w \<Rightarrow>
             let w = (if bit_ost = 0 then w AND 0xFFFFFFF0
                      else if bit_ost = 1 then
                        (if reg_ost = 1 then
                           (if 4 < Remap_Addr then w AND 0xFFFFFF3F else w AND 0xFFFFFFCF)
                         else w AND 0xFFFFFF0F)
                      else if bit_ost = 2 then w AND 0xFFFFF0FF
                      else if bit_ost = 3 then w AND 0xFFFF0FFF
                      else if bit_ost = 4 then w AND 0xFFF0FFFF
                      else if bit_ost = 5 then w AND 0xFF0FFFFF
                      else if bit_ost = 6 then w AND 0xF0FFFFFF
                      else if bit_ost = 7 then w AND 0x0FFFFFFF
                      else w);
                 w = (if st = ENABLE then w OR Remap_val else w)
             in Inr (afio_map_write reg_ost w a))"

definition remap_field :: "u32 \<Rightarrow> u32 \<Rightarrow> FunctionalState \<Rightarrow> u32 \<Rightarrow> u32" where
  "remap_field keep v st w = (let w = w AND keep in if st = ENABLE then w OR v else w)"

text \<open>The \<^verbatim>\<open>switch\<close> over the remaining codes, in the order of its cases; \<open>None\<close> is no case.\<close>

definition GPIO_PinsRemap_MAP_1 :: "u32 \<Rightarrow> FunctionalState \<Rightarrow> u32 \<Rightarrow> u32 option" where
  "GPIO_PinsRemap_MAP_1 g st w =
     (if g \<in> {0x00000002, 0x00000004, 0x00008000, 0x00010000, 0x00020000, 0x00040000,
              0x00000008, 0x00001000, 0x00080000, 0x00100000}
        then Some (remap_field (NOT g) g st w)
      else if g = 0x00000001 then Some (remap_field 0x7FFFFFFE 0x00000001 st w)
      else if g = 0x00000010 then Some (remap_field 0xFFFFFFCF 0x00000010 st w)
      else if g = 0x00000030 then Some (remap_field 0xFFFFFFCF 0x00000030 st w)
      else if g = 0x00000040 then Some (remap_field 0xFFFFFF3F 0x00000040 st w)
      else if g = 0x000000C0 then Some (remap_field 0xFFFFFF3F 0x000000C0 st w)
      else if g = 0x00000100 then Some (remap_field 0xFFFFFCFF 0x00000100 st w)
      else if g = 0x00000200 then Some (remap_field 0xFFFFFCFF 0x00000200 st w)
      else if g = 0x00000300 then Some (remap_field 0xFFFFFCFF 0x00000300 st w)
      else None)"

definition GPIO_PinsRemap_MAP_2 :: "u32 \<Rightarrow> FunctionalState \<Rightarrow> u32 \<Rightarrow> u32 option" where
  "GPIO_PinsRemap_MAP_2 g st w =
     (if g = 0x00000800 then Some (remap_field 0xFFFFF3FF 0x00000800 st w)
      else if g = 0x00000C00 then Some (remap_field 0xFFFFF3FF 0x00000C00 st w)
      else if g = 0x00004000 then Some (remap_field 0xFFFF9FFF 0x00004000 st w)
      else if g = 0x00006000 then Some (remap_field 0xFFFF9FFF 0x00006000 st w)
      else if g = 0x01000000 then Some (remap_field 0xF8FFFFFF 0x01000000 st w)
      else if g = 0x02000000 then Some (remap_field 0xF8FFFFFF 0x02000000 st w)
      else if g = 0x04000000 then Some (remap_field 0xF8FFFFFF 0x04000000 st w)
      else if g = 0x40000000 then Some (remap_field (NOT 0x40000000) 0x40000000 st w)
      else if g = 0x20000000 then Some (remap_field (NOT 0x20000000) 0x20000000 st w)
      else if g = 0x10000000 then Some (remap_field (NOT 0x10000000) 0x10000000 st w)
      else if g = 0x00800000 then Some (remap_field (NOT 0x00800000) 0x00800000 st w)
      else if g = 0x00400000 then Some (remap_field (NOT 0x00400000) 0x00400000 st w)
      else if g = 0x00200000 then Some (remap_field (NOT 0x00200000) 0x00200000 st w)
      else None)"

definition GPIO_PinsRemap_MAP2 :: "u32 \<Rightarrow> FunctionalState \<Rightarrow> u32 \<Rightarrow> u32 option" where
  "GPIO_PinsRemap_MAP2 g st w =
     (if g \<in> {0x40000020, 0x40000400, 0x40020000, 0x40040000, 0x40200000}
        then Some (remap_field (NOT (g AND 0x003FFFFF)) (g AND 0x003FFFFF) st w)
      else if g = 0x40080000 then Some (remap_field 0xFFE7FFFF (0x40080000 AND 0x003FFFFF) st w)
      else if g = 0x40100000 then Some (remap_field 0xFFE7FFFF (0x40100000 AND 0x003FFFFF) st w)
      else if g = 0x40180000 then Some (remap_field 0xFFE7FFFF (0x40180000 AND 0x003FFFFF) st w)
      else None)"

definition GPIO_PinsRemapConfig :: "u32 \<Rightarrow> FunctionalState \<Rightarrow> afio_regs \<Rightarrow> fault + afio_regs" where
  "GPIO_PinsRemapConfig g st a =
     (if 0x80000000 < g then GPIO_PinsRemap_grouped g st a
      else case GPIO_PinsRemap_MAP_1 g st (af_MAP a) of
        Some w \<Rightarrow> Inr (a\<lparr>af_MAP := w\<rparr>)
      | None \<Rightarrow>
         (case GPIO_PinsRemap_MAP_2 g st (af_MAP a) of
            Some w \<Rightarrow> Inr (a\<lparr>af_MAP := w\<rparr>)
          | None \<Rightarrow>
             (case GPIO_PinsRemap_MAP2 g st (af_MAP2 a) of
                Some w \<Rightarrow> Inr (a\<lparr>af_MAP2 := w\<rparr>)
              | None \<Rightarrow> Inr a)))"

section \<open>Pin configuration, one nibble per pin\<close>

definition nibble :: "nat \<Rightarrow> u32 \<Rightarrow> u32" where
  "nibble q w = drop_bit (4 * q) w AND 0x0F"

definition pin_mode :: "GPIO_InitType \<Rightarrow> u32" where
  "pin_mode init =
     (let m = GPIO_Mode init AND 0x0F
      in if GPIO_Mode init AND 0x10 \<noteq> 0 then m OR GPIO_MaxSpeed init else m)"

text \<open>The configuration nibble of pin 0..15 of a port.\<close>

definition pin_config :: "nat \<Rightarrow> gpio_regs \<Rightarrow> u32" where
  "pin_config p g = (if p < 8 then nibble p (gp_CTRLL g) else nibble (p - 8) (gp_CTRLH g))"

lemma bit_0xF: "bit (0x0F :: int) n \<longleftrightarrow> n < 4"
proof -
  have m: "(0x0F :: int) = mask 4" by (simp add: mask_eq_exp_minus_1)
  show ?thesis unfolding m bit_mask_iff by auto
qed

lemma bit_nibble: "bit (nibble q w) n \<longleftrightarrow> n < 4 \<and> bit w (4 * q + n)"
  by (auto simp: nibble_def bit_simps bit_0xF)

lemma nibble_write:
  assumes "q < 8" and "p < 8" and "m AND 0x0F = (m :: u32)"
  shows "nibble q ((w AND NOT (push_bit (p * 4) 0x0F)) OR push_bit (p * 4) m)
    = (if q = p then m else nibble q w)"
proof (rule bit_word_eqI)
  fix n assume "n < LENGTH(32)"
  then have n: "n < 32" by simp
  have m: "bit m n' \<Longrightarrow> n' < 4" for n'
    using arg_cong [where f = "\<lambda>w. bit w n'", OF assms(3)] by (simp add: bit_and_iff bit_0xF)
  show "bit (nibble q ((w AND NOT (push_bit (p * 4) 0x0F)) OR push_bit (p * 4) m)) n
      = bit (if q = p then m else nibble q w) n"
  proof (cases "q = p")
    case True
    then show ?thesis using assms m [of n] n
      by (auto simp: bit_nibble bit_simps bit_0xF algebra_simps)
  next
    case False
    then have "\<not> (p * 4 \<le> 4 * q + n \<and> 4 * q + n - p * 4 < 4)" if "n < 4"
      using that by linarith
    then show ?thesis using False assms(1) n m [of "4 * q + n - p * 4"]
      by (auto simp: bit_nibble bit_simps bit_0xF)
  qed
qed

text \<open>The store that switches the pull resistor of a selected input pin.\<close>

definition pull_stores :: "GPIO_InitType \<Rightarrow> nat \<Rightarrow> gpio_store list" where
  "pull_stores init p =
     (if \<not> bit (GPIO_Pins init) p then []
      else if GPIO_Mode init = GPIO_Mode_IN_PD then [ST_BRE (push_bit p 1)]
      else if GPIO_Mode init = GPIO_Mode_IN_PU then [ST_BSRE (push_bit p 1)]
      else [])"

lemma pin_selected:
  "((ucast (w :: u16) :: u32) AND push_bit n 1 = push_bit n 1) \<longleftrightarrow> bit w n"
  if "n < 16"
proof
  assume eq: "(ucast w :: u32) AND push_bit n 1 = push_bit n 1"
  have "bit ((ucast w :: u32) AND push_bit n 1) n = bit (push_bit n (1 :: u32)) n"
    by (simp only: eq)
  then show "bit w n" using that by (simp add: bit_simps del: push_bit_of_1)
next
  assume "bit w n"
  then show "(ucast w :: u32) AND push_bit n 1 = push_bit n 1"
    using that by (auto simp: bit_eq_iff [where 'a="32 word"] bit_simps simp del: push_bit_of_1)
qed

text \<open>What one round of either loop does, with the selection as a bit test.\<close>

definition pin_round ::
    "(nat \<Rightarrow> bool) \<Rightarrow> u32 \<Rightarrow> (nat \<Rightarrow> gpio_store list) \<Rightarrow> nat \<Rightarrow> u32 \<times> gpio_regs \<Rightarrow> u32 \<times> gpio_regs" where
  "pin_round sel m ps p = (\<lambda>(w, g).
     (if sel p then (w AND NOT (push_bit (p * 4) 0x0F)) OR push_bit (p * 4) m else w,
      g\<lparr>gp_stores := gp_stores g @ ps p\<rparr>))"

lemma pin_round_apply: "pin_round sel m ps p (w, g) =
     (if sel p then (w AND NOT (push_bit (p * 4) 0x0F)) OR push_bit (p * 4) m else w,
      g\<lparr>gp_stores := gp_stores g @ ps p\<rparr>)"
  by (simp add: pin_round_def)

lemma GPIO_Init_low_round:
  "p < 8 \<Longrightarrow> GPIO_Init_low init m p = pin_round (bit (GPIO_Pins init)) m (pull_stores init) p"
  using pin_selected [of p "GPIO_Pins init"]
  by (auto simp: fun_eq_iff GPIO_Init_low_def pin_round_def pull_stores_def store_def Let_def
      simp del: push_bit_of_1)

lemma GPIO_Init_high_round:
  "p < 8 \<Longrightarrow> GPIO_Init_high init m p =
     pin_round (\<lambda>p. bit (GPIO_Pins init) (p + 8)) m (\<lambda>p. pull_stores init (p + 8)) p"
  using pin_selected [of "p + 8" "GPIO_Pins init"]
  by (auto simp: fun_eq_iff GPIO_Init_high_def pin_round_def pull_stores_def store_def Let_def
      simp del: push_bit_of_1)

lemma fold_pin_round:
  assumes m: "m AND 0x0F = (m :: u32)" and k: "k \<le> 8"
  shows "\<exists>w'. fold (pin_round sel m ps) [0..<k] (w, g)
      = (w', g\<lparr>gp_stores := gp_stores g @ concat (map ps [0..<k])\<rparr>)
    \<and> (\<forall>q. q < 8 \<longrightarrow> nibble q w' = (if q < k \<and> sel q then m else nibble q w))"
  using k
proof (induction k)
  case 0
  then show ?case by simp
next
  case (Suc k)
  then obtain w' where w': "fold (pin_round sel m ps) [0..<k] (w, g)
      = (w', g\<lparr>gp_stores := gp_stores g @ concat (map ps [0..<k])\<rparr>)"
    "\<And>q. q < 8 \<Longrightarrow> nibble q w' = (if q < k \<and> sel q then m else nibble q w)" by auto
  let ?w = "if sel k then (w' AND NOT (push_bit (k * 4) 0x0F)) OR push_bit (k * 4) m else w'"
  have "nibble q ?w = (if q < Suc k \<and> sel q then m else nibble q w)" if "q < 8" for q
    using nibble_write [OF that _ m, of k w'] Suc.prems w'(2) [OF that] by (auto simp: less_Suc_eq)
  then show ?case using w'(1) by (intro exI [of _ ?w]) (simp add: pin_round_apply)
qed

lemma fold_GPIO_Init_low:
  "fold (GPIO_Init_low init m) [0..<8] = fold (pin_round (bit (GPIO_Pins init)) m (pull_stores init)) [0..<8]"
  by (rule ext, intro fold_cong refl) (simp add: GPIO_Init_low_round)

lemma fold_GPIO_Init_high:
  "fold (GPIO_Init_high init m) [0..<8] = fold (pin_round (\<lambda>p. bit (GPIO_Pins init) (p + 8)) m
     (\<lambda>p. pull_stores init (p + 8))) [0..<8]"
  by (rule ext, intro fold_cong refl) (simp add: GPIO_Init_high_round)

lemma no_low_pins: "(ucast (w :: u16) :: u32) AND 0x00FF = 0 \<Longrightarrow> p < 8 \<Longrightarrow> \<not> bit w p"
proof
  assume z: "(ucast w :: u32) AND 0x00FF = 0" and p: "p < 8" and b: "bit w p"
  have m: "(0xFF :: u32) = mask 8" by (simp add: mask_eq_exp_minus_1)
  have "bit ((ucast w :: u32) AND mask 8) p"
    using p b by (auto simp: bit_simps)
  then show False using z by (simp add: m)
qed

lemma no_high_pins: "\<not> 0x00FF < (w :: u16) \<Longrightarrow> 8 \<le> p \<Longrightarrow> \<not> bit w p"
proof -
  assume "\<not> 0x00FF < w" and p: "8 \<le> p"
  then have "unat w < 2 ^ 8" by (simp add: word_less_nat_alt)
  then have "unat (take_bit 8 w) = unat w" by (simp add: unsigned_take_bit_eq take_bit_nat_eq_self)
  then have "take_bit 8 w = w" by (simp add: word_unat_eq_iff)
  then show ?thesis using p bit_take_bit_iff [of 8 w p] by simp
qed

text \<open>The low half, whether or not its loop runs, and the high half.\<close>

definition low_half :: "GPIO_InitType \<Rightarrow> u32 \<Rightarrow> gpio_regs \<Rightarrow> gpio_regs" where
  "low_half init m g = (if (ucast (GPIO_Pins init) :: u32) AND 0x00FF \<noteq> 0 then
     (let (tmpreg, g) = fold (GPIO_Init_low init m) [0..<8] (gp_CTRLL g, g)
      in g\<lparr>gp_CTRLL := tmpreg\<rparr>) else g)"

definition high_half :: "GPIO_InitType \<Rightarrow> u32 \<Rightarrow> gpio_regs \<Rightarrow> gpio_regs" where
  "high_half init m g = (if 0x00FF < GPIO_Pins init then
     (let (tmpreg, g) = fold (GPIO_Init_high init m) [0..<8] (gp_CTRLH g, g)
      in g\<lparr>gp_CTRLH := tmpreg\<rparr>) else g)"

lemma GPIO_Init_halves:
  "GPIO_Init init g = high_half init (pin_mode init) (low_half init (pin_mode init) g)"
  by (simp only: GPIO_Init_def high_half_def low_half_def pin_mode_def Let_def)

lemma low_half_pins:
  assumes "m AND 0x0F = (m :: u32)"
  shows "\<exists>w'. low_half init m g
      = g\<lparr>gp_CTRLL := w', gp_stores := gp_stores g @ concat (map (pull_stores init) [0..<8])\<rparr>
    \<and> (\<forall>q. q < 8 \<longrightarrow> nibble q w' = (if bit (GPIO_Pins init) q then m else nibble q (gp_CTRLL g)))"
proof (cases "(ucast (GPIO_Pins init) :: u32) AND 0x00FF = 0")
  case True
  then have n: "\<not> bit (GPIO_Pins init) q" if "q < 8" for q using no_low_pins that by blast
  then have "concat (map (pull_stores init) [0..<8]) = []" by (simp add: pull_stores_def)
  then show ?thesis using True n by (intro exI [of _ "gp_CTRLL g"]) (simp add: low_half_def)
next
  case False
  obtain w' where "fold (pin_round (bit (GPIO_Pins init)) m (pull_stores init)) [0..<8] (gp_CTRLL g, g)
      = (w', g\<lparr>gp_stores := gp_stores g @ concat (map (pull_stores init) [0..<8])\<rparr>)"
    "\<forall>q. q < 8 \<longrightarrow> nibble q w' = (if q < 8 \<and> bit (GPIO_Pins init) q then m else nibble q (gp_CTRLL g))"
    using fold_pin_round [OF assms order.refl] by blast
  then show ?thesis using False
    by (intro exI [of _ w']) (simp add: fold_GPIO_Init_low low_half_def del: upt_conv_Cons upt.simps)
qed

lemma high_half_pins:
  assumes "m AND 0x0F = (m :: u32)"
  shows "\<exists>w'. high_half init m g
      = g\<lparr>gp_CTRLH := w', gp_stores := gp_stores g @ concat (map (\<lambda>p. pull_stores init (p + 8)) [0..<8])\<rparr>
    \<and> (\<forall>q. q < 8 \<longrightarrow> nibble q w' = (if bit (GPIO_Pins init) (q + 8) then m else nibble q (gp_CTRLH g)))"
proof (cases "0x00FF < GPIO_Pins init")
  case False
  then have n: "\<not> bit (GPIO_Pins init) (q + 8)" for q using no_high_pins [of "GPIO_Pins init" "q + 8"] by simp
  then have "concat (map (\<lambda>p. pull_stores init (p + 8)) [0..<8]) = []" by (simp add: pull_stores_def)
  then show ?thesis using False n by (intro exI [of _ "gp_CTRLH g"]) (simp add: high_half_def)
next
  case True
  obtain w' where "fold (pin_round (\<lambda>p. bit (GPIO_Pins init) (p + 8)) m
        (\<lambda>p. pull_stores init (p + 8))) [0..<8] (gp_CTRLH g, g)
      = (w', g\<lparr>gp_stores := gp_stores g @ concat (map (\<lambda>p. pull_stores init (p + 8)) [0..<8])\<rparr>)"
    "\<forall>q. q < 8 \<longrightarrow> nibble q w' = (if q < 8 \<and> bit (GPIO_Pins init) (q + 8) then m else nibble q (gp_CTRLH g))"
    using fold_pin_round [OF assms order.refl] by blast
  then show ?thesis using True
    by (intro exI [of _ w']) (simp add: fold_GPIO_Init_high high_half_def del: upt_conv_Cons upt.simps)
qed

lemma upt_16_split: "[0..<16] = [0..<8] @ map (\<lambda>p. p + 8) [0..<(8::nat)]"
  by (simp add: upt_rec)

lemma GPIO_Init_effect:
  assumes "pin_mode init AND 0x0F = pin_mode init"
  shows "p < 16 \<Longrightarrow> pin_config p (GPIO_Init init g)
       = (if bit (GPIO_Pins init) p then pin_mode init else pin_config p g)"
    and "gp_stores (GPIO_Init init g) = gp_stores g @ concat (map (pull_stores init) [0..<16])"
proof -
  obtain wl where wl: "low_half init (pin_mode init) g
      = g\<lparr>gp_CTRLL := wl, gp_stores := gp_stores g @ concat (map (pull_stores init) [0..<8])\<rparr>"
      (is "_ = ?g1")
    "\<forall>q. q < 8 \<longrightarrow> nibble q wl = (if bit (GPIO_Pins init) q then pin_mode init else nibble q (gp_CTRLL g))"
    using low_half_pins [OF assms, of init g] by blast
  obtain wh where wh: "high_half init (pin_mode init) ?g1 = ?g1\<lparr>gp_CTRLH := wh,
      gp_stores := gp_stores ?g1 @ concat (map (\<lambda>p. pull_stores init (p + 8)) [0..<8])\<rparr>"
    "\<forall>q. q < 8 \<longrightarrow> nibble q wh = (if bit (GPIO_Pins init) (q + 8) then pin_mode init else nibble q (gp_CTRLH ?g1))"
    using high_half_pins [OF assms, of init ?g1] by blast
  have init: "GPIO_Init init g = ?g1\<lparr>gp_CTRLH := wh,
      gp_stores := gp_stores ?g1 @ concat (map (\<lambda>p. pull_stores init (p + 8)) [0..<8])\<rparr>"
    by (simp only: GPIO_Init_halves wl(1) wh(1))
  show "gp_stores (GPIO_Init init g) = gp_stores g @ concat (map (pull_stores init) [0..<16])"
    unfolding upt_16_split init by (simp add: comp_def)
  show "pin_config p (GPIO_Init init g)
      = (if bit (GPIO_Pins init) p then pin_mode init else pin_config p g)" if "p < 16"
    using wl(2) wh(2) that by (auto simp: pin_config_def init)
qed

section \<open>Properties\<close>

text \<open>
  C15.  \<^verbatim>\<open>GPIO_Init\<close> configures exactly the selected pins: for a mode and speed that fit the nibble,
  the four configuration bits of every selected pin of 0..15 become the mode (with the speed for an
  output), those of every other pin stay, and the pull resistor of each selected pull-down or
  pull-up pin is switched by one store to the reset or set register, in pin order.
\<close>

theorem gpio_init_pins:
  assumes "pin_mode init AND 0x0F = pin_mode init" and "p < 16"
  shows "pin_config p (GPIO_Init init g)
       = (if bit (GPIO_Pins init) p then pin_mode init else pin_config p g)
     \<and> gp_stores (GPIO_Init init g) = gp_stores g @ concat (map (pull_stores init) [0..<16])"
  using GPIO_Init_effect [OF assms(1)] assms(2) by simp

definition gpio_after_reset :: gpio_regs where
  "gpio_after_reset = \<lparr>gp_CTRLL = 0x44444444, gp_CTRLH = 0x44444444, gp_IPTDT = 0, gp_OPTDT = 0,
     gp_SRCTR = 0, gp_HDRV = 0, gp_stores = []\<rparr>"

text \<open>The transmit pin of \<^verbatim>\<open>hy_uart.c\<close>: PA9, alternate function push-pull at 50 MHz.\<close>

theorem gpio_init_pins_witness:
  "pin_config 9 (GPIO_Init \<lparr>GPIO_Pins = 0x0200, GPIO_MaxSpeed = GPIO_MaxSpeed_50MHz,
     GPIO_Mode = GPIO_Mode_AF_PP\<rparr> gpio_after_reset) = 0xA"
proof -
  let ?i = "\<lparr>GPIO_Pins = 0x0200, GPIO_MaxSpeed = GPIO_MaxSpeed_50MHz, GPIO_Mode = GPIO_Mode_AF_PP\<rparr>"
  have h: "pin_mode ?i AND 0x0F = pin_mode ?i" "(9 :: nat) < 16" by (simp_all add: pin_mode_def)
  show ?thesis using gpio_init_pins [OF h, of gpio_after_reset] by (simp add: pin_mode_def)
qed

section \<open>Remapping one group\<close>

definition remap_register :: "u32 \<Rightarrow> u32" where
  "remap_register g = drop_bit 7 (g AND 0x7FFFFFFF)"

definition remap_group :: "u32 \<Rightarrow> u32" where
  "remap_group g = drop_bit 4 ((g AND 0x7FFFFFFF) AND 0x7f)"

definition remap_code :: "u32 \<Rightarrow> u32" where
  "remap_code g = ((g AND 0x7FFFFFFF) AND 0x7f) AND 0x0f"

text \<open>The field a code addresses and what it writes there; \<^verbatim>\<open>MAP4\<close> splits its second group.\<close>

definition remap_mask :: "u32 \<Rightarrow> u32" where
  "remap_mask g =
     (if remap_register g = 1 \<and> remap_group g = 1 then (if 4 < remap_code g then 0xC0 else 0x30)
      else push_bit (unat (remap_group g * 4)) 0x0F)"

definition remap_value :: "u32 \<Rightarrow> u32" where
  "remap_value g = push_bit (unat (remap_group g * 4)) (remap_code g)"

text \<open>The codes of the header for the AT32F407.\<close>

definition AFIO_MAP_codes :: "u32 list" where
  "AFIO_MAP_codes =
    [0x80000002, 0x80000012, 0x80000022, 0x80000081, 0x800000A2, 0x800000A3, 0x800000C8, 0x80000101,
     0x80000111, 0x80000112, 0x80000113, 0x80000121, 0x80000122, 0x80000123, 0x80000131, 0x80000141,
     0x80000142, 0x80000143, 0x80000151, 0x80000152, 0x80000161, 0x80000162, 0x80000163, 0x80000171,
     0x80000172, 0x80000173, 0x80000182, 0x80000183, 0x80000191, 0x800001A4, 0x800001A5, 0x800001A6,
     0x800001A7, 0x800001B1, 0x800001B2, 0x800001B3, 0x800001C1, 0x800001D1, 0x800001E1, 0x800001E3,
     0x800001F2, 0x80000208, 0x80000209, 0x80000211, 0x80000212, 0x80000213, 0x80000221, 0x80000222,
     0x80000223, 0x80000241, 0x80000242, 0x80000244, 0x80000251, 0x80000261, 0x80000262, 0x80000268,
     0x80000269, 0x8000026A, 0x800002C1, 0x800002C4, 0x800002C5, 0x800002C8, 0x800002C9, 0x800002CC,
     0x800002CD, 0x800002D1, 0x800002E1, 0x800002F1, 0x80000083, 0x80000091, 0x80000092, 0x80000093,
     0x80000098, 0x8000009C, 0x800000B1]"

lemma AFIO_MAP_codes_fit:
  "g \<in> set AFIO_MAP_codes \<Longrightarrow> 0x80000000 < g \<and> remap_register g < 6
     \<and> remap_value g AND NOT (remap_mask g) = 0"
proof -
  have "list_all (\<lambda>g. 0x80000000 < g \<and> remap_register g < 6
      \<and> remap_value g AND NOT (remap_mask g) = 0) AFIO_MAP_codes"
    by (simp add: AFIO_MAP_codes_def remap_register_def remap_value_def remap_mask_def
        remap_group_def remap_code_def)
  then show "g \<in> set AFIO_MAP_codes \<Longrightarrow> ?thesis" by (auto simp: list_all_iff)
qed

lemma word_less_8_cases:
  assumes "unat (b :: u32) < 8"
  shows "b = 0 \<or> b = 1 \<or> b = 2 \<or> b = 3 \<or> b = 4 \<or> b = 5 \<or> b = 6 \<or> b = 7"
proof -
  have "unat b = 0 \<or> unat b = 1 \<or> unat b = 2 \<or> unat b = 3 \<or> unat b = 4 \<or> unat b = 5
      \<or> unat b = 6 \<or> unat b = 7" using assms by linarith
  then show ?thesis by (simp add: word_unat_eq_iff)
qed

lemma remap_group_less: "unat (remap_group g) < 8"
  using unat_drop_and_le [of 4 "g AND 0x7FFFFFFF" "0x7f"] by (simp add: remap_group_def)

lemma keep_masks:
  "(0xFFFFFFF0 :: u32) = - 16" "(0xFFFFFF0F :: u32) = - 241" "(0xFFFFFF3F :: u32) = - 193"
  "(0xFFFFFFCF :: u32) = - 49" "(0xFFFFF0FF :: u32) = - 3841" "(0xFFFF0FFF :: u32) = - 61441"
  "(0xFFF0FFFF :: u32) = - 983041" "(0xFF0FFFFF :: u32) = - 15728641"
  "(0xF0FFFFFF :: u32) = - 251658241" "(0x0FFFFFFF :: u32) = - 4026531841"
  by simp_all

lemma grouped_write:
  assumes "afio_map (remap_register g) a = Some w"
  shows "GPIO_PinsRemap_grouped g st a = Inr (afio_map_write (remap_register g)
     (if st = ENABLE then (w AND NOT (remap_mask g)) OR remap_value g else w AND NOT (remap_mask g)) a)"
  using word_less_8_cases [OF remap_group_less, of g] assms
  unfolding GPIO_PinsRemap_grouped_def Let_def remap_register_def [symmetric]
    remap_group_def [symmetric] remap_code_def [symmetric] remap_value_def [symmetric]
  by (elim disjE) (simp_all add: remap_mask_def keep_masks)

lemma afio_map_write_same:
  "afio_map k a = Some w \<Longrightarrow> afio_map k (afio_map_write k v a) = Some v"
  by (auto simp: afio_map_def afio_map_write_def split: if_splits)

lemma afio_map_write_other:
  "k \<noteq> k' \<Longrightarrow> afio_map k (afio_map_write k' v a) = afio_map k a"
  by (auto simp: afio_map_def afio_map_write_def)

lemma afio_map_write_MAP:
  "af_MAP (afio_map_write k v a) = af_MAP a" "af_MAP2 (afio_map_write k v a) = af_MAP2 a"
  by (simp_all add: afio_map_write_def)

lemma afio_map_defined: "k < 6 \<Longrightarrow> \<exists>w. afio_map k a = Some w"
proof -
  assume "k < 6"
  then have "unat k < 8" by (simp add: word_less_nat_alt)
  with \<open>k < 6\<close> show ?thesis
    using word_less_8_cases [of k] by (auto simp: afio_map_def)
qed

text \<open>
  C36.  Remapping with a code of the header for MAP3 to MAP8 replaces the field the code names and
  nothing else: the field holds the code's value when enabled and zero when disabled, the rest of
  that register, every other MAP register, \<^verbatim>\<open>MAP\<close> and \<^verbatim>\<open>MAP2\<close> keep their values, and the
  register pointer is always initialised.
\<close>

theorem remap_group_exact:
  assumes "g \<in> set AFIO_MAP_codes" and "k \<noteq> remap_register g"
  shows "\<exists>a' w w'. GPIO_PinsRemapConfig g st a = Inr a'
    \<and> afio_map (remap_register g) a = Some w \<and> afio_map (remap_register g) a' = Some w'
    \<and> w' AND remap_mask g = (if st = ENABLE then remap_value g else 0)
    \<and> w' AND NOT (remap_mask g) = w AND NOT (remap_mask g)
    \<and> afio_map k a' = afio_map k a \<and> af_MAP a' = af_MAP a \<and> af_MAP2 a' = af_MAP2 a"
proof -
  note fit = AFIO_MAP_codes_fit [OF assms(1)]
  obtain w where w: "afio_map (remap_register g) a = Some w"
    using fit afio_map_defined by blast
  let ?w = "if st = ENABLE then (w AND NOT (remap_mask g)) OR remap_value g
      else w AND NOT (remap_mask g)"
  let ?a = "afio_map_write (remap_register g) ?w a"
  have run: "GPIO_PinsRemapConfig g st a = Inr ?a"
    using fit by (simp add: GPIO_PinsRemapConfig_def grouped_write [OF w])
  have "?w AND remap_mask g = (if st = ENABLE then remap_value g else 0)"
      "?w AND NOT (remap_mask g) = w AND NOT (remap_mask g)"
    using fit by (simp_all add: field_write_read field_write_frame reg_simps)
  note facts = this run w afio_map_write_same [OF w] afio_map_write_other [OF assms(2)]
  show ?thesis
    by (rule exI [of _ ?a], rule exI [of _ w], rule exI [of _ ?w])
       (simp only: facts afio_map_write_MAP simp_thms)
qed

definition afio_after_reset :: afio_regs where
  "afio_after_reset = \<lparr>af_EVCTRL = 0, af_MAP = 0, af_EXTIC = [0, 0, 0, 0], af_MAP2 = 0, af_MAP3 = 0,
     af_MAP4 = 0, af_MAP5 = 0, af_MAP6 = 0, af_MAP7 = 0, af_MAP8 = 0\<rparr>"

theorem remap_group_exact_witness:
  "\<exists>a'. GPIO_PinsRemapConfig 0x800001C1 ENABLE afio_after_reset = Inr a'
     \<and> afio_map 4 a' = Some 0"
proof -
  have h: "0x800001C1 \<in> set AFIO_MAP_codes" "4 \<noteq> remap_register 0x800001C1"
    by (simp_all add: AFIO_MAP_codes_def remap_register_def)
  have m: "afio_map 4 afio_after_reset = Some 0" by (simp add: afio_map_def afio_after_reset_def)
  show ?thesis using remap_group_exact [OF h, of ENABLE afio_after_reset] by (auto simp: m)
qed

end
