(* ===== verification/Tmr.thy ===== *)
theory Tmr
  imports Rcc
begin

text \<open>
  The timer driver, the counter and interrupt part of \<^verbatim>\<open>at32f4xx_tim.c\<close> as built for the AT32F407:
  reset, time base, enable, interrupts, flags and counter access.  The capture, compare and PWM
  channels, clock sources and triggers are in \<open>TmrChan\<close>.
\<close>

section \<open>Registers and init structure\<close>

datatype tmr_id = TMR1 | TMR2 | TMR3 | TMR4 | TMR5 | TMR6 | TMR7 | TMR8 | TMR9 | TMR10 | TMR11
  | TMR12 | TMR13 | TMR14

record tmr_regs =
  tm_CTRL1 :: u16
  tm_DIE :: u16
  tm_STS :: u16
  tm_EVEG :: u16
  tm_CNT :: u32
  tm_DIV :: u16
  tm_AR :: u32
  tm_RC :: u16
  tm_CC1 :: u32
  tm_CC2 :: u32
  tm_CC3 :: u32
  tm_CC4 :: u32
  tm_CTRL2 :: u16
  tm_SMC :: u16
  tm_CCM1 :: u16
  tm_CCM2 :: u16
  tm_CCE :: u16
  tm_BRKDT :: u16
  tm_DMAC :: u16

record TMR_TimerBaseInitType =
  TMR_DIV :: u16
  TMR_CounterMode :: u16
  TMR_Period :: u32
  TMR_ClockDivision :: u16
  TMR_RepetitionCounter :: u8

abbreviation (input) TMR_CTRL1_CNTEN :: u16 where "TMR_CTRL1_CNTEN \<equiv> 0x0001"
abbreviation (input) TMR_CTRL1_UEVDIS :: u16 where "TMR_CTRL1_UEVDIS \<equiv> 0x0002"
abbreviation (input) TMR_CTRL1_UVERS :: u16 where "TMR_CTRL1_UVERS \<equiv> 0x0004"
abbreviation (input) TMR_CTRL1_OPMODE :: u16 where "TMR_CTRL1_OPMODE \<equiv> 0x0008"
abbreviation (input) TMR_CTRL1_DIR :: u16 where "TMR_CTRL1_DIR \<equiv> 0x0010"
abbreviation (input) TMR_CTRL1_CMSEL :: u16 where "TMR_CTRL1_CMSEL \<equiv> 0x0060"
abbreviation (input) TMR_CTRL1_ARPEN :: u16 where "TMR_CTRL1_ARPEN \<equiv> 0x0080"
abbreviation (input) TMR_CTRL1_CLKDIV :: u16 where "TMR_CTRL1_CLKDIV \<equiv> 0x0300"
abbreviation (input) TMR_Plus_Mode_Enable :: u16 where "TMR_Plus_Mode_Enable \<equiv> 0x0400"
abbreviation (input) TMR_DIVReloadMode_Immediate :: u16 where "TMR_DIVReloadMode_Immediate \<equiv> 0x0001"
abbreviation (input) TMR_CKD_DIV1 :: u16 where "TMR_CKD_DIV1 \<equiv> 0x0000"
abbreviation (input) TMR_CounterDIR_Up :: u16 where "TMR_CounterDIR_Up \<equiv> 0x0000"
abbreviation (input) TMR_INT_Overflow :: u16 where "TMR_INT_Overflow \<equiv> 0x0001"
abbreviation (input) TMR_UpdateSource_Global :: u16 where "TMR_UpdateSource_Global \<equiv> 0x0000"
abbreviation (input) RCC_APB1PERIPH_TMR2 :: u32 where "RCC_APB1PERIPH_TMR2 \<equiv> 0x00000001"

section \<open>Reset and time base\<close>

text \<open>The branches for the timers 12 to 14 are compiled for another device only.\<close>

definition TMR_Reset :: "tmr_id \<Rightarrow> rcc_regs \<Rightarrow> rcc_regs" where
  "TMR_Reset x r =
     (let pulse2 = (\<lambda>p. RCC_APB2PeriphResetCmd p DISABLE (RCC_APB2PeriphResetCmd p ENABLE r));
          pulse1 = (\<lambda>p. RCC_APB1PeriphResetCmd p DISABLE (RCC_APB1PeriphResetCmd p ENABLE r))
      in case x of
           TMR1 \<Rightarrow> pulse2 0x00000800
         | TMR2 \<Rightarrow> pulse1 0x00000001
         | TMR3 \<Rightarrow> pulse1 0x00000002
         | TMR4 \<Rightarrow> pulse1 0x00000004
         | TMR5 \<Rightarrow> pulse1 0x00000008
         | TMR6 \<Rightarrow> pulse1 0x00000010
         | TMR7 \<Rightarrow> pulse1 0x00000020
         | TMR8 \<Rightarrow> pulse2 0x00002000
         | TMR9 \<Rightarrow> pulse2 0x00080000
         | TMR10 \<Rightarrow> pulse2 0x00100000
         | TMR11 \<Rightarrow> pulse2 0x00200000
         | _ \<Rightarrow> r)"

definition TMR_TimeBaseInit :: "tmr_id \<Rightarrow> TMR_TimerBaseInitType \<Rightarrow> tmr_regs \<Rightarrow> tmr_regs" where
  "TMR_TimeBaseInit x init t =
     (let tmpcr1 = tm_CTRL1 t;
          tmpcr1 = (if x = TMR1 \<or> x = TMR2 \<or> x = TMR4 \<or> x = TMR5 \<or> x = TMR8 \<or> x = TMR3
                    then (tmpcr1 AND NOT (TMR_CTRL1_DIR OR TMR_CTRL1_CMSEL)) OR TMR_CounterMode init
                    else tmpcr1);
          tmpcr1 = tmpcr1 AND NOT TMR_CTRL1_CLKDIV;
          tmpcr1 = tmpcr1 OR TMR_ClockDivision init;
          t = t\<lparr>tm_CTRL1 := tmpcr1\<rparr>;
          t = t\<lparr>tm_AR := TMR_Period init\<rparr>;
          t = t\<lparr>tm_DIV := TMR_DIV init\<rparr>;
          t = t\<lparr>tm_RC := ucast (TMR_RepetitionCounter init)\<rparr>
      in t\<lparr>tm_EVEG := TMR_DIVReloadMode_Immediate\<rparr>)"

definition TMR_SelectPlusMode :: "tmr_id \<Rightarrow> u16 \<Rightarrow> tmr_regs \<Rightarrow> tmr_regs" where
  "TMR_SelectPlusMode x st t =
     (if x = TMR2 \<or> x = TMR5 then
        (if st \<noteq> 0
         then (let t = t\<lparr>tm_CTRL1 := tm_CTRL1 t AND NOT TMR_Plus_Mode_Enable\<rparr>
               in t\<lparr>tm_CTRL1 := tm_CTRL1 t OR st\<rparr>)
         else (let t = t\<lparr>tm_CTRL1 := tm_CTRL1 t AND NOT TMR_Plus_Mode_Enable\<rparr>
               in t\<lparr>tm_CTRL1 := tm_CTRL1 t OR st\<rparr>))
      else t)"

definition TMR_TimeBaseStructInit :: TMR_TimerBaseInitType where
  "TMR_TimeBaseStructInit = \<lparr>TMR_DIV = 0x0000, TMR_CounterMode = TMR_CounterDIR_Up,
     TMR_Period = 0xFFFF, TMR_ClockDivision = TMR_CKD_DIV1, TMR_RepetitionCounter = 0x00\<rparr>"

definition TMR_Cmd :: "FunctionalState \<Rightarrow> tmr_regs \<Rightarrow> tmr_regs" where
  "TMR_Cmd st t =
     (if st \<noteq> DISABLE then t\<lparr>tm_CTRL1 := tm_CTRL1 t OR TMR_CTRL1_CNTEN\<rparr>
      else t\<lparr>tm_CTRL1 := tm_CTRL1 t AND NOT TMR_CTRL1_CNTEN\<rparr>)"

definition TMR_INTConfig :: "u16 \<Rightarrow> FunctionalState \<Rightarrow> tmr_regs \<Rightarrow> tmr_regs" where
  "TMR_INTConfig i st t =
     (if st \<noteq> DISABLE then t\<lparr>tm_DIE := tm_DIE t OR i\<rparr>
      else t\<lparr>tm_DIE := tm_DIE t AND NOT i\<rparr>)"

definition TMR_GenerateEvent :: "u16 \<Rightarrow> tmr_regs \<Rightarrow> tmr_regs" where
  "TMR_GenerateEvent e t = t\<lparr>tm_EVEG := e\<rparr>"

definition TMR_DIVConfig :: "u16 \<Rightarrow> u16 \<Rightarrow> tmr_regs \<Rightarrow> tmr_regs" where
  "TMR_DIVConfig p reload t = (let t = t\<lparr>tm_DIV := p\<rparr> in t\<lparr>tm_EVEG := reload\<rparr>)"

definition TMR_CounterModeConfig :: "u16 \<Rightarrow> tmr_regs \<Rightarrow> tmr_regs" where
  "TMR_CounterModeConfig m t =
     (let tmpcr1 = tm_CTRL1 t;
          tmpcr1 = tmpcr1 AND NOT (TMR_CTRL1_DIR OR TMR_CTRL1_CMSEL);
          tmpcr1 = tmpcr1 OR m
      in t\<lparr>tm_CTRL1 := tmpcr1\<rparr>)"

definition TMR_ARPreloadConfig :: "FunctionalState \<Rightarrow> tmr_regs \<Rightarrow> tmr_regs" where
  "TMR_ARPreloadConfig st t =
     (if st \<noteq> DISABLE then t\<lparr>tm_CTRL1 := tm_CTRL1 t OR TMR_CTRL1_ARPEN\<rparr>
      else t\<lparr>tm_CTRL1 := tm_CTRL1 t AND NOT TMR_CTRL1_ARPEN\<rparr>)"

definition TMR_UpdateDisableConfig :: "FunctionalState \<Rightarrow> tmr_regs \<Rightarrow> tmr_regs" where
  "TMR_UpdateDisableConfig st t =
     (if st \<noteq> DISABLE then t\<lparr>tm_CTRL1 := tm_CTRL1 t OR TMR_CTRL1_UEVDIS\<rparr>
      else t\<lparr>tm_CTRL1 := tm_CTRL1 t AND NOT TMR_CTRL1_UEVDIS\<rparr>)"

definition TMR_UpdateRequestConfig :: "u16 \<Rightarrow> tmr_regs \<Rightarrow> tmr_regs" where
  "TMR_UpdateRequestConfig src t =
     (if src \<noteq> TMR_UpdateSource_Global then t\<lparr>tm_CTRL1 := tm_CTRL1 t OR TMR_CTRL1_UVERS\<rparr>
      else t\<lparr>tm_CTRL1 := tm_CTRL1 t AND NOT TMR_CTRL1_UVERS\<rparr>)"

definition TMR_SelectOnePulseMode :: "u16 \<Rightarrow> tmr_regs \<Rightarrow> tmr_regs" where
  "TMR_SelectOnePulseMode m t =
     (let t = t\<lparr>tm_CTRL1 := tm_CTRL1 t AND NOT TMR_CTRL1_OPMODE\<rparr>
      in t\<lparr>tm_CTRL1 := tm_CTRL1 t OR m\<rparr>)"

definition TMR_SetClockDivision :: "u16 \<Rightarrow> tmr_regs \<Rightarrow> tmr_regs" where
  "TMR_SetClockDivision d t =
     (let t = t\<lparr>tm_CTRL1 := tm_CTRL1 t AND NOT TMR_CTRL1_CLKDIV\<rparr>
      in t\<lparr>tm_CTRL1 := tm_CTRL1 t OR d\<rparr>)"

section \<open>Counter, compare and capture values\<close>

definition TMR_SetCounter :: "u32 \<Rightarrow> tmr_regs \<Rightarrow> tmr_regs" where
  "TMR_SetCounter c t = t\<lparr>tm_CNT := c\<rparr>"

definition TMR_SetAutoreload :: "u32 \<Rightarrow> tmr_regs \<Rightarrow> tmr_regs" where
  "TMR_SetAutoreload a t = t\<lparr>tm_AR := a\<rparr>"

definition TMR_SetCompare1 :: "u32 \<Rightarrow> tmr_regs \<Rightarrow> tmr_regs" where
  "TMR_SetCompare1 c t = t\<lparr>tm_CC1 := c\<rparr>"

definition TMR_SetCompare2 :: "u32 \<Rightarrow> tmr_regs \<Rightarrow> tmr_regs" where
  "TMR_SetCompare2 c t = t\<lparr>tm_CC2 := c\<rparr>"

definition TMR_SetCompare3 :: "u32 \<Rightarrow> tmr_regs \<Rightarrow> tmr_regs" where
  "TMR_SetCompare3 c t = t\<lparr>tm_CC3 := c\<rparr>"

definition TMR_SetCompare4 :: "u32 \<Rightarrow> tmr_regs \<Rightarrow> tmr_regs" where
  "TMR_SetCompare4 c t = t\<lparr>tm_CC4 := c\<rparr>"

definition TMR_GetCapture1 :: "tmr_regs \<Rightarrow> u32" where "TMR_GetCapture1 t = tm_CC1 t"
definition TMR_GetCapture2 :: "tmr_regs \<Rightarrow> u32" where "TMR_GetCapture2 t = tm_CC2 t"
definition TMR_GetCapture3 :: "tmr_regs \<Rightarrow> u32" where "TMR_GetCapture3 t = tm_CC3 t"
definition TMR_GetCapture4 :: "tmr_regs \<Rightarrow> u32" where "TMR_GetCapture4 t = tm_CC4 t"
definition TMR_GetCounter :: "tmr_regs \<Rightarrow> u32" where "TMR_GetCounter t = tm_CNT t"
definition TMR_GetDIV :: "tmr_regs \<Rightarrow> u16" where "TMR_GetDIV t = tm_DIV t"

section \<open>Flags\<close>

definition TMR_GetFlagStatus :: "u16 \<Rightarrow> tmr_regs \<Rightarrow> FlagStatus" where
  "TMR_GetFlagStatus f t = (if tm_STS t AND f \<noteq> 0 then SET else RESET)"

definition TMR_ClearFlag :: "u16 \<Rightarrow> tmr_regs \<Rightarrow> tmr_regs" where
  "TMR_ClearFlag f t = t\<lparr>tm_STS := rc_w0 (tm_STS t) (NOT f)\<rparr>"

definition TMR_GetINTStatus :: "u16 \<Rightarrow> tmr_regs \<Rightarrow> FlagStatus" where
  "TMR_GetINTStatus i t =
     (let itstatus = tm_STS t AND i; itenable = tm_DIE t AND i
      in if itstatus \<noteq> 0 \<and> itenable \<noteq> 0 then SET else RESET)"

definition TMR_ClearITPendingBit :: "u16 \<Rightarrow> tmr_regs \<Rightarrow> tmr_regs" where
  "TMR_ClearITPendingBit i t = t\<lparr>tm_STS := rc_w0 (tm_STS t) (NOT i)\<rparr>"

section \<open>Lemmas\<close>

text \<open>
  The counter of an up-counting timer runs through \<open>0 .. AR\<close> and advances once per \<open>DIV + 1\<close> clock
  cycles: the number of cycles from one overflow to the next.
\<close>

definition overflow_cycles :: "tmr_regs \<Rightarrow> nat" where
  "overflow_cycles t = (unat (tm_DIV t) + 1) * (unat (tm_AR t) + 1)"

lemma TimeBaseInit_regs:
  "tm_AR (TMR_TimeBaseInit x init t) = TMR_Period init"
  "tm_DIV (TMR_TimeBaseInit x init t) = TMR_DIV init"
  "tm_DIE (TMR_TimeBaseInit x init t) = tm_DIE t"
  "tm_STS (TMR_TimeBaseInit x init t) = tm_STS t"
  by (simp_all add: TMR_TimeBaseInit_def Let_def)

lemma GetINTStatus_after_clear: "TMR_GetINTStatus i (TMR_ClearITPendingBit i t) = RESET"
proof -
  have "(tm_STS t AND NOT i) AND i = 0" by (simp add: bit_eq_iff bit_simps)
  then show ?thesis by (simp add: TMR_GetINTStatus_def TMR_ClearITPendingBit_def rc_w0_def Let_def)
qed

lemma ClearITPendingBit_other:
  "k AND i = 0 \<Longrightarrow> TMR_GetINTStatus k (TMR_ClearITPendingBit i t) = TMR_GetINTStatus k t"
  by (simp add: TMR_GetINTStatus_def TMR_ClearITPendingBit_def rc_w0_def clear_other Let_def)

text \<open>The registers of a timer after reset.\<close>

definition tmr_after_reset :: tmr_regs where
  "tmr_after_reset = \<lparr>tm_CTRL1 = 0, tm_DIE = 0, tm_STS = 0, tm_EVEG = 0, tm_CNT = 0, tm_DIV = 0,
     tm_AR = 0xFFFF, tm_RC = 0, tm_CC1 = 0, tm_CC2 = 0, tm_CC3 = 0, tm_CC4 = 0,
     tm_CTRL2 = 0, tm_SMC = 0, tm_CCM1 = 0, tm_CCM2 = 0, tm_CCE = 0, tm_BRKDT = 0, tm_DMAC = 0\<rparr>"

section \<open>Properties\<close>

text \<open>
  \<^verbatim>\<open>TMR_Reset\<close> pulses the reset line of the timers 1 to 11 and leaves it released, with every other
  bit of the clock controller unchanged; for the timers 12 to 14, which \<^verbatim>\<open>IS_TMR_ALL_PERIPH\<close> accepts
  on this device, it does nothing at all.
\<close>

lemma tmr_reset_pulse:
  "TMR_Reset x r =
     (if x \<in> {TMR12, TMR13, TMR14} then r
      else if x \<in> {TMR1, TMR8, TMR9, TMR10, TMR11}
      then r\<lparr>rcc_APB2RST := unset_bit (case x of TMR1 \<Rightarrow> 11 | TMR8 \<Rightarrow> 13 | TMR9 \<Rightarrow> 19 | TMR10 \<Rightarrow> 20 | _ \<Rightarrow> 21)
               (rcc_APB2RST r)\<rparr>
      else r\<lparr>rcc_APB1RST := unset_bit (case x of TMR2 \<Rightarrow> 0 | TMR3 \<Rightarrow> 1 | TMR4 \<Rightarrow> 2 | TMR5 \<Rightarrow> 3 | TMR6 \<Rightarrow> 4 | _ \<Rightarrow> 5)
               (rcc_APB1RST r)\<rparr>)"
  by (cases x) (simp_all add: TMR_Reset_def Let_def RCC_APB2PeriphResetCmd_def
      RCC_APB1PeriphResetCmd_def unset_bit_eq_and_not push_bit_eq_mult reg_simps set_then_clear)

end
