(* ===== verification/Nvic.thy ===== *)
theory Nvic
  imports Prelude
begin

text \<open>
  Interrupt controller, system control block and system tick: \<^verbatim>\<open>misc.c\<close> and the functions of
  \<^verbatim>\<open>core_cm4.h\<close> that the program calls.  The enable registers act on the store itself (a one
  enables or disables, a zero is without effect), so they are kept as the sequence of stores.
\<close>

section \<open>Registers\<close>

datatype nvic_store = ST_ISER nat u32 | ST_ICER nat u32

record nvic_regs =
  nv_AIRCR :: u32
  nv_VTOR :: u32
  nv_SCR :: u32
  nv_CPACR :: u32
  nv_SHP :: "u8 list"
  nv_IP :: "u8 list"
  nv_stores :: "nvic_store list"
  st_CTRL :: u32
  st_LOAD :: u32
  st_VAL :: u32

record NVIC_InitType =
  NVIC_IRQChannel :: u8
  NVIC_IRQChannelPreemptionPriority :: u8
  NVIC_IRQChannelSubPriority :: u8
  NVIC_IRQChannelCmd :: FunctionalState

abbreviation (input) AIRCR_VECTKEY_MASK :: u32 where "AIRCR_VECTKEY_MASK \<equiv> 0x05FA0000"
abbreviation (input) NVIC_PriorityGroup_0 :: u32 where "NVIC_PriorityGroup_0 \<equiv> 0x700"
abbreviation (input) NVIC_PriorityGroup_1 :: u32 where "NVIC_PriorityGroup_1 \<equiv> 0x600"
abbreviation (input) NVIC_PriorityGroup_2 :: u32 where "NVIC_PriorityGroup_2 \<equiv> 0x500"
abbreviation (input) NVIC_PriorityGroup_3 :: u32 where "NVIC_PriorityGroup_3 \<equiv> 0x400"
abbreviation (input) NVIC_PriorityGroup_4 :: u32 where "NVIC_PriorityGroup_4 \<equiv> 0x300"
abbreviation (input) SysTick_CLKSource_HCLK :: u32 where "SysTick_CLKSource_HCLK \<equiv> 0x00000004"
abbreviation (input) SysTick_CLKSource_HCLK_Div8 :: u32 where
  "SysTick_CLKSource_HCLK_Div8 \<equiv> 0xFFFFFFFB"
abbreviation (input) SysTick_CTRL_CLKSOURCE_Msk :: u32 where "SysTick_CTRL_CLKSOURCE_Msk \<equiv> 0x4"
abbreviation (input) SysTick_CTRL_TICKINT_Msk :: u32 where "SysTick_CTRL_TICKINT_Msk \<equiv> 0x2"
abbreviation (input) SysTick_CTRL_ENABLE_Msk :: u32 where "SysTick_CTRL_ENABLE_Msk \<equiv> 0x1"
abbreviation (input) SysTick_LOAD_RELOAD_Msk :: u32 where "SysTick_LOAD_RELOAD_Msk \<equiv> 0xFFFFFF"
abbreviation (input) SysTick_IRQn :: int where "SysTick_IRQn \<equiv> - 1"
abbreviation (input) TMR2_GLOBAL_IRQn :: u8 where "TMR2_GLOBAL_IRQn \<equiv> 28"
abbreviation (input) USART1_IRQn :: u8 where "USART1_IRQn \<equiv> 37"

section \<open>Operations of misc.c\<close>

definition NVIC_PriorityGroupConfig :: "u32 \<Rightarrow> nvic_regs \<Rightarrow> nvic_regs" where
  "NVIC_PriorityGroupConfig g n = n\<lparr>nv_AIRCR := AIRCR_VECTKEY_MASK OR g\<rparr>"

definition nv_store :: "nvic_store \<Rightarrow> nvic_regs \<Rightarrow> nvic_regs" where
  "nv_store s n = n\<lparr>nv_stores := nv_stores n @ [s]\<rparr>"

text \<open>
  With a priority group below 3 in \<^verbatim>\<open>AIRCR\<close> the difference \<open>4 - tmppriority\<close> wraps and the shift count
  is out of range; \<^verbatim>\<open>NVIC->IP\<close> has 240 entries and the channel is a byte.
\<close>

definition NVIC_Init :: "NVIC_InitType \<Rightarrow> nvic_regs \<Rightarrow> fault + nvic_regs" where
  "NVIC_Init init n =
     (let ch = NVIC_IRQChannel init;
          word = unat (drop_bit 5 ch);
          onebit = push_bit (unat (ch AND 0x1F)) (1 :: u32)
      in if NVIC_IRQChannelCmd init \<noteq> DISABLE then
           (let tmppriority = drop_bit 8 (0x700 - (nv_AIRCR n AND 0x700));
                tmppre = 0x4 - tmppriority;
                tmpsub = drop_bit (unat tmppriority) (0x0F :: u32)
            in if \<not> tmppre < 32 then Inl BadShift
               else
                 (let tmppriority = push_bit (unat tmppre)
                        (ucast (NVIC_IRQChannelPreemptionPriority init) :: u32);
                      tmppriority = tmppriority OR (ucast (NVIC_IRQChannelSubPriority init) AND tmpsub);
                      tmppriority = push_bit 4 tmppriority
                  in if unat ch < length (nv_IP n) then
                       Inr (nv_store (ST_ISER word onebit)
                              (n\<lparr>nv_IP := (nv_IP n)[unat ch := ucast tmppriority]\<rparr>))
                     else Inl OutOfBounds))
         else Inr (nv_store (ST_ICER word onebit) n))"

definition NVIC_SetVectorTable :: "u32 \<Rightarrow> u32 \<Rightarrow> nvic_regs \<Rightarrow> nvic_regs" where
  "NVIC_SetVectorTable tab ofs n = n\<lparr>nv_VTOR := tab OR (ofs AND 0x1FFFFF80)\<rparr>"

definition NVIC_SystemLPConfig :: "u8 \<Rightarrow> FunctionalState \<Rightarrow> nvic_regs \<Rightarrow> nvic_regs" where
  "NVIC_SystemLPConfig lp st n =
     (if st \<noteq> DISABLE then n\<lparr>nv_SCR := nv_SCR n OR ucast lp\<rparr>
      else n\<lparr>nv_SCR := nv_SCR n AND NOT (ucast lp)\<rparr>)"

definition SysTick_CLKSourceConfig :: "u32 \<Rightarrow> nvic_regs \<Rightarrow> nvic_regs" where
  "SysTick_CLKSourceConfig src n =
     (if src = SysTick_CLKSource_HCLK then n\<lparr>st_CTRL := st_CTRL n OR SysTick_CLKSource_HCLK\<rparr>
      else n\<lparr>st_CTRL := st_CTRL n AND SysTick_CLKSource_HCLK_Div8\<rparr>)"

section \<open>Operations of core\_cm4.h\<close>

text \<open>\<^verbatim>\<open>__NVIC_PRIO_BITS\<close> is 4; an interrupt number below zero is a core exception.\<close>

definition NVIC_SetPriority :: "int \<Rightarrow> u32 \<Rightarrow> nvic_regs \<Rightarrow> fault + nvic_regs" where
  "NVIC_SetPriority irqn priority n =
     (let v = (ucast (push_bit 4 priority AND 0xFF) :: u8)
      in if irqn < 0 then
           (let k = nat (irqn mod 16 - 4)
            in if 4 \<le> irqn mod 16 \<and> k < length (nv_SHP n)
               then Inr (n\<lparr>nv_SHP := (nv_SHP n)[k := v]\<rparr>) else Inl OutOfBounds)
         else if nat irqn < length (nv_IP n)
           then Inr (n\<lparr>nv_IP := (nv_IP n)[nat irqn := v]\<rparr>) else Inl OutOfBounds)"

text \<open>The result 1 is the failure, the registers are then untouched.\<close>

definition SysTick_Config :: "u32 \<Rightarrow> nvic_regs \<Rightarrow> fault + u32 \<times> nvic_regs" where
  "SysTick_Config ticks n =
     (if SysTick_LOAD_RELOAD_Msk < ticks - 1 then Inr (1, n)
      else
        (let n = n\<lparr>st_LOAD := ticks - 1\<rparr>
         in case NVIC_SetPriority SysTick_IRQn (push_bit 4 1 - 1) n of
              Inl e \<Rightarrow> Inl e
            | Inr n \<Rightarrow>
                let n = n\<lparr>st_VAL := 0\<rparr>
                in Inr (0, n\<lparr>st_CTRL := SysTick_CTRL_CLKSOURCE_Msk OR SysTick_CTRL_TICKINT_Msk
                                         OR SysTick_CTRL_ENABLE_Msk\<rparr>)))"

section \<open>Well-formed register blocks\<close>

text \<open>The lengths of the two priority arrays in \<^verbatim>\<open>core_cm4.h\<close>.\<close>

definition nvic_wf :: "nvic_regs \<Rightarrow> bool" where
  "nvic_wf n \<longleftrightarrow> length (nv_SHP n) = 12 \<and> length (nv_IP n) = 240"

text \<open>What the sequence of stores leaves enabled: a one sets or clears, a zero does nothing.\<close>

fun irq_enabled :: "nat \<Rightarrow> nvic_store list \<Rightarrow> bool \<Rightarrow> bool" where
  "irq_enabled k [] b = b"
| "irq_enabled k (ST_ISER w v # ss) b =
     irq_enabled k ss (if w = k div 32 \<and> bit v (k mod 32) then True else b)"
| "irq_enabled k (ST_ICER w v # ss) b =
     irq_enabled k ss (if w = k div 32 \<and> bit v (k mod 32) then False else b)"

lemma irq_enabled_append:
  "irq_enabled k (ss @ ts) b = irq_enabled k ts (irq_enabled k ss b)"
  by (induction k ss b rule: irq_enabled.induct) simp_all

section \<open>Priorities\<close>

text \<open>The byte \<^verbatim>\<open>NVIC_Init\<close> computes under a group code, and the five codes with their widths.\<close>

definition prio_byte :: "u32 \<Rightarrow> u8 \<Rightarrow> u8 \<Rightarrow> u8" where
  "prio_byte g p s =
     (let t = drop_bit 8 (0x700 - g)
      in ucast (push_bit 4 (push_bit (unat (0x4 - t)) (ucast p :: u32)
                 OR (ucast s AND drop_bit (unat t) (0x0F :: u32)))))"

definition prio_groups :: "(u32 \<times> nat) list" where
  "prio_groups = [(0x700, 0), (0x600, 1), (0x500, 2), (0x400, 3), (0x300, 4)]"

lemma prio_group_code:
  assumes "(g, k) \<in> set prio_groups"
  shows "(AIRCR_VECTKEY_MASK OR g) AND 0x700 = g" and "drop_bit 8 (0x700 - g) = of_nat k"
    and "k \<le> 4" and "0x4 - drop_bit 8 (0x700 - g) = of_nat (4 - k)"
  using assms by (auto simp: prio_groups_def)

lemma prio_byte_fields:
  assumes "(g, k) \<in> set prio_groups" and "p < 2 ^ k" and "s < 2 ^ (4 - k)"
  shows "unat (prio_byte g (of_nat p) (of_nat s)) div 2 ^ (8 - k) = p
    \<and> unat (prio_byte g (of_nat p) (of_nat s)) div 16 mod 2 ^ (4 - k) = s"
proof -
  have all: "list_all (\<lambda>(g, k). list_all (\<lambda>p. list_all (\<lambda>s.
        unat (prio_byte g (of_nat p) (of_nat s)) div 2 ^ (8 - k) = p
      \<and> unat (prio_byte g (of_nat p) (of_nat s)) div 16 mod 2 ^ (4 - k) = s)
      [0..<2 ^ (4 - k)]) [0..<2 ^ k]) prio_groups"
    by (simp add: prio_groups_def upt_rec prio_byte_def)
  show ?thesis using all assms by (force simp: list_all_iff)
qed

lemma NVIC_Init_enable:
  assumes "(g, k) \<in> set prio_groups" and "nv_AIRCR n AND 0x700 = g"
    and "unat (NVIC_IRQChannel init) < length (nv_IP n)" and "NVIC_IRQChannelCmd init = ENABLE"
  shows "NVIC_Init init n = Inr (nv_store (ST_ISER (unat (NVIC_IRQChannel init) div 32)
        (push_bit (unat (NVIC_IRQChannel init) mod 32) 1))
      (n\<lparr>nv_IP := (nv_IP n)[unat (NVIC_IRQChannel init) :=
        prio_byte g (NVIC_IRQChannelPreemptionPriority init) (NVIC_IRQChannelSubPriority init)]\<rparr>))"
proof -
  let ?c = "NVIC_IRQChannel init"
  have m: "(0x1F :: u8) = mask 5" by (simp add: mask_eq_exp_minus_1)
  have ch: "unat (?c AND 0x1F) = unat ?c mod 32" "unat (drop_bit 5 ?c) = unat ?c div 32"
    unfolding m unat_and_low unat_drop by simp_all
  note code = prio_group_code [OF assms(1)]
  have sh: "(0x4 - drop_bit 8 (0x700 - g) < 32) = True"
    using assms(1) by (auto simp: prio_groups_def)
  show ?thesis
    using assms(3,4)
    by (simp add: NVIC_Init_def Let_def assms(2) sh ch prio_byte_def)
qed

text \<open>
  C33.  Interrupt priorities round-trip: after \<^verbatim>\<open>NVIC_PriorityGroupConfig\<close> with the group of \<open>k\<close>
  pre-emption bits, \<^verbatim>\<open>NVIC_Init\<close> of a channel with a pre-emption priority below \<open>2^k\<close> and a
  subpriority below \<open>2^(4-k)\<close> stores a byte whose two fields are these values, enables that channel,
  and changes neither the priority nor the enable of any other.
\<close>

theorem nvic_priority_roundtrip:
  assumes "(g, k) \<in> set prio_groups" and "p < 2 ^ k" and "s < 2 ^ (4 - k)"
    and "nvic_wf n" and "unat ch < 240" and "j < 240"
  shows "\<exists>n'. NVIC_Init \<lparr>NVIC_IRQChannel = ch, NVIC_IRQChannelPreemptionPriority = of_nat p,
        NVIC_IRQChannelSubPriority = of_nat s, NVIC_IRQChannelCmd = ENABLE\<rparr>
      (NVIC_PriorityGroupConfig g n) = Inr n' \<and> nvic_wf n'
    \<and> unat (nv_IP n' ! unat ch) div 2 ^ (8 - k) = p
    \<and> unat (nv_IP n' ! unat ch) div 16 mod 2 ^ (4 - k) = s
    \<and> nv_IP n' ! j = (if j = unat ch then nv_IP n' ! unat ch else nv_IP n ! j)
    \<and> irq_enabled j (nv_stores n') b = (j = unat ch \<or> irq_enabled j (nv_stores n) b)"
proof -
  let ?i = "\<lparr>NVIC_IRQChannel = ch, NVIC_IRQChannelPreemptionPriority = of_nat p,
        NVIC_IRQChannelSubPriority = of_nat s, NVIC_IRQChannelCmd = ENABLE\<rparr>"
  let ?n = "NVIC_PriorityGroupConfig g n"
  let ?n' = "nv_store (ST_ISER (unat ch div 32) (push_bit (unat ch mod 32) 1))
      (?n\<lparr>nv_IP := (nv_IP ?n)[unat ch := prio_byte g (of_nat p) (of_nat s)]\<rparr>)"
  have run: "NVIC_Init ?i ?n = Inr ?n'"
    using NVIC_Init_enable [OF assms(1), of ?n ?i] assms(4,5) prio_group_code(1) [OF assms(1)]
    by (simp add: NVIC_PriorityGroupConfig_def nvic_wf_def)
  have hit: "unat ch div 32 = j div 32 \<and> unat ch mod 32 = j mod 32 \<longleftrightarrow> j = unat ch"
    by (metis div_mult_mod_eq)
  have bit: "bit (push_bit (unat ch mod 32) (1 :: u32)) (j mod 32) \<longleftrightarrow> unat ch mod 32 = j mod 32"
    by (auto simp: bit_simps simp del: push_bit_of_1)
  have "irq_enabled j (nv_stores ?n') b = (j = unat ch \<or> irq_enabled j (nv_stores n) b)"
    using hit bit by (auto simp: nv_store_def NVIC_PriorityGroupConfig_def irq_enabled_append
        simp del: push_bit_of_1)
  moreover have "nvic_wf ?n'" using assms(4)
    by (simp add: nv_store_def NVIC_PriorityGroupConfig_def nvic_wf_def)
  moreover have "nv_IP ?n' ! unat ch = prio_byte g (of_nat p) (of_nat s)"
    "nv_IP ?n' ! j = (if j = unat ch then nv_IP ?n' ! unat ch else nv_IP n ! j)"
    using assms(4,5) by (simp_all add: nv_store_def NVIC_PriorityGroupConfig_def nvic_wf_def)
  ultimately show ?thesis
    using run prio_byte_fields [OF assms(1-3)] by (intro exI [of _ ?n']) simp
qed

definition nvic_after_reset :: nvic_regs where
  "nvic_after_reset = \<lparr>nv_AIRCR = 0xFA050000, nv_VTOR = 0, nv_SCR = 0, nv_CPACR = 0,
     nv_SHP = replicate 12 0, nv_IP = replicate 240 0, nv_stores = [],
     st_CTRL = 0, st_LOAD = 0, st_VAL = 0\<rparr>"

lemma nvic_wf_after_reset: "nvic_wf nvic_after_reset"
  by (simp add: nvic_wf_def nvic_after_reset_def)

theorem nvic_priority_roundtrip_witness:
  "\<exists>n'. NVIC_Init \<lparr>NVIC_IRQChannel = USART1_IRQn, NVIC_IRQChannelPreemptionPriority = of_nat 3,
       NVIC_IRQChannelSubPriority = of_nat 1, NVIC_IRQChannelCmd = ENABLE\<rparr>
     (NVIC_PriorityGroupConfig NVIC_PriorityGroup_2 nvic_after_reset) = Inr n'
   \<and> irq_enabled 37 (nv_stores n') False \<and> unat (nv_IP n' ! 37) div 2 ^ 6 = 3"
proof -
  have h: "(NVIC_PriorityGroup_2, 2) \<in> set prio_groups" "(3 :: nat) < 2 ^ 2" "(1 :: nat) < 2 ^ (4 - 2)"
      "unat USART1_IRQn < 240" "(37 :: nat) < 240"
    by (simp_all add: prio_groups_def)
  show ?thesis
    using nvic_priority_roundtrip [OF h(1-3) nvic_wf_after_reset h(4,5), of False] by auto
qed

end
