(* ===== verification/Machine.thy ===== *)
theory Machine
  imports Usart Gpio Tmr Nvic
begin

text \<open>
  What the modules of \<^verbatim>\<open>src/at32f4xx\<close> share: the peripherals of the chip as one record, sequencing of
  steps that may fault, heap objects, and the two macros of \<^verbatim>\<open>hy_utils\<close> that allocate and free.  The
  headers of \<^verbatim>\<open>hy_utils\<close> are not part of the repository, so allocation is a parameter: \<open>malloc\<close> maps
  the set of addresses in use to a fresh one or to none, and \<open>hfree\<close> removes one object.
\<close>

section \<open>The chip\<close>

record machine =
  m_rcc :: rcc_regs
  m_nvic :: nvic_regs
  m_afio :: afio_regs
  m_gpio :: "gpio_port \<Rightarrow> gpio_regs"
  m_usart :: "usart_id \<Rightarrow> usart_regs"
  m_tmr :: "tmr_id \<Rightarrow> tmr_regs"

definition on_gpio :: "gpio_port \<Rightarrow> (gpio_regs \<Rightarrow> gpio_regs) \<Rightarrow> machine \<Rightarrow> machine" where
  "on_gpio x f m = m\<lparr>m_gpio := (m_gpio m)(x := f (m_gpio m x))\<rparr>"

definition on_usart :: "usart_id \<Rightarrow> (usart_regs \<Rightarrow> usart_regs) \<Rightarrow> machine \<Rightarrow> machine" where
  "on_usart u f m = m\<lparr>m_usart := (m_usart m)(u := f (m_usart m u))\<rparr>"

definition on_tmr :: "tmr_id \<Rightarrow> (tmr_regs \<Rightarrow> tmr_regs) \<Rightarrow> machine \<Rightarrow> machine" where
  "on_tmr x f m = m\<lparr>m_tmr := (m_tmr m)(x := f (m_tmr m x))\<rparr>"

definition on_rcc :: "(rcc_regs \<Rightarrow> rcc_regs) \<Rightarrow> machine \<Rightarrow> machine" where
  "on_rcc f m = m\<lparr>m_rcc := f (m_rcc m)\<rparr>"

definition on_nvic :: "(nvic_regs \<Rightarrow> fault + nvic_regs) \<Rightarrow> machine \<Rightarrow> fault + machine" where
  "on_nvic f m = (case f (m_nvic m) of Inl e \<Rightarrow> Inl e | Inr n \<Rightarrow> Inr (m\<lparr>m_nvic := n\<rparr>))"

lemmas on_defs = on_gpio_def on_usart_def on_tmr_def on_rcc_def

text \<open>The chip after reset, with the interrupt priorities grouped as \<^verbatim>\<open>hy_system.c\<close> does.\<close>

definition chip_after_reset :: machine where
  "chip_after_reset = \<lparr>m_rcc = rcc_after_reset,
     m_nvic = NVIC_PriorityGroupConfig NVIC_PriorityGroup_2 nvic_after_reset, m_afio = afio_after_reset,
     m_gpio = (\<lambda>_. gpio_after_reset), m_usart = (\<lambda>_. usart_after_reset), m_tmr = (\<lambda>_. tmr_after_reset)\<rparr>"

lemma chip_nvic: "nvic_wf (m_nvic chip_after_reset)" "nv_AIRCR (m_nvic chip_after_reset) AND 0x700 = 0x500"
  using nvic_wf_after_reset
  by (simp_all add: chip_after_reset_def nvic_wf_def NVIC_PriorityGroupConfig_def)

section \<open>Allocation\<close>

type_synonym malloc = "nat set \<Rightarrow> nat option"
type_synonym 'a hfree = "nat \<Rightarrow> (nat \<rightharpoonup> 'a) \<Rightarrow> (nat \<rightharpoonup> 'a)"

text \<open>What the drivers rely on: a new object is disjoint from all live ones, freeing ends one object.\<close>

definition malloc_ok :: "malloc \<Rightarrow> bool" where
  "malloc_ok malloc \<longleftrightarrow> (\<forall>A a. malloc A = Some a \<longrightarrow> a \<notin> A)"

definition hfree_ok :: "'a hfree \<Rightarrow> bool" where
  "hfree_ok hfree \<longleftrightarrow> (\<forall>p h. hfree p h = h(p := None))"

text \<open>A first-fit allocator over eight addresses, for the concrete instances.\<close>

definition first_fit :: malloc where
  "first_fit A = (let ys = filter (\<lambda>a. a \<notin> A) [1..<9] in if ys = [] then None else Some (hd ys))"

definition plain_free :: "'a hfree" where
  "plain_free p h = h(p := None)"

lemma first_fit_empty: "first_fit {} = Some 1"
  by (simp add: first_fit_def upt_rec)

lemma first_fit_ok: "malloc_ok first_fit"
proof -
  have "hd ys \<notin> A" if "ys = filter (\<lambda>a. a \<notin> A) [1..<9]" "ys \<noteq> []" for ys :: "nat list" and A
    using that hd_in_set [of ys] by auto
  then show ?thesis by (auto simp: malloc_ok_def first_fit_def Let_def split: if_splits)
qed

lemma plain_free_ok: "hfree_ok plain_free"
  by (simp add: hfree_ok_def plain_free_def)

section \<open>Tables of contexts\<close>

text \<open>
  Both the UART and the timer module keep a static array of context addresses indexed by port number.
  \<open>reg_wf num A H\<close>: every address in the table \<open>A\<close> is a live context of \<open>H\<close> for the index it stands at.
\<close>

definition reg_wf :: "('c \<Rightarrow> nat) \<Rightarrow> nat option list \<Rightarrow> (nat \<rightharpoonup> 'c) \<Rightarrow> bool" where
  "reg_wf num A H \<longleftrightarrow> (\<forall>k p. k < length A \<and> A ! k = Some p \<longrightarrow> (\<exists>c. H p = Some c \<and> num c = k))"

lemma reg_wf_empty: "reg_wf num (replicate n None) H"
  by (auto simp: reg_wf_def)

lemma reg_wf_lookup:
  "reg_wf num A H \<Longrightarrow> k < length A \<Longrightarrow> A ! k = Some p \<Longrightarrow> \<exists>c. H p = Some c \<and> num c = k"
  by (simp add: reg_wf_def)

lemma reg_wf_insert:
  assumes "reg_wf num A H" and "H p = None" and "num c = i"
  shows "reg_wf num (A[i := Some p]) (H(p \<mapsto> c))"
  unfolding reg_wf_def
proof (intro allI impI)
  fix k q assume k: "k < length (A[i := Some p]) \<and> A[i := Some p] ! k = Some q"
  show "\<exists>d. (H(p \<mapsto> c)) q = Some d \<and> num d = k"
  proof (cases "k = i")
    case True
    then show ?thesis using k assms(3) by (auto simp: nth_list_update)
  next
    case False
    then have "k < length A" "A ! k = Some q" using k by auto
    then obtain d where d: "H q = Some d" "num d = k" using assms(1) by (auto simp: reg_wf_def)
    then have "q \<noteq> p" using assms(2) by auto
    then show ?thesis using d by simp
  qed
qed

lemma reg_wf_remove:
  assumes "reg_wf num A H" and "H p = Some c" and "num c < length A"
  shows "reg_wf num (A[num c := None]) (H(p := None))"
  unfolding reg_wf_def
proof (intro allI impI)
  fix k q assume k: "k < length (A[num c := None]) \<and> A[num c := None] ! k = Some q"
  then have ne: "k \<noteq> num c" using assms(3) by auto
  then have "k < length A" "A ! k = Some q" using k by auto
  then obtain d where d: "H q = Some d" "num d = k" using assms(1) by (auto simp: reg_wf_def)
  then have "q \<noteq> p" using ne assms(2) by auto
  then show "\<exists>d. (H(p := None)) q = Some d \<and> num d = k" using d by simp
qed

text \<open>
  The contract of such a module: its steps keep the invariant, and under the invariant no vector of
  its interrupt handler faults.  \<open>'h\<close> is the enumeration of the module's missing header.
\<close>

locale context_module =
  fixes step :: "'h \<Rightarrow> malloc \<Rightarrow> 'c hfree \<Rightarrow> 'w \<Rightarrow> 'w \<Rightarrow> bool"
    and ok :: "'h \<Rightarrow> 'w \<Rightarrow> bool"
    and vectors :: "'h \<Rightarrow> nat set"
    and handler :: "'h \<Rightarrow> nat \<Rightarrow> 'w \<Rightarrow> fault + 'w"
  assumes step_ok: "malloc_ok malloc \<Longrightarrow> hfree_ok hfree \<Longrightarrow> ok h w \<Longrightarrow> step h malloc hfree w w' \<Longrightarrow> ok h w'"
    and handler_runs: "ok h w \<Longrightarrow> n \<in> vectors h \<Longrightarrow> \<exists>w'. handler h n w = Inr w'"
begin

lemma reachable_ok:
  assumes "malloc_ok malloc" and "hfree_ok hfree" and "(step h malloc hfree)\<^sup>*\<^sup>* w w'" and "ok h w"
  shows "ok h w'"
  using assms(3,4) by (induction rule: rtranclp_induct) (auto intro: step_ok [OF assms(1,2)])

lemma handler_never_faults:
  assumes "malloc_ok malloc" and "hfree_ok hfree" and "(step h malloc hfree)\<^sup>*\<^sup>* w w'" and "ok h w"
    and "n \<in> vectors h"
  shows "\<exists>w''. handler h n w' = Inr w''"
  using handler_runs [OF reachable_ok [OF assms(1-4)] assms(5)] .

end

end
