(* ===== verification/HyUart.thy ===== *)
theory HyUart
  imports Machine
begin

text \<open>
  The UART module, \<^verbatim>\<open>hy_uart.c\<close>: creation and destruction of a port, the receive interrupt with its
  callback, polled transmission of a byte and of a buffer, and the \<^verbatim>\<open>_write\<close> hook of the debug port.
  The header \<^verbatim>\<open>hy_uart.h\<close> is not part of the repository; its enumeration is a parameter.  Contexts
  live on a heap, \<^verbatim>\<open>context_array\<close> holds their addresses, and the stores to the data registers and
  the callback invocations are recorded in the order they happen.
\<close>

section \<open>State\<close>

record hy_uart_h =
  HY_UART_1 :: nat
  HY_UART_4 :: nat
  HY_UART_5 :: nat
  HY_UART_MAX :: nat
  DEBUG_UART_NUM :: nat

text \<open>The enumeration the tables of \<^verbatim>\<open>hy_uart.c\<close> are written for: port \<open>n\<close> has index \<open>n\<close>.\<close>

definition hy_uart_h_ok :: "hy_uart_h \<Rightarrow> bool" where
  "hy_uart_h_ok h \<longleftrightarrow> HY_UART_1 h = 1 \<and> HY_UART_4 h = 4 \<and> HY_UART_5 h = 5 \<and> HY_UART_MAX h = 6"

record uart_ctx =
  uc_num :: nat
  uc_read_cb :: "nat option"
  uc_args :: nat

record uart_cfg =
  cf_num :: nat
  cf_rate :: u32
  cf_read_cb :: "nat option"
  cf_args :: nat

datatype uart_event = Tx usart_id u16 | ReadCb nat u16 nat

record uart_world =
  uw_m :: machine
  uw_array :: "nat option list"
  uw_heap :: "nat \<rightharpoonup> uart_ctx"
  uw_log :: "uart_event list"

abbreviation (input) UART4_IRQn :: u8 where "UART4_IRQn \<equiv> 52"
abbreviation (input) UART5_IRQn :: u8 where "UART5_IRQn \<equiv> 53"
abbreviation (input) RCC_APB2PERIPH_USART1 :: u32 where "RCC_APB2PERIPH_USART1 \<equiv> 0x00004000"
abbreviation (input) RCC_APB1PERIPH_UART4 :: u32 where "RCC_APB1PERIPH_UART4 \<equiv> 0x00080000"
abbreviation (input) RCC_APB1PERIPH_UART5 :: u32 where "RCC_APB1PERIPH_UART5 \<equiv> 0x00100000"
abbreviation (input) AFIO_MAP5_USART5_0001 :: u32 where "AFIO_MAP5_USART5_0001 \<equiv> 0x80000101"
abbreviation (input) EOF :: int where "EOF \<equiv> - 1"

section \<open>Initialisation\<close>

record uart_pin =
  up_uart :: nat
  up_gpiox :: gpio_port
  up_tx_pin :: u16
  up_rx_pin :: u16

record uart_rcc =
  ur_uart_rcc :: u32
  ur_gpio_rcc :: u32
  ur_gpio_remap :: u32
  ur_new_state :: FunctionalState

definition uart_pins :: "hy_uart_h \<Rightarrow> uart_pin list" where
  "uart_pins h =
    [\<lparr>up_uart = HY_UART_1 h, up_gpiox = GPIOA, up_tx_pin = 0x0200, up_rx_pin = 0x0400\<rparr>,
     \<lparr>up_uart = HY_UART_4 h, up_gpiox = GPIOC, up_tx_pin = 0x0400, up_rx_pin = 0x0800\<rparr>,
     \<lparr>up_uart = HY_UART_5 h, up_gpiox = GPIOB, up_tx_pin = 0x0200, up_rx_pin = 0x0100\<rparr>]"

definition uart_rccs :: "uart_rcc list" where
  "uart_rccs =
    [\<lparr>ur_uart_rcc = RCC_APB2PERIPH_USART1, ur_gpio_rcc = RCC_APB2PERIPH_GPIOA,
      ur_gpio_remap = 0, ur_new_state = ENABLE\<rparr>,
     \<lparr>ur_uart_rcc = RCC_APB1PERIPH_UART4, ur_gpio_rcc = RCC_APB2PERIPH_GPIOC,
      ur_gpio_remap = 0, ur_new_state = ENABLE\<rparr>,
     \<lparr>ur_uart_rcc = RCC_APB1PERIPH_UART5, ur_gpio_rcc = RCC_APB2PERIPH_GPIOB OR RCC_APB2PERIPH_AFIO,
      ur_gpio_remap = AFIO_MAP5_USART5_0001, ur_new_state = ENABLE\<rparr>]"

text \<open>The body of the loop for the matching row, then the loop over \<open>i < HY_UART_MAX\<close>.\<close>

definition uart_gpio_row :: "hy_uart_h \<Rightarrow> nat \<Rightarrow> uart_pin \<Rightarrow> uart_rcc \<Rightarrow> machine \<Rightarrow> fault + machine" where
  "uart_gpio_row h num pin rc m =
     (let m = on_rcc (RCC_APB2PeriphClockCmd (ur_gpio_rcc rc) ENABLE) m;
          m = (if HY_UART_1 h = num then on_rcc (RCC_APB2PeriphClockCmd (ur_uart_rcc rc) ENABLE) m
               else on_rcc (RCC_APB1PeriphClockCmd (ur_uart_rcc rc) ENABLE) m)
      in seq (if ur_gpio_remap rc \<noteq> 0
              then (case GPIO_PinsRemapConfig (ur_gpio_remap rc) (ur_new_state rc) (m_afio m) of
                      Inl e \<Rightarrow> Inl e | Inr a \<Rightarrow> Inr (m\<lparr>m_afio := a\<rparr>))
              else Inr m)
           (\<lambda>m. let gpio = GPIO_StructInit;
                    gpio = gpio\<lparr>GPIO_Pins := up_tx_pin pin, GPIO_MaxSpeed := GPIO_MaxSpeed_50MHz,
                                GPIO_Mode := GPIO_Mode_AF_PP\<rparr>;
                    m = on_gpio (up_gpiox pin) (GPIO_Init gpio) m;
                    gpio = gpio\<lparr>GPIO_Pins := up_rx_pin pin, GPIO_Mode := GPIO_Mode_IN_PD\<rparr>
                in Inr (on_gpio (up_gpiox pin) (GPIO_Init gpio) m)))"

fun uart_gpio_loop :: "hy_uart_h \<Rightarrow> nat \<Rightarrow> nat list \<Rightarrow> machine \<Rightarrow> fault + machine" where
  "uart_gpio_loop h num [] m = Inr m"
| "uart_gpio_loop h num (i # is) m =
     seq (index (uart_pins h) i) (\<lambda>pin.
       if num \<noteq> up_uart pin then uart_gpio_loop h num is m
       else seq (index uart_rccs i) (\<lambda>rc. uart_gpio_row h num pin rc m))"

definition init_uart_gpio :: "hy_uart_h \<Rightarrow> nat \<Rightarrow> machine \<Rightarrow> fault + machine" where
  "init_uart_gpio h num m = uart_gpio_loop h num [0..<HY_UART_MAX h] m"

text \<open>The six initialisers of the local tables, filled up with NULL to \<^verbatim>\<open>HY_UART_MAX\<close> entries.\<close>

definition uart_table :: "hy_uart_h \<Rightarrow> usart_id option list" where
  "uart_table h = [None, Some USART1, Some USART2, Some USART3, Some UART4, Some UART5]
     @ replicate (HY_UART_MAX h - 6) None"

definition init_uart_func :: "hy_uart_h \<Rightarrow> nat \<Rightarrow> u32 \<Rightarrow> machine \<Rightarrow> fault + machine" where
  "init_uart_func h num rate m =
     (let uart = USART_StructInit;
          uart = uart\<lparr>USART_BaudRate := rate, USART_WordLength := USART_WordLength_8b,
                      USART_StopBits := USART_StopBits_1, USART_Parity := USART_Parity_No,
                      USART_HardwareFlowControl := USART_HardwareFlowControl_None,
                      USART_Mode := USART_Mode_Rx OR USART_Mode_Tx\<rparr>
      in seq (index (uart_table h) num) (\<lambda>u. seq (nonnull u) (\<lambda>u.
         seq (USART_Init u uart (m_rcc m) (m_usart m u)) (\<lambda>regs. Inr (on_usart u (\<lambda>_. regs) m)))))"

definition uart_interrupts :: "(usart_id option \<times> u8 \<times> u8) list" where
  "uart_interrupts =
    [(None, 0, 0), (Some USART1, USART1_IRQn, 1), (Some USART2, USART1_IRQn, 2),
     (Some USART3, USART1_IRQn, 3), (Some UART4, UART4_IRQn, 4), (Some UART5, UART5_IRQn, 5)]"

definition init_uart_interrupt :: "nat \<Rightarrow> machine \<Rightarrow> fault + machine" where
  "init_uart_interrupt num m =
     seq (index uart_interrupts num) (\<lambda>(u, ch, sub).
       seq (on_nvic (NVIC_Init \<lparr>NVIC_IRQChannel = ch, NVIC_IRQChannelPreemptionPriority = 0,
              NVIC_IRQChannelSubPriority = sub, NVIC_IRQChannelCmd = ENABLE\<rparr>) m) (\<lambda>m.
       seq (nonnull u) (\<lambda>u.
         let m = on_usart u (USART_INTConfig USART_INT_RDNE ENABLE) m
         in Inr (on_usart u (USART_Cmd ENABLE) m))))"

section \<open>The receive interrupt\<close>

definition uart_irq_handler :: "hy_uart_h \<Rightarrow> nat \<Rightarrow> uart_world \<Rightarrow> fault + uart_world" where
  "uart_irq_handler h num w =
     seq (index (uw_array w) num) (\<lambda>ctx.
       case ctx of None \<Rightarrow> Inr w
       | Some p \<Rightarrow>
          seq (deref (uw_heap w) p) (\<lambda>config_save.
          seq (index (uart_table h) num) (\<lambda>u. seq (nonnull u) (\<lambda>u.
            let regs = m_usart (uw_m w) u
            in if USART_GetITStatus USART_INT_RDNE regs \<noteq> RESET then
                 (case uc_read_cb config_save of
                    None \<Rightarrow> Inr w
                  | Some cb \<Rightarrow> Inr (w\<lparr>uw_log := uw_log w
                       @ [ReadCb cb (USART_ReceiveData regs) (uc_args config_save)]\<rparr>))
               else Inr w))))"

definition USART1_IRQHandler :: "hy_uart_h \<Rightarrow> uart_world \<Rightarrow> fault + uart_world" where
  "USART1_IRQHandler h w = uart_irq_handler h (HY_UART_1 h) w"

definition UART4_IRQHandler :: "hy_uart_h \<Rightarrow> uart_world \<Rightarrow> fault + uart_world" where
  "UART4_IRQHandler h w = uart_irq_handler h (HY_UART_4 h) w"

definition UART5_IRQHandler :: "hy_uart_h \<Rightarrow> uart_world \<Rightarrow> fault + uart_world" where
  "UART5_IRQHandler h w = uart_irq_handler h (HY_UART_5 h) w"

section \<open>Transmission\<close>

text \<open>
  \<open>sts c\<close> is the status register as poll number \<open>c\<close> after the store finds it.  \<^verbatim>\<open>char\<close> is unsigned on
  this target.
\<close>

definition tx :: "usart_id \<Rightarrow> u8 \<Rightarrow> uart_world \<Rightarrow> uart_world" where
  "tx u b w = w\<lparr>uw_m := on_usart u (USART_SendData (ucast b)) (uw_m w),
     uw_log := uw_log w @ [Tx u (us_DT (USART_SendData (ucast b) (m_usart (uw_m w) u)))]\<rparr>"

definition trac :: "u16 \<Rightarrow> bool" where
  "trac s \<longleftrightarrow> USART_GetFlagStatus USART_FLAG_TRAC
     \<lparr>us_STS = s, us_DT = 0, us_BAUDR = 0, us_CTRL1 = 0, us_CTRL2 = 0, us_CTRL3 = 0, us_GTP = 0\<rparr> \<noteq> RESET"

definition HyUartSendByte ::
    "hy_uart_h \<Rightarrow> (u32 \<Rightarrow> u16) \<Rightarrow> nat option \<Rightarrow> u8 \<Rightarrow> uart_world \<Rightarrow> fault + int \<times> uart_world" where
  "HyUartSendByte h sts handle byte w =
     (case handle of None \<Rightarrow> Inr (- 1, w)
      | Some p \<Rightarrow>
         seq (deref (uw_heap w) p) (\<lambda>context.
         seq (index (uart_table h) (uc_num context)) (\<lambda>u. seq (nonnull u) (\<lambda>u.
           let w = tx u byte w;
               (Status, Count) = poll_loop (\<lambda>c. trac (sts c)) 0x1CE2 0
           in if Count = 0x1CE2 then Inr (EOF, w) else Inr (int (unat byte), w)))))"

text \<open>
  The outer loop of \<^verbatim>\<open>HyUartSendBuf\<close>: \<open>k\<close> numbers the transmissions for the environment, \<open>i\<close> is the
  16-bit index, \<open>str\<close> the memory at \<^verbatim>\<open>buf\<close>.
\<close>

partial_function (option) uart_send_loop ::
    "(nat \<Rightarrow> u32 \<Rightarrow> u16) \<Rightarrow> usart_id \<Rightarrow> u8 list \<Rightarrow> nat \<Rightarrow> nat \<Rightarrow> u16 \<Rightarrow> uart_world
      \<Rightarrow> (fault + u16 \<times> uart_world) option" where
  "uart_send_loop sts u str len k i w =
     (if unat i < length str then
        (let w' = tx u (str ! unat i) w;
             count = snd (poll_loop (\<lambda>c. trac (sts k c)) 0x1CE2 0)
         in if count = 0x1CE2 then Some (Inr (i, w'))
            else if unat (i + 1) < len then uart_send_loop sts u str len (k + 1) (i + 1) w'
            else Some (Inr (i + 1, w')))
      else Some (Inl OutOfBounds))"

definition HyUartSendBuf ::
    "hy_uart_h \<Rightarrow> (nat \<Rightarrow> u32 \<Rightarrow> u16) \<Rightarrow> nat option \<Rightarrow> u8 list \<Rightarrow> nat \<Rightarrow> uart_world
      \<Rightarrow> (fault + int \<times> uart_world) option" where
  "HyUartSendBuf h sts handle buf len w =
     (case handle of None \<Rightarrow> Some (Inr (- 1, w))
      | Some p \<Rightarrow>
         (case seq (deref (uw_heap w) p) (\<lambda>context.
               seq (index (uart_table h) (uc_num context)) nonnull) of
            Inl e \<Rightarrow> Some (Inl e)
          | Inr u \<Rightarrow>
              map_option (\<lambda>r. seq r (\<lambda>(i, w). Inr (int (unat i), w)))
                (uart_send_loop sts u buf len 0 0 w)))"

section \<open>Create and destroy\<close>

text \<open>The result is the value of \<^verbatim>\<open>*handle\<close> afterwards; \<^verbatim>\<open>HY_FREE\<close> clears the pointer it frees.\<close>

definition HyUartDestroy :: "uart_ctx hfree \<Rightarrow> nat option \<Rightarrow> uart_world \<Rightarrow> fault + nat option \<times> uart_world" where
  "HyUartDestroy hfree handle w =
     (case handle of None \<Rightarrow> Inr (None, w)
      | Some p \<Rightarrow>
         seq (deref (uw_heap w) p) (\<lambda>context.
         seq (index (uw_array w) (uc_num context)) (\<lambda>_.
           Inr (None, w\<lparr>uw_array := (uw_array w)[uc_num context := None],
                        uw_heap := hfree p (uw_heap w)\<rparr>))))"

definition HyUartCreate ::
    "hy_uart_h \<Rightarrow> malloc \<Rightarrow> uart_ctx hfree \<Rightarrow> uart_cfg option \<Rightarrow> uart_world
      \<Rightarrow> fault + nat option \<times> uart_world" where
  "HyUartCreate h malloc hfree uart_config w =
     (case uart_config of None \<Rightarrow> Inr (None, w)
      | Some cfg \<Rightarrow>
         (case malloc (dom (uw_heap w)) of
            None \<Rightarrow> HyUartDestroy hfree None w
          | Some p \<Rightarrow>
              seq (index (uw_array w) (cf_num cfg)) (\<lambda>_.
                let w = w\<lparr>uw_array := (uw_array w)[cf_num cfg := Some p]\<rparr>;
                    w = w\<lparr>uw_heap := (uw_heap w)(p \<mapsto> \<lparr>uc_num = cf_num cfg,
                           uc_read_cb = cf_read_cb cfg, uc_args = cf_args cfg\<rparr>)\<rparr>
                in seq (init_uart_gpio h (cf_num cfg) (uw_m w)) (\<lambda>m.
                   seq (init_uart_func h (cf_num cfg) (cf_rate cfg) m) (\<lambda>m.
                   seq (init_uart_interrupt (cf_num cfg) m) (\<lambda>m.
                     Inr (Some p, w\<lparr>uw_m := m\<rparr>)))))))"

section \<open>The debug port\<close>

text \<open>The loop of \<^verbatim>\<open>_write\<close>: the list is the memory at \<^verbatim>\<open>ptr\<close>, read before the length is tested.\<close>

fun uart_write_loop ::
    "hy_uart_h \<Rightarrow> (nat \<Rightarrow> u32 \<Rightarrow> u16) \<Rightarrow> nat option \<Rightarrow> u8 list \<Rightarrow> int \<Rightarrow> int \<Rightarrow> nat \<Rightarrow> uart_world
      \<Rightarrow> fault + int \<times> uart_world" where
  "uart_write_loop h sts ctx [] len i k w = Inl OutOfBounds"
| "uart_write_loop h sts ctx (b # ptr) len i k w =
     (if b \<noteq> 0 \<and> i < len then
        seq (HyUartSendByte h (sts k) ctx b w) (\<lambda>(_, w).
        seq (if b = 10 then HyUartSendByte h (sts (k + 1)) ctx 13 w else Inr (0, w)) (\<lambda>(_, w).
          uart_write_loop h sts ctx ptr len (i + 1) (k + 2) w))
      else Inr (i, w))"

definition uart_write ::
    "hy_uart_h \<Rightarrow> (nat \<Rightarrow> u32 \<Rightarrow> u16) \<Rightarrow> int \<Rightarrow> u8 list \<Rightarrow> int \<Rightarrow> uart_world \<Rightarrow> fault + int \<times> uart_world" where
  "uart_write h sts fd ptr len w =
     (if 2 < fd then Inr (- 1, w)
      else seq (index (uw_array w) (DEBUG_UART_NUM h)) (\<lambda>ctx.
             uart_write_loop h sts ctx ptr len 0 0 w))"

definition HyUartDebugDestroy :: "uart_ctx hfree \<Rightarrow> nat option \<Rightarrow> uart_world \<Rightarrow> fault + nat option \<times> uart_world" where
  "HyUartDebugDestroy hfree handle w =
     (case handle of None \<Rightarrow> Inr (None, w) | Some p \<Rightarrow> HyUartDestroy hfree handle w)"

definition HyUartDebugCreate ::
    "hy_uart_h \<Rightarrow> malloc \<Rightarrow> uart_ctx hfree \<Rightarrow> uart_cfg option \<Rightarrow> uart_world
      \<Rightarrow> fault + nat option \<times> uart_world" where
  "HyUartDebugCreate h malloc hfree uart_config w = HyUartCreate h malloc hfree uart_config w"

section \<open>Lemmas on transmission\<close>

lemma tx_log: "uw_log (tx u b w) = uw_log w @ [Tx u (ucast b)]"
proof -
  have m: "(0x1FF :: u16) = mask 9" by (simp add: mask_eq_exp_minus_1)
  have "(ucast b :: u16) AND mask 9 = ucast b"
  proof (rule bit_word_eqI)
    fix n assume "n < LENGTH(16)"
    show "bit ((ucast b :: u16) AND mask 9) n = bit (ucast b :: u16) n"
      using bit_imp_le_length [of b n] by (auto simp: bit_simps)
  qed
  then have "(ucast b :: u16) AND 0x01FF = ucast b" unfolding m .
  then show ?thesis by (simp only: tx_def USART_SendData_def uart_world.simps usart_regs.simps)
    simp
qed

lemma tx_frame [simp]:
  "uw_array (tx u b w) = uw_array w" "uw_heap (tx u b w) = uw_heap w"
  by (simp_all add: tx_def)

definition tx_all :: "usart_id \<Rightarrow> u8 list \<Rightarrow> uart_world \<Rightarrow> uart_world" where
  "tx_all u bs w = fold (tx u) bs w"

lemma tx_all_simps [simp]: "tx_all u [] w = w" "tx_all u (b # bs) w = tx_all u bs (tx u b w)"
  by (simp_all add: tx_all_def)

lemma tx_all_log: "uw_log (tx_all u bs w) = uw_log w @ map (\<lambda>b. Tx u (ucast b)) bs"
  by (induction bs arbitrary: w) (simp_all add: tx_log)

text \<open>
  A transmission is acknowledged in time when a poll before the last one finds the flag; the
  counter then differs from the limit.
\<close>

definition in_time :: "(u32 \<Rightarrow> u16) \<Rightarrow> bool" where
  "in_time sts \<longleftrightarrow> snd (poll_loop (\<lambda>c. trac (sts c)) 0x1CE2 0) \<noteq> 0x1CE2"

lemma in_time_iff: "in_time sts \<longleftrightarrow> (\<exists>c < 0x1CE1. trac (sts c))"
  unfolding in_time_def using poll_loop_count [of "0x1CE2" "\<lambda>c. trac (sts c)"] by simp

lemma trac_iff: "trac s \<longleftrightarrow> s AND USART_FLAG_TRAC \<noteq> 0"
  by (simp add: trac_def USART_GetFlagStatus_def)

lemma SendByte_eq:
  assumes "uw_heap w p = Some c" and "uc_num c < length (uart_table h)"
    and "uart_table h ! uc_num c = Some u"
  shows "HyUartSendByte h sts (Some p) b w
    = Inr (if in_time sts then int (unat b) else EOF, tx u b w)"
  using assms by (simp add: HyUartSendByte_def in_time_def split_beta)

lemma send_loop_step:
  "unat i < length str \<Longrightarrow> uart_send_loop sts u str len k i w =
     (if in_time (sts k) then
        if unat (i + 1) < len then uart_send_loop sts u str len (k + 1) (i + 1) (tx u (str ! unat i) w)
        else Some (Inr (i + 1, tx u (str ! unat i) w))
      else Some (Inr (i, tx u (str ! unat i) w)))"
  by (subst uart_send_loop.simps) (simp add: in_time_def)

text \<open>The number of bytes acknowledged before the first that is not.\<close>

definition sent_ok :: "(nat \<Rightarrow> u32 \<Rightarrow> u16) \<Rightarrow> nat \<Rightarrow> nat \<Rightarrow> nat" where
  "sent_ok sts k len = length (takeWhile (\<lambda>j. in_time (sts j)) [k..<len])"

lemma sent_ok_step:
  "k < len \<Longrightarrow> sent_ok sts k len = (if in_time (sts k) then Suc (sent_ok sts (Suc k) len) else 0)"
  by (simp add: sent_ok_def upt_conv_Cons)

lemma send_loop_run:
  assumes "k < len" and "len \<le> 65535" and "len \<le> length str"
  shows "uart_send_loop sts u str len k (of_nat k) w =
     Some (Inr (of_nat (k + sent_ok sts k len),
       tx_all u (take (Suc (sent_ok sts k len)) (drop k (take len str))) w))"
  using assms
proof (induction "len - k" arbitrary: k w)
  case 0
  then show ?case by simp
next
  case (Suc d)
  have k: "unat (of_nat k :: u16) = k" and k1: "unat (of_nat (Suc k) :: u16) = Suc k"
    using Suc.prems unat_of_nat_small [of k, where 'a=16] unat_of_nat_small [of "Suc k", where 'a=16]
    by simp_all
  have succ: "of_nat k + 1 = (of_nat (Suc k) :: u16)" by simp
  have d: "drop k (take len str) = str ! k # drop (Suc k) (take len str)"
    using Suc.prems Cons_nth_drop_Suc [of k "take len str"] by simp
  have kl: "unat (of_nat k :: u16) < length str" using Suc.prems k by simp
  have step: "uart_send_loop sts u str len k (of_nat k) w =
     (if in_time (sts k) then
        if Suc k < len then uart_send_loop sts u str len (Suc k) (of_nat (Suc k)) (tx u (str ! k) w)
        else Some (Inr (of_nat (Suc k), tx u (str ! k) w))
      else Some (Inr (of_nat k, tx u (str ! k) w)))"
    unfolding send_loop_step [OF kl] succ k k1 Suc_eq_plus1 [symmetric] ..
  show ?case
  proof (cases "in_time (sts k)")
    case False
    then show ?thesis unfolding step d sent_ok_step [OF Suc.prems(1)] by simp
  next
    case True
    show ?thesis
    proof (cases "Suc k < len")
      case False
      then have "sent_ok sts (Suc k) len = 0" "drop (Suc k) (take len str) = []"
        by (simp_all add: sent_ok_def)
      then show ?thesis unfolding step d sent_ok_step [OF Suc.prems(1)] using True False by simp
    next
      case more: True
      have "uart_send_loop sts u str len (Suc k) (of_nat (Suc k)) (tx u (str ! k) w) =
          Some (Inr (of_nat (Suc k + sent_ok sts (Suc k) len),
            tx_all u (take (Suc (sent_ok sts (Suc k) len)) (drop (Suc k) (take len str)))
              (tx u (str ! k) w)))"
        using Suc.hyps(2) Suc.prems more by (intro Suc.hyps(1)) simp_all
      then show ?thesis unfolding step d sent_ok_step [OF Suc.prems(1)] using True more
        by (simp del: of_nat_Suc of_nat_add)
    qed
  qed
qed

text \<open>A length the 16-bit index never reaches: the loop has no result while the hardware keeps up.\<close>

lemma send_loop_forever:
  assumes "65536 \<le> len" and "65536 \<le> length str" and "\<And>k. in_time (sts k)"
  shows "uart_send_loop sts u str len k i w = None"
proof -
  have i: "unat j < 65536" for j :: u16 using unsigned_less [of j] by simp
  have "\<not> (sts' = sts \<and> str' = str \<and> len' = len)"
    if "uart_send_loop sts' u' str' len' k' i' w' = Some r" for sts' u' str' len' k' w' r and i' :: u16
  proof (rule uart_send_loop.raw_induct
      [where P = "\<lambda>sts' u' str' len' k' i' w' r. \<not> (sts' = sts \<and> str' = str \<and> len' = len)", OF _ that])
    fix loop sts' u' str' len' k' w' r and i' :: u16
    assume IH: "\<And>sts' u' str' len' k' i' w' r. loop sts' u' str' len' k' i' w' = Some r
        \<Longrightarrow> \<not> (sts' = sts \<and> str' = str \<and> len' = len)"
      and body: "(if unat i' < length str' then
        (let w'' = tx u' (str' ! unat i') w';
             count = snd (poll_loop (\<lambda>c. trac (sts' k' c)) 0x1CE2 0)
         in if count = 0x1CE2 then Some (Inr (i', w''))
            else if unat (i' + 1) < len' then loop sts' u' str' len' (k' + 1) (i' + 1) w''
            else Some (Inr (i' + 1, w'')))
      else Some (Inl OutOfBounds)) = Some r"
    show "\<not> (sts' = sts \<and> str' = str \<and> len' = len)"
    proof
      assume eq: "sts' = sts \<and> str' = str \<and> len' = len"
      have "unat i' < length str" "unat (i' + 1) < len"
        using i [of i'] i [of "i' + 1"] assms(1,2) by linarith+
      then have "loop sts u' str len (k' + 1) (i' + 1) (tx u' (str ! unat i') w') = Some r"
        using body eq assms(3) [of k'] by (simp add: in_time_def Let_def)
      then show False using IH by blast
    qed
  qed
  then show ?thesis by (cases "uart_send_loop sts u str len k i w") blast+
qed

section \<open>Lemmas on the registry of contexts\<close>

text \<open>Every registered address is a live context of the port it is registered for.\<close>

definition registry_ok :: "uart_world \<Rightarrow> bool" where
  "registry_ok w \<longleftrightarrow> reg_wf uc_num (uw_array w) (uw_heap w)"

lemma destroy_registry:
  assumes "registry_ok w" and "hfree_ok hfree" and "HyUartDestroy hfree handle w = Inr (r, w')"
  shows "registry_ok w'"
  using assms unfolding registry_ok_def
  by (auto simp: HyUartDestroy_def seq_Inr_iff deref_def index_def hfree_ok_def
      split: option.splits if_splits intro: reg_wf_remove)

lemma create_registry:
  assumes "registry_ok w" and "malloc_ok malloc"
    and "HyUartCreate h malloc hfree cfg w = Inr (r, w')"
  shows "registry_ok w'"
proof (cases "\<exists>c p. cfg = Some c \<and> malloc (dom (uw_heap w)) = Some p")
  case False
  then have "w' = w" using assms(3)
    by (auto simp: HyUartCreate_def HyUartDestroy_def split: option.splits)
  then show ?thesis using assms(1) by simp
next
  case True
  then obtain c p where cp: "cfg = Some c" "malloc (dom (uw_heap w)) = Some p" by blast
  then have fresh: "uw_heap w p = None" using assms(2) by (auto simp: malloc_ok_def)
  obtain m where w': "w' = w\<lparr>uw_array := (uw_array w)[cf_num c := Some p],
      uw_heap := (uw_heap w)(p \<mapsto> \<lparr>uc_num = cf_num c, uc_read_cb = cf_read_cb c, uc_args = cf_args c\<rparr>),
      uw_m := m\<rparr>"
    using assms(3) cp by (auto simp: HyUartCreate_def seq_Inr_iff Let_def)
  show ?thesis using assms(1) fresh unfolding registry_ok_def w' by (simp add: reg_wf_insert)
qed

text \<open>The interrupt handler under the invariant: it cannot fault.\<close>

lemma irq_runs:
  assumes "registry_ok w" and "num < length (uw_array w)" and "1 \<le> num" and "num < 6"
  shows "\<exists>w'. uart_irq_handler h num w = Inr w'"
proof (cases "uw_array w ! num")
  case None
  then show ?thesis using assms(2) by (simp add: uart_irq_handler_def)
next
  case (Some p)
  then obtain c where c: "uw_heap w p = Some c" "uc_num c = num"
    using reg_wf_lookup [OF assms(1) [unfolded registry_ok_def] assms(2)] by blast
  have "num = 1 \<or> num = 2 \<or> num = 3 \<or> num = 4 \<or> num = 5" using assms(3,4) by linarith
  then obtain u where "num < length (uart_table h)" "uart_table h ! num = Some u"
    by (auto simp: uart_table_def nth_append)
  then show ?thesis using Some c assms(2)
    by (auto simp: uart_irq_handler_def Let_def split: option.split)
qed

lemma irq_effect:
  assumes "num < length (uw_array w)" and "uw_array w ! num = Some p" and "uw_heap w p = Some c"
    and "num < length (uart_table h)" and "uart_table h ! num = Some u"
  shows "uart_irq_handler h num w = Inr (case uc_read_cb c of
      Some cb \<Rightarrow> if int_enabled USART_INT_RDNE (m_usart (uw_m w) u)
           \<and> int_pending USART_INT_RDNE (m_usart (uw_m w) u)
         then w\<lparr>uw_log := uw_log w @ [ReadCb cb (USART_ReceiveData (m_usart (uw_m w) u)) (uc_args c)]\<rparr>
         else w
    | None \<Rightarrow> w)"
proof -
  have g: "USART_GetITStatus USART_INT_RDNE r \<noteq> RESET \<longleftrightarrow> int_enabled USART_INT_RDNE r \<and> int_pending USART_INT_RDNE r"
    for r using GetITStatus_iff [of USART_INT_RDNE r]
    by (cases "USART_GetITStatus USART_INT_RDNE r") auto
  show ?thesis using assms by (simp add: uart_irq_handler_def Let_def g split: option.split)
qed

section \<open>Lemmas on creation\<close>

text \<open>The peripheral, port, pins and interrupt of the three supported port numbers.\<close>

record uart_port =
  pt_uart :: usart_id
  pt_gpio :: gpio_port
  pt_tx :: nat
  pt_rx :: nat
  pt_irq :: nat
  pt_prio :: u8

definition uart_port_of :: "nat \<Rightarrow> uart_port" where
  "uart_port_of num =
     (if num = 1 then \<lparr>pt_uart = USART1, pt_gpio = GPIOA, pt_tx = 9, pt_rx = 10, pt_irq = 37, pt_prio = 0x10\<rparr>
      else if num = 4 then \<lparr>pt_uart = UART4, pt_gpio = GPIOC, pt_tx = 10, pt_rx = 11, pt_irq = 52, pt_prio = 0\<rparr>
      else \<lparr>pt_uart = UART5, pt_gpio = GPIOB, pt_tx = 9, pt_rx = 8, pt_irq = 53, pt_prio = 0x10\<rparr>)"

definition port_nvic :: "uart_port \<Rightarrow> nvic_regs \<Rightarrow> nvic_regs" where
  "port_nvic P n = nv_store (ST_ISER 1 (push_bit (pt_irq P mod 32) 1))
     (n\<lparr>nv_IP := (nv_IP n)[pt_irq P := pt_prio P]\<rparr>)"

text \<open>What the two pin configurations of a port leave.\<close>

definition tx_init :: "u16 \<Rightarrow> GPIO_InitType" where
  "tx_init p = \<lparr>GPIO_Pins = p, GPIO_MaxSpeed = GPIO_MaxSpeed_50MHz, GPIO_Mode = GPIO_Mode_AF_PP\<rparr>"

definition rx_init :: "u16 \<Rightarrow> GPIO_InitType" where
  "rx_init p = \<lparr>GPIO_Pins = p, GPIO_MaxSpeed = GPIO_MaxSpeed_50MHz, GPIO_Mode = GPIO_Mode_IN_PD\<rparr>"

lemma uart_gpio_row_gpio:
  assumes "ur_gpio_remap rc = 0 \<or> (ur_gpio_remap rc = AFIO_MAP5_USART5_0001 \<and> ur_new_state rc = ENABLE)"
  shows "\<exists>m'. uart_gpio_row h num pin rc m = Inr m'
    \<and> m_gpio m' (up_gpiox pin) = GPIO_Init (rx_init (up_rx_pin pin))
         (GPIO_Init (tx_init (up_tx_pin pin)) (m_gpio m (up_gpiox pin)))
    \<and> rcc_CFG (m_rcc m') = rcc_CFG (m_rcc m) \<and> rcc_MISC (m_rcc m') = rcc_MISC (m_rcc m)
    \<and> rcc_MISC2 (m_rcc m') = rcc_MISC2 (m_rcc m)
    \<and> m_usart m' = m_usart m \<and> m_nvic m' = m_nvic m"
proof -
  have remap: "\<exists>a'. GPIO_PinsRemapConfig AFIO_MAP5_USART5_0001 ENABLE a = Inr a'" for a
    by (simp add: GPIO_PinsRemapConfig_def GPIO_PinsRemap_grouped_def afio_map_def)
  obtain a' where a': "GPIO_PinsRemapConfig AFIO_MAP5_USART5_0001 ENABLE (m_afio m) = Inr a'"
    using remap by blast
  show ?thesis using assms a'
    by (auto simp: uart_gpio_row_def on_rcc_def on_gpio_def RCC_APB2PeriphClockCmd_def
        RCC_APB1PeriphClockCmd_def GPIO_StructInit_def tx_init_def rx_init_def Let_def)
qed

lemma clocks_of_CFG:
  assumes "rcc_CFG r' = rcc_CFG r" "rcc_MISC r' = rcc_MISC r" "rcc_MISC2 r' = rcc_MISC2 r"
  shows "RCC_GetClocksFreq r' = RCC_GetClocksFreq r"
  by (simp only: RCC_GetClocksFreq_def sysclk_freq_def assms)

lemma init_uart_gpio_supported:
  assumes "hy_uart_h_ok h" and "num \<in> {1, 4, 5}"
  shows "\<exists>m'. init_uart_gpio h num m = Inr m'
    \<and> m_gpio m' (pt_gpio (uart_port_of num)) = GPIO_Init (rx_init (push_bit (pt_rx (uart_port_of num)) 1))
         (GPIO_Init (tx_init (push_bit (pt_tx (uart_port_of num)) 1)) (m_gpio m (pt_gpio (uart_port_of num))))
    \<and> RCC_GetClocksFreq (m_rcc m') = RCC_GetClocksFreq (m_rcc m)
    \<and> m_usart m' = m_usart m \<and> m_nvic m' = m_nvic m"
proof -
  have h: "HY_UART_1 h = 1" "HY_UART_4 h = 4" "HY_UART_5 h = 5" "HY_UART_MAX h = 6"
    using assms(1) by (simp_all add: hy_uart_h_ok_def)
  have upt: "[0..<6] = [0, 1, 2, 3, 4, 5 :: nat]" by (simp add: upt_rec)
  define i where "i = (if num = 1 then 0 else if num = 4 then 1 else 2 :: nat)"
  have loop: "uart_gpio_loop h num [0..<6] m
      = uart_gpio_row h num (uart_pins h ! i) (uart_rccs ! i) m"
    using assms(2) by (auto simp: i_def upt uart_pins_def uart_rccs_def index_def h)
  have row: "up_gpiox (uart_pins h ! i) = pt_gpio (uart_port_of num)"
    "up_tx_pin (uart_pins h ! i) = push_bit (pt_tx (uart_port_of num)) 1"
    "up_rx_pin (uart_pins h ! i) = push_bit (pt_rx (uart_port_of num)) 1"
    using assms(2) by (auto simp: i_def uart_pins_def uart_port_of_def)
  have rc: "ur_gpio_remap (uart_rccs ! i) = 0 \<or> (ur_gpio_remap (uart_rccs ! i) = AFIO_MAP5_USART5_0001
      \<and> ur_new_state (uart_rccs ! i) = ENABLE)"
    using assms(2) by (auto simp: i_def uart_rccs_def)
  from uart_gpio_row_gpio [OF rc, of h num "uart_pins h ! i" m, unfolded row] show ?thesis
  proof (elim exE conjE)
    fix m'
    assume m': "uart_gpio_row h num (uart_pins h ! i) (uart_rccs ! i) m = Inr m'"
      "m_gpio m' (pt_gpio (uart_port_of num)) = GPIO_Init (rx_init (push_bit (pt_rx (uart_port_of num)) 1))
         (GPIO_Init (tx_init (push_bit (pt_tx (uart_port_of num)) 1)) (m_gpio m (pt_gpio (uart_port_of num))))"
      "m_usart m' = m_usart m" "m_nvic m' = m_nvic m"
    assume cfg: "rcc_CFG (m_rcc m') = rcc_CFG (m_rcc m)" "rcc_MISC (m_rcc m') = rcc_MISC (m_rcc m)"
      "rcc_MISC2 (m_rcc m') = rcc_MISC2 (m_rcc m)"
    have "init_uart_gpio h num m = Inr m'" by (simp only: init_uart_gpio_def h(4) loop m'(1))
    with m'(2-4) clocks_of_CFG [OF cfg] show ?thesis by (intro exI [of _ m'] conjI)
  qed
qed

lemma init_uart_gpio_unsupported:
  assumes "hy_uart_h_ok h" and "num \<notin> {1, 4, 5}"
  shows "init_uart_gpio h num m = Inl OutOfBounds"
  using assms by (simp add: hy_uart_h_ok_def init_uart_gpio_def uart_pins_def upt_rec index_def)

text \<open>\<^verbatim>\<open>init_uart_func\<close> and \<^verbatim>\<open>init_uart_interrupt\<close> of a supported port.\<close>

lemma uart_table_supported:
  assumes "hy_uart_h_ok h" and "num \<in> {1, 4, 5}"
  shows "num < length (uart_table h)" and "uart_table h ! num = Some (pt_uart (uart_port_of num))"
  using assms by (auto simp: uart_table_def uart_port_of_def nth_append)

lemma init_uart_func_supported:
  assumes "hy_uart_h_ok h" and "num \<in> {1, 4, 5}" and "rate \<noteq> 0"
  shows "\<exists>regs. init_uart_func h num rate m = Inr (on_usart (pt_uart (uart_port_of num)) (\<lambda>_. regs) m)
    \<and> us_BAUDR regs = baud_divider (usart_bus_clock (pt_uart (uart_port_of num)) (m_rcc m)) rate"
proof -
  let ?u = "pt_uart (uart_port_of num)"
  let ?i = "USART_StructInit\<lparr>USART_BaudRate := rate, USART_WordLength := USART_WordLength_8b,
      USART_StopBits := USART_StopBits_1, USART_Parity := USART_Parity_No,
      USART_HardwareFlowControl := USART_HardwareFlowControl_None,
      USART_Mode := USART_Mode_Rx OR USART_Mode_Tx\<rparr>"
  have "USART_BaudRate ?i \<noteq> 0" using assms(3) by simp
  then obtain regs where "USART_Init ?u ?i (m_rcc m) (m_usart m ?u) = Inr regs"
      "us_BAUDR regs = baud_divider (usart_bus_clock ?u (m_rcc m)) (USART_BaudRate ?i)"
    using USART_Init_BAUDR by blast
  then show ?thesis using uart_table_supported [OF assms(1,2)]
    by (intro exI [of _ regs]) (simp add: init_uart_func_def)
qed

lemma init_uart_interrupt_supported:
  assumes "num \<in> {1, 4, 5}" and "nvic_wf (m_nvic m)" and "nv_AIRCR (m_nvic m) AND 0x700 = 0x500"
  shows "init_uart_interrupt num m = Inr (on_usart (pt_uart (uart_port_of num)) (USART_Cmd ENABLE)
      (on_usart (pt_uart (uart_port_of num)) (USART_INTConfig USART_INT_RDNE ENABLE)
        (m\<lparr>m_nvic := port_nvic (uart_port_of num) (m_nvic m)\<rparr>)))"
proof -
  have g: "(0x500, 2) \<in> set prio_groups" by (simp add: prio_groups_def)
  have pb: "prio_byte 0x500 0 1 = 0x10" "prio_byte 0x500 0 4 = 0" "prio_byte 0x500 0 5 = 0x10"
    by (simp_all add: prio_byte_def)
  obtain ch sub where row: "uart_interrupts ! num = (Some (pt_uart (uart_port_of num)), ch, sub)"
    "num < length uart_interrupts" "unat ch = pt_irq (uart_port_of num)" "unat ch < 64" "32 \<le> unat ch"
    "prio_byte 0x500 0 sub = pt_prio (uart_port_of num)"
    using assms(1) pb by (auto simp: uart_interrupts_def uart_port_of_def)
  let ?i = "\<lparr>NVIC_IRQChannel = ch, NVIC_IRQChannelPreemptionPriority = 0,
              NVIC_IRQChannelSubPriority = sub, NVIC_IRQChannelCmd = ENABLE\<rparr>"
  have "unat (NVIC_IRQChannel ?i) < length (nv_IP (m_nvic m))"
    using row(4) assms(2) by (simp add: nvic_wf_def)
  then have "NVIC_Init ?i (m_nvic m) = Inr (nv_store (ST_ISER (unat ch div 32)
        (push_bit (unat ch mod 32) 1))
      ((m_nvic m)\<lparr>nv_IP := (nv_IP (m_nvic m))[unat ch := prio_byte 0x500 0 sub]\<rparr>))"
    using NVIC_Init_enable [OF g, of "m_nvic m" ?i] assms(3) by simp
  moreover have "unat ch div 32 = 1" using row(4,5) by (intro div_nat_eqI) simp_all
  ultimately show ?thesis using row(1-3,6) by (simp add: init_uart_interrupt_def on_nvic_def port_nvic_def)
qed

lemma port_nvic_wf:
  "nvic_wf n \<Longrightarrow> nvic_wf (port_nvic P n)" "nv_AIRCR (port_nvic P n) = nv_AIRCR n"
  by (simp_all add: port_nvic_def nvic_wf_def nv_store_def)

lemma port_pins:
  assumes "num \<in> {1, 4, 5}"
  shows "pin_config (pt_tx (uart_port_of num)) (GPIO_Init (rx_init (push_bit (pt_rx (uart_port_of num)) 1))
           (GPIO_Init (tx_init (push_bit (pt_tx (uart_port_of num)) 1)) g)) = 0xA"
    and "pin_config (pt_rx (uart_port_of num)) (GPIO_Init (rx_init (push_bit (pt_rx (uart_port_of num)) 1))
           (GPIO_Init (tx_init (push_bit (pt_tx (uart_port_of num)) 1)) g)) = 0x8"
proof -
  have m: "pin_mode (tx_init p) = 0xA" "pin_mode (rx_init p) = 0x8" for p
    by (simp_all add: tx_init_def rx_init_def pin_mode_def)
  have sel: "GPIO_Pins (tx_init p) = p" "GPIO_Pins (rx_init p) = p" for p
    by (simp_all add: tx_init_def rx_init_def)
  have lt: "pt_tx (uart_port_of num) < 16" "pt_rx (uart_port_of num) < 16"
    "pt_tx (uart_port_of num) \<noteq> pt_rx (uart_port_of num)" by (simp_all add: uart_port_of_def)
  have b: "bit (push_bit j (1 :: u16)) i \<longleftrightarrow> i = j" if "i < 16" for i j
    using that by (auto simp: bit_simps simp del: push_bit_of_1)
  have e: "pin_config i (GPIO_Init (rx_init p) g) = (if bit p i then 0x8 else pin_config i g)"
    "pin_config i (GPIO_Init (tx_init p) g) = (if bit p i then 0xA else pin_config i g)"
    if "i < 16" for i p g
    using that GPIO_Init_effect(1) [of "rx_init p" i g] GPIO_Init_effect(1) [of "tx_init p" i g]
    by (simp_all add: m sel)
  show "pin_config (pt_tx (uart_port_of num)) (GPIO_Init (rx_init (push_bit (pt_rx (uart_port_of num)) 1))
           (GPIO_Init (tx_init (push_bit (pt_tx (uart_port_of num)) 1)) g)) = 0xA"
    using lt by (simp only: e b simp_thms if_False if_True)
  show "pin_config (pt_rx (uart_port_of num)) (GPIO_Init (rx_init (push_bit (pt_rx (uart_port_of num)) 1))
           (GPIO_Init (tx_init (push_bit (pt_tx (uart_port_of num)) 1)) g)) = 0x8"
    using lt by (simp only: e b simp_thms if_True)
qed

lemma int_enabled_Cmd: "int_enabled USART_INT_RDNE (USART_Cmd ENABLE r) = int_enabled USART_INT_RDNE r"
  by (simp add: int_enabled_def int_enable_bit_def USART_Cmd_def bit_or_iff)

lemma int_enabled_after_create:
  "int_enabled USART_INT_RDNE (USART_Cmd ENABLE (USART_INTConfig USART_INT_RDNE ENABLE r))"
  by (simp add: int_enabled_Cmd int_enabled_INTConfig [of USART_INT_RDNE USART_INT_RDNE] int_enable_bit_def)

lemma bit_UEN: "bit (us_CTRL1 (USART_Cmd ENABLE r)) 13"
proof -
  have "(0x2000 :: u16) = push_bit 13 1" by simp
  then show ?thesis unfolding USART_Cmd_def by (simp add: bit_or_iff)
qed

lemma BAUDR_kept: "us_BAUDR (USART_Cmd ENABLE (USART_INTConfig i ENABLE r)) = us_BAUDR r"
  by (simp add: USART_Cmd_def USART_INTConfig_def Let_def)

text \<open>Everything a successful creation leaves, as one fact.\<close>

lemma create_supported:
  assumes h: "hy_uart_h_ok h" and num: "cf_num cfg \<in> {1, 4, 5}" and rate: "cf_rate cfg \<noteq> 0"
    and arr: "length (uw_array w) = 6" and p: "malloc (dom (uw_heap w)) = Some p"
    and nv: "nvic_wf (m_nvic (uw_m w))" "nv_AIRCR (m_nvic (uw_m w)) AND 0x700 = 0x500"
  shows "\<exists>m. HyUartCreate h malloc hfree (Some cfg) w = Inr (Some p,
      w\<lparr>uw_array := (uw_array w)[cf_num cfg := Some p],
        uw_heap := (uw_heap w)(p \<mapsto> \<lparr>uc_num = cf_num cfg, uc_read_cb = cf_read_cb cfg, uc_args = cf_args cfg\<rparr>),
        uw_m := m\<rparr>)
    \<and> int_enabled USART_INT_RDNE (m_usart m (pt_uart (uart_port_of (cf_num cfg))))
    \<and> bit (us_CTRL1 (m_usart m (pt_uart (uart_port_of (cf_num cfg))))) 13
    \<and> us_BAUDR (m_usart m (pt_uart (uart_port_of (cf_num cfg))))
        = baud_divider (usart_bus_clock (pt_uart (uart_port_of (cf_num cfg))) (m_rcc (uw_m w))) (cf_rate cfg)
    \<and> pin_config (pt_tx (uart_port_of (cf_num cfg))) (m_gpio m (pt_gpio (uart_port_of (cf_num cfg)))) = 0xA
    \<and> pin_config (pt_rx (uart_port_of (cf_num cfg))) (m_gpio m (pt_gpio (uart_port_of (cf_num cfg)))) = 0x8
    \<and> m_nvic m = port_nvic (uart_port_of (cf_num cfg)) (m_nvic (uw_m w))"
proof -
  let ?n = "cf_num cfg" and ?P = "uart_port_of (cf_num cfg)"
  from init_uart_gpio_supported [OF h num, of "uw_m w"] obtain m1
    where m1: "init_uart_gpio h ?n (uw_m w) = Inr m1"
      "m_gpio m1 (pt_gpio ?P) = GPIO_Init (rx_init (push_bit (pt_rx ?P) 1))
         (GPIO_Init (tx_init (push_bit (pt_tx ?P) 1)) (m_gpio (uw_m w) (pt_gpio ?P)))"
      "RCC_GetClocksFreq (m_rcc m1) = RCC_GetClocksFreq (m_rcc (uw_m w))" "m_nvic m1 = m_nvic (uw_m w)"
    by (elim exE conjE) (rule that)
  from init_uart_func_supported [OF h num rate, of m1] obtain regs
    where m2: "init_uart_func h ?n (cf_rate cfg) m1 = Inr (on_usart (pt_uart ?P) (\<lambda>_. regs) m1)"
      and baud: "us_BAUDR regs = baud_divider (usart_bus_clock (pt_uart ?P) (m_rcc m1)) (cf_rate cfg)"
    by (elim exE conjE) (rule that)
  let ?m2 = "on_usart (pt_uart ?P) (\<lambda>_. regs) m1"
  have nv2: "nvic_wf (m_nvic ?m2)" "nv_AIRCR (m_nvic ?m2) AND 0x700 = 0x500"
    using nv m1(4) by (simp_all add: on_usart_def)
  let ?n3 = "port_nvic ?P (m_nvic ?m2)"
  note m3 = init_uart_interrupt_supported [OF num nv2]
  let ?m3 = "on_usart (pt_uart ?P) (USART_Cmd ENABLE)
      (on_usart (pt_uart ?P) (USART_INTConfig USART_INT_RDNE ENABLE) (?m2\<lparr>m_nvic := ?n3\<rparr>))"
  have usart: "m_usart ?m3 (pt_uart ?P) = USART_Cmd ENABLE (USART_INTConfig USART_INT_RDNE ENABLE regs)"
    by (simp add: on_usart_def)
  have gpio: "m_gpio ?m3 = m_gpio m1" "m_nvic ?m3 = ?n3" by (simp_all add: on_usart_def)
  have "?n < length (uw_array w)" using num arr by auto
  then have run: "HyUartCreate h malloc hfree (Some cfg) w = Inr (Some p,
      w\<lparr>uw_array := (uw_array w)[?n := Some p],
        uw_heap := (uw_heap w)(p \<mapsto> \<lparr>uc_num = ?n, uc_read_cb = cf_read_cb cfg, uc_args = cf_args cfg\<rparr>),
        uw_m := ?m3\<rparr>)"
    using p by (simp add: HyUartCreate_def m1(1) m2 m3)
  have "usart_bus_clock (pt_uart ?P) (m_rcc m1) = usart_bus_clock (pt_uart ?P) (m_rcc (uw_m w))"
    by (simp only: usart_bus_clock_def m1(3))
  then have b: "us_BAUDR (m_usart ?m3 (pt_uart ?P))
      = baud_divider (usart_bus_clock (pt_uart ?P) (m_rcc (uw_m w))) (cf_rate cfg)"
    by (simp only: usart BAUDR_kept baud)
  have s: "m_nvic ?m3 = port_nvic ?P (m_nvic (uw_m w))"
    using m1(4) gpio(2) by (simp add: on_usart_def)
  have e: "int_enabled USART_INT_RDNE (m_usart ?m3 (pt_uart ?P))" "bit (us_CTRL1 (m_usart ?m3 (pt_uart ?P))) 13"
    by (simp_all only: usart int_enabled_after_create bit_UEN)
  have q: "pin_config (pt_tx ?P) (m_gpio ?m3 (pt_gpio ?P)) = 0xA"
    "pin_config (pt_rx ?P) (m_gpio ?m3 (pt_gpio ?P)) = 0x8"
    by (simp_all only: gpio(1) m1(2) port_pins [OF num])
  show ?thesis by (rule exI [of _ ?m3]) (intro conjI run e b q s)
qed

section \<open>Lemmas on the debug port\<close>

definition expand_nl :: "u8 \<Rightarrow> u8 list" where
  "expand_nl b = (if b = 10 then [10, 13] else [b])"

lemma tx_all_append: "tx_all u (xs @ ys) w = tx_all u ys (tx_all u xs w)"
  by (simp add: tx_all_def)

lemma tx_all_frame [simp]: "uw_heap (tx_all u bs w) = uw_heap w" "uw_array (tx_all u bs w) = uw_array w"
  by (induction bs arbitrary: w) simp_all

lemma write_step:
  assumes "uw_heap w p = Some c" and "uc_num c < length (uart_table h)"
    and "uart_table h ! uc_num c = Some u" and "b \<noteq> 0" and "i < len"
  shows "uart_write_loop h sts (Some p) (b # ptr) len i k w
    = uart_write_loop h sts (Some p) ptr len (i + 1) (k + 2) (tx_all u (expand_nl b) w)"
  using assms by (simp add: SendByte_eq [OF _ assms(2,3)] expand_nl_def)

lemma write_loop_run:
  assumes "uw_heap w p = Some c" and "uc_num c < length (uart_table h)"
    and "uart_table h ! uc_num c = Some u" and "0 \<in> set ptr \<or> nat (len - i) < length ptr"
  shows "uart_write_loop h sts (Some p) ptr len i k w =
    (let out = takeWhile (\<lambda>b. b \<noteq> 0) (take (nat (len - i)) ptr)
     in Inr (i + int (length out), tx_all u (concat (map expand_nl out)) w))"
  using assms
proof (induction ptr arbitrary: i k w)
  case Nil
  then show ?case by simp
next
  case (Cons b ptr)
  show ?case
  proof (cases "b \<noteq> 0 \<and> i < len")
    case False
    then show ?thesis by (auto simp: Let_def take_Cons')
  next
    case True
    then have n: "nat (len - i) = Suc (nat (len - (i + 1)))" by linarith
    have "uart_write_loop h sts (Some p) ptr len (i + 1) (k + 2) (tx_all u (expand_nl b) w) =
      (let out = takeWhile (\<lambda>b. b \<noteq> 0) (take (nat (len - (i + 1))) ptr)
       in Inr (i + 1 + int (length out), tx_all u (concat (map expand_nl out)) (tx_all u (expand_nl b) w)))"
      using Cons.prems True n by (intro Cons.IH) auto
    then show ?thesis using True write_step [OF Cons.prems(1-3), of b i len sts ptr k]
      by (simp add: n Let_def tx_all_append)
  qed
qed

lemma write_loop_overread:
  assumes "uw_heap w p = Some c" and "uc_num c < length (uart_table h)"
    and "uart_table h ! uc_num c = Some u" and "0 \<notin> set ptr" and "i + int (length ptr) \<le> len"
  shows "uart_write_loop h sts (Some p) ptr len i k w = Inl OutOfBounds"
  using assms
proof (induction ptr arbitrary: i k w)
  case (Cons b ptr)
  then have "uart_write_loop h sts (Some p) (b # ptr) len i k w
    = uart_write_loop h sts (Some p) ptr len (i + 1) (k + 2) (tx_all u (expand_nl b) w)"
    by (intro write_step) auto
  then show ?case using Cons by simp
qed simp

section \<open>Steps of the module\<close>

text \<open>
  One step is a call that returns, a receive interrupt, or a change of the hardware (anything the
  peripherals or other modules do to the registers).
\<close>

inductive uart_step ::
    "hy_uart_h \<Rightarrow> malloc \<Rightarrow> uart_ctx hfree \<Rightarrow> uart_world \<Rightarrow> uart_world \<Rightarrow> bool"
  for h malloc hfree where
  create: "HyUartCreate h malloc hfree cfg w = Inr (r, w') \<Longrightarrow> uart_step h malloc hfree w w'"
| destroy: "HyUartDestroy hfree handle w = Inr (r, w') \<Longrightarrow> uart_step h malloc hfree w w'"
| send_byte: "HyUartSendByte h sts handle b w = Inr (n, w') \<Longrightarrow> uart_step h malloc hfree w w'"
| send_buf: "HyUartSendBuf h ssts handle buf len w = Some (Inr (n, w')) \<Longrightarrow> uart_step h malloc hfree w w'"
| debug_write: "uart_write h ssts fd ptr l w = Inr (n, w') \<Longrightarrow> uart_step h malloc hfree w w'"
| irq: "uart_irq_handler h num w = Inr w' \<Longrightarrow> uart_step h malloc hfree w w'"
| hardware: "uart_step h malloc hfree w (w\<lparr>uw_m := m\<rparr>)"

text \<open>The table and the heap are changed by create and destroy only.\<close>

abbreviation (input) same_table :: "uart_world \<Rightarrow> uart_world \<Rightarrow> bool" where
  "same_table w w' \<equiv> uw_array w' = uw_array w \<and> uw_heap w' = uw_heap w"

lemma SendByte_table: "HyUartSendByte h sts handle b w = Inr (n, w') \<Longrightarrow> same_table w w'"
  by (auto simp: HyUartSendByte_def seq_Inr_iff split_beta Let_def split: option.splits if_splits)

lemma send_loop_table:
  assumes "uart_send_loop sts u str len k i w = Some r"
  shows "\<forall>i' w'. r = Inr (i', w') \<longrightarrow> same_table w w'"
  by (rule uart_send_loop.raw_induct
      [where P = "\<lambda>_ _ _ _ _ _ w r. \<forall>i' w'. r = Inr (i', w') \<longrightarrow> same_table w w'", OF _ assms])
    (fastforce simp: Let_def split: if_split_asm)

lemma SendBuf_table:
  "HyUartSendBuf h sts handle buf len w = Some (Inr (n, w')) \<Longrightarrow> same_table w w'"
  by (auto simp: HyUartSendBuf_def seq_Inr_iff dest: send_loop_table split: option.splits sum.splits)

lemma write_loop_table:
  "uart_write_loop h sts ctx ptr len i k w = Inr (n, w') \<Longrightarrow> same_table w w'"
proof (induction ptr arbitrary: i k w)
  case (Cons b ptr)
  show ?case
  proof (cases "b \<noteq> 0 \<and> i < len")
    case True
    then obtain r1 w1 r2 w2 where s: "HyUartSendByte h (sts k) ctx b w = Inr (r1, w1)"
      "(if b = 10 then HyUartSendByte h (sts (k + 1)) ctx 13 w1 else Inr (0, w1)) = Inr (r2, w2)"
      "uart_write_loop h sts ctx ptr len (i + 1) (k + 2) w2 = Inr (n, w')"
      using Cons.prems by (auto simp: seq_Inr_iff)
    have "same_table w1 w2" using s(2) SendByte_table by (auto split: if_split_asm)
    then show ?thesis using Cons.IH [OF s(3)] SendByte_table [OF s(1)] by simp
  qed (use Cons.prems in auto)
qed simp

lemma write_table: "uart_write h sts fd ptr len w = Inr (n, w') \<Longrightarrow> same_table w w'"
  by (auto simp: uart_write_def seq_Inr_iff dest: write_loop_table split: if_splits)

lemma irq_table: "uart_irq_handler h num w = Inr w' \<Longrightarrow> same_table w w'"
  by (auto simp: uart_irq_handler_def seq_def Let_def split: sum.split_asm option.split_asm if_split_asm)

lemma destroy_length:
  "HyUartDestroy hfree handle w = Inr (r, w') \<Longrightarrow> length (uw_array w') = length (uw_array w)"
  by (auto simp: HyUartDestroy_def seq_Inr_iff split: option.splits)

lemma create_length:
  "HyUartCreate h malloc hfree cfg w = Inr (r, w') \<Longrightarrow> length (uw_array w') = length (uw_array w)"
  by (auto simp: HyUartCreate_def HyUartDestroy_def seq_Inr_iff Let_def split: option.splits)

lemma step_registry:
  assumes "uart_step h malloc hfree w w'" and "malloc_ok malloc" and "hfree_ok hfree" and "registry_ok w"
  shows "registry_ok w' \<and> length (uw_array w') = length (uw_array w)"
proof -
  have same: "registry_ok w' \<and> length (uw_array w') = length (uw_array w)" if "same_table w w'" for w'
    using that assms(4) by (simp add: registry_ok_def)
  show ?thesis using assms(1)
  proof (cases rule: uart_step.cases)
    case create
    then show ?thesis using create_registry [OF assms(4,2)] create_length by blast
  next
    case destroy
    then show ?thesis using destroy_registry [OF assms(4,3)] destroy_length by blast
  next
    case send_byte
    then show ?thesis using same SendByte_table by blast
  next
    case send_buf
    then show ?thesis using same SendBuf_table by blast
  next
    case debug_write
    then show ?thesis using same write_table by blast
  next
    case irq
    then show ?thesis using same irq_table by blast
  next
    case hardware
    then show ?thesis using same by simp
  qed
qed

section \<open>The module as a table of contexts\<close>

definition uart_ok :: "hy_uart_h \<Rightarrow> uart_world \<Rightarrow> bool" where
  "uart_ok h w \<longleftrightarrow> hy_uart_h_ok h \<and> registry_ok w \<and> length (uw_array w) = HY_UART_MAX h"

interpretation uart: context_module uart_step uart_ok "\<lambda>h. {HY_UART_1 h, HY_UART_4 h, HY_UART_5 h}" uart_irq_handler
proof unfold_locales
  show "uart_ok h w'" if "malloc_ok malloc" "hfree_ok hfree" "uart_ok h w" "uart_step h malloc hfree w w'"
    for h malloc hfree w w'
    using step_registry [OF that(4,1,2)] that(3) by (simp add: uart_ok_def)
  show "\<exists>w'. uart_irq_handler h n w = Inr w'"
    if "uart_ok h w" "n \<in> {HY_UART_1 h, HY_UART_4 h, HY_UART_5 h}" for h w n
    using that by (intro irq_runs) (auto simp: uart_ok_def hy_uart_h_ok_def)
qed

definition uart_start :: "hy_uart_h \<Rightarrow> machine \<Rightarrow> uart_world" where
  "uart_start h m = \<lparr>uw_m = m, uw_array = replicate (HY_UART_MAX h) None, uw_heap = Map.empty, uw_log = []\<rparr>"

lemma uart_start_ok: "hy_uart_h_ok h \<Longrightarrow> uart_ok h (uart_start h m)"
  by (simp add: uart_ok_def uart_start_def registry_ok_def reg_wf_empty)

text \<open>The interrupt handlers by the port they serve, and the hardware's side of a reception.\<close>

definition uart_vector :: "hy_uart_h \<Rightarrow> nat \<Rightarrow> uart_world \<Rightarrow> fault + uart_world" where
  "uart_vector h num = (if num = 1 then USART1_IRQHandler h else if num = 4 then UART4_IRQHandler h
     else UART5_IRQHandler h)"

definition uart_rx_hw :: "usart_id \<Rightarrow> u16 \<Rightarrow> uart_world \<Rightarrow> uart_world" where
  "uart_rx_hw u d w = w\<lparr>uw_m := on_usart u (\<lambda>r. r\<lparr>us_STS := us_STS r OR 0x20, us_DT := d\<rparr>) (uw_m w)\<rparr>"

lemma uart_vector_eq:
  "hy_uart_h_ok h \<Longrightarrow> num \<in> {1, 4, 5} \<Longrightarrow> uart_vector h num w = uart_irq_handler h num w"
  by (auto simp: uart_vector_def hy_uart_h_ok_def USART1_IRQHandler_def UART4_IRQHandler_def
      UART5_IRQHandler_def)

lemma rx_regs:
  assumes "int_enabled USART_INT_RDNE r"
  shows "int_enabled USART_INT_RDNE (r\<lparr>us_STS := us_STS r OR 0x20, us_DT := d\<rparr>)"
    and "int_pending USART_INT_RDNE (r\<lparr>us_STS := us_STS r OR 0x20, us_DT := d\<rparr>)"
    and "USART_ReceiveData (r\<lparr>us_STS := us_STS r OR 0x20, us_DT := d\<rparr>) = d AND 0x1FF"
proof -
  have b: "(0x20 :: u16) = push_bit 5 1" by simp
  show "int_enabled USART_INT_RDNE (r\<lparr>us_STS := us_STS r OR 0x20, us_DT := d\<rparr>)"
    using assms by (simp add: int_enabled_def int_enable_bit_def)
  show "int_pending USART_INT_RDNE (r\<lparr>us_STS := us_STS r OR 0x20, us_DT := d\<rparr>)"
    unfolding b by (simp add: int_pending_def bit_simps del: push_bit_of_1)
  show "USART_ReceiveData (r\<lparr>us_STS := us_STS r OR 0x20, us_DT := d\<rparr>) = d AND 0x1FF"
    by (simp add: USART_ReceiveData_def)
qed

lemma rx_delivered:
  assumes "hy_uart_h_ok h" and "num \<in> {1, 4, 5}" and "num < length (uw_array w)"
    and "uw_array w ! num = Some p" and "uw_heap w p = Some \<lparr>uc_num = num, uc_read_cb = Some cb, uc_args = args\<rparr>"
    and "int_enabled USART_INT_RDNE (m_usart (uw_m w) (pt_uart (uart_port_of num)))"
  shows "uart_vector h num (uart_rx_hw (pt_uart (uart_port_of num)) d w)
    = Inr ((uart_rx_hw (pt_uart (uart_port_of num)) d w)
        \<lparr>uw_log := uw_log w @ [ReadCb cb (d AND 0x1FF) args]\<rparr>)"
proof -
  let ?u = "pt_uart (uart_port_of num)" and ?w = "uart_rx_hw (pt_uart (uart_port_of num)) d w"
  let ?r = "m_usart (uw_m w) ?u"
  have regs: "m_usart (uw_m ?w) ?u = ?r\<lparr>us_STS := us_STS ?r OR 0x20, us_DT := d\<rparr>"
    by (simp add: uart_rx_hw_def on_usart_def)
  have "uart_irq_handler h num ?w = Inr (?w\<lparr>uw_log := uw_log ?w @ [ReadCb cb (d AND 0x1FF) args]\<rparr>)"
    using irq_effect [OF _ _ _ uart_table_supported [OF assms(1,2)],
        of ?w p "\<lparr>uc_num = num, uc_read_cb = Some cb, uc_args = args\<rparr>"] assms(3-5) rx_regs [OF assms(6), of d]
    unfolding regs by (simp add: uart_rx_hw_def)
  then show ?thesis using uart_vector_eq [OF assms(1,2)] by (simp add: uart_rx_hw_def)
qed

text \<open>Data words that arrive one after the other, each with its interrupt.\<close>

fun uart_receive_all :: "hy_uart_h \<Rightarrow> nat \<Rightarrow> u16 list \<Rightarrow> uart_world \<Rightarrow> fault + uart_world" where
  "uart_receive_all h num [] w = Inr w"
| "uart_receive_all h num (d # ds) w =
     seq (uart_vector h num (uart_rx_hw (pt_uart (uart_port_of num)) d w)) (uart_receive_all h num ds)"

lemma int_enabled_rx: "int_enabled i (r\<lparr>us_STS := a, us_DT := d\<rparr>) = int_enabled i r"
  by (cases "int_enable_bit i") (simp add: int_enabled_def)

lemma rx_all_delivered:
  assumes "hy_uart_h_ok h" and "num \<in> {1, 4, 5}" and "num < length (uw_array w)"
    and "uw_array w ! num = Some p" and "uw_heap w p = Some \<lparr>uc_num = num, uc_read_cb = Some cb, uc_args = args\<rparr>"
    and "int_enabled USART_INT_RDNE (m_usart (uw_m w) (pt_uart (uart_port_of num)))"
  shows "\<exists>w'. uart_receive_all h num ds w = Inr w' \<and> uw_log w' = uw_log w @ map (\<lambda>d. ReadCb cb (d AND 0x1FF) args) ds"
  using assms(3-6)
proof (induction ds arbitrary: w)
  case (Cons d ds)
  let ?u = "pt_uart (uart_port_of num)"
  let ?w = "(uart_rx_hw ?u d w)\<lparr>uw_log := uw_log w @ [ReadCb cb (d AND 0x1FF) args]\<rparr>"
  have "int_enabled USART_INT_RDNE (m_usart (uw_m ?w) ?u)"
    using Cons.prems(4) int_enabled_rx by (simp add: uart_rx_hw_def on_usart_def)
  then obtain w' where "uart_receive_all h num ds ?w = Inr w'" "uw_log w' = uw_log ?w @ map (\<lambda>d. ReadCb cb (d AND 0x1FF) args) ds"
    using Cons.IH [of ?w] Cons.prems(1-3) by (auto simp: uart_rx_hw_def)
  then show ?case using rx_delivered [OF assms(1,2) Cons.prems] by simp
qed simp

section \<open>Properties\<close>

text \<open>A concrete enumeration for the witnesses.\<close>

definition uart_enum :: hy_uart_h where
  "uart_enum = \<lparr>HY_UART_1 = 1, HY_UART_4 = 4, HY_UART_5 = 5, HY_UART_MAX = 6, DEBUG_UART_NUM = 1\<rparr>"

lemma uart_enum_ok: "hy_uart_h_ok uart_enum"
  by (simp add: uart_enum_def hy_uart_h_ok_def)

section \<open>Properties\<close>

text \<open>
  C12.  Creating a port that \<^verbatim>\<open>hy_uart.c\<close> supports (1, 4, 5) succeeds and leaves the whole path to the
  wire configured: the context is registered with the caller's callback, the receive interrupt of the
  port's USART is enabled and the USART is on, its divider is the one for the requested rate on the
  USART's own bus clock, the transmit pin is an alternate-function push-pull output at 50 MHz and the
  receive pin an input with pull resistor, and the NVIC is changed only in the priority byte of the
  port's interrupt and by the one store that enables it.
\<close>

theorem uart_create_configures:
  assumes "hy_uart_h_ok h" and "num \<in> {1, 4, 5}" and "rate \<noteq> 0"
    and "length (uw_array w) = 6" and "malloc (dom (uw_heap w)) = Some p"
    and "nvic_wf (m_nvic (uw_m w))" and "nv_AIRCR (m_nvic (uw_m w)) AND 0x700 = 0x500"
  shows "\<exists>m. HyUartCreate h malloc hfree
        (Some \<lparr>cf_num = num, cf_rate = rate, cf_read_cb = cb, cf_args = args\<rparr>) w = Inr (Some p,
      w\<lparr>uw_array := (uw_array w)[num := Some p],
        uw_heap := (uw_heap w)(p \<mapsto> \<lparr>uc_num = num, uc_read_cb = cb, uc_args = args\<rparr>), uw_m := m\<rparr>)
    \<and> (let P = uart_port_of num; U = m_usart m (pt_uart P); G = m_gpio m (pt_gpio P) in
        int_enabled USART_INT_RDNE U \<and> bit (us_CTRL1 U) 13
      \<and> us_BAUDR U = baud_divider (usart_bus_clock (pt_uart P) (m_rcc (uw_m w))) rate
      \<and> pin_config (pt_tx P) G = 0xA \<and> pin_config (pt_rx P) G = 0x8
      \<and> m_nvic m = port_nvic P (m_nvic (uw_m w)))"
proof -
  let ?c = "\<lparr>cf_num = num, cf_rate = rate, cf_read_cb = cb, cf_args = args\<rparr>"
  have f: "cf_num ?c = num" "cf_rate ?c = rate" "cf_read_cb ?c = cb" "cf_args ?c = args" by simp_all
  show ?thesis
    using create_supported [of h ?c w malloc p hfree, unfolded f, OF assms]
    by (simp only: Let_def)
qed

theorem uart_create_configures_witness:
  "\<exists>m. HyUartCreate uart_enum first_fit plain_free
        (Some \<lparr>cf_num = 4, cf_rate = 115200, cf_read_cb = Some 7, cf_args = 9\<rparr>)
        (uart_start uart_enum chip_after_reset)
      = Inr (Some 1, (uart_start uart_enum chip_after_reset)
        \<lparr>uw_array := [None, None, None, None, Some 1, None],
         uw_heap := [1 \<mapsto> \<lparr>uc_num = 4, uc_read_cb = Some 7, uc_args = 9\<rparr>], uw_m := m\<rparr>)
    \<and> us_BAUDR (m_usart m UART4) = 0x45"
proof -
  let ?w = "uart_start uart_enum chip_after_reset"
  have rep: "uw_array ?w = [None, None, None, None, None, None]" "uw_heap ?w = Map.empty"
    "uw_m ?w = chip_after_reset"
    by (simp_all add: uart_start_def uart_enum_def numeral_eq_Suc)
  have d: "baud_divider (usart_bus_clock UART4 rcc_after_reset) 115200 = 0x45"
    by code_simp
  have chip_rcc: "m_rcc chip_after_reset = rcc_after_reset" by (simp add: chip_after_reset_def)
  have P: "uart_port_of 4 = \<lparr>pt_uart = UART4, pt_gpio = GPIOC, pt_tx = 10, pt_rx = 11, pt_irq = 52, pt_prio = 0\<rparr>"
    by (simp add: uart_port_of_def)
  show ?thesis
    using uart_create_configures [of uart_enum 4 115200 ?w first_fit 1 plain_free "Some 7" 9,
        OF uart_enum_ok]
    by (auto simp: rep P Let_def first_fit_empty chip_nvic d chip_rcc)
qed

text \<open>
  A byte received on a created port reaches the caller: after a successful creation, whenever the
  hardware has put \<open>d\<close> into the data register and raised the receive flag, the interrupt handler of the
  port calls the registered callback exactly once, with the low nine bits of \<open>d\<close> and the caller's
  argument, and changes nothing else.
\<close>

lemma uart_receive:
  assumes "hy_uart_h_ok h" and "num \<in> {1, 4, 5}" and "rate \<noteq> 0"
    and "length (uw_array w) = 6" and "malloc (dom (uw_heap w)) = Some p"
    and "nvic_wf (m_nvic (uw_m w))" and "nv_AIRCR (m_nvic (uw_m w)) AND 0x700 = 0x500"
    and "HyUartCreate h malloc hfree
        (Some \<lparr>cf_num = num, cf_rate = rate, cf_read_cb = Some cb, cf_args = args\<rparr>) w = Inr (r, w')"
  shows "uart_vector h num (uart_rx_hw (pt_uart (uart_port_of num)) d w')
    = Inr ((uart_rx_hw (pt_uart (uart_port_of num)) d w')
        \<lparr>uw_log := uw_log w' @ [ReadCb cb (d AND 0x1FF) args]\<rparr>)"
proof -
  let ?u = "pt_uart (uart_port_of num)"
  let ?c = "\<lparr>cf_num = num, cf_rate = rate, cf_read_cb = Some cb, cf_args = args\<rparr>"
  have f: "cf_num ?c = num" "cf_rate ?c = rate" "cf_read_cb ?c = Some cb" "cf_args ?c = args" by simp_all
  let ?w1 = "\<lambda>m. w\<lparr>uw_array := (uw_array w)[num := Some p],
        uw_heap := (uw_heap w)(p \<mapsto> \<lparr>uc_num = num, uc_read_cb = Some cb, uc_args = args\<rparr>), uw_m := m\<rparr>"
  obtain m where m: "HyUartCreate h malloc hfree (Some ?c) w = Inr (Some p, ?w1 m)"
    and en: "int_enabled USART_INT_RDNE (m_usart m ?u)"
    using create_supported [of h ?c w malloc p hfree, unfolded f, OF assms(1-7)] by (elim exE conjE)
  have w': "w' = ?w1 m" using m assms(8) by simp
  show ?thesis
    using rx_delivered [OF assms(1,2), of w' p cb args d] assms(2,4) en by (auto simp: w')
qed

lemma uart_receive_witness:
  "\<exists>w' w''. HyUartCreate uart_enum first_fit plain_free
        (Some \<lparr>cf_num = 1, cf_rate = 9600, cf_read_cb = Some 7, cf_args = 9\<rparr>)
        (uart_start uart_enum chip_after_reset) = Inr (Some 1, w')
    \<and> USART1_IRQHandler uart_enum (uart_rx_hw USART1 0x41 w') = Inr w''
    \<and> uw_log w'' = [ReadCb 7 0x41 9]"
proof -
  let ?w = "uart_start uart_enum chip_after_reset"
  let ?c = "\<lparr>cf_num = 1, cf_rate = 9600, cf_read_cb = Some 7, cf_args = 9\<rparr>"
  have rep: "length (uw_array ?w) = 6" "uw_heap ?w = Map.empty" "uw_m ?w = chip_after_reset"
    "uw_log ?w = []" by (simp_all add: uart_start_def uart_enum_def)
  have P: "pt_uart (uart_port_of 1) = USART1" by (simp add: uart_port_of_def)
  obtain w' where w': "HyUartCreate uart_enum first_fit plain_free (Some ?c) ?w = Inr (Some 1, w')"
    and log: "uw_log w' = []"
    using create_supported [of uart_enum ?c ?w first_fit 1 plain_free, OF uart_enum_ok] rep chip_nvic
      first_fit_empty by (auto simp: Let_def)
  have "uart_vector uart_enum 1 (uart_rx_hw USART1 0x41 w') = Inr ((uart_rx_hw USART1 0x41 w')
      \<lparr>uw_log := uw_log w' @ [ReadCb 7 (0x41 AND 0x1FF) 9]\<rparr>)"
    using uart_receive [OF uart_enum_ok, of 1 9600 ?w first_fit 1 plain_free 7 9 "Some 1" w' "0x41"]
      rep chip_nvic first_fit_empty w' unfolding P by simp
  then have "\<exists>w''. USART1_IRQHandler uart_enum (uart_rx_hw USART1 0x41 w') = Inr w''
      \<and> uw_log w'' = [ReadCb 7 0x41 9]" using log by (simp add: uart_vector_def)
  then show ?thesis using w' by blast
qed

text \<open>
  C13.  The handlers never fault: from the start of the module, after any sequence of creations,
  destructions, transmissions, debug writes, receive interrupts and arbitrary changes of the hardware,
  in any order and with any results of the allocator, every registered context is live and belongs to
  the port it is registered for, and each of the three interrupt handlers returns.
\<close>

theorem uart_handlers_never_fault:
  assumes "hy_uart_h_ok h" and "malloc_ok malloc" and "hfree_ok hfree"
    and "(uart_step h malloc hfree)\<^sup>*\<^sup>* (uart_start h m) w"
  shows "registry_ok w \<and> (\<exists>w'. USART1_IRQHandler h w = Inr w') \<and> (\<exists>w'. UART4_IRQHandler h w = Inr w')
    \<and> (\<exists>w'. UART5_IRQHandler h w = Inr w')"
  using uart.reachable_ok [OF assms(2-4) uart_start_ok [OF assms(1)]]
    uart.handler_never_faults [OF assms(2-4) uart_start_ok [OF assms(1)]]
  by (simp add: uart_ok_def USART1_IRQHandler_def UART4_IRQHandler_def UART5_IRQHandler_def)

theorem uart_handlers_never_fault_witness:
  "\<exists>w'. USART1_IRQHandler uart_enum (uart_start uart_enum chip_after_reset) = Inr w'"
  using uart_handlers_never_fault [OF uart_enum_ok first_fit_ok plain_free_ok rtranclp.rtrancl_refl]
  by blast

text \<open>
  C14.  \<^verbatim>\<open>HyUartSendBuf\<close> puts the bytes on the wire in order and returns how many were acknowledged: for
  a live handle and a buffer of 1 to 65535 bytes it returns the number \<open>n\<close> of leading transmissions the
  hardware acknowledged before the last poll, and the stores to the data register are the first
  \<open>n + 1\<close> bytes of the buffer, or all of them when every byte was acknowledged.
\<close>

theorem uart_send_buf:
  assumes "uw_heap w p = Some c" and "uc_num c < length (uart_table h)"
    and "uart_table h ! uc_num c = Some u" and "0 < len" and "len \<le> 65535" and "len \<le> length buf"
  shows "\<exists>w'. HyUartSendBuf h sts (Some p) buf len w = Some (Inr (int (sent_ok sts 0 len), w'))
    \<and> uw_log w' = uw_log w @ map (\<lambda>b. Tx u (ucast b)) (take (sent_ok sts 0 len + 1) (take len buf))
    \<and> uw_array w' = uw_array w \<and> uw_heap w' = uw_heap w"
proof -
  have le: "sent_ok sts 0 len \<le> len"
    using length_takeWhile_le [of "\<lambda>j. in_time (sts j)" "[0..<len]"] by (simp add: sent_ok_def)
  have n: "unat (of_nat (sent_ok sts 0 len) :: u16) = sent_ok sts 0 len"
    using le assms(5) by (intro unat_of_nat_small) simp
  have ni: "uint (of_nat (sent_ok sts 0 len) :: u16) = int (sent_ok sts 0 len)"
    using arg_cong [OF n, of int] by simp
  show ?thesis
    using send_loop_run [of 0 len buf sts u w] assms ni
    by (simp add: HyUartSendBuf_def tx_all_log)
qed

theorem uart_send_buf_witness:
  "\<exists>w'. HyUartSendBuf uart_enum (\<lambda>k c. if k < 2 then 0x40 else 0) (Some 1) [72, 105, 33] 3
      ((uart_start uart_enum chip_after_reset)\<lparr>uw_heap := [1 \<mapsto> \<lparr>uc_num = 1, uc_read_cb = None, uc_args = 0\<rparr>]\<rparr>)
      = Some (Inr (2, w')) \<and> uw_log w' = [Tx USART1 72, Tx USART1 105, Tx USART1 33]"
proof -
  let ?sts = "\<lambda>(k :: nat) (c :: u32). if k < 2 then 0x40 else 0 :: u16"
  let ?c = "\<lparr>uc_num = 1, uc_read_cb = None, uc_args = 0\<rparr>"
  let ?w = "(uart_start uart_enum chip_after_reset)\<lparr>uw_heap := [1 \<mapsto> ?c]\<rparr>"
  have "in_time (?sts k) \<longleftrightarrow> k < 2" for k
    unfolding in_time_iff trac_iff by (auto intro: exI [of _ 0])
  then have s: "sent_ok ?sts 0 3 = 2" by (simp add: sent_ok_def upt_rec)
  show ?thesis
    using uart_send_buf [of ?w 1 ?c uart_enum USART1 3 "[72, 105, 33]" ?sts]
    unfolding s by (simp add: uart_table_def uart_start_def) blast
qed

text \<open>
  \<^verbatim>\<open>HyUartSendBuf\<close> does not return for a buffer of 65536 bytes or more while the hardware keeps up:
  its index has 16 bits and never reaches the length.
\<close>

lemma uart_send_buf_forever:
  assumes "uw_heap w p = Some c" and "uc_num c < length (uart_table h)"
    and "uart_table h ! uc_num c = Some u" and "65536 \<le> len" and "len \<le> length buf"
    and "\<And>k. in_time (sts k)"
  shows "HyUartSendBuf h sts (Some p) buf len w = None"
proof -
  have "uart_send_loop sts u buf len 0 0 w = None"
    using assms(4,5) by (intro send_loop_forever assms(6)) simp_all
  then show ?thesis using assms(1-3) by (simp add: HyUartSendBuf_def)
qed

lemma uart_send_buf_forever_witness:
  "HyUartSendBuf uart_enum (\<lambda>k c. 0x40) (Some 1) (replicate 65536 65) 65536
      ((uart_start uart_enum chip_after_reset)\<lparr>uw_heap := [1 \<mapsto> \<lparr>uc_num = 1, uc_read_cb = None, uc_args = 0\<rparr>]\<rparr>)
    = None"
proof -
  have t: "in_time (\<lambda>c. 0x40)" unfolding in_time_iff trac_iff by (auto intro: exI [of _ 0])
  show ?thesis
    using t by (intro uart_send_buf_forever [where c = "\<lparr>uc_num = 1, uc_read_cb = None, uc_args = 0\<rparr>"
          and u = USART1]) (simp_all add: uart_table_def uart_start_def)
qed

text \<open>
  \<^verbatim>\<open>HyUartSendByte\<close> stores the byte exactly once and reports it as sent if and only if one of the
  first 7393 reads of the status register finds the transmission-complete flag; a flag that the 7394th
  read finds first is reported as a timeout.
\<close>

lemma uart_send_byte:
  assumes "uw_heap w p = Some c" and "uc_num c < length (uart_table h)"
    and "uart_table h ! uc_num c = Some u"
  shows "HyUartSendByte h sts (Some p) b w
      = Inr (if \<exists>k < 0x1CE1. sts k AND USART_FLAG_TRAC \<noteq> 0 then int (unat b) else EOF, tx u b w)
    \<and> uw_log (tx u b w) = uw_log w @ [Tx u (ucast b)]"
  using SendByte_eq [OF assms, of sts b] unfolding in_time_iff trac_iff by (simp only: tx_log simp_thms)

lemma uart_send_byte_witness:
  "\<exists>w'. HyUartSendByte uart_enum (\<lambda>c. if c = 0x1CE1 then 0x40 else 0) (Some 1) 65
      ((uart_start uart_enum chip_after_reset)\<lparr>uw_heap := [1 \<mapsto> \<lparr>uc_num = 1, uc_read_cb = None, uc_args = 0\<rparr>]\<rparr>)
    = Inr (- 1, w') \<and> uw_log w' = [Tx USART1 65]"
proof -
  let ?c = "\<lparr>uc_num = 1, uc_read_cb = None, uc_args = 0\<rparr>"
  let ?w = "(uart_start uart_enum chip_after_reset)\<lparr>uw_heap := [1 \<mapsto> ?c]\<rparr>"
  let ?sts = "\<lambda>c :: u32. if c = 0x1CE1 then 0x40 else 0 :: u16"
  have no: "\<not> (\<exists>k < 0x1CE1. ?sts k AND USART_FLAG_TRAC \<noteq> 0)" by auto
  have hyp: "uw_heap ?w 1 = Some ?c" "uc_num ?c < length (uart_table uart_enum)"
    "uart_table uart_enum ! uc_num ?c = Some USART1" "uw_log ?w = []"
    by (simp_all add: uart_table_def uart_start_def)
  show ?thesis
    using uart_send_byte [OF hyp(1-3), of ?sts 65] unfolding if_not_P [OF no] hyp(4)
    by (intro exI [of _ "tx USART1 65 ?w"]) simp
qed

text \<open>
  The \<^verbatim>\<open>_write\<close> hook translates line ends and loses nothing: for a descriptor up to 2 and text
  that is terminated or longer than the requested length, it returns the number of characters before
  the terminator or the length, and the wire carries exactly these characters with a carriage return
  after every line feed, whatever the status reads return.
\<close>

lemma uart_write_translates:
  assumes "fd \<le> 2" and "DEBUG_UART_NUM h < length (uw_array w)"
    and "uw_array w ! DEBUG_UART_NUM h = Some p" and "uw_heap w p = Some c"
    and "uc_num c < length (uart_table h)" and "uart_table h ! uc_num c = Some u"
    and "0 \<in> set ptr \<or> nat len < length ptr"
  shows "\<exists>w'. uart_write h sts fd ptr len w
      = Inr (int (length (takeWhile (\<lambda>b. b \<noteq> 0) (take (nat len) ptr))), w')
    \<and> uw_log w' = uw_log w @ map (\<lambda>b. Tx u (ucast b))
        (concat (map expand_nl (takeWhile (\<lambda>b. b \<noteq> 0) (take (nat len) ptr))))"
  using assms write_loop_run [OF assms(4-6), of ptr len 0 sts 0]
  by (simp add: uart_write_def tx_all_log Let_def)

text \<open>\<^verbatim>\<open>"ok\n"\<close> of length 3, on a transmitter that never acknowledges.\<close>

lemma uart_write_translates_witness:
  "\<exists>w'. uart_write uart_enum (\<lambda>k c. 0) 1 [111, 107, 10, 0] 3
      ((uart_start uart_enum chip_after_reset)
        \<lparr>uw_heap := [1 \<mapsto> \<lparr>uc_num = 1, uc_read_cb = None, uc_args = 0\<rparr>],
         uw_array := [None, Some 1, None, None, None, None]\<rparr>)
    = Inr (3, w') \<and> uw_log w' = [Tx USART1 111, Tx USART1 107, Tx USART1 10, Tx USART1 13]"
proof -
  let ?c = "\<lparr>uc_num = 1, uc_read_cb = None, uc_args = 0\<rparr>"
  let ?w = "(uart_start uart_enum chip_after_reset)
      \<lparr>uw_heap := [1 \<mapsto> ?c], uw_array := [None, Some 1, None, None, None, None]\<rparr>"
  have "\<exists>w'. uart_write uart_enum (\<lambda>k c. 0) 1 [111, 107, 10, 0] 3 ?w
      = Inr (int (length (takeWhile (\<lambda>b. b \<noteq> 0) (take (nat 3) [111, 107, 10, 0 :: u8]))), w')
    \<and> uw_log w' = uw_log ?w @ map (\<lambda>b. Tx USART1 (ucast b))
        (concat (map expand_nl (takeWhile (\<lambda>b. b \<noteq> 0) (take (nat 3) [111, 107, 10, 0]))))"
    by (intro uart_write_translates [where p = 1 and c = ?c])
      (simp_all add: uart_table_def uart_enum_def)
  then show ?thesis by (simp add: expand_nl_def uart_start_def)
qed

text \<open>
  \<^verbatim>\<open>_write\<close> reads past its buffer when it is called as the C library calls it, with exactly
  \<open>len\<close> characters and no terminator: \<^verbatim>\<open>*ptr\<close> is read before \<^verbatim>\<open>i < len\<close> is tested, so the read one
  past the end happens after the last character is sent.
\<close>

lemma uart_write_overread:
  assumes "fd \<le> 2" and "DEBUG_UART_NUM h < length (uw_array w)"
    and "uw_array w ! DEBUG_UART_NUM h = Some p" and "uw_heap w p = Some c"
    and "uc_num c < length (uart_table h)" and "uart_table h ! uc_num c = Some u" and "0 \<notin> set ptr"
  shows "uart_write h sts fd ptr (int (length ptr)) w = Inl OutOfBounds"
  using assms write_loop_overread [OF assms(4-7), of 0 "int (length ptr)" sts 0]
  by (simp add: uart_write_def)

lemma uart_write_overread_witness:
  "uart_write uart_enum (\<lambda>k c. 0x40) 1 [111, 107] 2
      ((uart_start uart_enum chip_after_reset)
        \<lparr>uw_heap := [1 \<mapsto> \<lparr>uc_num = 1, uc_read_cb = None, uc_args = 0\<rparr>],
         uw_array := [None, Some 1, None, None, None, None]\<rparr>) = Inl OutOfBounds"
  using uart_write_overread [of 1 uart_enum "(uart_start uart_enum chip_after_reset)
        \<lparr>uw_heap := [1 \<mapsto> \<lparr>uc_num = 1, uc_read_cb = None, uc_args = 0\<rparr>],
         uw_array := [None, Some 1, None, None, None, None]\<rparr>" 1
      "\<lparr>uc_num = 1, uc_read_cb = None, uc_args = 0\<rparr>" USART1 "[111, 107]" "\<lambda>k c. 0x40"]
  by (simp add: uart_table_def uart_enum_def)

text \<open>
  Creating a port outside 1, 4 and 5 runs off the pin table: for every other valid index of the
  context array the search of \<^verbatim>\<open>_init_uart_gpio\<close> over \<^verbatim>\<open>HY_UART_MAX\<close> rows reads a fourth row of a table
  of three.
\<close>

lemma uart_create_unsupported:
  assumes "hy_uart_h_ok h" and "cf_num cfg \<notin> {1, 4, 5}" and "cf_num cfg < length (uw_array w)"
    and "malloc (dom (uw_heap w)) = Some p"
  shows "HyUartCreate h malloc hfree (Some cfg) w = Inl OutOfBounds"
  using assms by (simp add: HyUartCreate_def Let_def init_uart_gpio_unsupported)

lemma uart_create_unsupported_witness:
  "HyUartCreate uart_enum first_fit plain_free
      (Some \<lparr>cf_num = 2, cf_rate = 9600, cf_read_cb = None, cf_args = 0\<rparr>)
      (uart_start uart_enum chip_after_reset) = Inl OutOfBounds"
  by (rule uart_create_unsupported [OF uart_enum_ok, where p = 1])
    (simp_all add: uart_start_def uart_enum_def first_fit_empty)

text \<open>
  Destroying the old handle of a port disconnects the new one: if a port is created twice and
  the first handle is then destroyed, the second context stays allocated but is no longer registered,
  and from then on its receive interrupt does nothing.
\<close>

lemma uart_recreate_disconnects:
  assumes "hy_uart_h_ok h" and "num \<in> {1, 4, 5}" and "length (uw_array w) = 6"
    and "malloc_ok malloc" and "hfree_ok hfree"
    and "HyUartCreate h malloc hfree (Some \<lparr>cf_num = num, cf_rate = r1, cf_read_cb = cb1, cf_args = a1\<rparr>) w
       = Inr (Some p1, w1)"
    and "HyUartCreate h malloc hfree (Some \<lparr>cf_num = num, cf_rate = r2, cf_read_cb = cb2, cf_args = a2\<rparr>) w1
       = Inr (Some p2, w2)"
  shows "\<exists>w3. HyUartDestroy hfree (Some p1) w2 = Inr (None, w3)
    \<and> uw_heap w3 p2 = Some \<lparr>uc_num = num, uc_read_cb = cb2, uc_args = a2\<rparr>
    \<and> (\<forall>d. uart_vector h num (uart_rx_hw (pt_uart (uart_port_of num)) d w3)
          = Inr (uart_rx_hw (pt_uart (uart_port_of num)) d w3))"
proof -
  have n: "num < length (uw_array w)" using assms(2,3) by auto
  obtain m1 where w1: "w1 = w\<lparr>uw_array := (uw_array w)[num := Some p1],
      uw_heap := (uw_heap w)(p1 \<mapsto> \<lparr>uc_num = num, uc_read_cb = cb1, uc_args = a1\<rparr>), uw_m := m1\<rparr>"
    using assms(6) by (auto simp: HyUartCreate_def HyUartDestroy_def seq_Inr_iff Let_def split: option.splits)
  obtain m2 where w2: "w2 = w1\<lparr>uw_array := (uw_array w1)[num := Some p2],
      uw_heap := (uw_heap w1)(p2 \<mapsto> \<lparr>uc_num = num, uc_read_cb = cb2, uc_args = a2\<rparr>), uw_m := m2\<rparr>"
    and p2: "malloc (dom (uw_heap w1)) = Some p2"
    using assms(7) by (auto simp: HyUartCreate_def HyUartDestroy_def seq_Inr_iff Let_def split: option.splits)
  have "p2 \<notin> dom (uw_heap w1)" using p2 assms(4) by (simp add: malloc_ok_def)
  then have ne: "p2 \<noteq> p1" using w1 by auto
  define w3 where "w3 = w2\<lparr>uw_array := (uw_array w2)[num := None], uw_heap := (uw_heap w2)(p1 := None)\<rparr>"
  have d: "HyUartDestroy hfree (Some p1) w2 = Inr (None, w3)"
    using n ne assms(5) by (simp add: HyUartDestroy_def w3_def w2 w1 hfree_ok_def)
  have "uart_irq_handler h num (uart_rx_hw u d w3) = Inr (uart_rx_hw u d w3)" for u d
    using n by (simp add: uart_irq_handler_def uart_rx_hw_def w3_def w2 w1)
  then show ?thesis using d ne uart_vector_eq [OF assms(1,2)] by (simp add: w3_def w2)
qed

lemma uart_recreate_disconnects_witness:
  "\<exists>w1 w2 w3. HyUartCreate uart_enum first_fit plain_free
        (Some \<lparr>cf_num = 5, cf_rate = 9600, cf_read_cb = Some 7, cf_args = 0\<rparr>)
        (uart_start uart_enum chip_after_reset) = Inr (Some 1, w1)
    \<and> HyUartCreate uart_enum first_fit plain_free
        (Some \<lparr>cf_num = 5, cf_rate = 9600, cf_read_cb = Some 8, cf_args = 0\<rparr>) w1 = Inr (Some 2, w2)
    \<and> HyUartDestroy plain_free (Some 1) w2 = Inr (None, w3)
    \<and> UART5_IRQHandler uart_enum (uart_rx_hw UART5 0x41 w3) = Inr (uart_rx_hw UART5 0x41 w3)"
proof -
  let ?w = "uart_start uart_enum chip_after_reset"
  let ?c = "\<lambda>cb. \<lparr>cf_num = 5, cf_rate = 9600, cf_read_cb = Some cb, cf_args = 0\<rparr>"
  have rep: "length (uw_array ?w) = 6" "uw_heap ?w = Map.empty" "uw_m ?w = chip_after_reset"
    by (simp_all add: uart_start_def uart_enum_def)
  have P: "pt_uart (uart_port_of 5) = UART5" by (simp add: uart_port_of_def)
  have two: "first_fit {Suc 0} = Some 2" by (simp add: first_fit_def upt_rec)
  obtain w1 where w1: "HyUartCreate uart_enum first_fit plain_free (Some (?c 7)) ?w = Inr (Some 1, w1)"
      "length (uw_array w1) = 6" "dom (uw_heap w1) = {1}"
      "m_nvic (uw_m w1) = port_nvic (uart_port_of 5) (m_nvic chip_after_reset)"
    using create_supported [of uart_enum "?c 7" ?w first_fit 1 plain_free, OF uart_enum_ok] rep chip_nvic
      first_fit_empty by (auto simp: Let_def)
  obtain w2 where w2: "HyUartCreate uart_enum first_fit plain_free (Some (?c 8)) w1 = Inr (Some 2, w2)"
    using create_supported [of uart_enum "?c 8" w1 first_fit 2 plain_free, OF uart_enum_ok] w1(2-4) chip_nvic
      port_nvic_wf two by (auto simp: Let_def)
  show ?thesis
    using uart_recreate_disconnects [OF uart_enum_ok _ _ first_fit_ok plain_free_ok, of 5 ?w,
        OF _ _ w1(1) w2] rep(1) w1(1) w2 unfolding P uart_vector_def by auto
qed

text \<open>
  The sub-priorities of the interrupt table are cut to two bits: under the priority group
  that \<^verbatim>\<open>hy_system.c\<close> selects, the interrupt of port 4 (table entry 4) gets the most urgent priority
  byte 0, and port 5 (table entry 5) the same byte as port 1.
\<close>

lemma uart_priorities:
  assumes "hy_uart_h_ok h" and "num \<in> {1, 4, 5}" and "rate \<noteq> 0"
    and "length (uw_array w) = 6" and "malloc (dom (uw_heap w)) = Some p"
    and "nvic_wf (m_nvic (uw_m w))" and "nv_AIRCR (m_nvic (uw_m w)) AND 0x700 = 0x500"
    and "HyUartCreate h malloc hfree
        (Some \<lparr>cf_num = num, cf_rate = rate, cf_read_cb = cb, cf_args = args\<rparr>) w = Inr (r, w')"
  shows "nv_IP (m_nvic (uw_m w')) ! pt_irq (uart_port_of num) = (if num = 4 then 0 else 0x10)"
proof -
  let ?c = "\<lparr>cf_num = num, cf_rate = rate, cf_read_cb = cb, cf_args = args\<rparr>"
  have f: "cf_num ?c = num" "cf_rate ?c = rate" "cf_read_cb ?c = cb" "cf_args ?c = args" by simp_all
  have "m_nvic (uw_m w') = port_nvic (uart_port_of num) (m_nvic (uw_m w))"
    using create_supported [of h ?c w malloc p hfree, unfolded f, OF assms(1-7)] assms(8)
    by (elim exE conjE) auto
  then show ?thesis using assms(2,6) by (auto simp: port_nvic_def uart_port_of_def nvic_wf_def nv_store_def)
qed

lemma uart_priorities_witness:
  "\<exists>w'. HyUartCreate uart_enum first_fit plain_free
        (Some \<lparr>cf_num = 4, cf_rate = 9600, cf_read_cb = None, cf_args = 0\<rparr>)
        (uart_start uart_enum chip_after_reset) = Inr (Some 1, w') \<and> nv_IP (m_nvic (uw_m w')) ! 52 = 0"
proof -
  let ?w = "uart_start uart_enum chip_after_reset"
  let ?c = "\<lparr>cf_num = 4, cf_rate = 9600, cf_read_cb = None, cf_args = 0\<rparr>"
  have rep: "length (uw_array ?w) = 6" "uw_heap ?w = Map.empty" "uw_m ?w = chip_after_reset"
    by (simp_all add: uart_start_def uart_enum_def)
  have P: "pt_irq (uart_port_of 4) = 52" by (simp add: uart_port_of_def)
  obtain w' where w': "HyUartCreate uart_enum first_fit plain_free (Some ?c) ?w = Inr (Some 1, w')"
    using create_supported [of uart_enum ?c ?w first_fit 1 plain_free, OF uart_enum_ok] rep chip_nvic
      first_fit_empty by (auto simp: Let_def)
  then show ?thesis
    using uart_priorities [OF uart_enum_ok, of 4 9600 ?w first_fit 1 plain_free None 0 "Some 1" w']
      rep chip_nvic first_fit_empty unfolding P by simp
qed

end
