(* ===== verification/HyTime.thy ===== *)
theory HyTime
  imports Machine
begin

text \<open>
  The timer module, \<^verbatim>\<open>hy_time.c\<close>, in the configuration \<^verbatim>\<open>SYSCLK_FREQ_200MHz\<close> of the build: creation and
  destruction of a periodic timer, its interrupt with the callback, enable and disable.  The header
  \<^verbatim>\<open>hy_time.h\<close> is not part of the repository; its enumeration is a parameter.
\<close>

section \<open>State\<close>

record hy_time_h =
  HY_TIME_2 :: nat
  HY_TIME_MAX :: nat

text \<open>Port \<open>n\<close> of the enumeration stands for timer \<open>n\<close> of the tables in \<^verbatim>\<open>hy_time.c\<close>.\<close>

definition hy_time_h_ok :: "hy_time_h \<Rightarrow> bool" where
  "hy_time_h_ok h \<longleftrightarrow> HY_TIME_2 h = 2 \<and> 2 < HY_TIME_MAX h"

record time_ctx =
  tc_num :: nat
  tc_time_cb :: "nat option"
  tc_args :: nat

record time_cfg =
  tf_num :: nat
  tf_us :: u16
  tf_flag :: int
  tf_time_cb :: "nat option"
  tf_args :: nat

record time_world =
  tw_m :: machine
  tw_array :: "nat option list"
  tw_heap :: "nat \<rightharpoonup> time_ctx"
  tw_log :: "(nat \<times> nat) list"

text \<open>\<open>to_FunctionalState\<close> is the cast of the flag; the drivers only compare its result with \<^verbatim>\<open>DISABLE\<close>.\<close>

definition time_table :: "tmr_id option list" where
  "time_table = [None, Some TMR1, Some TMR2, Some TMR3, Some TMR4, Some TMR5, Some TMR6, Some TMR7, Some TMR8]"

definition time_ptr :: "nat \<Rightarrow> fault + tmr_id" where
  "time_ptr num = seq (index time_table num) nonnull"

section \<open>Initialisation\<close>

definition init_time_rcc :: "hy_time_h \<Rightarrow> nat \<Rightarrow> machine \<Rightarrow> machine" where
  "init_time_rcc h num m =
     (if num = HY_TIME_2 h then on_rcc (RCC_APB1PeriphClockCmd RCC_APB1PERIPH_TMR2 ENABLE) m else m)"

definition init_time_func :: "nat \<Rightarrow> u16 \<Rightarrow> int \<Rightarrow> machine \<Rightarrow> fault + machine" where
  "init_time_func num us flag m =
     (let config = TMR_TimeBaseStructInit;
          config = config\<lparr>TMR_DIV := 200 - 1, TMR_Period := ucast us, TMR_ClockDivision := TMR_CKD_DIV1,
                          TMR_CounterMode := TMR_CounterDIR_Up, TMR_RepetitionCounter := 0\<rparr>
      in seq (time_ptr num) (\<lambda>x.
           let m = on_tmr x (TMR_TimeBaseInit x config) m
           in Inr (on_tmr x (TMR_Cmd (to_FunctionalState flag)) m)))"

definition init_time_interrupt :: "hy_time_h \<Rightarrow> nat \<Rightarrow> int \<Rightarrow> machine \<Rightarrow> fault + machine" where
  "init_time_interrupt h num flag m =
     (if num = HY_TIME_2 h then
        seq (on_nvic (NVIC_Init \<lparr>NVIC_IRQChannel = TMR2_GLOBAL_IRQn, NVIC_IRQChannelPreemptionPriority = 0,
               NVIC_IRQChannelSubPriority = 0, NVIC_IRQChannelCmd = to_FunctionalState flag\<rparr>) m)
          (\<lambda>m. Inr (on_tmr TMR2 (TMR_INTConfig TMR_INT_Overflow ENABLE) m))
      else Inr m)"

section \<open>The interrupt\<close>

definition time_irq_handler :: "nat \<Rightarrow> time_world \<Rightarrow> fault + time_world" where
  "time_irq_handler num w =
     seq (index (tw_array w) num) (\<lambda>ctx.
       case ctx of None \<Rightarrow> Inr w
       | Some p \<Rightarrow>
          seq (deref (tw_heap w) p) (\<lambda>time_config.
          seq (time_ptr num) (\<lambda>x.
            if TMR_GetINTStatus TMR_INT_Overflow (m_tmr (tw_m w) x) = SET then
              (let w = w\<lparr>tw_m := on_tmr x (TMR_ClearITPendingBit TMR_INT_Overflow) (tw_m w)\<rparr>
               in case tc_time_cb time_config of
                    None \<Rightarrow> Inr w
                  | Some cb \<Rightarrow> Inr (w\<lparr>tw_log := tw_log w @ [(cb, tc_args time_config)]\<rparr>))
            else Inr w)))"

definition TMR2_GLOBAL_IRQHandler :: "hy_time_h \<Rightarrow> time_world \<Rightarrow> fault + time_world" where
  "TMR2_GLOBAL_IRQHandler h w = time_irq_handler (HY_TIME_2 h) w"

section \<open>Control\<close>

definition time_control_com :: "nat \<Rightarrow> int \<Rightarrow> time_world \<Rightarrow> fault + time_world" where
  "time_control_com handle flag w =
     seq (deref (tw_heap w) handle) (\<lambda>context.
     seq (time_ptr (tc_num context)) (\<lambda>x.
       if flag \<noteq> 0 then Inr (w\<lparr>tw_m := on_tmr x (TMR_Cmd ENABLE) (tw_m w)\<rparr>)
       else Inr (w\<lparr>tw_m := on_tmr x (TMR_Cmd DISABLE) (tw_m w)\<rparr>)))"

definition HyTimeEnable :: "nat option \<Rightarrow> time_world \<Rightarrow> fault + time_world" where
  "HyTimeEnable handle w = (case handle of None \<Rightarrow> Inr w | Some p \<Rightarrow> time_control_com p 1 w)"

definition HyTimeDisable :: "nat option \<Rightarrow> time_world \<Rightarrow> fault + time_world" where
  "HyTimeDisable handle w = (case handle of None \<Rightarrow> Inr w | Some p \<Rightarrow> time_control_com p 0 w)"

text \<open>As for the UART, the result of destroying is the value \<^verbatim>\<open>HY_FREE\<close> leaves in \<^verbatim>\<open>*handle\<close>.\<close>

definition HyTimeDestroy :: "time_ctx hfree \<Rightarrow> nat option \<Rightarrow> time_world \<Rightarrow> fault + nat option \<times> time_world" where
  "HyTimeDestroy hfree handle w =
     (case handle of None \<Rightarrow> Inr (None, w)
      | Some p \<Rightarrow>
         seq (deref (tw_heap w) p) (\<lambda>context.
         seq (index (tw_array w) (tc_num context)) (\<lambda>_.
           Inr (None, w\<lparr>tw_array := (tw_array w)[tc_num context := None],
                        tw_heap := hfree p (tw_heap w)\<rparr>))))"

definition HyTimeCreate ::
    "hy_time_h \<Rightarrow> malloc \<Rightarrow> time_ctx hfree \<Rightarrow> time_cfg option \<Rightarrow> time_world
      \<Rightarrow> fault + nat option \<times> time_world" where
  "HyTimeCreate h malloc hfree time_config w =
     (case time_config of None \<Rightarrow> Inr (None, w)
      | Some cfg \<Rightarrow>
         (case malloc (dom (tw_heap w)) of
            None \<Rightarrow> HyTimeDestroy hfree None w
          | Some p \<Rightarrow>
              seq (index (tw_array w) (tf_num cfg)) (\<lambda>_.
                let w = w\<lparr>tw_array := (tw_array w)[tf_num cfg := Some p]\<rparr>;
                    w = w\<lparr>tw_heap := (tw_heap w)(p \<mapsto> \<lparr>tc_num = tf_num cfg,
                           tc_time_cb = tf_time_cb cfg, tc_args = tf_args cfg\<rparr>)\<rparr>;
                    m = init_time_rcc h (tf_num cfg) (tw_m w)
                in seq (init_time_func (tf_num cfg) (tf_us cfg) (tf_flag cfg) m) (\<lambda>m.
                   seq (init_time_interrupt h (tf_num cfg) (tf_flag cfg) m) (\<lambda>m.
                     Inr (Some p, w\<lparr>tw_m := m\<rparr>))))))"

section \<open>Lemmas on the table of contexts\<close>

inductive time_step ::
    "hy_time_h \<Rightarrow> malloc \<Rightarrow> time_ctx hfree \<Rightarrow> time_world \<Rightarrow> time_world \<Rightarrow> bool"
  for h malloc hfree where
  create: "HyTimeCreate h malloc hfree cfg w = Inr (r, w') \<Longrightarrow> time_step h malloc hfree w w'"
| destroy: "HyTimeDestroy hfree handle w = Inr (r, w') \<Longrightarrow> time_step h malloc hfree w w'"
| enable: "HyTimeEnable handle w = Inr w' \<Longrightarrow> time_step h malloc hfree w w'"
| disable: "HyTimeDisable handle w = Inr w' \<Longrightarrow> time_step h malloc hfree w w'"
| irq: "time_irq_handler num w = Inr w' \<Longrightarrow> time_step h malloc hfree w w'"
| hardware: "time_step h malloc hfree w (w\<lparr>tw_m := m\<rparr>)"

definition time_ok :: "hy_time_h \<Rightarrow> time_world \<Rightarrow> bool" where
  "time_ok h w \<longleftrightarrow> hy_time_h_ok h \<and> reg_wf tc_num (tw_array w) (tw_heap w)
     \<and> length (tw_array w) = HY_TIME_MAX h"

abbreviation (input) time_same_table :: "time_world \<Rightarrow> time_world \<Rightarrow> bool" where
  "time_same_table w w' \<equiv> tw_array w' = tw_array w \<and> tw_heap w' = tw_heap w"

lemma control_table: "time_control_com p flag w = Inr w' \<Longrightarrow> time_same_table w w'"
  by (auto simp: time_control_com_def seq_def split: sum.split_asm if_split_asm)

lemma time_irq_table: "time_irq_handler num w = Inr w' \<Longrightarrow> time_same_table w w'"
  by (auto simp: time_irq_handler_def seq_def Let_def split: sum.split_asm option.split_asm if_split_asm)

lemma time_destroy_ok:
  assumes "time_ok h w" and "hfree_ok hfree" and "HyTimeDestroy hfree handle w = Inr (r, w')"
  shows "time_ok h w'"
  using assms unfolding time_ok_def
  by (auto simp: HyTimeDestroy_def seq_Inr_iff deref_def index_def hfree_ok_def
      reg_wf_remove split: option.splits if_splits)

lemma time_create_result:
  assumes "HyTimeCreate h malloc hfree cfg w = Inr (r, w')"
  shows "w' = w \<or> (\<exists>c p m. cfg = Some c \<and> malloc (dom (tw_heap w)) = Some p
    \<and> tf_num c < length (tw_array w)
    \<and> w' = w\<lparr>tw_array := (tw_array w)[tf_num c := Some p],
      tw_heap := (tw_heap w)(p \<mapsto> \<lparr>tc_num = tf_num c, tc_time_cb = tf_time_cb c, tc_args = tf_args c\<rparr>),
      tw_m := m\<rparr>)"
  using assms
  by (auto simp: HyTimeCreate_def HyTimeDestroy_def seq_Inr_iff Let_def index_def
      split: option.splits if_splits)

lemma time_create_ok:
  assumes "time_ok h w" and "malloc_ok malloc" and "HyTimeCreate h malloc hfree cfg w = Inr (r, w')"
  shows "time_ok h w'"
  using time_create_result [OF assms(3)]
proof (elim disjE exE conjE)
  fix c p m
  assume p: "malloc (dom (tw_heap w)) = Some p"
    and w': "w' = w\<lparr>tw_array := (tw_array w)[tf_num c := Some p],
      tw_heap := (tw_heap w)(p \<mapsto> \<lparr>tc_num = tf_num c, tc_time_cb = tf_time_cb c, tc_args = tf_args c\<rparr>),
      tw_m := m\<rparr>"
  have "tw_heap w p = None" using p assms(2) by (auto simp: malloc_ok_def)
  then show ?thesis using assms(1) unfolding time_ok_def w' by (simp add: reg_wf_insert)
qed (use assms(1) in simp)

lemma time_ptr_2: "time_ptr 2 = Inr TMR2"
  by (simp add: time_ptr_def time_table_def)

text \<open>The handler of timer 2 under the invariant, as one equation.\<close>

lemma time_irq_effect:
  assumes "2 < length (tw_array w)"
  shows "time_irq_handler 2 w = (case tw_array w ! 2 of
      None \<Rightarrow> Inr w
    | Some p \<Rightarrow> (case tw_heap w p of
        None \<Rightarrow> Inl DanglingPtr
      | Some c \<Rightarrow>
          if TMR_GetINTStatus TMR_INT_Overflow (m_tmr (tw_m w) TMR2) = SET
          then Inr (w\<lparr>tw_m := on_tmr TMR2 (TMR_ClearITPendingBit TMR_INT_Overflow) (tw_m w),
                      tw_log := tw_log w @ (case tc_time_cb c of None \<Rightarrow> [] | Some cb \<Rightarrow> [(cb, tc_args c)])\<rparr>)
          else Inr w))"
  using assms by (simp add: time_irq_handler_def time_ptr_2 deref_def Let_def split: option.split)

interpretation timer: context_module time_step time_ok "\<lambda>h. {HY_TIME_2 h}" "\<lambda>h. time_irq_handler"
proof unfold_locales
  fix h malloc hfree w w'
  assume "malloc_ok malloc" "hfree_ok hfree" and ok: "time_ok h w" and "time_step h malloc hfree w w'"
  have same: "time_ok h w'" if "time_same_table w w'" for w'
    using that ok by (simp add: time_ok_def)
  from \<open>time_step h malloc hfree w w'\<close> show "time_ok h w'"
  proof (cases rule: time_step.cases)
    case create
    then show ?thesis using time_create_ok [OF ok \<open>malloc_ok malloc\<close>] by blast
  next
    case destroy
    then show ?thesis using time_destroy_ok [OF ok \<open>hfree_ok hfree\<close>] by blast
  next
    case (enable handle)
    then have "time_same_table w w'"
      by (auto simp: HyTimeEnable_def dest: control_table split: option.split_asm)
    then show ?thesis by (rule same)
  next
    case (disable handle)
    then have "time_same_table w w'"
      by (auto simp: HyTimeDisable_def dest: control_table split: option.split_asm)
    then show ?thesis by (rule same)
  next
    case irq
    then show ?thesis using same time_irq_table by blast
  next
    case hardware
    then show ?thesis using same by simp
  qed
next
  fix h w n
  assume ok: "time_ok h w" and "n \<in> {HY_TIME_2 h}"
  then have n: "n = 2" "2 < length (tw_array w)" by (simp_all add: time_ok_def hy_time_h_ok_def)
  have "\<exists>c. tw_heap w p = Some c" if "tw_array w ! 2 = Some p" for p
    using ok n(2) that reg_wf_lookup by (fastforce simp: time_ok_def)
  then show "\<exists>w'. time_irq_handler n w = Inr w'"
    using n by (auto simp: time_irq_effect split: option.split)
qed

definition time_start :: "hy_time_h \<Rightarrow> machine \<Rightarrow> time_world" where
  "time_start h m = \<lparr>tw_m = m, tw_array = replicate (HY_TIME_MAX h) None, tw_heap = Map.empty, tw_log = []\<rparr>"

lemma time_start_ok: "hy_time_h_ok h \<Longrightarrow> time_ok h (time_start h m)"
  by (simp add: time_ok_def time_start_def reg_wf_empty)

section \<open>Lemmas on creation\<close>

text \<open>The registers of timer 2 a creation leaves, and the interrupt controller with the line on or off.\<close>

definition tmr2_setup :: "u16 \<Rightarrow> int \<Rightarrow> tmr_regs \<Rightarrow> tmr_regs" where
  "tmr2_setup us flag t = TMR_INTConfig TMR_INT_Overflow ENABLE (TMR_Cmd (to_FunctionalState flag)
     (TMR_TimeBaseInit TMR2 \<lparr>TMR_DIV = 199, TMR_CounterMode = TMR_CounterDIR_Up, TMR_Period = ucast us,
        TMR_ClockDivision = TMR_CKD_DIV1, TMR_RepetitionCounter = 0\<rparr> t))"

definition tmr2_nvic :: "int \<Rightarrow> nvic_regs \<Rightarrow> nvic_regs" where
  "tmr2_nvic flag n = (if flag = 0 then nv_store (ST_ICER 0 0x10000000) n
     else nv_store (ST_ISER 0 0x10000000) (n\<lparr>nv_IP := (nv_IP n)[28 := 0]\<rparr>))"

lemma NVIC_Init_tmr2:
  assumes "nvic_wf n" and "nv_AIRCR n AND 0x700 = 0x500"
  shows "NVIC_Init \<lparr>NVIC_IRQChannel = TMR2_GLOBAL_IRQn, NVIC_IRQChannelPreemptionPriority = 0,
     NVIC_IRQChannelSubPriority = 0, NVIC_IRQChannelCmd = to_FunctionalState flag\<rparr> n = Inr (tmr2_nvic flag n)"
  using assms by (simp add: NVIC_Init_def tmr2_nvic_def to_FunctionalState_def nvic_wf_def)

lemma tmr2_line:
  "irq_enabled 28 (nv_stores (tmr2_nvic flag n)) b \<longleftrightarrow> flag \<noteq> 0"
proof -
  have "bit (0x10000000 :: u32) 28" by (simp add: bit_numeral_rec)
  then show ?thesis by (simp add: tmr2_nvic_def nv_store_def irq_enabled_append)
qed

lemma unat_us: "unat (ucast us :: u32) = unat (us :: u16)"
  using unsigned_less [of us, where 'a=nat] by (simp add: unsigned_ucast_eq take_bit_nat_eq_self)

lemma tmr2_setup_regs:
  "tm_AR (tmr2_setup us flag t) = ucast us" "tm_DIV (tmr2_setup us flag t) = 199"
  "tm_STS (tmr2_setup us flag t) = tm_STS t"
  "tm_DIE (tmr2_setup us flag t) = tm_DIE t OR TMR_INT_Overflow"
  by (simp_all add: tmr2_setup_def TMR_INTConfig_def TMR_Cmd_def TimeBaseInit_regs)

lemma tmr2_setup_counting:
  "tm_CTRL1 (tmr2_setup us flag t) AND TMR_CTRL1_CNTEN = (if flag = 0 then 0 else TMR_CTRL1_CNTEN)"
  by (simp add: tmr2_setup_def TMR_INTConfig_def TMR_Cmd_def to_FunctionalState_def or_and_mask
      clear_and_mask [where m = "1 :: u16", simplified])

lemma time_create_run:
  assumes "hy_time_h_ok h" and "length (tw_array w) = HY_TIME_MAX h"
    and "malloc (dom (tw_heap w)) = Some p"
    and "nvic_wf (m_nvic (tw_m w))" and "nv_AIRCR (m_nvic (tw_m w)) AND 0x700 = 0x500"
  shows "HyTimeCreate h malloc hfree
      (Some \<lparr>tf_num = 2, tf_us = us, tf_flag = flag, tf_time_cb = cb, tf_args = args\<rparr>) w
    = Inr (Some p, w\<lparr>tw_array := (tw_array w)[2 := Some p],
        tw_heap := (tw_heap w)(p \<mapsto> \<lparr>tc_num = 2, tc_time_cb = cb, tc_args = args\<rparr>),
        tw_m := (on_tmr TMR2 (tmr2_setup us flag)
           (on_rcc (RCC_APB1PeriphClockCmd RCC_APB1PERIPH_TMR2 ENABLE) (tw_m w)))
          \<lparr>m_nvic := tmr2_nvic flag (m_nvic (tw_m w))\<rparr>\<rparr>)"
  using assms
  by (simp add: HyTimeCreate_def Let_def hy_time_h_ok_def init_time_rcc_def init_time_func_def time_ptr_2
      init_time_interrupt_def on_nvic_def on_tmr_def on_rcc_def NVIC_Init_tmr2 tmr2_setup_def
      TMR_TimeBaseStructInit_def)

section \<open>Properties\<close>

text \<open>A concrete enumeration for the witnesses.\<close>

definition time_enum :: hy_time_h where
  "time_enum = \<lparr>HY_TIME_2 = 2, HY_TIME_MAX = 3\<rparr>"

lemma time_enum_ok: "hy_time_h_ok time_enum"
  by (simp add: time_enum_def hy_time_h_ok_def)

lemma time_start_chip:
  "length (tw_array (time_start time_enum chip_after_reset)) = HY_TIME_MAX time_enum"
  "first_fit (dom (tw_heap (time_start time_enum chip_after_reset))) = Some 1"
  "nvic_wf (m_nvic (tw_m (time_start time_enum chip_after_reset)))"
  "nv_AIRCR (m_nvic (tw_m (time_start time_enum chip_after_reset))) AND 0x700 = 0x500"
  using chip_nvic by (simp_all add: time_start_def first_fit_empty)

text \<open>
  Creating timer 2 with a period of \<open>us\<close> succeeds, switches the timer's clock on, registers the
  callback, and programs one overflow every \<open>200 * (us + 1)\<close> cycles of the timer clock, which at
  200 MHz is \<open>us + 1\<close> microseconds and not \<open>us\<close>; the overflow interrupt is enabled in the timer, and
  the counter and the interrupt line 28 are on exactly when the flag asks for it.
\<close>

lemma time_create_configures:
  assumes "hy_time_h_ok h" and "length (tw_array w) = HY_TIME_MAX h"
    and "malloc (dom (tw_heap w)) = Some p"
    and "nvic_wf (m_nvic (tw_m w))" and "nv_AIRCR (m_nvic (tw_m w)) AND 0x700 = 0x500"
  shows "\<exists>w'. HyTimeCreate h malloc hfree
        (Some \<lparr>tf_num = 2, tf_us = us, tf_flag = flag, tf_time_cb = cb, tf_args = args\<rparr>) w = Inr (Some p, w')
    \<and> tw_array w' ! 2 = Some p \<and> tw_heap w' p = Some \<lparr>tc_num = 2, tc_time_cb = cb, tc_args = args\<rparr>
    \<and> bit (rcc_APB1EN (m_rcc (tw_m w'))) 0
    \<and> overflow_cycles (m_tmr (tw_m w') TMR2) = 200 * (unat us + 1)
    \<and> tm_DIE (m_tmr (tw_m w') TMR2) AND TMR_INT_Overflow \<noteq> 0
    \<and> (tm_CTRL1 (m_tmr (tw_m w') TMR2) AND TMR_CTRL1_CNTEN \<noteq> 0) = (flag \<noteq> 0)
    \<and> irq_enabled 28 (nv_stores (m_nvic (tw_m w'))) b = (flag \<noteq> 0)"
proof -
  have "2 < length (tw_array w)" using assms(1,2) by (simp add: hy_time_h_ok_def)
  then show ?thesis unfolding time_create_run [of h w malloc p, OF assms]
    by (simp add: on_tmr_def on_rcc_def RCC_APB1PeriphClockCmd_def bit_or_iff overflow_cycles_def
        tmr2_setup_regs tmr2_setup_counting tmr2_line or_and_mask unat_us)
qed

lemma time_create_configures_witness:
  "\<exists>w'. HyTimeCreate time_enum first_fit plain_free
        (Some \<lparr>tf_num = 2, tf_us = 1000, tf_flag = 1, tf_time_cb = Some 7, tf_args = 9\<rparr>)
        (time_start time_enum chip_after_reset) = Inr (Some 1, w')
    \<and> overflow_cycles (m_tmr (tw_m w') TMR2) = 200200"
  using time_create_configures [where malloc = first_fit and hfree = plain_free, OF time_enum_ok time_start_chip,
      of 1000 1 "Some 7" 9 False]
  by auto

text \<open>
  One callback per overflow: on a created timer, when the hardware has raised the overflow flag the
  handler calls the callback once with the caller's argument and clears the flag, so that running it
  again before the next overflow calls nothing; without the flag it does nothing.
\<close>

lemma time_one_callback:
  assumes "hy_time_h_ok h" and "tw_array w ! 2 = Some p" and "2 < length (tw_array w)"
    and "tw_heap w p = Some \<lparr>tc_num = 2, tc_time_cb = Some cb, tc_args = args\<rparr>"
    and "tm_DIE (m_tmr (tw_m w) TMR2) AND TMR_INT_Overflow \<noteq> 0"
  shows "if tm_STS (m_tmr (tw_m w) TMR2) AND TMR_INT_Overflow = 0
    then TMR2_GLOBAL_IRQHandler h w = Inr w
    else (\<exists>w'. TMR2_GLOBAL_IRQHandler h w = Inr w' \<and> tw_log w' = tw_log w @ [(cb, args)]
      \<and> tm_STS (m_tmr (tw_m w') TMR2) AND TMR_INT_Overflow = 0
      \<and> TMR2_GLOBAL_IRQHandler h w' = Inr w')"
proof -
  have h: "TMR2_GLOBAL_IRQHandler h = time_irq_handler 2"
    using assms(1) by (simp add: fun_eq_iff TMR2_GLOBAL_IRQHandler_def hy_time_h_ok_def)
  have s: "TMR_GetINTStatus TMR_INT_Overflow (m_tmr (tw_m w) TMR2) = SET
      \<longleftrightarrow> tm_STS (m_tmr (tw_m w) TMR2) AND TMR_INT_Overflow \<noteq> 0"
    using assms(5) by (simp add: TMR_GetINTStatus_def)
  let ?t = "TMR_ClearITPendingBit TMR_INT_Overflow (m_tmr (tw_m w) TMR2)"
  let ?w = "w\<lparr>tw_m := on_tmr TMR2 (TMR_ClearITPendingBit TMR_INT_Overflow) (tw_m w),
              tw_log := tw_log w @ [(cb, args)]\<rparr>"
  have t: "m_tmr (tw_m ?w) TMR2 = ?t" by (simp add: on_tmr_def)
  have c: "TMR_GetINTStatus TMR_INT_Overflow ?t \<noteq> SET" "tm_DIE ?t AND TMR_INT_Overflow \<noteq> 0"
    using assms(5) by (simp_all only: GetINTStatus_after_clear) (simp_all add: TMR_ClearITPendingBit_def)
  then have z: "tm_STS ?t AND TMR_INT_Overflow = 0"
    by (auto simp: TMR_GetINTStatus_def Let_def split: if_split_asm)
  have again: "time_irq_handler 2 ?w = Inr ?w"
    using assms(2-4) c(1) t by (simp add: time_irq_effect)
  show ?thesis
  proof (cases "tm_STS (m_tmr (tw_m w) TMR2) AND TMR_INT_Overflow = 0")
    case True
    then show ?thesis using s assms(2-4) by (simp add: h time_irq_effect)
  next
    case False
    then have run: "time_irq_handler 2 w = Inr ?w" using s assms(2-4) by (simp add: time_irq_effect)
    have log: "tw_log ?w = tw_log w @ [(cb, args)]" by simp
    show ?thesis unfolding h if_not_P [OF False]
      by (intro exI [of _ ?w] conjI run log z [folded t] again)
  qed
qed

text \<open>
  C38.  The timer module never faults in its interrupt: after any sequence of creations, destructions,
  enables, disables, interrupts and hardware changes from the start of the module, every registered
  context is live and belongs to its port, and the handler returns.
\<close>

theorem time_handler_never_faults:
  assumes "hy_time_h_ok h" and "malloc_ok malloc" and "hfree_ok hfree"
    and "(time_step h malloc hfree)\<^sup>*\<^sup>* (time_start h m) w"
  shows "reg_wf tc_num (tw_array w) (tw_heap w) \<and> (\<exists>w'. TMR2_GLOBAL_IRQHandler h w = Inr w')"
  using timer.reachable_ok [OF assms(2-4) time_start_ok [OF assms(1)]]
    timer.handler_never_faults [OF assms(2-4) time_start_ok [OF assms(1)], of "HY_TIME_2 h"]
  by (simp add: time_ok_def TMR2_GLOBAL_IRQHandler_def)

theorem time_handler_never_faults_witness:
  "\<exists>w'. TMR2_GLOBAL_IRQHandler time_enum (time_start time_enum chip_after_reset) = Inr w'"
  using time_handler_never_faults [OF time_enum_ok first_fit_ok plain_free_ok rtranclp.rtrancl_refl]
  by blast

text \<open>
  A timer created stopped never calls back: creating it with flag 0 switches its interrupt line off
  in the NVIC, and \<^verbatim>\<open>HyTimeEnable\<close> on the handle later starts the counter but leaves the line off.
\<close>

lemma time_enable_no_interrupt:
  assumes "hy_time_h_ok h" and "length (tw_array w) = HY_TIME_MAX h"
    and "malloc (dom (tw_heap w)) = Some p"
    and "nvic_wf (m_nvic (tw_m w))" and "nv_AIRCR (m_nvic (tw_m w)) AND 0x700 = 0x500"
  shows "\<exists>w1 w2. HyTimeCreate h malloc hfree
        (Some \<lparr>tf_num = 2, tf_us = us, tf_flag = 0, tf_time_cb = cb, tf_args = args\<rparr>) w = Inr (Some p, w1)
    \<and> HyTimeEnable (Some p) w1 = Inr w2
    \<and> tm_CTRL1 (m_tmr (tw_m w2) TMR2) AND TMR_CTRL1_CNTEN \<noteq> 0
    \<and> \<not> irq_enabled 28 (nv_stores (m_nvic (tw_m w2))) b"
  unfolding time_create_run [of h w malloc p, OF assms]
  by (simp add: HyTimeEnable_def time_control_com_def time_ptr_2 on_tmr_def TMR_Cmd_def or_and_mask tmr2_line)

lemma time_enable_no_interrupt_witness:
  "\<exists>w1 w2. HyTimeCreate time_enum first_fit plain_free
        (Some \<lparr>tf_num = 2, tf_us = 1000, tf_flag = 0, tf_time_cb = Some 7, tf_args = 9\<rparr>)
        (time_start time_enum chip_after_reset) = Inr (Some 1, w1)
    \<and> HyTimeEnable (Some 1) w1 = Inr w2 \<and> \<not> irq_enabled 28 (nv_stores (m_nvic (tw_m w2))) True"
  using time_enable_no_interrupt [where malloc = first_fit and hfree = plain_free, OF time_enum_ok time_start_chip,
      of 1000 "Some 7" 9 True]
  by blast

text \<open>
  Destroying a running timer leaves an interrupt nobody serves: after \<^verbatim>\<open>HyTimeDestroy\<close> the timer
  still counts with its overflow interrupt enabled, and when it overflows the handler returns
  without clearing the flag, so the interrupt stays pending.
\<close>

lemma time_destroy_leaves_pending:
  assumes "hy_time_h_ok h" and "hfree_ok hfree" and "2 < length (tw_array w)"
    and "tw_heap w p = Some c" and "tc_num c = 2"
    and "tm_DIE (m_tmr (tw_m w) TMR2) AND TMR_INT_Overflow \<noteq> 0"
  shows "\<exists>w'. HyTimeDestroy hfree (Some p) w = Inr (None, w') \<and> tw_m w' = tw_m w
    \<and> (let v = w'\<lparr>tw_m := on_tmr TMR2 (\<lambda>t. t\<lparr>tm_STS := tm_STS t OR TMR_INT_Overflow\<rparr>) (tw_m w')\<rparr>
       in TMR2_GLOBAL_IRQHandler h v = Inr v
        \<and> TMR_GetINTStatus TMR_INT_Overflow (m_tmr (tw_m v) TMR2) = SET)"
  using assms
  by (simp add: HyTimeDestroy_def hy_time_h_ok_def hfree_ok_def TMR2_GLOBAL_IRQHandler_def time_irq_effect
      Let_def on_tmr_def TMR_GetINTStatus_def or_and_mask)

lemma time_destroy_leaves_pending_witness:
  "\<exists>w'. HyTimeDestroy plain_free (Some 1) ((time_start time_enum chip_after_reset)
      \<lparr>tw_array := [None, None, Some 1], tw_heap := [1 \<mapsto> \<lparr>tc_num = 2, tc_time_cb = Some 7, tc_args = 9\<rparr>],
       tw_m := on_tmr TMR2 (tmr2_setup 1000 1) chip_after_reset\<rparr>) = Inr (None, w')
    \<and> TMR2_GLOBAL_IRQHandler time_enum w' = Inr w'"
proof -
  let ?w = "(time_start time_enum chip_after_reset)
      \<lparr>tw_array := [None, None, Some 1], tw_heap := [1 \<mapsto> \<lparr>tc_num = 2, tc_time_cb = Some 7, tc_args = 9\<rparr>],
       tw_m := on_tmr TMR2 (tmr2_setup 1000 1) chip_after_reset\<rparr>"
  have "tm_DIE (m_tmr (tw_m ?w) TMR2) AND TMR_INT_Overflow \<noteq> 0"
    by (simp add: on_tmr_def tmr2_setup_regs or_and_mask)
  then obtain w' where w': "HyTimeDestroy plain_free (Some 1) ?w = Inr (None, w')"
    using time_destroy_leaves_pending [OF time_enum_ok plain_free_ok, of ?w 1
        "\<lparr>tc_num = 2, tc_time_cb = Some 7, tc_args = 9\<rparr>"] by auto
  then have "tw_array w' = [None, None, None]"
    by (auto simp: HyTimeDestroy_def)
  then have "TMR2_GLOBAL_IRQHandler time_enum w' = Inr w'"
    by (simp add: TMR2_GLOBAL_IRQHandler_def time_enum_def time_irq_effect)
  then show ?thesis using w' by blast
qed

lemma time_one_callback_witness:
  "\<exists>w'. TMR2_GLOBAL_IRQHandler time_enum ((time_start time_enum chip_after_reset)
      \<lparr>tw_array := [None, None, Some 1], tw_heap := [1 \<mapsto> \<lparr>tc_num = 2, tc_time_cb = Some 7, tc_args = 9\<rparr>],
       tw_m := on_tmr TMR2 (\<lambda>t. (tmr2_setup 1000 1 t)\<lparr>tm_STS := 1\<rparr>) chip_after_reset\<rparr>) = Inr w'
    \<and> tw_log w' = [(7, 9)]"
proof -
  let ?w = "(time_start time_enum chip_after_reset)
      \<lparr>tw_array := [None, None, Some 1], tw_heap := [1 \<mapsto> \<lparr>tc_num = 2, tc_time_cb = Some 7, tc_args = 9\<rparr>],
       tw_m := on_tmr TMR2 (\<lambda>t. (tmr2_setup 1000 1 t)\<lparr>tm_STS := 1\<rparr>) chip_after_reset\<rparr>"
  have "tm_DIE (m_tmr (tw_m ?w) TMR2) AND TMR_INT_Overflow \<noteq> 0"
    by (simp add: on_tmr_def tmr2_setup_regs or_and_mask)
  moreover have "tm_STS (m_tmr (tw_m ?w) TMR2) AND TMR_INT_Overflow \<noteq> 0" "tw_log ?w = []"
    by (simp_all add: on_tmr_def time_start_def)
  ultimately show ?thesis
    using time_one_callback [OF time_enum_ok, of ?w 1 7 9] by (simp split: if_split_asm) blast
qed

end
