(* ===== verification/SysClock.thy ===== *)
theory SysClock
  imports Rcc Nvic
begin

text \<open>
  System start-up, \<^verbatim>\<open>system_at32f4xx.c\<close> as built with \<^verbatim>\<open>SYSCLK_FREQ_200MHz\<close> for the AT32F407.  The
  start-up polls status bits the hardware sets: \<open>hw n r\<close> is the register block the program finds
  with its access number \<open>n\<close> when it has written \<open>r\<close>.  What the code relies on is stated as
  \<open>clock_hw\<close>: the hardware changes status bits only.
\<close>

section \<open>The hardware\<close>

type_synonym rcc_hw = "nat \<Rightarrow> rcc_regs \<Rightarrow> rcc_regs"

abbreviation (input) RCC_CTRL_HSIEN :: u32 where "RCC_CTRL_HSIEN \<equiv> 0x00000001"
abbreviation (input) RCC_CTRL_HSESTBL :: u32 where "RCC_CTRL_HSESTBL \<equiv> 0x00020000"
abbreviation (input) RCC_CTRL_HSECFDEN :: u32 where "RCC_CTRL_HSECFDEN \<equiv> 0x00080000"
abbreviation (input) RCC_CTRL_PLLEN :: u32 where "RCC_CTRL_PLLEN \<equiv> 0x01000000"
abbreviation (input) RCC_CTRL_PLLSTBL :: u32 where "RCC_CTRL_PLLSTBL \<equiv> 0x02000000"
abbreviation (input) RCC_CFG_SYSCLKSTS_PLL :: u32 where "RCC_CFG_SYSCLKSTS_PLL \<equiv> 0x00000008"
abbreviation (input) RCC_CFG_SYSCLKSEL_PLL :: u32 where "RCC_CFG_SYSCLKSEL_PLL \<equiv> 0x00000002"
abbreviation (input) RCC_CFG_AHBPSC_DIV1 :: u32 where "RCC_CFG_AHBPSC_DIV1 \<equiv> 0x00000000"
abbreviation (input) RCC_CFG_APB2PSC_DIV2 :: u32 where "RCC_CFG_APB2PSC_DIV2 \<equiv> 0x00002000"
abbreviation (input) RCC_CFG_APB1PSC_DIV2 :: u32 where "RCC_CFG_APB1PSC_DIV2 \<equiv> 0x00000400"
abbreviation (input) RCC_CFG_PLLCFG_MASK :: u32 where "RCC_CFG_PLLCFG_MASK \<equiv> 0x1FC0FFFF"
abbreviation (input) RCC_CFG_PLLRC_HSE :: u32 where "RCC_CFG_PLLRC_HSE \<equiv> 0x00010000"
abbreviation (input) RCC_CFG_PLLMULT25 :: u32 where "RCC_CFG_PLLMULT25 \<equiv> 0x20200000"
abbreviation (input) RCC_CFG_PLLRANGE_GT72MHZ :: u32 where "RCC_CFG_PLLRANGE_GT72MHZ \<equiv> 0x80000000"
abbreviation (input) FLASH_BASE :: u32 where "FLASH_BASE \<equiv> 0x08000000"
abbreviation (input) VECT_TAB_OFFSET :: u32 where "VECT_TAB_OFFSET \<equiv> 0x0"

section \<open>Waiting without a bound\<close>

text \<open>\<^verbatim>\<open>while (!p(read)) {}\<close>: the number of the access after the one that ends it, or no value.\<close>

partial_function (option) wait_for :: "(nat \<Rightarrow> bool) \<Rightarrow> nat \<Rightarrow> nat option" where
  "wait_for p n = (if p n then Some (n + 1) else wait_for p (n + 1))"

lemma wait_for_step: "p n \<Longrightarrow> wait_for p n = Some (n + 1)"
    "\<not> p n \<Longrightarrow> wait_for p n = wait_for p (n + 1)"
  by (subst wait_for.simps, simp)+

lemma wait_for_least:
  "p k \<Longrightarrow> (\<forall>i. k - d \<le> i \<and> i < k \<longrightarrow> \<not> p i) \<Longrightarrow> d \<le> k \<Longrightarrow> wait_for p (k - d) = Some (k + 1)"
proof (induction d)
  case 0
  then show ?case by (simp add: wait_for_step(1))
next
  case (Suc d)
  have n: "\<not> p (k - Suc d)" using Suc.prems(2,3) by simp
  have "wait_for p (k - d) = Some (k + 1)"
  proof (rule Suc.IH)
    have "\<not> p i" if "k - d \<le> i" "i < k" for i
      proof -
      have "k - Suc d \<le> i" using that(1) by linarith
      then show ?thesis using Suc.prems(2) that(2) by blast
    qed
    then show "\<forall>i. k - d \<le> i \<and> i < k \<longrightarrow> \<not> p i" by blast
  qed (use Suc.prems in simp_all)
  moreover have "k - Suc d + 1 = k - d" using Suc.prems(3) by simp
  ultimately show ?case using wait_for_step(2) [of p, OF n] by simp
qed

text \<open>A condition that holds from some access on is met.\<close>

lemma wait_for_some:
  assumes "p k" and "n \<le> k"
  shows "\<exists>m. wait_for p n = Some (m + 1) \<and> n \<le> m \<and> m \<le> k \<and> p m"
proof -
  have "\<exists>m. (n \<le> m \<and> p m) \<and> (\<forall>i<m. \<not> (n \<le> i \<and> p i))"
    using exists_least_iff [of "\<lambda>m. n \<le> m \<and> p m"] assms by blast
  then obtain m where m: "n \<le> m" "p m" "\<forall>i<m. \<not> (n \<le> i \<and> p i)" by blast
  have "m \<le> k" using m(3) assms by (meson not_le)
  moreover have "wait_for p (m - (m - n)) = Some (m + 1)"
    by (rule wait_for_least) (use m in auto)
  ultimately show ?thesis using m by (intro exI [of _ m]) simp
qed

section \<open>Setting the system clock\<close>

definition SetSysClockTo200M :: "rcc_hw \<Rightarrow> rcc_regs \<Rightarrow> nat \<Rightarrow> (rcc_regs \<times> nat) option" where
  "SetSysClockTo200M hw r n =
     (let r = r\<lparr>rcc_CTRL := rcc_CTRL r OR RCC_CTRL_HSEEN\<rparr>;
          (st, c) = poll_loop (\<lambda>c. rcc_CTRL (hw (n + unat c) r) AND RCC_CTRL_HSESTBL \<noteq> 0)
                      HSE_STARTUP_TIMEOUT 0;
          n = n + unat c;
          HSEStatus = (if rcc_CTRL (hw n r) AND RCC_CTRL_HSESTBL \<noteq> 0 then 1 else 0 :: u32);
          n = n + 1
      in if HSEStatus = 1 then
           (let r = r\<lparr>rcc_CFG := rcc_CFG r OR RCC_CFG_AHBPSC_DIV1\<rparr>;
                r = r\<lparr>rcc_CFG := rcc_CFG r AND 0xFFFFC7FF\<rparr>;
                r = r\<lparr>rcc_CFG := rcc_CFG r OR RCC_CFG_APB2PSC_DIV2\<rparr>;
                r = r\<lparr>rcc_CFG := rcc_CFG r AND 0xFFFFF8FF\<rparr>;
                r = r\<lparr>rcc_CFG := rcc_CFG r OR RCC_CFG_APB1PSC_DIV2\<rparr>;
                r = r\<lparr>rcc_CFG := rcc_CFG r AND RCC_CFG_PLLCFG_MASK\<rparr>;
                r = r\<lparr>rcc_CFG := rcc_CFG r OR
                       (RCC_CFG_PLLRC_HSE OR RCC_CFG_PLLMULT25 OR RCC_CFG_PLLRANGE_GT72MHZ)\<rparr>;
                r = r\<lparr>rcc_CTRL := rcc_CTRL r OR RCC_CTRL_PLLEN\<rparr>
            in case wait_for (\<lambda>i. rcc_CTRL (hw i r) AND RCC_CTRL_PLLSTBL \<noteq> 0) n of
                 None \<Rightarrow> None
               | Some n \<Rightarrow>
                   let r = RCC_StepModeCmd ENABLE r;
                       r = r\<lparr>rcc_CFG := rcc_CFG r AND NOT RCC_CFG_SYSCLKSEL\<rparr>;
                       r = r\<lparr>rcc_CFG := rcc_CFG r OR RCC_CFG_SYSCLKSEL_PLL\<rparr>
                   in case wait_for (\<lambda>i. rcc_CFG (hw i r) AND RCC_CFG_SYSCLKSTS
                                          = RCC_CFG_SYSCLKSTS_PLL) n of
                        None \<Rightarrow> None
                      | Some n \<Rightarrow> Some (RCC_StepModeCmd DISABLE r, n))
         else Some (r, n))"

definition SetSysClock :: "rcc_hw \<Rightarrow> rcc_regs \<Rightarrow> nat \<Rightarrow> (rcc_regs \<times> nat) option" where
  "SetSysClock hw r n = SetSysClockTo200M hw r n"

text \<open>The register writes of \<^verbatim>\<open>SystemInit\<close> before it calls \<^verbatim>\<open>SetSysClock\<close>, and the whole of it.\<close>

definition SystemInit_reset :: "rcc_regs \<Rightarrow> rcc_regs" where
  "SystemInit_reset r =
     (let r = r\<lparr>rcc_CTRL := rcc_CTRL r OR RCC_CTRL_HSIEN\<rparr>;
          r = r\<lparr>rcc_CFG := rcc_CFG r AND NOT (RCC_CFG_SYSCLKSEL OR RCC_CFG_AHBPSC OR RCC_CFG_APB1PSC
                 OR RCC_CFG_APB2PSC OR RCC_CFG_ADCPSC OR RCC_CFG_CLKOUT)\<rparr>;
          r = r\<lparr>rcc_CTRL := rcc_CTRL r AND NOT (RCC_CTRL_HSEEN OR RCC_CTRL_HSECFDEN OR RCC_CTRL_PLLEN)\<rparr>;
          r = r\<lparr>rcc_CTRL := rcc_CTRL r AND NOT RCC_CTRL_HSEBYPS\<rparr>;
          r = r\<lparr>rcc_CFG := rcc_CFG r AND NOT (RCC_CFG_PLLRC OR RCC_CFG_PLLHSEPSC OR RCC_CFG_PLLMULT
                 OR RCC_CFG_USBPSC OR RCC_CFG_PLLRANGE)\<rparr>;
          r = r\<lparr>rcc_MISC := rcc_MISC r AND NOT 0x010100FF\<rparr>
      in r\<lparr>rcc_CLKINT := 0x00010000 OR 0x00020000 OR 0x00040000 OR 0x00080000 OR 0x00100000
             OR 0x00800000\<rparr>)"

definition SystemInit :: "rcc_hw \<Rightarrow> rcc_regs \<Rightarrow> nvic_regs \<Rightarrow> nat \<Rightarrow> (rcc_regs \<times> nvic_regs \<times> nat) option" where
  "SystemInit hw r nv n =
     (let nv = nv\<lparr>nv_CPACR := nv_CPACR nv OR (push_bit 20 3 OR push_bit 22 3)\<rparr>;
          r = SystemInit_reset r
      in case SetSysClock hw r n of
           None \<Rightarrow> None
         | Some (r, n) \<Rightarrow> Some (r, nv\<lparr>nv_VTOR := FLASH_BASE OR VECT_TAB_OFFSET\<rparr>, n))"

section \<open>Reading the core clock back\<close>

definition AHBPscTable :: "nat list" where
  "AHBPscTable = [0, 0, 0, 0, 0, 0, 0, 0, 1, 2, 3, 4, 6, 7, 8, 9]"

text \<open>The value \<^verbatim>\<open>SystemCoreClockUpdate\<close> leaves in \<^verbatim>\<open>SystemCoreClock\<close>.\<close>

definition SystemCoreClockUpdate :: "rcc_regs \<Rightarrow> u32" where
  "SystemCoreClockUpdate r =
     (let tmp = rcc_CFG r AND RCC_CFG_SYSCLKSTS;
          core = (if tmp = 0x00 then
                    (if rcc_MISC r AND RCC_HSI_DIV_EN \<noteq> 0 \<and> rcc_MISC2 r AND RCC_HSI_SYS_CTRL \<noteq> 0
                     then HSI_VALUE * 6 else HSI_VALUE)
                  else if tmp = 0x04 then HSE_VALUE
                  else if tmp = 0x08 then
                    (let pllrefclk = rcc_CFG r AND RCC_CFG_PLLRC;
                         pllmult = rcc_CFG r AND RCC_CFG_PLLMULT;
                         pllmult = RCC_GET_PLLMULT pllmult
                     in if pllrefclk = 0x00 then drop_bit 1 HSI_VALUE * pllmult
                        else if rcc_CFG r AND RCC_CFG_PLLHSEPSC \<noteq> 0 then
                          (let prediv = rcc_MISC2 r AND RCC_HSE_DIV_MASK;
                               prediv = drop_bit 12 prediv
                           in (HSE_VALUE div (prediv + 2)) * pllmult)
                        else HSE_VALUE * pllmult)
                  else HSI_VALUE);
          tmp = AHBPscTable ! unat (drop_bit 4 (rcc_CFG r AND RCC_CFG_AHBPSC))
      in drop_bit tmp core)"

section \<open>What the code relies on\<close>

text \<open>
  The hardware changes the status bits \<^verbatim>\<open>HSESTBL\<close>, \<^verbatim>\<open>PLLSTBL\<close> and \<^verbatim>\<open>SYSCLKSTS\<close> only; an enabled
  external oscillator is stable from access \<open>kh\<close> on; an enabled PLL locks and a selected PLL becomes
  the system clock from the accesses \<open>kp\<close> and \<open>ks\<close> on.
\<close>

definition clock_hw :: "rcc_hw \<Rightarrow> bool" where
  "clock_hw hw \<longleftrightarrow> (\<forall>n r. rcc_CFG (hw n r) AND NOT RCC_CFG_SYSCLKSTS = rcc_CFG r AND NOT RCC_CFG_SYSCLKSTS
     \<and> rcc_MISC (hw n r) = rcc_MISC r \<and> rcc_MISC2 (hw n r) = rcc_MISC2 r)"

definition hse_stable_from :: "rcc_hw \<Rightarrow> nat \<Rightarrow> bool" where
  "hse_stable_from hw kh \<longleftrightarrow> (\<forall>n r. rcc_CTRL r AND RCC_CTRL_HSEEN \<noteq> 0 \<longrightarrow>
     (rcc_CTRL (hw n r) AND RCC_CTRL_HSESTBL \<noteq> 0 \<longleftrightarrow> kh \<le> n))"

definition pll_locks_from :: "rcc_hw \<Rightarrow> nat \<Rightarrow> bool" where
  "pll_locks_from hw kp \<longleftrightarrow> (\<forall>n r. kp \<le> n \<and> rcc_CTRL r AND RCC_CTRL_PLLEN \<noteq> 0 \<longrightarrow>
     rcc_CTRL (hw n r) AND RCC_CTRL_PLLSTBL \<noteq> 0)"

definition pll_selected_from :: "rcc_hw \<Rightarrow> nat \<Rightarrow> bool" where
  "pll_selected_from hw ks \<longleftrightarrow> (\<forall>n r. ks \<le> n \<and> rcc_CTRL r AND RCC_CTRL_PLLEN \<noteq> 0
     \<and> rcc_CFG r AND RCC_CFG_SYSCLKSEL = RCC_CFG_SYSCLKSEL_PLL \<longrightarrow>
     rcc_CFG (hw n r) AND RCC_CFG_SYSCLKSTS = RCC_CFG_SYSCLKSTS_PLL)"

section \<open>The start-up sequence\<close>

text \<open>The registers after the oscillator was found stable: PLL running, then PLL selected.\<close>

definition pll_on :: "rcc_regs \<Rightarrow> rcc_regs" where
  "pll_on r = r\<lparr>rcc_CFG := (((((rcc_CFG r OR 0) AND 0xFFFFC7FF) OR 0x2000) AND 0xFFFFF8FF OR 0x400)
       AND RCC_CFG_PLLCFG_MASK) OR 0xA0210000,
     rcc_CTRL := (rcc_CTRL r OR RCC_CTRL_HSEEN) OR RCC_CTRL_PLLEN\<rparr>"

definition pll_sel :: "rcc_regs \<Rightarrow> rcc_regs" where
  "pll_sel r = (RCC_StepModeCmd ENABLE (pll_on r))\<lparr>rcc_CFG :=
     (rcc_CFG (pll_on r) AND NOT RCC_CFG_SYSCLKSEL) OR RCC_CFG_SYSCLKSEL_PLL\<rparr>"

lemma hse_poll:
  assumes "hse_stable_from hw kh" and "rcc_CTRL r AND RCC_CTRL_HSEEN \<noteq> 0" and "kh < n + 0x3000"
  shows "poll_loop (\<lambda>c. rcc_CTRL (hw (n + unat c) r) AND RCC_CTRL_HSESTBL \<noteq> 0) HSE_STARTUP_TIMEOUT 0
    = (True, of_nat (kh - n) + 1)"
proof (rule poll_loop_found)
  have u: "unat (of_nat (kh - n) :: u32) = kh - n"
    using assms(3) by (intro unat_of_nat_small) simp
  have st: "rcc_CTRL (hw (n + unat i) r) AND RCC_CTRL_HSESTBL \<noteq> 0 \<longleftrightarrow> kh \<le> n + unat i" for i :: u32
    using assms(1,2) by (simp add: hse_stable_from_def)
  show "of_nat (kh - n) < HSE_STARTUP_TIMEOUT"
    using assms(3) by (simp add: word_less_nat_alt u)
  show "rcc_CTRL (hw (n + unat (of_nat (kh - n) :: u32)) r) AND RCC_CTRL_HSESTBL \<noteq> 0"
    using st [of "of_nat (kh - n)"] by (simp add: u)
  show "\<not> rcc_CTRL (hw (n + unat i) r) AND RCC_CTRL_HSESTBL \<noteq> 0" if "i < of_nat (kh - n)" for i :: u32
    using that st [of i] by (auto simp add: word_less_nat_alt u)
qed simp

lemma SetSysClockTo200M_stable:
  assumes hse: "hse_stable_from hw kh" "kh < n + 0x3000"
    and pll: "pll_locks_from hw kp" and sel: "pll_selected_from hw ks"
  shows "\<exists>n'. SetSysClockTo200M hw r n = Some (RCC_StepModeCmd DISABLE (pll_sel r), n')"
proof -
  let ?r = "r\<lparr>rcc_CTRL := rcc_CTRL r OR RCC_CTRL_HSEEN\<rparr>"
  have en: "rcc_CTRL ?r AND RCC_CTRL_HSEEN \<noteq> 0" by (simp add: or_and_mask)
  define n1 where "n1 = n + unat (of_nat (kh - n) + 1 :: u32)"
  have u: "unat (of_nat (kh - n) + 1 :: u32) = kh - n + 1"
    using hse(2) by (simp add: unat_word_ariths unat_of_nat_small)
  have "kh \<le> n1" by (simp add: n1_def u)
  then have st: "rcc_CTRL (hw n1 ?r) AND RCC_CTRL_HSESTBL \<noteq> 0"
    using hse(1) en by (simp add: hse_stable_from_def)
  have plle: "rcc_CTRL (pll_on r) AND RCC_CTRL_PLLEN \<noteq> 0" "rcc_CTRL (pll_sel r) AND RCC_CTRL_PLLEN \<noteq> 0"
    by (simp_all add: pll_on_def pll_sel_def RCC_StepModeCmd_def or_and_mask)
  obtain m where m: "wait_for (\<lambda>i. rcc_CTRL (hw i (pll_on r)) AND RCC_CTRL_PLLSTBL \<noteq> 0) (n1 + 1)
      = Some (m + 1)"
    using wait_for_some [of "\<lambda>i. rcc_CTRL (hw i (pll_on r)) AND RCC_CTRL_PLLSTBL \<noteq> 0"
        "max kp (n1 + 1)" "n1 + 1"] pll plle(1) by (auto simp: pll_locks_from_def)
  have "rcc_CFG (pll_sel r) AND RCC_CFG_SYSCLKSEL = RCC_CFG_SYSCLKSEL_PLL"
    by (simp add: pll_sel_def keep_fields)
  then obtain m' where m': "wait_for (\<lambda>i. rcc_CFG (hw i (pll_sel r)) AND RCC_CFG_SYSCLKSTS
      = RCC_CFG_SYSCLKSTS_PLL) (m + 1) = Some (m' + 1)"
    using wait_for_some [of "\<lambda>i. rcc_CFG (hw i (pll_sel r)) AND RCC_CFG_SYSCLKSTS
        = RCC_CFG_SYSCLKSTS_PLL" "max ks (m + 1)" "m + 1"] sel plle(2)
    by (auto simp: pll_selected_from_def)
  have "SetSysClockTo200M hw r n = Some (RCC_StepModeCmd DISABLE (pll_sel r), m' + 1)"
    unfolding SetSysClockTo200M_def Let_def hse_poll [OF hse(1) en hse(2)] prod.case
      n1_def [symmetric]
    using st m m' by (simp add: pll_on_def pll_sel_def RCC_StepModeCmd_def)
  then show ?thesis by blast
qed

text \<open>After \<^verbatim>\<open>SystemInit\<close> every bit of \<^verbatim>\<open>RCC_CFG\<close> except the status field is determined.\<close>

lemma CFG_after_start:
  "rcc_CFG (RCC_StepModeCmd DISABLE (pll_sel (SystemInit_reset r))) AND NOT RCC_CFG_SYSCLKSTS
     = 0xA0212402"
  by (simp add: RCC_StepModeCmd_def pll_sel_def pll_on_def SystemInit_reset_def
      bit.conj_disj_distrib2 and.assoc)

lemma word_from_parts: "(x :: 'a::len word) AND NOT m = a \<Longrightarrow> x AND m = b \<Longrightarrow> x = a OR b"
  by (auto simp: bit_eq_iff bit_simps)

lemma clocks_of_start_CFG:
  assumes "rcc_CFG r = 0xA021240A"
  shows "RCC_GetClocksFreq r = \<lparr>SYSCLK_Freq = 200000000, AHBCLK_Freq = 200000000,
     APB1CLK_Freq = 100000000, APB2CLK_Freq = 100000000, ADCCLK_Freq = 50000000\<rparr>"
  by (simp add: RCC_GetClocksFreq_def sysclk_freq_def assms bus_psc_def RCC_GET_PLLMULT_def
      APBAHBPscTable_def ADCPscTable_def)

lemma system_init_run:
  assumes hw: "clock_hw hw" and hse: "hse_stable_from hw kh" "kh < n + 0x3000"
    and pll: "pll_locks_from hw kp" and sel: "pll_selected_from hw ks" and m: "ks \<le> m"
  shows "\<exists>r' nv' n'. SystemInit hw r nv n = Some (r', nv', n')
    \<and> RCC_GetClocksFreq (hw m r') = \<lparr>SYSCLK_Freq = 200000000, AHBCLK_Freq = 200000000,
         APB1CLK_Freq = 100000000, APB2CLK_Freq = 100000000, ADCCLK_Freq = 50000000\<rparr>
    \<and> SystemCoreClockUpdate (hw m r') = 200000000 \<and> nv' = nv\<lparr>nv_CPACR := nv_CPACR nv OR 0x00F00000, nv_VTOR := 0x08000000\<rparr>"
proof -
  let ?q = "SystemInit_reset r"
  let ?r = "RCC_StepModeCmd DISABLE (pll_sel ?q)"
  obtain n' where run: "SetSysClockTo200M hw ?q n = Some (?r, n')"
    using SetSysClockTo200M_stable [OF hse pll sel] by blast
  have "rcc_CTRL ?r AND RCC_CTRL_PLLEN \<noteq> 0"
    by (simp add: pll_on_def pll_sel_def RCC_StepModeCmd_def or_and_mask)
  moreover have "rcc_CFG ?r AND RCC_CFG_SYSCLKSEL = RCC_CFG_SYSCLKSEL_PLL"
    by (simp add: pll_sel_def RCC_StepModeCmd_def keep_fields)
  ultimately have "rcc_CFG (hw m ?r) AND RCC_CFG_SYSCLKSTS = RCC_CFG_SYSCLKSTS_PLL"
    using sel m by (simp add: pll_selected_from_def)
  moreover have "rcc_CFG (hw m ?r) AND NOT RCC_CFG_SYSCLKSTS = 0xA0212402"
    using hw CFG_after_start [of r] by (simp only: clock_hw_def)
  ultimately have cfg: "rcc_CFG (hw m ?r) = 0xA021240A"
    using word_from_parts [of "rcc_CFG (hw m ?r)" RCC_CFG_SYSCLKSTS] by fastforce
  have "SystemCoreClockUpdate (hw m ?r) = 200000000"
    by (simp add: SystemCoreClockUpdate_def cfg RCC_GET_PLLMULT_def AHBPscTable_def)
  then show ?thesis
    using run clocks_of_start_CFG [OF cfg] by (simp add: SystemInit_def SetSysClock_def Let_def)
qed

section \<open>Properties\<close>

text \<open>
  C11.  The start-up reaches its clocks from any register state: if the oscillator stabilises within
  the time-out, the PLL locks and the switch is taken, \<^verbatim>\<open>SystemInit\<close> returns, and from then on
  \<^verbatim>\<open>RCC_GetClocksFreq\<close> reports 200 MHz for the system and AHB clock, 100 MHz for both APB buses and
  50 MHz for the ADC, \<^verbatim>\<open>SystemCoreClockUpdate\<close> computes 200 MHz, and the vector table is in flash.
\<close>

theorem system_init_200MHz:
  assumes hw: "clock_hw hw" and hse: "hse_stable_from hw kh" "kh < n + 0x3000"
    and pll: "pll_locks_from hw kp" and sel: "pll_selected_from hw ks" and m: "ks \<le> m"
  shows "\<exists>r' nv' n'. SystemInit hw r nv n = Some (r', nv', n')
    \<and> RCC_GetClocksFreq (hw m r') = \<lparr>SYSCLK_Freq = 200000000, AHBCLK_Freq = 200000000,
         APB1CLK_Freq = 100000000, APB2CLK_Freq = 100000000, ADCCLK_Freq = 50000000\<rparr>
    \<and> SystemCoreClockUpdate (hw m r') = 200000000 \<and> nv_VTOR nv' = 0x08000000"
  using system_init_run [OF assms, of r nv] by auto

text \<open>A clock controller that stabilises, locks and switches with the fifth access.\<close>

definition ideal_hw :: rcc_hw where
  "ideal_hw n r =
     (if n < 5 then r\<lparr>rcc_CTRL := rcc_CTRL r AND NOT (RCC_CTRL_HSESTBL OR RCC_CTRL_PLLSTBL)\<rparr>
      else r\<lparr>rcc_CTRL := rcc_CTRL r OR (RCC_CTRL_HSESTBL OR RCC_CTRL_PLLSTBL),
             rcc_CFG := (rcc_CFG r AND NOT RCC_CFG_SYSCLKSTS)
                OR push_bit 2 (rcc_CFG r AND RCC_CFG_SYSCLKSEL)\<rparr>)"

lemma ideal_hw_ok:
  "clock_hw ideal_hw" "hse_stable_from ideal_hw 5" "pll_locks_from ideal_hw 5"
  "pll_selected_from ideal_hw 5"
proof -
  have d: "push_bit 2 (x AND RCC_CFG_SYSCLKSEL) AND NOT RCC_CFG_SYSCLKSTS = 0" for x :: u32
    by (simp add: push_bit_and and.assoc)
  then show "clock_hw ideal_hw"
    by (simp add: clock_hw_def ideal_hw_def bit.conj_disj_distrib2 and.assoc)
  show "hse_stable_from ideal_hw 5"
    by (simp add: hse_stable_from_def ideal_hw_def bit.conj_disj_distrib2 and.assoc)
  show "pll_locks_from ideal_hw 5"
    by (simp add: pll_locks_from_def ideal_hw_def bit.conj_disj_distrib2 and.assoc)
  show "pll_selected_from ideal_hw 5"
    by (simp add: pll_selected_from_def ideal_hw_def bit.conj_disj_distrib2 and.assoc)
qed

theorem system_init_200MHz_witness:
  "\<exists>r' nv' n'. SystemInit ideal_hw rcc_after_reset nvic_after_reset 0 = Some (r', nv', n')
     \<and> SystemCoreClockUpdate (ideal_hw 100 r') = 200000000"
proof -
  have h: "(5 :: nat) < 0 + 0x3000" "(5 :: nat) \<le> 100" by simp_all
  show ?thesis
    using system_init_200MHz [OF ideal_hw_ok(1,2) h(1) ideal_hw_ok(3,4) h(2),
        of rcc_after_reset nvic_after_reset] by blast
qed

lemma neg_2_32: "(- 4294967296 :: u32) = 0"
  by (transfer, simp)

text \<open>
  Without a working oscillator \<^verbatim>\<open>SystemInit\<close> still returns: it makes exactly 12289 reads, leaves
  the PLL off and the internal oscillator selected with all prescalers at one, and the clocks it
  reports are then those of the internal oscillator on every bus.
\<close>

lemma system_init_no_hse:
  assumes hw: "clock_hw hw" and dead: "\<And>i q. rcc_CTRL (hw i q) AND RCC_CTRL_HSESTBL = 0"
    and sts: "rcc_CFG (hw m (SystemInit_reset r\<lparr>rcc_CTRL := rcc_CTRL (SystemInit_reset r)
      OR RCC_CTRL_HSEEN\<rparr>)) AND RCC_CFG_SYSCLKSTS = 0"
  shows "\<exists>r' nv'. SystemInit hw r nv n = Some (r', nv', n + 12289)
    \<and> rcc_CTRL r' AND RCC_CTRL_PLLEN = 0 \<and> rcc_CFG r' AND RCC_CFG_SYSCLKSEL = 0
    \<and> SYSCLK_Freq (RCC_GetClocksFreq (hw m r')) \<in> {8000000, 48000000}
    \<and> APB1CLK_Freq (RCC_GetClocksFreq (hw m r')) = SYSCLK_Freq (RCC_GetClocksFreq (hw m r'))
    \<and> APB2CLK_Freq (RCC_GetClocksFreq (hw m r')) = SYSCLK_Freq (RCC_GetClocksFreq (hw m r'))"
proof -
  let ?q = "SystemInit_reset r"
  let ?r = "?q\<lparr>rcc_CTRL := rcc_CTRL ?q OR RCC_CTRL_HSEEN\<rparr>"
  have "poll_loop (\<lambda>c. rcc_CTRL (hw (n + unat c) ?r) AND RCC_CTRL_HSESTBL \<noteq> 0) HSE_STARTUP_TIMEOUT 0
      = (False, HSE_STARTUP_TIMEOUT)"
    by (rule poll_loop_timeout) (simp_all add: dead)
  then have run: "SystemInit hw r nv n = Some (?r,
      nv\<lparr>nv_CPACR := nv_CPACR nv OR (push_bit 20 3 OR push_bit 22 3), nv_VTOR := FLASH_BASE OR VECT_TAB_OFFSET\<rparr>,
      n + 12289)"
    by (simp add: SystemInit_def SetSysClock_def SetSysClockTo200M_def Let_def dead)
  have "rcc_CFG (hw m ?r) AND NOT RCC_CFG_SYSCLKSTS = 0"
    using hw by (simp add: neg_2_32 clock_hw_def SystemInit_reset_def and.assoc)
  then have "rcc_CFG (hw m ?r) = 0"
    using sts word_from_parts [of "rcc_CFG (hw m ?r)" RCC_CFG_SYSCLKSTS 0 0] by simp
  then have clk: "SYSCLK_Freq (RCC_GetClocksFreq (hw m ?r)) \<in> {8000000, 48000000}"
    "APB1CLK_Freq (RCC_GetClocksFreq (hw m ?r)) = SYSCLK_Freq (RCC_GetClocksFreq (hw m ?r))"
    "APB2CLK_Freq (RCC_GetClocksFreq (hw m ?r)) = SYSCLK_Freq (RCC_GetClocksFreq (hw m ?r))"
    by (simp_all add: RCC_GetClocksFreq_def sysclk_freq_def bus_psc_def)
  have "rcc_CTRL ?r AND RCC_CTRL_PLLEN = 0" "rcc_CFG ?r AND RCC_CFG_SYSCLKSEL = 0"
    by (simp_all add: SystemInit_reset_def bit.conj_disj_distrib2 and.assoc)
  with run clk show ?thesis by blast
qed

text \<open>Hardware whose oscillator never starts.\<close>

definition dead_hw :: rcc_hw where
  "dead_hw n r = r\<lparr>rcc_CTRL := rcc_CTRL r AND NOT RCC_CTRL_HSESTBL,
     rcc_CFG := rcc_CFG r AND NOT RCC_CFG_SYSCLKSTS\<rparr>"

lemma system_init_no_hse_witness:
  "\<exists>r' nv'. SystemInit dead_hw rcc_after_reset nvic_after_reset 0 = Some (r', nv', 12289)"
proof -
  have h: "clock_hw dead_hw" "\<And>i q. rcc_CTRL (dead_hw i q) AND RCC_CTRL_HSESTBL = 0"
      "\<And>q. rcc_CFG (dead_hw 0 q) AND RCC_CFG_SYSCLKSTS = 0"
    by (simp_all add: clock_hw_def dead_hw_def and.assoc)
  show ?thesis using system_init_no_hse [OF h, of rcc_after_reset nvic_after_reset 0] by auto
qed

lemma AHBPscTable_bus_psc:
  "AHBPscTable ! unat (drop_bit 4 (cfg AND RCC_CFG_AHBPSC)) = bus_psc RCC_CFG_AHBPSC RCC_CFG_AHBPSC_3 4 cfg"
proof -
  define x where "x = cfg AND (0xF0 :: u32)"
  define y where "y = drop_bit 4 x"
  have "unat y \<le> 15" using unat_drop_and_le [of 4 cfg "0xF0"] by (simp add: x_def y_def)
  then have y: "unat y \<in> set [0..<16]" by simp
  have "take_bit 4 x = x AND 0x0F" by (simp add: take_bit_eq_mask mask_eq_exp_minus_1)
  then have "take_bit 4 x = 0" by (simp add: x_def and.assoc)
  then have x: "x = push_bit 4 y" using bits_ident [of 4 x] by (simp add: y_def)
  have fields: "cfg AND 0x70 = x AND 0x70" "cfg AND 0x80 = x AND 0x80"
    by (simp_all add: x_def and.assoc)
  have "list_all (\<lambda>i. AHBPscTable ! i = (if push_bit 4 (of_nat i) AND (0x80 :: u32) \<noteq> 0
      then unat (APBAHBPscTable ! unat (drop_bit 4 (push_bit 4 (of_nat i) AND (0x70 :: u32)))) else 0))
      [0..<16]"
    by (simp add: upt_rec AHBPscTable_def APBAHBPscTable_def)
  then have "AHBPscTable ! unat y = (if push_bit 4 y AND 0x80 \<noteq> 0
      then unat (APBAHBPscTable ! unat (drop_bit 4 (push_bit 4 y AND 0x70))) else 0)"
    using y by (simp only: list_all_iff) fastforce
  then have "AHBPscTable ! unat y = (if x AND 0x80 \<noteq> 0
      then unat (APBAHBPscTable ! unat (drop_bit 4 (x AND 0x70))) else 0)"
    by (simp only: x [symmetric])
  moreover have "RCC_CFG_AHBPSC XOR RCC_CFG_AHBPSC_3 = 0x70" by simp
  ultimately show ?thesis
    by (simp only: bus_psc_def Let_def fields x_def [symmetric] y_def [symmetric])
qed

text \<open>
  The two computations of the core clock agree: whenever the PLL is not the system clock or its
  range bit is set, \<^verbatim>\<open>SystemCoreClockUpdate\<close> computes the AHB clock that \<^verbatim>\<open>RCC_GetClocksFreq\<close> reports.
\<close>

lemma core_clock_agrees:
  assumes "rcc_CFG r AND RCC_CFG_SYSCLKSTS \<noteq> RCC_CFG_SYSCLKSTS_PLL \<or> rcc_CFG r AND RCC_CFG_PLLRANGE \<noteq> 0"
  shows "SystemCoreClockUpdate r = AHBCLK_Freq (RCC_GetClocksFreq r)"
  unfolding SystemCoreClockUpdate_def RCC_GetClocksFreq_def Let_def AHBPscTable_bus_psc
    RCC_ClockType.simps sysclk_freq_def
  using assms by auto

lemma core_clock_agrees_witness:
  "SystemCoreClockUpdate (rcc_after_reset\<lparr>rcc_CFG := 0xA021240A\<rparr>) = 200000000"
proof -
  have h: "rcc_CFG (rcc_after_reset\<lparr>rcc_CFG := 0xA021240A\<rparr>) AND RCC_CFG_SYSCLKSTS \<noteq> RCC_CFG_SYSCLKSTS_PLL
      \<or> rcc_CFG (rcc_after_reset\<lparr>rcc_CFG := 0xA021240A\<rparr>) AND RCC_CFG_PLLRANGE \<noteq> 0" by simp
  show ?thesis using core_clock_agrees [OF h] by (simp add: clocks_of_start_CFG)
qed

end
