(* ===== verification/HySystem.thy ===== *)
theory HySystem
  imports Machine SysClock
begin

text \<open>
  The system module, \<^verbatim>\<open>hy_system.c\<close>: creation and destruction of the system tick with its callback,
  the tick's interrupt, and the blocking delays (\<^verbatim>\<open>USE_SYSTICK_DELAY\<close>).  The module has one static
  pointer, \<open>sw_context\<close>.  What \<^verbatim>\<open>HY_MALLOC_BREAK\<close> leaves in the variable it is assigned to when there is no
  memory is a parameter, because the macro is not part of the repository.
\<close>

section \<open>State\<close>

record sys_ctx =
  sc_tick_cb :: "nat option"
  sc_args :: nat

record sys_world =
  sw_m :: machine
  sw_core :: u32
  sw_context :: "nat option"
  sw_heap :: "nat \<rightharpoonup> sys_ctx"
  sw_log :: "(nat \<times> nat) list"
  sw_reads :: nat
  sw_loads :: "u32 list"

definition on_systick :: "(nvic_regs \<Rightarrow> nvic_regs) \<Rightarrow> sys_world \<Rightarrow> sys_world" where
  "on_systick f w = w\<lparr>sw_m := (sw_m w)\<lparr>m_nvic := f (m_nvic (sw_m w))\<rparr>\<rparr>"

section \<open>Delays\<close>

text \<open>
  \<open>ctrl n v\<close> is what read number \<open>n\<close> of \<^verbatim>\<open>SysTick->CTRL\<close> returns when \<open>v\<close> was written last; \<open>sw_loads\<close>
  records the reload values written.
\<close>

type_synonym systick_hw = "nat \<Rightarrow> u32 \<Rightarrow> u32"

definition counted_down :: "u32 \<Rightarrow> bool" where
  "counted_down temp \<longleftrightarrow> \<not> (temp AND 0x01 \<noteq> 0 \<and> \<not> temp AND push_bit 16 1 \<noteq> 0)"

definition delay_com :: "systick_hw \<Rightarrow> u32 \<Rightarrow> sys_world \<Rightarrow> sys_world option" where
  "delay_com ctrl us w =
     (let w = on_systick (\<lambda>n. n\<lparr>st_LOAD := us\<rparr>) (w\<lparr>sw_loads := sw_loads w @ [us]\<rparr>);
          w = on_systick (\<lambda>n. n\<lparr>st_VAL := 0\<rparr>) w;
          w = on_systick (\<lambda>n. n\<lparr>st_CTRL := st_CTRL n OR SysTick_CTRL_ENABLE_Msk\<rparr>) w
      in case wait_for (\<lambda>i. counted_down (ctrl i (st_CTRL (m_nvic (sw_m w))))) (sw_reads w) of
           None \<Rightarrow> None
         | Some r \<Rightarrow>
             let w = w\<lparr>sw_reads := r\<rparr>;
                 w = on_systick (\<lambda>n. n\<lparr>st_CTRL := st_CTRL n AND NOT SysTick_CTRL_ENABLE_Msk\<rparr>) w
             in Some (on_systick (\<lambda>n. n\<lparr>st_VAL := 0\<rparr>) w))"

definition HySystemDelayUs :: "systick_hw \<Rightarrow> u32 \<Rightarrow> sys_world \<Rightarrow> sys_world option" where
  "HySystemDelayUs ctrl us w = (let fac_us = sw_core w div 1000000 in delay_com ctrl (us * fac_us) w)"

partial_function (option) delay_ms_loop :: "systick_hw \<Rightarrow> u32 \<Rightarrow> u32 \<Rightarrow> sys_world \<Rightarrow> sys_world option" where
  "delay_ms_loop ctrl fac_ms ms w =
     (if ms \<noteq> 0 then
        (if 50 < ms
         then Option.bind (delay_com ctrl (50 * fac_ms) w) (\<lambda>w. delay_ms_loop ctrl fac_ms (ms - 50) w)
         else Option.bind (delay_com ctrl (ms * fac_ms) w) (\<lambda>w. delay_ms_loop ctrl fac_ms 0 w))
      else Some w)"

definition HySystemDelayMs :: "systick_hw \<Rightarrow> u32 \<Rightarrow> sys_world \<Rightarrow> sys_world option" where
  "HySystemDelayMs ctrl ms w = (let fac_ms = sw_core w div 1000 in delay_ms_loop ctrl fac_ms ms w)"

primrec delay_s_loop :: "systick_hw \<Rightarrow> nat \<Rightarrow> sys_world \<Rightarrow> sys_world option" where
  "delay_s_loop ctrl 0 w = Some w"
| "delay_s_loop ctrl (Suc i) w =
     Option.bind (HySystemDelayMs ctrl 500 w) (\<lambda>w. Option.bind (HySystemDelayMs ctrl 500 w) (delay_s_loop ctrl i))"

definition HySystemDelayS :: "systick_hw \<Rightarrow> u32 \<Rightarrow> sys_world \<Rightarrow> sys_world option" where
  "HySystemDelayS ctrl s w = delay_s_loop ctrl (unat s) w"

section \<open>The tick\<close>

definition SysTick_Handler :: "sys_world \<Rightarrow> fault + sys_world" where
  "SysTick_Handler w =
     (case sw_context w of None \<Rightarrow> Inr w
      | Some p \<Rightarrow>
         seq (deref (sw_heap w) p) (\<lambda>config_save.
           case sc_tick_cb config_save of
             None \<Rightarrow> Inr w
           | Some cb \<Rightarrow> Inr (w\<lparr>sw_log := sw_log w @ [(cb, sc_args config_save)]\<rparr>)))"

text \<open>The result of \<^verbatim>\<open>SysTick_Config\<close> is not used.\<close>

definition init_system :: "machine \<Rightarrow> fault + machine" where
  "init_system m =
     (let m = m\<lparr>m_nvic := NVIC_PriorityGroupConfig NVIC_PriorityGroup_2 (m_nvic m)\<rparr>;
          m = m\<lparr>m_nvic := SysTick_CLKSourceConfig SysTick_CLKSource_HCLK (m_nvic m)\<rparr>;
          RCC_Clocks = RCC_GetClocksFreq (m_rcc m)
      in seq (on_nvic (\<lambda>n. seq (SysTick_Config (SYSCLK_Freq RCC_Clocks div 1000) n) (\<lambda>(_, n). Inr n)) m) (\<lambda>m.
           on_nvic (NVIC_SetPriority SysTick_IRQn 1) m))"

text \<open>Freeing an address that is not live is a fault; the result is \<^verbatim>\<open>*handle\<close> afterwards.\<close>

definition HySystemDestroy :: "sys_ctx hfree \<Rightarrow> nat option \<Rightarrow> sys_world \<Rightarrow> fault + nat option \<times> sys_world" where
  "HySystemDestroy hfree handle w =
     (case handle of None \<Rightarrow> Inr (None, w)
      | Some p \<Rightarrow> seq (deref (sw_heap w) p) (\<lambda>_. Inr (None, w\<lparr>sw_heap := hfree p (sw_heap w)\<rparr>)))"

definition HySystemCreate ::
    "(nat option \<Rightarrow> nat option) \<Rightarrow> malloc \<Rightarrow> sys_ctx hfree \<Rightarrow> sys_ctx option \<Rightarrow> sys_world
      \<Rightarrow> fault + nat option \<times> sys_world" where
  "HySystemCreate brk malloc hfree system_config w =
     (case system_config of None \<Rightarrow> Inr (None, w)
      | Some cfg \<Rightarrow>
         (case malloc (dom (sw_heap w)) of
            None \<Rightarrow>
              seq (HySystemDestroy hfree (brk (sw_context w)) w) (\<lambda>(c, w). Inr (None, w\<lparr>sw_context := c\<rparr>))
          | Some p \<Rightarrow>
              let w = w\<lparr>sw_context := Some p\<rparr>;
                  w = w\<lparr>sw_heap := (sw_heap w)(p \<mapsto> cfg)\<rparr>
              in seq (init_system (sw_m w)) (\<lambda>m. Inr (Some p, w\<lparr>sw_m := m\<rparr>))))"

section \<open>Lemmas on the tick\<close>

lemma RCC_GET_PLLMULT_ge: "1 \<le> unat (RCC_GET_PLLMULT m)"
proof -
  define x where "x = drop_bit 18 (m AND RCC_CFG_PLLMULT_LB_MASK)
      OR drop_bit (29 - 4) (m AND RCC_CFG_PLLMULT_HB_MASK)"
  have "unat x < 2 ^ 6" unfolding x_def
    by (rule unat_or_less)
      (use unat_drop_and_le [of 18 m RCC_CFG_PLLMULT_LB_MASK] unat_drop_and_le [of 25 m RCC_CFG_PLLMULT_HB_MASK] in simp_all)
  then have "1 \<le> unat (x + 1)" "1 \<le> unat (x + 2)" by (simp_all add: unat_word_ariths)
  then show ?thesis unfolding RCC_GET_PLLMULT_def x_def [symmetric] by simp
qed

lemma sysclk_freq_ge: "1600000 \<le> unat (sysclk_freq r)"
proof -
  define m where "m = RCC_GET_PLLMULT (rcc_CFG r AND RCC_CFG_PLLMULT)"
  define d where "d = HSE_VALUE div (drop_bit 12 (rcc_MISC2 r AND RCC_HSE_DIV_MASK) + 2)"
  have m: "unat m \<le> 64" "1 \<le> unat m" by (simp_all add: m_def RCC_GET_PLLMULT_le RCC_GET_PLLMULT_ge [unfolded One_nat_def])
  have le3: "unat (drop_bit 12 (rcc_MISC2 r AND RCC_HSE_DIV_MASK)) \<le> 3" by (rule prediv_le)
  have "unat d = 8000000 div (unat (drop_bit 12 (rcc_MISC2 r AND RCC_HSE_DIV_MASK)) + 2)"
    unfolding d_def using le3 by (simp add: unat_div unat_word_ariths)
  moreover have "8000000 div 5 \<le> 8000000 div (unat (drop_bit 12 (rcc_MISC2 r AND RCC_HSE_DIV_MASK)) + 2)"
    by (rule div_le_mono2) (use le3 in simp_all)
  ultimately have d: "unat d \<le> 8000000" "1600000 \<le> unat d" by simp_all
  have prod: "1600000 \<le> unat (f * m)" if "unat f \<le> 8000000" "1600000 \<le> unat f" for f :: u32
  proof -
    have "unat f * unat m \<le> 8000000 * 64" using that(1) m(1) by (rule mult_le_mono)
    then have "unat (f * m) = unat f * unat m" by (simp add: unat_word_ariths)
    moreover have "1600000 * 1 \<le> unat f * unat m" using that(2) m(2) by (rule mult_le_mono)
    ultimately show ?thesis by simp
  qed
  show ?thesis
    unfolding sysclk_freq_def Let_def m_def [symmetric] d_def [symmetric]
    using prod [OF d] prod [of HSE_VALUE] prod [of "drop_bit 1 HSI_VALUE"] by simp
qed

text \<open>The reload value of the tick: at least 1600, at most 512000, so it fits the 24-bit counter.\<close>

lemma tick_reload:
  fixes r :: rcc_regs
  defines "t \<equiv> SYSCLK_Freq (RCC_GetClocksFreq r) div 1000"
  shows "\<not> SysTick_LOAD_RELOAD_Msk < t - 1" and "unat (t - 1) + 1 = unat (sysclk_freq r) div 1000"
proof -
  have t: "unat t = unat (sysclk_freq r) div 1000"
    by (simp add: t_def unat_div RCC_GetClocksFreq_def Let_def)
  have b: "1600 \<le> unat t" "unat t \<le> 512000"
    using sysclk_freq_ge [of r] sysclk_freq_le [of r] unfolding t by simp_all
  then have "1 \<le> t" by (simp add: word_le_nat_alt)
  then have m: "unat (t - 1) = unat t - 1" by (simp add: unat_sub)
  show "unat (t - 1) + 1 = unat (sysclk_freq r) div 1000" using b(1) m t by simp
  have "unat (t - 1) \<le> unat SysTick_LOAD_RELOAD_Msk" using b(2) m by simp
  then show "\<not> SysTick_LOAD_RELOAD_Msk < t - 1" by (simp add: word_less_nat_alt)
qed

text \<open>The whole effect of \<^verbatim>\<open>_init_system\<close> on the interrupt controller and the tick.\<close>

definition tick_nvic :: "rcc_regs \<Rightarrow> nvic_regs \<Rightarrow> nvic_regs" where
  "tick_nvic r n = n\<lparr>nv_AIRCR := AIRCR_VECTKEY_MASK OR NVIC_PriorityGroup_2,
     st_LOAD := SYSCLK_Freq (RCC_GetClocksFreq r) div 1000 - 1, st_VAL := 0, st_CTRL := 0x7,
     nv_SHP := (nv_SHP n)[11 := 0x10]\<rparr>"

lemma init_system_run:
  assumes "nvic_wf (m_nvic m)"
  shows "init_system m = Inr (m\<lparr>m_nvic := tick_nvic (m_rcc m) (m_nvic m)\<rparr>)"
  using assms tick_reload(1) [of "m_rcc m"]
  by (simp add: init_system_def Let_def on_nvic_def SysTick_Config_def NVIC_SetPriority_def nvic_wf_def
      NVIC_PriorityGroupConfig_def SysTick_CLKSourceConfig_def tick_nvic_def)

section \<open>Lemmas on the delays\<close>

text \<open>
  The documented behaviour of the counter: once it is enabled, some later read of the control register
  finds the count flag.
\<close>

definition counts_down :: "systick_hw \<Rightarrow> bool" where
  "counts_down ctrl \<longleftrightarrow> (\<forall>n v. v AND 0x1 \<noteq> 0 \<longrightarrow> (\<exists>k \<ge> n. counted_down (ctrl k v)))"

definition delay_done :: "u32 list \<Rightarrow> sys_world \<Rightarrow> sys_world \<Rightarrow> bool" where
  "delay_done ls w w' \<longleftrightarrow> sw_loads w' = sw_loads w @ ls \<and> sw_core w' = sw_core w
     \<and> sw_context w' = sw_context w \<and> sw_heap w' = sw_heap w \<and> sw_log w' = sw_log w
     \<and> m_rcc (sw_m w') = m_rcc (sw_m w)
     \<and> (if ls = [] then m_nvic (sw_m w') = m_nvic (sw_m w)
        else st_CTRL (m_nvic (sw_m w')) AND SysTick_CTRL_ENABLE_Msk = 0
         \<and> st_LOAD (m_nvic (sw_m w')) = last ls)"

lemma delay_done_trans:
  "delay_done ls w w1 \<Longrightarrow> delay_done ks w1 w2 \<Longrightarrow> delay_done (ls @ ks) w w2"
  by (cases "ks = []") (auto simp: delay_done_def)

lemma delay_com_run:
  assumes "counts_down ctrl"
  shows "\<exists>w'. delay_com ctrl us w = Some w' \<and> delay_done [us] w w'"
proof -
  let ?c = "st_CTRL (m_nvic (sw_m w)) OR SysTick_CTRL_ENABLE_Msk"
  have "?c AND 1 \<noteq> 0" by (simp add: or_and_mask)
  then obtain k where "sw_reads w \<le> k" "counted_down (ctrl k ?c)"
    using assms unfolding counts_down_def by blast
  then obtain r where r: "wait_for (\<lambda>i. counted_down (ctrl i ?c)) (sw_reads w) = Some r"
    using wait_for_some [of "\<lambda>i. counted_down (ctrl i ?c)" k "sw_reads w"] by auto
  have "(x AND - 2) AND 1 = 0" for x :: u32 using clear_and_mask [of x 1] by simp
  then show ?thesis using r by (simp add: delay_com_def Let_def on_systick_def delay_done_def)
qed

fun ms_chunks :: "u32 \<Rightarrow> nat \<Rightarrow> u32 list" where
  "ms_chunks fac ms = (if ms = 0 then [] else if 50 < ms then 50 * fac # ms_chunks fac (ms - 50)
     else [of_nat ms * fac])"

declare ms_chunks.simps [simp del]

lemma delay_ms_loop_run:
  assumes "counts_down ctrl"
  shows "\<exists>w'. delay_ms_loop ctrl fac ms w = Some w' \<and> delay_done (ms_chunks fac (unat ms)) w w'"
proof (induction "unat ms" arbitrary: ms w rule: less_induct)
  case less
  have z: "delay_ms_loop ctrl fac 0 w' = Some w'" for w'
    by (subst delay_ms_loop.simps) simp
  show ?case
  proof (cases "ms = 0")
    case True
    then show ?thesis using z by (simp add: ms_chunks.simps delay_done_def)
  next
    case nz: False
    then have pos: "0 < unat ms" by (simp add: unat_gt_0)
    show ?thesis
    proof (cases "50 < ms")
      case True
      then have big: "50 < unat ms" by (simp add: word_less_nat_alt)
      have sub: "unat (ms - 50) = unat ms - 50" using big by (simp add: unat_sub word_le_nat_alt)
      obtain w1 where w1: "delay_com ctrl (50 * fac) w = Some w1" "delay_done [50 * fac] w w1"
        using delay_com_run [OF assms] by blast
      obtain w2 where w2: "delay_ms_loop ctrl fac (ms - 50) w1 = Some w2"
        "delay_done (ms_chunks fac (unat (ms - 50))) w1 w2"
        using less [of "ms - 50" w1] big sub by auto
      have "delay_ms_loop ctrl fac ms w = Some w2"
        by (subst delay_ms_loop.simps) (simp add: nz True w1(1) w2(1))
      moreover have "ms_chunks fac (unat ms) = [50 * fac] @ ms_chunks fac (unat (ms - 50))"
        using big sub by (subst ms_chunks.simps) simp
      ultimately show ?thesis using delay_done_trans [OF w1(2) w2(2)] by simp
    next
      case False
      then have "\<not> 50 < unat ms" by (simp add: word_less_nat_alt)
      then have c: "ms_chunks fac (unat ms) = [ms * fac]" using pos by (subst ms_chunks.simps) simp
      obtain w1 where w1: "delay_com ctrl (ms * fac) w = Some w1" "delay_done [ms * fac] w w1"
        using delay_com_run [OF assms] by blast
      have "delay_ms_loop ctrl fac ms w = Some w1"
        by (subst delay_ms_loop.simps) (simp add: nz False w1(1) z)
      then show ?thesis using w1(2) c by simp
    qed
  qed
qed

lemma chunk_bound:
  assumes "k \<le> 50" and "50 * unat fac < 2 ^ 32"
  shows "unat (of_nat k * fac :: u32) = k * unat fac"
proof -
  have "k * unat fac \<le> 50 * unat fac" using assms(1) by simp
  then have "k * unat fac < 2 ^ 32" using assms(2) by linarith
  then have "k * unat fac mod 2 ^ 32 = k * unat fac" by (rule mod_less)
  then show ?thesis using assms(1) by (simp add: unat_word_ariths unat_of_nat_small)
qed

lemma ms_chunks_total:
  assumes "50 * unat fac < 2 ^ 32"
  shows "sum_list (map unat (ms_chunks fac ms)) = ms * unat fac
    \<and> (\<forall>l \<in> set (ms_chunks fac ms). unat l \<le> 50 * unat fac)"
proof (induction ms rule: less_induct)
  case (less ms)
  have c50: "unat (50 * fac) = 50 * unat fac" using chunk_bound [of 50 fac] assms by simp
  show ?case
  proof (cases "50 < ms")
    case True
    then have "ms_chunks fac ms = 50 * fac # ms_chunks fac (ms - 50)" by (subst ms_chunks.simps) simp
    moreover have "50 * unat fac + (ms - 50) * unat fac = ms * unat fac"
      using True by (simp flip: add_mult_distrib)
    ultimately show ?thesis using less [of "ms - 50"] True c50 by simp
  next
    case False
    then have "ms_chunks fac ms = (if ms = 0 then [] else [of_nat ms * fac])"
      by (subst ms_chunks.simps) simp
    then show ?thesis using False chunk_bound [of ms fac] assms by simp
  qed
qed

section \<open>Properties\<close>

definition sys_start :: "machine \<Rightarrow> u32 \<Rightarrow> sys_world" where
  "sys_start m core = \<lparr>sw_m = m, sw_core = core, sw_context = None, sw_heap = Map.empty, sw_log = [],
     sw_reads = 0, sw_loads = []\<rparr>"

text \<open>A counter that sets the count flag at every third read.\<close>

definition third_read :: systick_hw where
  "third_read n v = (if n mod 3 = 2 then v OR 0x10000 else v)"

lemma third_read_counts: "counts_down third_read"
proof -
  have "\<exists>k\<ge>n. k mod 3 = 2" for n :: nat
    by (rule exI [of _ "3 * n + 2"]) presburger
  moreover have "(v OR 0x10000) AND 0x10000 \<noteq> 0" for v :: u32 by (simp add: or_and_mask)
  ultimately show ?thesis
    unfolding counts_down_def counted_down_def third_read_def by (auto simp: if_distrib)
qed

text \<open>
  \<^verbatim>\<open>HySystemCreate\<close> starts the tick in every state of the clock registers: it succeeds, registers
  the callback, selects priority group 2, gives the tick priority 1, and starts the counter from the
  core clock with its interrupt on and a period of exactly one thousandth of the reported system
  clock (between 1600 and 512000 cycles), which always fits the 24-bit reload register, so the
  failure result of \<^verbatim>\<open>SysTick_Config\<close> that the code ignores cannot occur.
\<close>

lemma system_create_tick:
  assumes "malloc (dom (sw_heap w)) = Some p" and "nvic_wf (m_nvic (sw_m w))"
  shows "\<exists>w'. HySystemCreate brk malloc hfree (Some cfg) w = Inr (Some p, w')
    \<and> sw_context w' = Some p \<and> sw_heap w' p = Some cfg
    \<and> (let n = m_nvic (sw_m w') in
        nv_AIRCR n AND 0x700 = NVIC_PriorityGroup_2 \<and> nv_SHP n ! 11 = 0x10 \<and> st_CTRL n = 0x7
      \<and> unat (st_LOAD n) + 1 = unat (SYSCLK_Freq (RCC_GetClocksFreq (m_rcc (sw_m w)))) div 1000
      \<and> unat (st_LOAD n) < 2 ^ 24)"
proof -
  have "\<not> 0xFFFFFF < unat (SYSCLK_Freq (RCC_GetClocksFreq (m_rcc (sw_m w))) div 1000 - 1)"
    using tick_reload(1) [of "m_rcc (sw_m w)"] by (simp add: word_less_nat_alt)
  moreover have "SYSCLK_Freq (RCC_GetClocksFreq r) = sysclk_freq r" for r
    by (simp add: RCC_GetClocksFreq_def Let_def)
  ultimately show ?thesis using assms tick_reload(2) [of "m_rcc (sw_m w)"]
    by (simp add: HySystemCreate_def Let_def init_system_run tick_nvic_def nvic_wf_def)
qed

lemma system_create_tick_witness:
  "\<exists>w'. HySystemCreate (\<lambda>c. c) first_fit plain_free (Some \<lparr>sc_tick_cb = Some 7, sc_args = 9\<rparr>)
      (sys_start chip_after_reset 8000000) = Inr (Some 1, w')
    \<and> unat (st_LOAD (m_nvic (sw_m w'))) = 7999"
proof -
  have c: "SYSCLK_Freq (RCC_GetClocksFreq rcc_after_reset) = 8000000" by code_simp
  show ?thesis
    using system_create_tick [of first_fit "sys_start chip_after_reset 8000000" 1 "\<lambda>c. c" plain_free
        "\<lparr>sc_tick_cb = Some 7, sc_args = 9\<rparr>"] chip_nvic
    by (auto simp: sys_start_def first_fit_empty Let_def chip_after_reset_def c)
qed

text \<open>
  What happens between the creation and the destruction: ticks, delays, and any change of the registers and of the
  core clock; the number counts the ticks.
\<close>

inductive sys_run :: "systick_hw \<Rightarrow> sys_world \<Rightarrow> nat \<Rightarrow> sys_world \<Rightarrow> bool" for ctrl w where
  start: "sys_run ctrl w 0 w"
| tick: "sys_run ctrl w n w1 \<Longrightarrow> SysTick_Handler w1 = Inr w2 \<Longrightarrow> sys_run ctrl w (Suc n) w2"
| delay_us: "sys_run ctrl w n w1 \<Longrightarrow> HySystemDelayUs ctrl us w1 = Some w2 \<Longrightarrow> sys_run ctrl w n w2"
| delay_ms: "sys_run ctrl w n w1 \<Longrightarrow> HySystemDelayMs ctrl ms w1 = Some w2 \<Longrightarrow> sys_run ctrl w n w2"
| delay_s: "sys_run ctrl w n w1 \<Longrightarrow> HySystemDelayS ctrl sec w1 = Some w2 \<Longrightarrow> sys_run ctrl w n w2"
| hardware: "sys_run ctrl w n w1 \<Longrightarrow> sys_run ctrl w n (w1\<lparr>sw_m := m, sw_core := core\<rparr>)"

definition same_module :: "sys_world \<Rightarrow> sys_world \<Rightarrow> bool" where
  "same_module w w' \<longleftrightarrow> sw_context w' = sw_context w \<and> sw_heap w' = sw_heap w \<and> sw_log w' = sw_log w"

lemma delay_done_module: "delay_done ls w w' \<Longrightarrow> same_module w w'"
  by (simp add: delay_done_def same_module_def)

lemma delay_ms_module: "counts_down ctrl \<Longrightarrow> HySystemDelayMs ctrl ms w = Some w' \<Longrightarrow> same_module w w'"
  using delay_ms_loop_run [of ctrl "sw_core w div 1000" ms w] delay_done_module by (auto simp: HySystemDelayMs_def Let_def)

lemma delay_us_module: "counts_down ctrl \<Longrightarrow> HySystemDelayUs ctrl us w = Some w' \<Longrightarrow> same_module w w'"
  using delay_com_run [of ctrl "us * (sw_core w div 1000000)" w] delay_done_module by (auto simp: HySystemDelayUs_def Let_def)

lemma delay_s_module:
  assumes "counts_down ctrl"
  shows "HySystemDelayS ctrl s w = Some w' \<Longrightarrow> same_module w w'"
proof -
  have "same_module w w'" if "delay_s_loop ctrl i w = Some w'" for i
    using that
  proof (induction i arbitrary: w)
    case (Suc i)
    then obtain w1 w2 where "HySystemDelayMs ctrl 500 w = Some w1" "HySystemDelayMs ctrl 500 w1 = Some w2" "same_module w2 w'"
      by (auto simp: bind_eq_Some_conv)
    then show ?case using delay_ms_module [OF assms] by (fastforce simp: same_module_def)
  qed (simp add: same_module_def)
  then show "HySystemDelayS ctrl s w = Some w' \<Longrightarrow> same_module w w'" by (simp add: HySystemDelayS_def)
qed

lemma sys_run_log:
  assumes "counts_down ctrl" "sw_context w = Some p" "sw_heap w p = Some \<lparr>sc_tick_cb = Some cb, sc_args = args\<rparr>"
    "sys_run ctrl w n w'"
  shows "sw_context w' = Some p \<and> sw_heap w' = sw_heap w \<and> sw_log w' = sw_log w @ replicate n (cb, args)"
  using assms(4)
proof (induction rule: sys_run.induct)
  case (tick n w1 w2)
  then show ?case using assms(3) by (auto simp: SysTick_Handler_def deref_def replicate_append_same)
next
  case (delay_us n w1 us w2)
  then show ?case using delay_us_module [OF assms(1)] by (simp add: same_module_def)
next
  case (delay_ms n w1 ms w2)
  then show ?case using delay_ms_module [OF assms(1)] by (simp add: same_module_def)
next
  case (delay_s n w1 sec w2)
  then show ?case using delay_s_module [OF assms(1)] by (simp add: same_module_def)
qed (simp_all add: assms(2))

text \<open>
  C40.  Every tick reaches the callback until the handle is destroyed, and the first tick after that uses freed memory: from the
  creation, after any sequence of ticks, delays and changes of the hardware the callback has run once for each
  tick and the next tick runs it again; but \<^verbatim>\<open>HySystemDestroy\<close>, which clears the caller's handle and not the static pointer
  the handler reads, leaves the tick's registers as they are, and the next tick reads the freed context.
\<close>

theorem system_destroy_dangling:
  assumes "malloc (dom (sw_heap w)) = Some p" and "nvic_wf (m_nvic (sw_m w))" and "hfree_ok hfree" and "counts_down ctrl"
  shows "\<exists>w1. HySystemCreate brk malloc hfree (Some \<lparr>sc_tick_cb = Some cb, sc_args = args\<rparr>) w = Inr (Some p, w1)
    \<and> sw_log w1 = sw_log w \<and> st_CTRL (m_nvic (sw_m w1)) = 0x7
    \<and> (\<forall>n w2. sys_run ctrl w1 n w2 \<longrightarrow>
         sw_log w2 = sw_log w @ replicate n (cb, args)
       \<and> SysTick_Handler w2 = Inr (w2\<lparr>sw_log := sw_log w2 @ [(cb, args)]\<rparr>)
       \<and> (\<exists>w3. HySystemDestroy hfree (Some p) w2 = Inr (None, w3) \<and> m_nvic (sw_m w3) = m_nvic (sw_m w2)
          \<and> SysTick_Handler w3 = Inl DanglingPtr))"
proof -
  obtain w1 where w1: "HySystemCreate brk malloc hfree (Some \<lparr>sc_tick_cb = Some cb, sc_args = args\<rparr>) w = Inr (Some p, w1)"
    "sw_log w1 = sw_log w" "st_CTRL (m_nvic (sw_m w1)) = 0x7" "sw_context w1 = Some p"
    "sw_heap w1 p = Some \<lparr>sc_tick_cb = Some cb, sc_args = args\<rparr>"
    using assms(1,2) by (simp add: HySystemCreate_def Let_def init_system_run tick_nvic_def)
  have "sw_log w2 = sw_log w @ replicate n (cb, args)
       \<and> SysTick_Handler w2 = Inr (w2\<lparr>sw_log := sw_log w2 @ [(cb, args)]\<rparr>)
       \<and> (\<exists>w3. HySystemDestroy hfree (Some p) w2 = Inr (None, w3) \<and> m_nvic (sw_m w3) = m_nvic (sw_m w2)
          \<and> SysTick_Handler w3 = Inl DanglingPtr)" if "sys_run ctrl w1 n w2" for n w2
    using sys_run_log [OF assms(4) w1(4,5) that] w1(2,5) assms(3)
    by (simp add: SysTick_Handler_def HySystemDestroy_def hfree_ok_def deref_def)
  then show ?thesis using w1(1-3) by blast
qed

theorem system_destroy_dangling_witness:
  "\<exists>w1 w2 w3 w4. HySystemCreate (\<lambda>c. c) first_fit plain_free (Some \<lparr>sc_tick_cb = Some 7, sc_args = 9\<rparr>)
      (sys_start chip_after_reset 8000000) = Inr (Some 1, w1)
    \<and> SysTick_Handler w1 = Inr w2 \<and> HySystemDelayMs third_read 3 w2 = Some w3 \<and> sw_log w3 = [(7, 9)]
    \<and> HySystemDestroy plain_free (Some 1) w3 = Inr (None, w4) \<and> SysTick_Handler w4 = Inl DanglingPtr"
proof -
  let ?w = "sys_start chip_after_reset 8000000"
  have "first_fit (dom (sw_heap ?w)) = Some 1" "nvic_wf (m_nvic (sw_m ?w))" "sw_log ?w = []"
    using chip_nvic by (simp_all add: sys_start_def first_fit_empty)
  note c = this
  obtain w1 where w1: "HySystemCreate (\<lambda>c. c) first_fit plain_free (Some \<lparr>sc_tick_cb = Some 7, sc_args = 9\<rparr>) ?w = Inr (Some 1, w1)"
    and run: "\<forall>n w2. sys_run third_read w1 n w2 \<longrightarrow> sw_log w2 = sw_log ?w @ replicate n (7, 9)
       \<and> SysTick_Handler w2 = Inr (w2\<lparr>sw_log := sw_log w2 @ [(7, 9)]\<rparr>)
       \<and> (\<exists>w3. HySystemDestroy plain_free (Some 1) w2 = Inr (None, w3) \<and> m_nvic (sw_m w3) = m_nvic (sw_m w2)
          \<and> SysTick_Handler w3 = Inl DanglingPtr)"
    using system_destroy_dangling [where malloc = first_fit and w = ?w and brk = "\<lambda>c. c" and cb = 7 and args = 9, OF c(1,2) plain_free_ok third_read_counts] by blast
  obtain w2 where w2: "SysTick_Handler w1 = Inr w2" using run sys_run.start by blast
  obtain w3 where w3: "HySystemDelayMs third_read 3 w2 = Some w3"
    using delay_ms_loop_run [OF third_read_counts, of "sw_core w2 div 1000" 3 w2] by (auto simp: HySystemDelayMs_def Let_def)
  have "sys_run third_read w1 (Suc 0) w3" using sys_run.delay_ms [OF sys_run.tick [OF sys_run.start w2] w3] by simp
  then show ?thesis using run w1 w2 w3 c(3) by fastforce
qed

text \<open>
  C39.  \<^verbatim>\<open>HySystemDelayMs\<close> waits for the time it is asked for: for every number of milliseconds and every
  core clock it returns, the reload values it writes add up to \<open>ms\<close> thousandths of the core clock
  without any wrap-around, and none exceeds fifty of them, so up to a core clock of 335 MHz each fits the
  24-bit counter.
\<close>

theorem system_delay_ms:
  assumes "counts_down ctrl"
  shows "\<exists>w' ls. HySystemDelayMs ctrl ms w = Some w' \<and> sw_loads w' = sw_loads w @ ls
    \<and> sum_list (map unat ls) = unat ms * (unat (sw_core w) div 1000)
    \<and> (\<forall>l \<in> set ls. unat l \<le> 50 * (unat (sw_core w) div 1000))
    \<and> (unat (sw_core w) \<le> 335000000 \<longrightarrow> (\<forall>l \<in> set ls. unat l < 2 ^ 24))"
proof -
  let ?f = "sw_core w div 1000" and ?ls = "ms_chunks (sw_core w div 1000) (unat ms)"
  have f: "unat ?f = unat (sw_core w) div 1000" by (simp add: unat_div)
  have "unat (sw_core w) < 2 ^ 32" using unsigned_less [of "sw_core w", where 'a=nat] by simp
  then have "50 * unat ?f < 2 ^ 32" unfolding f by linarith
  then have t: "sum_list (map unat ?ls) = unat ms * unat ?f" "\<forall>l \<in> set ?ls. unat l \<le> 50 * unat ?f"
    using ms_chunks_total by blast+
  obtain w' where "HySystemDelayMs ctrl ms w = Some w'" "delay_done ?ls w w'"
    using delay_ms_loop_run [OF assms, of ?f ms w] by (auto simp: HySystemDelayMs_def Let_def)
  moreover have "unat l < 2 ^ 24" if "unat (sw_core w) \<le> 335000000" "l \<in> set ?ls" for l
  proof -
    have "unat (sw_core w) div 1000 \<le> 335000000 div 1000" using that(1) by (rule div_le_mono)
    then show ?thesis using t(2) that(2) unfolding f by fastforce
  qed
  ultimately show ?thesis using t unfolding f
    by (intro exI [of _ w'] exI [of _ ?ls]) (simp add: delay_done_def)
qed

theorem system_delay_ms_witness:
  "\<exists>w'. HySystemDelayMs third_read 120 (sys_start chip_after_reset 200000000) = Some w'
    \<and> sum_list (map unat (sw_loads w')) = 24000000"
  using system_delay_ms [OF third_read_counts, of 120 "sys_start chip_after_reset 200000000"]
  by (auto simp: sys_start_def)

text \<open>
  \<^verbatim>\<open>HySystemDelayUs\<close> has no such bound: at 200 MHz it writes \<open>200 * us\<close> in one go, and beyond
  83886 microseconds that no longer fits the 24 bits of the reload register.
\<close>

lemma system_delay_us:
  assumes "counts_down ctrl" and "sw_core w = 200000000" and "unat us \<le> 21474836"
  shows "\<exists>w' l. HySystemDelayUs ctrl us w = Some w' \<and> sw_loads w' = sw_loads w @ [l]
    \<and> unat l = 200 * unat us \<and> (unat SysTick_LOAD_RELOAD_Msk < unat l) = (83886 < unat us)"
proof -
  have "(200000000 :: u32) div 1000000 = 200" by simp
  then have d: "HySystemDelayUs ctrl us w = delay_com ctrl (us * 200) w"
    using assms(2) by (simp add: HySystemDelayUs_def)
  have "unat us * 200 < 2 ^ 32" using assms(3) by simp
  then have "unat us * 200 mod 2 ^ 32 = unat us * 200" by (rule mod_less)
  then have l: "unat (us * 200) = 200 * unat us" by (simp add: unat_word_ariths)
  obtain w' where "delay_com ctrl (us * 200) w = Some w'" "delay_done [us * 200] w w'"
    using delay_com_run [OF assms(1)] by blast
  then show ?thesis unfolding d using l
    by (intro exI [of _ w'] exI [of _ "us * 200"]) (auto simp: delay_done_def)
qed

lemma system_delay_us_witness:
  "\<exists>w' l. HySystemDelayUs third_read 100000 (sys_start chip_after_reset 200000000) = Some w'
    \<and> sw_loads w' = [l] \<and> 2 ^ 24 \<le> unat l"
  using system_delay_us [OF third_read_counts, of "sys_start chip_after_reset 200000000" 100000]
  by (auto simp: sys_start_def)

text \<open>
  A delay stops the system tick: after \<^verbatim>\<open>HySystemCreate\<close>, a \<^verbatim>\<open>HySystemDelayMs\<close> of at least one
  millisecond returns with the counter disabled and its reload value overwritten by the last part of
  the delay, so the tick callback is no longer called.
\<close>

lemma system_delay_stops_tick:
  assumes "counts_down ctrl" and "malloc (dom (sw_heap w)) = Some p" and "nvic_wf (m_nvic (sw_m w))"
    and "ms \<noteq> 0"
  shows "\<exists>w1 w2. HySystemCreate brk malloc hfree (Some cfg) w = Inr (Some p, w1)
    \<and> st_CTRL (m_nvic (sw_m w1)) AND SysTick_CTRL_ENABLE_Msk \<noteq> 0
    \<and> HySystemDelayMs ctrl ms w1 = Some w2
    \<and> st_CTRL (m_nvic (sw_m w2)) AND SysTick_CTRL_ENABLE_Msk = 0
    \<and> unat (st_LOAD (m_nvic (sw_m w2))) \<le> 50 * (unat (sw_core w) div 1000)"
proof -
  obtain w1 where w1: "HySystemCreate brk malloc hfree (Some cfg) w = Inr (Some p, w1)"
    "st_CTRL (m_nvic (sw_m w1)) = 7" "sw_core w1 = sw_core w"
    using assms(2,3) by (simp add: HySystemCreate_def Let_def init_system_run tick_nvic_def)
  let ?f = "sw_core w div 1000" and ?ls = "ms_chunks (sw_core w div 1000) (unat ms)"
  have f: "unat ?f = unat (sw_core w) div 1000" by (simp add: unat_div)
  have "unat (sw_core w) < 2 ^ 32" using unsigned_less [of "sw_core w", where 'a=nat] by simp
  then have "50 * unat ?f < 2 ^ 32" unfolding f by linarith
  then have b: "\<forall>l \<in> set ?ls. unat l \<le> 50 * unat ?f" using ms_chunks_total by blast
  have ne: "?ls \<noteq> []" using assms(4) by (subst ms_chunks.simps) (simp add: unat_eq_0)
  obtain w2 where w2: "HySystemDelayMs ctrl ms w1 = Some w2" "delay_done ?ls w1 w2"
    using delay_ms_loop_run [OF assms(1), of ?f ms w1] w1(3) by (auto simp: HySystemDelayMs_def Let_def)
  have "st_LOAD (m_nvic (sw_m w2)) \<in> set ?ls" using w2(2) ne by (simp add: delay_done_def)
  then have "unat (st_LOAD (m_nvic (sw_m w2))) \<le> 50 * (unat (sw_core w) div 1000)" using b unfolding f by blast
  moreover have "st_CTRL (m_nvic (sw_m w2)) AND SysTick_CTRL_ENABLE_Msk = 0"
    using w2(2) ne by (simp add: delay_done_def)
  moreover have "st_CTRL (m_nvic (sw_m w1)) AND SysTick_CTRL_ENABLE_Msk \<noteq> 0" using w1(2) by simp
  ultimately show ?thesis using w1(1) w2(1) by blast
qed

lemma system_delay_stops_tick_witness:
  "\<exists>w1 w2. HySystemCreate (\<lambda>c. c) first_fit plain_free (Some \<lparr>sc_tick_cb = Some 7, sc_args = 9\<rparr>)
      (sys_start chip_after_reset 8000000) = Inr (Some 1, w1)
    \<and> HySystemDelayMs third_read 3 w1 = Some w2
    \<and> st_CTRL (m_nvic (sw_m w2)) AND SysTick_CTRL_ENABLE_Msk = 0"
  using system_delay_stops_tick [OF third_read_counts, of first_fit "sys_start chip_after_reset 8000000" 1 3
      "\<lambda>c. c" plain_free "\<lparr>sc_tick_cb = Some 7, sc_args = 9\<rparr>"] chip_nvic
  by (auto simp: sys_start_def first_fit_empty)

end
