(* ===== verification/TmrChan.thy ===== *)
theory TmrChan
  imports Tmr
begin

text \<open>
  The timer driver, the other part of \<^verbatim>\<open>at32f4xx_tim.c\<close> as built for the AT32F407: output compare and PWM
  channels, input capture, break and dead time, clock sources, triggers and slave modes, DMA requests.  Four channels
  share the registers: a byte of \<^verbatim>\<open>CCM1\<close> or \<^verbatim>\<open>CCM2\<close>, a nibble of \<^verbatim>\<open>CCE\<close>, two bits of \<^verbatim>\<open>CTRL2\<close> and a compare register
  each.  The lemmas show that every function changes the part of its own channel only.
\<close>

section \<open>Init structures\<close>

record TMR_OCInitType =
  TMR_OCMode :: u16
  TMR_OutputState :: u16
  TMR_OutputNState :: u16
  TMR_Pulse :: u32
  TMR_OCPolarity :: u16
  TMR_OCNPolarity :: u16
  TMR_OCIdleState :: u16
  TMR_OCNIdleState :: u16

record TMR_ICInitType =
  TMR_Channel :: u16
  TMR_ICPolarity :: u16
  TMR_ICSelection :: u16
  TMR_ICDIV :: u16
  TMR_ICFilter :: u16

record TMR_BRKDTInitType =
  TMR_OSIMRState :: u16
  TMR_OSIMIState :: u16
  TMR_LOCKgrade :: u16
  TMR_DeadTime :: u16
  TMR_Break :: u16
  TMR_BreakPolarity :: u16
  TMR_AutomaticOutput :: u16

abbreviation (input) TMR_CTRL2_CPC :: u16 where "TMR_CTRL2_CPC \<equiv> 0x0001"
abbreviation (input) TMR_CTRL2_CUSEL :: u16 where "TMR_CTRL2_CUSEL \<equiv> 0x0004"
abbreviation (input) TMR_CTRL2_CDSEL :: u16 where "TMR_CTRL2_CDSEL \<equiv> 0x0008"
abbreviation (input) TMR_CTRL2_MMSEL :: u16 where "TMR_CTRL2_MMSEL \<equiv> 0x0070"
abbreviation (input) TMR_CTRL2_TI1SEL :: u16 where "TMR_CTRL2_TI1SEL \<equiv> 0x0080"
abbreviation (input) TMR_CTRL2_OC1IS :: u16 where "TMR_CTRL2_OC1IS \<equiv> 0x0100"
abbreviation (input) TMR_CTRL2_OC1NIS :: u16 where "TMR_CTRL2_OC1NIS \<equiv> 0x0200"
abbreviation (input) TMR_CTRL2_OC2IS :: u16 where "TMR_CTRL2_OC2IS \<equiv> 0x0400"
abbreviation (input) TMR_CTRL2_OC2NIS :: u16 where "TMR_CTRL2_OC2NIS \<equiv> 0x0800"
abbreviation (input) TMR_CTRL2_OC3IS :: u16 where "TMR_CTRL2_OC3IS \<equiv> 0x1000"
abbreviation (input) TMR_CTRL2_OC3NIS :: u16 where "TMR_CTRL2_OC3NIS \<equiv> 0x2000"
abbreviation (input) TMR_CTRL2_OC4IS :: u16 where "TMR_CTRL2_OC4IS \<equiv> 0x4000"
abbreviation (input) TMR_SMC_SMSEL :: u16 where "TMR_SMC_SMSEL \<equiv> 0x0007"
abbreviation (input) TMR_SMC_TRGSEL :: u16 where "TMR_SMC_TRGSEL \<equiv> 0x0070"
abbreviation (input) TMR_SMC_MSMODE :: u16 where "TMR_SMC_MSMODE \<equiv> 0x0080"
abbreviation (input) TMR_SMC_ECLKEN :: u16 where "TMR_SMC_ECLKEN \<equiv> 0x4000"
abbreviation (input) SMC_ETR_Mask :: u16 where "SMC_ETR_Mask \<equiv> 0x00FF"
abbreviation (input) TMR_CCM1_C1SEL :: u16 where "TMR_CCM1_C1SEL \<equiv> 0x0003"
abbreviation (input) TMR_CCM1_C1SEL_0 :: u16 where "TMR_CCM1_C1SEL_0 \<equiv> 0x0001"
abbreviation (input) TMR_CCM1_OC1FEN :: u16 where "TMR_CCM1_OC1FEN \<equiv> 0x0004"
abbreviation (input) TMR_CCM1_OC1PEN :: u16 where "TMR_CCM1_OC1PEN \<equiv> 0x0008"
abbreviation (input) TMR_CCM1_OC1MODE :: u16 where "TMR_CCM1_OC1MODE \<equiv> 0x0070"
abbreviation (input) TMR_CCM1_C1CDIS :: u16 where "TMR_CCM1_C1CDIS \<equiv> 0x0080"
abbreviation (input) TMR_CCM1_C2SEL :: u16 where "TMR_CCM1_C2SEL \<equiv> 0x0300"
abbreviation (input) TMR_CCM1_C2SEL_0 :: u16 where "TMR_CCM1_C2SEL_0 \<equiv> 0x0100"
abbreviation (input) TMR_CCM1_OC2FNE :: u16 where "TMR_CCM1_OC2FNE \<equiv> 0x0400"
abbreviation (input) TMR_CCM1_OC2PEN :: u16 where "TMR_CCM1_OC2PEN \<equiv> 0x0800"
abbreviation (input) TMR_CCM1_OC2MODE :: u16 where "TMR_CCM1_OC2MODE \<equiv> 0x7000"
abbreviation (input) TMR_CCM1_OC2CDIS :: u16 where "TMR_CCM1_OC2CDIS \<equiv> 0x8000"
abbreviation (input) TMR_CCM1_IC1DIV :: u16 where "TMR_CCM1_IC1DIV \<equiv> 0x000C"
abbreviation (input) TMR_CCM1_IC1F :: u16 where "TMR_CCM1_IC1F \<equiv> 0x00F0"
abbreviation (input) TMR_CCM1_IC2DIV :: u16 where "TMR_CCM1_IC2DIV \<equiv> 0x0C00"
abbreviation (input) TMR_CCM1_IC2DF :: u16 where "TMR_CCM1_IC2DF \<equiv> 0xF000"
abbreviation (input) TMR_CCM2_C3SEL :: u16 where "TMR_CCM2_C3SEL \<equiv> 0x0003"
abbreviation (input) TMR_CCM2_OC3FEN :: u16 where "TMR_CCM2_OC3FEN \<equiv> 0x0004"
abbreviation (input) TMR_CCM2_OC3PEN :: u16 where "TMR_CCM2_OC3PEN \<equiv> 0x0008"
abbreviation (input) TMR_CCM2_OC3MODE :: u16 where "TMR_CCM2_OC3MODE \<equiv> 0x0070"
abbreviation (input) TMR_CCM2_OC3CDIS :: u16 where "TMR_CCM2_OC3CDIS \<equiv> 0x0080"
abbreviation (input) TMR_CCM2_CC4S :: u16 where "TMR_CCM2_CC4S \<equiv> 0x0300"
abbreviation (input) TMR_CCM2_OC4FE :: u16 where "TMR_CCM2_OC4FE \<equiv> 0x0400"
abbreviation (input) TMR_CCM2_OC4PE :: u16 where "TMR_CCM2_OC4PE \<equiv> 0x0800"
abbreviation (input) TMR_CCM2_OC4MODE :: u16 where "TMR_CCM2_OC4MODE \<equiv> 0x7000"
abbreviation (input) TMR_CCM2_OC4CDIS :: u16 where "TMR_CCM2_OC4CDIS \<equiv> 0x8000"
abbreviation (input) TMR_CCM2_IC3DIV :: u16 where "TMR_CCM2_IC3DIV \<equiv> 0x000C"
abbreviation (input) TMR_CCM2_IC3DF :: u16 where "TMR_CCM2_IC3DF \<equiv> 0x00F0"
abbreviation (input) TMR_CCM2_IC4DIV :: u16 where "TMR_CCM2_IC4DIV \<equiv> 0x0C00"
abbreviation (input) TMR_CCM2_IC4DF :: u16 where "TMR_CCM2_IC4DF \<equiv> 0xF000"
abbreviation (input) TMR_CCE_C1EN :: u16 where "TMR_CCE_C1EN \<equiv> 0x0001"
abbreviation (input) TMR_CCE_C1P :: u16 where "TMR_CCE_C1P \<equiv> 0x0002"
abbreviation (input) TMR_CCE_C1NEN :: u16 where "TMR_CCE_C1NEN \<equiv> 0x0004"
abbreviation (input) TMR_CCE_C1NP :: u16 where "TMR_CCE_C1NP \<equiv> 0x0008"
abbreviation (input) TMR_CCE_C2EN :: u16 where "TMR_CCE_C2EN \<equiv> 0x0010"
abbreviation (input) TMR_CCE_C2P :: u16 where "TMR_CCE_C2P \<equiv> 0x0020"
abbreviation (input) TMR_CCE_C2NEN :: u16 where "TMR_CCE_C2NEN \<equiv> 0x0040"
abbreviation (input) TMR_CCE_C2NP :: u16 where "TMR_CCE_C2NP \<equiv> 0x0080"
abbreviation (input) TMR_CCE_C3EN :: u16 where "TMR_CCE_C3EN \<equiv> 0x0100"
abbreviation (input) TMR_CCE_C3P :: u16 where "TMR_CCE_C3P \<equiv> 0x0200"
abbreviation (input) TMR_CCE_C3NEN :: u16 where "TMR_CCE_C3NEN \<equiv> 0x0400"
abbreviation (input) TMR_CCE_C3NP :: u16 where "TMR_CCE_C3NP \<equiv> 0x0800"
abbreviation (input) TMR_CCE_C4EN :: u16 where "TMR_CCE_C4EN \<equiv> 0x1000"
abbreviation (input) TMR_CCE_C4P :: u16 where "TMR_CCE_C4P \<equiv> 0x2000"
abbreviation (input) TMR_CCE_C4NP :: u16 where "TMR_CCE_C4NP \<equiv> 0x8000"
abbreviation (input) TMR_BRKDT_MOEN :: u16 where "TMR_BRKDT_MOEN \<equiv> 0x8000"
abbreviation (input) CCE_CCE_Set :: u16 where "CCE_CCE_Set \<equiv> 0x0001"
abbreviation (input) CCE_CCNE_Set :: u16 where "CCE_CCNE_Set \<equiv> 0x0004"
abbreviation (input) TMR_Channel_1 :: u16 where "TMR_Channel_1 \<equiv> 0x0000"
abbreviation (input) TMR_Channel_2 :: u16 where "TMR_Channel_2 \<equiv> 0x0004"
abbreviation (input) TMR_Channel_3 :: u16 where "TMR_Channel_3 \<equiv> 0x0008"
abbreviation (input) TMR_Channel_4 :: u16 where "TMR_Channel_4 \<equiv> 0x000C"
abbreviation (input) TMR_ICPolarity_Rising :: u16 where "TMR_ICPolarity_Rising \<equiv> 0x0000"
abbreviation (input) TMR_ICPolarity_Falling :: u16 where "TMR_ICPolarity_Falling \<equiv> 0x0002"
abbreviation (input) TMR_ICPolarity_BothEdge :: u16 where "TMR_ICPolarity_BothEdge \<equiv> 0x000A"
abbreviation (input) TMR_ICSelection_DirectTI :: u16 where "TMR_ICSelection_DirectTI \<equiv> 0x0001"
abbreviation (input) TMR_ICSelection_IndirectTI :: u16 where "TMR_ICSelection_IndirectTI \<equiv> 0x0002"
abbreviation (input) TMR_SlaveMode_External1 :: u16 where "TMR_SlaveMode_External1 \<equiv> 0x0007"
abbreviation (input) TMR_TRGSEL_ETRF :: u16 where "TMR_TRGSEL_ETRF \<equiv> 0x0070"
abbreviation (input) TMR_TIxExternalCLK1Source_TI2 :: u16 where "TMR_TIxExternalCLK1Source_TI2 \<equiv> 0x0060"

section \<open>Output compare channels\<close>

text \<open>
  The condition around the complementary half of the first three functions and around the idle state of the last
  is compiled for other devices only; on the AT32F407 the block is unconditional.
\<close>

definition TMR_OC1Init :: "TMR_OCInitType \<Rightarrow> tmr_regs \<Rightarrow> tmr_regs" where
  "TMR_OC1Init init t =
     (let t = t\<lparr>tm_CCE := tm_CCE t AND NOT TMR_CCE_C1EN\<rparr>;
          tmpccer = tm_CCE t;
          tmpcr2 = tm_CTRL2 t;
          tmpccmrx = tm_CCM1 t;
          tmpccmrx = tmpccmrx AND NOT TMR_CCM1_OC1MODE;
          tmpccmrx = tmpccmrx AND NOT TMR_CCM1_C1SEL;
          tmpccmrx = tmpccmrx OR TMR_OCMode init;
          tmpccer = tmpccer AND NOT TMR_CCE_C1P;
          tmpccer = tmpccer OR TMR_OCPolarity init;
          tmpccer = tmpccer OR TMR_OutputState init;
          tmpccer = tmpccer AND NOT TMR_CCE_C1NP;
          tmpccer = tmpccer OR TMR_OCNPolarity init;
          tmpccer = tmpccer AND NOT TMR_CCE_C1NEN;
          tmpccer = tmpccer OR TMR_OutputNState init;
          tmpcr2 = tmpcr2 AND NOT TMR_CTRL2_OC1IS;
          tmpcr2 = tmpcr2 AND NOT TMR_CTRL2_OC1NIS;
          tmpcr2 = tmpcr2 OR TMR_OCIdleState init;
          tmpcr2 = tmpcr2 OR TMR_OCNIdleState init;
          t = t\<lparr>tm_CTRL2 := tmpcr2\<rparr>;
          t = t\<lparr>tm_CCM1 := tmpccmrx\<rparr>;
          t = t\<lparr>tm_CC1 := TMR_Pulse init\<rparr>
      in t\<lparr>tm_CCE := tmpccer\<rparr>)"

definition TMR_OC2Init :: "TMR_OCInitType \<Rightarrow> tmr_regs \<Rightarrow> tmr_regs" where
  "TMR_OC2Init init t =
     (let t = t\<lparr>tm_CCE := tm_CCE t AND NOT TMR_CCE_C2EN\<rparr>;
          tmpccer = tm_CCE t;
          tmpcr2 = tm_CTRL2 t;
          tmpccmrx = tm_CCM1 t;
          tmpccmrx = tmpccmrx AND NOT TMR_CCM1_OC2MODE;
          tmpccmrx = tmpccmrx AND NOT TMR_CCM1_C2SEL;
          tmpccmrx = tmpccmrx OR push_bit 8 (TMR_OCMode init);
          tmpccer = tmpccer AND NOT TMR_CCE_C2P;
          tmpccer = tmpccer OR push_bit 4 (TMR_OCPolarity init);
          tmpccer = tmpccer OR push_bit 4 (TMR_OutputState init);
          tmpccer = tmpccer AND NOT TMR_CCE_C2NP;
          tmpccer = tmpccer OR push_bit 4 (TMR_OCNPolarity init);
          tmpccer = tmpccer AND NOT TMR_CCE_C2NEN;
          tmpccer = tmpccer OR push_bit 4 (TMR_OutputNState init);
          tmpcr2 = tmpcr2 AND NOT TMR_CTRL2_OC2IS;
          tmpcr2 = tmpcr2 AND NOT TMR_CTRL2_OC2NIS;
          tmpcr2 = tmpcr2 OR push_bit 2 (TMR_OCIdleState init);
          tmpcr2 = tmpcr2 OR push_bit 2 (TMR_OCNIdleState init);
          t = t\<lparr>tm_CTRL2 := tmpcr2\<rparr>;
          t = t\<lparr>tm_CCM1 := tmpccmrx\<rparr>;
          t = t\<lparr>tm_CC2 := TMR_Pulse init\<rparr>
      in t\<lparr>tm_CCE := tmpccer\<rparr>)"

definition TMR_OC3Init :: "TMR_OCInitType \<Rightarrow> tmr_regs \<Rightarrow> tmr_regs" where
  "TMR_OC3Init init t =
     (let t = t\<lparr>tm_CCE := tm_CCE t AND NOT TMR_CCE_C3EN\<rparr>;
          tmpccer = tm_CCE t;
          tmpcr2 = tm_CTRL2 t;
          tmpccmrx = tm_CCM2 t;
          tmpccmrx = tmpccmrx AND NOT TMR_CCM2_OC3MODE;
          tmpccmrx = tmpccmrx AND NOT TMR_CCM2_C3SEL;
          tmpccmrx = tmpccmrx OR TMR_OCMode init;
          tmpccer = tmpccer AND NOT TMR_CCE_C3P;
          tmpccer = tmpccer OR push_bit 8 (TMR_OCPolarity init);
          tmpccer = tmpccer OR push_bit 8 (TMR_OutputState init);
          tmpccer = tmpccer AND NOT TMR_CCE_C3NP;
          tmpccer = tmpccer OR push_bit 8 (TMR_OCNPolarity init);
          tmpccer = tmpccer AND NOT TMR_CCE_C3NEN;
          tmpccer = tmpccer OR push_bit 8 (TMR_OutputNState init);
          tmpcr2 = tmpcr2 AND NOT TMR_CTRL2_OC3IS;
          tmpcr2 = tmpcr2 AND NOT TMR_CTRL2_OC3NIS;
          tmpcr2 = tmpcr2 OR push_bit 4 (TMR_OCIdleState init);
          tmpcr2 = tmpcr2 OR push_bit 4 (TMR_OCNIdleState init);
          t = t\<lparr>tm_CTRL2 := tmpcr2\<rparr>;
          t = t\<lparr>tm_CCM2 := tmpccmrx\<rparr>;
          t = t\<lparr>tm_CC3 := TMR_Pulse init\<rparr>
      in t\<lparr>tm_CCE := tmpccer\<rparr>)"

definition TMR_OC4Init :: "TMR_OCInitType \<Rightarrow> tmr_regs \<Rightarrow> tmr_regs" where
  "TMR_OC4Init init t =
     (let t = t\<lparr>tm_CCE := tm_CCE t AND NOT TMR_CCE_C4EN\<rparr>;
          tmpccer = tm_CCE t;
          tmpcr2 = tm_CTRL2 t;
          tmpccmrx = tm_CCM2 t;
          tmpccmrx = tmpccmrx AND NOT TMR_CCM2_OC4MODE;
          tmpccmrx = tmpccmrx AND NOT TMR_CCM2_CC4S;
          tmpccmrx = tmpccmrx OR push_bit 8 (TMR_OCMode init);
          tmpccer = tmpccer AND NOT TMR_CCE_C4P;
          tmpccer = tmpccer OR push_bit 12 (TMR_OCPolarity init);
          tmpccer = tmpccer OR push_bit 12 (TMR_OutputState init);
          tmpcr2 = tmpcr2 AND NOT TMR_CTRL2_OC4IS;
          tmpcr2 = tmpcr2 OR push_bit 6 (TMR_OCIdleState init);
          t = t\<lparr>tm_CTRL2 := tmpcr2\<rparr>;
          t = t\<lparr>tm_CCM2 := tmpccmrx\<rparr>;
          t = t\<lparr>tm_CC4 := TMR_Pulse init\<rparr>
      in t\<lparr>tm_CCE := tmpccer\<rparr>)"

definition TMR_OCStructInit :: TMR_OCInitType where
  "TMR_OCStructInit = \<lparr>TMR_OCMode = 0x0000, TMR_OutputState = 0x0000, TMR_OutputNState = 0x0000, TMR_Pulse = 0x0000,
     TMR_OCPolarity = 0x0000, TMR_OCNPolarity = 0x0000, TMR_OCIdleState = 0x0000, TMR_OCNIdleState = 0x0000\<rparr>"

text \<open>One field of the mode register of a channel: forced level, preload, fast mode, clear input.\<close>

definition TMR_ForcedOC1Config :: "u16 \<Rightarrow> tmr_regs \<Rightarrow> tmr_regs" where
  "TMR_ForcedOC1Config act t =
     (let tmpccmr1 = tm_CCM1 t;
          tmpccmr1 = tmpccmr1 AND NOT TMR_CCM1_OC1MODE;
          tmpccmr1 = tmpccmr1 OR act
      in t\<lparr>tm_CCM1 := tmpccmr1\<rparr>)"

definition TMR_ForcedOC2Config :: "u16 \<Rightarrow> tmr_regs \<Rightarrow> tmr_regs" where
  "TMR_ForcedOC2Config act t =
     (let tmpccmr1 = tm_CCM1 t;
          tmpccmr1 = tmpccmr1 AND NOT TMR_CCM1_OC2MODE;
          tmpccmr1 = tmpccmr1 OR push_bit 8 (act)
      in t\<lparr>tm_CCM1 := tmpccmr1\<rparr>)"

definition TMR_ForcedOC3Config :: "u16 \<Rightarrow> tmr_regs \<Rightarrow> tmr_regs" where
  "TMR_ForcedOC3Config act t =
     (let tmpccmr2 = tm_CCM2 t;
          tmpccmr2 = tmpccmr2 AND NOT TMR_CCM2_OC3MODE;
          tmpccmr2 = tmpccmr2 OR act
      in t\<lparr>tm_CCM2 := tmpccmr2\<rparr>)"

definition TMR_ForcedOC4Config :: "u16 \<Rightarrow> tmr_regs \<Rightarrow> tmr_regs" where
  "TMR_ForcedOC4Config act t =
     (let tmpccmr2 = tm_CCM2 t;
          tmpccmr2 = tmpccmr2 AND NOT TMR_CCM2_OC4MODE;
          tmpccmr2 = tmpccmr2 OR push_bit 8 (act)
      in t\<lparr>tm_CCM2 := tmpccmr2\<rparr>)"

definition TMR_OC1PreloadConfig :: "u16 \<Rightarrow> tmr_regs \<Rightarrow> tmr_regs" where
  "TMR_OC1PreloadConfig pre t =
     (let tmpccmr1 = tm_CCM1 t;
          tmpccmr1 = tmpccmr1 AND NOT TMR_CCM1_OC1PEN;
          tmpccmr1 = tmpccmr1 OR pre
      in t\<lparr>tm_CCM1 := tmpccmr1\<rparr>)"

definition TMR_OC2PreloadConfig :: "u16 \<Rightarrow> tmr_regs \<Rightarrow> tmr_regs" where
  "TMR_OC2PreloadConfig pre t =
     (let tmpccmr1 = tm_CCM1 t;
          tmpccmr1 = tmpccmr1 AND NOT TMR_CCM1_OC2PEN;
          tmpccmr1 = tmpccmr1 OR push_bit 8 (pre)
      in t\<lparr>tm_CCM1 := tmpccmr1\<rparr>)"

definition TMR_OC3PreloadConfig :: "u16 \<Rightarrow> tmr_regs \<Rightarrow> tmr_regs" where
  "TMR_OC3PreloadConfig pre t =
     (let tmpccmr2 = tm_CCM2 t;
          tmpccmr2 = tmpccmr2 AND NOT TMR_CCM2_OC3PEN;
          tmpccmr2 = tmpccmr2 OR pre
      in t\<lparr>tm_CCM2 := tmpccmr2\<rparr>)"

definition TMR_OC4PreloadConfig :: "u16 \<Rightarrow> tmr_regs \<Rightarrow> tmr_regs" where
  "TMR_OC4PreloadConfig pre t =
     (let tmpccmr2 = tm_CCM2 t;
          tmpccmr2 = tmpccmr2 AND NOT TMR_CCM2_OC4PE;
          tmpccmr2 = tmpccmr2 OR push_bit 8 (pre)
      in t\<lparr>tm_CCM2 := tmpccmr2\<rparr>)"

definition TMR_OC1FastConfig :: "u16 \<Rightarrow> tmr_regs \<Rightarrow> tmr_regs" where
  "TMR_OC1FastConfig fast t =
     (let tmpccmr1 = tm_CCM1 t;
          tmpccmr1 = tmpccmr1 AND NOT TMR_CCM1_OC1FEN;
          tmpccmr1 = tmpccmr1 OR fast
      in t\<lparr>tm_CCM1 := tmpccmr1\<rparr>)"

definition TMR_OC2FastConfig :: "u16 \<Rightarrow> tmr_regs \<Rightarrow> tmr_regs" where
  "TMR_OC2FastConfig fast t =
     (let tmpccmr1 = tm_CCM1 t;
          tmpccmr1 = tmpccmr1 AND NOT TMR_CCM1_OC2FNE;
          tmpccmr1 = tmpccmr1 OR push_bit 8 (fast)
      in t\<lparr>tm_CCM1 := tmpccmr1\<rparr>)"

definition TMR_OC3FastConfig :: "u16 \<Rightarrow> tmr_regs \<Rightarrow> tmr_regs" where
  "TMR_OC3FastConfig fast t =
     (let tmpccmr2 = tm_CCM2 t;
          tmpccmr2 = tmpccmr2 AND NOT TMR_CCM2_OC3FEN;
          tmpccmr2 = tmpccmr2 OR fast
      in t\<lparr>tm_CCM2 := tmpccmr2\<rparr>)"

definition TMR_OC4FastConfig :: "u16 \<Rightarrow> tmr_regs \<Rightarrow> tmr_regs" where
  "TMR_OC4FastConfig fast t =
     (let tmpccmr2 = tm_CCM2 t;
          tmpccmr2 = tmpccmr2 AND NOT TMR_CCM2_OC4FE;
          tmpccmr2 = tmpccmr2 OR push_bit 8 (fast)
      in t\<lparr>tm_CCM2 := tmpccmr2\<rparr>)"

definition TMR_ClearOC1Ref :: "u16 \<Rightarrow> tmr_regs \<Rightarrow> tmr_regs" where
  "TMR_ClearOC1Ref clr t =
     (let tmpccmr1 = tm_CCM1 t;
          tmpccmr1 = tmpccmr1 AND NOT TMR_CCM1_C1CDIS;
          tmpccmr1 = tmpccmr1 OR clr
      in t\<lparr>tm_CCM1 := tmpccmr1\<rparr>)"

definition TMR_ClearOC2Ref :: "u16 \<Rightarrow> tmr_regs \<Rightarrow> tmr_regs" where
  "TMR_ClearOC2Ref clr t =
     (let tmpccmr1 = tm_CCM1 t;
          tmpccmr1 = tmpccmr1 AND NOT TMR_CCM1_OC2CDIS;
          tmpccmr1 = tmpccmr1 OR push_bit 8 (clr)
      in t\<lparr>tm_CCM1 := tmpccmr1\<rparr>)"

definition TMR_ClearOC3Ref :: "u16 \<Rightarrow> tmr_regs \<Rightarrow> tmr_regs" where
  "TMR_ClearOC3Ref clr t =
     (let tmpccmr2 = tm_CCM2 t;
          tmpccmr2 = tmpccmr2 AND NOT TMR_CCM2_OC3CDIS;
          tmpccmr2 = tmpccmr2 OR clr
      in t\<lparr>tm_CCM2 := tmpccmr2\<rparr>)"

definition TMR_ClearOC4Ref :: "u16 \<Rightarrow> tmr_regs \<Rightarrow> tmr_regs" where
  "TMR_ClearOC4Ref clr t =
     (let tmpccmr2 = tm_CCM2 t;
          tmpccmr2 = tmpccmr2 AND NOT TMR_CCM2_OC4CDIS;
          tmpccmr2 = tmpccmr2 OR push_bit 8 (clr)
      in t\<lparr>tm_CCM2 := tmpccmr2\<rparr>)"

text \<open>Polarity and enable bits.\<close>

definition TMR_OC1PolarityConfig :: "u16 \<Rightarrow> tmr_regs \<Rightarrow> tmr_regs" where
  "TMR_OC1PolarityConfig pol t =
     (let tmpccer = tm_CCE t;
          tmpccer = tmpccer AND NOT TMR_CCE_C1P;
          tmpccer = tmpccer OR pol
      in t\<lparr>tm_CCE := tmpccer\<rparr>)"

definition TMR_OC2PolarityConfig :: "u16 \<Rightarrow> tmr_regs \<Rightarrow> tmr_regs" where
  "TMR_OC2PolarityConfig pol t =
     (let tmpccer = tm_CCE t;
          tmpccer = tmpccer AND NOT TMR_CCE_C2P;
          tmpccer = tmpccer OR push_bit 4 (pol)
      in t\<lparr>tm_CCE := tmpccer\<rparr>)"

definition TMR_OC3PolarityConfig :: "u16 \<Rightarrow> tmr_regs \<Rightarrow> tmr_regs" where
  "TMR_OC3PolarityConfig pol t =
     (let tmpccer = tm_CCE t;
          tmpccer = tmpccer AND NOT TMR_CCE_C3P;
          tmpccer = tmpccer OR push_bit 8 (pol)
      in t\<lparr>tm_CCE := tmpccer\<rparr>)"

definition TMR_OC4PolarityConfig :: "u16 \<Rightarrow> tmr_regs \<Rightarrow> tmr_regs" where
  "TMR_OC4PolarityConfig pol t =
     (let tmpccer = tm_CCE t;
          tmpccer = tmpccer AND NOT TMR_CCE_C4P;
          tmpccer = tmpccer OR push_bit 12 (pol)
      in t\<lparr>tm_CCE := tmpccer\<rparr>)"

definition TMR_OC1NPolarityConfig :: "u16 \<Rightarrow> tmr_regs \<Rightarrow> tmr_regs" where
  "TMR_OC1NPolarityConfig npol t =
     (let tmpccer = tm_CCE t;
          tmpccer = tmpccer AND NOT TMR_CCE_C1NP;
          tmpccer = tmpccer OR npol
      in t\<lparr>tm_CCE := tmpccer\<rparr>)"

definition TMR_OC2NPolarityConfig :: "u16 \<Rightarrow> tmr_regs \<Rightarrow> tmr_regs" where
  "TMR_OC2NPolarityConfig npol t =
     (let tmpccer = tm_CCE t;
          tmpccer = tmpccer AND NOT TMR_CCE_C2NP;
          tmpccer = tmpccer OR push_bit 4 (npol)
      in t\<lparr>tm_CCE := tmpccer\<rparr>)"

definition TMR_OC3NPolarityConfig :: "u16 \<Rightarrow> tmr_regs \<Rightarrow> tmr_regs" where
  "TMR_OC3NPolarityConfig npol t =
     (let tmpccer = tm_CCE t;
          tmpccer = tmpccer AND NOT TMR_CCE_C3NP;
          tmpccer = tmpccer OR push_bit 8 (npol)
      in t\<lparr>tm_CCE := tmpccer\<rparr>)"

text \<open>A shift by the channel code is undefined for a count the width of \<^verbatim>\<open>int\<close> does not have.\<close>

definition TMR_CCxCmd :: "u16 \<Rightarrow> u16 \<Rightarrow> tmr_regs \<Rightarrow> fault + tmr_regs" where
  "TMR_CCxCmd ch ccx t =
     (if 31 \<le> unat ch then Inl BadShift
      else (let tmp = push_bit (unat ch) CCE_CCE_Set;
                t = t\<lparr>tm_CCE := tm_CCE t AND NOT tmp\<rparr>
            in Inr (t\<lparr>tm_CCE := tm_CCE t OR push_bit (unat ch) ccx\<rparr>)))"

definition TMR_CCxNCmd :: "u16 \<Rightarrow> u16 \<Rightarrow> tmr_regs \<Rightarrow> fault + tmr_regs" where
  "TMR_CCxNCmd ch ccxn t =
     (if 29 \<le> unat ch then Inl BadShift
      else (let tmp = push_bit (unat ch) CCE_CCNE_Set;
                t = t\<lparr>tm_CCE := tm_CCE t AND NOT tmp\<rparr>
            in Inr (t\<lparr>tm_CCE := tm_CCE t OR push_bit (unat ch) ccxn\<rparr>)))"

text \<open>
  The mode register is addressed from the channel code: its offset from \<^verbatim>\<open>CCM1\<close> must be that of \<^verbatim>\<open>CCM1\<close> or \<^verbatim>\<open>CCM2\<close>.
\<close>

definition TMR_SelectOCxM :: "u16 \<Rightarrow> u16 \<Rightarrow> tmr_regs \<Rightarrow> fault + tmr_regs" where
  "TMR_SelectOCxM ch mode t =
     (if 31 \<le> unat ch then Inl BadShift
      else
        (let tmp1 = push_bit (unat ch) CCE_CCE_Set;
             t = t\<lparr>tm_CCE := tm_CCE t AND NOT tmp1\<rparr>
         in if ch = TMR_Channel_1 \<or> ch = TMR_Channel_3 then
              (let tmp = drop_bit 1 ch
               in if tmp = 0 then
                    (let t = t\<lparr>tm_CCM1 := tm_CCM1 t AND NOT TMR_CCM1_OC1MODE\<rparr>
                     in Inr (t\<lparr>tm_CCM1 := tm_CCM1 t OR mode\<rparr>))
                  else if tmp = 4 then
                    (let t = t\<lparr>tm_CCM2 := tm_CCM2 t AND NOT TMR_CCM1_OC1MODE\<rparr>
                     in Inr (t\<lparr>tm_CCM2 := tm_CCM2 t OR mode\<rparr>))
                  else Inl OutOfBounds)
            else
              (let tmp = drop_bit 1 (ch - 4)
               in if tmp = 0 then
                    (let t = t\<lparr>tm_CCM1 := tm_CCM1 t AND NOT TMR_CCM1_OC2MODE\<rparr>
                     in Inr (t\<lparr>tm_CCM1 := tm_CCM1 t OR push_bit 8 mode\<rparr>))
                  else if tmp = 4 then
                    (let t = t\<lparr>tm_CCM2 := tm_CCM2 t AND NOT TMR_CCM1_OC2MODE\<rparr>
                     in Inr (t\<lparr>tm_CCM2 := tm_CCM2 t OR push_bit 8 mode\<rparr>))
                  else Inl OutOfBounds)))"

section \<open>Input capture channels\<close>

text \<open>The timers with four channels and a quadrature counter.\<close>

definition full_timer :: "tmr_id \<Rightarrow> bool" where
  "full_timer x \<longleftrightarrow> x = TMR1 \<or> x = TMR2 \<or> x = TMR4 \<or> x = TMR5 \<or> x = TMR8 \<or> x = TMR3"

definition TI1_Config :: "tmr_id \<Rightarrow> u16 \<Rightarrow> u16 \<Rightarrow> u16 \<Rightarrow> tmr_regs \<Rightarrow> tmr_regs" where
  "TI1_Config x pol sel filt t =
     (let t = t\<lparr>tm_CCE := tm_CCE t AND NOT TMR_CCE_C1EN\<rparr>;
          tmpccmr1 = tm_CCM1 t;
          tmpccer = tm_CCE t;
          tmpccmr1 = tmpccmr1 AND (NOT TMR_CCM1_C1SEL AND NOT TMR_CCM1_IC1F);
          tmpccmr1 = tmpccmr1 OR (sel OR push_bit 4 filt);
          tmpccer = (if full_timer x then tmpccer AND NOT TMR_CCE_C1P else tmpccer AND NOT (TMR_CCE_C1P OR TMR_CCE_C1NP));
          tmpccer = tmpccer OR (pol OR TMR_CCE_C1EN);
          t = t\<lparr>tm_CCM1 := tmpccmr1\<rparr>
      in t\<lparr>tm_CCE := tmpccer\<rparr>)"

definition TI2_Config :: "tmr_id \<Rightarrow> u16 \<Rightarrow> u16 \<Rightarrow> u16 \<Rightarrow> tmr_regs \<Rightarrow> tmr_regs" where
  "TI2_Config x pol sel filt t =
     (let t = t\<lparr>tm_CCE := tm_CCE t AND NOT TMR_CCE_C2EN\<rparr>;
          tmpccmr1 = tm_CCM1 t;
          tmpccer = tm_CCE t;
          tmp = push_bit 4 pol;
          tmpccmr1 = tmpccmr1 AND (NOT TMR_CCM1_C2SEL AND NOT TMR_CCM1_IC2DF);
          tmpccmr1 = tmpccmr1 OR push_bit 12 filt;
          tmpccmr1 = tmpccmr1 OR push_bit 8 sel;
          tmpccer = (if full_timer x then tmpccer AND NOT TMR_CCE_C2P else tmpccer AND NOT (TMR_CCE_C2P OR TMR_CCE_C2NP));
          tmpccer = tmpccer OR (tmp OR TMR_CCE_C2EN);
          t = t\<lparr>tm_CCM1 := tmpccmr1\<rparr>
      in t\<lparr>tm_CCE := tmpccer\<rparr>)"

definition TI3_Config :: "tmr_id \<Rightarrow> u16 \<Rightarrow> u16 \<Rightarrow> u16 \<Rightarrow> tmr_regs \<Rightarrow> tmr_regs" where
  "TI3_Config x pol sel filt t =
     (let t = t\<lparr>tm_CCE := tm_CCE t AND NOT TMR_CCE_C3EN\<rparr>;
          tmpccmr2 = tm_CCM2 t;
          tmpccer = tm_CCE t;
          tmp = push_bit 8 pol;
          tmpccmr2 = tmpccmr2 AND (NOT TMR_CCM2_C3SEL AND NOT TMR_CCM2_IC3DF);
          tmpccmr2 = tmpccmr2 OR (sel OR push_bit 4 filt);
          tmpccer = (if full_timer x then tmpccer AND NOT TMR_CCE_C3P else tmpccer AND NOT (TMR_CCE_C3P OR TMR_CCE_C3NP));
          tmpccer = tmpccer OR (tmp OR TMR_CCE_C3EN);
          t = t\<lparr>tm_CCM2 := tmpccmr2\<rparr>
      in t\<lparr>tm_CCE := tmpccer\<rparr>)"

definition TI4_Config :: "tmr_id \<Rightarrow> u16 \<Rightarrow> u16 \<Rightarrow> u16 \<Rightarrow> tmr_regs \<Rightarrow> tmr_regs" where
  "TI4_Config x pol sel filt t =
     (let t = t\<lparr>tm_CCE := tm_CCE t AND NOT TMR_CCE_C4EN\<rparr>;
          tmpccmr2 = tm_CCM2 t;
          tmpccer = tm_CCE t;
          tmp = push_bit 12 pol;
          tmpccmr2 = tmpccmr2 AND (NOT TMR_CCM2_CC4S AND NOT TMR_CCM2_IC4DF);
          tmpccmr2 = tmpccmr2 OR push_bit 8 sel;
          tmpccmr2 = tmpccmr2 OR push_bit 12 filt;
          tmpccer = (if full_timer x then tmpccer AND NOT TMR_CCE_C4P else tmpccer AND NOT (TMR_CCE_C4P OR TMR_CCE_C4NP));
          tmpccer = tmpccer OR (tmp OR TMR_CCE_C4EN);
          t = t\<lparr>tm_CCM2 := tmpccmr2\<rparr>
      in t\<lparr>tm_CCE := tmpccer\<rparr>)"

definition TMR_SetIC1DIV :: "u16 \<Rightarrow> tmr_regs \<Rightarrow> tmr_regs" where
  "TMR_SetIC1DIV psc t =
     (let t = t\<lparr>tm_CCM1 := tm_CCM1 t AND NOT TMR_CCM1_IC1DIV\<rparr>
      in t\<lparr>tm_CCM1 := tm_CCM1 t OR psc\<rparr>)"

definition TMR_SetIC2DIV :: "u16 \<Rightarrow> tmr_regs \<Rightarrow> tmr_regs" where
  "TMR_SetIC2DIV psc t =
     (let t = t\<lparr>tm_CCM1 := tm_CCM1 t AND NOT TMR_CCM1_IC2DIV\<rparr>
      in t\<lparr>tm_CCM1 := tm_CCM1 t OR push_bit 8 (psc)\<rparr>)"

definition TMR_SetIC3DIV :: "u16 \<Rightarrow> tmr_regs \<Rightarrow> tmr_regs" where
  "TMR_SetIC3DIV psc t =
     (let t = t\<lparr>tm_CCM2 := tm_CCM2 t AND NOT TMR_CCM2_IC3DIV\<rparr>
      in t\<lparr>tm_CCM2 := tm_CCM2 t OR psc\<rparr>)"

definition TMR_SetIC4DIV :: "u16 \<Rightarrow> tmr_regs \<Rightarrow> tmr_regs" where
  "TMR_SetIC4DIV psc t =
     (let t = t\<lparr>tm_CCM2 := tm_CCM2 t AND NOT TMR_CCM2_IC4DIV\<rparr>
      in t\<lparr>tm_CCM2 := tm_CCM2 t OR push_bit 8 (psc)\<rparr>)"

definition TMR_ICInit :: "tmr_id \<Rightarrow> TMR_ICInitType \<Rightarrow> tmr_regs \<Rightarrow> tmr_regs" where
  "TMR_ICInit x init t =
     (let pol = TMR_ICPolarity init; sel = TMR_ICSelection init; filt = TMR_ICFilter init
      in if TMR_Channel init = TMR_Channel_1 then TMR_SetIC1DIV (TMR_ICDIV init) (TI1_Config x pol sel filt t)
         else if TMR_Channel init = TMR_Channel_2 then TMR_SetIC2DIV (TMR_ICDIV init) (TI2_Config x pol sel filt t)
         else if TMR_Channel init = TMR_Channel_3 then TMR_SetIC3DIV (TMR_ICDIV init) (TI3_Config x pol sel filt t)
         else TMR_SetIC4DIV (TMR_ICDIV init) (TI4_Config x pol sel filt t))"

definition TMR_ICStructInit :: TMR_ICInitType where
  "TMR_ICStructInit = \<lparr>TMR_Channel = TMR_Channel_1, TMR_ICPolarity = TMR_ICPolarity_Rising,
     TMR_ICSelection = TMR_ICSelection_DirectTI, TMR_ICDIV = 0x0000, TMR_ICFilter = 0x00\<rparr>"

definition TMR_PWMIConfig :: "tmr_id \<Rightarrow> TMR_ICInitType \<Rightarrow> tmr_regs \<Rightarrow> tmr_regs" where
  "TMR_PWMIConfig x init t =
     (let pol = TMR_ICPolarity init; sel = TMR_ICSelection init; filt = TMR_ICFilter init; psc = TMR_ICDIV init;
          icoppositepolarity = (if pol = TMR_ICPolarity_Rising then TMR_ICPolarity_Falling else TMR_ICPolarity_Rising);
          icoppositeselection = (if sel = TMR_ICSelection_DirectTI then TMR_ICSelection_IndirectTI
                                 else TMR_ICSelection_DirectTI)
      in if TMR_Channel init = TMR_Channel_1 then
           (let t = TI1_Config x pol sel filt t;
                t = TMR_SetIC1DIV psc t;
                t = TI2_Config x icoppositepolarity icoppositeselection filt t
            in TMR_SetIC2DIV psc t)
         else
           (let t = TI2_Config x pol sel filt t;
                t = TMR_SetIC2DIV psc t;
                t = TI1_Config x icoppositepolarity icoppositeselection filt t
            in TMR_SetIC1DIV psc t))"

section \<open>Break, dead time and DMA\<close>

definition TMR_BRKDTConfig :: "TMR_BRKDTInitType \<Rightarrow> tmr_regs \<Rightarrow> tmr_regs" where
  "TMR_BRKDTConfig init t =
     t\<lparr>tm_BRKDT := TMR_OSIMRState init OR TMR_OSIMIState init OR TMR_LOCKgrade init OR TMR_DeadTime init OR
       TMR_Break init OR TMR_BreakPolarity init OR TMR_AutomaticOutput init\<rparr>"

definition TMR_BRKDTStructInit :: TMR_BRKDTInitType where
  "TMR_BRKDTStructInit = \<lparr>TMR_OSIMRState = 0x0000, TMR_OSIMIState = 0x0000, TMR_LOCKgrade = 0x0000, TMR_DeadTime = 0x00,
     TMR_Break = 0x0000, TMR_BreakPolarity = 0x0000, TMR_AutomaticOutput = 0x0000\<rparr>"

definition TMR_CtrlPWMOutputs :: "FunctionalState \<Rightarrow> tmr_regs \<Rightarrow> tmr_regs" where
  "TMR_CtrlPWMOutputs st t =
     (if st \<noteq> DISABLE then t\<lparr>tm_BRKDT := tm_BRKDT t OR TMR_BRKDT_MOEN\<rparr>
      else t\<lparr>tm_BRKDT := tm_BRKDT t AND NOT TMR_BRKDT_MOEN\<rparr>)"

definition TMR_DMAConfig :: "u16 \<Rightarrow> u16 \<Rightarrow> tmr_regs \<Rightarrow> tmr_regs" where
  "TMR_DMAConfig base len t = t\<lparr>tm_DMAC := base OR len\<rparr>"

definition TMR_DMACmd :: "u16 \<Rightarrow> FunctionalState \<Rightarrow> tmr_regs \<Rightarrow> tmr_regs" where
  "TMR_DMACmd src st t =
     (if st \<noteq> DISABLE then t\<lparr>tm_DIE := tm_DIE t OR src\<rparr> else t\<lparr>tm_DIE := tm_DIE t AND NOT src\<rparr>)"

section \<open>Clock sources, triggers and slave modes\<close>

definition TMR_InternalClockConfig :: "tmr_regs \<Rightarrow> tmr_regs" where
  "TMR_InternalClockConfig t = t\<lparr>tm_SMC := tm_SMC t AND NOT TMR_SMC_SMSEL\<rparr>"

definition TMR_SelectInputTrigger :: "u16 \<Rightarrow> tmr_regs \<Rightarrow> tmr_regs" where
  "TMR_SelectInputTrigger src t =
     (let tmpsmcr = tm_SMC t;
          tmpsmcr = tmpsmcr AND NOT TMR_SMC_TRGSEL;
          tmpsmcr = tmpsmcr OR src
      in t\<lparr>tm_SMC := tmpsmcr\<rparr>)"

definition TMR_ITRxExternalClockConfig :: "u16 \<Rightarrow> tmr_regs \<Rightarrow> tmr_regs" where
  "TMR_ITRxExternalClockConfig src t =
     (let t = TMR_SelectInputTrigger src t in t\<lparr>tm_SMC := tm_SMC t OR TMR_SlaveMode_External1\<rparr>)"

definition TMR_TIxExternalClockConfig :: "tmr_id \<Rightarrow> u16 \<Rightarrow> u16 \<Rightarrow> u16 \<Rightarrow> tmr_regs \<Rightarrow> tmr_regs" where
  "TMR_TIxExternalClockConfig x src pol filt t =
     (let t = (if src = TMR_TIxExternalCLK1Source_TI2 then TI2_Config x pol TMR_ICSelection_DirectTI filt t
               else TI1_Config x pol TMR_ICSelection_DirectTI filt t);
          t = TMR_SelectInputTrigger src t
      in t\<lparr>tm_SMC := tm_SMC t OR TMR_SlaveMode_External1\<rparr>)"

definition TMR_ETRConfig :: "u16 \<Rightarrow> u16 \<Rightarrow> u16 \<Rightarrow> tmr_regs \<Rightarrow> tmr_regs" where
  "TMR_ETRConfig psc pol filt t =
     (let tmpsmcr = tm_SMC t;
          tmpsmcr = tmpsmcr AND SMC_ETR_Mask;
          tmpsmcr = tmpsmcr OR (psc OR (pol OR push_bit 8 filt))
      in t\<lparr>tm_SMC := tmpsmcr\<rparr>)"

definition TMR_ETRClockMode1Config :: "u16 \<Rightarrow> u16 \<Rightarrow> u16 \<Rightarrow> tmr_regs \<Rightarrow> tmr_regs" where
  "TMR_ETRClockMode1Config psc pol filt t =
     (let t = TMR_ETRConfig psc pol filt t;
          tmpsmcr = tm_SMC t;
          tmpsmcr = tmpsmcr AND NOT TMR_SMC_SMSEL;
          tmpsmcr = tmpsmcr OR TMR_SlaveMode_External1;
          tmpsmcr = tmpsmcr AND NOT TMR_SMC_TRGSEL;
          tmpsmcr = tmpsmcr OR TMR_TRGSEL_ETRF
      in t\<lparr>tm_SMC := tmpsmcr\<rparr>)"

definition TMR_ETRClockMode2Config :: "u16 \<Rightarrow> u16 \<Rightarrow> u16 \<Rightarrow> tmr_regs \<Rightarrow> tmr_regs" where
  "TMR_ETRClockMode2Config psc pol filt t =
     (let t = TMR_ETRConfig psc pol filt t in t\<lparr>tm_SMC := tm_SMC t OR TMR_SMC_ECLKEN\<rparr>)"

definition TMR_EncoderInterfaceConfig :: "u16 \<Rightarrow> u16 \<Rightarrow> u16 \<Rightarrow> tmr_regs \<Rightarrow> tmr_regs" where
  "TMR_EncoderInterfaceConfig mode pol1 pol2 t =
     (let tmpsmcr = tm_SMC t;
          tmpccmr1 = tm_CCM1 t;
          tmpccer = tm_CCE t;
          tmpsmcr = tmpsmcr AND NOT TMR_SMC_SMSEL;
          tmpsmcr = tmpsmcr OR mode;
          tmpccmr1 = tmpccmr1 AND (NOT TMR_CCM1_C1SEL AND NOT TMR_CCM1_C2SEL);
          tmpccmr1 = tmpccmr1 OR (TMR_CCM1_C1SEL_0 OR TMR_CCM1_C2SEL_0);
          tmpccer = tmpccer AND (NOT TMR_CCE_C1P AND NOT TMR_CCE_C2P);
          tmpccer = tmpccer OR (pol1 OR push_bit 4 pol2);
          t = t\<lparr>tm_SMC := tmpsmcr\<rparr>;
          t = t\<lparr>tm_CCM1 := tmpccmr1\<rparr>
      in t\<lparr>tm_CCE := tmpccer\<rparr>)"

definition TMR_SelectHALL :: "FunctionalState \<Rightarrow> tmr_regs \<Rightarrow> tmr_regs" where
  "TMR_SelectHALL st t =
     (if st \<noteq> DISABLE then t\<lparr>tm_CTRL2 := tm_CTRL2 t OR TMR_CTRL2_CUSEL\<rparr>
      else t\<lparr>tm_CTRL2 := tm_CTRL2 t AND NOT TMR_CTRL2_CUSEL\<rparr>)"

definition TMR_SelectCCDMA :: "FunctionalState \<Rightarrow> tmr_regs \<Rightarrow> tmr_regs" where
  "TMR_SelectCCDMA st t =
     (if st \<noteq> DISABLE then t\<lparr>tm_CTRL2 := tm_CTRL2 t OR TMR_CTRL2_CDSEL\<rparr>
      else t\<lparr>tm_CTRL2 := tm_CTRL2 t AND NOT TMR_CTRL2_CDSEL\<rparr>)"

definition TMR_CCPreloadControl :: "FunctionalState \<Rightarrow> tmr_regs \<Rightarrow> tmr_regs" where
  "TMR_CCPreloadControl st t =
     (if st \<noteq> DISABLE then t\<lparr>tm_CTRL2 := tm_CTRL2 t OR TMR_CTRL2_CPC\<rparr>
      else t\<lparr>tm_CTRL2 := tm_CTRL2 t AND NOT TMR_CTRL2_CPC\<rparr>)"

definition TMR_SelectHallSensor :: "FunctionalState \<Rightarrow> tmr_regs \<Rightarrow> tmr_regs" where
  "TMR_SelectHallSensor st t =
     (if st \<noteq> DISABLE then t\<lparr>tm_CTRL2 := tm_CTRL2 t OR TMR_CTRL2_TI1SEL\<rparr>
      else t\<lparr>tm_CTRL2 := tm_CTRL2 t AND NOT TMR_CTRL2_TI1SEL\<rparr>)"

definition TMR_SelectOutputTrigger :: "u16 \<Rightarrow> tmr_regs \<Rightarrow> tmr_regs" where
  "TMR_SelectOutputTrigger src t =
     (let t = t\<lparr>tm_CTRL2 := tm_CTRL2 t AND NOT TMR_CTRL2_MMSEL\<rparr> in t\<lparr>tm_CTRL2 := tm_CTRL2 t OR src\<rparr>)"

definition TMR_SelectSlaveMode :: "u16 \<Rightarrow> tmr_regs \<Rightarrow> tmr_regs" where
  "TMR_SelectSlaveMode mode t =
     (let t = t\<lparr>tm_SMC := tm_SMC t AND NOT TMR_SMC_SMSEL\<rparr> in t\<lparr>tm_SMC := tm_SMC t OR mode\<rparr>)"

definition TMR_SelectMasterSlaveMode :: "u16 \<Rightarrow> tmr_regs \<Rightarrow> tmr_regs" where
  "TMR_SelectMasterSlaveMode mode t =
     (let t = t\<lparr>tm_SMC := tm_SMC t AND NOT TMR_SMC_MSMODE\<rparr> in t\<lparr>tm_SMC := tm_SMC t OR mode\<rparr>)"

section \<open>The parts of a channel\<close>

datatype channel = CH1 | CH2 | CH3 | CH4

primrec chan_no :: "channel \<Rightarrow> nat" where
  "chan_no CH1 = 0" | "chan_no CH2 = 1" | "chan_no CH3 = 2" | "chan_no CH4 = 3"

lemma chan_no_eq: "chan_no m = chan_no n \<longleftrightarrow> m = n" "chan_no n < 4"
  by (cases m; cases n; simp) (cases n; simp)

text \<open>
  The field number \<open>i\<close> of width \<open>w\<close> of a register, and the store that replaces the bits \<open>f\<close> of it by \<open>v\<close>.
\<close>

definition field :: "nat \<Rightarrow> nat \<Rightarrow> u16 \<Rightarrow> u16" where
  "field w i x = take_bit w (drop_bit (w * i) x)"

definition put_field :: "nat \<Rightarrow> nat \<Rightarrow> u16 \<Rightarrow> u16 \<Rightarrow> u16 \<Rightarrow> u16" where
  "put_field w i f v x = (x AND NOT (push_bit (w * i) f)) OR push_bit (w * i) v"

lemma field_put_same:
  assumes "take_bit w f = f" "take_bit w v = v" "w * i + w \<le> 16"
  shows "field w i (put_field w i f v x) = (field w i x AND NOT f) OR v"
proof (rule bit_word_eqI)
  fix k assume "k < LENGTH(16)"
  have "bit f k \<Longrightarrow> k < w" "bit v k \<Longrightarrow> k < w"
    using assms(1,2) by (metis bit_take_bit_iff)+
  then show "bit (field w i (put_field w i f v x)) k = bit ((field w i x AND NOT f) OR v) k"
    using assms(3) \<open>k < LENGTH(16)\<close> by (auto simp: field_def put_field_def bit_simps)
qed

lemma field_put_other:
  assumes "take_bit w f = f" "take_bit w v = v" "i \<noteq> j"
  shows "field w i (put_field w j f v x) = field w i x"
proof (rule bit_word_eqI)
  fix k assume "k < LENGTH(16)"
  have n: "\<not> (w * j \<le> w * i + k \<and> w * i + k - w * j < w)" if "k < w"
  proof
    assume h: "w * j \<le> w * i + k \<and> w * i + k - w * j < w"
    moreover have "i < j \<Longrightarrow> w * i + w \<le> w * j" "j < i \<Longrightarrow> w * j + w \<le> w * i"
      using mult_le_mono2 [of "Suc i" j w] mult_le_mono2 [of "Suc j" i w] by simp_all
    ultimately show False using that assms(3) by linarith
  qed
  have "bit f q \<Longrightarrow> q < w" "bit v q \<Longrightarrow> q < w" for q
    using assms(1,2) by (metis bit_take_bit_iff)+
  then have "\<not> bit f (w * i + k - w * j)" "\<not> bit v (w * i + k - w * j)" if "k < w" "w * j \<le> w * i + k"
    using n that by blast+
  moreover have "bit x q \<Longrightarrow> q < 16" for q using bit_imp_le_length [of x q] by simp
  ultimately show "bit (field w i (put_field w j f v x)) k = bit (field w i x) k"
    by (auto simp: field_def put_field_def bit_simps)
qed

text \<open>The byte of the mode registers, the nibble of the enable register, the two idle bits, the compare register.\<close>

definition chan_ccm :: "channel \<Rightarrow> tmr_regs \<Rightarrow> u16" where
  "chan_ccm n t = field 8 (chan_no n mod 2) (if chan_no n < 2 then tm_CCM1 t else tm_CCM2 t)"

definition chan_cce :: "channel \<Rightarrow> tmr_regs \<Rightarrow> u16" where
  "chan_cce n t = field 4 (chan_no n) (tm_CCE t)"

definition chan_idle :: "channel \<Rightarrow> tmr_regs \<Rightarrow> u16" where
  "chan_idle n t = field 2 (4 + chan_no n) (tm_CTRL2 t)"

primrec chan_cc :: "channel \<Rightarrow> tmr_regs \<Rightarrow> u32" where
  "chan_cc CH1 t = tm_CC1 t" | "chan_cc CH2 t = tm_CC2 t" | "chan_cc CH3 t = tm_CC3 t" | "chan_cc CH4 t = tm_CC4 t"

definition same_channel :: "channel \<Rightarrow> tmr_regs \<Rightarrow> tmr_regs \<Rightarrow> bool" where
  "same_channel n t t' \<longleftrightarrow> chan_ccm n t' = chan_ccm n t \<and> chan_cce n t' = chan_cce n t \<and>
     chan_idle n t' = chan_idle n t \<and> chan_cc n t' = chan_cc n t"

text \<open>What no channel owns.\<close>

definition no_channel :: "tmr_regs \<Rightarrow> tmr_regs" where
  "no_channel t = t\<lparr>tm_CTRL2 := take_bit 8 (tm_CTRL2 t), tm_CCM1 := 0, tm_CCM2 := 0, tm_CCE := 0,
     tm_CC1 := 0, tm_CC2 := 0, tm_CC3 := 0, tm_CC4 := 0\<rparr>"

text \<open>One field of a channel's mode byte or enable nibble replaced, the same way for every channel.\<close>

definition put_ccm :: "channel \<Rightarrow> u16 \<Rightarrow> u16 \<Rightarrow> tmr_regs \<Rightarrow> tmr_regs" where
  "put_ccm n f v t =
     (if chan_no n < 2 then t\<lparr>tm_CCM1 := put_field 8 (chan_no n mod 2) f v (tm_CCM1 t)\<rparr>
      else t\<lparr>tm_CCM2 := put_field 8 (chan_no n mod 2) f v (tm_CCM2 t)\<rparr>)"

definition put_cce :: "channel \<Rightarrow> u16 \<Rightarrow> u16 \<Rightarrow> tmr_regs \<Rightarrow> tmr_regs" where
  "put_cce n f v t = t\<lparr>tm_CCE := put_field 4 (chan_no n) f v (tm_CCE t)\<rparr>"

definition put_idle :: "channel \<Rightarrow> u16 \<Rightarrow> u16 \<Rightarrow> tmr_regs \<Rightarrow> tmr_regs" where
  "put_idle n f v t = t\<lparr>tm_CTRL2 := put_field 2 (4 + chan_no n) f v (tm_CTRL2 t)\<rparr>"

definition put_cc :: "channel \<Rightarrow> u32 \<Rightarrow> tmr_regs \<Rightarrow> tmr_regs" where
  "put_cc n v t = (case n of CH1 \<Rightarrow> t\<lparr>tm_CC1 := v\<rparr> | CH2 \<Rightarrow> t\<lparr>tm_CC2 := v\<rparr> | CH3 \<Rightarrow> t\<lparr>tm_CC3 := v\<rparr> | CH4 \<Rightarrow> t\<lparr>tm_CC4 := v\<rparr>)"

lemmas put_defs = put_ccm_def put_cce_def put_idle_def put_cc_def
lemmas chan_defs = chan_ccm_def chan_cce_def chan_idle_def

lemma chan_byte: "m \<noteq> n \<Longrightarrow> (chan_no m < 2 \<longleftrightarrow> chan_no n < 2) \<Longrightarrow> chan_no m mod 2 \<noteq> chan_no n mod 2"
  "8 * (chan_no n mod 2) + 8 \<le> 16" "4 * chan_no n + 4 \<le> 16" "2 * (4 + chan_no n) + 2 \<le> 16"
  by (cases m; cases n; simp) (cases n; simp)+

lemma put_same:
  "take_bit 8 f = f \<Longrightarrow> take_bit 8 v = v \<Longrightarrow> chan_ccm n (put_ccm n f v t) = (chan_ccm n t AND NOT f) OR v"
  "take_bit 4 f = f \<Longrightarrow> take_bit 4 v = v \<Longrightarrow> chan_cce n (put_cce n f v t) = (chan_cce n t AND NOT f) OR v"
  "take_bit 2 f = f \<Longrightarrow> take_bit 2 v = v \<Longrightarrow> chan_idle n (put_idle n f v t) = (chan_idle n t AND NOT f) OR v"
  "chan_cc n (put_cc n w t) = w"
  using chan_byte(2-4) [of n]
  by (simp_all add: chan_defs put_defs field_put_same split: channel.split)

lemma put_other:
  "m \<noteq> n \<Longrightarrow> take_bit 8 f = f \<Longrightarrow> take_bit 8 v = v \<Longrightarrow> chan_ccm m (put_ccm n f v t) = chan_ccm m t"
  "m \<noteq> n \<Longrightarrow> take_bit 4 f = f \<Longrightarrow> take_bit 4 v = v \<Longrightarrow> chan_cce m (put_cce n f v t) = chan_cce m t"
  "m \<noteq> n \<Longrightarrow> take_bit 2 f = f \<Longrightarrow> take_bit 2 v = v \<Longrightarrow> chan_idle m (put_idle n f v t) = chan_idle m t"
  "m \<noteq> n \<Longrightarrow> chan_cc m (put_cc n w t) = chan_cc m t"
  using chan_byte(1) [of m n] chan_no_eq(1) [of m n]
  by (simp_all add: chan_defs put_defs field_put_other) (cases m; cases n; simp)

lemma put_frame [simp]:
  "chan_ccm m (put_cce n f v t) = chan_ccm m t" "chan_ccm m (put_idle n f v t) = chan_ccm m t" "chan_ccm m (put_cc n w t) = chan_ccm m t"
  "chan_cce m (put_ccm n f v t) = chan_cce m t" "chan_cce m (put_idle n f v t) = chan_cce m t" "chan_cce m (put_cc n w t) = chan_cce m t"
  "chan_idle m (put_ccm n f v t) = chan_idle m t" "chan_idle m (put_cce n f v t) = chan_idle m t" "chan_idle m (put_cc n w t) = chan_idle m t"
  "chan_cc m (put_ccm n f v t) = chan_cc m t" "chan_cc m (put_cce n f v t) = chan_cc m t" "chan_cc m (put_idle n f v t) = chan_cc m t"
  "no_channel (put_ccm n f v t) = no_channel t" "no_channel (put_cce n f v t) = no_channel t" "no_channel (put_cc n w t) = no_channel t"
  by (cases m; simp add: chan_defs put_defs no_channel_def split: channel.split)+

lemma no_channel_idle [simp]: "no_channel (put_idle n f v t) = no_channel t"
proof -
  have "take_bit 8 (put_field 2 (4 + chan_no n) f v x) = take_bit 8 x" for x
    by (rule bit_word_eqI) (auto simp: put_field_def bit_simps)
  then show ?thesis by (simp add: no_channel_def put_idle_def)
qed

section \<open>Every function of a channel is one of these stores\<close>

primrec chan_code :: "channel \<Rightarrow> u16" where
  "chan_code CH1 = 0x0" | "chan_code CH2 = 0x4" | "chan_code CH3 = 0x8" | "chan_code CH4 = 0xC"

lemmas put_simps = put_defs put_field_def Let_def

lemma channel_fields:
  "TMR_ForcedOC1Config v = put_ccm CH1 0x70 v" "TMR_ForcedOC2Config v = put_ccm CH2 0x70 v"
  "TMR_ForcedOC3Config v = put_ccm CH3 0x70 v" "TMR_ForcedOC4Config v = put_ccm CH4 0x70 v"
  "TMR_OC1PreloadConfig v = put_ccm CH1 0x08 v" "TMR_OC2PreloadConfig v = put_ccm CH2 0x08 v"
  "TMR_OC3PreloadConfig v = put_ccm CH3 0x08 v" "TMR_OC4PreloadConfig v = put_ccm CH4 0x08 v"
  "TMR_OC1FastConfig v = put_ccm CH1 0x04 v" "TMR_OC2FastConfig v = put_ccm CH2 0x04 v"
  "TMR_OC3FastConfig v = put_ccm CH3 0x04 v" "TMR_OC4FastConfig v = put_ccm CH4 0x04 v"
  "TMR_ClearOC1Ref v = put_ccm CH1 0x80 v" "TMR_ClearOC2Ref v = put_ccm CH2 0x80 v"
  "TMR_ClearOC3Ref v = put_ccm CH3 0x80 v" "TMR_ClearOC4Ref v = put_ccm CH4 0x80 v"
  "TMR_SetIC1DIV v = put_ccm CH1 0x0C v" "TMR_SetIC2DIV v = put_ccm CH2 0x0C v"
  "TMR_SetIC3DIV v = put_ccm CH3 0x0C v" "TMR_SetIC4DIV v = put_ccm CH4 0x0C v"
  "TMR_OC1PolarityConfig v = put_cce CH1 0x2 v" "TMR_OC2PolarityConfig v = put_cce CH2 0x2 v"
  "TMR_OC3PolarityConfig v = put_cce CH3 0x2 v" "TMR_OC4PolarityConfig v = put_cce CH4 0x2 v"
  "TMR_OC1NPolarityConfig v = put_cce CH1 0x8 v" "TMR_OC2NPolarityConfig v = put_cce CH2 0x8 v"
  "TMR_OC3NPolarityConfig v = put_cce CH3 0x8 v"
  by (simp_all add: fun_eq_iff put_simps
      TMR_ForcedOC1Config_def TMR_ForcedOC2Config_def TMR_ForcedOC3Config_def TMR_ForcedOC4Config_def
      TMR_OC1PreloadConfig_def TMR_OC2PreloadConfig_def TMR_OC3PreloadConfig_def TMR_OC4PreloadConfig_def
      TMR_OC1FastConfig_def TMR_OC2FastConfig_def TMR_OC3FastConfig_def TMR_OC4FastConfig_def
      TMR_ClearOC1Ref_def TMR_ClearOC2Ref_def TMR_ClearOC3Ref_def TMR_ClearOC4Ref_def
      TMR_SetIC1DIV_def TMR_SetIC2DIV_def TMR_SetIC3DIV_def TMR_SetIC4DIV_def
      TMR_OC1PolarityConfig_def TMR_OC2PolarityConfig_def TMR_OC3PolarityConfig_def TMR_OC4PolarityConfig_def
      TMR_OC1NPolarityConfig_def TMR_OC2NPolarityConfig_def TMR_OC3NPolarityConfig_def)

lemma channel_commands:
  "TMR_CCxCmd (chan_code n) v t = Inr (put_cce n 0x1 v t)"
  "TMR_CCxNCmd (chan_code n) v t = Inr (put_cce n 0x4 v t)"
  "TMR_SelectOCxM (chan_code n) v t = Inr (put_ccm n 0x70 v (put_cce n 0x1 0 t))"
  by (cases n; simp add: TMR_CCxCmd_def TMR_CCxNCmd_def TMR_SelectOCxM_def put_simps)+

text \<open>A valid value has no bit outside its field.\<close>

lemma outside:
  assumes "v AND NOT m = 0" "\<not> bit m k"
  shows "\<not> bit (v :: u16) k"
proof
  assume "bit v k"
  moreover from this have "k < LENGTH(16)" by (rule bit_imp_le_length)
  ultimately have "bit (v AND NOT m) k" using assms(2) by (simp add: bit_simps)
  then show False using assms(1) by simp
qed

text \<open>The equality of words of 16 bits, bit by bit.\<close>

lemma u16_eq_iff: "(a :: u16) = b \<longleftrightarrow> (\<forall>k\<in>set [0..<16]. bit a k = bit b k)"
proof
  assume "\<forall>k\<in>set [0..<16]. bit a k = bit b k"
  then show "a = b" by (intro bit_word_eqI) simp
qed simp

lemmas u16_bits = u16_eq_iff upt_conv_Cons list.set(2) ball_simps(5,7) bit_simps

text \<open>The stores of one after another in one nibble, as one store.\<close>

definition oc_valid :: "TMR_OCInitType \<Rightarrow> bool" where
  "oc_valid init \<longleftrightarrow> TMR_OCMode init AND NOT 0x70 = 0 \<and> TMR_OutputState init AND NOT 0x1 = 0 \<and>
     TMR_OutputNState init AND NOT 0x4 = 0 \<and> TMR_OCPolarity init AND NOT 0x2 = 0 \<and>
     TMR_OCNPolarity init AND NOT 0x8 = 0 \<and> TMR_OCIdleState init AND NOT 0x100 = 0 \<and>
     TMR_OCNIdleState init AND NOT 0x200 = 0"

primrec oc_init :: "channel \<Rightarrow> TMR_OCInitType \<Rightarrow> tmr_regs \<Rightarrow> tmr_regs" where
  "oc_init CH1 = TMR_OC1Init" | "oc_init CH2 = TMR_OC2Init" | "oc_init CH3 = TMR_OC3Init" | "oc_init CH4 = TMR_OC4Init"

lemmas oc_init_defs = TMR_OC1Init_def TMR_OC2Init_def TMR_OC3Init_def TMR_OC4Init_def

text \<open>The enable nibble and the idle bits a structure asks for; the last channel has no complementary output.\<close>

definition oc_nibble :: "channel \<Rightarrow> TMR_OCInitType \<Rightarrow> u16" where
  "oc_nibble n init = (if n = CH4 then TMR_OutputState init OR TMR_OCPolarity init
     else TMR_OutputState init OR TMR_OCPolarity init OR TMR_OutputNState init OR TMR_OCNPolarity init)"

definition oc_idle :: "channel \<Rightarrow> TMR_OCInitType \<Rightarrow> u16" where
  "oc_idle n init = (if n = CH4 then drop_bit 8 (TMR_OCIdleState init)
     else drop_bit 8 (TMR_OCIdleState init OR TMR_OCNIdleState init))"

definition oc_puts :: "channel \<Rightarrow> TMR_OCInitType \<Rightarrow> tmr_regs \<Rightarrow> tmr_regs" where
  "oc_puts n init t = put_cce n (if n = CH4 then 0x3 else 0xF) (oc_nibble n init) (put_cc n (TMR_Pulse init)
     (put_ccm n 0x73 (TMR_OCMode init) (put_idle n (if n = CH4 then 0x1 else 0x3) (oc_idle n init) t)))"

lemma nibble_stores:
  assumes "st AND NOT 0x1 = (0::u16)" "pol AND NOT 0x2 = 0" "nst AND NOT 0x4 = 0" "npol AND NOT 0x8 = 0"
  shows "((((((x AND NOT 0x1) AND NOT 0x2 OR pol) OR st) AND NOT 0x8 OR npol) AND NOT 0x4) OR nst :: u16) =
      put_field 4 0 0xF (st OR pol OR nst OR npol) x"
    "((((((x AND NOT 0x10) AND NOT 0x20 OR push_bit 4 pol) OR push_bit 4 st) AND NOT 0x80 OR push_bit 4 npol) AND NOT 0x40) OR push_bit 4 nst :: u16) =
      put_field 4 1 0xF (st OR pol OR nst OR npol) x"
    "((((((x AND NOT 0x100) AND NOT 0x200 OR push_bit 8 pol) OR push_bit 8 st) AND NOT 0x800 OR push_bit 8 npol) AND NOT 0x400) OR push_bit 8 nst :: u16) =
      put_field 4 2 0xF (st OR pol OR nst OR npol) x"
    "((((x AND NOT 0x1000) AND NOT 0x2000) OR push_bit 12 pol) OR push_bit 12 st :: u16) =
      put_field 4 3 0x3 (st OR pol) x"
  using outside [OF assms(1)] outside [OF assms(2)] outside [OF assms(3)] outside [OF assms(4)]
  by (simp_all add: put_field_def u16_bits)

lemma byte_stores:
  "(((y AND NOT 0x70) AND NOT 0x3) OR mode :: u16) = put_field 8 0 0x73 mode y"
  "(((y AND NOT 0x7000) AND NOT 0x300) OR push_bit 8 mode :: u16) = put_field 8 1 0x73 mode y"
  by (simp_all add: put_field_def u16_bits)

lemma idle_stores:
  assumes "is AND NOT 0x100 = (0::u16)" "nis AND NOT 0x200 = 0"
  shows "((((z AND NOT 0x100) AND NOT 0x200) OR is) OR nis :: u16) = put_field 2 4 0x3 (drop_bit 8 (is OR nis)) z"
    "((((z AND NOT 0x400) AND NOT 0x800) OR push_bit 2 is) OR push_bit 2 nis :: u16) = put_field 2 5 0x3 (drop_bit 8 (is OR nis)) z"
    "((((z AND NOT 0x1000) AND NOT 0x2000) OR push_bit 4 is) OR push_bit 4 nis :: u16) = put_field 2 6 0x3 (drop_bit 8 (is OR nis)) z"
    "((z AND NOT 0x4000) OR push_bit 6 is :: u16) = put_field 2 7 0x1 (drop_bit 8 is) z"
  using outside [OF assms(1)] outside [OF assms(2)]
  by (simp_all add: put_field_def u16_bits) (simp_all add: numeral_eq_Suc)

lemma oc_init_puts:
  assumes "oc_valid init"
  shows "oc_init n init t = oc_puts n init t"
proof -
  have v: "TMR_OutputState init AND NOT 0x1 = 0" "TMR_OCPolarity init AND NOT 0x2 = 0" "TMR_OutputNState init AND NOT 0x4 = 0"
    "TMR_OCNPolarity init AND NOT 0x8 = 0" "TMR_OCIdleState init AND NOT 0x100 = 0" "TMR_OCNIdleState init AND NOT 0x200 = 0"
    using assms by (simp_all add: oc_valid_def)
  note nibble_stores [OF v(1-4)] idle_stores [OF v(5,6)]
  then show ?thesis
    unfolding oc_puts_def put_defs oc_nibble_def oc_idle_def
    by (cases n) (simp_all only: oc_init.simps oc_init_defs Let_def byte_stores chan_no.simps channel.case channel.distinct
        if_True if_False, simp_all)
qed

lemma valid_take:
  assumes "v AND NOT m = 0" "m AND NOT (mask w) = 0"
  shows "take_bit w v = (v :: u16)"
proof (rule bit_word_eqI)
  fix k
  have "k < w" if "bit v k"
  proof (rule ccontr)
    assume "\<not> k < w"
    then have "\<not> bit (mask w :: u16) k" by (simp add: bit_simps)
    then have "\<not> bit m k" using outside [OF assms(2)] by blast
    then show False using outside [OF assms(1)] that by blast
  qed
  then show "bit (take_bit w v) k = bit v k" by (auto simp: bit_simps)
qed

lemma valid_drop:
  assumes "take_bit 10 (v :: u16) = v"
  shows "take_bit 2 (drop_bit 8 v) = drop_bit 8 v"
proof (rule bit_word_eqI)
  fix k
  have "k < 2" if "bit v (8 + k)"
  proof -
    have "bit (take_bit 10 v) (8 + k)" unfolding assms by (rule that)
    then show ?thesis by (simp add: bit_take_bit_iff)
  qed
  then show "bit (take_bit 2 (drop_bit 8 v)) k = bit (drop_bit 8 v) k" by (auto simp: bit_simps)
qed

lemma take_or: "take_bit w a = a \<Longrightarrow> take_bit w b = b \<Longrightarrow> take_bit w (a OR b) = (a OR b :: u16)"
  by (simp add: take_bit_or)

lemma take_consts [simp]:
  "take_bit 8 (0x73 :: u16) = 0x73" "take_bit 4 (0x3 :: u16) = 0x3" "take_bit 4 (0xF :: u16) = 0xF" "take_bit 2 (0x1 :: u16) = 0x1"
  "take_bit 2 (0x3 :: u16) = 0x3" "take_bit 8 (0xF3 :: u16) = 0xF3" "take_bit 8 (0x0C :: u16) = 0x0C" "take_bit 4 (0xB :: u16) = 0xB"
  by (simp_all add: take_bit_eq_mask mask_numeral)

lemma oc_valid_take:
  assumes "oc_valid init"
  shows "take_bit 8 (TMR_OCMode init) = TMR_OCMode init" "take_bit 4 (oc_nibble n init) = oc_nibble n init"
    "take_bit 2 (oc_idle n init) = oc_idle n init"
proof -
  note v = assms [unfolded oc_valid_def]
  show "take_bit 8 (TMR_OCMode init) = TMR_OCMode init"
    using valid_take [of "TMR_OCMode init" "0x70" 8] v by (simp add: mask_numeral)
  have t: "take_bit 4 (TMR_OutputState init) = TMR_OutputState init" "take_bit 4 (TMR_OCPolarity init) = TMR_OCPolarity init"
    "take_bit 4 (TMR_OutputNState init) = TMR_OutputNState init" "take_bit 4 (TMR_OCNPolarity init) = TMR_OCNPolarity init"
    using v valid_take [of "TMR_OutputState init" 1 4] valid_take [of "TMR_OCPolarity init" 2 4]
      valid_take [of "TMR_OutputNState init" 4 4] valid_take [of "TMR_OCNPolarity init" 8 4]
    by (simp_all add: mask_numeral)
  then show "take_bit 4 (oc_nibble n init) = oc_nibble n init" by (simp add: oc_nibble_def take_bit_or)
  have "take_bit 10 (TMR_OCIdleState init) = TMR_OCIdleState init" "take_bit 10 (TMR_OCNIdleState init) = TMR_OCNIdleState init"
    using v valid_take [of "TMR_OCIdleState init" "0x100" 10] valid_take [of "TMR_OCNIdleState init" "0x200" 10]
    by (simp_all add: mask_numeral)
  then have "take_bit 2 (drop_bit 8 (TMR_OCIdleState init)) = drop_bit 8 (TMR_OCIdleState init)"
    "take_bit 2 (drop_bit 8 (TMR_OCNIdleState init)) = drop_bit 8 (TMR_OCNIdleState init)"
    using valid_drop by blast+
  then show "take_bit 2 (oc_idle n init) = oc_idle n init" by (simp add: oc_idle_def take_bit_or)
qed

lemma field_clear: "field w i x AND NOT (mask w) = 0"
  by (rule bit_word_eqI) (auto simp: field_def bit_simps)

lemma full_fields: "chan_cce n t AND NOT 0xF = 0" "chan_idle n t AND NOT 0x3 = 0"
  using field_clear [of 4] field_clear [of 2] by (simp_all add: chan_defs mask_numeral)

text \<open>
  C34.  An output compare channel is configured exactly: for every structure with valid values, the functions
  \<^verbatim>\<open>TMR_OC1Init\<close> to \<^verbatim>\<open>TMR_OC4Init\<close> give their channel the mode, polarities, output and idle states and pulse of the
  structure, keeping its preload, fast and clear bits; the other three channels and all other
  registers are unchanged.
\<close>

theorem oc_init_exact:
  assumes "oc_valid init"
  shows "chan_ccm n (oc_init n init t) = (chan_ccm n t AND 0x8C) OR TMR_OCMode init \<and>
    chan_cce n (oc_init n init t) = (if n = CH4 then (chan_cce n t AND 0xC) OR oc_nibble n init else oc_nibble n init) \<and>
    chan_idle n (oc_init n init t) = (if n = CH4 then (chan_idle n t AND 0x2) OR oc_idle n init else oc_idle n init) \<and>
    chan_cc n (oc_init n init t) = TMR_Pulse init \<and>
    (\<forall>m. m \<noteq> n \<longrightarrow> same_channel m t (oc_init n init t)) \<and> no_channel (oc_init n init t) = no_channel t"
proof -
  note tk = oc_valid_take [OF assms]
  have m: "take_bit 8 x AND NOT 0x73 = take_bit 8 x AND 0x8C" "take_bit 4 x AND NOT 0x3 = take_bit 4 x AND 0xC"
    "take_bit 2 x AND NOT 0x1 = take_bit 2 x AND 0x2" for x :: u16
    by (simp_all add: u16_bits)
  have "chan_ccm n t AND NOT 0x73 = chan_ccm n t AND 0x8C" "chan_cce n t AND NOT 0x3 = chan_cce n t AND 0xC"
    "chan_idle n t AND NOT 0x1 = chan_idle n t AND 0x2"
    unfolding chan_defs field_def by (rule m)+
  then show ?thesis
    unfolding oc_init_puts [OF assms] oc_puts_def same_channel_def
    using full_fields [of n t] by (auto simp: put_same put_other tk)
qed

theorem oc_init_exact_witness:
  "let t = TMR_OC2Init \<lparr>TMR_OCMode = 0x60, TMR_OutputState = 1, TMR_OutputNState = 0, TMR_Pulse = 500, TMR_OCPolarity = 2,
      TMR_OCNPolarity = 0, TMR_OCIdleState = 0x100, TMR_OCNIdleState = 0\<rparr> tmr_after_reset
   in chan_ccm CH2 t = 0x60 \<and> chan_cce CH2 t = 3 \<and> chan_cc CH2 t = 500 \<and> same_channel CH1 tmr_after_reset t"
  using oc_init_exact [of "\<lparr>TMR_OCMode = 0x60, TMR_OutputState = 1, TMR_OutputNState = 0, TMR_Pulse = 500, TMR_OCPolarity = 2,
      TMR_OCNPolarity = 0, TMR_OCIdleState = 0x100, TMR_OCNIdleState = 0\<rparr>" CH2 tmr_after_reset]
  by (simp add: oc_valid_def oc_nibble_def chan_defs field_def tmr_after_reset_def)

section \<open>Input capture: a channel is configured exactly\<close>

definition ic_valid :: "TMR_ICInitType \<Rightarrow> bool" where
  "ic_valid init \<longleftrightarrow> TMR_ICPolarity init \<in> {0x0, 0x2, 0xA} \<and> TMR_ICSelection init AND NOT 0x3 = 0 \<and>
     TMR_ICDIV init AND NOT 0xC = 0 \<and> TMR_ICFilter init AND NOT 0xF = 0"

primrec ti_config :: "channel \<Rightarrow> tmr_id \<Rightarrow> u16 \<Rightarrow> u16 \<Rightarrow> u16 \<Rightarrow> tmr_regs \<Rightarrow> tmr_regs" where
  "ti_config CH1 = TI1_Config" | "ti_config CH2 = TI2_Config" | "ti_config CH3 = TI3_Config" | "ti_config CH4 = TI4_Config"

lemmas ti_defs = TI1_Config_def TI2_Config_def TI3_Config_def TI4_Config_def

text \<open>The polarity bits a timer clears: both where the complementary one selects both edges, else only the first.\<close>

definition pol_mask :: "tmr_id \<Rightarrow> u16" where
  "pol_mask x = (if full_timer x then 0x3 else 0xB)"

lemma capture_stores:
  "((x AND NOT 0x1) AND NOT 0x2) OR (pol OR 0x1) = put_field 4 0 0x3 (pol OR 0x1) x"
  "((x AND NOT 0x1) AND NOT (0x2 OR 0x8)) OR (pol OR 0x1) = put_field 4 0 0xB (pol OR 0x1) x"
  "((x AND NOT 0x10) AND NOT 0x20) OR (push_bit 4 pol OR 0x10) = put_field 4 1 0x3 (pol OR 0x1) x"
  "((x AND NOT 0x10) AND NOT (0x20 OR 0x80)) OR (push_bit 4 pol OR 0x10) = put_field 4 1 0xB (pol OR 0x1) x"
  "((x AND NOT 0x100) AND NOT 0x200) OR (push_bit 8 pol OR 0x100) = put_field 4 2 0x3 (pol OR 0x1) x"
  "((x AND NOT 0x100) AND NOT (0x200 OR 0x800)) OR (push_bit 8 pol OR 0x100) = put_field 4 2 0xB (pol OR 0x1) x"
  "((x AND NOT 0x1000) AND NOT 0x2000) OR (push_bit 12 pol OR 0x1000) = put_field 4 3 0x3 (pol OR 0x1) x"
  "((x AND NOT 0x1000) AND NOT (0x2000 OR 0x8000)) OR (push_bit 12 pol OR 0x1000) = put_field 4 3 0xB (pol OR 0x1) x"
  "(y AND (NOT 0x3 AND NOT 0xF0)) OR (sel OR push_bit 4 filt) = put_field 8 0 0xF3 (sel OR push_bit 4 filt) y"
  "((y AND (NOT 0x300 AND NOT 0xF000)) OR push_bit 12 filt) OR push_bit 8 sel = put_field 8 1 0xF3 (sel OR push_bit 4 filt) y"
  "((y AND (NOT 0x300 AND NOT 0xF000)) OR push_bit 8 sel) OR push_bit 12 filt = put_field 8 1 0xF3 (sel OR push_bit 4 filt) y"
  for x :: u16
  by (simp_all add: put_field_def u16_bits) auto

lemma ti_config_puts:
  "ti_config n x pol sel filt t =
     put_cce n (pol_mask x) (pol OR 0x1) (put_ccm n 0xF3 (sel OR push_bit 4 filt) t)"
proof -
  have "ti_config n x pol sel filt t = t\<lparr>tm_CCM1 := tm_CCM1 (ti_config n x pol sel filt t),
      tm_CCM2 := tm_CCM2 (ti_config n x pol sel filt t), tm_CCE := tm_CCE (ti_config n x pol sel filt t)\<rparr>"
    by (cases n; simp add: ti_defs Let_def)
  moreover have "tm_CCM1 (ti_config n x pol sel filt t) = tm_CCM1 (put_ccm n 0xF3 (sel OR push_bit 4 filt) t)"
    unfolding put_defs by (cases n) (simp_all only: ti_config.simps ti_defs Let_def capture_stores chan_no.simps, simp_all)
  moreover have "tm_CCM2 (ti_config n x pol sel filt t) = tm_CCM2 (put_ccm n 0xF3 (sel OR push_bit 4 filt) t)"
    unfolding put_defs by (cases n) (simp_all only: ti_config.simps ti_defs Let_def capture_stores chan_no.simps, simp_all)
  moreover have "tm_CCE (ti_config n x pol sel filt t) = put_field 4 (chan_no n) (pol_mask x) (pol OR 0x1) (tm_CCE t)"
    unfolding pol_mask_def
    by (cases n; cases "full_timer x"; simp add: ti_defs Let_def put_field_def u16_bits; auto)
  ultimately show ?thesis unfolding put_defs by (cases n) simp_all
qed

lemma ic_init_puts:
  assumes "TMR_Channel init = chan_code n"
  shows "TMR_ICInit x init t = put_ccm n 0x0C (TMR_ICDIV init)
    (ti_config n x (TMR_ICPolarity init) (TMR_ICSelection init) (TMR_ICFilter init) t)"
  using assms by (cases n) (simp_all add: TMR_ICInit_def Let_def channel_fields)

lemma ic_take:
  assumes "ic_valid init"
  shows "take_bit 8 (TMR_ICSelection init OR push_bit 4 (TMR_ICFilter init)) = TMR_ICSelection init OR push_bit 4 (TMR_ICFilter init)"
    "take_bit 8 (TMR_ICDIV init) = TMR_ICDIV init" "take_bit 4 (TMR_ICPolarity init OR 0x1) = TMR_ICPolarity init OR 0x1"
proof -
  note v = assms [unfolded ic_valid_def]
  have f: "take_bit 4 (TMR_ICFilter init) = TMR_ICFilter init" "take_bit 8 (TMR_ICSelection init) = TMR_ICSelection init"
    using v valid_take [of "TMR_ICFilter init" "0xF" 4] valid_take [of "TMR_ICSelection init" "0x3" 8] by (simp_all add: mask_numeral)
  have "take_bit 8 (push_bit 4 (TMR_ICFilter init)) = push_bit 4 (TMR_ICFilter init)"
    using arg_cong [OF f(1), of "push_bit 4"] push_bit_take_bit [of 4 4 "TMR_ICFilter init"] by simp
  then show "take_bit 8 (TMR_ICSelection init OR push_bit 4 (TMR_ICFilter init)) = TMR_ICSelection init OR push_bit 4 (TMR_ICFilter init)"
    using f(2) by (simp add: take_bit_or)
  show "take_bit 8 (TMR_ICDIV init) = TMR_ICDIV init"
    using v valid_take [of "TMR_ICDIV init" "0xC" 8] by (simp add: mask_numeral)
  show "take_bit 4 (TMR_ICPolarity init OR 0x1) = TMR_ICPolarity init OR 0x1"
    using v by (auto simp: take_bit_eq_mask mask_numeral)
qed

lemma pol_mask_take: "take_bit 4 (pol_mask x) = pol_mask x"
  by (simp add: pol_mask_def)

text \<open>
  An input capture channel is configured exactly: for every structure with valid values \<^verbatim>\<open>TMR_ICInit\<close> gives the
  channel it names the input, prescaler and filter of the structure, the polarity and its enable bit; the
  other channels and all other registers are unchanged.  The complementary polarity bit is replaced
  on the timers with less than four channels only.
\<close>

lemma ic_init_exact:
  assumes "ic_valid init" "TMR_Channel init = chan_code n"
  shows "chan_ccm n (TMR_ICInit x init t) = TMR_ICSelection init OR push_bit 4 (TMR_ICFilter init) OR TMR_ICDIV init \<and>
    chan_cce n (TMR_ICInit x init t) = (chan_cce n t AND (if full_timer x then 0xC else 0x4)) OR TMR_ICPolarity init OR 0x1 \<and>
    chan_idle n (TMR_ICInit x init t) = chan_idle n t \<and> chan_cc n (TMR_ICInit x init t) = chan_cc n t \<and>
    (\<forall>m. m \<noteq> n \<longrightarrow> same_channel m t (TMR_ICInit x init t)) \<and> no_channel (TMR_ICInit x init t) = no_channel t"
proof -
  note tk = ic_take [OF assms(1)]
  let ?v = "TMR_ICSelection init OR push_bit 4 (TMR_ICFilter init)"
  have "(s OR push_bit 4 f) AND NOT 0x0C = s OR push_bit 4 f" if s: "s AND NOT 0x3 = 0" for s f :: u16
    using outside [OF s] by (simp add: u16_bits)
  then have "?v AND NOT 0x0C = ?v" using assms(1) unfolding ic_valid_def by blast
  moreover have "((take_bit 8 y AND NOT 0xF3) OR w) AND NOT 0x0C = w AND NOT 0x0C" for y w :: u16
    by (simp add: u16_bits)
  then have "((chan_ccm n t AND NOT 0xF3) OR w) AND NOT 0x0C = w AND NOT 0x0C" for w
    unfolding chan_ccm_def field_def by simp
  moreover have "take_bit 4 y AND NOT 0x3 = take_bit 4 y AND 0xC" "take_bit 4 y AND NOT 0xB = take_bit 4 y AND 0x4" for y :: u16
    by (simp_all add: u16_bits)
  then have "chan_cce n t AND NOT (pol_mask x) = chan_cce n t AND (if full_timer x then 0xC else 0x4)"
    unfolding chan_cce_def field_def pol_mask_def by simp
  ultimately show ?thesis
    unfolding ic_init_puts [OF assms(2)] ti_config_puts same_channel_def
    using put_same(1) [OF take_consts(6) tk(1), of n t] put_other(1) [OF _ take_consts(6) tk(1), of _ n t]
      put_same(2) [OF pol_mask_take tk(3), of n x] put_other(2) [OF _ pol_mask_take tk(3), of _ n x]
      put_same(1) [OF take_consts(7) tk(2), of n] put_other(1) [OF _ take_consts(7) tk(2), of _ n]
    by (simp add: or.assoc)
qed

lemma ic_init_exact_witness:
  "let t = TMR_ICInit TMR3 \<lparr>TMR_Channel = 0x4, TMR_ICPolarity = 2, TMR_ICSelection = 1, TMR_ICDIV = 4, TMR_ICFilter = 5\<rparr> tmr_after_reset
   in chan_ccm CH2 t = 0x55 \<and> chan_cce CH2 t = 3 \<and> same_channel CH3 tmr_after_reset t"
  using ic_init_exact [of "\<lparr>TMR_Channel = 0x4, TMR_ICPolarity = 2, TMR_ICSelection = 1, TMR_ICDIV = 4, TMR_ICFilter = 5\<rparr>" CH2 TMR3 tmr_after_reset]
  by (simp add: ic_valid_def chan_defs field_def tmr_after_reset_def full_timer_def)

text \<open>
  A timer with four channels keeps the complementary polarity bit: once both edges were selected, selecting the
  rising or the falling edge does not deselect them.
\<close>

definition ic_structure :: "channel \<Rightarrow> u16 \<Rightarrow> u16 \<Rightarrow> u16 \<Rightarrow> u16 \<Rightarrow> TMR_ICInitType" where
  "ic_structure n pol sel psc filt =
     \<lparr>TMR_Channel = chan_code n, TMR_ICPolarity = pol, TMR_ICSelection = sel, TMR_ICDIV = psc, TMR_ICFilter = filt\<rparr>"

lemma cce_after_ic:
  assumes "take_bit 4 (pol OR 0x1) = pol OR 0x1"
  shows "chan_cce n (TMR_ICInit x (ic_structure n pol sel psc filt) t) =
    (chan_cce n t AND NOT (pol_mask x)) OR (pol OR 0x1)"
proof -
  have "TMR_Channel (ic_structure n pol sel psc filt) = chan_code n" by (simp add: ic_structure_def)
  from ic_init_puts [OF this, of x t] show ?thesis
    by (simp add: ti_config_puts put_same(2) [OF pol_mask_take assms] ic_structure_def)
qed

text \<open>
  On a timer with four channels, choosing both edges for an input capture and later the rising or the falling one
  leaves the complementary polarity bit set, so that the channel is not configured as the second structure
  asks; on the other timers the second choice replaces the first.
\<close>

lemma ic_both_edges_stay:
  assumes "p \<in> {0x0, 0x2}"
  shows "chan_cce n (TMR_ICInit x (ic_structure n p sel psc filt) (TMR_ICInit x (ic_structure n 0xA sel' psc' filt') t)) =
    (if full_timer x then (chan_cce n t AND 0x4) OR 0x8 OR p OR 0x1 else (chan_cce n t AND 0x4) OR p OR 0x1)"
proof -
  have t: "take_bit 4 (p OR 0x1) = p OR 0x1" "take_bit 4 (0xA OR 0x1) = (0xA OR 0x1 :: u16)"
    using assms by (auto simp: take_bit_eq_mask mask_numeral)
  have "((take_bit 4 y AND NOT 0x3) OR 0xB) AND NOT 0x3 OR (p OR 0x1) = (take_bit 4 y AND 0x4) OR 0x8 OR p OR 0x1"
    "((take_bit 4 y AND NOT 0xB) OR 0xB) AND NOT 0xB OR (p OR 0x1) = (take_bit 4 y AND 0x4) OR p OR 0x1" for y :: u16
    using assms by (auto simp: u16_bits)
  then show ?thesis
    unfolding cce_after_ic [OF t(1)] cce_after_ic [OF t(2)] pol_mask_def by (simp add: chan_cce_def field_def)
qed

lemma ic_both_edges_stay_witness:
  "chan_cce CH1 (TMR_ICInit TMR2 (ic_structure CH1 0x0 1 0 0) (TMR_ICInit TMR2 (ic_structure CH1 0xA 1 0 0) tmr_after_reset)) = 9"
  using ic_both_edges_stay [of 0 CH1 TMR2 1 0 0 1 0 0 tmr_after_reset]
  by (simp add: full_timer_def chan_defs field_def tmr_after_reset_def)

section \<open>PWM input, quadrature and external clocks\<close>

text \<open>
  The two channels of a PWM input watch the same pin: \<^verbatim>\<open>TMR_PWMIConfig\<close> makes one of them capture the opposite edge of
  the other one's input.
\<close>

lemma pwmi_puts:
  "TMR_Channel init = chan_code n \<Longrightarrow> n = CH1 \<and> m = CH2 \<or> n = CH2 \<and> m = CH1 \<Longrightarrow>
   TMR_PWMIConfig x init t = put_ccm m 0x0C (TMR_ICDIV init) (ti_config m x
     (if TMR_ICPolarity init = 0 then 2 else 0) (if TMR_ICSelection init = 1 then 2 else 1) (TMR_ICFilter init)
     (put_ccm n 0x0C (TMR_ICDIV init)
       (ti_config n x (TMR_ICPolarity init) (TMR_ICSelection init) (TMR_ICFilter init) t)))"
  by (auto simp: TMR_PWMIConfig_def Let_def channel_fields)

text \<open>The opposite structure, as the code computes it for the second channel.\<close>

definition opposite :: "channel \<Rightarrow> TMR_ICInitType \<Rightarrow> TMR_ICInitType" where
  "opposite m init = \<lparr>TMR_Channel = chan_code m, TMR_ICPolarity = (if TMR_ICPolarity init = 0 then 2 else 0),
     TMR_ICSelection = (if TMR_ICSelection init = 1 then 2 else 1), TMR_ICDIV = TMR_ICDIV init, TMR_ICFilter = TMR_ICFilter init\<rparr>"

text \<open>
  C35.  Configuring a PWM input is configuring two input captures: \<^verbatim>\<open>TMR_PWMIConfig\<close> does what two calls of \<^verbatim>\<open>TMR_ICInit\<close>
  do, one with the caller's structure and one for the other channel of the pair with the opposite edge and the
  crossed input.
\<close>

theorem pwmi_is_two_captures:
  assumes "TMR_Channel init = chan_code n" "n = CH1 \<and> m = CH2 \<or> n = CH2 \<and> m = CH1"
  shows "TMR_PWMIConfig x init t = TMR_ICInit x (opposite m init) (TMR_ICInit x init t)"
  unfolding pwmi_puts [OF assms] ic_init_puts [OF assms(1)]
  by (subst ic_init_puts [of _ m]) (simp_all add: opposite_def)

theorem pwmi_is_two_captures_witness:
  "TMR_PWMIConfig TMR3 TMR_ICStructInit tmr_after_reset =
     TMR_ICInit TMR3 (opposite CH2 TMR_ICStructInit) (TMR_ICInit TMR3 TMR_ICStructInit tmr_after_reset)"
  by (rule pwmi_is_two_captures [of _ CH1]) (simp_all add: TMR_ICStructInit_def)

text \<open>Clock sources and slave modes: the mode, the trigger and the second external clock of the slave mode register.\<close>

definition slave_mode :: "tmr_regs \<Rightarrow> u16" where
  "slave_mode t = tm_SMC t AND 0x7"

definition trigger :: "tmr_regs \<Rightarrow> u16" where
  "trigger t = tm_SMC t AND 0x70"

lemmas smc_defs = slave_mode_def trigger_def TMR_InternalClockConfig_def TMR_SelectInputTrigger_def
  TMR_ITRxExternalClockConfig_def TMR_TIxExternalClockConfig_def TMR_ETRConfig_def TMR_ETRClockMode1Config_def
  TMR_ETRClockMode2Config_def TMR_SelectSlaveMode_def TMR_SelectMasterSlaveMode_def Let_def

text \<open>
  The external clocks select the external clock mode and their trigger whatever the register held, and the
  internal clock leaves no slave mode; but it leaves the second external clock running: after
  \<^verbatim>\<open>TMR_ETRClockMode2Config\<close>, a call of \<^verbatim>\<open>TMR_InternalClockConfig\<close> does not clear its enable bit.
\<close>

lemma clock_sources:
  assumes "src AND NOT 0x70 = 0"
  shows "slave_mode (TMR_ITRxExternalClockConfig src t) = 0x7 \<and> trigger (TMR_ITRxExternalClockConfig src t) = src \<and>
    slave_mode (TMR_TIxExternalClockConfig x src pol filt t) = 0x7 \<and> trigger (TMR_TIxExternalClockConfig x src pol filt t) = src \<and>
    slave_mode (TMR_ETRClockMode1Config psc pol filt t) = 0x7 \<and> trigger (TMR_ETRClockMode1Config psc pol filt t) = 0x70 \<and>
    slave_mode (TMR_InternalClockConfig t) = 0 \<and> TMR_InternalClockConfig t = t\<lparr>tm_SMC := tm_SMC t AND NOT 0x7\<rparr> \<and>
    tm_SMC (TMR_InternalClockConfig (TMR_ETRClockMode2Config psc pol filt t)) AND 0x4000 = 0x4000"
  using outside [OF assms] by (simp add: smc_defs u16_bits)

lemma clock_sources_witness:
  "tm_SMC (TMR_InternalClockConfig (TMR_ETRClockMode2Config 0x1000 0 0 tmr_after_reset)) AND 0x4000 = 0x4000"
  using clock_sources [of "0x50" tmr_after_reset TMR1 0 0 "0x1000"] by simp

end
