(* ===== verification/LwDef.thy ===== *)
theory LwDef
  imports Prelude
begin

text \<open>
  \<^verbatim>\<open>def.c\<close> of the network stack in \<^verbatim>\<open>lwip-2.1.2\<close>, as the port configures it (little endian): byte order,
  and the stack's own string functions.  A C string is the memory from its first character on, as a
  list of bytes; reading past the list is the fault \<open>OutOfBounds\<close>.
\<close>

section \<open>Byte order\<close>

definition lwip_htons :: "u16 \<Rightarrow> u16" where
  "lwip_htons x = push_bit 8 (x AND 0x00FF) OR drop_bit 8 (x AND 0xFF00)"

definition lwip_htonl :: "u32 \<Rightarrow> u32" where
  "lwip_htonl x = push_bit 24 (x AND 0x000000FF) OR push_bit 8 (x AND 0x0000FF00)
     OR drop_bit 8 (x AND 0x00FF0000) OR drop_bit 24 (x AND 0xFF000000)"

text \<open>The bytes of a word in memory.\<close>

definition bytes32 :: "u32 \<Rightarrow> u8 list" where
  "bytes32 w = [ucast w, ucast (drop_bit 8 w), ucast (drop_bit 16 w), ucast (drop_bit 24 w)]"

section \<open>Strings\<close>

text \<open>\<^verbatim>\<open>strlen\<close> and \<^verbatim>\<open>strncmp(a, b, n) == 0\<close> of the C library, on memory.\<close>

fun c_strlen :: "u8 list \<Rightarrow> fault + nat" where
  "c_strlen [] = Inl OutOfBounds"
| "c_strlen (c # s) = (if c = 0 then Inr 0 else seq (c_strlen s) (\<lambda>n. Inr (Suc n)))"

fun c_strneq :: "u8 list \<Rightarrow> u8 list \<Rightarrow> nat \<Rightarrow> fault + bool" where
  "c_strneq s1 s2 0 = Inr True"
| "c_strneq (a # s1) (b # s2) (Suc n) =
     (if a \<noteq> b then Inr False else if a = 0 then Inr True else c_strneq s1 s2 n)"
| "c_strneq s1 s2 (Suc n) = Inl OutOfBounds"

text \<open>The loop over \<open>p\<close>: \<open>i\<close> is \<^verbatim>\<open>p - buffer\<close> and the list the memory at \<open>p\<close>.\<close>

fun strnstr_loop :: "u8 list \<Rightarrow> nat \<Rightarrow> nat \<Rightarrow> nat \<Rightarrow> u8 list \<Rightarrow> fault + nat option" where
  "strnstr_loop token tokenlen n i [] = Inl OutOfBounds"
| "strnstr_loop token tokenlen n i (c # p) =
     (if c \<noteq> 0 \<and> i + tokenlen \<le> n then
        seq (index token 0) (\<lambda>t.
        seq (if c = t then c_strneq (c # p) token tokenlen else Inr False) (\<lambda>eq.
          if eq then Inr (Some i) else strnstr_loop token tokenlen n (i + 1) p))
      else Inr None)"

definition lwip_strnstr :: "u8 list \<Rightarrow> u8 list \<Rightarrow> nat \<Rightarrow> fault + nat option" where
  "lwip_strnstr buffer token n =
     seq (c_strlen token) (\<lambda>tokenlen.
       if tokenlen = 0 then Inr (Some 0) else strnstr_loop token tokenlen n 0 buffer)"

text \<open>The test both comparisons make on a pair of characters: \<open>True\<close> lets the loop go on.\<close>

definition same_letter :: "u8 \<Rightarrow> u8 \<Rightarrow> bool" where
  "same_letter c1 c2 =
     (if c1 \<noteq> c2 then
        (let c1_upc = c1 OR 0x20
         in if 0x61 \<le> c1_upc \<and> c1_upc \<le> 0x7A then (let c2_upc = c2 OR 0x20 in c1_upc = c2_upc)
            else False)
      else True)"

fun lwip_stricmp :: "u8 list \<Rightarrow> u8 list \<Rightarrow> fault + int" where
  "lwip_stricmp (c1 # str1) (c2 # str2) =
     (if \<not> same_letter c1 c2 then Inr 1
      else if c1 \<noteq> 0 then lwip_stricmp str1 str2 else Inr 0)"
| "lwip_stricmp str1 str2 = Inl OutOfBounds"

text \<open>\<open>len\<close> is a 32-bit \<^verbatim>\<open>size_t\<close> and is decremented before it is tested.\<close>

fun lwip_strnicmp :: "u8 list \<Rightarrow> u8 list \<Rightarrow> u32 \<Rightarrow> fault + int" where
  "lwip_strnicmp (c1 # str1) (c2 # str2) len =
     (if \<not> same_letter c1 c2 then Inr 1
      else (let len = len - 1
            in if len \<noteq> 0 \<and> c1 \<noteq> 0 then lwip_strnicmp str1 str2 len else Inr 0))"
| "lwip_strnicmp str1 str2 len = Inl OutOfBounds"

section \<open>Numbers as text\<close>

text \<open>The loop that writes the digits downwards from \<open>tmp\<close> as long as \<open>tmp > res\<close>.\<close>

fun itoa_digits :: "nat \<Rightarrow> nat \<Rightarrow> nat \<Rightarrow> u8 list \<Rightarrow> nat \<times> nat \<times> u8 list" where
  "itoa_digits n tmp res buf =
     (if n \<noteq> 0 \<and> res < tmp
      then itoa_digits (n div 10) (tmp - 1) res (buf[tmp - 1 := of_nat (48 + n mod 10)])
      else (n, tmp, buf))"

declare itoa_digits.simps [simp del]

text \<open>\<^verbatim>\<open>memmove\<close> of \<open>k\<close> bytes from index \<open>src\<close> to index \<open>dst\<close>.\<close>

definition move :: "nat \<Rightarrow> nat \<Rightarrow> nat \<Rightarrow> u8 list \<Rightarrow> u8 list" where
  "move dst src k buf = take dst buf @ take k (drop src buf) @ drop (dst + k) buf"

text \<open>
  \<open>result\<close> is the memory at the result pointer; \<open>number\<close> is a 32-bit \<^verbatim>\<open>int\<close>, whose least value has no
  negation.
\<close>

definition lwip_itoa :: "u8 list \<Rightarrow> nat \<Rightarrow> int \<Rightarrow> fault + u8 list" where
  "lwip_itoa result bufsize number =
     (if number = - (2 ^ 31) then Inl SignedOverflow
      else
        (let n = nat (if 0 \<le> number then number else - number)
         in if bufsize < 2 then
              (if bufsize = 1 then seq (index result 0) (\<lambda>_. Inr (result[0 := 0])) else Inr result)
            else if length result < bufsize then Inl OutOfBounds
            else
              (let (res, buf) = (if number < 0 then (1, result[0 := 45]) else (0, result));
                   buf = buf[bufsize - 1 := 0];
                   (n, tmp, buf) = itoa_digits n (bufsize - 1) res buf
               in if n \<noteq> 0 then Inr (buf[0 := 0])
                  else if buf ! tmp = 0 then Inr (buf[res := 48, res + 1 := 0])
                  else Inr (move res tmp (bufsize - tmp) buf))))"

section \<open>Byte order: the bytes are exchanged\<close>

lemma byte_masks16: "(0x00FF :: u16) = mask 8" "(0xFF00 :: u16) = push_bit 8 (mask 8)"
  by (simp_all add: mask_eq_exp_minus_1)

lemma byte_masks32:
  "(0x000000FF :: u32) = mask 8" "(0x0000FF00 :: u32) = push_bit 8 (mask 8)"
  "(0x00FF0000 :: u32) = push_bit 16 (mask 8)" "(0xFF000000 :: u32) = push_bit 24 (mask 8)"
  by (simp_all add: mask_eq_exp_minus_1)

lemma bit_htons: "bit (lwip_htons x) n \<longleftrightarrow> n < 16 \<and> bit x (if n < 8 then n + 8 else n - 8)"
  by (auto simp: lwip_htons_def byte_masks16 bit_simps ac_simps dest: bit_imp_le_length)

lemma bit_htonl:
  "bit (lwip_htonl x) n \<longleftrightarrow> n < 32 \<and> bit x (if n < 8 then n + 24 else if n < 16 then n + 8
     else if n < 24 then n - 8 else n - 24)"
  by (auto simp: lwip_htonl_def byte_masks32 bit_simps ac_simps dest: bit_imp_le_length)

lemma htons_htons: "lwip_htons (lwip_htons x) = x"
  by (rule bit_word_eqI) (auto simp: bit_htons)

lemma htonl_htonl: "lwip_htonl (lwip_htonl x) = x"
  by (rule bit_word_eqI) (auto simp: bit_htonl)

lemma htons_split:
  "lwip_htons x = push_bit 8 (take_bit 8 x) OR drop_bit 8 x"
  by (rule bit_word_eqI) (auto simp: bit_htons bit_simps ac_simps dest: bit_imp_le_length)

lemma unat_htons: "unat (lwip_htons x) = 256 * (unat x mod 256) + unat x div 256"
proof -
  have d: "push_bit 8 (take_bit 8 x) AND drop_bit 8 x = 0"
    by (rule bit_word_eqI) (auto simp: bit_simps dest: bit_imp_le_length)
  have l: "unat x div 256 < 256" using unsigned_less [of x, where 'a=nat] by simp
  have p: "unat (push_bit 8 (take_bit 8 x)) = 256 * (unat x mod 256)"
    using unsigned_less [of x, where 'a=nat] unfolding unsigned_push_bit_eq unsigned_take_bit_eq
    by (simp add: push_bit_eq_mult take_bit_eq_mod)
  have "lwip_htons x = push_bit 8 (take_bit 8 x) + drop_bit 8 x"
    by (simp only: htons_split disjunctive_add_eq_or [OF d])
  then show ?thesis
    using l by (simp add: unat_word_ariths p unat_drop)
qed

lemma unat_byte: "unat (ucast (drop_bit k (w :: 'a::len word)) :: u8) = unat w div 2 ^ k mod 256"
  by (simp add: unsigned_ucast_eq take_bit_eq_mod unat_drop)

section \<open>Searching and comparing\<close>

lemma c_strlen_app: "0 \<notin> set t \<Longrightarrow> c_strlen (t @ 0 # r) = Inr (length t)"
  by (induction t) auto

lemma c_strneq_app:
  "0 \<notin> set p \<Longrightarrow> 0 \<notin> set t \<Longrightarrow>
   c_strneq (p @ 0 # r) (t @ 0 # r') (length t) = Inr (take (length t) p = t)"
proof (induction t arbitrary: p)
  case (Cons a t)
  then show ?case by (cases p) auto
qed simp

definition occurs_at :: "u8 list \<Rightarrow> u8 list \<Rightarrow> nat \<Rightarrow> nat \<Rightarrow> bool" where
  "occurs_at b t n i \<longleftrightarrow> i + length t \<le> n \<and> take (length t) (drop i b) = t"

lemma occurs_in: "t \<noteq> [] \<Longrightarrow> occurs_at b t n i \<Longrightarrow> i + length t \<le> length b"
proof -
  assume "t \<noteq> []" and "occurs_at b t n i"
  then have "length (take (length t) (drop i b)) = length t" "length t \<noteq> 0"
    by (simp_all add: occurs_at_def)
  then show ?thesis unfolding length_take length_drop by linarith
qed

lemma strnstr_loop_step:
  "c \<noteq> 0 \<Longrightarrow> strnstr_loop (a # t) k n i (c # p) =
    (if i + k \<le> n then
       seq (if c = a then c_strneq (c # p) (a # t) k else Inr False)
         (\<lambda>eq. if eq then Inr (Some i) else strnstr_loop (a # t) k n (i + 1) p)
     else Inr None)"
  by (simp add: index_def)

text \<open>
  From index \<open>i\<close> on, with no occurrence before it, the loop finds the first occurrence that lies within
  the first \<open>n\<close> characters.
\<close>

lemma strnstr_loop_first:
  assumes "0 \<notin> set b" "0 \<notin> set t" "t \<noteq> []" "i \<le> length b" "\<forall>j<i. \<not> occurs_at b t n j"
  shows "strnstr_loop (t @ 0 # r') (length t) n i (drop i b @ 0 # r) =
    Inr (if \<exists>j. occurs_at b t n j then Some (LEAST j. occurs_at b t n j) else None)"
  using assms
proof (induction "length b - i" arbitrary: i)
  case 0
  then have i: "i = length b" by simp
  have "\<not> occurs_at b t n j" for j
  proof
    assume j: "occurs_at b t n j"
    have "length t \<noteq> 0" using 0 by simp
    then have "j < i" using occurs_in [OF _ j] 0 i by linarith
    then show False using 0 j by blast
  qed
  then show ?case using i by simp
next
  case (Suc k)
  then have lt: "i < length b" by simp
  then have d: "drop i b = b ! i # drop (Suc i) b" by (simp add: Cons_nth_drop_Suc)
  have nz: "b ! i \<noteq> 0" using Suc.prems(1) lt nth_mem by fastforce
  obtain a t' where t: "t = a # t'" using Suc.prems(3) by (cases t) auto
  have zd: "0 \<notin> set (drop i b)" using Suc.prems(1) in_set_dropD by fastforce
  have tt: "t @ 0 # r' = a # (t' @ 0 # r')" by (simp add: t)
  have eq: "(if b ! i = a then c_strneq (b ! i # drop (Suc i) b @ 0 # r) (t @ 0 # r') (length t)
      else Inr False) = Inr (take (length t) (drop i b) = t)"
    using c_strneq_app [OF zd Suc.prems(2), of r r'] by (auto simp: t d)
  have "strnstr_loop (t @ 0 # r') (length t) n i (b ! i # drop (Suc i) b @ 0 # r) =
      (if i + length t \<le> n then
         seq (if b ! i = a then c_strneq (b ! i # drop (Suc i) b @ 0 # r) (t @ 0 # r') (length t)
              else Inr False)
           (\<lambda>eq. if eq then Inr (Some i)
              else strnstr_loop (t @ 0 # r') (length t) n (i + 1) (drop (Suc i) b @ 0 # r))
       else Inr None)"
    unfolding tt by (rule strnstr_loop_step [OF nz])
  then have step: "strnstr_loop (t @ 0 # r') (length t) n i (drop i b @ 0 # r) =
      (if occurs_at b t n i then Inr (Some i)
       else if i + length t \<le> n
       then strnstr_loop (t @ 0 # r') (length t) n (Suc i) (drop (Suc i) b @ 0 # r)
       else Inr None)"
    unfolding eq by (simp add: occurs_at_def d)
  show ?case
  proof (cases "occurs_at b t n i")
    case True
    then have "(LEAST j. occurs_at b t n j) = i"
      using Suc.prems(5) by (intro Least_equality) (auto simp: not_less [symmetric])
    then show ?thesis using True by (auto simp: step)
  next
    case no: False
    show ?thesis
    proof (cases "i + length t \<le> n")
      case False
      then have "\<not> occurs_at b t n j" for j
        using Suc.prems(5) by (cases "j < i") (auto simp: occurs_at_def)
      then show ?thesis using no False by (simp add: step)
    next
      case True
      have "strnstr_loop (t @ 0 # r') (length t) n (Suc i) (drop (Suc i) b @ 0 # r) =
        Inr (if \<exists>j. occurs_at b t n j then Some (LEAST j. occurs_at b t n j) else None)"
        using Suc.hyps(2) lt no Suc.prems by (intro Suc.hyps(1)) (auto simp: less_Suc_eq)
      then show ?thesis using no True by (simp add: step)
    qed
  qed
qed

lemma lwip_strnstr_first:
  assumes "0 \<notin> set b" "0 \<notin> set t"
  shows "lwip_strnstr (b @ 0 # r) (t @ 0 # r') n =
    Inr (if \<exists>j. occurs_at b t n j then Some (LEAST j. occurs_at b t n j) else None)"
proof (cases "t = []")
  case True
  have "occurs_at b [] n 0" by (simp add: occurs_at_def)
  moreover from this have "(LEAST j. occurs_at b [] n j) = 0" by (rule Least_equality) simp
  ultimately show ?thesis using True by (auto simp: lwip_strnstr_def)
next
  case False
  then show ?thesis
    using strnstr_loop_first [OF assms False, of 0 n r' r] assms
    by (simp add: lwip_strnstr_def c_strlen_app)
qed

text \<open>ASCII lower case.\<close>

definition lower :: "u8 \<Rightarrow> u8" where
  "lower c = (if 0x41 \<le> c \<and> c \<le> 0x5A then c + 32 else c)"

definition letter :: "u8 \<Rightarrow> bool" where
  "letter c \<longleftrightarrow> 0x61 \<le> c OR 0x20 \<and> c OR 0x20 \<le> 0x7A"

lemma or_0x20: "(c :: u8) OR 0x20 = (if odd (unat c div 32) then c else c + 32)"
proof -
  have e: "(0x20 :: u8) = push_bit 5 1" by simp
  have b: "bit c 5 \<longleftrightarrow> odd (unat c div 32)"
    using bit_iff_odd [of "unat c" 5] by (simp add: bit_unsigned_iff)
  show ?thesis
  proof (cases "bit c 5")
    case True
    then have "c OR push_bit 5 1 = c" by (intro bit_word_eqI) (auto simp: bit_simps simp del: push_bit_numeral push_bit_of_1)
    then show ?thesis using True b by simp
  next
    case False
    then have "c AND push_bit 5 1 = 0" using and_push_bit_one_eq_0 [of c 5] by simp
    then show ?thesis using False b by (simp add: disjunctive_add_eq_or)
  qed
qed

lemma unat_lower: "unat (lower c) = (if 65 \<le> unat c \<and> unat c \<le> 90 then unat c + 32 else unat c)"
  by (simp add: lower_def word_le_nat_alt unat_word_ariths)

lemma odd_div_32:
  assumes "(x :: nat) < 256"
  shows "odd (x div 32) \<longleftrightarrow> 32 \<le> x \<and> x < 64 \<or> 96 \<le> x \<and> x < 128 \<or> 160 \<le> x \<and> x < 192 \<or> 224 \<le> x"
proof -
  define q where "q = x div 32"
  have x: "32 * q \<le> x" "x < 32 * q + 32" unfolding q_def by linarith+
  have "q < 8" using assms x by simp
  then consider "q = 0" | "q = 1" | "q = 2" | "q = 3" | "q = 4" | "q = 5" | "q = 6" | "q = 7" by arith
  then show ?thesis using x assms unfolding q_def [symmetric] by cases auto
qed

lemma unat_or_0x20: "unat (c OR 0x20 :: u8) = (if odd (unat c div 32) then unat c else unat c + 32)"
  using unsigned_less [of c, where 'a=nat] odd_div_32 [of "unat c"]
  by (auto simp: or_0x20 unat_word_ariths)

lemma letter_iff: "letter c \<longleftrightarrow> 65 \<le> unat c \<and> unat c \<le> 90 \<or> 97 \<le> unat c \<and> unat c \<le> 122"
  using unsigned_less [of c, where 'a=nat] odd_div_32 [of "unat c"]
  by (auto simp add: letter_def word_le_nat_alt unat_or_0x20)

lemma letter_lower: "letter c \<Longrightarrow> c OR 0x20 = lower c"
  using odd_div_32 [of "unat c"]
  by (auto simp add: letter_iff word_unat_eq_iff unat_lower unat_or_0x20)

lemma nonletter_lower: "\<not> letter c \<Longrightarrow> lower c = c"
  by (simp add: letter_iff word_unat_eq_iff unat_lower)

lemma letter_of_lower: "letter (lower c) = letter c"
  by (auto simp add: letter_iff unat_lower)

lemma same_letter_iff: "same_letter c1 c2 \<longleftrightarrow> lower c1 = lower c2"
proof -
  have "same_letter c1 c2 \<longleftrightarrow> c1 = c2 \<or> letter c1 \<and> c1 OR 0x20 = c2 OR 0x20"
    by (auto simp: same_letter_def letter_def Let_def)
  also have "\<dots> \<longleftrightarrow> lower c1 = lower c2"
    using letter_lower [of c1] letter_lower [of c2] nonletter_lower [of c1] nonletter_lower [of c2]
      letter_of_lower [of c1] letter_of_lower [of c2] letter_def [of c1] letter_def [of c2]
    by metis
  finally show ?thesis .
qed

lemma lower_0 [simp]: "lower c = 0 \<longleftrightarrow> c = 0" "0 = lower c \<longleftrightarrow> c = 0" "lower 0 = 0"
  by (auto simp: lower_def word_le_nat_alt word_unat_eq_iff unat_word_ariths)

lemma lwip_stricmp_iff:
  assumes "0 \<notin> set s1" "0 \<notin> set s2"
  shows "lwip_stricmp (s1 @ 0 # r1) (s2 @ 0 # r2) = Inr (if map lower s1 = map lower s2 then 0 else 1)"
  using assms
proof (induction s1 arbitrary: s2)
  case Nil
  then show ?case by (cases s2) (auto simp: same_letter_iff)
next
  case (Cons a s1)
  then show ?case by (cases s2) (auto simp: same_letter_iff)
qed

text \<open>With a positive length the bounded comparison looks at the first \<open>len\<close> characters at most.\<close>

lemma lwip_strnicmp_iff:
  assumes "0 \<notin> set s1" "0 \<notin> set s2" "len \<noteq> 0"
  shows "lwip_strnicmp (s1 @ 0 # r1) (s2 @ 0 # r2) len =
    Inr (if map lower (take (unat len) s1) = map lower (take (unat len) s2) then 0 else 1)"
  using assms
proof (induction s1 arbitrary: s2 len)
  case Nil
  then show ?case by (cases s2) (auto simp: same_letter_iff Let_def unat_eq_0)
next
  case (Cons a s1)
  have u: "unat len = Suc (unat (len - 1))"
    using Cons.prems(3) by (simp add: unat_minus_one unat_gt_0)
  show ?case using Cons by (cases s2) (auto simp: same_letter_iff u Let_def)
qed

section \<open>Decimal text\<close>

text \<open>The decimal digits of a number, most significant first, none for 0.\<close>

fun digits :: "nat \<Rightarrow> u8 list" where
  "digits n = (if n = 0 then [] else digits (n div 10) @ [of_nat (48 + n mod 10)])"

declare digits.simps [simp del]

lemma digits_0 [simp]: "digits 0 = []"
  by (simp add: digits.simps)

lemma digits_pos: "0 < n \<Longrightarrow> digits n = digits (n div 10) @ [of_nat (48 + n mod 10)]"
  by (simp add: digits.simps)

definition decimal :: "nat \<Rightarrow> u8 list" where
  "decimal n = (if n = 0 then [48] else digits n)"

definition decimal_int :: "int \<Rightarrow> u8 list" where
  "decimal_int k = (if k < 0 then 45 # decimal (nat (- k)) else decimal (nat k))"

lemma length_digits_pos: "0 < n \<Longrightarrow> 0 < length (digits n)"
  by (simp add: digits_pos)

lemma drop_list_update: "i < length xs \<Longrightarrow> drop i (xs[i := x]) = x # drop (Suc i) xs"
  by (simp add: upd_conv_take_nth_drop)

lemma itoa_digits_end:
  "itoa_digits n tmp res buf = (n', tmp', buf') \<Longrightarrow> res \<le> tmp \<Longrightarrow> tmp \<le> length buf \<Longrightarrow>
   (if length (digits n) \<le> tmp - res
    then n' = 0 \<and> tmp' = tmp - length (digits n) \<and>
      buf' = take tmp' buf @ digits n @ drop tmp buf
    else n' \<noteq> 0) \<and> length buf' = length buf"
proof (induction n tmp res buf arbitrary: n' tmp' buf' rule: itoa_digits.induct)
  case (1 n tmp res buf)
  show ?case
  proof (cases "n \<noteq> 0 \<and> res < tmp")
    case False
    then have "n' = n" "tmp' = tmp" "buf' = buf"
      using "1.prems"(1) by (auto simp: itoa_digits.simps [of n] split: if_splits)
    then show ?thesis using False "1.prems"(2) length_digits_pos [of n] by (cases "n = 0") auto
  next
    case True
    let ?d = "of_nat (48 + n mod 10) :: u8" and ?b = "buf[tmp - 1 := of_nat (48 + n mod 10)]"
    have run: "itoa_digits (n div 10) (tmp - 1) res ?b = (n', tmp', buf')"
      using "1.prems"(1) True by (simp add: itoa_digits.simps [of n])
    have len: "tmp - 1 \<le> length ?b" "res \<le> tmp - 1" using "1.prems" True by auto
    note ih = "1.IH" [OF True run len(2) len(1)]
    have l: "length (digits n) = Suc (length (digits (n div 10)))" using True by (simp add: digits_pos)
    have "drop (tmp - 1) ?b = ?d # drop tmp buf"
      using True "1.prems"(3) by (subst drop_list_update) auto
    moreover have "length (digits (n div 10)) \<le> tmp - 1 - res \<longleftrightarrow> length (digits n) \<le> tmp - res"
      using True l by linarith
    ultimately show ?thesis
      using ih True l by (auto simp: digits_pos [of n])
  qed
qed

lemma of_nat_digit: "(of_nat (48 + n mod 10) :: u8) \<noteq> 0"
proof -
  have "unat (of_nat (48 + n mod 10) :: u8) = 48 + n mod 10"
    by (intro unat_of_nat_small) simp
  then show ?thesis by (metis add_is_0 unat_0 zero_neq_numeral)
qed

lemma digits_nonzero: "0 \<notin> set (digits n)"
  using of_nat_digit by (induction n rule: digits.induct) (subst digits.simps, auto simp del: of_nat_add)

lemma length_move: "dst \<le> src \<Longrightarrow> src + k \<le> length buf \<Longrightarrow> length (move dst src k buf) = length buf"
  by (simp add: move_def)

lemma move_shift:
  "length a = dst \<Longrightarrow> length b = src - dst \<Longrightarrow> dst \<le> src \<Longrightarrow> length c = k \<Longrightarrow>
   take (dst + k) (move dst src k (a @ b @ c @ d)) = a @ c"
  by (simp add: move_def)

text \<open>
  In a buffer of \<open>bufsize\<close> bytes the text and its terminator are written when they fit, and the empty
  text otherwise.
\<close>

lemma lwip_itoa_text:
  assumes k: "- (2 ^ 31) < k" and two: "2 \<le> bufsize" and len: "bufsize \<le> length result"
  shows "\<exists>buf. lwip_itoa result bufsize k = Inr buf \<and> length buf = length result \<and>
    (if length (decimal_int k) < bufsize
     then take (Suc (length (decimal_int k))) buf = decimal_int k @ [0] else buf ! 0 = 0)"
proof -
  define n where "n = nat (if 0 \<le> k then k else - k)"
  define res where "res = (if k < 0 then 1 else 0 :: nat)"
  define b0 where "b0 = (if k < 0 then result[0 := 45] else result)[bufsize - 1 := 0]"
  obtain n' tmp' b where run: "itoa_digits n (bufsize - 1) res b0 = (n', tmp', b)"
    by (cases "itoa_digits n (bufsize - 1) res b0") auto
  have lb0: "length b0 = length result" by (simp add: b0_def)
  have itoa: "lwip_itoa result bufsize k =
      (if n' \<noteq> 0 then Inr (b[0 := 0])
       else if b ! tmp' = 0 then Inr (b[res := 48, res + 1 := 0])
       else Inr (move res tmp' (bufsize - tmp') b))"
    using k two len run
    by (auto simp: lwip_itoa_def Let_def n_def res_def b0_def)
  have fin: "(if length (digits n) \<le> bufsize - 1 - res
      then n' = 0 \<and> tmp' = bufsize - 1 - length (digits n) \<and>
        b = take tmp' b0 @ digits n @ drop (bufsize - 1) b0
      else n' \<noteq> 0) \<and> length b = length b0"
    using two len by (intro itoa_digits_end [OF run]) (auto simp: lb0 res_def)
  have d0: "drop (bufsize - 1) b0 = 0 # drop bufsize b0"
    using drop_list_update [of "bufsize - 1" "if k < 0 then result[0 := 45] else result" 0] two len
    by (simp add: b0_def)
  have t0: "take res b0 = (if k < 0 then [45] else [])"
    using two len by (cases result) (auto simp: b0_def res_def nth_list_update take_Suc split: nat.split)
  have dec: "n \<noteq> 0 \<Longrightarrow> decimal_int k = take res b0 @ digits n"
    by (auto simp: t0 decimal_int_def decimal_def n_def)
  have lres: "length (take res b0) = res" using two len lb0 by (simp add: res_def)
  show ?thesis
  proof (cases "length (digits n) \<le> bufsize - 1 - res")
    case False
    then have "n \<noteq> 0" by (cases "n = 0") auto
    then have "\<not> length (decimal_int k) < bufsize" using False lres two by (auto simp: dec)
    moreover have "b[0 := 0] ! 0 = 0" using two len fin lb0 by (cases b) auto
    ultimately show ?thesis using False fin lb0 by (simp add: itoa)
  next
    case True
    then have b: "n' = 0" "tmp' = bufsize - 1 - length (digits n)"
        "b = take tmp' b0 @ digits n @ 0 # drop bufsize b0"
      using fin d0 by auto
    have lt: "length (take tmp' b0) = tmp'" using b(2) len lb0 by simp
    show ?thesis
    proof (cases "n = 0")
      case zero: True
      then have k0: "k = 0" by (simp add: n_def split: if_splits)
      have "b ! tmp' = 0" using b lt zero by (simp add: nth_append)
      moreover have "take 2 (b[0 := 48, 1 := 0]) = [48, 0]"
        using two len fin lb0 by (cases b; cases "tl b") auto
      ultimately show ?thesis
        using two lb0 fin b(1) itoa by (simp add: k0 res_def decimal_int_def decimal_def numeral_2_eq_2)
    next
      case pos: False
      have "b ! tmp' = hd (digits n)" and ne: "digits n \<noteq> []"
        using b(3) lt length_digits_pos [of n] pos by (auto simp: nth_append hd_conv_nth)
      then have nz: "b ! tmp' \<noteq> 0" using digits_nonzero [of n] by (metis hd_in_set)
      have le: "res \<le> tmp'" using True b(2) two by (simp add: res_def split: if_splits)
      define m where "m = take (tmp' - res) (drop res b0)"
      have bs: "b = take res b0 @ m @ (digits n @ [0]) @ drop bufsize b0"
        using b(3) le by (simp add: m_def) (metis append.assoc le_add_diff_inverse take_add)
      have ks: "length (digits n @ [0]) = bufsize - tmp'" using b(2) two True by simp
      have lm: "length m = tmp' - res" using lt le by (simp add: m_def)
      have mv: "take (res + (bufsize - tmp')) (move res tmp' (bufsize - tmp') b) =
          take res b0 @ digits n @ [0]"
        unfolding bs by (rule move_shift [OF lres lm le ks])
      have lmv: "length (move res tmp' (bufsize - tmp') b) = length result"
        using len fin lb0 b(2) le by (subst length_move) auto
      have ld: "length (decimal_int k) = res + length (digits n)" using pos lres by (simp add: dec)
      have "Suc (res + length (digits n)) = res + (bufsize - tmp')" using ks by simp
      then have "take (Suc (length (decimal_int k))) (move res tmp' (bufsize - tmp') b) = decimal_int k @ [0]"
        unfolding ld using mv by (simp only: dec [OF pos] append.assoc)
      moreover have "length (decimal_int k) < bufsize"
        using True two by (simp add: ld res_def split: if_splits)
      ultimately show ?thesis
        using b(1) nz lmv by (simp add: itoa)
    qed
  qed
qed

text \<open>
  The least \<^verbatim>\<open>int\<close> cannot be negated, and a bounded comparison of length 0 is not bounded: the counter is
  decremented before it is tested.
\<close>

lemma lwip_itoa_least: "lwip_itoa result bufsize (- 2147483648) = Inl SignedOverflow"
  by (simp add: lwip_itoa_def)

lemma lwip_strnicmp_zero: "lwip_strnicmp [0x61, 0x62, 0] [0x61, 0x63, 0] 0 = Inr 1"
  by (simp add: same_letter_iff lower_def)

end
