(* ===== verification/LwChksum.thy ===== *)
theory LwChksum
  imports LwDef
begin

text \<open>
  \<^verbatim>\<open>inet_chksum.c\<close>: the three checksum routines of the file, of which the port uses the second, and the
  checksums over chains of packet buffers.  A region of memory is its bytes; the routines that look at
  the address of the region take it as well.  A chain of \<^verbatim>\<open>struct pbuf\<close> is the list of the address
  and the bytes of each payload, up to the \<^verbatim>\<open>next\<close> that is NULL.
\<close>

section \<open>Loads and folding\<close>

definition ld16 :: "u8 \<Rightarrow> u8 \<Rightarrow> u16" where
  "ld16 b0 b1 = push_bit 8 (ucast b1) OR ucast b0"

definition ld32 :: "u8 \<Rightarrow> u8 \<Rightarrow> u8 \<Rightarrow> u8 \<Rightarrow> u32" where
  "ld32 b0 b1 b2 b3 = push_bit 16 (ucast (ld16 b2 b3)) OR ucast (ld16 b0 b1)"

definition FOLD_U32T :: "u32 \<Rightarrow> u32" where
  "FOLD_U32T u = drop_bit 16 u + (u AND 0x0000FFFF)"

definition SWAP_BYTES_IN_WORD :: "u32 \<Rightarrow> u32" where
  "SWAP_BYTES_IN_WORD w = push_bit 8 (w AND 0xFF) OR drop_bit 8 (w AND 0xFF00)"

text \<open>\<^verbatim>\<open>((u8_t *)&t)[i] = b\<close> on a little endian \<^verbatim>\<open>u16_t\<close>.\<close>

definition set_byte0 :: "u8 \<Rightarrow> u16 \<Rightarrow> u16" where
  "set_byte0 b t = (t AND 0xFF00) OR ucast b"

definition set_byte1 :: "u8 \<Rightarrow> u16 \<Rightarrow> u16" where
  "set_byte1 b t = (t AND 0x00FF) OR push_bit 8 (ucast b)"

section \<open>The three routines\<close>

subsection \<open>Version 1: byte pairs in network order\<close>

fun sum_be :: "u8 list \<Rightarrow> u32 \<Rightarrow> u32" where
  "sum_be (b0 # b1 # bs) acc = sum_be bs (acc + ucast (push_bit 8 (ucast b0) OR ucast b1 :: u16))"
| "sum_be [b0] acc = acc + ucast (push_bit 8 (ucast b0) :: u16)"
| "sum_be [] acc = acc"

definition lwip_standard_chksum1 :: "u8 list \<Rightarrow> u16" where
  "lwip_standard_chksum1 data =
     (let acc = sum_be data 0;
          acc = drop_bit 16 acc + (acc AND 0x0000FFFF);
          acc = (if acc AND 0xFFFF0000 \<noteq> 0 then drop_bit 16 acc + (acc AND 0x0000FFFF) else acc)
      in lwip_htons (ucast acc))"

subsection \<open>Version 2: aligned half words\<close>

text \<open>The loop that adds half words; it hands over the sum and what is left, one byte at most.\<close>

fun sum_half :: "u8 list \<Rightarrow> u32 \<Rightarrow> u32 \<times> u8 list" where
  "sum_half (b0 # b1 # bs) acc = sum_half bs (acc + ucast (ld16 b0 b1))"
| "sum_half bs acc = (acc, bs)"

text \<open>The end that versions 2 and 3 share: left-over byte, end bytes, two folds, swap.\<close>

definition chksum_end :: "bool \<Rightarrow> u16 \<Rightarrow> u32 \<times> u8 list \<Rightarrow> u16" where
  "chksum_end is_odd t r =
     (let (acc, bs) = r;
          t = (case bs of [] \<Rightarrow> t | b # _ \<Rightarrow> set_byte0 b t);
          acc = FOLD_U32T (FOLD_U32T (acc + ucast t));
          acc = (if is_odd then SWAP_BYTES_IN_WORD acc else acc)
      in ucast acc)"

definition lwip_standard_chksum2 :: "nat \<Rightarrow> u8 list \<Rightarrow> u16" where
  "lwip_standard_chksum2 dataptr data =
     (let is_odd = (dataptr mod 2 = 1);
          (t, pb) = (case data of b # bs \<Rightarrow> if is_odd then (set_byte1 b 0, bs) else (0, data) | [] \<Rightarrow> (0, data))
      in chksum_end is_odd t (sum_half pb 0))"

subsection \<open>Version 3: aligned words with the carry added back\<close>

text \<open>One half of the unrolled loop.\<close>

definition add_carry :: "u32 \<Rightarrow> u32 \<Rightarrow> u32" where
  "add_carry acc w = (let tmp = acc + w in if tmp < acc then tmp + 1 else tmp)"

fun sum_words :: "u8 list \<Rightarrow> u32 \<Rightarrow> u32 \<times> u8 list" where
  "sum_words (b0 # b1 # b2 # b3 # b4 # b5 # b6 # b7 # bs) acc =
     sum_words bs (add_carry (add_carry acc (ld32 b0 b1 b2 b3)) (ld32 b4 b5 b6 b7))"
| "sum_words bs acc = (acc, bs)"

text \<open>The routine from the even address \<open>ps\<close> on.\<close>

definition chksum3_even :: "bool \<Rightarrow> u16 \<Rightarrow> nat \<Rightarrow> u8 list \<Rightarrow> u16" where
  "chksum3_even is_odd t ps pb =
     (let (acc, pb) = (case pb of b0 # b1 # bs \<Rightarrow> if ps mod 4 \<noteq> 0 then (ucast (ld16 b0 b1), bs) else (0, pb)
                       | _ \<Rightarrow> (0, pb));
          (acc, pb) = sum_words pb acc
      in chksum_end is_odd t (sum_half pb (FOLD_U32T acc)))"

definition lwip_standard_chksum3 :: "nat \<Rightarrow> u8 list \<Rightarrow> u16" where
  "lwip_standard_chksum3 dataptr data =
     (let is_odd = (dataptr mod 2 = 1)
      in case data of b # bs \<Rightarrow> if is_odd then chksum3_even is_odd (set_byte1 b 0) (dataptr + 1) bs
                               else chksum3_even is_odd 0 dataptr data
         | [] \<Rightarrow> chksum3_even is_odd 0 dataptr data)"

section \<open>Checksums of the protocols\<close>

definition inet_chksum :: "nat \<Rightarrow> u8 list \<Rightarrow> u16" where
  "inet_chksum dataptr data = NOT (lwip_standard_chksum2 dataptr data)"

type_synonym chain = "(nat \<times> u8 list) list"

text \<open>The loop over the chain: the accumulator and whether its bytes are swapped.\<close>

fun chain_loop :: "chain \<Rightarrow> u32 \<Rightarrow> bool \<Rightarrow> u32 \<times> bool" where
  "chain_loop [] acc swapped = (acc, swapped)"
| "chain_loop ((payload, data) # q) acc swapped =
     (let acc = acc + ucast (lwip_standard_chksum2 payload data);
          acc = FOLD_U32T acc
      in if length data mod 2 \<noteq> 0
         then chain_loop q (SWAP_BYTES_IN_WORD acc) (\<not> swapped) else chain_loop q acc swapped)"

definition inet_chksum_pbuf :: "chain \<Rightarrow> u16" where
  "inet_chksum_pbuf p =
     (let (acc, swapped) = chain_loop p 0 False;
          acc = (if swapped then SWAP_BYTES_IN_WORD acc else acc)
      in NOT (ucast (acc AND 0xFFFF)))"

text \<open>The end of both pseudo header checksums.\<close>

definition pseudo_end :: "u8 \<Rightarrow> u16 \<Rightarrow> u32 \<times> bool \<Rightarrow> u16" where
  "pseudo_end proto proto_len r =
     (let (acc, swapped) = r;
          acc = (if swapped then SWAP_BYTES_IN_WORD acc else acc);
          acc = acc + ucast (lwip_htons (ucast proto));
          acc = acc + ucast (lwip_htons proto_len);
          acc = FOLD_U32T (FOLD_U32T acc)
      in NOT (ucast (acc AND 0xFFFF)))"

definition inet_cksum_pseudo_base :: "chain \<Rightarrow> u8 \<Rightarrow> u16 \<Rightarrow> u32 \<Rightarrow> u16" where
  "inet_cksum_pseudo_base p proto proto_len acc =
     pseudo_end proto proto_len (chain_loop p acc False)"

definition addr_sum :: "u32 \<Rightarrow> u32 \<Rightarrow> u32" where
  "addr_sum src dest =
     (let acc = src AND 0xFFFF;
          acc = acc + (drop_bit 16 src AND 0xFFFF);
          acc = acc + (dest AND 0xFFFF);
          acc = acc + (drop_bit 16 dest AND 0xFFFF)
      in FOLD_U32T (FOLD_U32T acc))"

definition inet_chksum_pseudo :: "chain \<Rightarrow> u8 \<Rightarrow> u16 \<Rightarrow> u32 \<Rightarrow> u32 \<Rightarrow> u16" where
  "inet_chksum_pseudo p proto proto_len src dest =
     inet_cksum_pseudo_base p proto proto_len (addr_sum src dest)"

definition ip_chksum_pseudo :: "chain \<Rightarrow> u8 \<Rightarrow> u16 \<Rightarrow> u32 \<Rightarrow> u32 \<Rightarrow> u16" where
  "ip_chksum_pseudo p proto proto_len src dest = inet_chksum_pseudo p proto proto_len src dest"

text \<open>The loop that stops after \<open>chksum_len\<close> bytes, with the assertion left in it.\<close>

fun partial_loop :: "chain \<Rightarrow> u16 \<Rightarrow> u32 \<Rightarrow> bool \<Rightarrow> fault + u32 \<times> bool" where
  "partial_loop [] chksum_len acc swapped = Inr (acc, swapped)"
| "partial_loop ((payload, data) # q) chksum_len acc swapped =
     (if 0 < chksum_len then
        (let chklen = (of_nat (length data) :: u16);
             chklen = (if chksum_len < chklen then chksum_len else chklen);
             acc = acc + ucast (lwip_standard_chksum2 payload (take (unat chklen) data));
             chksum_len = chksum_len - chklen
         in if \<not> chksum_len < 0x7FFF then Inl AssertFailed
            else (let acc = FOLD_U32T acc
                  in if length data mod 2 \<noteq> 0
                     then partial_loop q chksum_len (SWAP_BYTES_IN_WORD acc) (\<not> swapped)
                     else partial_loop q chksum_len acc swapped))
      else Inr (acc, swapped))"

definition inet_cksum_pseudo_partial_base :: "chain \<Rightarrow> u8 \<Rightarrow> u16 \<Rightarrow> u16 \<Rightarrow> u32 \<Rightarrow> fault + u16" where
  "inet_cksum_pseudo_partial_base p proto proto_len chksum_len acc =
     seq (partial_loop p chksum_len acc False) (\<lambda>r. Inr (pseudo_end proto proto_len r))"

definition inet_chksum_pseudo_partial ::
  "chain \<Rightarrow> u8 \<Rightarrow> u16 \<Rightarrow> u16 \<Rightarrow> u32 \<Rightarrow> u32 \<Rightarrow> fault + u16" where
  "inet_chksum_pseudo_partial p proto proto_len chksum_len src dest =
     inet_cksum_pseudo_partial_base p proto proto_len chksum_len (addr_sum src dest)"

definition ip_chksum_pseudo_partial ::
  "chain \<Rightarrow> u8 \<Rightarrow> u16 \<Rightarrow> u16 \<Rightarrow> u32 \<Rightarrow> u32 \<Rightarrow> fault + u16" where
  "ip_chksum_pseudo_partial p proto proto_len chksum_len src dest =
     inet_chksum_pseudo_partial p proto proto_len chksum_len src dest"

section \<open>The sum of the 16-bit words of a region, in ones' complement\<close>

text \<open>The specification: the plain sum of the little endian words, an odd last byte padded with zero.\<close>

fun wsum :: "u8 list \<Rightarrow> nat" where
  "wsum (b0 # b1 # bs) = unat b0 + 256 * unat b1 + wsum bs"
| "wsum [b0] = unat b0"
| "wsum [] = 0"

text \<open>Ones' complement addition keeps a sum modulo 65535 and tells 0 from the other multiples.\<close>

definition ones :: "nat \<Rightarrow> nat" where
  "ones n = (if n = 0 then 0 else (n - 1) mod 65535 + 1)"

definition ceq :: "nat \<Rightarrow> nat \<Rightarrow> bool" where
  "ceq m n \<longleftrightarrow> m mod 65535 = n mod 65535 \<and> (m = 0 \<longleftrightarrow> n = 0)"

lemma ceq_refl [simp, intro]: "ceq n n"
  by (simp add: ceq_def)

lemma ceq_sym: "ceq m n \<Longrightarrow> ceq n m"
  by (simp add: ceq_def)

lemma ceq_trans [trans]: "ceq l m \<Longrightarrow> ceq m n \<Longrightarrow> ceq l n"
  by (simp add: ceq_def)

lemma ceq_add: "ceq m m' \<Longrightarrow> ceq n n' \<Longrightarrow> ceq (m + n) (m' + n')"
  unfolding ceq_def by (metis add_is_0 mod_add_eq)

lemma ceq_mult: "0 < k \<Longrightarrow> ceq m n \<Longrightarrow> ceq (k * m) (k * n)"
  unfolding ceq_def by (metis mod_mult_right_eq mult_is_0 not_gr_zero)

lemma ceq_high: "ceq (65536 * k + n) (k + n)"
proof -
  have "65536 * k + n = (k + n) + 65535 * k" by simp
  then show ?thesis unfolding ceq_def by (simp only: mod_mult_self2) auto
qed

lemma ceq_swap_twice: "ceq (256 * (256 * n)) n"
  using ceq_high [of n 0] by (simp add: mult.assoc [symmetric])

lemma ones_le: "ones n \<le> 65535"
proof -
  have "(n - 1) mod 65535 \<le> 65534" by (simp add: less_Suc_eq_le [symmetric])
  then show ?thesis by (simp add: ones_def)
qed

lemma ceq_ones: "ceq (ones n) n"
proof (cases n)
  case (Suc m)
  have "(m mod 65535 + 1) mod 65535 = (m + 1) mod 65535" by (rule mod_add_left_eq)
  then show ?thesis using Suc by (simp add: ceq_def ones_def)
qed (simp add: ones_def)

lemma ceq_unique:
  assumes "ceq m n" "m \<le> 65535" "n \<le> 65535"
  shows "m = n"
proof (cases "m = 65535 \<or> n = 65535")
  case True
  then show ?thesis using assms unfolding ceq_def
    by (metis le_neq_implies_less mod_less mod_self zero_neq_numeral)
next
  case False
  then show ?thesis using assms by (simp add: ceq_def)
qed

lemma ones_eqI: "ceq m n \<Longrightarrow> m \<le> 65535 \<Longrightarrow> m = ones n"
  by (rule ceq_unique [OF ceq_trans [OF _ ceq_sym [OF ceq_ones]]]) (simp_all add: ones_le)

lemma ones_cong: "ceq m n \<Longrightarrow> ones m = ones n"
  by (rule ones_eqI [OF ceq_trans [OF ceq_ones]]) (simp_all add: ones_le)

lemma wsum_Cons: "ceq (wsum (b # bs)) (unat b + 256 * wsum bs)"
proof (induction bs arbitrary: b rule: wsum.induct)
  case (1 b0 b1 bs)
  have "ceq (wsum (b # b0 # b1 # bs)) (unat b + 256 * unat b0 + (unat b1 + 256 * wsum bs))"
    using ceq_add [OF ceq_refl 1, of "unat b + 256 * unat b0"] by simp
  also have "ceq \<dots> (unat b + 256 * unat b0 + (256 * (256 * (unat b1)) + 256 * wsum bs))"
    by (intro ceq_add ceq_refl ceq_sym [OF ceq_swap_twice])
  finally show ?case by (simp add: algebra_simps)
qed simp_all

lemma wsum_append:
  "ceq (wsum (xs @ ys)) (wsum xs + (if odd (length xs) then 256 else 1) * wsum ys)"
proof (induction xs rule: wsum.induct)
  case (1 b0 b1 bs)
  then show ?case using ceq_add [OF ceq_refl 1, of "unat b0 + 256 * unat b1"] by (simp add: add.assoc)
next
  case (2 b0)
  then show ?case by (simp add: wsum_Cons)
qed simp_all

lemma wsum_bound: "wsum bs \<le> 65535 * ((length bs + 1) div 2)"
proof (induction bs rule: wsum.induct)
  case (1 b0 b1 bs)
  have "unat b0 < 256" "unat b1 < 256" using unsigned_less [of b0, where 'a=nat] unsigned_less [of b1, where 'a=nat] by auto
  then show ?case using 1 by simp
next
  case (2 b0)
  then show ?case using unsigned_less [of b0, where 'a=nat] by simp
qed simp

section \<open>What each step does to the sum\<close>

lemma unat_ld16: "unat (ld16 b0 b1) = unat b0 + 256 * unat b1"
proof -
  have b: "unat b0 < 256" "unat b1 < 256"
    using unsigned_less [of b0, where 'a=nat] unsigned_less [of b1, where 'a=nat] by auto
  have d: "push_bit 8 (ucast b1 :: u16) AND ucast b0 = 0"
    by (rule bit_word_eqI) (auto simp: bit_simps dest: bit_imp_le_length)
  have "unat (push_bit 8 (ucast b1 :: u16)) = 256 * unat b1"
    unfolding unsigned_push_bit_eq using b(2)
    by (simp add: push_bit_eq_mult take_bit_nat_eq_self unsigned_ucast_eq)
  moreover have "unat (ucast b0 :: u16) = unat b0"
    using b(1) by (simp add: unsigned_ucast_eq take_bit_nat_eq_self)
  ultimately show ?thesis
    unfolding ld16_def disjunctive_add_eq_or [OF d, symmetric] using b
    by (simp add: unat_word_ariths)
qed

lemma unat_ucast16: "unat (ucast (h :: u16) :: u32) = unat h"
  using unsigned_less [of h, where 'a=nat] by (simp add: unsigned_ucast_eq take_bit_nat_eq_self)

lemma unat_ucast8: "unat (ucast (b :: u8) :: u16) = unat b"
  using unsigned_less [of b, where 'a=nat] by (simp add: unsigned_ucast_eq take_bit_nat_eq_self)

lemma unat_ld32:
  "unat (ld32 b0 b1 b2 b3) = unat b0 + 256 * unat b1 + 65536 * (unat b2 + 256 * unat b3)"
proof -
  let ?h = "ld16 b2 b3" and ?l = "ld16 b0 b1"
  have b: "unat ?h < 65536" "unat ?l < 65536"
    using unsigned_less [of ?h, where 'a=nat] unsigned_less [of ?l, where 'a=nat] by auto
  have d: "push_bit 16 (ucast ?h :: u32) AND ucast ?l = 0"
    by (rule bit_word_eqI) (auto simp: bit_simps dest: bit_imp_le_length)
  have "unat (push_bit 16 (ucast ?h :: u32)) = 65536 * unat ?h"
    unfolding unsigned_push_bit_eq using b(1)
    by (simp add: push_bit_eq_mult take_bit_nat_eq_self unat_ucast16)
  then have "unat (ld32 b0 b1 b2 b3) = 65536 * unat ?h + unat ?l"
    unfolding ld32_def disjunctive_add_eq_or [OF d, symmetric] using b
    by (simp add: unat_word_ariths unat_ucast16)
  then show ?thesis by (simp add: unat_ld16)
qed

lemma unat_FOLD: "unat (FOLD_U32T u) = unat u div 65536 + unat u mod 65536"
proof -
  have m: "(0x0000FFFF :: u32) = mask 16" by (simp add: mask_eq_exp_minus_1)
  have "unat u < 4294967296" using unsigned_less [of u, where 'a=nat] by simp
  then have "unat u div 65536 < 65536" by simp
  moreover have "unat (u AND 0x0000FFFF) = unat u mod 65536" unfolding m by (simp add: unat_and_low)
  ultimately show ?thesis by (simp add: FOLD_U32T_def unat_word_ariths unat_drop)
qed

lemma ceq_FOLD: "ceq (unat (FOLD_U32T u)) (unat u)"
  using ceq_sym [OF ceq_high [of "unat u div 65536" "unat u mod 65536"]] by (simp add: unat_FOLD)

lemma FOLD_bound: "unat (FOLD_U32T u) \<le> 131070"
proof -
  have "unat u < 4294967296" using unsigned_less [of u, where 'a=nat] by simp
  then have "unat u div 65536 \<le> 65535" "unat u mod 65536 \<le> 65535" by (simp_all add: less_Suc_eq_le [symmetric])
  then show ?thesis by (simp add: unat_FOLD)
qed

lemma FOLD_small: "unat u \<le> 131070 \<Longrightarrow> unat (FOLD_U32T u) \<le> 65535"
proof -
  assume u: "unat u \<le> 131070"
  show ?thesis
  proof (cases "unat u < 65536")
    case False
    then have "unat u div 65536 = 1" "unat u mod 65536 = unat u - 65536"
      using u by (auto simp: div_nat_eqI mod_nat_eqI)
    then show ?thesis using u by (simp add: unat_FOLD)
  qed (simp add: unat_FOLD)
qed

lemma FOLD_FOLD: "unat (FOLD_U32T (FOLD_U32T u)) = ones (unat u)"
  by (rule ones_eqI [OF ceq_trans [OF ceq_FOLD ceq_FOLD]]) (rule FOLD_small [OF FOLD_bound])

lemma unat_SWAP:
  "unat w < 65536 \<Longrightarrow> unat (SWAP_BYTES_IN_WORD w) = 256 * (unat w mod 256) + unat w div 256"
proof -
  assume w: "unat w < 65536"
  have m: "(0xFF :: u32) = mask 8" "(0xFF00 :: u32) = push_bit 8 (mask 8)"
    by (simp_all add: mask_eq_exp_minus_1)
  have hi: "\<not> bit w n" if "16 \<le> n" for n
  proof -
    have "take_bit 16 w = w"
      using w by (simp add: word_unat_eq_iff unsigned_take_bit_eq take_bit_nat_eq_self)
    then show ?thesis using that by (metis bit_take_bit_iff not_less)
  qed
  have s: "SWAP_BYTES_IN_WORD w = push_bit 8 (take_bit 8 w) OR drop_bit 8 w"
    unfolding SWAP_BYTES_IN_WORD_def m
    by (rule bit_word_eqI) (use hi in \<open>auto simp: bit_simps ac_simps dest: bit_imp_le_length\<close>)
  have d: "push_bit 8 (take_bit 8 w) AND drop_bit 8 w = 0"
    by (rule bit_word_eqI) (use hi in \<open>auto simp: bit_simps ac_simps\<close>)
  have p: "unat (push_bit 8 (take_bit 8 w)) = 256 * (unat w mod 256)"
  proof -
    have "unat w mod 256 < 256" by simp
    then have "unat w mod 256 * 256 < 4294967296" by linarith
    then show ?thesis unfolding unsigned_push_bit_eq unsigned_take_bit_eq
      by (simp add: push_bit_eq_mult take_bit_eq_mod)
  qed
  have "unat w mod 256 < 256" "unat w div 256 < 256" using w by auto
  then have "256 * (unat w mod 256) + unat w div 256 < 4294967296" by linarith
  then show ?thesis
    unfolding s disjunctive_add_eq_or [OF d, symmetric] by (simp add: unat_word_ariths p unat_drop)
qed

lemma ceq_swap: "ceq (256 * (n mod 256) + n div 256) (256 * n)"
proof -
  have "256 * n = 256 * (n mod 256) + 65536 * (n div 256)"
    using mod_mult_div_eq [of n 256] by linarith
  then show ?thesis using ceq_sym [OF ceq_high [of "n div 256" "256 * (n mod 256)"]] by (simp add: add.commute)
qed

lemma ceq_SWAP: "unat w < 65536 \<Longrightarrow> ceq (unat (SWAP_BYTES_IN_WORD w)) (256 * unat w)"
  by (simp add: unat_SWAP ceq_swap)

lemma SWAP_bound: "unat w < 65536 \<Longrightarrow> unat (SWAP_BYTES_IN_WORD w) < 65536"
proof -
  assume w: "unat w < 65536"
  have "unat w mod 256 < 256" "unat w div 256 < 256" using w by auto
  then show ?thesis using w by (simp add: unat_SWAP)
qed

section \<open>The routines compute the specification\<close>

lemma set_byte1_0: "set_byte1 b 0 = ld16 0 b"
  by (simp add: set_byte1_def ld16_def)

lemma ld16_0: "ld16 0 0 = 0"
  by (simp add: ld16_def)

lemma set_byte0_ld16: "set_byte0 b (ld16 0 h) = ld16 b h"
  unfolding set_byte0_def ld16_def byte_masks16
  by (rule bit_word_eqI) (auto simp: bit_simps dest: bit_imp_le_length)

lemma sum_half_wsum:
  "sum_half bs acc = (acc', r) \<Longrightarrow> unat acc + wsum bs < 2 ^ 32 \<Longrightarrow>
   unat acc' + wsum r = unat acc + wsum bs \<and> length r \<le> 1"
proof (induction bs acc rule: sum_half.induct)
  case (1 b0 b1 bs acc)
  have e: "unat (acc + ucast (ld16 b0 b1)) = unat acc + (unat b0 + 256 * unat b1)"
    using "1.prems"(2) by (simp add: unat_word_ariths unat_ucast16 unat_ld16)
  show ?case using "1.IH" "1.prems" by (simp add: e)
qed auto

lemma unat_ucast_u16: "unat (w :: u32) \<le> 65535 \<Longrightarrow> unat (ucast w :: u16) = unat w"
  by (simp add: unsigned_ucast_eq take_bit_nat_eq_self)

lemma chksum_end_ones:
  assumes "unat acc + 256 * unat h + wsum r < 2 ^ 32" and "length r \<le> 1"
  shows "unat (chksum_end is_odd (ld16 0 h) (acc, r)) =
    ones ((if is_odd then 256 else 1) * (unat acc + 256 * unat h + wsum r))"
proof -
  define t where "t = (case r of [] \<Rightarrow> ld16 0 h | b # _ \<Rightarrow> set_byte0 b (ld16 0 h))"
  have t: "unat t = 256 * unat h + wsum r"
    using assms(2) by (cases r) (auto simp: t_def set_byte0_ld16 unat_ld16)
  let ?s = "FOLD_U32T (FOLD_U32T (acc + ucast t))"
  have s: "unat ?s = ones (unat acc + 256 * unat h + wsum r)"
    using assms(1) by (simp add: FOLD_FOLD unat_word_ariths unat_ucast16 t add.assoc)
  have e: "chksum_end is_odd (ld16 0 h) (acc, r) = ucast (if is_odd then SWAP_BYTES_IN_WORD ?s else ?s)"
    by (simp add: chksum_end_def t_def Let_def)
  show ?thesis
  proof (cases is_odd)
    case False
    then show ?thesis unfolding e by (simp add: s ones_le unat_ucast_u16)
  next
    case True
    have b: "unat ?s < 65536" using ones_le [of "unat acc + 256 * unat h + wsum r"] by (simp add: s)
    have "unat (SWAP_BYTES_IN_WORD ?s) = ones (256 * (unat acc + 256 * unat h + wsum r))"
      using ceq_SWAP [OF b] SWAP_bound [OF b] unfolding s
      by (intro ones_eqI [OF ceq_trans [OF _ ceq_mult [OF _ ceq_ones]]]) auto
    then show ?thesis using True unfolding e by (simp add: ones_le unat_ucast_u16)
  qed
qed

text \<open>Starting at an odd address, the bytes change places: the swapped sum is the sum.\<close>

lemma ones_odd_start: "ones (256 * (256 * unat b + wsum bs)) = ones (wsum (b # bs))"
proof (rule ones_cong)
  have "ceq (256 * (256 * unat b) + 256 * wsum bs) (unat b + 256 * wsum bs)"
    by (intro ceq_add ceq_swap_twice ceq_refl)
  also have "ceq \<dots> (wsum (b # bs))" by (rule ceq_sym [OF wsum_Cons])
  finally show "ceq (256 * (256 * unat b + wsum bs)) (wsum (b # bs))" by (simp add: algebra_simps)
qed

lemma wsum_small: "length bs \<le> 0x20000 \<Longrightarrow> wsum bs \<le> 65535 * 65536"
proof -
  assume "length bs \<le> 0x20000"
  then have "(length bs + 1) div 2 \<le> 65536" by linarith
  then have "65535 * ((length bs + 1) div 2) \<le> 65535 * 65536" by (rule mult_le_mono2)
  then show ?thesis using wsum_bound [of bs] by linarith
qed

lemma chksum2_ones:
  assumes len: "length data \<le> 0x20000"
  shows "unat (lwip_standard_chksum2 dataptr data) = ones (wsum data)"
proof -
  have run: "unat (chksum_end is_odd (ld16 0 h) (sum_half bs 0)) =
      ones ((if is_odd then 256 else 1) * (256 * unat h + wsum bs))"
    if "length bs \<le> 0x20000" for is_odd h bs
  proof -
    obtain acc r where s: "sum_half bs 0 = (acc, r)" by (cases "sum_half bs 0")
    have h: "256 * unat h < 65536" using unsigned_less [of h, where 'a=nat] by simp
    note w = wsum_small [OF that]
    have a: "unat acc + wsum r = wsum bs" "length r \<le> 1"
      using sum_half_wsum [OF s] w by auto
    have e: "unat acc + 256 * unat h + wsum r = 256 * unat h + wsum bs" using a(1) by linarith
    then have "unat acc + 256 * unat h + wsum r < 2 ^ 32" using w h by simp
    from chksum_end_ones [OF this a(2), of is_odd] show ?thesis unfolding e s .
  qed
  show ?thesis
  proof (cases "dataptr mod 2 = 1 \<and> data \<noteq> []")
    case True
    then obtain b bs where d: "data = b # bs" by (cases data) auto
    have "lwip_standard_chksum2 dataptr data = chksum_end True (ld16 0 b) (sum_half bs 0)"
      using True by (simp add: lwip_standard_chksum2_def d set_byte1_0)
    then show ?thesis using run [of bs True b, unfolded if_True ones_odd_start] len by (simp add: d)
  next
    case False
    have "lwip_standard_chksum2 dataptr data = chksum_end (dataptr mod 2 = 1) (ld16 0 0) (sum_half data 0)"
      using False by (cases data) (auto simp: lwip_standard_chksum2_def ld16_0)
    then show ?thesis using run [OF len, of "dataptr mod 2 = 1" 0] False
      by (cases data) (auto simp: ones_def)
  qed
qed

lemma ceq_add_carry: "ceq (unat (add_carry acc w)) (unat acc + unat w)"
proof -
  have b: "unat acc < 4294967296" "unat w < 4294967296"
    using unsigned_less [of acc, where 'a=nat] unsigned_less [of w, where 'a=nat] by auto
  show ?thesis
  proof (cases "unat acc + unat w < 4294967296")
    case True
    then have "unat (acc + w) = unat acc + unat w" by (simp add: unat_word_ariths)
    then show ?thesis by (simp add: add_carry_def word_less_nat_alt)
  next
    case False
    then have m: "(unat acc + unat w) mod 4294967296 = unat acc + unat w - 4294967296"
      using b by (simp add: mod_nat_eqI)
    then have u: "unat (acc + w) = unat acc + unat w - 4294967296" by (simp add: unat_word_ariths)
    have "unat (acc + w + 1) = unat acc + unat w - 4294967295"
      using False b by (subst unat_word_ariths(1)) (simp add: u)
    moreover have "acc + w < acc" unfolding word_less_nat_alt u using b False by linarith
    ultimately have e: "unat (add_carry acc w) = unat acc + unat w - 4294967295"
      by (simp add: add_carry_def)
    have "unat acc + unat w = (unat acc + unat w - 4294967295) + 65535 * 65537" using False by simp
    then have "(unat acc + unat w) mod 65535 = (unat acc + unat w - 4294967295) mod 65535"
      by (metis mod_mult_self2)
    then show ?thesis using False unfolding ceq_def e by auto
  qed
qed

lemma ceq_ld32: "ceq (unat (ld32 b0 b1 b2 b3)) (wsum [b0, b1, b2, b3])"
  using ceq_high [of "unat b2 + 256 * unat b3" "unat b0 + 256 * unat b1"]
  by (simp add: unat_ld32 ac_simps)

lemma sum_words_wsum:
  "sum_words bs acc = (acc', r) \<Longrightarrow> ceq (unat acc' + wsum r) (unat acc + wsum bs) \<and> length r < 8"
proof (induction bs acc rule: sum_words.induct)
  case (1 b0 b1 b2 b3 b4 b5 b6 b7 bs acc)
  let ?l = "ld32 b0 b1 b2 b3" and ?h = "ld32 b4 b5 b6 b7"
  have "ceq (unat (add_carry (add_carry acc ?l) ?h)) (unat acc + unat ?l + unat ?h)"
    by (rule ceq_trans [OF ceq_add_carry ceq_add [OF ceq_add_carry ceq_refl]])
  also have "ceq \<dots> (unat acc + wsum [b0, b1, b2, b3] + wsum [b4, b5, b6, b7])"
    by (intro ceq_add ceq_ld32 ceq_refl)
  finally have "ceq (unat (add_carry (add_carry acc ?l) ?h) + wsum bs)
      (unat acc + wsum [b0, b1, b2, b3] + wsum [b4, b5, b6, b7] + wsum bs)"
    by (intro ceq_add ceq_refl)
  moreover have "sum_words bs (add_carry (add_carry acc ?l) ?h) = (acc', r)" using "1.prems" by simp
  ultimately show ?case using "1.IH" by (auto simp: add.assoc intro: ceq_trans)
qed auto

lemma chksum3_ones: "unat (lwip_standard_chksum3 dataptr data) = ones (wsum data)"
proof -
  have run: "unat (chksum_end is_odd (ld16 0 h) (case sum_words bs acc of (acc, pb) \<Rightarrow> sum_half pb (FOLD_U32T acc))) =
      ones ((if is_odd then 256 else 1) * (256 * unat h + (unat acc + wsum bs)))"
    for is_odd h bs acc
  proof -
    obtain acc1 r1 where s1: "sum_words bs acc = (acc1, r1)" by (cases "sum_words bs acc")
    obtain acc2 r2 where s2: "sum_half r1 (FOLD_U32T acc1) = (acc2, r2)" by (cases "sum_half r1 (FOLD_U32T acc1)")
    note c1 = sum_words_wsum [OF s1]
    have h: "256 * unat h < 65536" using unsigned_less [of h, where 'a=nat] by simp
    have "(length r1 + 1) div 2 \<le> 4" using c1 by linarith
    then have w: "wsum r1 \<le> 262140" using wsum_bound [of r1] by linarith
    have c2: "unat acc2 + wsum r2 = unat (FOLD_U32T acc1) + wsum r1" "length r2 \<le> 1"
      using sum_half_wsum [OF s2] w FOLD_bound [of acc1] by auto
    have "ceq (unat (FOLD_U32T acc1) + wsum r1) (unat acc1 + wsum r1)"
      by (intro ceq_add ceq_FOLD ceq_refl)
    then have c3: "ceq (unat acc2 + wsum r2) (unat acc + wsum bs)"
      using c1 c2(1) by (auto intro: ceq_trans)
    have "unat acc2 + 256 * unat h + wsum r2 < 2 ^ 32" using c2(1) w FOLD_bound [of acc1] h by simp
    from chksum_end_ones [OF this c2(2), of is_odd]
    have "unat (chksum_end is_odd (ld16 0 h) (acc2, r2)) =
        ones ((if is_odd then 256 else 1) * (256 * unat h + (unat acc2 + wsum r2)))"
      by (simp add: ac_simps)
    also have "\<dots> = ones ((if is_odd then 256 else 1) * (256 * unat h + (unat acc + wsum bs)))"
      by (intro ones_cong ceq_mult ceq_add ceq_refl c3) simp
    finally show ?thesis by (simp add: s1 s2)
  qed
  have step: "unat (chksum3_even is_odd (ld16 0 h) ps bs) =
      ones ((if is_odd then 256 else 1) * (256 * unat h + wsum bs))" for is_odd h bs ps
    using run [of is_odd h bs 0] run [of is_odd h "tl (tl bs)" "ucast (ld16 (hd bs) (hd (tl bs)))"]
    by (auto simp: chksum3_even_def Let_def unat_ucast16 unat_ld16 ac_simps split: list.split prod.split_asm)
  show ?thesis
  proof (cases "dataptr mod 2 = 1 \<and> data \<noteq> []")
    case True
    then obtain b bs where d: "data = b # bs" by (cases data) auto
    show ?thesis using step [of True b "dataptr + 1" bs, unfolded if_True ones_odd_start] True
      by (simp add: lwip_standard_chksum3_def d set_byte1_0)
  next
    case False
    have "unat (lwip_standard_chksum3 dataptr data) =
        ones ((if dataptr mod 2 = 1 then 256 else 1) * wsum data)"
      using False step [of "dataptr mod 2 = 1" 0 dataptr data]
      by (cases data) (simp_all add: lwip_standard_chksum3_def ld16_0)
    then show ?thesis using False by (cases data) (auto simp: ones_def)
  qed
qed

lemma chksum1_ones:
  assumes len: "length data \<le> 0x20000"
  shows "unat (lwip_standard_chksum1 data) = ones (wsum data)"
proof -
  have sum: "ceq (unat (sum_be bs acc)) (unat acc + 256 * wsum bs)"
    if "unat acc + 65535 * ((length bs + 1) div 2) < 2 ^ 32" for bs acc
    using that
  proof (induction bs acc rule: sum_be.induct)
    case (1 b0 b1 bs acc)
    have e: "unat (acc + ucast (ld16 b1 b0)) = unat acc + (unat b1 + 256 * unat b0)"
      using unsigned_less [of "ld16 b1 b0", where 'a=nat] "1.prems"
      by (simp add: unat_word_ariths unat_ucast16 unat_ld16)
    have "unat b1 + 256 * unat b0 \<le> 65535"
      using unsigned_less [of "ld16 b1 b0", where 'a=nat] by (simp add: unat_ld16)
    then have "ceq (unat (sum_be (b0 # b1 # bs) acc)) (unat acc + (unat b1 + 256 * unat b0) + 256 * wsum bs)"
      using "1.IH" "1.prems" e by (simp add: ld16_def)
    also have "ceq \<dots> (unat acc + (256 * (256 * unat b1) + 256 * unat b0) + 256 * wsum bs)"
      by (intro ceq_add ceq_refl ceq_sym [OF ceq_swap_twice])
    finally show ?case by (simp add: algebra_simps)
  next
    case (2 b0 acc)
    have "push_bit 8 (ucast b0 :: u16) = ld16 0 b0" by (simp add: ld16_def)
    moreover have "unat (acc + ucast (ld16 0 b0)) = unat acc + 256 * unat b0"
      using unsigned_less [of b0, where 'a=nat] "2.prems"
      by (simp add: unat_word_ariths unat_ucast16 unat_ld16)
    ultimately show ?case by simp
  qed simp
  let ?f = "FOLD_U32T (sum_be data 0)"
  have hi: "w AND 0xFFFF0000 \<noteq> 0 \<longleftrightarrow> \<not> unat w < 65536" for w :: u32
  proof -
    have m: "(0xFFFF0000 :: u32) = push_bit 16 (mask 16)" by (simp add: mask_eq_exp_minus_1)
    have "w AND 0xFFFF0000 = push_bit 16 (drop_bit 16 w)"
      unfolding m by (rule bit_word_eqI) (auto simp: bit_simps)
    moreover have "unat (push_bit 16 (drop_bit 16 w)) = unat w div 65536 * 65536"
    proof -
      have "unat w < 4294967296" using unsigned_less [of w, where 'a=nat] by simp
      then have "unat w div 65536 * 65536 < 4294967296" by (simp add: div_times_less_eq_dividend order.strict_trans1)
      then show ?thesis unfolding unsigned_push_bit_eq unat_drop
        by (simp add: push_bit_eq_mult take_bit_nat_eq_self)
    qed
    ultimately show ?thesis by (simp only: word_unat_eq_iff) (simp add: div_eq_0_iff)
  qed
  define s where "s = (if ?f AND 0xFFFF0000 \<noteq> 0 then FOLD_U32T ?f else ?f)"
  have small: "unat s \<le> 65535" using FOLD_small [OF FOLD_bound] hi [of ?f] by (auto simp: s_def)
  have "(length data + 1) div 2 \<le> 65536" using len by linarith
  then have c: "ceq (unat (sum_be data 0)) (256 * wsum data)" using sum [of 0 data] by simp
  have "ceq (unat s) (unat (sum_be data 0))"
    unfolding s_def using ceq_trans [OF ceq_FOLD ceq_FOLD] ceq_FOLD by simp
  then have "ceq (256 * unat s) (256 * (256 * wsum data))"
    using c by (intro ceq_mult) (auto intro: ceq_trans)
  then have v: "ceq (256 * unat s) (wsum data)" by (rule ceq_trans [OF _ ceq_swap_twice])
  have e: "lwip_standard_chksum1 data = lwip_htons (ucast s)"
    by (simp add: lwip_standard_chksum1_def s_def FOLD_U32T_def Let_def)
  have "unat (lwip_standard_chksum1 data) = 256 * (unat s mod 256) + unat s div 256"
    unfolding e unat_htons using small by (simp add: unat_ucast_u16)
  moreover have "256 * (unat s mod 256) + unat s div 256 \<le> 65535"
    using unsigned_less [of "lwip_standard_chksum1 data", where 'a=nat] calculation by simp
  ultimately show ?thesis by (metis ones_eqI ceq_trans [OF ceq_swap v])
qed

section \<open>Chains\<close>

definition payload_bytes :: "chain \<Rightarrow> u8 list" where
  "payload_bytes p = concat (map snd p)"

text \<open>\<open>len\<close> of a packet buffer is a \<^verbatim>\<open>u16_t\<close>.\<close>

definition lens_u16 :: "chain \<Rightarrow> bool" where
  "lens_u16 p \<longleftrightarrow> (\<forall>(a, d) \<in> set p. length d < 65536)"

lemma chain_simps [simp]:
  "payload_bytes [] = []" "payload_bytes ((a, d) # p) = d @ payload_bytes p"
  "lens_u16 []" "lens_u16 ((a, d) # p) \<longleftrightarrow> length d < 65536 \<and> lens_u16 p"
  by (auto simp: payload_bytes_def lens_u16_def)

abbreviation turn :: "bool \<Rightarrow> nat" where
  "turn swapped \<equiv> (if swapped then 256 else 1)"

lemma turn_not: "ceq (turn (\<not> sw) * (256 * x + y)) (turn sw * (x + 256 * y))"
proof (cases sw)
  case True
  have "ceq (256 * x + y) (256 * x + 256 * (256 * y))"
    by (intro ceq_add ceq_refl ceq_sym [OF ceq_swap_twice])
  then show ?thesis using True by (simp add: algebra_simps)
next
  case False
  have "ceq (256 * (256 * x) + 256 * y) (x + 256 * y)"
    by (intro ceq_add ceq_refl ceq_swap_twice)
  then show ?thesis using False by (simp add: algebra_simps)
qed

text \<open>One round of the loop over the chain, without its swap.\<close>

lemma round_acc:
  assumes "unat acc < 65536" and "length data < 65536"
  shows "unat (FOLD_U32T (acc + ucast (lwip_standard_chksum2 a data))) < 65536"
    and "ceq (unat (FOLD_U32T (acc + ucast (lwip_standard_chksum2 a data)))) (unat acc + wsum data)"
proof -
  have u: "unat (acc + ucast (lwip_standard_chksum2 a data)) = unat acc + ones (wsum data)"
    using assms ones_le [of "wsum data"] chksum2_ones [of data a]
    by (simp add: unat_word_ariths unat_ucast16)
  have "unat (acc + ucast (lwip_standard_chksum2 a data)) \<le> 131070"
    using assms(1) ones_le [of "wsum data"] by (simp add: u)
  then show "unat (FOLD_U32T (acc + ucast (lwip_standard_chksum2 a data))) < 65536"
    using FOLD_small by fastforce
  show "ceq (unat (FOLD_U32T (acc + ucast (lwip_standard_chksum2 a data)))) (unat acc + wsum data)"
    by (rule ceq_trans [OF ceq_FOLD]) (simp add: u ceq_add ceq_ones)
qed

text \<open>The step of both loops in the abstract: what the rest of the chain adds, and in which position.\<close>

lemma round_rest:
  assumes acc': "ceq (turn sw' * acc') (turn (if odd (length d) then \<not> sw else sw) * (acc2 + wsum rest))"
    and acc2: "ceq acc2 (if odd (length d) then 256 * acc1 else acc1)"
    and acc1: "ceq acc1 (acc + wsum d)"
  shows "ceq (turn sw' * acc') (turn sw * (acc + wsum (d @ rest)))"
proof -
  have "ceq (turn sw' * acc') (turn sw * (acc1 + turn (odd (length d)) * wsum rest))"
  proof (cases "odd (length d)")
    case True
    have "ceq (turn (\<not> sw) * (acc2 + wsum rest)) (turn (\<not> sw) * (256 * acc1 + wsum rest))"
      using acc2 True by (intro ceq_mult ceq_add ceq_refl) auto
    also have "ceq \<dots> (turn sw * (acc1 + 256 * wsum rest))" by (rule turn_not)
    finally show ?thesis using ceq_trans [OF acc' [unfolded if_P [OF True]]] True by (simp only: if_True simp_thms)
  next
    case False
    have "ceq (turn sw * (acc2 + wsum rest)) (turn sw * (acc1 + wsum rest))"
      using acc2 False by (intro ceq_mult ceq_add ceq_refl) auto
    then show ?thesis using ceq_trans [OF acc' [unfolded if_not_P [OF False]]] False
      by (simp only: if_False simp_thms mult_1)
  qed
  also have "ceq \<dots> (turn sw * (acc + wsum d + turn (odd (length d)) * wsum rest))"
    by (intro ceq_mult ceq_add ceq_refl acc1) simp
  also have "ceq \<dots> (turn sw * (acc + wsum (d @ rest)))"
    using ceq_sym [OF wsum_append [of d rest]] unfolding add.assoc
    by (intro ceq_mult ceq_add ceq_refl) simp_all
  finally show ?thesis .
qed

lemma chain_loop_sum:
  "chain_loop p acc sw = (acc', sw') \<Longrightarrow> unat acc < 65536 \<Longrightarrow> lens_u16 p \<Longrightarrow>
   unat acc' < 65536 \<and> ceq (turn sw' * unat acc') (turn sw * (unat acc + wsum (payload_bytes p)))"
proof (induction p acc sw rule: chain_loop.induct)
  case (2 a d q acc sw)
  let ?f = "FOLD_U32T (acc + ucast (lwip_standard_chksum2 a d))"
  have r: "unat ?f < 65536" "ceq (unat ?f) (unat acc + wsum d)"
    using "2.prems" by (auto intro: round_acc)
  define acc2 where "acc2 = (if odd (length d) then SWAP_BYTES_IN_WORD ?f else ?f)"
  have a2: "ceq (unat acc2) (if odd (length d) then 256 * unat ?f else unat ?f)" "unat acc2 < 65536"
    using r(1) by (auto simp: acc2_def ceq_SWAP SWAP_bound)
  have "chain_loop q acc2 (if odd (length d) then \<not> sw else sw) = (acc', sw')"
    using "2.prems"(1) by (auto simp: acc2_def Let_def even_iff_mod_2_eq_zero)
  then have "unat acc' < 65536 \<and> ceq (turn sw' * unat acc')
      (turn (if odd (length d) then \<not> sw else sw) * (unat acc2 + wsum (payload_bytes q)))"
    using "2.IH"(1,2) [OF refl refl] "2.prems"(3) a2(2)
    by (cases "odd (length d)") (auto simp: acc2_def odd_iff_mod_2_eq_one)
  then show ?case using round_rest [OF _ a2(1) r(2)] by simp
qed auto

lemma turn_end:
  fixes acc :: u32 and sw :: bool
  assumes "unat acc < 65536"
  defines "s \<equiv> (if sw then SWAP_BYTES_IN_WORD acc else acc)"
  shows "unat s < 65536" and "ceq (unat s) (turn sw * unat acc)"
  using assms by (auto simp: ceq_SWAP SWAP_bound)

lemma word16_eqI: "unat (w :: u16) = n \<Longrightarrow> w = of_nat n"
  by auto

lemma unat_low16: "unat ((w :: u32) AND 0xFFFF) = unat w mod 65536"
proof -
  have m: "(0xFFFF :: u32) = mask 16" by (simp add: mask_eq_exp_minus_1)
  show ?thesis unfolding m by (simp add: unat_and_low)
qed

lemma ucast_low16: "unat w < 65536 \<Longrightarrow> (ucast ((w :: u32) AND 0xFFFF) :: u16) = of_nat (unat w)"
  by (rule word16_eqI) (simp add: unsigned_ucast_eq unat_low16 take_bit_eq_mod)

lemma chksum2_word: "length d \<le> 0x20000 \<Longrightarrow> lwip_standard_chksum2 a d = of_nat (ones (wsum d))"
  by (rule word16_eqI [OF chksum2_ones])

lemma inet_chksum_pbuf_sum:
  assumes "lens_u16 p"
  shows "inet_chksum_pbuf p = NOT (of_nat (ones (wsum (payload_bytes p))))"
proof -
  obtain acc sw where r: "chain_loop p 0 False = (acc, sw)" by (cases "chain_loop p 0 False")
  have c: "unat acc < 65536" "ceq (turn sw * unat acc) (wsum (payload_bytes p))"
    using chain_loop_sum [OF r _ assms] by auto
  define s where "s = (if sw then SWAP_BYTES_IN_WORD acc else acc)"
  have s: "unat s < 65536" "ceq (unat s) (wsum (payload_bytes p))"
    using turn_end [OF c(1), of sw] ceq_trans [OF _ c(2)] by (auto simp: s_def)
  then have "unat s = ones (wsum (payload_bytes p))" by (intro ones_eqI) auto
  then show ?thesis using ucast_low16 [OF s(1)] by (simp add: inet_chksum_pbuf_def r s_def)
qed

text \<open>The twelve bytes of the pseudo header, and its sum.\<close>

definition pseudo_header :: "u32 \<Rightarrow> u32 \<Rightarrow> u8 \<Rightarrow> u16 \<Rightarrow> u8 list" where
  "pseudo_header src dest proto len =
     bytes32 src @ bytes32 dest @ [0, proto, ucast (drop_bit 8 len), ucast len]"

lemma wsum_bytes32: "wsum (bytes32 w) = unat w mod 65536 + unat w div 65536"
proof -
  define q where "q = unat w div 65536"
  have q: "q < 65536" using unsigned_less [of w, where 'a=nat] by (simp add: q_def)
  have lo: "unat w mod 65536 = unat w mod 256 + 256 * (unat w div 256 mod 256)"
    using mod_mult2_eq [of "unat w" 256 256] by simp
  have "unat w div 16777216 = q div 256" by (simp add: q_def div_mult2_eq [symmetric])
  moreover have "q div 256 mod 256 = q div 256" using q by simp
  moreover have "q mod 256 + 256 * (q div 256) = q" by simp
  moreover have "unat (ucast w :: u8) = unat w mod 256" using unat_byte [of 0 w] by simp
  ultimately show ?thesis by (simp add: bytes32_def unat_byte q_def lo)
qed

lemma wsum_pseudo_header:
  "wsum (pseudo_header src dest proto len @ ds) =
   wsum (bytes32 src) + wsum (bytes32 dest) + 256 * unat proto + unat (lwip_htons len) + wsum ds"
proof -
  have l: "unat len < 65536" using unsigned_less [of len, where 'a=nat] by simp
  then have "unat len div 256 < 256" by simp
  moreover have "unat (ucast len :: u8) = unat len mod 256" using unat_byte [of 0 len] by simp
  ultimately have "unat (lwip_htons len) = unat (ucast (drop_bit 8 len) :: u8) + 256 * unat (ucast len :: u8)"
    by (simp add: unat_byte unat_htons)
  then show ?thesis by (simp add: pseudo_header_def bytes32_def)
qed

lemma addr_sum_ones: "unat (addr_sum src dest) = ones (wsum (bytes32 src) + wsum (bytes32 dest))"
proof -
  have b: "unat w div 65536 < 65536" "unat w mod 65536 < 65536" for w :: u32
    using unsigned_less [of w, where 'a=nat] by auto
  have four: "unat (x + y + z + v) = unat x + unat y + (unat z + unat v)"
    if "unat x < 65536" "unat y < 65536" "unat z < 65536" "unat v < 65536" for x y z v :: u32
    using that by (simp add: unat_word_ariths)
  show ?thesis
    unfolding addr_sum_def Let_def FOLD_FOLD wsum_bytes32
    using b [of src] b [of dest] by (subst four) (simp_all add: unat_drop unat_low16)
qed

lemma pseudo_end_sum:
  assumes "unat acc < 65536" and "ceq (turn sw * unat acc) (wsum (bytes32 src) + wsum (bytes32 dest) + wsum ds)"
  shows "pseudo_end proto len (acc, sw) = NOT (of_nat (ones (wsum (pseudo_header src dest proto len @ ds))))"
proof -
  define s where "s = (if sw then SWAP_BYTES_IN_WORD acc else acc)"
  have s: "unat s < 65536" "ceq (unat s) (wsum (bytes32 src) + wsum (bytes32 dest) + wsum ds)"
    using turn_end [OF assms(1), of sw] ceq_trans [OF _ assms(2)] by (auto simp: s_def)
  let ?w = "s + ucast (lwip_htons (ucast proto)) + ucast (lwip_htons len)"
  have p: "unat (lwip_htons (ucast proto)) = 256 * unat proto"
    using unsigned_less [of proto, where 'a=nat] by (simp add: unat_htons unat_ucast8)
  have "unat (lwip_htons len) < 65536" using unsigned_less [of "lwip_htons len", where 'a=nat] by simp
  then have w: "unat ?w = unat s + 256 * unat proto + unat (lwip_htons len)"
    using s(1) unsigned_less [of proto, where 'a=nat] by (simp add: unat_word_ariths unat_ucast16 p)
  have "ceq (unat ?w) (wsum (bytes32 src) + wsum (bytes32 dest) + wsum ds + 256 * unat proto + unat (lwip_htons len))"
    unfolding w by (intro ceq_add ceq_refl s(2))
  then have e: "ones (unat ?w) = ones (wsum (pseudo_header src dest proto len @ ds))"
    by (intro ones_cong) (simp add: wsum_pseudo_header ac_simps)
  have f: "unat (FOLD_U32T (FOLD_U32T ?w)) < 65536" using ones_le [of "unat ?w"] by (simp only: FOLD_FOLD)
  show ?thesis
    using ucast_low16 [OF f] unfolding FOLD_FOLD e by (simp add: pseudo_end_def s_def Let_def)
qed

lemma inet_chksum_pseudo_sum:
  assumes "lens_u16 p"
  shows "inet_chksum_pseudo p proto len src dest =
    NOT (of_nat (ones (wsum (pseudo_header src dest proto len @ payload_bytes p))))"
proof -
  obtain acc sw where r: "chain_loop p (addr_sum src dest) False = (acc, sw)"
    by (cases "chain_loop p (addr_sum src dest) False")
  have a: "unat (addr_sum src dest) < 65536"
    using ones_le [of "wsum (bytes32 src) + wsum (bytes32 dest)"] by (simp add: addr_sum_ones)
  have c: "unat acc < 65536" "ceq (turn sw * unat acc) (unat (addr_sum src dest) + wsum (payload_bytes p))"
    using chain_loop_sum [OF r a assms] by auto
  note c(2)
  also have "ceq (unat (addr_sum src dest) + wsum (payload_bytes p))
      (wsum (bytes32 src) + wsum (bytes32 dest) + wsum (payload_bytes p))"
    unfolding addr_sum_ones by (intro ceq_add ceq_ones ceq_refl)
  finally show ?thesis
    using pseudo_end_sum [OF c(1)]
    by (simp add: inet_chksum_pseudo_def inet_cksum_pseudo_base_def r)
qed

section \<open>Part of a chain\<close>

text \<open>What the assertion in the loop asks of the length that is left before the first buffer.\<close>

definition short_rest :: "u16 \<Rightarrow> chain \<Rightarrow> bool" where
  "short_rest n p = (case p of [] \<Rightarrow> True | (a, d) # q \<Rightarrow> unat n - length d < 0x7FFF)"

lemma partial_loop_sum:
  "unat acc < 65536 \<Longrightarrow> lens_u16 p \<Longrightarrow> short_rest n p \<Longrightarrow>
   \<exists>acc' sw'. partial_loop p n acc sw = Inr (acc', sw') \<and> unat acc' < 65536 \<and>
     ceq (turn sw' * unat acc') (turn sw * (unat acc + wsum (take (unat n) (payload_bytes p))))"
proof (induction p arbitrary: n acc sw)
  case (Cons b q)
  obtain a d where b: "b = (a, d)" by (cases b)
  note prems = Cons.prems [unfolded b]
  show ?case
  proof (cases "0 < n")
    case False
    then have "n = 0" by (simp add: word_gt_0)
    then show ?thesis
      using prems(1) by (intro exI [of _ acc] exI [of _ sw]) (simp add: b)
  next
    case True
    define k where "k = (if n < of_nat (length d) then n else of_nat (length d) :: u16)"
    let ?d = "take (unat k) d" and ?n = "n - k"
    have ld: "unat (of_nat (length d) :: u16) = length d"
      using prems(2) by (intro unat_of_nat_small) simp
    have k: "unat k = min (unat n) (length d)"
      by (simp add: k_def word_less_nat_alt ld min_def)
    have "k \<le> n" by (simp add: word_le_nat_alt k)
    then have n': "unat ?n = unat n - length d" by (simp add: unat_sub k)
    have ok: "?n < 0x7FFF" using prems(3) by (simp add: word_less_nat_alt n' short_rest_def)
    let ?f = "FOLD_U32T (acc + ucast (lwip_standard_chksum2 a ?d))"
    have "length ?d < 65536" using prems(2) by (simp add: min.strict_coboundedI1)
    note r = round_acc [OF prems(1) this, of a]
    define acc2 where "acc2 = (if odd (length d) then SWAP_BYTES_IN_WORD ?f else ?f)"
    have a2: "ceq (unat acc2) (if odd (length d) then 256 * unat ?f else unat ?f)" "unat acc2 < 65536"
      using r(1) by (auto simp: acc2_def ceq_SWAP SWAP_bound)
    let ?sw = "if odd (length d) then \<not> sw else sw"
    have "partial_loop ((a, d) # q) n acc sw =
        (if odd (length d) then partial_loop q ?n (SWAP_BYTES_IN_WORD ?f) (\<not> sw) else partial_loop q ?n ?f sw)"
      using True ok by (simp add: k_def [symmetric] Let_def odd_iff_mod_2_eq_one)
    then have run: "partial_loop ((a, d) # q) n acc sw = partial_loop q ?n acc2 ?sw"
      unfolding acc2_def by (cases "odd (length d)") (simp_all only: if_True if_False simp_thms)
    have sh: "short_rest ?n q" using ok by (auto simp: short_rest_def word_less_nat_alt split: list.split)
    have "\<exists>acc' sw'. partial_loop q ?n acc2 ?sw = Inr (acc', sw') \<and> unat acc' < 65536 \<and>
      ceq (turn sw' * unat acc') (turn ?sw * (unat acc2 + wsum (take (unat ?n) (payload_bytes q))))"
      using prems(2) by (intro Cons.IH a2(2) sh) simp
    then obtain acc' sw' where ih: "partial_loop q ?n acc2 ?sw = Inr (acc', sw')" "unat acc' < 65536"
      "ceq (turn sw' * unat acc') (turn ?sw * (unat acc2 + wsum (take (unat ?n) (payload_bytes q))))"
      by blast
    have "ceq (turn sw' * unat acc') (turn sw * (unat acc + wsum (take (unat n) (payload_bytes ((a, d) # q)))))"
    proof (cases "unat n < length d")
      case False
      then have e: "?d = d" "take (unat n) (payload_bytes ((a, d) # q)) = d @ take (unat ?n) (payload_bytes q)"
        by (simp_all add: k n')
      show ?thesis using round_rest [OF ih(3) a2(1), of "unat acc"] r(2) unfolding e by simp
    next
      case True
      then have e: "unat ?n = 0" "take (unat n) (payload_bytes ((a, d) # q)) = ?d" by (simp_all add: k n')
      have "ceq (turn ?sw * unat acc2) (turn sw * unat ?f)"
      proof (cases "odd (length d)")
        case True
        then have "ceq (turn (\<not> sw) * unat acc2) (turn (\<not> sw) * (256 * unat ?f))"
          using a2(1) by (intro ceq_mult) simp_all
        also have "ceq \<dots> (turn sw * unat ?f)" using turn_not [of sw "unat ?f" 0] by simp
        finally show ?thesis unfolding if_P [OF True] .
      next
        case False
        then show ?thesis using a2(1) unfolding if_not_P [OF False] by (intro ceq_mult) simp_all
      qed
      then have "ceq (turn sw' * unat acc') (turn sw * unat ?f)"
        using ceq_trans [OF ih(3) [unfolded e(1) take_0 wsum.simps add_0_right]] by blast
      also have "ceq \<dots> (turn sw * (unat acc + wsum ?d))" using r(2) by (intro ceq_mult) auto
      finally show ?thesis by (simp only: e)
    qed
    then show ?thesis unfolding b run using ih(1,2) by blast
  qed
qed auto

lemma partial_loop_assert:
  "0 < n \<Longrightarrow> lens_u16 ((a, d) # q) \<Longrightarrow> \<not> short_rest n ((a, d) # q) \<Longrightarrow>
   partial_loop ((a, d) # q) n acc sw = Inl AssertFailed"
proof -
  assume n: "0 < n" and l: "lens_u16 ((a, d) # q)" and s: "\<not> short_rest n ((a, d) # q)"
  have ld: "unat (of_nat (length d) :: u16) = length d" using l by (intro unat_of_nat_small) simp
  have lt: "\<not> n < of_nat (length d)" using s by (simp add: short_rest_def word_less_nat_alt ld)
  then have "unat (n - of_nat (length d)) = unat n - length d"
    by (simp add: unat_sub word_le_nat_alt ld not_less)
  then have "\<not> n - of_nat (length d) < 0x7FFF" using s by (simp add: short_rest_def word_less_nat_alt)
  then show ?thesis using n lt by (simp add: Let_def)
qed

lemma inet_chksum_pseudo_partial_sum:
  assumes "lens_u16 p" "short_rest n p"
  shows "inet_chksum_pseudo_partial p proto len n src dest =
    Inr (NOT (of_nat (ones (wsum (pseudo_header src dest proto len @ take (unat n) (payload_bytes p))))))"
proof -
  have a: "unat (addr_sum src dest) < 65536"
    using ones_le [of "wsum (bytes32 src) + wsum (bytes32 dest)"] by (simp add: addr_sum_ones)
  obtain acc sw where r: "partial_loop p n (addr_sum src dest) False = Inr (acc, sw)" and
    c: "unat acc < 65536" "ceq (turn sw * unat acc)
        (unat (addr_sum src dest) + wsum (take (unat n) (payload_bytes p)))"
    using partial_loop_sum [OF a assms, of False] by auto
  note c(2)
  also have "ceq (unat (addr_sum src dest) + wsum (take (unat n) (payload_bytes p)))
      (wsum (bytes32 src) + wsum (bytes32 dest) + wsum (take (unat n) (payload_bytes p)))"
    unfolding addr_sum_ones by (intro ceq_add ceq_ones ceq_refl)
  finally show ?thesis
    using pseudo_end_sum [OF c(1)]
    by (simp add: inet_chksum_pseudo_partial_def inet_cksum_pseudo_partial_base_def r)
qed

section \<open>The checksum stored in the data\<close>

lemma wsum_store:
  "even i \<Longrightarrow> Suc i < length bs \<Longrightarrow> bs ! i = 0 \<Longrightarrow> bs ! Suc i = 0 \<Longrightarrow>
   wsum (bs[i := x, Suc i := y]) = wsum bs + unat x + 256 * unat y"
proof (induction bs arbitrary: i rule: wsum.induct)
  case (1 b0 b1 bs)
  show ?case
  proof (cases i)
    case 0
    then show ?thesis using "1.prems" by simp
  next
    case (Suc j)
    then obtain l where "i = Suc (Suc l)" using "1.prems"(1) by (cases j) auto
    then show ?thesis using "1.IH" [of l] "1.prems" by simp
  qed
qed auto

lemma inet_chksum_of_sum: "length bs \<le> 0x20000 \<Longrightarrow> inet_chksum a bs = NOT (of_nat (ones (wsum bs)))"
  by (simp add: inet_chksum_def chksum2_word)

lemma unat_not16: "n \<le> 65535 \<Longrightarrow> unat (NOT (of_nat n :: u16)) = 65535 - n"
proof -
  assume n: "n \<le> 65535"
  have e: "NOT (of_nat n :: u16) = of_nat (65535 - n)"
    using n by (simp add: not_eq_complement of_nat_diff)
  show ?thesis unfolding e by (rule unat_of_nat_small) simp
qed

lemma inet_chksum_store:
  assumes len: "length bs \<le> 0x20000" and i: "even i" "Suc i < length bs" "bs ! i = 0" "bs ! Suc i = 0"
    and ck_def: "ck = inet_chksum a bs"
  shows "inet_chksum a' (bs[i := ucast ck, Suc i := ucast (drop_bit 8 ck)]) = 0"
proof -
  let ?bs = "bs[i := ucast ck, Suc i := ucast (drop_bit 8 ck)]"
  have "unat ck = 65535 - ones (wsum bs)"
    unfolding ck_def by (simp add: inet_chksum_of_sum len unat_not16 ones_le)
  moreover have "unat ck = unat (ucast ck :: u8) + 256 * unat (ucast (drop_bit 8 ck) :: u8)"
  proof -
    have "unat ck < 65536" using unsigned_less [of ck, where 'a=nat] by simp
    then show ?thesis using unat_byte [of 0 ck] by (simp add: unat_byte)
  qed
  ultimately have "wsum ?bs = wsum bs + (65535 - ones (wsum bs))"
    using wsum_store [OF i, of "ucast ck" "ucast (drop_bit 8 ck)"] by simp
  moreover have "ceq (ones (wsum bs) + (65535 - ones (wsum bs))) (wsum bs + (65535 - ones (wsum bs)))"
    by (intro ceq_add ceq_ones ceq_refl)
  ultimately have "ceq 65535 (wsum ?bs)" using ones_le [of "wsum bs"] by simp
  then have "ones (wsum ?bs) = 65535" using ones_eqI [of 65535] by simp
  then show ?thesis
    using inet_chksum_of_sum [of ?bs a'] len by (simp add: word_unat_eq_iff unat_not16)
qed

section \<open>Properties\<close>

text \<open>
  C10.  The three checksum routines compute the same value at every address, even or odd, for every
  region up to \<open>0x20000\<close> bytes: the ones' complement sum of its little endian half words.  The carries
  the routines defer or add back, the half word read across the odd start and the final swap of the
  bytes lose nothing.
\<close>

theorem chksum_versions_agree:
  assumes "length data \<le> 0x20000"
  shows "lwip_standard_chksum1 data = lwip_standard_chksum2 dataptr data \<and>
    lwip_standard_chksum3 dataptr' data = lwip_standard_chksum2 dataptr data \<and>
    unat (lwip_standard_chksum2 dataptr data) = ones (wsum data)"
  by (simp add: word_unat_eq_iff chksum1_ones chksum2_ones chksum3_ones assms)

theorem chksum_versions_agree_witness:
  "lwip_standard_chksum1 [1, 2, 0xFF, 0xFF, 7] = lwip_standard_chksum2 5 [1, 2, 0xFF, 0xFF, 7] \<and>
   lwip_standard_chksum3 6 [1, 2, 0xFF, 0xFF, 7] = lwip_standard_chksum2 5 [1, 2, 0xFF, 0xFF, 7] \<and>
   ones (wsum [1, 2, 0xFF, 0xFF, 7]) = 520"
  using chksum_versions_agree [of "[1, 2, 0xFF, 0xFF, 7]" 5 6] by (simp add: ones_def)

text \<open>
  The checksum over a chain of packet buffers does not depend on how the data is cut into buffers
  nor on where they lie: it is the checksum of the concatenated payloads, whatever the number of
  buffers of odd length.
\<close>

lemma chksum_pbuf_split:
  assumes "lens_u16 p" and "length (payload_bytes p) \<le> 0x20000"
  shows "inet_chksum_pbuf p = inet_chksum dataptr (payload_bytes p)"
  by (simp add: inet_chksum_pbuf_sum inet_chksum_of_sum assms)

lemma chksum_pbuf_split_witness:
  "inet_chksum_pbuf [(7, [1]), (20, [2, 3, 4]), (33, []), (41, [5])] = inet_chksum 4 [1, 2, 3, 4, 5]"
  using chksum_pbuf_split [of "[(7, [1]), (20, [2, 3, 4]), (33, []), (41, [5])]" 4] by simp

text \<open>
  C16.  The pseudo header checksum of TCP and UDP is the checksum of the twelve bytes of the pseudo header
  (source, destination, zero, protocol, length in network order) followed by the payloads of the chain;
  the partial one takes the first \<open>chksum_len\<close> bytes of the payloads, provided that less than \<open>0x7FFF\<close>
  bytes are left after the first buffer.
\<close>

theorem chksum_pseudo_header:
  assumes "lens_u16 p" and "length (payload_bytes p) \<le> 0x10000" and "short_rest chksum_len p"
  shows "ip_chksum_pseudo p proto proto_len src dest =
      inet_chksum a (pseudo_header src dest proto proto_len @ payload_bytes p) \<and>
    ip_chksum_pseudo_partial p proto proto_len chksum_len src dest =
      Inr (inet_chksum a (pseudo_header src dest proto proto_len @
        take (unat chksum_len) (payload_bytes p)))"
proof -
  have h: "length (pseudo_header src dest proto proto_len) = 12"
    by (simp add: pseudo_header_def bytes32_def)
  show ?thesis
    using assms h
    by (simp add: ip_chksum_pseudo_def ip_chksum_pseudo_partial_def inet_chksum_pseudo_sum
        inet_chksum_pseudo_partial_sum inet_chksum_of_sum)
qed

theorem chksum_pseudo_header_witness:
  "ip_chksum_pseudo [(3, [9, 8, 7]), (8, [6, 5])] 17 5 0x0100007F 0x0200007F =
     inet_chksum 0 (pseudo_header 0x0100007F 0x0200007F 17 5 @ [9, 8, 7, 6, 5]) \<and>
   ip_chksum_pseudo_partial [(3, [9, 8, 7]), (8, [6, 5])] 17 5 4 0x0100007F 0x0200007F =
     Inr (inet_chksum 0 (pseudo_header 0x0100007F 0x0200007F 17 5 @ [9, 8, 7, 6]))"
  using chksum_pseudo_header [of "[(3, [9, 8, 7]), (8, [6, 5])]" 4 17 5 "0x0100007F" "0x0200007F" 0]
  by (simp add: short_rest_def)

text \<open>
  C30.  A checksum that is stored verifies: when the checksum of data whose checksum field (an even index)
  is zero is stored in that field, low byte first, the checksum of the result is 0 at every address.
\<close>

theorem chksum_store_verifies:
  assumes "length bs \<le> 0x20000" and "even i" and "Suc i < length bs" and "bs ! i = 0" and "bs ! Suc i = 0"
  shows "inet_chksum a' (bs[i := ucast (inet_chksum a bs), Suc i := ucast (drop_bit 8 (inet_chksum a bs))]) = 0"
  using inet_chksum_store [OF assms refl] .

theorem chksum_store_verifies_witness:
  "inet_chksum 3 ([0x45, 1, 0, 0, 9][2 := ucast (inet_chksum 8 [0x45, 1, 0, 0, 9]),
     Suc 2 := ucast (drop_bit 8 (inet_chksum 8 [0x45, 1, 0, 0, 9]))]) = 0"
  by (rule chksum_store_verifies) simp_all

text \<open>The assertion left in the partial checksum stops on lengths the function is meant for.\<close>

lemma chksum_partial_asserts:
  "inet_chksum_pseudo_partial [(0, [1, 2]), (4, [3])] 136 40000 40000 src dest = Inl AssertFailed"
  using partial_loop_assert [of 40000 0 "[1, 2]" "[(4, [3])]" "addr_sum src dest" False]
  by (simp add: inet_chksum_pseudo_partial_def inet_cksum_pseudo_partial_base_def short_rest_def)

end
