(* ===== verification/LwIp4.thy ===== *)
theory LwIp4
  imports LwDef
begin

text \<open>
  \<^verbatim>\<open>ipv4/ip4_addr.c\<close>: addresses of network byte order in a little endian \<^verbatim>\<open>u32_t\<close>, broadcast addresses,
  netmasks, and the conversion from and to text.  Text is a list of bytes as in \<open>LwDef\<close>.
\<close>

section \<open>Broadcast addresses and netmasks\<close>

text \<open>The fields of \<^verbatim>\<open>struct netif\<close> the file reads.\<close>

record netif =
  nf_flags :: u8
  nf_ip_addr :: u32
  nf_netmask :: u32

definition NETIF_FLAG_BROADCAST :: u8 where "NETIF_FLAG_BROADCAST = 0x02"

definition ip4_addr_netcmp :: "u32 \<Rightarrow> u32 \<Rightarrow> u32 \<Rightarrow> bool" where
  "ip4_addr_netcmp addr1 addr2 m \<longleftrightarrow> addr1 AND m = addr2 AND m"

definition ip4_addr_isbroadcast_u32 :: "u32 \<Rightarrow> 'a netif_scheme \<Rightarrow> bool" where
  "ip4_addr_isbroadcast_u32 addr n =
     (if NOT addr = 0 \<or> addr = 0 then True
      else if nf_flags n AND NETIF_FLAG_BROADCAST = 0 then False
      else if addr = nf_ip_addr n then False
      else if ip4_addr_netcmp addr (nf_ip_addr n) (nf_netmask n)
        \<and> addr AND NOT (nf_netmask n) = 0xFFFFFFFF AND NOT (nf_netmask n) then True
      else False)"

text \<open>The two loops that shift \<open>mask\<close> to the right.\<close>

function first_zero :: "u32 \<Rightarrow> u32 \<Rightarrow> u32" where
  "first_zero nm m = (if m \<noteq> 0 \<and> nm AND m \<noteq> 0 then first_zero nm (drop_bit 1 m) else m)"
  by pat_completeness auto

function no_one :: "u32 \<Rightarrow> u32 \<Rightarrow> bool" where
  "no_one nm m = (if m = 0 then True else if nm AND m \<noteq> 0 then False else no_one nm (drop_bit 1 m))"
  by pat_completeness auto

lemma drop_bit_1_less: "m \<noteq> 0 \<Longrightarrow> unat (drop_bit 1 m) < unat (m :: u32)"
  by (simp add: unat_drop unat_gt_0)

termination first_zero
  by (relation "measure (\<lambda>(nm, m). unat m)") (simp, use drop_bit_1_less in simp)

termination no_one
  by (relation "measure (\<lambda>(nm, m). unat m)") (simp, use drop_bit_1_less in simp)

declare first_zero.simps [simp del] no_one.simps [simp del]

definition ip4_addr_netmask_valid :: "u32 \<Rightarrow> bool" where
  "ip4_addr_netmask_valid netmask =
     (let nm_hostorder = lwip_htonl netmask;
          m = first_zero nm_hostorder (push_bit 31 1)
      in no_one nm_hostorder m)"

section \<open>From text\<close>

definition isdigit :: "u8 \<Rightarrow> bool" where "isdigit c \<longleftrightarrow> 0x30 \<le> c \<and> c \<le> 0x39"

definition islower :: "u8 \<Rightarrow> bool" where "islower c \<longleftrightarrow> 0x61 \<le> c \<and> c \<le> 0x7A"

definition isxdigit :: "u8 \<Rightarrow> bool" where
  "isxdigit c \<longleftrightarrow> isdigit c \<or> (0x61 \<le> c \<and> c \<le> 0x66) \<or> (0x41 \<le> c \<and> c \<le> 0x46)"

definition isspace :: "u8 \<Rightarrow> bool" where "isspace c \<longleftrightarrow> c \<in> {0x20, 0x0C, 0x0A, 0x0D, 0x09, 0x0B}"

text \<open>The inner loop: the digits of one number; it stops at the character after them.\<close>

fun aton_num :: "u32 \<Rightarrow> u32 \<Rightarrow> u8 list \<Rightarrow> fault + u32 \<times> u8 list" where
  "aton_num base val [] = Inl OutOfBounds"
| "aton_num base val (c # cp) =
     (if isdigit c then aton_num base (val * base + ucast (c - 0x30)) cp
      else if base = 16 \<and> isxdigit c
      then aton_num base (push_bit 4 val OR ucast (c + 10 - (if islower c then 0x61 else 0x41))) cp
      else Inr (val, c # cp))"

text \<open>One round of the outer loop up to the number: \<open>None\<close> is the return of 0 without a digit.\<close>

definition aton_part :: "u8 list \<Rightarrow> fault + (u32 \<times> u8 list) option" where
  "aton_part cp =
     seq (index cp 0) (\<lambda>c.
       if \<not> isdigit c then Inr None
       else seq (if c = 0x30 then
                   seq (index cp 1) (\<lambda>c.
                     if c = 0x78 \<or> c = 0x58 then aton_num 16 0 (drop 2 cp) else aton_num 8 0 (drop 1 cp))
                 else aton_num 10 0 cp) (\<lambda>r. Inr (Some r)))"

text \<open>
  The outer loop; \<open>parts\<close> are the numbers stored so far (\<^verbatim>\<open>pp - parts\<close> of them), the result the stored
  numbers, the last one and the character that ends it.
\<close>

function aton_loop :: "u32 list \<Rightarrow> u8 list \<Rightarrow> fault + (u32 list \<times> u32 \<times> u8) option" where
  "aton_loop parts cp =
     (case aton_part cp of
        Inl e \<Rightarrow> Inl e
      | Inr None \<Rightarrow> Inr None
      | Inr (Some (val, cp)) \<Rightarrow>
          seq (index cp 0) (\<lambda>c.
            if c = 0x2E then
              (if 3 \<le> length parts then Inr None else aton_loop (parts @ [val]) (drop 1 cp))
            else Inr (Some (parts, val, c))))"
  by pat_completeness auto
termination by (relation "measure (\<lambda>(parts, cp). 3 - length parts)") auto

declare aton_loop.simps [simp del]

text \<open>The switch over the number of parts.\<close>

definition aton_value :: "u32 list \<Rightarrow> u32 \<Rightarrow> fault + u32 option" where
  "aton_value parts val =
     (case parts of
        [] \<Rightarrow> Inr (Some val)
      | [p0] \<Rightarrow> if 0xFFFFFF < val then Inr None else if 0xFF < p0 then Inr None
                else Inr (Some (val OR push_bit 24 p0))
      | [p0, p1] \<Rightarrow> if 0xFFFF < val then Inr None else if 0xFF < p0 \<or> 0xFF < p1 then Inr None
                    else Inr (Some (val OR (push_bit 24 p0 OR push_bit 16 p1)))
      | [p0, p1, p2] \<Rightarrow> if 0xFF < val then Inr None
                        else if 0xFF < p0 \<or> 0xFF < p1 \<or> 0xFF < p2 then Inr None
                        else Inr (Some (val OR ((push_bit 24 p0 OR push_bit 16 p1) OR push_bit 8 p2)))
      | _ \<Rightarrow> Inl AssertFailed)"

text \<open>The result is what is stored through \<open>addr\<close> when the function returns 1.\<close>

definition ip4addr_aton :: "u8 list \<Rightarrow> fault + u32 option" where
  "ip4addr_aton cp =
     seq (aton_loop [] cp) (\<lambda>r.
       case r of None \<Rightarrow> Inr None
       | Some (parts, val, c) \<Rightarrow>
           if c \<noteq> 0 \<and> \<not> isspace c then Inr None
           else seq (aton_value parts val) (\<lambda>v. Inr (map_option lwip_htonl v)))"

definition ipaddr_addr :: "u8 list \<Rightarrow> fault + u32" where
  "ipaddr_addr cp =
     seq (ip4addr_aton cp) (\<lambda>r. case r of Some val \<Rightarrow> Inr val | None \<Rightarrow> Inr 0xFFFFFFFF)"

section \<open>To text\<close>

text \<open>The loop that splits a byte into the array \<^verbatim>\<open>inv[3]\<close>, last digit first.\<close>

function inv_digits :: "nat \<Rightarrow> u8 list \<Rightarrow> u8 \<Rightarrow> fault + u8 list" where
  "inv_digits i dg a =
     (if 3 \<le> i then Inl OutOfBounds
      else
        (let rem = a mod 10; a = a div 10; dg = dg @ [0x30 + rem]
         in if a \<noteq> 0 then inv_digits (i + 1) dg a else Inr dg))"
  by pat_completeness auto
termination by (relation "measure (\<lambda>(i, dg, a). 3 - i)") auto

declare inv_digits.simps [simp del]

text \<open>Storing characters with the test of \<open>len\<close> before each; \<open>rp\<close> is \<^verbatim>\<open>buf + len\<close>.  \<open>None\<close> is the return of NULL.\<close>

fun put_chars :: "int \<Rightarrow> u8 list \<Rightarrow> u8 list \<Rightarrow> nat \<Rightarrow> fault + u8 list \<times> nat option" where
  "put_chars buflen [] buf len = Inr (buf, Some len)"
| "put_chars buflen (c # cs) buf len =
     (if buflen \<le> int len then Inr (buf, None)
      else if length buf \<le> len then Inl OutOfBounds
      else put_chars buflen cs (buf[len := c]) (len + 1))"

fun ntoa_loop :: "int \<Rightarrow> u8 list \<Rightarrow> u8 list \<Rightarrow> nat \<Rightarrow> fault + u8 list \<times> nat option" where
  "ntoa_loop buflen [] buf len = Inr (buf, Some len)"
| "ntoa_loop buflen (a # ap) buf len =
     seq (inv_digits 0 [] a) (\<lambda>dg.
     seq (put_chars buflen (rev dg @ [0x2E]) buf len) (\<lambda>(buf, r).
       case r of None \<Rightarrow> Inr (buf, None) | Some len \<Rightarrow> ntoa_loop buflen ap buf len))"

text \<open>The buffer afterwards, and whether the result is the buffer and not NULL.\<close>

definition ip4addr_ntoa_r :: "u32 \<Rightarrow> u8 list \<Rightarrow> int \<Rightarrow> fault + u8 list \<times> bool" where
  "ip4addr_ntoa_r addr buf buflen =
     seq (ntoa_loop buflen (bytes32 addr) buf 0) (\<lambda>(buf, r).
       case r of None \<Rightarrow> Inr (buf, False) | Some len \<Rightarrow> Inr (buf[len - 1 := 0], True))"

definition IP4ADDR_STRLEN_MAX :: nat where "IP4ADDR_STRLEN_MAX = 16"

text \<open>\<open>str\<close> is the static buffer of \<open>IP4ADDR_STRLEN_MAX\<close> bytes.\<close>

definition ip4addr_ntoa :: "u32 \<Rightarrow> u8 list \<Rightarrow> fault + u8 list \<times> bool" where
  "ip4addr_ntoa addr str = ip4addr_ntoa_r addr str (int IP4ADDR_STRLEN_MAX)"

section \<open>Netmasks\<close>

lemma bit_one_shift:
  "i < 31 \<Longrightarrow> drop_bit (Suc 0) (push_bit (Suc i) 1 :: u32) = push_bit i 1"
  "drop_bit (Suc 0) (push_bit 0 1 :: u32) = 0"
  "i < 32 \<Longrightarrow> push_bit i 1 \<noteq> (0 :: u32)"
  by (auto simp: bit_eq_iff [where 'a = u32] bit_simps intro: exI [of _ i])

lemma and_one_eq_0: "nm AND 1 = (0 :: u32) \<longleftrightarrow> \<not> bit nm 0"
  using and_push_bit_one_eq_0 [of nm 0] by simp

lemma drop_bit_one: "drop_bit (Suc 0) (1 :: u32) = 0"
  using bit_one_shift(2) by simp

lemma no_one_bits: "i < 32 \<Longrightarrow> no_one nm (push_bit i 1) \<longleftrightarrow> (\<forall>j\<le>i. \<not> bit nm j)"
proof (induction i)
  case 0
  show ?case using no_one.simps [of nm 1] no_one.simps [of nm 0] by (simp add: and_one_eq_0 drop_bit_one)
next
  case (Suc i)
  then show ?case
    by (auto simp add: no_one.simps [of nm "push_bit (Suc i) 1"] and_push_bit_one_eq_0 bit_one_shift le_Suc_eq
        simp del: push_bit_of_1 push_bit_Suc)
qed

lemma netmask_loops:
  "i < 32 \<Longrightarrow> no_one nm (first_zero nm (push_bit i 1)) \<longleftrightarrow> (\<exists>k\<le>Suc i. \<forall>j\<le>i. bit nm j \<longleftrightarrow> k \<le> j)"
proof (induction i)
  case 0
  have "no_one nm (first_zero nm 1)"
    using first_zero.simps [of nm 1] first_zero.simps [of nm 0] no_one.simps [of nm 1] no_one.simps [of nm 0]
    by (simp add: and_one_eq_0 drop_bit_one)
  moreover have "\<exists>k\<le>Suc 0. bit nm 0 \<longleftrightarrow> k = 0"
    by (cases "bit nm 0") auto
  ultimately show ?case by simp
next
  case (Suc i)
  show ?case
  proof (cases "bit nm (Suc i)")
    case True
    have "first_zero nm (push_bit (Suc i) 1) = first_zero nm (push_bit i 1)"
      using True Suc.prems
      by (simp add: first_zero.simps [of nm "push_bit (Suc i) 1"] and_push_bit_one_eq_0 bit_one_shift
          del: push_bit_of_1 push_bit_Suc)
    moreover have "(\<exists>k\<le>Suc (Suc i). \<forall>j\<le>Suc i. bit nm j \<longleftrightarrow> k \<le> j) \<longleftrightarrow> (\<exists>k\<le>Suc i. \<forall>j\<le>i. bit nm j \<longleftrightarrow> k \<le> j)"
      using True by (auto simp: le_Suc_eq)
    ultimately show ?thesis using Suc by (simp del: push_bit_of_1 push_bit_Suc)
  next
    case False
    have "first_zero nm (push_bit (Suc i) 1) = push_bit (Suc i) 1"
      using False Suc.prems
      by (simp add: first_zero.simps [of nm "push_bit (Suc i) 1"] and_push_bit_one_eq_0
          del: push_bit_of_1 push_bit_Suc)
    moreover have "(\<exists>k\<le>Suc (Suc i). \<forall>j\<le>Suc i. bit nm j \<longleftrightarrow> k \<le> j) \<longleftrightarrow> (\<forall>j\<le>Suc i. \<not> bit nm j)"
      using False by (auto intro: exI [of _ "Suc (Suc i)"])
    ultimately show ?thesis using no_one_bits [OF Suc.prems, of nm] by (simp del: push_bit_of_1 push_bit_Suc)
  qed
qed

lemma netmask_valid_iff:
  "ip4_addr_netmask_valid nm \<longleftrightarrow> (\<exists>k\<le>32. lwip_htonl nm = NOT (mask k))"
proof -
  have "(\<forall>j\<le>31. bit (lwip_htonl nm) j \<longleftrightarrow> k \<le> j) \<longleftrightarrow> lwip_htonl nm = NOT (mask k)" for k
    by (auto simp: bit_eq_iff [where 'a = u32] bit_simps not_less)
  then show ?thesis
    using netmask_loops [of 31 "lwip_htonl nm"] unfolding ip4_addr_netmask_valid_def Let_def by simp
qed

section \<open>Text to address\<close>

lemma decimal_rec:
  "decimal n = (if n < 10 then [of_nat (48 + n)] else decimal (n div 10) @ [of_nat (48 + n mod 10)])"
  by (cases "n = 0") (auto simp: decimal_def digits_pos digits.simps [of "n div 10"] digits.simps [of n])

lemma isdigit_of_nat: "d < 10 \<Longrightarrow> isdigit (of_nat (48 + d))"
  by (simp add: isdigit_def word_le_nat_alt unat_of_nat_small del: of_nat_add)

lemma ucast_digit: "d < 10 \<Longrightarrow> (ucast (of_nat (48 + d) - 0x30 :: u8) :: u32) = of_nat d"
proof -
  assume d: "d < 10"
  have "(of_nat (48 + d) - 0x30 :: u8) = of_nat d" by simp
  then show ?thesis using d by (simp add: word_unat_eq_iff unsigned_ucast_eq unat_of_nat_small take_bit_nat_eq_self)
qed

lemma aton_num_digits:
  "aton_num 10 (of_nat m) (digits n @ s) =
   aton_num 10 (of_nat (m * 10 ^ length (digits n) + n)) s"
proof (induction n arbitrary: s rule: digits.induct)
  case (1 n)
  show ?case
  proof (cases "n = 0")
    case False
    let ?l = "length (digits (n div 10))"
    have "aton_num 10 (of_nat m) (digits n @ s) =
        aton_num 10 (of_nat (m * 10 ^ ?l + n div 10)) (of_nat (48 + n mod 10) # s)"
      using "1.IH" [OF False, of "of_nat (48 + n mod 10) # s"] False by (simp add: digits_pos)
    also have "\<dots> = aton_num 10 (of_nat (m * 10 ^ ?l + n div 10) * 10 + of_nat (n mod 10)) s"
      using isdigit_of_nat [of "n mod 10"] ucast_digit [of "n mod 10"] by (simp del: of_nat_add)
    also have "of_nat (m * 10 ^ ?l + n div 10) * 10 + of_nat (n mod 10) =
        (of_nat ((m * 10 ^ ?l + n div 10) * 10 + n mod 10) :: u32)"
      by (simp only: of_nat_add of_nat_mult of_nat_numeral)
    also have "(m * 10 ^ ?l + n div 10) * 10 + n mod 10 = m * 10 ^ Suc ?l + n"
      by (simp add: algebra_simps)
    finally show ?thesis using False by (simp add: digits_pos)
  qed simp
qed

lemma digits_first: "0 < n \<Longrightarrow> \<exists>d t. 0 < d \<and> d < 10 \<and> digits n = of_nat (48 + d) # t"
proof (induction n rule: digits.induct)
  case (1 n)
  show ?case
  proof (cases "n < 10")
    case True
    then show ?thesis using 1 by (intro exI [of _ n] exI [of _ "[]"]) (simp add: digits_pos)
  next
    case False
    then have "0 < n div 10" by (simp add: div_greater_zero_iff)
    then obtain d t where "0 < d" "d < 10" "digits (n div 10) = of_nat (48 + d) # t"
      using "1.IH" "1.prems" by (auto simp del: of_nat_add)
    then show ?thesis using 1 False by (intro exI [of _ d] exI) (auto simp add: digits_pos [of n] simp del: of_nat_add)
  qed
qed

definition ends_number :: "u8 \<Rightarrow> bool" where
  "ends_number c \<longleftrightarrow> \<not> isdigit c \<and> c \<noteq> 0x78 \<and> c \<noteq> 0x58"

lemma aton_part_decimal:
  assumes "ends_number c"
  shows "aton_part (decimal n @ c # r) = Inr (Some (of_nat n, c # r))"
proof (cases "n = 0")
  case True
  have "isdigit 0x30" "\<not> isdigit c" using assms by (auto simp: isdigit_def ends_number_def)
  then show ?thesis using True assms
    by (simp add: aton_part_def decimal_def ends_number_def index_def)
next
  case False
  obtain d t where d: "0 < d" "d < 10" "digits n = of_nat (48 + d) # t"
    using digits_first [of n] False by auto
  have z: "of_nat (48 + d) \<noteq> (0x30 :: u8)"
  proof -
    have "unat (of_nat (48 + d) :: u8) = 48 + d" using d by (intro unat_of_nat_small) simp
    then show ?thesis using d(1) by (auto simp del: of_nat_add)
  qed
  have "aton_num 10 0 (digits n @ c # r) = aton_num 10 (of_nat n) (c # r)"
    using aton_num_digits [of 0 n "c # r"] by simp
  also have "\<dots> = Inr (of_nat n, c # r)" using assms by (simp add: ends_number_def)
  finally have "aton_num 10 0 (of_nat (48 + d) # t @ c # r) = Inr (of_nat n, c # r)" by (simp only: d(3) append_Cons)
  then show ?thesis
    using False d isdigit_of_nat [OF d(2)] z
    by (simp add: aton_part_def decimal_def del: of_nat_add aton_num.simps)
qed

lemma aton_loop_dot:
  "length parts < 3 \<Longrightarrow> aton_loop parts (decimal n @ 0x2E # r) = aton_loop (parts @ [of_nat n]) r"
  by (subst aton_loop.simps) (simp add: aton_part_decimal ends_number_def isdigit_def)

lemma aton_loop_last:
  "ends_number c \<Longrightarrow> c \<noteq> 0x2E \<Longrightarrow> aton_loop parts (decimal n @ c # r) = Inr (Some (parts, of_nat n, c))"
  by (subst aton_loop.simps) (simp add: aton_part_decimal)

section \<open>Address to text\<close>

lemma inv_digits_decimal:
  "i < 3 \<Longrightarrow> unat a < 10 ^ (3 - i) \<Longrightarrow> inv_digits i dg a = Inr (dg @ rev (decimal (unat a)))"
proof (induction i dg a rule: inv_digits.induct)
  case (1 i dg a)
  have u: "unat (a div 10) = unat a div 10" "unat (a mod 10) = unat a mod 10"
    by (simp_all add: unat_div unat_mod)
  have c: "(0x30 + a mod 10 :: u8) = of_nat (48 + unat a mod 10)"
    by (simp flip: u)
  show ?case
  proof (cases "unat a < 10")
    case True
    then have "a div 10 = 0" by (simp add: word_unat_eq_iff u)
    then show ?thesis using True "1.prems"(1) c by (simp add: inv_digits.simps [of i] decimal_rec [of "unat a"])
  next
    case False
    then have nz: "a div 10 \<noteq> 0" by (simp add: word_unat_eq_iff u)
    have i: "i + 1 < 3"
    proof (rule ccontr)
      assume "\<not> i + 1 < 3"
      then have "i = 2" using "1.prems"(1) by simp
      then show False using "1.prems"(2) False by simp
    qed
    then have "i = 0 \<or> i = 1" by linarith
    then have "(10 :: nat) ^ (3 - i) = 10 * 10 ^ (3 - (i + 1))" by auto
    then have "unat (a div 10) < 10 ^ (3 - (i + 1))" using "1.prems"(2) by (simp add: u)
    then have "inv_digits (i + 1) (dg @ [0x30 + a mod 10]) (a div 10) =
        Inr ((dg @ [0x30 + a mod 10]) @ rev (decimal (unat a div 10)))"
      using "1.IH" [OF _ refl refl refl nz i] "1.prems"(1) by (simp add: u)
    then show ?thesis
      using nz "1.prems"(1) False c by (simp add: inv_digits.simps [of i] decimal_rec [of "unat a"])
  qed
qed

lemma put_chars_fit:
  "int len + int (length cs) \<le> buflen \<Longrightarrow> buflen \<le> int (length buf) \<Longrightarrow>
   put_chars buflen cs buf len = Inr (take len buf @ cs @ drop (len + length cs) buf, Some (len + length cs))"
proof (induction cs arbitrary: buf len)
  case (Cons c cs)
  then have "take (Suc len) (buf[len := c]) = take len buf @ [c]"
    by (simp add: take_Suc_conv_app_nth)
  then show ?case using Cons by simp
qed simp

lemma put_chars_full:
  "buflen < int len + int (length cs) \<Longrightarrow> int len \<le> buflen \<Longrightarrow> buflen \<le> int (length buf) \<Longrightarrow>
   \<exists>buf'. put_chars buflen cs buf len = Inr (buf', None) \<and> length buf' = length buf"
proof (induction cs arbitrary: buf len)
  case (Cons c cs)
  show ?case
  proof (cases "buflen \<le> int len")
    case False
    then have "\<exists>buf'. put_chars buflen cs (buf[len := c]) (len + 1) = Inr (buf', None) \<and>
        length buf' = length (buf[len := c])"
      using Cons.prems by (intro Cons.IH) auto
    then show ?thesis using False Cons.prems by simp
  qed simp
qed simp

definition dotted_bytes :: "u8 list \<Rightarrow> u8 list" where
  "dotted_bytes ap = concat (map (\<lambda>a. decimal (unat a) @ [0x2E]) ap)"

lemma dotted_bytes_simps [simp]:
  "dotted_bytes [] = []" "dotted_bytes (a # ap) = decimal (unat a) @ 0x2E # dotted_bytes ap"
  by (simp_all add: dotted_bytes_def)

lemma inv_digits_byte: "inv_digits 0 [] a = Inr (rev (decimal (unat a)))"
  using unsigned_less [of a, where 'a=nat] by (subst inv_digits_decimal) auto

lemma ntoa_loop_text:
  assumes "int len \<le> buflen" "buflen \<le> int (length buf)"
  shows "if int len + int (length (dotted_bytes ap)) \<le> buflen
    then ntoa_loop buflen ap buf len =
      Inr (take len buf @ dotted_bytes ap @ drop (len + length (dotted_bytes ap)) buf,
           Some (len + length (dotted_bytes ap)))
    else \<exists>buf'. ntoa_loop buflen ap buf len = Inr (buf', None) \<and> length buf' = length buf"
  using assms
proof (induction ap arbitrary: buf len)
  case (Cons a ap)
  let ?cs = "decimal (unat a) @ [0x2E]"
  show ?case
  proof (cases "int len + int (length ?cs) \<le> buflen")
    case False
    then obtain buf' where "put_chars buflen ?cs buf len = Inr (buf', None)" "length buf' = length buf"
      using put_chars_full [of buflen len ?cs buf] Cons.prems by auto
    then show ?thesis using False by (simp add: inv_digits_byte)
  next
    case True
    let ?buf = "take len buf @ ?cs @ drop (len + length ?cs) buf"
    have p: "put_chars buflen ?cs buf len = Inr (?buf, Some (len + length ?cs))"
      using True Cons.prems by (intro put_chars_fit)
    have l: "length ?buf = length buf" using True Cons.prems by simp
    have r: "ntoa_loop buflen (a # ap) buf len = ntoa_loop buflen ap ?buf (len + length ?cs)"
      using p by (simp add: inv_digits_byte)
    have tk: "take (len + length ?cs) ?buf = take len buf @ ?cs"
      using True Cons.prems by simp
    have dr: "drop (len + length ?cs + k) ?buf = drop (len + length ?cs + k) buf" for k
      using True Cons.prems by (simp add: add.commute)
    have ih: "if int (len + length ?cs) + int (length (dotted_bytes ap)) \<le> buflen
      then ntoa_loop buflen ap ?buf (len + length ?cs) =
        Inr (take (len + length ?cs) ?buf @ dotted_bytes ap @
             drop (len + length ?cs + length (dotted_bytes ap)) ?buf,
             Some (len + length ?cs + length (dotted_bytes ap)))
      else \<exists>buf'. ntoa_loop buflen ap ?buf (len + length ?cs) = Inr (buf', None) \<and> length buf' = length ?buf"
      using True Cons.prems l by (intro Cons.IH) auto
    have e: "int (len + length ?cs) + int (length (dotted_bytes ap)) =
        int len + int (length (dotted_bytes (a # ap)))" by simp
    have e2: "len + length ?cs + length (dotted_bytes ap) = len + length (dotted_bytes (a # ap))" by simp
    have e3: "(take len buf @ ?cs) @ dotted_bytes ap @ ds = take len buf @ dotted_bytes (a # ap) @ ds" for ds
      by simp
    show ?thesis using ih unfolding tk dr l e e3 unfolding e2 r .
  qed
qed simp

text \<open>The dotted decimal text of an address.\<close>

definition dotted :: "u32 \<Rightarrow> u8 list" where
  "dotted addr = butlast (dotted_bytes (bytes32 addr))"

lemma dotted_parts:
  "dotted addr = decimal (unat (ucast addr :: u8)) @ 0x2E # decimal (unat (ucast (drop_bit 8 addr) :: u8)) @
     0x2E # decimal (unat (ucast (drop_bit 16 addr) :: u8)) @ 0x2E # decimal (unat (ucast (drop_bit 24 addr) :: u8))"
  by (simp add: dotted_def bytes32_def butlast_append)

lemma dotted_bytes_dotted: "dotted_bytes (bytes32 addr) = dotted addr @ [0x2E]"
  unfolding dotted_parts by (simp add: bytes32_def)

lemma ntoa_r_text:
  assumes "0 \<le> buflen" "buflen \<le> int (length buf)"
  shows "if int (length (dotted addr)) < buflen
    then ip4addr_ntoa_r addr buf buflen = Inr (dotted addr @ 0 # drop (Suc (length (dotted addr))) buf, True)
    else \<exists>buf'. ip4addr_ntoa_r addr buf buflen = Inr (buf', False) \<and> length buf' = length buf"
proof -
  have e: "int 0 + int (length (dotted_bytes (bytes32 addr))) \<le> buflen \<longleftrightarrow> int (length (dotted addr)) < buflen"
    by (simp add: dotted_bytes_dotted) linarith
  note t = ntoa_loop_text [of 0 buflen buf "bytes32 addr", unfolded e]
  show ?thesis
  proof (cases "int (length (dotted addr)) < buflen")
    case True
    then show ?thesis using t assms
      by (simp add: ip4addr_ntoa_r_def dotted_bytes_dotted list_update_append)
  next
    case False
    then show ?thesis using t assms by (auto simp: ip4addr_ntoa_r_def)
  qed
qed

lemma aton_dotted:
  assumes "c = 0 \<or> isspace c"
  shows "ip4addr_aton (dotted addr @ c # r) = Inr (Some addr)"
proof -
  let ?b = "\<lambda>k. ucast (drop_bit k addr) :: u8"
  have c: "ends_number c" "c \<noteq> 0x2E" using assms by (auto simp: ends_number_def isdigit_def isspace_def)
  have b: "(of_nat (unat (b :: u8)) :: u32) = ucast b" for b by (simp add: word_unat_eq_iff)
  have le: "\<not> (0xFF :: u32) < ucast (b :: u8)" for b
    using unsigned_less [of b, where 'a=nat]
    by (simp add: word_less_nat_alt unsigned_ucast_eq take_bit_nat_eq_self)
  have "aton_loop [] (dotted addr @ c # r) =
      Inr (Some ([ucast (ucast addr :: u8), ucast (?b 8), ucast (?b 16)], ucast (?b 24), c))"
    unfolding dotted_parts append_assoc append_Cons
    by (simp add: aton_loop_dot aton_loop_last c b)
  moreover have "lwip_htonl (ucast (?b 24) OR ((push_bit 24 (ucast (ucast addr :: u8)) OR
      push_bit 16 (ucast (?b 8))) OR push_bit 8 (ucast (?b 16)))) = addr"
    by (rule bit_word_eqI) (auto simp: bit_htonl bit_simps ac_simps)
  ultimately show ?thesis
    using assms by (simp add: ip4addr_aton_def aton_value_def le)
qed

lemma length_decimal_byte: "length (decimal (unat (a :: u8))) \<le> 3"
  using unsigned_less [of a, where 'a=nat]
  by (simp add: decimal_rec [of "unat a"] decimal_rec [of "unat a div 10"] decimal_rec [of "unat a div 10 div 10"])

lemma length_dotted: "length (dotted addr) \<le> 15"
  using length_decimal_byte [of "ucast addr"] length_decimal_byte [of "ucast (drop_bit 8 addr)"]
    length_decimal_byte [of "ucast (drop_bit 16 addr)"] length_decimal_byte [of "ucast (drop_bit 24 addr)"]
  by (simp add: dotted_parts)

section \<open>Properties\<close>

text \<open>
  C28.  Text and address are inverse.  Given a buffer of at least \<open>buflen\<close> bytes, \<^verbatim>\<open>ip4addr_ntoa_r\<close> never
  writes outside it and never runs over its three digits per byte; it returns NULL exactly when the
  dotted decimal text and its terminator do not fit, and otherwise leaves a text that \<^verbatim>\<open>ip4addr_aton\<close>
  and \<^verbatim>\<open>ipaddr_addr\<close> read back as the same address.  The static buffer of \<^verbatim>\<open>ip4addr_ntoa\<close> always fits.
\<close>

theorem addr_text_roundtrip:
  assumes "0 \<le> buflen" and "buflen \<le> int (length buf)"
  shows "(if int (length (dotted addr)) < buflen
     then \<exists>buf'. ip4addr_ntoa_r addr buf buflen = Inr (buf', True) \<and>
       ip4addr_aton buf' = Inr (Some addr) \<and> ipaddr_addr buf' = Inr addr
     else \<exists>buf'. ip4addr_ntoa_r addr buf buflen = Inr (buf', False)) \<and>
    length (dotted addr) < IP4ADDR_STRLEN_MAX"
proof -
  have a: "ip4addr_aton (dotted addr @ 0 # r) = Inr (Some addr)" for r
    by (rule aton_dotted) simp
  then have "ipaddr_addr (dotted addr @ 0 # r) = Inr addr" for r
    by (simp add: ipaddr_addr_def)
  then show ?thesis
    using ntoa_r_text [OF assms, of addr] a length_dotted [of addr]
    by (auto simp: IP4ADDR_STRLEN_MAX_def split: if_splits)
qed

theorem addr_text_roundtrip_witness:
  "\<exists>buf'. ip4addr_ntoa_r 0x0A00A8C0 (replicate 16 7) 16 = Inr (buf', True) \<and>
     ip4addr_aton buf' = Inr (Some 0x0A00A8C0) \<and> ipaddr_addr buf' = Inr 0x0A00A8C0"
  using addr_text_roundtrip [of 16 "replicate 16 7" "0x0A00A8C0"]
  by (auto simp: IP4ADDR_STRLEN_MAX_def split: if_splits)

text \<open>
  C31.  A netmask is accepted exactly when, read in host order, it consists of ones followed by zeros only.
\<close>

theorem netmask_valid_prefix:
  "ip4_addr_netmask_valid netmask \<longleftrightarrow> (\<exists>k. k \<le> 32 \<and> lwip_htonl netmask = NOT (mask k))"
  using netmask_valid_iff [of netmask] .

text \<open>An address is a broadcast address on an interface exactly when it is one of the three kinds.\<close>

lemma isbroadcast_iff:
  "ip4_addr_isbroadcast_u32 addr n \<longleftrightarrow>
     addr = 0 \<or> addr = 0xFFFFFFFF \<or>
     (nf_flags n AND NETIF_FLAG_BROADCAST \<noteq> 0 \<and> addr \<noteq> nf_ip_addr n \<and>
      addr = (nf_ip_addr n AND nf_netmask n) OR NOT (nf_netmask n))"
proof -
  have ones: "NOT addr = 0 \<longleftrightarrow> addr = 0xFFFFFFFF"
  proof
    assume "NOT addr = 0"
    then have "NOT (NOT addr) = NOT 0" by simp
    then show "addr = 0xFFFFFFFF" by simp
  qed simp
  have split: "x AND m = y AND m \<and> x AND NOT m = 0xFFFFFFFF AND NOT m \<longleftrightarrow> x = (y AND m) OR NOT m" for x y m :: u32
  proof -
    have f: "(0xFFFFFFFF :: u32) = NOT 0" by simp
    show ?thesis unfolding f by (auto simp: bit_eq_iff [where 'a = u32] bit_simps)
  qed
  show ?thesis
    unfolding ip4_addr_isbroadcast_u32_def ip4_addr_netcmp_def split ones by auto
qed

text \<open>
  The parser takes numbers modulo \<open>2 ^ 32\<close>, so it accepts parts that are out of range; it accepts the
  digits 8 and 9 in octal, and a hexadecimal prefix without digits.
\<close>

lemma aton_wraps:
  "ip4addr_aton (decimal 1 @ 0x2E # decimal 2 @ 0x2E # decimal 3 @ 0x2E # decimal 4294967300 @ [0]) =
   Inr (Some 0x04030201)"
proof -
  have "ends_number 0" by (simp add: ends_number_def isdigit_def)
  then have "aton_loop [] (decimal 1 @ 0x2E # decimal 2 @ 0x2E # decimal 3 @ 0x2E # decimal 4294967300 @ [0]) =
      Inr (Some ([1, 2, 3], 4, 0))"
    by (simp add: aton_loop_dot aton_loop_last)
  then show ?thesis by (simp add: ip4addr_aton_def aton_value_def lwip_htonl_def)
qed

lemma aton_octal_digits: "ip4addr_aton [0x30, 0x38, 0x39, 0] = Inr (Some 0x49000000)"
  by (simp add: ip4addr_aton_def aton_loop.simps aton_part_def isdigit_def index_def aton_value_def lwip_htonl_def)

lemma aton_bare_hex: "ip4addr_aton [0x30, 0x78, 0] = Inr (Some 0)"
  by (simp add: ip4addr_aton_def aton_loop.simps aton_part_def isdigit_def isxdigit_def index_def
      aton_value_def lwip_htonl_def)

end
