(* ===== verification/LwMemp.thy ===== *)
theory LwMemp
  imports Prelude
begin

text \<open>
  \<^verbatim>\<open>memp.c\<close>: pools of elements of one size, without the overflow and sanity checks the port leaves off.
  The free elements of a pool form a list linked through their own first word, so a pool carries that
  word of every element (\<open>mp_next\<close>); for an element in use it belongs to the user.  The locale
  \<open>element_pool\<close> is the contract the users of a pool rely on.
\<close>

section \<open>Linked lists in memory\<close>

fun linked :: "(nat \<Rightarrow> nat option) \<Rightarrow> nat option \<Rightarrow> nat list \<Rightarrow> bool" where
  "linked nx p [] \<longleftrightarrow> p = None"
| "linked nx p (q # qs) \<longleftrightarrow> p = Some q \<and> linked nx (nx q) qs"

lemma linked_upd_other: "q \<notin> set qs \<Longrightarrow> linked (nx(q := r)) p qs = linked nx p qs"
  by (induction qs arbitrary: p) auto

lemma linked_determ: "linked nx p qs \<Longrightarrow> linked nx p rs \<Longrightarrow> qs = rs"
proof (induction qs arbitrary: p rs)
  case Nil
  then show ?case by (cases rs) auto
next
  case (Cons q qs)
  then show ?case by (cases rs) auto
qed

section \<open>The pool and its operations\<close>

record memp_pool =
  mp_base :: nat
  mp_size :: nat
  mp_num :: nat
  mp_tab :: "nat option"
  mp_next :: "nat \<Rightarrow> nat option"
  mp_used :: u16
  mp_max :: u16
  mp_err :: u16
  mp_avail :: u16

definition MEM_ALIGNMENT :: nat where "MEM_ALIGNMENT = 4"

definition LWIP_MEM_ALIGN :: "nat \<Rightarrow> nat" where
  "LWIP_MEM_ALIGN addr = (addr + MEM_ALIGNMENT - 1) div MEM_ALIGNMENT * MEM_ALIGNMENT"

text \<open>The loop that links the elements, \<open>n\<close> of them from address \<open>memp\<close> on.\<close>

fun memp_link :: "nat \<Rightarrow> nat \<Rightarrow> memp_pool \<Rightarrow> memp_pool" where
  "memp_link 0 memp d = d"
| "memp_link (Suc n) memp d =
     memp_link n (memp + mp_size d) (d\<lparr>mp_next := (mp_next d)(memp := mp_tab d), mp_tab := Some memp\<rparr>)"

definition memp_init_pool :: "memp_pool \<Rightarrow> memp_pool" where
  "memp_init_pool d =
     (let d = d\<lparr>mp_tab := None\<rparr>;
          memp = LWIP_MEM_ALIGN (mp_base d);
          d = memp_link (mp_num d) memp d
      in d\<lparr>mp_avail := of_nat (mp_num d)\<rparr>)"

definition memp_init :: "memp_pool list \<Rightarrow> memp_pool list" where
  "memp_init memp_pools = map memp_init_pool memp_pools"

definition do_memp_malloc_pool :: "memp_pool \<Rightarrow> fault + nat option \<times> memp_pool" where
  "do_memp_malloc_pool d =
     (case mp_tab d of
        Some memp \<Rightarrow>
          (let d = d\<lparr>mp_tab := mp_next d memp\<rparr>
           in if memp mod MEM_ALIGNMENT \<noteq> 0 then Inl AssertFailed
              else (let d = d\<lparr>mp_used := mp_used d + 1\<rparr>;
                        d = (if mp_max d < mp_used d then d\<lparr>mp_max := mp_used d\<rparr> else d)
                    in Inr (Some memp, d)))
      | None \<Rightarrow> Inr (None, d\<lparr>mp_err := mp_err d + 1\<rparr>))"

text \<open>A descriptor pointer may be NULL, which the assertion stops.\<close>

definition memp_malloc_pool :: "memp_pool option \<Rightarrow> fault + nat option \<times> memp_pool" where
  "memp_malloc_pool desc = (case desc of None \<Rightarrow> Inl AssertFailed | Some d \<Rightarrow> do_memp_malloc_pool d)"

definition memp_malloc :: "nat \<Rightarrow> memp_pool list \<Rightarrow> fault + nat option \<times> memp_pool list" where
  "memp_malloc type memp_pools =
     (if \<not> type < length memp_pools then Inr (None, memp_pools)
      else seq (do_memp_malloc_pool (memp_pools ! type)) (\<lambda>(memp, d). Inr (memp, memp_pools[type := d])))"

definition do_memp_free_pool :: "nat \<Rightarrow> memp_pool \<Rightarrow> fault + memp_pool" where
  "do_memp_free_pool mem d =
     (if mem mod MEM_ALIGNMENT \<noteq> 0 then Inl AssertFailed
      else (let d = d\<lparr>mp_used := mp_used d - 1\<rparr>
            in Inr (d\<lparr>mp_next := (mp_next d)(mem := mp_tab d), mp_tab := Some mem\<rparr>)))"

definition memp_free_pool :: "memp_pool option \<Rightarrow> nat option \<Rightarrow> fault + memp_pool option" where
  "memp_free_pool desc mem =
     (case desc of None \<Rightarrow> Inl AssertFailed
      | Some d \<Rightarrow> (case mem of None \<Rightarrow> Inr (Some d) | Some m \<Rightarrow> seq (do_memp_free_pool m d) (\<lambda>d. Inr (Some d))))"

definition memp_free :: "nat \<Rightarrow> nat option \<Rightarrow> memp_pool list \<Rightarrow> fault + memp_pool list" where
  "memp_free type mem memp_pools =
     (if \<not> type < length memp_pools then Inr memp_pools
      else (case mem of None \<Rightarrow> Inr memp_pools
            | Some m \<Rightarrow> seq (do_memp_free_pool m (memp_pools ! type)) (\<lambda>d. Inr (memp_pools[type := d]))))"

section \<open>The contract of a pool\<close>

text \<open>
  \<open>inv s A\<close>: the pool is in order and the elements in use are \<open>A\<close>.  The word an element in use begins
  with belongs to its user: \<open>peek\<close> reads and \<open>poke\<close> writes it.
\<close>

locale element_pool =
  fixes inv :: "'s \<Rightarrow> nat set \<Rightarrow> bool"
    and cap :: "'s \<Rightarrow> nat"
    and alloc :: "'s \<Rightarrow> fault + nat option \<times> 's"
    and release :: "nat \<Rightarrow> 's \<Rightarrow> fault + 's"
    and peek :: "nat \<Rightarrow> 's \<Rightarrow> nat option"
    and poke :: "nat \<Rightarrow> nat option \<Rightarrow> 's \<Rightarrow> 's"
  assumes finite_used: "inv s A \<Longrightarrow> finite A \<and> card A \<le> cap s"
    and alloc_some: "inv s A \<Longrightarrow> card A < cap s \<Longrightarrow>
      \<exists>p s'. alloc s = Inr (Some p, s') \<and> p \<notin> A \<and> inv s' (insert p A) \<and> cap s' = cap s \<and>
        (\<forall>q. peek q s' = peek q s)"
    and alloc_full: "inv s A \<Longrightarrow> card A = cap s \<Longrightarrow>
      \<exists>s'. alloc s = Inr (None, s') \<and> inv s' A \<and> cap s' = cap s \<and> (\<forall>q. peek q s' = peek q s)"
    and release_used: "inv s A \<Longrightarrow> p \<in> A \<Longrightarrow>
      \<exists>s'. release p s = Inr s' \<and> inv s' (A - {p}) \<and> cap s' = cap s \<and> (\<forall>q. q \<noteq> p \<longrightarrow> peek q s' = peek q s)"
    and poke_used: "inv s A \<Longrightarrow> p \<in> A \<Longrightarrow> inv (poke p v s) A \<and> cap (poke p v s) = cap s"
    and peek_poke: "peek q (poke p v s) = (if q = p then v else peek q s)"
begin

text \<open>A pool never hands out an element in use, and refuses only when all are in use.\<close>

lemma alloc_cases:
  assumes "inv s A"
  obtains (some) p s' where "alloc s = Inr (Some p, s')" "p \<notin> A" "inv s' (insert p A)"
    "cap s' = cap s" "\<forall>q. peek q s' = peek q s" "card A < cap s"
  | (full) s' where "alloc s = Inr (None, s')" "inv s' A" "card A = cap s" "cap s' = cap s"
proof (cases "card A < cap s")
  case True
  then show ?thesis using alloc_some [OF assms True] some by blast
next
  case False
  then have "card A = cap s" using finite_used [OF assms] by simp
  then show ?thesis using alloc_full [OF assms] full by blast
qed

text \<open>\<open>n\<close> allocations in a row.\<close>

fun alloc_n :: "nat \<Rightarrow> 's \<Rightarrow> fault + nat list \<times> 's" where
  "alloc_n 0 s = Inr ([], s)"
| "alloc_n (Suc n) s =
     seq (alloc s) (\<lambda>(r, s'). case r of None \<Rightarrow> Inr ([], s')
       | Some p \<Rightarrow> seq (alloc_n n s') (\<lambda>(ps, s''). Inr (p # ps, s'')))"

lemma alloc_n_distinct:
  "inv s A \<Longrightarrow> \<exists>ps s'. alloc_n n s = Inr (ps, s') \<and> distinct ps \<and> set ps \<inter> A = {} \<and>
     inv s' (set ps \<union> A) \<and> length ps = min n (cap s - card A)"
proof (induction n arbitrary: s A)
  case (Suc n)
  from Suc.prems show ?case
  proof (cases rule: alloc_cases)
    case (some p s')
    obtain ps s'' where ih: "alloc_n n s' = Inr (ps, s'')" "distinct ps" "set ps \<inter> insert p A = {}"
      "inv s'' (set ps \<union> insert p A)" "length ps = min n (cap s' - card (insert p A))"
      using Suc.IH [OF some(3)] by blast
    have "card (insert p A) = Suc (card A)" using some(2) finite_used [OF Suc.prems] by simp
    then show ?thesis using some ih by (auto simp: Un_insert_right)
  next
    case (full s')
    then show ?thesis by auto
  qed
qed auto

lemma alloc_after_release:
  assumes "inv s A" "p \<in> A"
  shows "\<exists>s' q s''. release p s = Inr s' \<and> alloc s' = Inr (Some q, s'') \<and> q \<notin> A - {p}"
proof -
  obtain s' where s': "release p s = Inr s'" "inv s' (A - {p})" "cap s' = cap s"
    using release_used [OF assms] by blast
  have "card (A - {p}) < cap s'"
    using finite_used [OF assms(1)] assms(2) s'(3) by (metis card_Diff1_less order.strict_trans2)
  then show ?thesis using alloc_some [OF s'(2)] s'(1) by blast
qed

end

section \<open>The pools of the file keep it\<close>

definition elems :: "memp_pool \<Rightarrow> nat set" where
  "elems d = (\<lambda>i. LWIP_MEM_ALIGN (mp_base d) + i * mp_size d) ` {..<mp_num d}"

text \<open>What the descriptors of the file satisfy: aligned, non-empty elements, a 16-bit number of them.\<close>

definition desc_ok :: "memp_pool \<Rightarrow> bool" where
  "desc_ok d \<longleftrightarrow> 0 < mp_size d \<and> mp_size d mod MEM_ALIGNMENT = 0 \<and> mp_num d < 65536"

definition pool_inv :: "memp_pool \<Rightarrow> nat set \<Rightarrow> bool" where
  "pool_inv d A \<longleftrightarrow> desc_ok d \<and> unat (mp_used d) = card A \<and>
     (\<exists>free. linked (mp_next d) (mp_tab d) free \<and> distinct free \<and> set free \<inter> A = {} \<and> set free \<union> A = elems d)"

lemma finite_elems [simp]: "finite (elems d)"
  by (simp add: elems_def)

lemma card_elems: "desc_ok d \<Longrightarrow> card (elems d) = mp_num d"
  unfolding elems_def by (subst card_image) (auto simp: inj_on_def desc_ok_def)

lemma align_mod: "LWIP_MEM_ALIGN a mod MEM_ALIGNMENT = 0"
  by (simp add: LWIP_MEM_ALIGN_def MEM_ALIGNMENT_def)

lemma elems_aligned: "desc_ok d \<Longrightarrow> p \<in> elems d \<Longrightarrow> p mod MEM_ALIGNMENT = 0"
  using align_mod [of "mp_base d"]
  by (auto simp: elems_def desc_ok_def mod_mult_right_eq [symmetric] mod_add_left_eq [symmetric] simp del: mod_mult_right_eq mod_add_left_eq)

lemma elems_cong: "mp_base d' = mp_base d \<Longrightarrow> mp_size d' = mp_size d \<Longrightarrow> mp_num d' = mp_num d \<Longrightarrow>
    elems d' = elems d \<and> desc_ok d' = desc_ok d"
  by (simp add: elems_def desc_ok_def)

lemma pool_inv_card:
  assumes "pool_inv d A"
  shows "finite A" "A \<subseteq> elems d" "card A \<le> mp_num d"
proof -
  show s: "A \<subseteq> elems d" using assms by (auto simp: pool_inv_def)
  then show "finite A" by (rule finite_subset) simp
  show "card A \<le> mp_num d" using card_mono [OF _ s] card_elems [of d] assms by (simp add: pool_inv_def)
qed

text \<open>What the allocator does when an element is free, and when none is.\<close>

lemma malloc_pool_some:
  assumes inv: "pool_inv d A" and lt: "card A < mp_num d"
  shows "\<exists>p d'. do_memp_malloc_pool d = Inr (Some p, d') \<and> p \<notin> A \<and> pool_inv d' (insert p A) \<and>
    mp_num d' = mp_num d \<and> mp_next d' = mp_next d"
proof -
  obtain free where f: "linked (mp_next d) (mp_tab d) free" "distinct free" "set free \<inter> A = {}"
    "set free \<union> A = elems d" using inv by (auto simp: pool_inv_def)
  have ok: "desc_ok d" using inv by (simp add: pool_inv_def)
  have "free \<noteq> []"
    using f(4) card_elems [OF ok] lt by auto
  then obtain p ps where p: "free = p # ps" by (cases free) auto
  have tab: "mp_tab d = Some p" "linked (mp_next d) (mp_next d p) ps" using f(1) by (simp_all add: p)
  have al: "p mod MEM_ALIGNMENT = 0" using elems_aligned [OF ok] f(4) p by auto
  let ?d1 = "d\<lparr>mp_tab := mp_next d p, mp_used := mp_used d + 1\<rparr>"
  define d' where "d' = (if mp_max d < mp_used d + 1 then ?d1\<lparr>mp_max := mp_used d + 1\<rparr> else ?d1)"
  have run: "do_memp_malloc_pool d = Inr (Some p, d')"
    using al by (simp add: do_memp_malloc_pool_def tab d'_def)
  have pA: "p \<notin> A" using f(3) p by auto
  have "unat (mp_used d) < 65535" using inv lt ok by (auto simp: pool_inv_def desc_ok_def)
  then have "unat (mp_used d + 1) = Suc (unat (mp_used d))" by (simp add: unat_word_ariths)
  then have used: "unat (mp_used d') = card (insert p A)"
    using inv pA pool_inv_card(1) [OF inv] by (simp add: d'_def pool_inv_def)
  have fields: "mp_base d' = mp_base d" "mp_size d' = mp_size d" "mp_num d' = mp_num d"
    "mp_next d' = mp_next d" "mp_tab d' = mp_next d p" by (simp_all add: d'_def)
  have "pool_inv d' (insert p A)"
    unfolding pool_inv_def using f p tab(2) used ok elems_cong [OF fields(1-3)]
    by (auto simp: fields intro!: exI [of _ ps])
  then show ?thesis using run pA fields by blast
qed

lemma malloc_pool_full:
  assumes inv: "pool_inv d A" and full: "card A = mp_num d"
  shows "do_memp_malloc_pool d = Inr (None, d\<lparr>mp_err := mp_err d + 1\<rparr>)"
    and "pool_inv (d\<lparr>mp_err := mp_err d + 1\<rparr>) A"
proof -
  obtain free where f: "linked (mp_next d) (mp_tab d) free" "set free \<inter> A = {}"
    "set free \<union> A = elems d" using inv by (auto simp: pool_inv_def)
  have "A = elems d"
    using card_subset_eq [OF finite_elems pool_inv_card(2) [OF inv]] full card_elems [of d] inv
    by (simp add: pool_inv_def)
  then have "free = []" using f(2,3) by (cases free) auto
  then show "do_memp_malloc_pool d = Inr (None, d\<lparr>mp_err := mp_err d + 1\<rparr>)"
    using f(1) by (simp add: do_memp_malloc_pool_def)
  show "pool_inv (d\<lparr>mp_err := mp_err d + 1\<rparr>) A"
    using inv elems_cong [of "d\<lparr>mp_err := mp_err d + 1\<rparr>" d] by (simp add: pool_inv_def)
qed

lemma free_pool_used:
  assumes inv: "pool_inv d A" and p: "p \<in> A"
  shows "\<exists>d'. do_memp_free_pool p d = Inr d' \<and> pool_inv d' (A - {p}) \<and> mp_num d' = mp_num d \<and>
    mp_next d' = (mp_next d)(p := mp_tab d)"
proof -
  obtain free where f: "linked (mp_next d) (mp_tab d) free" "distinct free" "set free \<inter> A = {}"
    "set free \<union> A = elems d" using inv by (auto simp: pool_inv_def)
  have ok: "desc_ok d" using inv by (simp add: pool_inv_def)
  have al: "p mod MEM_ALIGNMENT = 0" using elems_aligned [OF ok] f(4) p by auto
  define d' where "d' = d\<lparr>mp_used := mp_used d - 1, mp_next := (mp_next d)(p := mp_tab d), mp_tab := Some p\<rparr>"
  have run: "do_memp_free_pool p d = Inr d'" using al by (simp add: do_memp_free_pool_def d'_def)
  have fin: "finite A" by (rule pool_inv_card [OF inv])
  have "card A \<noteq> 0" using p fin by auto
  then have "mp_used d \<noteq> 0" using inv by (auto simp: pool_inv_def)
  then have used: "unat (mp_used d - 1) = card (A - {p})"
    using inv p fin by (simp add: unat_minus_one pool_inv_def)
  have nf: "p \<notin> set free" using f(3) p by auto
  have "pool_inv d' (A - {p})"
    unfolding pool_inv_def
    using f nf p used ok elems_cong [of d' d] linked_upd_other [OF nf, of "mp_next d"]
    by (auto simp: d'_def intro!: exI [of _ "p # free"])
  then show ?thesis using run by (auto simp: d'_def)
qed

lemma poke_pool_used:
  assumes inv: "pool_inv d A" and p: "p \<in> A"
  shows "pool_inv (d\<lparr>mp_next := (mp_next d)(p := v)\<rparr>) A"
proof -
  obtain free where f: "linked (mp_next d) (mp_tab d) free" "distinct free" "set free \<inter> A = {}"
    "set free \<union> A = elems d" using inv by (auto simp: pool_inv_def)
  then have nf: "p \<notin> set free" using p by auto
  show ?thesis
    unfolding pool_inv_def
    using inv f linked_upd_other [OF nf, of "mp_next d" v] elems_cong [of "d\<lparr>mp_next := (mp_next d)(p := v)\<rparr>" d]
    by (auto simp: pool_inv_def intro!: exI [of _ free])
qed

definition poke :: "nat \<Rightarrow> nat option \<Rightarrow> memp_pool \<Rightarrow> memp_pool" where
  "poke p v d = d\<lparr>mp_next := (mp_next d)(p := v)\<rparr>"

interpretation mp: element_pool pool_inv mp_num do_memp_malloc_pool do_memp_free_pool "\<lambda>p d. mp_next d p" poke
proof unfold_locales
  fix d A assume i: "pool_inv d A"
  show "finite A \<and> card A \<le> mp_num d" using pool_inv_card [OF i] by simp
  show "\<exists>p s'. do_memp_malloc_pool d = Inr (Some p, s') \<and> p \<notin> A \<and> pool_inv s' (insert p A) \<and>
      mp_num s' = mp_num d \<and> (\<forall>q. mp_next s' q = mp_next d q)" if "card A < mp_num d"
    using malloc_pool_some [OF i that] by metis
  show "\<exists>s'. do_memp_malloc_pool d = Inr (None, s') \<and> pool_inv s' A \<and> mp_num s' = mp_num d \<and>
      (\<forall>q. mp_next s' q = mp_next d q)" if "card A = mp_num d"
    using malloc_pool_full [OF i that] by simp
  show "\<exists>s'. do_memp_free_pool p d = Inr s' \<and> pool_inv s' (A - {p}) \<and> mp_num s' = mp_num d \<and>
      (\<forall>q. q \<noteq> p \<longrightarrow> mp_next s' q = mp_next d q)" if "p \<in> A" for p
    using free_pool_used [OF i that] by (metis fun_upd_apply)
  show "pool_inv (poke p v d) A \<and> mp_num (poke p v d) = mp_num d" if "p \<in> A" for p v
    using poke_pool_used [OF i that] by (simp add: poke_def)
qed (simp add: poke_def)

section \<open>Initialisation\<close>

lemma memp_link_fields [simp]:
  "mp_base (memp_link n m d) = mp_base d" "mp_size (memp_link n m d) = mp_size d"
  "mp_num (memp_link n m d) = mp_num d" "mp_used (memp_link n m d) = mp_used d"
  by (induction n m d rule: memp_link.induct) simp_all

lemma memp_link_list:
  assumes "linked (mp_next d) (mp_tab d) ps" "\<forall>i<n. m + i * mp_size d \<notin> set ps" "0 < mp_size d" "distinct ps"
  shows "\<exists>qs. linked (mp_next (memp_link n m d)) (mp_tab (memp_link n m d)) qs \<and> distinct qs \<and>
    set qs = set ps \<union> (\<lambda>i. m + i * mp_size d) ` {..<n}"
  using assms
proof (induction n m d arbitrary: ps rule: memp_link.induct)
  case (2 n memp d)
  let ?d = "d\<lparr>mp_next := (mp_next d)(memp := mp_tab d), mp_tab := Some memp\<rparr>"
  have n0: "memp \<notin> set ps" using "2.prems"(2) by (auto dest: spec [of _ 0])
  have l: "linked (mp_next ?d) (mp_tab ?d) (memp # ps)"
    using "2.prems"(1) linked_upd_other [OF n0, of "mp_next d"] by simp
  have fresh: "\<forall>i<n. memp + mp_size d + i * mp_size ?d \<notin> set (memp # ps)"
  proof (intro allI impI)
    fix i assume "i < n"
    then have "memp + Suc i * mp_size d \<notin> set ps" using "2.prems"(2) by blast
    then show "memp + mp_size d + i * mp_size ?d \<notin> set (memp # ps)"
      using "2.prems"(3) by (simp add: add.assoc)
  qed
  obtain qs where q: "linked (mp_next (memp_link (Suc n) memp d)) (mp_tab (memp_link (Suc n) memp d)) qs"
    "distinct qs" "set qs = set (memp # ps) \<union> (\<lambda>i. memp + mp_size d + i * mp_size d) ` {..<n}"
    using "2.IH" [OF l fresh] "2.prems" n0 by auto
  have "(\<lambda>i. memp + i * mp_size d) ` {..<Suc n} = insert memp ((\<lambda>i. memp + mp_size d + i * mp_size d) ` {..<n})"
    unfolding lessThan_Suc_eq_insert_0 by (simp add: image_image add.assoc)
  then show ?case using q by auto
qed auto

lemma memp_init_pool_inv:
  assumes "desc_ok d" "mp_used d = 0"
  shows "pool_inv (memp_init_pool d) {}"
proof -
  let ?d = "d\<lparr>mp_tab := None\<rparr>"
  obtain qs where q: "linked (mp_next (memp_link (mp_num d) (LWIP_MEM_ALIGN (mp_base d)) ?d))
      (mp_tab (memp_link (mp_num d) (LWIP_MEM_ALIGN (mp_base d)) ?d)) qs" "distinct qs"
    "set qs = (\<lambda>i. LWIP_MEM_ALIGN (mp_base d) + i * mp_size d) ` {..<mp_num d}"
    using memp_link_list [of ?d "[]" "mp_num d" "LWIP_MEM_ALIGN (mp_base d)"] assms by (auto simp: desc_ok_def)
  then show ?thesis
    using assms by (auto simp: pool_inv_def memp_init_pool_def Let_def desc_ok_def elems_def)
qed

section \<open>Properties\<close>

text \<open>
  The runs of a pool: after its initialisation, allocations, releases of elements in use, and writes of
  the users to their elements; \<open>A\<close> is the set of elements handed out and not given back.
\<close>

inductive pool_run :: "memp_pool \<Rightarrow> memp_pool \<Rightarrow> nat set \<Rightarrow> bool" for d0 where
  init: "pool_run d0 (memp_init_pool d0) {}"
| malloc: "pool_run d0 d A \<Longrightarrow> do_memp_malloc_pool d = Inr (Some p, d') \<Longrightarrow> pool_run d0 d' (insert p A)"
| malloc_null: "pool_run d0 d A \<Longrightarrow> do_memp_malloc_pool d = Inr (None, d') \<Longrightarrow> pool_run d0 d' A"
| release: "pool_run d0 d A \<Longrightarrow> p \<in> A \<Longrightarrow> do_memp_free_pool p d = Inr d' \<Longrightarrow> pool_run d0 d' (A - {p})"
| user: "pool_run d0 d A \<Longrightarrow> p \<in> A \<Longrightarrow> pool_run d0 (poke p v d) A"

lemma pool_run_inv:
  "pool_run d0 d A \<Longrightarrow> desc_ok d0 \<Longrightarrow> mp_used d0 = 0 \<Longrightarrow> pool_inv d A \<and> elems d = elems d0 \<and> mp_num d = mp_num d0"
proof (induction rule: pool_run.induct)
  case init
  then show ?case
    using memp_init_pool_inv elems_cong [of "memp_init_pool d0" d0] by (simp add: memp_init_pool_def Let_def)
next
  case (malloc d A p d')
  then have i: "pool_inv d A" by simp
  have "elems d' = elems d \<and> mp_num d' = mp_num d"
    using malloc.hyps(2) elems_cong [of d' d]
    by (auto simp: do_memp_malloc_pool_def Let_def split: option.splits if_splits)
  moreover from i have "pool_inv d' (insert p A)"
    by (cases rule: mp.alloc_cases) (use malloc.hyps(2) in auto)
  ultimately show ?case using malloc by simp
next
  case (malloc_null d A d')
  then have i: "pool_inv d A" by simp
  have "elems d' = elems d \<and> mp_num d' = mp_num d"
    using malloc_null.hyps(2) elems_cong [of d' d]
    by (auto simp: do_memp_malloc_pool_def Let_def split: option.splits if_splits)
  moreover from i have "pool_inv d' A"
    by (cases rule: mp.alloc_cases) (use malloc_null.hyps(2) in auto)
  ultimately show ?case using malloc_null by simp
next
  case (release d A p d')
  then have i: "pool_inv d A" by simp
  have "elems d' = elems d \<and> mp_num d' = mp_num d"
    using release.hyps(3) elems_cong [of d' d]
    by (auto simp: do_memp_free_pool_def Let_def split: if_splits)
  then show ?case using mp.release_used [OF i release.hyps(2)] release by auto
next
  case (user d A p v)
  then have i: "pool_inv d A" by simp
  have "elems (poke p v d) = elems d" using elems_cong [of "poke p v d" d] by (simp add: poke_def)
  then show ?case using mp.poke_used [OF i user.hyps(2)] user by simp
qed

text \<open>
  C17.  A pool is exclusive and loses nothing: in every run from its initialisation, whatever the users write
  into their elements, an allocation never faults; it returns an element of the pool that is not in
  use, and NULL exactly when all elements are in use.
\<close>

theorem memp_exclusive:
  assumes "pool_run d0 d A" and "desc_ok d0" and "mp_used d0 = 0"
  shows "(if card A = mp_num d0
     then \<exists>d'. do_memp_malloc_pool d = Inr (None, d')
     else \<exists>p d'. do_memp_malloc_pool d = Inr (Some p, d') \<and> p \<in> elems d0 \<and> p \<notin> A) \<and>
    A \<subseteq> elems d0 \<and> unat (mp_used d) = card A"
proof -
  have i: "pool_inv d A" "elems d = elems d0" "mp_num d = mp_num d0"
    using pool_run_inv [OF assms] by auto
  have A: "A \<subseteq> elems d0" "unat (mp_used d) = card A"
    using i pool_inv_card(2) [OF i(1)] by (simp_all add: pool_inv_def)
  show ?thesis
  proof (cases rule: mp.alloc_cases [OF i(1), case_names some full])
    case (some p d')
    have "pool_run d0 d' (insert p A)" by (rule pool_run.malloc [OF assms(1) some(1)])
    then have "pool_inv d' (insert p A)" "elems d' = elems d0" using pool_run_inv assms(2,3) by blast+
    then have "p \<in> elems d0" using pool_inv_card(2) by auto
    then show ?thesis using some A i(3) by auto
  next
    case (full d')
    then show ?thesis using A i(3) by auto
  qed
qed

definition demo_pool :: memp_pool where
  "demo_pool = \<lparr>mp_base = 0x20000001, mp_size = 16, mp_num = 2, mp_tab = None, mp_next = (\<lambda>_. None),
     mp_used = 0, mp_max = 0, mp_err = 0, mp_avail = 0\<rparr>"

theorem memp_exclusive_witness:
  "\<exists>p d'. do_memp_malloc_pool (memp_init_pool demo_pool) = Inr (Some p, d') \<and> p \<in> elems demo_pool"
  using memp_exclusive [OF pool_run.init, of demo_pool]
  by (auto simp: demo_pool_def desc_ok_def MEM_ALIGNMENT_def)

text \<open>
  The pool does not notice an element that is given back twice: the next two allocations both return it.
\<close>

lemma memp_double_free:
  assumes "p mod MEM_ALIGNMENT = 0" and "do_memp_free_pool p d = Inr d1" and "do_memp_free_pool p d1 = Inr d2"
  shows "\<exists>d3 d4. do_memp_malloc_pool d2 = Inr (Some p, d3) \<and> do_memp_malloc_pool d3 = Inr (Some p, d4)"
  using assms by (auto simp: do_memp_free_pool_def do_memp_malloc_pool_def Let_def)

end
