(* ===== verification/LwTimeouts.thy ===== *)
theory LwTimeouts
  imports LwMemp
begin

text \<open>
  \<^verbatim>\<open>timeouts.c\<close>: the list of pending timeouts, ordered by a 32-bit millisecond clock that wraps around.
  A \<^verbatim>\<open>struct sys_timeo\<close> is an element of its pool: its \<^verbatim>\<open>next\<close> is the first word of the element, kept by
  the pool, its other fields are the \<open>timeo\<close> of its address.  A loop along the list is a
  \<open>partial_function\<close>: \<open>None\<close> is a loop that does not end.  The clock, the protocol handlers and the user's
  handlers are parameters.
\<close>

section \<open>State\<close>

text \<open>The handlers: \<^verbatim>\<open>lwip_cyclic_timer\<close>, \<^verbatim>\<open>tcpip_tcp_timer\<close> and those of other modules.\<close>

datatype handler = Cyclic | TcpTimer | User nat

record timeo =
  to_time :: u32
  to_h :: "handler option"
  to_arg :: nat

text \<open>\<open>ts_now\<close> is what \<^verbatim>\<open>sys_now\<close> returns, \<open>ts_world\<close> the state of all other modules.\<close>

record 'w tmo =
  next_timeout :: "nat option"
  ts_pool :: memp_pool
  ts_cells :: "nat \<Rightarrow> timeo"
  current_timeout_due_time :: u32
  tcpip_tcp_timer_active :: bool
  ts_now :: u32
  ts_world :: 'w

type_synonym 'w step = "(fault + 'w tmo) option"

record 'w env =
  e_cyclic :: "nat \<Rightarrow> 'w tmo \<Rightarrow> 'w step"
  e_user :: "nat \<Rightarrow> nat \<Rightarrow> 'w tmo \<Rightarrow> 'w step"
  e_pcbs :: "'w \<Rightarrow> bool"
  e_ooseq :: "'w \<Rightarrow> 'w"

definition stepb :: "'w step \<Rightarrow> ('w tmo \<Rightarrow> 'w step) \<Rightarrow> 'w step" where
  "stepb r f = (case r of None \<Rightarrow> None | Some (Inl e) \<Rightarrow> Some (Inl e) | Some (Inr s) \<Rightarrow> f s)"

lemma stepb_simps [simp]:
  "stepb (Some (Inr s)) f = f s" "stepb (Some (Inl e)) f = Some (Inl e)" "stepb None f = None"
  by (simp_all add: stepb_def)

definition LWIP_MAX_TIMEOUT :: u32 where "LWIP_MAX_TIMEOUT = 0x7FFFFFFF"

definition TIME_LESS_THAN :: "u32 \<Rightarrow> u32 \<Rightarrow> bool" where
  "TIME_LESS_THAN t compare_to \<longleftrightarrow> LWIP_MAX_TIMEOUT < t - compare_to"

text \<open>The intervals of \<^verbatim>\<open>lwip_cyclic_timers\<close>: TCP, reassembly, ARP and IGMP.\<close>

definition cyclic_intervals :: "u32 list" where
  "cyclic_intervals = [250, 1000, 1000, 100]"

text \<open>\<^verbatim>\<open>p->next = v\<close>.\<close>

definition set_next :: "nat \<Rightarrow> nat option \<Rightarrow> 'w tmo \<Rightarrow> 'w tmo" where
  "set_next p v s = s\<lparr>ts_pool := poke p v (ts_pool s)\<rparr>"

abbreviation nxt :: "'w tmo \<Rightarrow> nat \<Rightarrow> nat option" where
  "nxt s \<equiv> mp_next (ts_pool s)"

section \<open>Insertion\<close>

partial_function (option) insert_after :: "nat \<Rightarrow> nat option \<Rightarrow> 'w tmo \<Rightarrow> 'w step" where
  "insert_after timeout t s =
     (case t of
        None \<Rightarrow> Some (Inr s)
      | Some t \<Rightarrow>
          (if (case nxt s t of None \<Rightarrow> True
               | Some n \<Rightarrow> TIME_LESS_THAN (to_time (ts_cells s timeout)) (to_time (ts_cells s n)))
           then (let s' = set_next timeout (nxt s t) s in Some (Inr (set_next t (Some timeout) s')))
           else insert_after timeout (nxt s t) s))"

definition sys_timeout_abs :: "u32 \<Rightarrow> handler option \<Rightarrow> nat \<Rightarrow> 'w tmo \<Rightarrow> 'w step" where
  "sys_timeout_abs abs_time handler arg s =
     (case do_memp_malloc_pool (ts_pool s) of
        Inl e \<Rightarrow> Some (Inl e)
      | Inr (None, d) \<Rightarrow> Some (Inl AssertFailed)
      | Inr (Some timeout, d) \<Rightarrow>
          (let s = s\<lparr>ts_pool := d\<rparr>;
               s = set_next timeout None s;
               s = s\<lparr>ts_cells := (ts_cells s)(timeout := \<lparr>to_time = abs_time, to_h = handler, to_arg = arg\<rparr>)\<rparr>
           in case next_timeout s of
                None \<Rightarrow> Some (Inr (s\<lparr>next_timeout := Some timeout\<rparr>))
              | Some first \<Rightarrow>
                  if TIME_LESS_THAN (to_time (ts_cells s timeout)) (to_time (ts_cells s first))
                  then (let s = set_next timeout (Some first) s in Some (Inr (s\<lparr>next_timeout := Some timeout\<rparr>)))
                  else insert_after timeout (Some first) s))"

definition sys_timeout :: "u32 \<Rightarrow> handler option \<Rightarrow> nat \<Rightarrow> 'w tmo \<Rightarrow> 'w step" where
  "sys_timeout msecs handler arg s =
     (if \<not> msecs \<le> 0xFFFFFFFF div 4 then Some (Inl AssertFailed)
      else sys_timeout_abs (ts_now s + msecs) handler arg s)"

section \<open>Removal\<close>

partial_function (option) untimeout_loop ::
    "handler option \<Rightarrow> nat \<Rightarrow> nat option \<Rightarrow> nat option \<Rightarrow> 'w tmo \<Rightarrow> 'w step" where
  "untimeout_loop handler arg prev_t t s =
     (case t of
        None \<Rightarrow> Some (Inr s)
      | Some t \<Rightarrow>
          (if to_h (ts_cells s t) = handler \<and> to_arg (ts_cells s t) = arg
           then (let s = (case prev_t of None \<Rightarrow> s\<lparr>next_timeout := nxt s t\<rparr>
                          | Some prev \<Rightarrow> set_next prev (nxt s t) s)
                 in case do_memp_free_pool t (ts_pool s) of
                      Inl e \<Rightarrow> Some (Inl e)
                    | Inr d \<Rightarrow> Some (Inr (s\<lparr>ts_pool := d\<rparr>)))
           else untimeout_loop handler arg (Some t) (nxt s t) s))"

definition sys_untimeout :: "handler option \<Rightarrow> nat \<Rightarrow> 'w tmo \<Rightarrow> 'w step" where
  "sys_untimeout handler arg s =
     (if next_timeout s = None then Some (Inr s)
      else untimeout_loop handler arg None (next_timeout s) s)"

section \<open>Handlers and expiry\<close>

definition lwip_cyclic_timer :: "'w env \<Rightarrow> nat \<Rightarrow> 'w tmo \<Rightarrow> 'w step" where
  "lwip_cyclic_timer env arg s =
     (if \<not> arg < length cyclic_intervals then Some (Inl OutOfBounds)
      else stepb (e_cyclic env arg s) (\<lambda>s.
        let now = ts_now s;
            next_timeout_time = current_timeout_due_time s + cyclic_intervals ! arg
        in if TIME_LESS_THAN next_timeout_time now
           then sys_timeout_abs (now + cyclic_intervals ! arg) (Some Cyclic) arg s
           else sys_timeout_abs next_timeout_time (Some Cyclic) arg s))"

text \<open>\<^verbatim>\<open>tcp_tmr\<close> is the cyclic handler number 0; \<open>TCP_TMR_INTERVAL\<close> is its interval.\<close>

definition tcpip_tcp_timer :: "'w env \<Rightarrow> nat \<Rightarrow> 'w tmo \<Rightarrow> 'w step" where
  "tcpip_tcp_timer env arg s =
     stepb (e_cyclic env 0 s) (\<lambda>s.
       if e_pcbs env (ts_world s) then sys_timeout 250 (Some TcpTimer) 0 s
       else Some (Inr (s\<lparr>tcpip_tcp_timer_active := False\<rparr>)))"

definition tcp_timer_needed :: "'w env \<Rightarrow> 'w tmo \<Rightarrow> 'w step" where
  "tcp_timer_needed env s =
     (if \<not> tcpip_tcp_timer_active s \<and> e_pcbs env (ts_world s)
      then sys_timeout 250 (Some TcpTimer) 0 (s\<lparr>tcpip_tcp_timer_active := True\<rparr>)
      else Some (Inr s))"

fun timeouts_init_loop :: "nat list \<Rightarrow> 'w tmo \<Rightarrow> 'w step" where
  "timeouts_init_loop [] s = Some (Inr s)"
| "timeouts_init_loop (i # is) s =
     stepb (sys_timeout (cyclic_intervals ! i) (Some Cyclic) i s) (timeouts_init_loop is)"

definition sys_timeouts_init :: "'w tmo \<Rightarrow> 'w step" where
  "sys_timeouts_init s = timeouts_init_loop [1..<length cyclic_intervals] s"

definition call_handler :: "'w env \<Rightarrow> handler \<Rightarrow> nat \<Rightarrow> 'w tmo \<Rightarrow> 'w step" where
  "call_handler env h arg s =
     (case h of Cyclic \<Rightarrow> lwip_cyclic_timer env arg s | TcpTimer \<Rightarrow> tcpip_tcp_timer env arg s
      | User n \<Rightarrow> e_user env n arg s)"

partial_function (option) check_loop :: "'w env \<Rightarrow> u32 \<Rightarrow> 'w tmo \<Rightarrow> 'w step" where
  "check_loop env now s =
     (let s = s\<lparr>ts_world := e_ooseq env (ts_world s)\<rparr>
      in case next_timeout s of
           None \<Rightarrow> Some (Inr s)
         | Some tmptimeout \<Rightarrow>
             if TIME_LESS_THAN now (to_time (ts_cells s tmptimeout)) then Some (Inr s)
             else
               (let handler = to_h (ts_cells s tmptimeout);
                    arg = to_arg (ts_cells s tmptimeout);
                    s = s\<lparr>next_timeout := nxt s tmptimeout,
                           current_timeout_due_time := to_time (ts_cells s tmptimeout)\<rparr>
                in case do_memp_free_pool tmptimeout (ts_pool s) of
                     Inl e \<Rightarrow> Some (Inl e)
                   | Inr d \<Rightarrow>
                       (case (case handler of None \<Rightarrow> Some (Inr (s\<lparr>ts_pool := d\<rparr>))
                              | Some h \<Rightarrow> call_handler env h arg (s\<lparr>ts_pool := d\<rparr>)) of
                          None \<Rightarrow> None
                        | Some r \<Rightarrow> (case r of Inl e \<Rightarrow> Some (Inl e) | Inr s \<Rightarrow> check_loop env now s))))"

definition sys_check_timeouts :: "'w env \<Rightarrow> 'w tmo \<Rightarrow> 'w step" where
  "sys_check_timeouts env s = check_loop env (ts_now s) s"

section \<open>Rebasing and sleeping\<close>

partial_function (option) restart_loop :: "u32 \<Rightarrow> u32 \<Rightarrow> nat option \<Rightarrow> 'w tmo \<Rightarrow> 'w tmo option" where
  "restart_loop now base t s =
     (case t of
        None \<Rightarrow> Some s
      | Some t \<Rightarrow>
          (let s = s\<lparr>ts_cells := (ts_cells s)(t := (ts_cells s t)\<lparr>to_time := (to_time (ts_cells s t) - base) + now\<rparr>)\<rparr>
           in restart_loop now base (nxt s t) s))"

definition sys_restart_timeouts :: "'w tmo \<Rightarrow> 'w tmo option" where
  "sys_restart_timeouts s =
     (case next_timeout s of
        None \<Rightarrow> Some s
      | Some first \<Rightarrow> restart_loop (ts_now s) (to_time (ts_cells s first)) (Some first) s)"

definition sys_timeouts_sleeptime :: "'w tmo \<Rightarrow> fault + u32" where
  "sys_timeouts_sleeptime s =
     (case next_timeout s of
        None \<Rightarrow> Inr 0xFFFFFFFF
      | Some first \<Rightarrow>
          (let now = ts_now s
           in if TIME_LESS_THAN (to_time (ts_cells s first)) now then Inr 0
              else (let ret = to_time (ts_cells s first) - now
                    in if \<not> ret \<le> LWIP_MAX_TIMEOUT then Inl AssertFailed else Inr ret)))"

section \<open>The abstract list of timeouts\<close>

text \<open>\<open>tmo s xs\<close>: the list in memory holds the timeouts \<open>xs\<close>, and exactly its elements are in use in the pool.\<close>

definition tmo_list :: "'w tmo \<Rightarrow> nat list \<Rightarrow> bool" where
  "tmo_list s ps \<longleftrightarrow> linked (nxt s) (next_timeout s) ps \<and> distinct ps \<and> pool_inv (ts_pool s) (set ps)"

definition holds :: "'w tmo \<Rightarrow> timeo list \<Rightarrow> bool" where
  "holds s xs \<longleftrightarrow> (\<exists>ps. tmo_list s ps \<and> xs = map (ts_cells s) ps)"

text \<open>Insertion behind everything that is not later.\<close>

fun ins :: "timeo \<Rightarrow> timeo list \<Rightarrow> timeo list" where
  "ins x [] = [x]"
| "ins x (y # ys) = (if TIME_LESS_THAN (to_time x) (to_time y) then x # y # ys else y # ins x ys)"

fun rem_first :: "handler option \<Rightarrow> nat \<Rightarrow> timeo list \<Rightarrow> timeo list" where
  "rem_first h a [] = []"
| "rem_first h a (x # xs) = (if to_h x = h \<and> to_arg x = a then xs else x # rem_first h a xs)"

lemma poke_fields [simp]: "mp_next (poke p v d) = (mp_next d)(p := v)" "mp_num (poke p v d) = mp_num d"
  by (simp_all add: poke_def)

lemma set_next_fields [simp]:
  "next_timeout (set_next p v s) = next_timeout s" "ts_cells (set_next p v s) = ts_cells s"
  "ts_pool (set_next p v s) = poke p v (ts_pool s)" "ts_now (set_next p v s) = ts_now s"
  "ts_world (set_next p v s) = ts_world s"
  "current_timeout_due_time (set_next p v s) = current_timeout_due_time s"
  "tcpip_tcp_timer_active (set_next p v s) = tcpip_tcp_timer_active s"
  by (simp_all add: set_next_def)

text \<open>The fields of the state that no operation on the list changes.\<close>

definition same_rest :: "'w tmo \<Rightarrow> 'w tmo \<Rightarrow> bool" where
  "same_rest s s' \<longleftrightarrow> current_timeout_due_time s' = current_timeout_due_time s \<and>
     tcpip_tcp_timer_active s' = tcpip_tcp_timer_active s \<and> ts_now s' = ts_now s \<and>
     ts_world s' = ts_world s \<and> mp_num (ts_pool s') = mp_num (ts_pool s)"

lemma insert_after_list:
  assumes "linked (nxt s) (Some t) (t # ps)" "distinct (t # ps)" "x \<notin> set (t # ps)"
    "pool_inv (ts_pool s) A" "set (t # ps) \<subseteq> A" "x \<in> A"
  shows "\<exists>s' qs. insert_after x (Some t) s = Some (Inr s') \<and> linked (nxt s') (Some t) (t # qs) \<and>
    distinct (t # qs) \<and> set qs = insert x (set ps) \<and> pool_inv (ts_pool s') A \<and>
    (\<forall>q. q \<notin> insert x (set (t # ps)) \<longrightarrow> nxt s' q = nxt s q) \<and>
    map (ts_cells s) qs = ins (ts_cells s x) (map (ts_cells s) ps) \<and>
    next_timeout s' = next_timeout s \<and> ts_cells s' = ts_cells s \<and> same_rest s s'"
  using assms
proof (induction ps arbitrary: t)
  case Nil
  let ?s = "set_next t (Some x) (set_next x (nxt s t) s)"
  have n: "nxt s t = None" using Nil.prems(1) by simp
  have run: "insert_after x (Some t) s = Some (Inr ?s)"
    by (subst insert_after.simps) (simp add: n)
  have "pool_inv (ts_pool ?s) A"
    using mp.poke_used [of "ts_pool s" A x "nxt s t"] mp.poke_used [of "poke x (nxt s t) (ts_pool s)" A t "Some x"]
      Nil.prems by simp
  then show ?case
    using run Nil.prems n by (intro exI [of _ ?s] exI [of _ "[x]"]) (auto simp: same_rest_def)
next
  case (Cons u ps)
  have n: "nxt s t = Some u" using Cons.prems(1) by simp
  show ?case
  proof (cases "TIME_LESS_THAN (to_time (ts_cells s x)) (to_time (ts_cells s u))")
    case True
    let ?s = "set_next t (Some x) (set_next x (nxt s t) s)"
    have run: "insert_after x (Some t) s = Some (Inr ?s)"
      using True by (subst insert_after.simps) (simp add: n)
    have i: "pool_inv (ts_pool ?s) A"
      using mp.poke_used [of "ts_pool s" A x "nxt s t"] mp.poke_used [of "poke x (nxt s t) (ts_pool s)" A t "Some x"]
        Cons.prems by simp
    have "linked (nxt ?s) (Some u) (u # ps) = linked (nxt s) (Some u) (u # ps)"
      using Cons.prems(2,3) linked_upd_other [of x "u # ps" "nxt s"]
        linked_upd_other [of t "u # ps" "(nxt s)(x := nxt s t)"] by auto
    then have l: "linked (nxt ?s) (Some t) (t # x # u # ps)"
      using Cons.prems n by (auto simp del: linked.simps(2) simp add: linked.simps(2) [of _ _ t] linked.simps(2) [of _ _ x])
    show ?thesis
      using run i l Cons.prems(2-6) True
      by (intro exI [of _ ?s] exI [of _ "x # u # ps"]) (auto simp: same_rest_def simp del: linked.simps simp flip: fun_upd_def)
  next
    case False
    have run: "insert_after x (Some t) s = insert_after x (Some u) s"
      using False by (subst insert_after.simps) (simp add: n)
    obtain s' qs where ih: "insert_after x (Some u) s = Some (Inr s')" "linked (nxt s') (Some u) (u # qs)"
      "distinct (u # qs)" "set qs = insert x (set ps)" "pool_inv (ts_pool s') A"
      "\<forall>q. q \<notin> insert x (set (u # ps)) \<longrightarrow> nxt s' q = nxt s q"
      "map (ts_cells s) qs = ins (ts_cells s x) (map (ts_cells s) ps)"
      "next_timeout s' = next_timeout s" "ts_cells s' = ts_cells s" "same_rest s s'"
      using Cons.IH [of u] Cons.prems n by auto
    have "nxt s' t = Some u" using ih(6) Cons.prems(2,3) n by auto
    then have "linked (nxt s') (Some t) (t # u # qs)" using ih(2) by simp
    then show ?thesis
      using run ih Cons.prems False by (intro exI [of _ s'] exI [of _ "u # qs"]) auto
  qed
qed

text \<open>Allocating an element and filling it in.\<close>

lemma new_timeout:
  assumes "tmo_list s ps" "length ps < mp_num (ts_pool s)"
  obtains x d where "do_memp_malloc_pool (ts_pool s) = Inr (Some x, d)" "x \<notin> set ps"
    "pool_inv d (set (x # ps))" "mp_next d = nxt s" "mp_num d = mp_num (ts_pool s)"
proof -
  have i: "pool_inv (ts_pool s) (set ps)" and c: "card (set ps) = length ps"
    using assms(1) by (simp_all add: tmo_list_def distinct_card)
  obtain x d where "do_memp_malloc_pool (ts_pool s) = Inr (Some x, d)" "x \<notin> set ps"
    "pool_inv d (insert x (set ps))" "mp_num d = mp_num (ts_pool s)" "mp_next d = nxt s"
    using malloc_pool_some [OF i] assms(2) c by auto
  then show ?thesis using that by simp
qed

lemma timeout_abs_list:
  assumes t: "tmo_list s ps" and room: "length ps < mp_num (ts_pool s)"
  shows "\<exists>s' qs. sys_timeout_abs time h a s = Some (Inr s') \<and> tmo_list s' qs \<and>
    map (ts_cells s') qs = ins \<lparr>to_time = time, to_h = h, to_arg = a\<rparr> (map (ts_cells s) ps) \<and> same_rest s s'"
proof -
  obtain x d where new: "do_memp_malloc_pool (ts_pool s) = Inr (Some x, d)" "x \<notin> set ps"
    "pool_inv d (set (x # ps))" "mp_next d = nxt s" "mp_num d = mp_num (ts_pool s)"
    by (rule new_timeout [OF t room])
  let ?e = "\<lparr>to_time = time, to_h = h, to_arg = a\<rparr>"
  define s1 where "s1 = s\<lparr>ts_pool := poke x None d, ts_cells := (ts_cells s)(x := ?e)\<rparr>"
  have s1: "next_timeout s1 = next_timeout s" "nxt s1 = (nxt s)(x := None)" "ts_cells s1 = (ts_cells s)(x := ?e)"
    "pool_inv (ts_pool s1) (insert x (set ps))" "same_rest s s1"
    using mp.poke_used [OF new(3), of x None] new(4,5) by (simp_all add: s1_def same_rest_def)
  have run: "sys_timeout_abs time h a s =
      (case next_timeout s of
         None \<Rightarrow> Some (Inr (s1\<lparr>next_timeout := Some x\<rparr>))
       | Some first \<Rightarrow>
           if TIME_LESS_THAN (to_time (ts_cells s1 x)) (to_time (ts_cells s1 first))
           then Some (Inr (set_next x (Some first) s1\<lparr>next_timeout := Some x\<rparr>))
           else insert_after x (Some first) s1)"
    by (simp add: sys_timeout_abs_def new(1) s1_def set_next_def Let_def split: option.split)
  have old: "map (ts_cells s1) ps = map (ts_cells s) ps" using new(2) by (auto simp: s1(3))
  have l1: "linked (nxt s1) (next_timeout s) ps"
    using t linked_upd_other [OF new(2), of "nxt s"] by (simp add: tmo_list_def s1)
  have dist: "distinct ps" using t by (simp add: tmo_list_def)
  show ?thesis
  proof (cases ps)
    case Nil
    then have "next_timeout s = None" using l1 by simp
    then show ?thesis
      using run s1 Nil new(2)
      by (intro exI [of _ "s1\<lparr>next_timeout := Some x\<rparr>"] exI [of _ "[x]"]) (auto simp: tmo_list_def same_rest_def)
  next
    case (Cons p qs)
    then have first: "next_timeout s = Some p" using l1 by simp
    have cells: "ts_cells s1 x = ?e" "ts_cells s1 p = ts_cells s p" using new(2) Cons by (auto simp: s1(3))
    show ?thesis
    proof (cases "TIME_LESS_THAN time (to_time (ts_cells s p))")
      case True
      let ?s = "set_next x (Some p) s1\<lparr>next_timeout := Some x\<rparr>"
      have "sys_timeout_abs time h a s = Some (Inr ?s)" using run True first cells by simp
      moreover have "linked (nxt ?s) (next_timeout ?s) (x # ps)"
        using l1 linked_upd_other [OF new(2), of "nxt s1" "Some p" "Some p"] first by (simp add: fun_upd_def [symmetric])
      moreover have "pool_inv (ts_pool ?s) (set (x # ps))"
        using mp.poke_used [OF s1(4), of x "Some p"] by simp
      moreover have "map (ts_cells ?s) (x # ps) = ins ?e (map (ts_cells s) ps)"
        using True old cells Cons by simp
      ultimately show ?thesis
        using new(2) dist s1(5)
        by (intro exI [of _ ?s] exI [of _ "x # ps"]) (auto simp: tmo_list_def same_rest_def simp del: linked.simps)
    next
      case False
      have "x \<notin> set (p # qs)" "distinct (p # qs)" using new(2) dist Cons by auto
      then obtain s' rs where r: "insert_after x (Some p) s1 = Some (Inr s')" "linked (nxt s') (Some p) (p # rs)"
        "distinct (p # rs)" "set rs = insert x (set qs)" "pool_inv (ts_pool s') (insert x (set ps))"
        "map (ts_cells s1) rs = ins (ts_cells s1 x) (map (ts_cells s1) qs)"
        "next_timeout s' = next_timeout s1" "ts_cells s' = ts_cells s1" "same_rest s1 s'"
        using insert_after_list [of s1 p qs x "insert x (set ps)"] l1 s1(4) first Cons by auto
      have "sys_timeout_abs time h a s = Some (Inr s')" using run False first cells r(1) by simp
      moreover have "tmo_list s' (p # rs)"
        using r first s1(1) Cons by (simp add: tmo_list_def insert_commute)
      moreover have "map (ts_cells s') (p # rs) = ins ?e (map (ts_cells s) ps)"
        using r(6,8) False cells old Cons by (simp del: map_eq_conv)
      moreover have "same_rest s s'" using s1(5) r(9) by (simp add: same_rest_def)
      ultimately show ?thesis by blast
    qed
  qed
qed

lemma timeout_abs_full:
  assumes "tmo_list s ps" "length ps = mp_num (ts_pool s)"
  shows "sys_timeout_abs time h a s = Some (Inl AssertFailed)"
  using malloc_pool_full(1) [of "ts_pool s" "set ps"] assms
  by (simp add: tmo_list_def distinct_card sys_timeout_abs_def)

lemma tmo_list_length: "tmo_list s ps \<Longrightarrow> length ps \<le> mp_num (ts_pool s)"
  using pool_inv_card(3) [of "ts_pool s" "set ps"] by (simp add: tmo_list_def distinct_card)

text \<open>Unlinking an element and giving it back to the pool.\<close>

lemma free_timeout:
  assumes "pool_inv (ts_pool s) (set (ps @ p # qs))" "distinct (ps @ p # qs)"
  obtains d where "do_memp_free_pool p (ts_pool s) = Inr d" "pool_inv d (set (ps @ qs))"
    "mp_next d = (nxt s)(p := mp_tab (ts_pool s))" "mp_num d = mp_num (ts_pool s)"
proof -
  have "set (ps @ p # qs) - {p} = set (ps @ qs)" using assms(2) by auto
  then show ?thesis using free_pool_used [OF assms(1), of p] that by auto
qed

lemma linked_mid: "linked nx p (ps @ q # qs) \<Longrightarrow> linked nx (nx q) qs"
  by (induction ps arbitrary: p) auto

lemma linked_unlink:
  "linked nx p (ps @ q # qs) \<Longrightarrow> distinct (ps @ q # qs) \<Longrightarrow> ps \<noteq> [] \<Longrightarrow>
   linked (nx(last ps := nx q)) p (ps @ qs)"
proof (induction ps arbitrary: p)
  case (Cons u ps)
  show ?case
  proof (cases "ps = []")
    case True
    then have "u \<notin> set qs" using Cons.prems(2) by simp
    then show ?thesis using Cons.prems True linked_upd_other [of u qs nx] by (simp add: fun_upd_def)
  next
    case False
    then have "last ps \<noteq> u" using Cons.prems(2) by auto
    then show ?thesis using Cons False by simp
  qed
qed simp

lemma untimeout_loop_list:
  assumes "tmo_list s (ps @ qs)" "linked (nxt s) t qs"
    "prev = (if ps = [] then None else Some (last ps))"
  shows "\<exists>s' rs. untimeout_loop h a prev t s = Some (Inr s') \<and> tmo_list s' rs \<and>
    map (ts_cells s') rs = map (ts_cells s) ps @ rem_first h a (map (ts_cells s) qs) \<and> same_rest s s'"
  using assms
proof (induction qs arbitrary: ps prev t)
  case Nil
  then show ?case
    by (subst untimeout_loop.simps) (auto simp: same_rest_def intro!: exI [of _ s] exI [of _ ps])
next
  case (Cons q qs)
  have t: "t = Some q" using Cons.prems(2) by simp
  show ?case
  proof (cases "to_h (ts_cells s q) = h \<and> to_arg (ts_cells s q) = a")
    case False
    have run: "untimeout_loop h a prev t s = untimeout_loop h a (Some q) (nxt s q) s"
      using False by (subst untimeout_loop.simps) (auto simp: t)
    show ?thesis
      unfolding run using Cons.IH [of "ps @ [q]" "nxt s q" "Some q"] Cons.prems False by auto
  next
    case True
    define s1 where "s1 = (case prev of None \<Rightarrow> s\<lparr>next_timeout := nxt s q\<rparr> | Some pr \<Rightarrow> set_next pr (nxt s q) s)"
    have tl: "linked (nxt s) (next_timeout s) (ps @ q # qs)" "distinct (ps @ q # qs)"
      "pool_inv (ts_pool s) (set (ps @ q # qs))" using Cons.prems(1) by (simp_all add: tmo_list_def)
    have s1: "ts_cells s1 = ts_cells s" "same_rest s s1" by (simp_all add: s1_def same_rest_def split: option.split)
    have l1: "linked (nxt s1) (next_timeout s1) (ps @ qs)"
      using tl linked_unlink [OF tl(1,2)] Cons.prems(2,3) by (auto simp: s1_def)
    have p1: "pool_inv (ts_pool s1) (set (ps @ q # qs))"
      using mp.poke_used [OF tl(3), of "last ps" "nxt s q"] tl(3) Cons.prems(3) by (auto simp: s1_def)
    obtain d where d: "do_memp_free_pool q (ts_pool s1) = Inr d" "pool_inv d (set (ps @ qs))"
      "mp_next d = (nxt s1)(q := mp_tab (ts_pool s1))" "mp_num d = mp_num (ts_pool s1)"
      by (rule free_timeout [OF p1 tl(2)])
    have run: "untimeout_loop h a prev t s = Some (Inr (s1\<lparr>ts_pool := d\<rparr>))"
      using True d(1) by (subst untimeout_loop.simps) (simp add: t s1_def Let_def)
    have "q \<notin> set (ps @ qs)" using tl(2) by auto
    then have "tmo_list (s1\<lparr>ts_pool := d\<rparr>) (ps @ qs)"
      using l1 d tl(2) linked_upd_other [of q "ps @ qs" "nxt s1"] by (simp add: tmo_list_def)
    then show ?thesis
      using run s1 d(4) True
      by (intro exI [of _ "s1\<lparr>ts_pool := d\<rparr>"] exI [of _ "ps @ qs"]) (auto simp: same_rest_def)
  qed
qed

lemma untimeout_list:
  assumes "tmo_list s ps"
  shows "\<exists>s' rs. sys_untimeout h a s = Some (Inr s') \<and> tmo_list s' rs \<and>
    map (ts_cells s') rs = rem_first h a (map (ts_cells s) ps) \<and> same_rest s s'"
proof (cases "next_timeout s = None")
  case True
  then have "ps = []" using assms by (cases ps) (auto simp: tmo_list_def)
  then show ?thesis using True assms
    by (intro exI [of _ s] exI [of _ ps]) (auto simp: sys_untimeout_def same_rest_def)
next
  case False
  then show ?thesis
    using untimeout_loop_list [of s "[]" ps "next_timeout s" None h a] assms
    by (auto simp: sys_untimeout_def tmo_list_def)
qed

text \<open>The same for the abstract list.\<close>

lemma timeout_abs_holds:
  assumes "holds s xs" "length xs < mp_num (ts_pool s)"
  shows "\<exists>s'. sys_timeout_abs time h a s = Some (Inr s') \<and>
    holds s' (ins \<lparr>to_time = time, to_h = h, to_arg = a\<rparr> xs) \<and> same_rest s s'"
proof -
  obtain ps where p: "tmo_list s ps" "xs = map (ts_cells s) ps" using assms(1) by (auto simp: holds_def)
  have l: "length ps < mp_num (ts_pool s)" using assms(2) p(2) by simp
  obtain s' qs where "sys_timeout_abs time h a s = Some (Inr s')" "tmo_list s' qs"
    "map (ts_cells s') qs = ins \<lparr>to_time = time, to_h = h, to_arg = a\<rparr> (map (ts_cells s) ps)" "same_rest s s'"
    using timeout_abs_list [OF p(1) l, of time h a] by blast
  then show ?thesis unfolding holds_def p(2) by (metis (no_types))
qed

lemma timeout_abs_holds_full:
  assumes "holds s xs" "length xs = mp_num (ts_pool s)"
  shows "sys_timeout_abs time h a s = Some (Inl AssertFailed)"
  using assms timeout_abs_full by (auto simp: holds_def)

lemma holds_length: "holds s xs \<Longrightarrow> length xs \<le> mp_num (ts_pool s)"
  using tmo_list_length by (auto simp: holds_def)

lemma untimeout_holds:
  assumes "holds s xs"
  shows "\<exists>s'. sys_untimeout h a s = Some (Inr s') \<and> holds s' (rem_first h a xs) \<and> same_rest s s'"
proof -
  obtain ps where p: "tmo_list s ps" "xs = map (ts_cells s) ps" using assms by (auto simp: holds_def)
  obtain s' rs where "sys_untimeout h a s = Some (Inr s')" "tmo_list s' rs"
    "map (ts_cells s') rs = rem_first h a (map (ts_cells s) ps)" "same_rest s s'"
    using untimeout_list [OF p(1), of h a] by blast
  then show ?thesis unfolding holds_def p(2) by (metis (no_types))
qed

lemma holds_Nil: "holds s [] \<Longrightarrow> next_timeout s = None"
  by (auto simp: holds_def tmo_list_def)

text \<open>The head of the list, taken off as \<^verbatim>\<open>sys_check_timeouts\<close> does it.\<close>

lemma holds_Cons:
  assumes "holds s (x # xs)"
  obtains p d where "next_timeout s = Some p" "ts_cells s p = x" "do_memp_free_pool p (ts_pool s) = Inr d"
    "mp_num d = mp_num (ts_pool s)"
    "\<And>w tm. holds (s\<lparr>next_timeout := nxt s p, current_timeout_due_time := tm, ts_pool := d, ts_world := w\<rparr>) xs"
proof -
  obtain p ps where p: "tmo_list s (p # ps)" "x = ts_cells s p" "xs = map (ts_cells s) ps"
    using assms by (auto simp: holds_def)
  then have l: "next_timeout s = Some p" "linked (nxt s) (nxt s p) ps" "distinct ([] @ p # ps)"
    "pool_inv (ts_pool s) (set ([] @ p # ps))" by (auto simp: tmo_list_def)
  obtain d where d: "do_memp_free_pool p (ts_pool s) = Inr d" "pool_inv d (set ([] @ ps))"
    "mp_next d = (nxt s)(p := mp_tab (ts_pool s))" "mp_num d = mp_num (ts_pool s)"
    by (rule free_timeout [OF l(4,3)])
  have np: "p \<notin> set ps" using l(3) by simp
  have "tmo_list (s\<lparr>next_timeout := nxt s p, current_timeout_due_time := tm, ts_pool := d, ts_world := w\<rparr>) ps" for tm w
    using l d linked_upd_other [OF np, of "nxt s"] by (simp add: tmo_list_def)
  then have "holds (s\<lparr>next_timeout := nxt s p, current_timeout_due_time := tm, ts_pool := d, ts_world := w\<rparr>) xs" for tm w
    unfolding holds_def p(3) by (intro exI [of _ ps]) simp
  then show ?thesis using that l(1) d(1,4) p(2) by blast
qed

section \<open>The loops over the list\<close>

definition due :: "u32 \<Rightarrow> timeo \<Rightarrow> bool" where
  "due now x \<longleftrightarrow> \<not> TIME_LESS_THAN now (to_time x)"

text \<open>
  User handlers that change the other modules and let time pass but do not touch the timeouts; what a
  call of one does to the world.
\<close>

definition plain_handlers :: "'w env \<Rightarrow> (nat \<Rightarrow> nat \<Rightarrow> 'w \<Rightarrow> 'w) \<Rightarrow> (nat \<Rightarrow> u32) \<Rightarrow> bool" where
  "plain_handlers env g delay \<longleftrightarrow>
     (\<forall>n a s. e_user env n a s =
        Some (Inr (s\<lparr>ts_world := g n a (ts_world s), ts_now := ts_now s + delay n\<rparr>))) \<and>
     (\<forall>w. e_ooseq env w = w)"

definition effect :: "(nat \<Rightarrow> nat \<Rightarrow> 'w \<Rightarrow> 'w) \<Rightarrow> timeo \<Rightarrow> 'w \<Rightarrow> 'w" where
  "effect g x w = (case to_h x of Some (User n) \<Rightarrow> g n (to_arg x) w | _ \<Rightarrow> w)"

definition user_only :: "timeo list \<Rightarrow> bool" where
  "user_only xs \<longleftrightarrow> (\<forall>x\<in>set xs. to_h x \<noteq> Some Cyclic \<and> to_h x \<noteq> Some TcpTimer)"

lemma holds_now: "holds (s\<lparr>ts_now := n\<rparr>) xs = holds s xs"
  by (simp add: holds_def tmo_list_def)

lemma check_loop_due:
  assumes "plain_handlers env g delay"
  shows "holds s xs \<Longrightarrow> user_only xs \<Longrightarrow>
    \<exists>s'. check_loop env now s = Some (Inr s') \<and> holds s' (dropWhile (due now) xs) \<and>
      ts_world s' = fold (effect g) (takeWhile (due now) xs) (ts_world s)"
proof (induction xs arbitrary: s)
  case Nil
  then show ?case
    using assms holds_Nil [OF Nil.prems(1)]
    by (subst check_loop.simps) (simp add: plain_handlers_def Let_def)
next
  case (Cons x xs)
  have oo: "e_ooseq env w = w" for w using assms by (simp add: plain_handlers_def)
  obtain p d where p: "next_timeout s = Some p" "ts_cells s p = x" "do_memp_free_pool p (ts_pool s) = Inr d"
    "\<And>w tm. holds (s\<lparr>next_timeout := nxt s p, current_timeout_due_time := tm, ts_pool := d, ts_world := w\<rparr>) xs"
    by (rule holds_Cons [OF Cons.prems(1)]) blast
  show ?case
  proof (cases "due now x")
    case False
    have "check_loop env now s = Some (Inr s)"
      using p False by (subst check_loop.simps) (simp add: oo Let_def due_def)
    then show ?thesis using False Cons.prems by simp
  next
    case True
    define s1 where "s1 = s\<lparr>next_timeout := nxt s p, current_timeout_due_time := to_time x, ts_pool := d\<rparr>"
    define s2 where "s2 = (case to_h x of Some (User n) \<Rightarrow>
        s1\<lparr>ts_world := g n (to_arg x) (ts_world s1), ts_now := ts_now s1 + delay n\<rparr> | _ \<Rightarrow> s1)"
    have run: "check_loop env now s = check_loop env now s2"
      using p(1-3) True Cons.prems(2) assms
      by (subst check_loop.simps)
        (auto simp: oo Let_def due_def s2_def s1_def call_handler_def plain_handlers_def user_only_def
          split: option.split handler.split)
    have w: "ts_world s2 = effect g x (ts_world s)"
      by (simp add: s2_def s1_def effect_def split: option.split handler.split)
    have h: "holds s2 xs"
      using p(4) [of "ts_world s" "to_time x"] p(4) [where tm = "to_time x"]
      by (auto simp: s2_def s1_def holds_def tmo_list_def split: option.split handler.split)
    have "user_only xs" using Cons.prems(2) by (simp add: user_only_def)
    then show ?thesis using Cons.IH [OF h] True by (simp add: run w)
  qed
qed

lemma restart_loop_list:
  assumes "linked (nxt s) t ps" "distinct ps"
  shows "\<exists>c. restart_loop now base t s = Some (s\<lparr>ts_cells := c\<rparr>) \<and>
    (\<forall>q. c q = (if q \<in> set ps then (ts_cells s q)\<lparr>to_time := (to_time (ts_cells s q) - base) + now\<rparr> else ts_cells s q))"
  using assms
proof (induction ps arbitrary: t s)
  case Nil
  then show ?case by (subst restart_loop.simps) (simp add: exI [of _ "ts_cells s"])
next
  case (Cons p ps)
  let ?s = "s\<lparr>ts_cells := (ts_cells s)(p := (ts_cells s p)\<lparr>to_time := (to_time (ts_cells s p) - base) + now\<rparr>)\<rparr>"
  have run: "restart_loop now base t s = restart_loop now base (nxt ?s p) ?s"
    using Cons.prems(1) by (subst restart_loop.simps) (simp add: Let_def)
  have "linked (nxt ?s) (nxt ?s p) ps" using Cons.prems(1) by simp
  then obtain c where c: "restart_loop now base (nxt ?s p) ?s = Some (?s\<lparr>ts_cells := c\<rparr>)"
    "\<forall>q. c q = (if q \<in> set ps then (ts_cells ?s q)\<lparr>to_time := (to_time (ts_cells ?s q) - base) + now\<rparr> else ts_cells ?s q)"
    using Cons.IH [of ?s "nxt ?s p"] Cons.prems(2) unfolding distinct.simps by blast
  have "restart_loop now base t s = Some (s\<lparr>ts_cells := c\<rparr>)" unfolding run c(1) by simp
  moreover have "\<forall>q. c q = (if q \<in> set (p # ps) then (ts_cells s q)\<lparr>to_time := (to_time (ts_cells s q) - base) + now\<rparr> else ts_cells s q)"
    using c(2) Cons.prems(2) by auto
  ultimately show ?case by blast
qed

definition rebase :: "u32 \<Rightarrow> u32 \<Rightarrow> timeo \<Rightarrow> timeo" where
  "rebase now base x = x\<lparr>to_time := (to_time x - base) + now\<rparr>"

lemma restart_holds:
  assumes "holds s (x # xs)"
  shows "\<exists>c. sys_restart_timeouts s = Some (s\<lparr>ts_cells := c\<rparr>) \<and>
    holds (s\<lparr>ts_cells := c\<rparr>) (map (rebase (ts_now s) (to_time x)) (x # xs))"
proof -
  obtain ps where p: "tmo_list s ps" "x # xs = map (ts_cells s) ps"
    using assms by (auto simp: holds_def)
  then obtain q qs where q: "ps = q # qs" "ts_cells s q = x" by (cases ps) auto
  have l: "linked (nxt s) (next_timeout s) ps" "distinct ps" using p(1) by (simp_all add: tmo_list_def)
  obtain c where c: "restart_loop (ts_now s) (to_time x) (next_timeout s) s = Some (s\<lparr>ts_cells := c\<rparr>)"
    "\<forall>r. c r = (if r \<in> set ps then rebase (ts_now s) (to_time x) (ts_cells s r) else ts_cells s r)"
    using restart_loop_list [OF l, of "ts_now s" "to_time x"] unfolding rebase_def by blast
  have "sys_restart_timeouts s = Some (s\<lparr>ts_cells := c\<rparr>)"
    using c(1) l(1) q by (auto simp: sys_restart_timeouts_def)
  moreover have "map c ps = map (rebase (ts_now s) (to_time x)) (x # xs)"
    unfolding p(2) using c(2) by simp
  moreover have "tmo_list (s\<lparr>ts_cells := c\<rparr>) ps" using p(1) by (simp add: tmo_list_def)
  ultimately show ?thesis unfolding holds_def by (intro exI [of _ c] conjI exI [of _ ps]) simp_all
qed

section \<open>Order under wrap-around\<close>

text \<open>Times are compared relative to a base that is at most \<open>2 ^ 31\<close> behind both.\<close>

definition rel :: "u32 \<Rightarrow> u32 \<Rightarrow> nat" where
  "rel base t = unat (t - base)"

lemma TIME_LESS_THAN_rel:
  assumes "rel b t < 2 ^ 31" "rel b c < 2 ^ 31"
  shows "TIME_LESS_THAN t c \<longleftrightarrow> rel b t < rel b c"
proof -
  have e: "t - c = (t - b) - (c - b)" by simp
  have u: "unat (t - c) = (if rel b c \<le> rel b t then rel b t - rel b c else rel b t + 2 ^ 32 - rel b c)"
    unfolding e rel_def by (subst unat_sub_if') simp
  have m: "LWIP_MAX_TIMEOUT = 0x7FFFFFFF" by (simp add: LWIP_MAX_TIMEOUT_def)
  show ?thesis
    using assms by (simp add: TIME_LESS_THAN_def m word_less_nat_alt u) linarith
qed

text \<open>
  A pending time is in time at \<open>now\<close> if it is at most \<open>2 ^ 30\<close> milliseconds behind it and less than that
  ahead; times in time are ordered by \<open>TIME_LESS_THAN\<close> as by their distance from \<open>now - 2 ^ 30\<close>.
\<close>

abbreviation base_of :: "u32 \<Rightarrow> u32" where
  "base_of now \<equiv> now - 0x40000000"

definition within_reach :: "u32 \<Rightarrow> timeo \<Rightarrow> bool" where
  "within_reach now x \<longleftrightarrow> rel (base_of now) (to_time x) < 2 ^ 31"

definition ordered :: "timeo list \<Rightarrow> bool" where
  "ordered xs \<longleftrightarrow> sorted_wrt (\<lambda>x y. \<not> TIME_LESS_THAN (to_time y) (to_time x)) xs"

lemma less_in_time:
  "within_reach now x \<Longrightarrow> within_reach now y \<Longrightarrow>
   TIME_LESS_THAN (to_time x) (to_time y) \<longleftrightarrow> rel (base_of now) (to_time x) < rel (base_of now) (to_time y)"
  by (simp add: within_reach_def TIME_LESS_THAN_rel)

lemma rel_now: "unat k < 2 ^ 30 \<Longrightarrow> rel (base_of now) (now + k) = 2 ^ 30 + unat k"
proof -
  assume "unat k < 2 ^ 30"
  then have "unat (0x40000000 + k) = 2 ^ 30 + unat k" by (simp add: unat_word_ariths)
  then show ?thesis by (simp add: rel_def algebra_simps)
qed

lemma due_in_time:
  "within_reach now x \<Longrightarrow> unat k < 2 ^ 30 \<Longrightarrow> due (now + k) x \<longleftrightarrow> rel (base_of now) (to_time x) \<le> 2 ^ 30 + unat k"
  using TIME_LESS_THAN_rel [of "base_of now" "now + k" "to_time x"] rel_now [of k now]
  by (auto simp: due_def within_reach_def)

lemma due_now: "within_reach now x \<Longrightarrow> due now x \<longleftrightarrow> rel (base_of now) (to_time x) \<le> 2 ^ 30"
  using due_in_time [of now x 0] by simp

lemma set_ins [simp]: "set (ins x xs) = insert x (set xs)"
  by (induction xs) auto

lemma ordered_ins:
  "ordered xs \<Longrightarrow> \<forall>y\<in>insert x (set xs). within_reach now y \<Longrightarrow> ordered (ins x xs)"
proof (induction xs)
  case (Cons y xs)
  let ?r = "\<lambda>z. rel (base_of now) (to_time z)"
  have lt: "TIME_LESS_THAN (to_time u) (to_time v) \<longleftrightarrow> ?r u < ?r v"
    if "u \<in> insert x (set (y # xs))" "v \<in> insert x (set (y # xs))" for u v
    using less_in_time that Cons.prems(2) by blast
  show ?case
    using Cons lt by (auto simp: ordered_def)
qed (simp add: ordered_def)

lemma ordered_rem_first: "ordered xs \<Longrightarrow> ordered (rem_first h a xs) \<and> set (rem_first h a xs) \<subseteq> set xs"
  by (induction xs) (auto simp: ordered_def)

lemma due_prefix:
  assumes "ordered xs" "\<forall>x\<in>set xs. within_reach now x"
  shows "takeWhile (due now) xs = filter (due now) xs" "dropWhile (due now) xs = filter (\<lambda>x. \<not> due now x) xs"
proof -
  have "takeWhile (due now) xs = filter (due now) xs \<and> dropWhile (due now) xs = filter (\<lambda>x. \<not> due now x) xs"
    using assms
  proof (induction xs)
    case (Cons x xs)
    show ?case
    proof (cases "due now x")
      case False
      have "\<not> due now y" if "y \<in> set xs" for y
      proof -
        have "\<not> TIME_LESS_THAN (to_time y) (to_time x)" "within_reach now x" "within_reach now y"
          using Cons.prems that by (auto simp: ordered_def)
        then have "rel (base_of now) (to_time x) \<le> rel (base_of now) (to_time y)"
          by (simp add: less_in_time not_less)
        then show ?thesis using False \<open>within_reach now x\<close> \<open>within_reach now y\<close> by (simp add: due_now)
      qed
      then show ?thesis using False by (auto simp: filter_id_conv intro: filter_False [symmetric])
    qed (use Cons in \<open>auto simp: ordered_def\<close>)
  qed simp
  then show "takeWhile (due now) xs = filter (due now) xs" "dropWhile (due now) xs = filter (\<lambda>x. \<not> due now x) xs"
    by blast+
qed

lemma new_in_time:
  "m \<le> 0x3FFFFFFF \<Longrightarrow> within_reach now \<lparr>to_time = now + m, to_h = h, to_arg = a\<rparr>"
proof -
  assume "m \<le> 0x3FFFFFFF"
  then have "unat m < 2 ^ 30" by (simp add: word_le_nat_alt)
  then show ?thesis using rel_now [of m now] by (simp add: within_reach_def)
qed

lemma max_msecs: "(0xFFFFFFFF div 4 :: u32) = 0x3FFFFFFF"
  by simp

section \<open>Initialisation and the cyclic timers\<close>

lemma timeouts_init_holds:
  assumes "holds s []" "3 \<le> mp_num (ts_pool s)"
  shows "\<exists>s'. sys_timeouts_init s = Some (Inr s') \<and> holds s'
    [\<lparr>to_time = ts_now s + 100, to_h = Some Cyclic, to_arg = 3\<rparr>,
     \<lparr>to_time = ts_now s + 1000, to_h = Some Cyclic, to_arg = 1\<rparr>,
     \<lparr>to_time = ts_now s + 1000, to_h = Some Cyclic, to_arg = 2\<rparr>]"
proof -
  let ?e = "\<lambda>m i. \<lparr>to_time = ts_now s + m, to_h = Some Cyclic, to_arg = i\<rparr>"
  have lt: "TIME_LESS_THAN (n + a) (n + b) \<longleftrightarrow> TIME_LESS_THAN a b" for n a b
    by (simp add: TIME_LESS_THAN_def)
  have l: "[1..<length cyclic_intervals] = [1, 2, 3]" by (simp add: cyclic_intervals_def upt_rec)
  have m: "sys_timeout k h a t = sys_timeout_abs (ts_now t + k) h a t" if "k \<le> 0x3FFFFFFF" for k h a t
    using that by (simp add: sys_timeout_def)
  obtain s1 where s1: "sys_timeout_abs (ts_now s + 1000) (Some Cyclic) 1 s = Some (Inr s1)"
    "holds s1 [?e 1000 1]" "same_rest s s1"
    using timeout_abs_holds [OF assms(1), of "ts_now s + 1000" "Some Cyclic" 1] assms(2) by auto
  obtain s2 where s2: "sys_timeout_abs (ts_now s + 1000) (Some Cyclic) 2 s1 = Some (Inr s2)"
    "holds s2 [?e 1000 1, ?e 1000 2]" "same_rest s1 s2"
    using timeout_abs_holds [OF s1(2), of "ts_now s + 1000" "Some Cyclic" 2] assms(2) s1(3)
    by (auto simp: same_rest_def lt TIME_LESS_THAN_def LWIP_MAX_TIMEOUT_def)
  obtain s3 where s3: "sys_timeout_abs (ts_now s + 100) (Some Cyclic) 3 s2 = Some (Inr s3)"
    "holds s3 [?e 100 3, ?e 1000 1, ?e 1000 2]"
    using timeout_abs_holds [OF s2(2), of "ts_now s + 100" "Some Cyclic" 3] assms(2) s1(3) s2(3)
    by (auto simp: same_rest_def lt TIME_LESS_THAN_def LWIP_MAX_TIMEOUT_def)
  have "sys_timeouts_init s = Some (Inr s3)"
    unfolding sys_timeouts_init_def l
    using s1(1,3) s2(1,3) s3(1) by (simp add: m cyclic_intervals_def same_rest_def)
  then show ?thesis using s3(2) by blast
qed

text \<open>
  A cyclic timer is armed again one interval after the time it was due at, not after the time it ran, as
  long as that is not past; the new time is never before now.
\<close>

lemma cyclic_rearm:
  assumes "i < length cyclic_intervals" "e_cyclic env i s = Some (Inr s1)" "holds s1 xs"
    "length xs < mp_num (ts_pool s1)"
  defines "t \<equiv> current_timeout_due_time s1 + cyclic_intervals ! i"
  shows "\<exists>s' t'. lwip_cyclic_timer env i s = Some (Inr s') \<and>
    holds s' (ins \<lparr>to_time = t', to_h = Some Cyclic, to_arg = i\<rparr> xs) \<and>
    \<not> TIME_LESS_THAN t' (ts_now s1) \<and> (\<not> TIME_LESS_THAN t (ts_now s1) \<longrightarrow> t' = t)"
proof -
  define t' where "t' = (if TIME_LESS_THAN t (ts_now s1) then ts_now s1 + cyclic_intervals ! i else t)"
  have "i \<in> {0, 1, 2, 3}" using assms(1) by (auto simp: cyclic_intervals_def)
  then have "\<not> TIME_LESS_THAN (ts_now s1 + cyclic_intervals ! i) (ts_now s1)"
    by (auto simp: cyclic_intervals_def TIME_LESS_THAN_def LWIP_MAX_TIMEOUT_def)
  then have n: "\<not> TIME_LESS_THAN t' (ts_now s1)" by (simp add: t'_def)
  have "lwip_cyclic_timer env i s = sys_timeout_abs t' (Some Cyclic) i s1"
    using assms(1,2) by (simp add: lwip_cyclic_timer_def t'_def t_def Let_def)
  then show ?thesis using timeout_abs_holds [OF assms(3,4), of t' "Some Cyclic" i] n
    by (auto simp: t'_def)
qed

section \<open>Runs\<close>

text \<open>
  What callers do between checks: register and remove timeouts, let time pass while every pending timeout stays in
  reach of the clock, rebase the list after a pause of any length when its times spread over less than
  \<open>2 ^ 30\<close> milliseconds, and change anything else.
\<close>

definition timers_near :: "'w tmo \<Rightarrow> bool" where
  "timers_near s \<longleftrightarrow> (\<forall>xs. holds s xs \<longrightarrow> (\<forall>x\<in>set xs. within_reach (ts_now s) x))"

definition timers_spread :: "'w tmo \<Rightarrow> bool" where
  "timers_spread s \<longleftrightarrow> (\<forall>x xs. holds s (x # xs) \<longrightarrow> (\<forall>y\<in>set xs. unat (to_time y - to_time x) < 2 ^ 30))"

inductive timer_step :: "'w tmo \<Rightarrow> 'w tmo \<Rightarrow> bool" where
  add: "sys_timeout m h a s = Some (Inr s') \<Longrightarrow> timer_step s s'"
| remove: "sys_untimeout h a s = Some (Inr s') \<Longrightarrow> timer_step s s'"
| tick: "timers_near (s\<lparr>ts_now := ts_now s + k\<rparr>) \<Longrightarrow> timer_step s (s\<lparr>ts_now := ts_now s + k\<rparr>)"
| restart: "timers_spread s \<Longrightarrow> sys_restart_timeouts (s\<lparr>ts_now := n\<rparr>) = Some s' \<Longrightarrow> timer_step s s'"
| other: "timer_step s (s\<lparr>ts_world := w, tcpip_tcp_timer_active := b\<rparr>)"

text \<open>
  A handler that keeps to these steps and ends within \<open>2 ^ 30\<close> milliseconds of \<open>now\<close>; one that does not is cut off
  (\<open>None\<close>), so that a check that gives a result with the handlers of \<open>kept now env\<close> is a check in which every
  handler that was called kept to them.
\<close>

definition keeps :: "u32 \<Rightarrow> ('w tmo \<Rightarrow> 'w step) \<Rightarrow> 'w tmo \<Rightarrow> 'w step" where
  "keeps now f s = stepb (f s) (\<lambda>s'. if timer_step\<^sup>*\<^sup>* s s' \<and> unat (ts_now s' - now) < 2 ^ 30 then Some (Inr s') else None)"

definition kept :: "u32 \<Rightarrow> 'w env \<Rightarrow> 'w env" where
  "kept now env = env\<lparr>e_cyclic := \<lambda>i. keeps now (e_cyclic env i), e_user := \<lambda>n a. keeps now (e_user env n a)\<rparr>"

text \<open>
  The runs of the timeouts: from an empty list, these steps and checks in any order.
\<close>

inductive timer_run :: "'w tmo \<Rightarrow> bool" where
  start: "holds s [] \<Longrightarrow> timer_run s"
| step: "timer_run s \<Longrightarrow> timer_step s s' \<Longrightarrow> timer_run s'"
| check: "timer_run s \<Longrightarrow> sys_check_timeouts env s = Some (Inr s') \<Longrightarrow>
    sys_check_timeouts (kept (ts_now s) env) s = Some (Inr s') \<Longrightarrow> timer_run s'"

lemma holds_inj: "holds s xs \<Longrightarrow> holds s ys \<Longrightarrow> xs = ys"
  unfolding holds_def tmo_list_def using linked_determ by blast

lemma holds_other [simp]: "holds (s\<lparr>ts_world := w\<rparr>) xs = holds s xs" "holds (s\<lparr>tcpip_tcp_timer_active := b\<rparr>) xs = holds s xs"
  by (simp_all add: holds_def tmo_list_def)

definition timers_ok :: "'w tmo \<Rightarrow> bool" where
  "timers_ok s \<longleftrightarrow> (\<exists>xs. holds s xs \<and> ordered xs \<and> (\<forall>x\<in>set xs. within_reach (ts_now s) x))"

lemma timers_ok_other [simp]: "timers_ok (s\<lparr>ts_world := w\<rparr>) = timers_ok s" "timers_ok (s\<lparr>tcpip_tcp_timer_active := b\<rparr>) = timers_ok s"
  by (simp_all add: timers_ok_def)

lemma add_ok:
  assumes "timers_ok s" "within_reach (ts_now s) \<lparr>to_time = t, to_h = h, to_arg = a\<rparr>" "sys_timeout_abs t h a s = Some (Inr s')"
  shows "timers_ok s' \<and> same_rest s s'"
proof -
  obtain xs where xs: "holds s xs" "ordered xs" "\<forall>x\<in>set xs. within_reach (ts_now s) x" using assms(1) by (auto simp: timers_ok_def)
  have len: "length xs < mp_num (ts_pool s)"
    using timeout_abs_holds_full [OF xs(1)] assms(3) holds_length [OF xs(1)] by fastforce
  have h: "holds s' (ins \<lparr>to_time = t, to_h = h, to_arg = a\<rparr> xs)" "same_rest s s'"
    using timeout_abs_holds [OF xs(1) len, of t h a] assms(3) by simp_all
  have r: "\<forall>y\<in>insert \<lparr>to_time = t, to_h = h, to_arg = a\<rparr> (set xs). within_reach (ts_now s) y" using assms(2) xs(3) by simp
  moreover have "ts_now s' = ts_now s" using h(2) by (simp add: same_rest_def)
  ultimately have "timers_ok s'" using h(1) ordered_ins [OF xs(2) r]
    unfolding timers_ok_def by (intro exI [of _ "ins \<lparr>to_time = t, to_h = h, to_arg = a\<rparr> xs"]) simp
  then show ?thesis using h(2) by blast
qed

lemma timeout_ok: "timers_ok s \<Longrightarrow> sys_timeout m h a s = Some (Inr s') \<Longrightarrow> timers_ok s' \<and> same_rest s s'"
  using add_ok [of s "ts_now s + m" h a s'] new_in_time [of m "ts_now s" h a] by (auto simp: sys_timeout_def split: if_splits)

lemma untimeout_ok:
  assumes "timers_ok s" "sys_untimeout h a s = Some (Inr s')"
  shows "timers_ok s' \<and> same_rest s s'"
proof -
  obtain xs where xs: "holds s xs" "ordered xs" "\<forall>x\<in>set xs. within_reach (ts_now s) x" using assms(1) by (auto simp: timers_ok_def)
  have h: "holds s' (rem_first h a xs)" "same_rest s s'" using untimeout_holds [OF xs(1), of h a] assms(2) by auto
  moreover have "ts_now s' = ts_now s" using h(2) by (simp add: same_rest_def)
  ultimately show ?thesis
    using ordered_rem_first [OF xs(2), of h a] xs(3) unfolding timers_ok_def by (intro conjI exI [of _ "rem_first h a xs"]) auto
qed

lemma ordered_rebase: "ordered (map (rebase now base) xs) = ordered xs"
  by (simp add: ordered_def sorted_wrt_map rebase_def TIME_LESS_THAN_def)

lemma restart_ok:
  assumes "timers_ok s" "timers_spread s" "sys_restart_timeouts (s\<lparr>ts_now := n\<rparr>) = Some s'"
  shows "timers_ok s' \<and> current_timeout_due_time s' = current_timeout_due_time s"
proof -
  obtain xs where xs: "holds s xs" "ordered xs" using assms(1) by (auto simp: timers_ok_def)
  have h: "holds (s\<lparr>ts_now := n\<rparr>) xs" using xs(1) by (simp add: holds_now)
  show ?thesis
  proof (cases xs)
    case Nil
    then have "s' = s\<lparr>ts_now := n\<rparr>" using assms(3) holds_Nil [of "s\<lparr>ts_now := n\<rparr>"] h by (simp add: sys_restart_timeouts_def)
    then show ?thesis using h Nil unfolding timers_ok_def by (intro conjI exI [of _ "[]"]) (simp_all add: ordered_def)
  next
    case (Cons x ys)
    then obtain c where c: "s' = s\<lparr>ts_now := n, ts_cells := c\<rparr>" "holds s' (map (rebase n (to_time x)) xs)"
      using restart_holds [of "s\<lparr>ts_now := n\<rparr>" x ys] h assms(3) by auto
    have "unat (to_time y - to_time x) < 2 ^ 30" if "y \<in> set xs" for y
      using assms(2) xs(1) that Cons by (auto simp: timers_spread_def)
    then have "within_reach n (rebase n (to_time x) y)" if "y \<in> set xs" for y
      using rel_now [of "to_time y - to_time x" n] that by (simp add: within_reach_def rebase_def add.commute)
    then show ?thesis using c xs(2) unfolding timers_ok_def
      by (intro conjI exI [of _ "map (rebase n (to_time x)) xs"]) (simp_all add: ordered_rebase)
  qed
qed

lemma timer_step_ok:
  assumes "timer_step s s'" "timers_ok s"
  shows "timers_ok s' \<and> current_timeout_due_time s' = current_timeout_due_time s"
  using assms
proof (induction rule: timer_step.induct)
  case (add m h a s s')
  then show ?case using timeout_ok [of s m h a s'] by (simp add: same_rest_def)
next
  case (remove h a s s')
  then show ?case using untimeout_ok [of s h a s'] by (simp add: same_rest_def)
next
  case (tick s k)
  then show ?case by (auto simp: timers_ok_def timers_near_def holds_now)
next
  case (restart s n s')
  then show ?case using restart_ok [of s n s'] by blast
next
  case (other s w b)
  then show ?case by simp
qed

lemma timer_steps_ok:
  "timer_step\<^sup>*\<^sup>* s s' \<Longrightarrow> timers_ok s \<Longrightarrow> timers_ok s' \<and> current_timeout_due_time s' = current_timeout_due_time s"
  by (induction rule: rtranclp_induct) (auto dest: timer_step_ok)

text \<open>A check: the head is taken off, its handler runs, and a cyclic timer is in reach where it is armed again.\<close>

lemma pop_ok:
  assumes "timers_ok s" "next_timeout s = Some p" "do_memp_free_pool p (ts_pool s) = Inr d"
  shows "timers_ok (s\<lparr>next_timeout := nxt s p, current_timeout_due_time := tm, ts_pool := d\<rparr>)" "within_reach (ts_now s) (ts_cells s p)"
proof -
  obtain xs where xs: "holds s xs" "ordered xs" "\<forall>x\<in>set xs. within_reach (ts_now s) x" using assms(1) by (auto simp: timers_ok_def)
  have "xs \<noteq> []" using assms(2) holds_Nil xs(1) by force
  then obtain x ys where xy: "xs = x # ys" by (cases xs) auto
  obtain q d' where q: "next_timeout s = Some q" "ts_cells s q = x" "do_memp_free_pool q (ts_pool s) = Inr d'"
    "\<And>w tm. holds (s\<lparr>next_timeout := nxt s q, current_timeout_due_time := tm, ts_pool := d', ts_world := w\<rparr>) ys"
    using holds_Cons [OF xs(1) [unfolded xy]] by metis
  have e: "q = p" "d' = d" using q(1,3) assms(2,3) by auto
  have "holds (s\<lparr>next_timeout := nxt s p, current_timeout_due_time := tm, ts_pool := d\<rparr>) ys"
    using q(4) [of "ts_world s" tm] unfolding e by simp
  then show "timers_ok (s\<lparr>next_timeout := nxt s p, current_timeout_due_time := tm, ts_pool := d\<rparr>)"
    using xs(2,3) xy unfolding timers_ok_def by (intro exI [of _ ys]) (simp add: ordered_def)
  show "within_reach (ts_now s) (ts_cells s p)" using xs(3) xy q(2) e by simp
qed

lemma behind:
  fixes e a :: u32
  assumes "unat e < 2 ^ 31" "unat a < 2 ^ 30"
  shows "unat (0x40000000 - e - a) < 2 ^ 31 \<Longrightarrow> unat e \<le> 2 ^ 30"
    "unat e \<le> 2 ^ 30 \<Longrightarrow> unat i \<le> 1000 \<Longrightarrow> unat (i - e - a) < 2 ^ 31 \<Longrightarrow> unat (i - e - a) \<le> 1000"
  using assms by (simp_all add: unat_sub_if' split: if_splits)

lemma cyclic_in_reach:
  assumes "due now x" "within_reach nowp x" "unat (nowp - now) < 2 ^ 30" "unat (now1 - now) < 2 ^ 30" "unat i \<le> 1000"
    "\<not> TIME_LESS_THAN (to_time x + i) now1"
  shows "within_reach now1 \<lparr>to_time = to_time x + i, to_h = h, to_arg = a\<rparr>"
proof -
  define e where "e = now - to_time x"
  have le: "unat e < 2 ^ 31" using assms(1) by (simp add: e_def due_def TIME_LESS_THAN_def LWIP_MAX_TIMEOUT_def not_less word_le_nat_alt)
  have eq1: "to_time x - base_of nowp = 0x40000000 - e - (nowp - now)" by (simp add: e_def)
  have eq2: "to_time x + i - now1 = i - e - (now1 - now)" by (simp add: e_def)
  have eq3: "to_time x + i - base_of now1 = (i - e - (now1 - now)) + 0x40000000" by (simp add: e_def)
  have "unat (0x40000000 - e - (nowp - now)) < 2 ^ 31" using assms(2) by (simp only: within_reach_def rel_def eq1)
  note b = behind(1) [OF le assms(3) this]
  have "unat (i - e - (now1 - now)) < 2 ^ 31"
    using assms(6) unfolding TIME_LESS_THAN_def LWIP_MAX_TIMEOUT_def eq2 not_less word_le_nat_alt by simp
  note k = behind(2) [OF le assms(4) b assms(5) this]
  have "unat (k + 0x40000000) < 2 ^ 31" if "unat k \<le> 1000" for k :: u32
    using that by (simp add: unat_word_ariths)
  from this [OF k] show ?thesis unfolding within_reach_def rel_def timeo.simps eq3 .
qed

lemma keeps_ok:
  assumes "keeps now f s = Some (Inr s')" "timers_ok s"
  shows "timers_ok s'" "current_timeout_due_time s' = current_timeout_due_time s" "unat (ts_now s' - now) < 2 ^ 30"
  using assms timer_steps_ok [of s s'] by (auto simp: keeps_def stepb_def split: option.splits sum.splits if_splits)

lemma kept_fields [simp]: "e_cyclic (kept now env) i = keeps now (e_cyclic env i)" "e_user (kept now env) n a = keeps now (e_user env n a)"
    "e_pcbs (kept now env) = e_pcbs env" "e_ooseq (kept now env) = e_ooseq env"
  by (simp_all add: kept_def)

lemma stepb_SomeD: "stepb r f = Some (Inr s') \<Longrightarrow> \<exists>s. r = Some (Inr s) \<and> f s = Some (Inr s')"
  by (auto simp: stepb_def split: option.splits sum.splits)

lemma cyclic_interval: "i < length cyclic_intervals \<Longrightarrow> unat (cyclic_intervals ! i) \<le> 1000"
  by (auto simp: cyclic_intervals_def less_Suc_eq)

lemma call_ok:
  assumes run: "call_handler (kept now env) h arg s = Some (Inr s')" and s: "timers_ok s" "unat (ts_now s - now) < 2 ^ 30"
    and x: "due now x" "within_reach (ts_now s) x" "current_timeout_due_time s = to_time x"
  shows "timers_ok s' \<and> unat (ts_now s' - now) < 2 ^ 30"
proof (cases h)
  case (User n)
  then show ?thesis using run keeps_ok [OF _ s(1), of now "e_user env n arg" s'] by (simp add: call_handler_def)
next
  case TcpTimer
  then obtain s1 where s1: "keeps now (e_cyclic env 0) s = Some (Inr s1)"
    "(if e_pcbs env (ts_world s1) then sys_timeout 250 (Some TcpTimer) 0 s1
      else Some (Inr (s1\<lparr>tcpip_tcp_timer_active := False\<rparr>))) = Some (Inr s')"
    using run by (auto simp: call_handler_def tcpip_tcp_timer_def dest!: stepb_SomeD)
  note k = keeps_ok [OF s1(1) s(1)]
  show ?thesis using s1(2) k timeout_ok [OF k(1), of 250 "Some TcpTimer" 0 s'] by (auto simp: same_rest_def split: if_splits)
next
  case Cyclic
  then have i: "arg < length cyclic_intervals" using run by (auto simp: call_handler_def lwip_cyclic_timer_def split: if_splits)
  obtain s1 where s1: "keeps now (e_cyclic env arg) s = Some (Inr s1)" and
    r: "(let n1 = ts_now s1; t = current_timeout_due_time s1 + cyclic_intervals ! arg
      in if TIME_LESS_THAN t n1 then sys_timeout_abs (n1 + cyclic_intervals ! arg) (Some Cyclic) arg s1
         else sys_timeout_abs t (Some Cyclic) arg s1) = Some (Inr s')"
    using run i Cyclic by (auto simp: call_handler_def lwip_cyclic_timer_def dest!: stepb_SomeD)
  note k = keeps_ok [OF s1 s(1)]
  have t: "current_timeout_due_time s1 = to_time x" using k(2) x(3) by simp
  have "cyclic_intervals ! arg \<le> 0x3FFFFFFF" using cyclic_interval [OF i] by (simp add: word_le_nat_alt)
  note new = new_in_time [OF this, of "ts_now s1" "Some Cyclic" arg]
  have "timers_ok s' \<and> same_rest s1 s'"
  proof (cases "TIME_LESS_THAN (to_time x + cyclic_intervals ! arg) (ts_now s1)")
    case True
    then show ?thesis using r add_ok [OF k(1) new] by (simp add: t Let_def)
  next
    case False
    then show ?thesis
      using r add_ok [OF k(1) cyclic_in_reach [OF x(1,2) s(2) k(3) cyclic_interval [OF i] False], of "Some Cyclic" arg] by (simp add: t Let_def)
  qed
  then show ?thesis using k(3) by (simp add: same_rest_def)
qed

definition check_keeps :: "'w env \<Rightarrow> u32 \<Rightarrow> 'w tmo \<Rightarrow> fault + 'w tmo \<Rightarrow> bool" where
  "check_keeps e now s r \<longleftrightarrow> (\<forall>env s'. e = kept now env \<longrightarrow> timers_ok s \<longrightarrow> unat (ts_now s - now) < 2 ^ 30 \<longrightarrow> r = Inr s' \<longrightarrow> timers_ok s')"

lemma check_loop_ok: "check_loop e now s = Some r \<Longrightarrow> check_keeps e now s r"
proof (rule check_loop.raw_induct [where P = check_keeps])
  fix loop e now s r
  assume IH: "\<And>e now s r. loop e now s = Some r \<Longrightarrow> check_keeps e now s r"
    and body: "(let s = s\<lparr>ts_world := e_ooseq e (ts_world s)\<rparr>
      in case next_timeout s of
           None \<Rightarrow> Some (Inr s)
         | Some tmptimeout \<Rightarrow>
             if TIME_LESS_THAN now (to_time (ts_cells s tmptimeout)) then Some (Inr s)
             else
               (let handler = to_h (ts_cells s tmptimeout);
                    arg = to_arg (ts_cells s tmptimeout);
                    s = s\<lparr>next_timeout := nxt s tmptimeout,
                           current_timeout_due_time := to_time (ts_cells s tmptimeout)\<rparr>
                in case do_memp_free_pool tmptimeout (ts_pool s) of
                     Inl e \<Rightarrow> Some (Inl e)
                   | Inr d \<Rightarrow>
                       (case (case handler of None \<Rightarrow> Some (Inr (s\<lparr>ts_pool := d\<rparr>))
                              | Some h \<Rightarrow> call_handler e h arg (s\<lparr>ts_pool := d\<rparr>)) of
                          None \<Rightarrow> None
                        | Some r \<Rightarrow> (case r of Inl e \<Rightarrow> Some (Inl e) | Inr s \<Rightarrow> loop e now s)))) = Some r"
  show "check_keeps e now s r" unfolding check_keeps_def
  proof (intro allI impI)
  fix env s'
  assume ek: "e = kept now env" and ts: "timers_ok s" and tm: "unat (ts_now s - now) < 2 ^ 30" and rs: "r = Inr s'"
  let ?s = "s\<lparr>ts_world := e_ooseq e (ts_world s)\<rparr>"
  have ok: "timers_ok ?s" using ts by simp
  show "timers_ok s'"
  proof (cases "next_timeout s")
    case None
    then have "s' = ?s" using body rs by (simp add: Let_def)
    then show ?thesis using ok by simp
  next
    case (Some p)
    let ?x = "ts_cells s p"
    show ?thesis
    proof (cases "TIME_LESS_THAN now (to_time ?x)")
      case True
      then have "s' = ?s" using body rs Some by (simp add: Let_def)
      then show ?thesis using ok by simp
    next
      case False
      obtain d where d: "do_memp_free_pool p (ts_pool s) = Inr d"
        using body rs Some False by (auto simp: Let_def split: sum.splits)
      define s1 where "s1 = ?s\<lparr>next_timeout := nxt s p, current_timeout_due_time := to_time ?x, ts_pool := d\<rparr>"
      obtain s2 where s2: "(case to_h ?x of None \<Rightarrow> Some (Inr s1) | Some h \<Rightarrow> call_handler e h (to_arg ?x) s1) = Some (Inr s2)"
        "loop e now s2 = Some r"
        using body rs Some False d by (auto simp: Let_def s1_def split: sum.splits option.splits)
      have p1: "timers_ok s1" "within_reach (ts_now s) ?x"
        using pop_ok(1) [OF ok, of p d "to_time ?x"] pop_ok(2) [OF ok, of p d] Some d by (simp_all add: s1_def)
      have n1: "ts_now s1 = ts_now s" "current_timeout_due_time s1 = to_time ?x" by (simp_all add: s1_def)
      have "timers_ok s2 \<and> unat (ts_now s2 - now) < 2 ^ 30"
      proof (cases "to_h ?x")
        case None
        then show ?thesis using s2(1) p1(1) n1(1) tm by simp
      next
        case (Some h)
        then show ?thesis using call_ok [of now env h "to_arg ?x" s1 s2 ?x] s2(1) p1 n1 ek tm False by (simp add: due_def)
      qed
      then show ?thesis using IH [OF s2(2)] ek rs unfolding check_keeps_def by blast
    qed
  qed
  qed
qed (assumption)

section \<open>Properties\<close>

text \<open>
  C6.  In every run the list is ordered, and stays so over registrations, removals, checks with all they call (the stack's own
  timers and other modules' handlers, which may use the timeouts themselves), rebasing and the passage of time: it holds some timeouts,
  each within \<open>2 ^ 30\<close> milliseconds of the clock, ordered by expiry under wrap-around, its elements being exactly the elements
  in use in the pool.  The runs are those in which no pending timeout gets further behind than that, the
  pending times spread over less than that when they are rebased, and a check takes less than that.
\<close>

theorem timers_ordered:
  assumes "timer_run s"
  shows "\<exists>xs. holds s xs \<and> ordered xs \<and> (\<forall>x\<in>set xs. within_reach (ts_now s) x)"
  unfolding timers_ok_def [symmetric] using assms
proof (induction rule: timer_run.induct)
  case (start s)
  then show ?case unfolding timers_ok_def by (intro exI [of _ "[]"]) (simp add: ordered_def)
next
  case (step s s')
  then show ?case using timer_step_ok by blast
next
  case (check s env s')
  then show ?case using check_loop_ok [of "kept (ts_now s) env" "ts_now s" s "Inr s'"] unfolding check_keeps_def sys_check_timeouts_def by auto
qed

text \<open>A pool of twelve timeouts, as the port configures it, freshly initialised.\<close>

definition demo_timeouts :: "nat list tmo" where
  "demo_timeouts =
     \<lparr>next_timeout = None,
      ts_pool = memp_init_pool \<lparr>mp_base = 0x20000000, mp_size = 16, mp_num = 12, mp_tab = None,
        mp_next = (\<lambda>_. None), mp_used = 0, mp_max = 0, mp_err = 0, mp_avail = 0\<rparr>,
      ts_cells = (\<lambda>_. \<lparr>to_time = 0, to_h = None, to_arg = 0\<rparr>), current_timeout_due_time = 0,
      tcpip_tcp_timer_active = False, ts_now = 0xFFFFFFF0, ts_world = []\<rparr>"

lemma demo_timeouts_holds: "holds demo_timeouts []" "mp_num (ts_pool demo_timeouts) = 12"
    "ts_now demo_timeouts = 0xFFFFFFF0"
proof -
  have "pool_inv (ts_pool demo_timeouts) {}"
    unfolding demo_timeouts_def by (simp add: memp_init_pool_inv desc_ok_def MEM_ALIGNMENT_def)
  then show "holds demo_timeouts []" by (simp add: holds_def tmo_list_def demo_timeouts_def)
qed (simp_all add: demo_timeouts_def memp_init_pool_def Let_def)

text \<open>
  Two timeouts, registered just before the clock wraps around, and handlers that log their argument and take a millisecond: twelve
  milliseconds later the second is due and the first, whose time is behind the wrap-around, is not.
\<close>

definition demo_env :: "nat list env" where
  "demo_env = \<lparr>e_cyclic = (\<lambda>_ s. Some (Inr s)), e_user = (\<lambda>n a s. Some (Inr (s\<lparr>ts_world := ts_world s @ [a], ts_now := ts_now s + 1\<rparr>))),
     e_pcbs = (\<lambda>_. False), e_ooseq = id\<rparr>"

abbreviation demo_late :: timeo where "demo_late \<equiv> \<lparr>to_time = 4, to_h = Some (User 1), to_arg = 7\<rparr>"
abbreviation demo_soon :: timeo where "demo_soon \<equiv> \<lparr>to_time = 0xFFFFFFFA, to_h = Some (User 2), to_arg = 8\<rparr>"

lemma demo_pending:
  "\<exists>s1 s2. sys_timeout 20 (Some (User 1)) 7 demo_timeouts = Some (Inr s1) \<and> sys_timeout 10 (Some (User 2)) 8 s1 = Some (Inr s2) \<and>
     holds s2 [demo_soon, demo_late] \<and> ts_now s2 = 0xFFFFFFF0 \<and> ts_world s2 = []"
proof -
  have w: "(4294967300 :: u32) = 4" by simp
  have t0: "ts_world demo_timeouts = []" by (simp add: demo_timeouts_def)
  obtain s1 where s1: "sys_timeout 20 (Some (User 1)) 7 demo_timeouts = Some (Inr s1)" "holds s1 [demo_late]" "same_rest demo_timeouts s1"
    using timeout_abs_holds [OF demo_timeouts_holds(1), of 4 "Some (User 1)" 7] demo_timeouts_holds(2,3) by (auto simp: sys_timeout_def w)
  have r1: "ts_now s1 = 0xFFFFFFF0" "mp_num (ts_pool s1) = 12" "ts_world s1 = []"
    using s1(3) demo_timeouts_holds(2,3) t0 by (simp_all add: same_rest_def)
  obtain s2 where "sys_timeout 10 (Some (User 2)) 8 s1 = Some (Inr s2)" "holds s2 [demo_soon, demo_late]" "same_rest s1 s2"
    using timeout_abs_holds [OF s1(2), of "0xFFFFFFFA" "Some (User 2)" 8] r1
    by (auto simp: sys_timeout_def TIME_LESS_THAN_def LWIP_MAX_TIMEOUT_def)
  then show ?thesis using s1(1) r1 by (auto simp: same_rest_def)
qed

lemma demo_reach: "\<forall>x\<in>set [demo_soon, demo_late]. within_reach 0xFFFFFFFC x"
  by (simp add: within_reach_def rel_def)

lemma demo_order: "ordered [demo_soon, demo_late]"
  by (simp add: ordered_def TIME_LESS_THAN_def LWIP_MAX_TIMEOUT_def)

theorem timers_ordered_witness:
  "\<exists>s1 s2 s3 xs. sys_timeout 20 (Some (User 1)) 7 demo_timeouts = Some (Inr s1) \<and> sys_timeout 10 (Some (User 2)) 8 s1 = Some (Inr s2) \<and>
     sys_check_timeouts demo_env (s2\<lparr>ts_now := 0xFFFFFFFC\<rparr>) = Some (Inr s3) \<and> ts_world s3 = [8] \<and> holds s3 xs \<and> ordered xs"
proof -
  obtain s1 s2 where s: "sys_timeout 20 (Some (User 1)) 7 demo_timeouts = Some (Inr s1)" "sys_timeout 10 (Some (User 2)) 8 s1 = Some (Inr s2)"
    "holds s2 [demo_soon, demo_late]" "ts_now s2 = 0xFFFFFFF0" "ts_world s2 = []" using demo_pending by blast
  let ?s = "s2\<lparr>ts_now := 0xFFFFFFFC\<rparr>"
  have "timer_run s2"
    using timer_run.start [OF demo_timeouts_holds(1)] timer_step.add [OF s(1)] timer_step.add [OF s(2)] by (blast intro: timer_run.step)
  moreover have "timers_near (s2\<lparr>ts_now := ts_now s2 + 12\<rparr>)"
    unfolding timers_near_def
  proof (intro allI impI)
    fix xs assume "holds (s2\<lparr>ts_now := ts_now s2 + 12\<rparr>) xs"
    then have "xs = [demo_soon, demo_late]" using holds_inj [OF s(3), of xs] by (simp add: holds_now)
    then show "\<forall>x\<in>set xs. within_reach (ts_now (s2\<lparr>ts_now := ts_now s2 + 12\<rparr>)) x" using demo_reach by (simp add: s(4))
  qed
  ultimately have run: "timer_run ?s" using timer_run.step [OF _ timer_step.tick, of s2 12] by (simp add: s(4))
  have h: "holds ?s [demo_soon, demo_late]" using s(3) by (simp add: holds_now)
  obtain p d where p: "next_timeout ?s = Some p" "ts_cells ?s p = demo_soon" "do_memp_free_pool p (ts_pool ?s) = Inr d"
    "\<And>w tm. holds (?s\<lparr>next_timeout := nxt ?s p, current_timeout_due_time := tm, ts_pool := d, ts_world := w\<rparr>) [demo_late]"
    by (rule holds_Cons [OF h]) blast
  define s1' where "s1' = ?s\<lparr>ts_world := [], next_timeout := nxt ?s p, current_timeout_due_time := 0xFFFFFFFA, ts_pool := d\<rparr>"
  define s3 where "s3 = s1'\<lparr>ts_world := [8], ts_now := 0xFFFFFFFD\<rparr>"
  have h3: "holds s3 [demo_late]" using p(4) [of "[8]" "0xFFFFFFFA"] by (simp add: holds_def tmo_list_def s3_def s1'_def)
  obtain q where q: "next_timeout s3 = Some q" "ts_cells s3 q = demo_late" by (rule holds_Cons [OF h3]) blast
  have stop: "check_loop e 0xFFFFFFFC s3 = Some (Inr s3)" if "e_ooseq e = id" for e
    using q that by (subst check_loop.simps) (simp add: Let_def TIME_LESS_THAN_def LWIP_MAX_TIMEOUT_def)
  have pop: "check_loop e 0xFFFFFFFC ?s = (case e_user e 2 8 s1' of None \<Rightarrow> None
      | Some r \<Rightarrow> (case r of Inl x \<Rightarrow> Some (Inl x) | Inr s \<Rightarrow> check_loop e 0xFFFFFFFC s))" if "e_ooseq e = id" for e
    using p(1-3) that s(5) by (subst check_loop.simps) (simp add: Let_def TIME_LESS_THAN_def LWIP_MAX_TIMEOUT_def s1'_def call_handler_def)
  have u: "e_user demo_env 2 8 s1' = Some (Inr s3)" by (simp add: demo_env_def s3_def s1'_def)
  have near: "timers_near s3"
    unfolding timers_near_def
  proof (intro allI impI)
    fix xs assume "holds s3 xs"
    then have "xs = [demo_late]" using holds_inj [OF h3] by blast
    then show "\<forall>x\<in>set xs. within_reach (ts_now s3) x" by (simp add: s3_def within_reach_def rel_def)
  qed
  have "timer_step s1' (s1'\<lparr>ts_world := [8]\<rparr>)"
    using timer_step.other [of s1' "tcpip_tcp_timer_active s1'" "[8]"] by (simp add: s1'_def)
  moreover have "timer_step (s1'\<lparr>ts_world := [8]\<rparr>) s3"
    using timer_step.tick [of "s1'\<lparr>ts_world := [8]\<rparr>" 1] near by (simp add: s3_def s1'_def)
  ultimately have st: "timer_step\<^sup>*\<^sup>* s1' s3" by (meson r_into_rtranclp rtranclp.rtrancl_into_rtrancl)
  have k: "e_user (kept 0xFFFFFFFC demo_env) 2 8 s1' = Some (Inr s3)"
    using st by (simp add: keeps_def u) (simp add: s3_def)
  have c: "sys_check_timeouts demo_env ?s = Some (Inr s3)" "sys_check_timeouts (kept (ts_now ?s) demo_env) ?s = Some (Inr s3)"
    using pop [of demo_env] stop [of demo_env] pop [of "kept 0xFFFFFFFC demo_env"] stop [of "kept 0xFFFFFFFC demo_env"] u k
    by (simp_all add: sys_check_timeouts_def) (simp_all add: demo_env_def)
  obtain xs where "holds s3 xs" "ordered xs" using timers_ordered [OF timer_run.check [OF run c]] by blast
  then show ?thesis using s(1,2) c(1) by (intro exI [of _ s1] exI [of _ s2] exI [of _ s3] exI [of _ xs]) (simp add: s3_def s1'_def)
qed

text \<open>
  C5.  The list in memory implements the abstract list.  A registration of at most \<open>0x3FFFFFFF\<close>
  milliseconds inserts behind everything that is not later when the pool has an element left, and stops
  in the assertion otherwise; a removal takes off the first timeout with that handler and argument, and
  nothing when there is none.  No other part of the state changes.
\<close>

theorem timeouts_refine:
  assumes "holds s xs"
  shows "(if m \<le> 0x3FFFFFFF \<and> length xs < mp_num (ts_pool s)
     then \<exists>s'. sys_timeout m h a s = Some (Inr s') \<and> same_rest s s' \<and>
       holds s' (ins \<lparr>to_time = ts_now s + m, to_h = h, to_arg = a\<rparr> xs)
     else sys_timeout m h a s = Some (Inl AssertFailed)) \<and>
    (\<exists>s'. sys_untimeout h a s = Some (Inr s') \<and> same_rest s s' \<and> holds s' (rem_first h a xs))"
proof -
  have full: "length xs = mp_num (ts_pool s)" if "\<not> length xs < mp_num (ts_pool s)"
    using that holds_length [OF assms] by simp
  show ?thesis
    using timeout_abs_holds [OF assms, of "ts_now s + m" h a] untimeout_holds [OF assms, of h a]
      timeout_abs_holds_full [OF assms full, of "ts_now s + m" h a]
    by (auto simp: sys_timeout_def)
qed

theorem timeouts_refine_witness:
  "\<exists>s'. sys_timeout 20 (Some (User 1)) 7 demo_timeouts = Some (Inr s') \<and> same_rest demo_timeouts s' \<and>
     holds s' [\<lparr>to_time = 4, to_h = Some (User 1), to_arg = 7\<rparr>]"
proof -
  have wrap: "(4294967300 :: u32) = 4" by simp
  show ?thesis
    using timeouts_refine [OF demo_timeouts_holds(1), of 20 "Some (User 1)" 7]
    by (simp add: demo_timeouts_holds(2,3) wrap)
qed

text \<open>
  C7.  When only other modules' handlers are in the list and none of them touches the timeouts, \<^verbatim>\<open>sys_check_timeouts\<close> on
  an ordered list in reach of the clock returns, has called the handlers of exactly the timeouts that are due at the
  time it starts, each once and in order of expiry, and leaves exactly the others pending, also when the clock wraps around in between.
\<close>

theorem check_serves_expired:
  assumes "holds s xs" and "ordered xs" and "\<forall>x\<in>set xs. within_reach (ts_now s) x" and "user_only xs"
    and "plain_handlers env g delay"
  shows "\<exists>s'. sys_check_timeouts env s = Some (Inr s') \<and>
    holds s' (filter (\<lambda>x. TIME_LESS_THAN (ts_now s) (to_time x)) xs) \<and>
    ts_world s' = fold (effect g) (filter (\<lambda>x. \<not> TIME_LESS_THAN (ts_now s) (to_time x)) xs) (ts_world s)"
proof -
  have e: "(\<lambda>x. \<not> TIME_LESS_THAN (ts_now s) (to_time x)) = due (ts_now s)"
    "(\<lambda>x. TIME_LESS_THAN (ts_now s) (to_time x)) = (\<lambda>x. \<not> due (ts_now s) x)" by (auto simp: due_def)
  show ?thesis
    unfolding e sys_check_timeouts_def
    using check_loop_due [OF assms(5,1,4), of "ts_now s"] due_prefix [OF assms(2,3)] by simp
qed

theorem check_serves_expired_witness:
  "\<exists>s1 s2 s3. sys_timeout 20 (Some (User 1)) 7 demo_timeouts = Some (Inr s1) \<and> sys_timeout 10 (Some (User 2)) 8 s1 = Some (Inr s2) \<and>
     sys_check_timeouts demo_env (s2\<lparr>ts_now := 0xFFFFFFFC\<rparr>) = Some (Inr s3) \<and> holds s3 [demo_late] \<and> ts_world s3 = [8]"
proof -
  obtain s1 s2 where s: "sys_timeout 20 (Some (User 1)) 7 demo_timeouts = Some (Inr s1)" "sys_timeout 10 (Some (User 2)) 8 s1 = Some (Inr s2)"
    "holds s2 [demo_soon, demo_late]" "ts_now s2 = 0xFFFFFFF0" "ts_world s2 = []" using demo_pending by blast
  let ?s = "s2\<lparr>ts_now := 0xFFFFFFFC\<rparr>"
  have h: "holds ?s [demo_soon, demo_late]" using s(3) by (simp add: holds_now)
  have u: "user_only [demo_soon, demo_late]" by (simp add: user_only_def)
  have r: "\<forall>x\<in>set [demo_soon, demo_late]. within_reach (ts_now ?s) x" using demo_reach by simp
  have e: "plain_handlers demo_env (\<lambda>n a w. w @ [a]) (\<lambda>_. 1)" by (simp add: plain_handlers_def demo_env_def)
  from check_serves_expired [OF h demo_order r u e] show ?thesis using s(1,2,5)
    by (auto simp: TIME_LESS_THAN_def LWIP_MAX_TIMEOUT_def effect_def)
qed

text \<open>
  The sleeping time is exact, and its assertion never fails: a timeout in time that is first in the list
  is due after \<open>k\<close> milliseconds, for \<open>k\<close> below \<open>2 ^ 30\<close>, exactly when \<open>k\<close> has reached it.
\<close>

lemma sleeptime_exact:
  assumes "holds s (x # xs)" "within_reach (ts_now s) x" "unat k < 2 ^ 30"
  shows "\<exists>r. sys_timeouts_sleeptime s = Inr r \<and> (due (ts_now s + k) x \<longleftrightarrow> r \<le> k)"
proof -
  obtain p where p: "next_timeout s = Some p" "ts_cells s p = x"
    using holds_Cons [OF assms(1)] by metis
  let ?now = "ts_now s" and ?r = "rel (base_of (ts_now s)) (to_time x)"
  define r where "r = (if TIME_LESS_THAN (to_time x) ?now then 0 else to_time x - ?now)"
  have run: "sys_timeouts_sleeptime s = Inr r"
    by (cases "TIME_LESS_THAN (to_time x) (ts_now s)")
      (auto simp: sys_timeouts_sleeptime_def p r_def TIME_LESS_THAN_def Let_def dest: leD)
  have less: "TIME_LESS_THAN (to_time x) ?now \<longleftrightarrow> ?r < 2 ^ 30"
    using TIME_LESS_THAN_rel [of "base_of ?now" "to_time x" ?now] assms(2) rel_now [of 0 ?now]
    by (simp add: within_reach_def)
  have "unat (to_time x - ?now) = ?r - 2 ^ 30" if "\<not> ?r < 2 ^ 30"
  proof -
    have "to_time x - ?now = (to_time x - base_of ?now) - 0x40000000" by simp
    then show ?thesis using that unfolding rel_def by (simp only:) (subst unat_sub, simp_all add: word_le_nat_alt)
  qed
  then have "unat r = ?r - 2 ^ 30" by (auto simp: r_def less)
  then show ?thesis
    using run due_in_time [OF assms(2,3)] by (simp add: word_le_nat_alt le_diff_conv add.commute)
qed

end
