(* ===== verification/LwMem.thy ===== *)
theory LwMem
  imports LwMemp
begin

text \<open>
  \<^verbatim>\<open>mem.c\<close>: the heap of the stack, a list of blocks in one array, each with a header that holds the indices
  of its neighbours.  The model keeps the header at every index of the array (\<open>hp_mem\<close>), the index of
  the lowest free block and the statistics; the bytes of the blocks are \<open>hp_data\<close>.  The type
  \<^verbatim>\<open>mem_size_t\<close> has 16 bits: its values are natural numbers here and every cast to it is a \<open>u16c\<close>.
  A loop along the headers is a \<open>partial_function\<close>.
\<close>

section \<open>State\<close>

record mem_hdr =
  mh_next :: nat
  mh_prev :: nat
  mh_used :: nat

record heap =
  hp_ram :: nat
  hp_mem :: "nat \<Rightarrow> mem_hdr"
  hp_lfree :: nat
  hp_data :: "nat \<Rightarrow> u8"
  st_used :: nat
  st_max :: nat
  st_avail :: nat
  st_err :: nat
  st_illegal :: nat

definition SIZEOF_STRUCT_MEM :: nat where "SIZEOF_STRUCT_MEM = 8"
definition MIN_SIZE_ALIGNED :: nat where "MIN_SIZE_ALIGNED = 12"
definition MEM_SIZE_ALIGNED :: nat where "MEM_SIZE_ALIGNED = 20480"

lemmas mem_consts = SIZEOF_STRUCT_MEM_def MIN_SIZE_ALIGNED_def MEM_SIZE_ALIGNED_def

text \<open>The cast to \<^verbatim>\<open>mem_size_t\<close>, and unsigned subtraction at 32 bits.\<close>

definition u16c :: "nat \<Rightarrow> nat" where "u16c n = n mod 65536"

definition sub32 :: "nat \<Rightarrow> nat \<Rightarrow> nat" where "sub32 a b = (a + 2 ^ 32 - b) mod 2 ^ 32"

definition set_mnext :: "nat \<Rightarrow> nat \<Rightarrow> heap \<Rightarrow> heap" where
  "set_mnext p v h = h\<lparr>hp_mem := (hp_mem h)(p := (hp_mem h p)\<lparr>mh_next := v\<rparr>)\<rparr>"

definition set_mprev :: "nat \<Rightarrow> nat \<Rightarrow> heap \<Rightarrow> heap" where
  "set_mprev p v h = h\<lparr>hp_mem := (hp_mem h)(p := (hp_mem h p)\<lparr>mh_prev := v\<rparr>)\<rparr>"

definition set_mused :: "nat \<Rightarrow> nat \<Rightarrow> heap \<Rightarrow> heap" where
  "set_mused p v h = h\<lparr>hp_mem := (hp_mem h)(p := (hp_mem h p)\<lparr>mh_used := v\<rparr>)\<rparr>"

abbreviation mnext :: "heap \<Rightarrow> nat \<Rightarrow> nat" where "mnext h p \<equiv> mh_next (hp_mem h p)"
abbreviation mprev :: "heap \<Rightarrow> nat \<Rightarrow> nat" where "mprev h p \<equiv> mh_prev (hp_mem h p)"
abbreviation mused :: "heap \<Rightarrow> nat \<Rightarrow> nat" where "mused h p \<equiv> mh_used (hp_mem h p)"

text \<open>The statistics macros.\<close>

definition MEM_STATS_INC_USED :: "nat \<Rightarrow> heap \<Rightarrow> heap" where
  "MEM_STATS_INC_USED y h =
     (let h = h\<lparr>st_used := u16c (st_used h + y)\<rparr>
      in if st_max h < st_used h then h\<lparr>st_max := st_used h\<rparr> else h)"

definition MEM_STATS_DEC_USED :: "nat \<Rightarrow> heap \<Rightarrow> heap" where
  "MEM_STATS_DEC_USED y h = h\<lparr>st_used := u16c (st_used h + 65536 - u16c y)\<rparr>"

definition illegal :: "heap \<Rightarrow> heap" where
  "illegal h = h\<lparr>st_illegal := u16c (st_illegal h + 1)\<rparr>"

section \<open>Initialisation\<close>

definition mem_init :: "nat \<Rightarrow> heap \<Rightarrow> heap" where
  "mem_init ram_heap h =
     (let h = h\<lparr>hp_ram := LWIP_MEM_ALIGN ram_heap\<rparr>;
          h = set_mused 0 0 (set_mprev 0 0 (set_mnext 0 MEM_SIZE_ALIGNED h));
          h = set_mprev MEM_SIZE_ALIGNED MEM_SIZE_ALIGNED (set_mnext MEM_SIZE_ALIGNED MEM_SIZE_ALIGNED
                (set_mused MEM_SIZE_ALIGNED 1 h))
      in h\<lparr>hp_lfree := 0, st_avail := MEM_SIZE_ALIGNED\<rparr>)"

section \<open>Release\<close>

text \<open>The two halves of \<open>plug_holes\<close>.\<close>

definition plug_forward :: "nat \<Rightarrow> heap \<Rightarrow> heap" where
  "plug_forward mem h =
     (let nmem = mnext h mem
      in if mem \<noteq> nmem \<and> mused h nmem = 0 \<and> nmem \<noteq> MEM_SIZE_ALIGNED
         then (let h = (if hp_lfree h = nmem then h\<lparr>hp_lfree := mem\<rparr> else h);
                   h = set_mnext mem (mnext h nmem) h
               in if mnext h nmem \<noteq> MEM_SIZE_ALIGNED then set_mprev (mnext h nmem) (u16c mem) h else h)
         else h)"

definition plug_backward :: "nat \<Rightarrow> heap \<Rightarrow> heap" where
  "plug_backward mem h =
     (let pmem = mprev h mem
      in if pmem \<noteq> mem \<and> mused h pmem = 0
         then (let h = (if hp_lfree h = mem then h\<lparr>hp_lfree := pmem\<rparr> else h);
                   h = set_mnext pmem (mnext h mem) h
               in if mnext h mem \<noteq> MEM_SIZE_ALIGNED then set_mprev (mnext h mem) (u16c pmem) h else h)
         else h)"

definition plug_holes :: "nat \<Rightarrow> heap \<Rightarrow> fault + heap" where
  "plug_holes mem h =
     (if \<not> mem < MEM_SIZE_ALIGNED then Inl AssertFailed
      else if mused h mem \<noteq> 0 then Inl AssertFailed
      else if \<not> mnext h mem \<le> MEM_SIZE_ALIGNED then Inl AssertFailed
      else Inr (plug_backward mem (plug_forward mem h)))"

definition mem_link_valid :: "nat \<Rightarrow> heap \<Rightarrow> bool" where
  "mem_link_valid mem h \<longleftrightarrow>
     \<not> (MEM_SIZE_ALIGNED < mnext h mem \<or> MEM_SIZE_ALIGNED < mprev h mem \<or>
        (mprev h mem \<noteq> mem \<and> mnext h (mprev h mem) \<noteq> mem) \<or>
        (mnext h mem \<noteq> MEM_SIZE_ALIGNED \<and> mprev h (mnext h mem) \<noteq> mem))"

definition mem_free :: "nat option \<Rightarrow> heap \<Rightarrow> fault + heap" where
  "mem_free rmem h =
     (case rmem of
        None \<Rightarrow> Inr h
      | Some rmem \<Rightarrow>
          if rmem mod MEM_ALIGNMENT \<noteq> 0 then Inr (illegal h)
          else if rmem < hp_ram h + SIZEOF_STRUCT_MEM \<or> hp_ram h + MEM_SIZE_ALIGNED < rmem + MIN_SIZE_ALIGNED
          then Inr (illegal h)
          else
            (let mem = rmem - SIZEOF_STRUCT_MEM - hp_ram h
             in if mused h mem = 0 then Inr (illegal h)
                else if \<not> mem_link_valid mem h then Inr (illegal h)
                else
                  (let h = set_mused mem 0 h;
                       h = (if mem < hp_lfree h then h\<lparr>hp_lfree := mem\<rparr> else h);
                       h = MEM_STATS_DEC_USED (mnext h mem + 65536 - u16c mem) h
                   in plug_holes mem h)))"

section \<open>Shrinking\<close>

text \<open>The new header at \<open>ptr2\<close> and the links to it, the lines both branches of \<^verbatim>\<open>mem_trim\<close> end with.\<close>

definition trim_cut :: "nat \<Rightarrow> nat \<Rightarrow> nat \<Rightarrow> nat \<Rightarrow> heap \<Rightarrow> heap" where
  "trim_cut mem ptr ptr2 next h =
     (let h = set_mprev ptr2 ptr (set_mnext ptr2 next (set_mused ptr2 0 h));
          h = set_mnext mem ptr2 h
      in if mnext h ptr2 \<noteq> MEM_SIZE_ALIGNED then set_mprev (mnext h ptr2) ptr2 h else h)"

definition mem_trim :: "nat \<Rightarrow> nat \<Rightarrow> heap \<Rightarrow> fault + nat option \<times> heap" where
  "mem_trim rmem new_size h =
     (let newsize = u16c (LWIP_MEM_ALIGN new_size);
          newsize = (if newsize < MIN_SIZE_ALIGNED then MIN_SIZE_ALIGNED else newsize)
      in if MEM_SIZE_ALIGNED < newsize \<or> newsize < new_size then Inr (None, h)
         else if \<not> (hp_ram h \<le> rmem \<and> rmem < hp_ram h + MEM_SIZE_ALIGNED) then Inl AssertFailed
         else if rmem < hp_ram h + SIZEOF_STRUCT_MEM then Inl OutOfBounds
         else
           (let mem = rmem - SIZEOF_STRUCT_MEM - hp_ram h;
                ptr = u16c mem;
                sz = u16c (u16c (mnext h mem + 65536 - ptr) + 65536 - SIZEOF_STRUCT_MEM)
            in if \<not> newsize \<le> sz then Inl AssertFailed
               else if newsize = sz then Inr (Some rmem, h)
               else
                 (let mem2 = mnext h mem
                  in if mused h mem2 = 0 then
                       (if mnext h mem = MEM_SIZE_ALIGNED then Inl AssertFailed
                        else
                          (let next = mnext h mem2;
                               ptr2 = u16c (ptr + SIZEOF_STRUCT_MEM + newsize);
                               h = (if hp_lfree h = mem2 then h\<lparr>hp_lfree := ptr2\<rparr> else h);
                               h = trim_cut mem ptr ptr2 next h
                           in Inr (Some rmem, MEM_STATS_DEC_USED (sz - newsize) h)))
                     else if newsize + SIZEOF_STRUCT_MEM + MIN_SIZE_ALIGNED \<le> sz then
                       (let ptr2 = u16c (ptr + SIZEOF_STRUCT_MEM + newsize)
                        in if mnext h mem = MEM_SIZE_ALIGNED then Inl AssertFailed
                           else
                             (let h = (if ptr2 < hp_lfree h then h\<lparr>hp_lfree := ptr2\<rparr> else h);
                                  h = trim_cut mem ptr ptr2 (mnext h mem) h
                              in Inr (Some rmem, MEM_STATS_DEC_USED (sz - newsize) h)))
                     else Inr (Some rmem, h))))"

section \<open>Allocation\<close>

text \<open>The search from \<open>ptr\<close> on: the block it stops at, or none.\<close>

partial_function (option) malloc_search :: "nat \<Rightarrow> nat \<Rightarrow> heap \<Rightarrow> nat option option" where
  "malloc_search sz ptr h =
     (if ptr < MEM_SIZE_ALIGNED - sz then
        (if mused h ptr = 0 \<and> sz \<le> sub32 (mnext h ptr) (ptr + SIZEOF_STRUCT_MEM) then Some (Some ptr)
         else malloc_search sz (mnext h ptr) h)
      else Some None)"

text \<open>Splitting off the rest of a large block, or taking all of it.\<close>

definition malloc_take :: "nat \<Rightarrow> nat \<Rightarrow> heap \<Rightarrow> fault + heap" where
  "malloc_take sz ptr h =
     (if sz + SIZEOF_STRUCT_MEM + MIN_SIZE_ALIGNED \<le> sub32 (mnext h ptr) (ptr + SIZEOF_STRUCT_MEM) then
        (let ptr2 = u16c (ptr + SIZEOF_STRUCT_MEM + sz)
         in if ptr2 = MEM_SIZE_ALIGNED then Inl AssertFailed
            else
              (let h = set_mprev ptr2 ptr (set_mnext ptr2 (mnext h ptr) (set_mused ptr2 0 h));
                   h = set_mused ptr 1 (set_mnext ptr ptr2 h);
                   h = (if mnext h ptr2 \<noteq> MEM_SIZE_ALIGNED then set_mprev (mnext h ptr2) ptr2 h else h)
               in Inr (MEM_STATS_INC_USED (sz + SIZEOF_STRUCT_MEM) h)))
      else
        (let h = set_mused ptr 1 h
         in Inr (MEM_STATS_INC_USED (mnext h ptr + 65536 - u16c ptr) h)))"

text \<open>The loop that looks for the next free block after the lowest one has been taken.\<close>

partial_function (option) next_free :: "nat \<Rightarrow> heap \<Rightarrow> nat option" where
  "next_free cur h =
     (if mused h cur \<noteq> 0 \<and> cur \<noteq> MEM_SIZE_ALIGNED then next_free (mnext h cur) h else Some cur)"

definition adjust_lfree :: "nat \<Rightarrow> heap \<Rightarrow> (fault + heap) option" where
  "adjust_lfree mem h =
     (if mem = hp_lfree h then
        (case next_free (hp_lfree h) h of
           None \<Rightarrow> None
         | Some cur \<Rightarrow>
             let h = h\<lparr>hp_lfree := cur\<rparr>
             in if cur = MEM_SIZE_ALIGNED \<or> mused h cur = 0 then Some (Inr h) else Some (Inl AssertFailed))
      else Some (Inr h))"

text \<open>From the block that was found on: take it, adjust the lowest free block, check, return its data.\<close>

definition malloc_found :: "nat \<Rightarrow> nat \<Rightarrow> heap \<Rightarrow> (fault + nat option \<times> heap) option" where
  "malloc_found sz mem h =
     (case malloc_take sz mem h of
        Inl e \<Rightarrow> Some (Inl e)
      | Inr h \<Rightarrow>
          (case adjust_lfree mem h of
             None \<Rightarrow> None
           | Some (Inl e) \<Rightarrow> Some (Inl e)
           | Some (Inr h) \<Rightarrow>
               if \<not> mem + SIZEOF_STRUCT_MEM + sz \<le> MEM_SIZE_ALIGNED then Some (Inl AssertFailed)
               else if (hp_ram h + mem + SIZEOF_STRUCT_MEM) mod MEM_ALIGNMENT \<noteq> 0 then Some (Inl AssertFailed)
               else if (hp_ram h + mem) mod MEM_ALIGNMENT \<noteq> 0 then Some (Inl AssertFailed)
               else Some (Inr (Some (hp_ram h + mem + SIZEOF_STRUCT_MEM), h))))"

definition mem_malloc :: "nat \<Rightarrow> heap \<Rightarrow> (fault + nat option \<times> heap) option" where
  "mem_malloc size_in h =
     (if size_in = 0 then Some (Inr (None, h))
      else
        (let sz = u16c (LWIP_MEM_ALIGN size_in);
             sz = (if sz < MIN_SIZE_ALIGNED then MIN_SIZE_ALIGNED else sz)
         in if MEM_SIZE_ALIGNED < sz \<or> sz < size_in then Some (Inr (None, h))
            else
              (case malloc_search sz (hp_lfree h) h of
                 None \<Rightarrow> None
               | Some None \<Rightarrow> Some (Inr (None, h\<lparr>st_err := u16c (st_err h + 1)\<rparr>))
               | Some (Some mem) \<Rightarrow> malloc_found sz mem h)))"

definition mem_calloc :: "nat \<Rightarrow> nat \<Rightarrow> heap \<Rightarrow> (fault + nat option \<times> heap) option" where
  "mem_calloc count sz h =
     (let alloc_size = count * sz
      in if u16c alloc_size \<noteq> alloc_size then Some (Inr (None, h))
         else
           (case mem_malloc alloc_size h of
              None \<Rightarrow> None
            | Some (Inl e) \<Rightarrow> Some (Inl e)
            | Some (Inr (None, h)) \<Rightarrow> Some (Inr (None, h))
            | Some (Inr (Some p, h)) \<Rightarrow>
                Some (Inr (Some p, h\<lparr>hp_data := (\<lambda>i. if p - hp_ram h \<le> i \<and> i < p - hp_ram h + alloc_size then 0
                                                else hp_data h i)\<rparr>))))"

end
