(* ===== verification/LwHeap.thy ===== *)
theory LwHeap
  imports LwMem
begin

text \<open>
  The heap of \<open>LwMem\<close> against its specification.  A heap state represents a list of blocks (\<open>heap_inv\<close>); on that
  list an allocation is a first fit with division (\<open>blk_alloc\<close>), a release joins neighbours (\<open>blk_free\<close>) and a
  shrink moves the end of a block (\<open>blk_trim\<close>).  The lemmas follow the code: the searches along the headers, the
  division of a block (\<open>seg_divide\<close>), the two halves of \<^verbatim>\<open>plug_holes\<close>.  \<open>heap_run\<close> are the runs of clients.
\<close>

section \<open>Field updates\<close>

lemma set_fields [simp]:
  "hp_mem (set_mnext p v h) = (hp_mem h)(p := (hp_mem h p)\<lparr>mh_next := v\<rparr>)"
  "hp_mem (set_mprev p v h) = (hp_mem h)(p := (hp_mem h p)\<lparr>mh_prev := v\<rparr>)"
  "hp_mem (set_mused p v h) = (hp_mem h)(p := (hp_mem h p)\<lparr>mh_used := v\<rparr>)"
  "hp_lfree (set_mnext p v h) = hp_lfree h" "hp_lfree (set_mprev p v h) = hp_lfree h"
  "hp_lfree (set_mused p v h) = hp_lfree h"
  "hp_ram (set_mnext p v h) = hp_ram h" "hp_ram (set_mprev p v h) = hp_ram h" "hp_ram (set_mused p v h) = hp_ram h"
  "hp_data (set_mnext p v h) = hp_data h" "hp_data (set_mprev p v h) = hp_data h" "hp_data (set_mused p v h) = hp_data h"
  "st_used (set_mnext p v h) = st_used h" "st_used (set_mprev p v h) = st_used h" "st_used (set_mused p v h) = st_used h"
  by (simp_all add: set_mnext_def set_mprev_def set_mused_def)

lemma stats_fields [simp]:
  "hp_mem (MEM_STATS_INC_USED y h) = hp_mem h" "hp_lfree (MEM_STATS_INC_USED y h) = hp_lfree h"
  "hp_ram (MEM_STATS_INC_USED y h) = hp_ram h" "hp_data (MEM_STATS_INC_USED y h) = hp_data h"
  "hp_mem (MEM_STATS_DEC_USED y h) = hp_mem h" "hp_lfree (MEM_STATS_DEC_USED y h) = hp_lfree h"
  "hp_ram (MEM_STATS_DEC_USED y h) = hp_ram h" "hp_data (MEM_STATS_DEC_USED y h) = hp_data h"
  "st_used (MEM_STATS_INC_USED y h) = u16c (st_used h + y)"
  "st_used (MEM_STATS_DEC_USED y h) = u16c (st_used h + 65536 - u16c y)"
  by (simp_all add: MEM_STATS_INC_USED_def MEM_STATS_DEC_USED_def Let_def)

section \<open>The heap as a list of blocks\<close>

text \<open>A block is its length, header included, and whether it is in use.\<close>

type_synonym block = "nat \<times> bool"

definition tot :: "block list \<Rightarrow> nat" where "tot bs = sum_list (map fst bs)"

lemma tot_simps [simp]: "tot [] = 0" "tot (b # bs) = fst b + tot bs" "tot (xs @ ys) = tot xs + tot ys"
  by (simp_all add: tot_def)

text \<open>
  \<open>seg hm pv p bs\<close>: from index \<open>p\<close> on, whose predecessor is \<open>pv\<close>, the headers describe the blocks \<open>bs\<close>.
\<close>

fun seg :: "(nat \<Rightarrow> mem_hdr) \<Rightarrow> nat \<Rightarrow> nat \<Rightarrow> block list \<Rightarrow> bool" where
  "seg hm pv p [] \<longleftrightarrow> True"
| "seg hm pv p ((n, u) # bs) \<longleftrightarrow>
     mh_next (hm p) = p + n \<and> mh_prev (hm p) = pv \<and> mh_used (hm p) = (if u then 1 else 0) \<and>
     20 \<le> n \<and> n mod 4 = 0 \<and> seg hm p (p + n) bs"

fun lastp :: "nat \<Rightarrow> nat \<Rightarrow> block list \<Rightarrow> nat" where
  "lastp pv p [] = pv"
| "lastp pv p (b # bs) = lastp p (p + fst b) bs"

lemma lastp_snoc [simp]: "lastp pv p (xs @ [b]) = p + tot xs"
  by (induction xs arbitrary: pv p) auto

lemma seg_append: "seg hm pv p (xs @ ys) \<longleftrightarrow> seg hm pv p xs \<and> seg hm (lastp pv p xs) (p + tot xs) ys"
  by (induction hm pv p xs rule: seg.induct) (auto simp: add.assoc)

lemma seg_cong:
  "(\<And>q. p \<le> q \<Longrightarrow> q < p + tot bs \<Longrightarrow> hm' q = hm q) \<Longrightarrow> seg hm' pv p bs = seg hm pv p bs"
proof (induction hm pv p bs rule: seg.induct)
  case (2 hm pv p n u bs)
  show ?case
  proof (cases "20 \<le> n")
    case True
    then have "hm' p = hm p" using "2.prems" [of p] by simp
    moreover have "seg hm' p (p + n) bs = seg hm p (p + n) bs" using "2.prems" by (intro "2.IH") auto
    ultimately show ?thesis by simp
  qed simp
qed simp

lemma seg_set_prev:
  assumes "seg hm pv p ys" and "ys \<noteq> [] \<Longrightarrow> hm' p = (hm p)\<lparr>mh_prev := pv'\<rparr>"
    and "\<And>r. p < r \<Longrightarrow> r < p + tot ys \<Longrightarrow> hm' r = hm r"
  shows "seg hm' pv' p ys"
proof (cases ys)
  case (Cons b bs)
  obtain n u where b: "b = (n, u)" by (cases b)
  have "seg hm' p (p + n) bs = seg hm p (p + n) bs"
    using assms(1,3) Cons b by (intro seg_cong) auto
  then show ?thesis using assms(1,2) Cons b by simp
qed simp

text \<open>Replacing the blocks \<open>old\<close> by \<open>mid\<close> of the same total length.\<close>

lemma splice:
  assumes s: "seg hm 0 0 (xs @ old @ ys)" and t: "tot mid = tot old"
    and m: "seg hm' (lastp 0 0 xs) (tot xs) mid"
    and before: "\<And>q. q < tot xs \<Longrightarrow> hm' q = hm q"
    and nxt: "ys \<noteq> [] \<Longrightarrow> hm' (tot xs + tot old) = (hm (tot xs + tot old))\<lparr>mh_prev := lastp (lastp 0 0 xs) (tot xs) mid\<rparr>"
    and after: "\<And>q. tot xs + tot old < q \<Longrightarrow> q < tot xs + tot old + tot ys \<Longrightarrow> hm' q = hm q"
  shows "seg hm' 0 0 (xs @ mid @ ys)"
proof -
  have "seg hm 0 0 xs" "seg hm (lastp (lastp 0 0 xs) (tot xs) old) (tot xs + tot old) ys"
    using s by (auto simp: seg_append)
  moreover have "seg hm' 0 0 xs = seg hm 0 0 xs" using before by (intro seg_cong) auto
  moreover have "seg hm' (lastp (lastp 0 0 xs) (tot xs) mid) (tot xs + tot old) ys"
    by (rule seg_set_prev [OF calculation(2) nxt after])
  ultimately show ?thesis using m t by (simp add: seg_append)
qed

lemma seg_sizes: "seg hm pv p bs \<Longrightarrow> b \<in> set bs \<Longrightarrow> 20 \<le> fst b \<and> fst b mod 4 = 0"
  by (induction hm pv p bs rule: seg.induct) auto

lemma seg_tot_mod: "seg hm pv p bs \<Longrightarrow> tot bs mod 4 = 0"
  by (induction hm pv p bs rule: seg.induct) (auto simp: mod_add_eq [symmetric])

text \<open>The lowest free block.\<close>

definition lowest :: "block list \<Rightarrow> nat" where "lowest bs = tot (takeWhile snd bs)"

definition in_use :: "block list \<Rightarrow> nat" where "in_use bs = tot (filter snd bs)"

text \<open>
  The invariant: the headers describe \<open>bs\<close>, which fill the array; the header at its end is in use; no two
  free blocks are neighbours; the index of the lowest free block and the count of used bytes are right.
\<close>

definition heap_seg :: "heap \<Rightarrow> block list \<Rightarrow> bool" where
  "heap_seg h bs \<longleftrightarrow> hp_ram h mod 4 = 0 \<and> seg (hp_mem h) 0 0 bs \<and> tot bs = MEM_SIZE_ALIGNED \<and>
     mused h MEM_SIZE_ALIGNED = 1 \<and> mnext h MEM_SIZE_ALIGNED = MEM_SIZE_ALIGNED \<and>
     hp_lfree h = lowest bs \<and> st_used h = in_use bs"

definition no_adjacent :: "block list \<Rightarrow> bool" where
  "no_adjacent bs \<longleftrightarrow> successively (\<lambda>a b. snd a \<or> snd b) bs"

definition heap_inv :: "heap \<Rightarrow> block list \<Rightarrow> bool" where
  "heap_inv h bs \<longleftrightarrow> heap_seg h bs \<and> no_adjacent bs"

lemma lowest_append:
  "lowest (xs @ ys) = (if \<forall>b\<in>set xs. snd b then tot xs + lowest ys else lowest xs)"
  by (induction xs) (auto simp: lowest_def)

lemma lowest_simps [simp]: "lowest [] = 0" "lowest ((n, True) # bs) = n + lowest bs" "lowest ((n, False) # bs) = 0"
  by (simp_all add: lowest_def)

lemma lowest_le: "lowest bs \<le> tot bs"
  by (induction bs) (auto simp: lowest_def)

lemma lowest_less:
  "seg hm pv p xs \<Longrightarrow> \<exists>b\<in>set xs. \<not> snd b \<Longrightarrow> lowest xs < tot xs"
  by (induction hm pv p xs rule: seg.induct) (auto simp: lowest_def split: if_splits)

lemma in_use_simps [simp]: "in_use [] = 0" "in_use ((n, True) # bs) = n + in_use bs" "in_use ((n, False) # bs) = in_use bs"
    "in_use (xs @ ys) = in_use xs + in_use ys"
  by (simp_all add: in_use_def)

lemma in_use_le: "in_use bs \<le> tot bs"
  by (induction bs) (auto simp: in_use_def)

lemma seg_at: "seg hm 0 0 (xs @ (n, u) # ys) \<Longrightarrow>
    mh_next (hm (tot xs)) = tot xs + n \<and> mh_prev (hm (tot xs)) = lastp 0 0 xs \<and>
    mh_used (hm (tot xs)) = (if u then 1 else 0) \<and> 20 \<le> n \<and> n mod 4 = 0"
  by (simp add: seg_append)

lemma seg_next_prev:
  assumes "seg hm 0 0 (xs @ (n, u) # ys)" "ys \<noteq> []"
  shows "(hm (tot xs + n))\<lparr>mh_prev := tot xs\<rparr> = hm (tot xs + n)"
proof -
  obtain m v zs where "ys = (m, v) # zs" using assms(2) by (cases ys) auto
  then have "mh_prev (hm (tot xs + n)) = tot xs" using assms(1) by (simp add: seg_append)
  then show ?thesis by (metis mem_hdr.surjective mem_hdr.update_convs(2) mem_hdr.select_convs(2))
qed

lemma sub32_eq: "b \<le> a \<Longrightarrow> a - b < 2 ^ 32 \<Longrightarrow> sub32 a b = a - b"
  unfolding sub32_def by (metis Nat.add_diff_assoc2 mod_add_self2 mod_less)

lemma u16c_small [simp]: "n < 65536 \<Longrightarrow> u16c n = n"
  by (simp add: u16c_def)

lemma u16c_sub: "b \<le> a \<Longrightarrow> a < 65536 \<Longrightarrow> u16c (a + 65536 - b) = a - b"
  unfolding u16c_def by (metis Nat.add_diff_assoc2 le_trans less_imp_diff_less mod_add_self2 mod_less order_refl)

section \<open>Searching\<close>

definition fits :: "nat \<Rightarrow> block \<Rightarrow> bool" where
  "fits sz b \<longleftrightarrow> \<not> snd b \<and> sz + 8 \<le> fst b"

definition blk_fit :: "nat \<Rightarrow> block list \<Rightarrow> nat option" where
  "blk_fit sz bs =
     (if \<exists>b\<in>set bs. fits sz b then Some (tot (takeWhile (\<lambda>b. \<not> fits sz b) bs)) else None)"

lemma blk_fit_Cons:
  "blk_fit sz (b # bs) = (if fits sz b then Some 0 else map_option (\<lambda>i. fst b + i) (blk_fit sz bs))"
  by (simp add: blk_fit_def)

lemma tot_member: "b \<in> set bs \<Longrightarrow> fst b \<le> tot bs"
  by (induction bs) auto

lemma malloc_search_list:
  assumes "seg (hp_mem h) pv p ys" "p + tot ys = MEM_SIZE_ALIGNED"
  shows "malloc_search sz p h = Some (map_option (\<lambda>i. p + i) (blk_fit sz ys))"
  using assms
proof (induction ys arbitrary: pv p)
  case Nil
  then have "\<not> p < MEM_SIZE_ALIGNED - sz" by simp
  then show ?case by (subst malloc_search.simps) (simp add: blk_fit_def)
next
  case (Cons b ys)
  obtain n u where b: "b = (n, u)" by (cases b)
  have hd: "mnext h p = p + n" "mused h p = (if u then 1 else 0)" "20 \<le> n" "p + n \<le> MEM_SIZE_ALIGNED"
    using Cons.prems by (auto simp: b)
  show ?case
  proof (cases "p < MEM_SIZE_ALIGNED - sz")
    case True
    have "sub32 (mnext h p) (p + SIZEOF_STRUCT_MEM) = n - 8"
      using hd by (simp add: sub32_eq mem_consts)
    then have "malloc_search sz p h = (if fits sz b then Some (Some p) else malloc_search sz (p + n) h)"
      using True hd by (subst malloc_search.simps) (auto simp: fits_def b)
    then show ?thesis
      using Cons.IH [of p "p + n"] Cons.prems
      by (simp add: blk_fit_Cons b option.map_comp comp_def add.assoc)
  next
    case False
    have "\<not> fits sz c" if "c \<in> set (b # ys)" for c
      using tot_member [OF that] False Cons.prems(2) by (auto simp: fits_def)
    then have "blk_fit sz (b # ys) = None" by (auto simp: blk_fit_def)
    then show ?thesis using False by (subst malloc_search.simps) simp
  qed
qed

lemma blk_fit_skip:
  "blk_fit sz bs = map_option (\<lambda>i. lowest bs + i) (blk_fit sz (dropWhile snd bs))"
proof (induction bs)
  case (Cons b bs)
  show ?case
  proof (cases "snd b")
    case True
    then have "\<not> fits sz b" by (simp add: fits_def)
    then show ?thesis using True Cons by (simp add: blk_fit_Cons lowest_def option.map_comp comp_def add.assoc)
  next
    case False
    then show ?thesis by (simp add: lowest_def option.map_ident)
  qed
qed (simp add: blk_fit_def)

lemma search_blk_fit:
  assumes "heap_seg h bs"
  shows "malloc_search sz (hp_lfree h) h = Some (blk_fit sz bs)"
proof -
  let ?ps = "takeWhile snd bs" and ?ys = "dropWhile snd bs"
  have s: "seg (hp_mem h) 0 0 (?ps @ ?ys)" "tot (?ps @ ?ys) = MEM_SIZE_ALIGNED" "hp_lfree h = lowest bs"
    using assms by (simp_all only: takeWhile_dropWhile_id heap_seg_def)
  then have "seg (hp_mem h) (lastp 0 0 ?ps) (lowest bs) ?ys" "lowest bs + tot ?ys = MEM_SIZE_ALIGNED"
    by (simp_all only: seg_append tot_simps lowest_def add_0)
  then have "malloc_search sz (lowest bs) h = Some (map_option (\<lambda>i. lowest bs + i) (blk_fit sz ?ys))"
    by (rule malloc_search_list)
  then show ?thesis using s(3) by (simp flip: blk_fit_skip)
qed

lemma blk_fit_split:
  assumes "blk_fit sz bs = Some p"
  obtains xs n ys where "bs = xs @ (n, False) # ys" "p = tot xs" "sz + 8 \<le> n" "\<forall>b\<in>set xs. \<not> fits sz b"
proof -
  obtain b where b: "b \<in> set bs" "fits sz b" and p: "p = tot (takeWhile (\<lambda>b. \<not> fits sz b) bs)"
    using assms by (auto simp: blk_fit_def split: if_splits)
  have ne: "dropWhile (\<lambda>b. \<not> fits sz b) bs \<noteq> []" using b by (auto simp: dropWhile_eq_Nil_conv)
  then have f: "fits sz (hd (dropWhile (\<lambda>b. \<not> fits sz b) bs))" using hd_dropWhile by blast
  have none: "\<forall>b\<in>set (takeWhile (\<lambda>b. \<not> fits sz b) bs). \<not> fits sz b"
    by (auto dest: set_takeWhileD)
  obtain n u ys where d: "dropWhile (\<lambda>b. \<not> fits sz b) bs = (n, u) # ys"
    using ne by (metis list.exhaust surj_pair)
  then have "bs = takeWhile (\<lambda>b. \<not> fits sz b) bs @ (n, u) # ys" by (metis takeWhile_dropWhile_id)
  then show ?thesis using that [of "takeWhile (\<lambda>b. \<not> fits sz b) bs" n ys] f d p none by (auto simp: fits_def)
qed

lemma next_free_list:
  assumes "seg (hp_mem h) pv p ys" "p + tot ys = MEM_SIZE_ALIGNED"
  shows "next_free p h = Some (p + lowest ys)"
  using assms
proof (induction ys arbitrary: pv p)
  case Nil
  then show ?case by (subst next_free.simps) simp
next
  case (Cons b ys)
  obtain n u where b: "b = (n, u)" by (cases b)
  have hd: "mnext h p = p + n" "mused h p = (if u then 1 else 0)" "20 \<le> n" using Cons.prems by (auto simp: b)
  then have ne: "p \<noteq> MEM_SIZE_ALIGNED" using Cons.prems(2) b by auto
  show ?case
  proof (cases u)
    case True
    then have "next_free p h = next_free (p + n) h" using hd ne by (subst next_free.simps) simp
    then show ?thesis using Cons.IH [of p "p + n"] Cons.prems True by (simp add: b add.assoc)
  next
    case False
    then show ?thesis using hd by (subst next_free.simps) (simp add: b)
  qed
qed

section \<open>Allocation keeps the invariant\<close>

definition place :: "nat \<Rightarrow> nat \<Rightarrow> block list" where
  "place sz n = (if sz + 28 \<le> n then [(sz + 8, True), (n - (sz + 8), False)] else [(n, True)])"

lemma tot_place: "sz + 8 \<le> n \<Longrightarrow> tot (place sz n) = n"
  by (simp add: place_def)

text \<open>Everything a state consists of besides the headers, the free pointer and the statistics.\<close>

definition same_ram :: "heap \<Rightarrow> heap \<Rightarrow> bool" where
  "same_ram h h' \<longleftrightarrow> hp_ram h' = hp_ram h \<and> hp_data h' = hp_data h"

lemma heap_seg_bound: "heap_seg h (xs @ (n, u) # ys) \<Longrightarrow> tot xs + n + tot ys = 20480"
  by (simp add: heap_seg_def MEM_SIZE_ALIGNED_def add.assoc)

text \<open>What the code does to the headers when it divides the block at \<open>p\<close> at \<open>p2\<close>.\<close>

definition divide :: "nat \<Rightarrow> nat \<Rightarrow> nat \<Rightarrow> (nat \<Rightarrow> mem_hdr) \<Rightarrow> nat \<Rightarrow> mem_hdr" where
  "divide p p2 e hm =
     (let hm = hm(p2 := \<lparr>mh_next = e, mh_prev = p, mh_used = 0\<rparr>);
          hm = hm(p := (hm p)\<lparr>mh_next := p2, mh_used := 1\<rparr>)
      in if e \<noteq> MEM_SIZE_ALIGNED then hm(e := (hm e)\<lparr>mh_prev := p2\<rparr>) else hm)"

lemma seg_divide:
  assumes s: "seg hm 0 0 (xs @ old @ ys)" and tt: "tot xs + tot old + tot ys = MEM_SIZE_ALIGNED"
    and pv: "mh_prev (hm (tot xs)) = lastp 0 0 xs"
    and k: "20 \<le> k" "k mod 4 = 0" "20 \<le> tot old - k" "(tot old - k) mod 4 = 0"
  shows "seg (divide (tot xs) (tot xs + k) (tot xs + tot old) hm) 0 0 (xs @ [(k, True), (tot old - k, False)] @ ys)"
proof (rule splice [OF s])
  let ?p = "tot xs" and ?e = "tot xs + tot old"
  let ?hm = "divide ?p (?p + k) ?e hm"
  have ord: "?p < ?p + k" "?p + k < ?e" using k by auto
  show "tot [(k, True), (tot old - k, False)] = tot old" using ord by simp
  show "seg ?hm (lastp 0 0 xs) ?p [(k, True), (tot old - k, False)]"
    using ord k pv by (auto simp: divide_def Let_def)
  show "?hm q = hm q" if "q < ?p" for q using that ord by (auto simp: divide_def Let_def)
  show "?hm ?e = (hm ?e)\<lparr>mh_prev := lastp (lastp 0 0 xs) ?p [(k, True), (tot old - k, False)]\<rparr>" if "ys \<noteq> []"
  proof -
    have "seg hm (lastp (lastp 0 0 xs) ?p old) ?e ys" using s by (simp add: seg_append)
    moreover obtain n u zs where "ys = (n, u) # zs" using \<open>ys \<noteq> []\<close> by (cases ys) auto
    ultimately have "?e \<noteq> MEM_SIZE_ALIGNED" using tt by auto
    then show ?thesis using ord by (auto simp: divide_def Let_def)
  qed
  show "?hm q = hm q" if "?e < q" for q using that ord by (auto simp: divide_def Let_def)
qed

lemma divide_end: "p < p2 \<Longrightarrow> p2 < MEM_SIZE_ALIGNED \<Longrightarrow> divide p p2 e hm MEM_SIZE_ALIGNED = hm MEM_SIZE_ALIGNED"
  by (auto simp: divide_def Let_def)

lemma malloc_take_seg:
  assumes h: "heap_seg h (xs @ (n, False) # ys)" and sz: "sz + 8 \<le> n" "12 \<le> sz" "sz mod 4 = 0"
  shows "\<exists>h'. malloc_take sz (tot xs) h = Inr h' \<and> seg (hp_mem h') 0 0 (xs @ place sz n @ ys) \<and>
    hp_mem h' MEM_SIZE_ALIGNED = hp_mem h MEM_SIZE_ALIGNED \<and> hp_lfree h' = hp_lfree h \<and>
    st_used h' = in_use (xs @ place sz n @ ys) \<and> same_ram h h'"
proof -
  let ?p = "tot xs" and ?hm = "hp_mem h"
  have s: "seg ?hm 0 0 (xs @ [(n, False)] @ ys)" and S: "?p + n + tot ys = 20480"
    and us: "st_used h = in_use xs + in_use ys"
    using h heap_seg_bound [OF h] by (simp_all add: heap_seg_def)
  have iu: "in_use xs \<le> ?p" "in_use ys \<le> tot ys" by (rule in_use_le)+
  have at: "mnext h ?p = ?p + n" "mprev h ?p = lastp 0 0 xs" "mused h ?p = 0" "20 \<le> n" "n mod 4 = 0"
    using seg_at [of ?hm xs n False ys] s by auto
  have sub: "sub32 (mnext h ?p) (?p + SIZEOF_STRUCT_MEM) = n - 8"
    using at S by (simp add: sub32_eq mem_consts)
  show ?thesis
  proof (cases "sz + 28 \<le> n")
    case True
    let ?p2 = "?p + (sz + 8)"
    have p2: "u16c (?p + SIZEOF_STRUCT_MEM + sz) = ?p2" "?p2 \<noteq> MEM_SIZE_ALIGNED"
      using True S by (simp_all add: mem_consts)
    define h1 where "h1 = (let h = set_mprev ?p2 ?p (set_mnext ?p2 (mnext h ?p) (set_mused ?p2 0 h));
        h = set_mused ?p 1 (set_mnext ?p ?p2 h)
      in if mnext h ?p2 \<noteq> MEM_SIZE_ALIGNED then set_mprev (mnext h ?p2) ?p2 h else h)"
    have run: "malloc_take sz ?p h = Inr (MEM_STATS_INC_USED (sz + SIZEOF_STRUCT_MEM) h1)"
      using True p2 sub by (simp add: malloc_take_def h1_def mem_consts Let_def)
    have hm: "hp_mem h1 = divide ?p ?p2 (?p + n) ?hm"
      using True at(1) by (auto simp: h1_def divide_def Let_def fun_eq_iff)
    have m: "(sz + 8) mod 4 = 0" "(n - (sz + 8)) mod 4 = 0" using sz(3) at(5) by presburger+
    have "seg (hp_mem h1) 0 0 (xs @ place sz n @ ys)"
      using seg_divide [OF s, of "sz + 8"] S at(2) True sz(2) m by (simp add: hm place_def MEM_SIZE_ALIGNED_def)
    moreover have "hp_mem h1 MEM_SIZE_ALIGNED = ?hm MEM_SIZE_ALIGNED"
      unfolding hm using True S by (intro divide_end) (simp_all add: MEM_SIZE_ALIGNED_def)
    moreover have "hp_lfree h1 = hp_lfree h" "st_used h1 = st_used h" "same_ram h h1"
      by (simp_all add: h1_def same_ram_def Let_def)
    ultimately show ?thesis
      using run us iu S True by (auto simp: place_def same_ram_def SIZEOF_STRUCT_MEM_def)
  next
    case False
    define h1 where "h1 = set_mused ?p 1 h"
    have "\<not> sz + SIZEOF_STRUCT_MEM + MIN_SIZE_ALIGNED \<le> n - 8"
      using False by (simp add: mem_consts)
    then have run: "malloc_take sz ?p h = Inr (MEM_STATS_INC_USED (mnext h1 ?p + 65536 - u16c ?p) h1)"
      using sub by (simp add: malloc_take_def h1_def Let_def)
    have "seg (hp_mem h1) 0 0 (xs @ [(n, True)] @ ys)"
      by (rule splice [OF s]) (use at S seg_next_prev [of ?hm xs n False ys] s in \<open>auto simp: h1_def\<close>)
    moreover have "hp_mem h1 MEM_SIZE_ALIGNED = ?hm MEM_SIZE_ALIGNED"
      using at S by (simp add: h1_def MEM_SIZE_ALIGNED_def)
    moreover have "u16c (st_used h + (mnext h1 ?p + 65536 - u16c ?p)) = in_use xs + n + in_use ys"
    proof -
      have "st_used h + (mnext h1 ?p + 65536 - u16c ?p) = (in_use xs + n + in_use ys) + 65536"
        using at(1) us S by (simp add: h1_def)
      moreover have "(in_use xs + n + in_use ys + 65536) mod 65536 = in_use xs + n + in_use ys"
        using iu S by simp
      ultimately show ?thesis unfolding u16c_def by metis
    qed
    ultimately show ?thesis
      using run False by (auto simp: place_def same_ram_def h1_def)
  qed
qed

text \<open>The blocks after a successful allocation of \<open>sz\<close> bytes: the first that fits is divided or taken.\<close>

fun blk_alloc :: "nat \<Rightarrow> block list \<Rightarrow> block list" where
  "blk_alloc sz [] = []"
| "blk_alloc sz (b # bs) = (if fits sz b then place sz (fst b) @ bs else b # blk_alloc sz bs)"

lemma blk_alloc_split:
  "\<forall>b\<in>set xs. \<not> fits sz b \<Longrightarrow> sz + 8 \<le> n \<Longrightarrow> blk_alloc sz (xs @ (n, False) # ys) = xs @ place sz n @ ys"
  by (induction xs) (auto simp: fits_def)

lemma no_adjacent_place:
  "no_adjacent (xs @ (n, False) # ys) \<Longrightarrow> no_adjacent (xs @ place sz n @ ys)"
  by (auto simp: no_adjacent_def place_def successively_append_iff successively_Cons)

lemma lowest_place: "lowest (xs @ place sz n @ ys) = (if \<forall>b\<in>set xs. snd b then tot xs + lowest (place sz n @ ys) else lowest xs)"
  by (simp add: lowest_append)

lemma malloc_found_inv:
  assumes h: "heap_inv h (xs @ (n, False) # ys)" and sz: "sz + 8 \<le> n" "12 \<le> sz" "sz mod 4 = 0"
  shows "\<exists>h'. malloc_found sz (tot xs) h = Some (Inr (Some (hp_ram h + tot xs + 8), h')) \<and>
    heap_inv h' (xs @ place sz n @ ys) \<and> same_ram h h'"
proof -
  let ?bs = "xs @ place sz n @ ys"
  have hs: "heap_seg h (xs @ (n, False) # ys)" using h by (simp add: heap_inv_def)
  obtain h1 where h1: "malloc_take sz (tot xs) h = Inr h1" "seg (hp_mem h1) 0 0 ?bs"
    "hp_mem h1 MEM_SIZE_ALIGNED = hp_mem h MEM_SIZE_ALIGNED" "hp_lfree h1 = hp_lfree h"
    "st_used h1 = in_use ?bs" "same_ram h h1"
    using malloc_take_seg [OF hs sz] by blast
  have tt: "tot ?bs = MEM_SIZE_ALIGNED" using hs tot_place [OF sz(1)] by (simp add: heap_seg_def)
  have low: "hp_lfree h = (if \<forall>b\<in>set xs. snd b then tot xs else lowest xs)"
    using hs by (simp add: heap_seg_def lowest_append)
  have sx: "seg (hp_mem h) 0 0 xs" using hs by (simp add: heap_seg_def seg_append)
  have adj: "adjust_lfree (tot xs) h1 = Some (Inr (h1\<lparr>hp_lfree := lowest ?bs\<rparr>))"
  proof (cases "\<forall>b\<in>set xs. snd b")
    case True
    have tl: "seg (hp_mem h1) (lastp 0 0 xs) (tot xs) (place sz n @ ys)" using h1(2) by (simp add: seg_append)
    have nf: "next_free (tot xs) h1 = Some (tot xs + lowest (place sz n @ ys))"
      using next_free_list [OF tl] tt by simp
    then have lw: "lowest ?bs = tot xs + lowest (place sz n @ ys)" using True by (simp add: lowest_append)
    have "lowest ?bs = MEM_SIZE_ALIGNED \<or> mused h1 (lowest ?bs) = 0"
    proof (cases "dropWhile snd ?bs")
      case Nil
      then have "takeWhile snd ?bs = ?bs" by (metis append_Nil2 takeWhile_dropWhile_id)
      then show ?thesis unfolding lowest_def using tt by (simp only: simp_thms)
    next
      case (Cons b bs)
      then have "\<not> snd b" by (metis hd_dropWhile list.distinct(1) list.sel(1))
      moreover have "?bs = takeWhile snd ?bs @ b # bs" using Cons by (metis takeWhile_dropWhile_id)
      moreover obtain m u where "b = (m, u)" by (cases b)
      ultimately show ?thesis
        using seg_at [of "hp_mem h1" "takeWhile snd ?bs" m u bs] h1(2) by (simp add: lowest_def)
    qed
    then show ?thesis using low True h1(4) nf lw by (auto simp: adjust_lfree_def Let_def)
  next
    case False
    then have "lowest xs < tot xs" using lowest_less [OF sx] by blast
    then show ?thesis using low False h1(4) by (auto simp: adjust_lfree_def lowest_append)
  qed
  let ?h = "h1\<lparr>hp_lfree := lowest ?bs\<rparr>"
  have inv: "heap_inv ?h ?bs"
    using h1 hs tt no_adjacent_place h by (simp add: heap_inv_def heap_seg_def same_ram_def)
  have S: "tot xs + n + tot ys = 20480" by (rule heap_seg_bound [OF hs])
  have al: "hp_ram h1 mod 4 = 0" "tot xs mod 4 = 0" "hp_ram h1 = hp_ram h"
    using hs h1(6) seg_tot_mod [OF sx] by (simp_all add: heap_seg_def same_ram_def)
  then have al2: "(hp_ram h1 + tot xs + 8) mod 4 = 0" "(hp_ram h1 + tot xs) mod 4 = 0" by presburger+
  have "malloc_found sz (tot xs) h = Some (Inr (Some (hp_ram h + tot xs + 8), ?h))"
    using h1(1) adj al2 al(3) S sz(1) by (simp add: malloc_found_def mem_consts MEM_ALIGNMENT_def)
  then show ?thesis using inv h1(6) by (auto simp: same_ram_def)
qed

text \<open>The size that is looked for, and what does not count as one.\<close>

definition request :: "nat \<Rightarrow> nat" where
  "request size_in = max 12 (LWIP_MEM_ALIGN size_in)"

lemma request_props:
  "request n mod 4 = 0" "12 \<le> request n" "n \<le> request n" "n \<le> 20480 \<Longrightarrow> request n \<le> 20480" "request n \<le> max 12 (n + 3)"
  by (auto simp: request_def LWIP_MEM_ALIGN_def MEM_ALIGNMENT_def max_def)

lemma mem_malloc_request:
  assumes "size_in < 65536"
  shows "mem_malloc size_in h =
    (if size_in = 0 \<or> 20480 < size_in then Some (Inr (None, h))
     else (case malloc_search (request size_in) (hp_lfree h) h of
             None \<Rightarrow> None
           | Some None \<Rightarrow> Some (Inr (None, h\<lparr>st_err := u16c (st_err h + 1)\<rparr>))
           | Some (Some mem) \<Rightarrow> malloc_found (request size_in) mem h))"
proof (cases "size_in \<le> 65532")
  case True
  have a: "LWIP_MEM_ALIGN size_in \<le> size_in + 3" "size_in \<le> LWIP_MEM_ALIGN size_in"
    by (simp_all add: LWIP_MEM_ALIGN_def MEM_ALIGNMENT_def)
  have "LWIP_MEM_ALIGN size_in mod 4 = 0" by (simp add: LWIP_MEM_ALIGN_def MEM_ALIGNMENT_def)
  then have "LWIP_MEM_ALIGN size_in < 65536" using a True by presburger
  then have r: "(if u16c (LWIP_MEM_ALIGN size_in) < MIN_SIZE_ALIGNED then MIN_SIZE_ALIGNED
      else u16c (LWIP_MEM_ALIGN size_in)) = request size_in"
    by (simp add: request_def mem_consts max_def)
  have "MEM_SIZE_ALIGNED < request size_in \<or> request size_in < size_in \<longleftrightarrow> 20480 < size_in"
    using request_props [of size_in] by (auto simp: mem_consts)
  then show ?thesis unfolding mem_malloc_def Let_def r by simp
next
  case False
  then have "LWIP_MEM_ALIGN size_in = 65536"
    using assms unfolding LWIP_MEM_ALIGN_def MEM_ALIGNMENT_def by presburger
  then have "u16c (LWIP_MEM_ALIGN size_in) = 0" by (simp add: u16c_def)
  then show ?thesis using False by (simp add: mem_malloc_def mem_consts)
qed

lemma mem_malloc_inv:
  assumes h: "heap_inv h bs" and sz: "size_in < 65536"
  shows "case (if size_in = 0 \<or> 20480 < size_in then None else blk_fit (request size_in) bs) of
     None \<Rightarrow> \<exists>h'. mem_malloc size_in h = Some (Inr (None, h')) \<and> heap_inv h' bs \<and> same_ram h h'
   | Some p \<Rightarrow> \<exists>h'. mem_malloc size_in h = Some (Inr (Some (hp_ram h + p + 8), h')) \<and>
       heap_inv h' (blk_alloc (request size_in) bs) \<and> same_ram h h'"
proof (cases "size_in = 0 \<or> 20480 < size_in")
  case True
  then show ?thesis using mem_malloc_request [OF sz, of h] h by (auto simp: same_ram_def)
next
  case False
  have s: "malloc_search (request size_in) (hp_lfree h) h = Some (blk_fit (request size_in) bs)"
    using search_blk_fit h by (simp add: heap_inv_def)
  have m: "mem_malloc size_in h =
      (case blk_fit (request size_in) bs of
         None \<Rightarrow> Some (Inr (None, h\<lparr>st_err := u16c (st_err h + 1)\<rparr>))
       | Some mem \<Rightarrow> malloc_found (request size_in) mem h)"
    using mem_malloc_request [OF sz, of h] False s by (auto split: option.split)
  show ?thesis
  proof (cases "blk_fit (request size_in) bs")
    case None
    then show ?thesis using False m h by (auto simp: heap_inv_def heap_seg_def same_ram_def)
  next
    case (Some p)
    obtain xs n ys where b: "bs = xs @ (n, False) # ys" "p = tot xs" "request size_in + 8 \<le> n"
      "\<forall>b\<in>set xs. \<not> fits (request size_in) b"
      by (rule blk_fit_split [OF Some])
    obtain h' where "malloc_found (request size_in) (tot xs) h = Some (Inr (Some (hp_ram h + tot xs + 8), h'))"
      "heap_inv h' (xs @ place (request size_in) n @ ys)" "same_ram h h'"
      using malloc_found_inv [OF h [unfolded b(1)] b(3) request_props(2,1)] by blast
    then show ?thesis using m Some False b by (simp add: blk_alloc_split)
  qed
qed

section \<open>Release keeps the invariant\<close>

fun forward :: "nat \<Rightarrow> block list \<Rightarrow> block list" where
  "forward n ((m, False) # zs) = (n + m, False) # zs"
| "forward n ys = (n, False) # ys"

definition backward :: "block list \<Rightarrow> block list \<Rightarrow> block list" where
  "backward xs bs = (if xs \<noteq> [] \<and> \<not> snd (last xs)
     then butlast xs @ (fst (last xs) + fst (hd bs), False) # tl bs else xs @ bs)"

text \<open>The blocks after the release of a block of length \<open>n\<close> between \<open>xs\<close> and \<open>ys\<close>.\<close>

definition blk_free :: "block list \<Rightarrow> nat \<Rightarrow> block list \<Rightarrow> block list" where
  "blk_free xs n ys = backward xs (forward n ys)"

lemma forward_cases:
  obtains m zs where "ys = (m, False) # zs" "forward n ys = (n + m, False) # zs"
  | "ys = [] \<or> snd (hd ys)" "forward n ys = (n, False) # ys"
  by (cases "(n, ys)" rule: forward.cases) auto

lemma seg_ne_end:
  "heap_seg h (xs @ (n, u) # ys) \<Longrightarrow> ys \<noteq> [] \<Longrightarrow> tot xs + n < MEM_SIZE_ALIGNED"
  by (cases ys) (auto simp: heap_seg_def seg_append)

lemma mark_free:
  assumes h: "heap_seg h (xs @ (n, True) # ys)"
  defines "p \<equiv> tot xs"
  defines "h1 \<equiv> (let h = set_mused p 0 h; h = (if p < hp_lfree h then h\<lparr>hp_lfree := p\<rparr> else h)
      in MEM_STATS_DEC_USED (mnext h p + 65536 - u16c p) h)"
  shows "heap_seg h1 (xs @ (n, False) # ys)" "same_ram h h1" "mused h1 p = 0" "mnext h1 p = p + n"
proof -
  have s: "seg (hp_mem h) 0 0 (xs @ [(n, True)] @ ys)" and us: "st_used h = in_use xs + n + in_use ys"
    and low: "hp_lfree h = lowest (xs @ (n, True) # ys)" using h by (simp_all add: heap_seg_def)
  have S: "p + n + tot ys = 20480" using heap_seg_bound [OF h] by (simp add: p_def)
  have at: "mnext h p = p + n" "mprev h p = lastp 0 0 xs" "20 \<le> n" "n mod 4 = 0"
    using seg_at [of "hp_mem h" xs n True ys] s by (auto simp: p_def)
  have pS: "p < 20480" "MEM_SIZE_ALIGNED = 20480" using S at(3) by (simp_all add: MEM_SIZE_ALIGNED_def)
  have hm: "hp_mem h1 = (hp_mem h)(p := (hp_mem h p)\<lparr>mh_used := 0\<rparr>)" by (simp add: h1_def Let_def)
  have "seg (hp_mem h1) 0 0 (xs @ [(n, False)] @ ys)"
    by (rule splice [OF s]) (use at seg_next_prev [of "hp_mem h" xs n True ys] s in \<open>auto simp: hm p_def\<close>)
  moreover have "mnext h p + 65536 - u16c p = n + 65536" using at(1) pS by simp
  then have "u16c (mnext h p + 65536 - u16c p) = n" using S by (simp add: u16c_def)
  then have "st_used h1 = in_use xs + in_use ys"
    using us S in_use_le [of xs] in_use_le [of ys] p_def
    by (simp add: h1_def Let_def u16c_sub)
  moreover have "hp_lfree h1 = lowest (xs @ (n, False) # ys)"
  proof -
    have sx: "seg (hp_mem h) 0 0 xs" using s by (simp add: seg_append)
    have "hp_lfree h1 = (if p < hp_lfree h then p else hp_lfree h)" by (simp add: h1_def Let_def)
    then show ?thesis using low lowest_less [OF sx] at(3)
      by (cases "\<forall>b\<in>set xs. snd b") (auto simp: lowest_append p_def dest: less_asym)
  qed
  moreover have "hp_ram h1 = hp_ram h" by (simp add: h1_def Let_def)
  ultimately show "heap_seg h1 (xs @ (n, False) # ys)"
    using h pS by (simp add: heap_seg_def hm)
  show "same_ram h h1" by (simp add: same_ram_def h1_def Let_def)
  show "mused h1 p = 0" "mnext h1 p = p + n" using at(1) by (simp_all add: hm)
qed

lemma merge_seg:
  assumes s: "seg hm 0 0 (xs @ [(n, False), (m, False)] @ zs)" and tt: "tot xs + n + m + tot zs = MEM_SIZE_ALIGNED"
    and hm': "hm' = (let hm = hm(tot xs := (hm (tot xs))\<lparr>mh_next := tot xs + n + m\<rparr>)
      in if tot xs + n + m \<noteq> MEM_SIZE_ALIGNED
         then hm(tot xs + n + m := (hm (tot xs + n + m))\<lparr>mh_prev := tot xs\<rparr>) else hm)"
  shows "seg hm' 0 0 (xs @ [(n + m, False)] @ zs)"
proof (rule splice [OF s])
  have at: "mh_prev (hm (tot xs)) = lastp 0 0 xs" "mh_used (hm (tot xs)) = 0" "20 \<le> n" "n mod 4 = 0" "20 \<le> m" "m mod 4 = 0"
    using s by (auto simp: seg_append)
  then have "(n + m) mod 4 = 0" by presburger
  then show "seg hm' (lastp 0 0 xs) (tot xs) [(n + m, False)]" using at by (auto simp: hm' Let_def)
  show "hm' q = hm q" if "q < tot xs" for q using that by (auto simp: hm' Let_def)
  show "hm' (tot xs + tot [(n, False), (m, False)]) =
      (hm (tot xs + tot [(n, False), (m, False)]))\<lparr>mh_prev := lastp (lastp 0 0 xs) (tot xs) [(n + m, False)]\<rparr>" if "zs \<noteq> []"
  proof -
    obtain k u ws where "zs = (k, u) # ws" using \<open>zs \<noteq> []\<close> by (cases zs) auto
    then have "tot xs + n + m \<noteq> MEM_SIZE_ALIGNED" using tt s by (auto simp: seg_append)
    then show ?thesis using at by (simp add: hm' Let_def add.assoc)
  qed
  show "hm' q = hm q" if "tot xs + tot [(n, False), (m, False)] < q" for q
    using that by (auto simp: hm' Let_def)
qed simp

lemma plug_forward_seg:
  assumes h: "heap_seg h (xs @ (n, False) # ys)"
  shows "heap_seg (plug_forward (tot xs) h) (xs @ forward n ys) \<and> same_ram h (plug_forward (tot xs) h)"
proof -
  let ?p = "tot xs"
  have S: "?p + n + tot ys = MEM_SIZE_ALIGNED" using heap_seg_bound [OF h] by (simp add: MEM_SIZE_ALIGNED_def)
  have s: "seg (hp_mem h) 0 0 (xs @ (n, False) # ys)" using h by (simp add: heap_seg_def)
  have at: "mnext h ?p = ?p + n" "20 \<le> n" using seg_at [OF s] by auto
  have lf: "hp_lfree h \<noteq> ?p + n"
    using h at(2) lowest_le [of xs] by (auto simp: heap_seg_def lowest_append)
  show ?thesis
  proof (cases rule: forward_cases [of ys n])
    case (1 m zs)
    have u: "mused h (?p + n) = 0" "mnext h (?p + n) = ?p + n + m" "20 \<le> m"
      using s 1(1) by (auto simp: seg_append)
    have ne: "?p + n \<noteq> MEM_SIZE_ALIGNED" using S 1(1) u(3) by auto
    have pu: "u16c ?p = ?p" using S by (simp add: MEM_SIZE_ALIGNED_def)
    have lf': "hp_lfree (plug_forward ?p h) = hp_lfree h" "same_ram h (plug_forward ?p h)" "st_used (plug_forward ?p h) = st_used h"
      using lf at(1) by (simp_all add: plug_forward_def Let_def same_ram_def)
    have hm: "hp_mem (plug_forward ?p h) = (let hm = (hp_mem h)(?p := (hp_mem h ?p)\<lparr>mh_next := ?p + n + m\<rparr>)
      in if ?p + n + m \<noteq> MEM_SIZE_ALIGNED
         then hm(?p + n + m := (hm (?p + n + m))\<lparr>mh_prev := ?p\<rparr>) else hm)"
      using at u ne lf pu by (simp add: plug_forward_def Let_def)
    have "seg (hp_mem (plug_forward ?p h)) 0 0 (xs @ [(n + m, False)] @ zs)"
      by (rule merge_seg [OF _ _ hm]) (use s 1(1) S in auto)
    moreover have "hp_mem (plug_forward ?p h) MEM_SIZE_ALIGNED = hp_mem h MEM_SIZE_ALIGNED"
      using S at(2) by (auto simp: hm Let_def)
    ultimately show ?thesis
      using h lf' 1 S by (simp add: heap_seg_def same_ram_def lowest_append add.assoc)
  next
    case 2
    have "mused h (?p + n) \<noteq> 0"
    proof (cases ys)
      case Nil
      then show ?thesis using S h by (simp add: heap_seg_def)
    next
      case (Cons b zs)
      then show ?thesis using 2(1) s by (cases b) (simp add: seg_append)
    qed
    then have "plug_forward ?p h = h" using at(1) by (simp add: plug_forward_def)
    then show ?thesis using h 2 by (simp add: same_ram_def)
  qed
qed

lemma plug_backward_seg:
  assumes h: "heap_seg h (xs @ (n, False) # ys)"
  shows "heap_seg (plug_backward (tot xs) h) (backward xs ((n, False) # ys)) \<and> same_ram h (plug_backward (tot xs) h)"
proof -
  let ?p = "tot xs"
  have S: "?p + n + tot ys = MEM_SIZE_ALIGNED" using heap_seg_bound [OF h] by (simp add: MEM_SIZE_ALIGNED_def)
  have s: "seg (hp_mem h) 0 0 (xs @ (n, False) # ys)" using h by (simp add: heap_seg_def)
  have at: "mnext h ?p = ?p + n" "mprev h ?p = lastp 0 0 xs" "20 \<le> n" using seg_at [OF s] by auto
  show ?thesis
  proof (cases xs rule: rev_cases)
    case Nil
    then have "plug_backward ?p h = h" using at by (simp add: plug_backward_def)
    then show ?thesis using h Nil by (simp add: same_ram_def backward_def)
  next
    case (snoc ws b)
    obtain k u where b: "b = (k, u)" by (cases b)
    have pm: "mprev h ?p = tot ws" "mused h (tot ws) = (if u then 1 else 0)" "20 \<le> k" "tot ws \<noteq> ?p" "?p = tot ws + k"
      using at(2) s snoc b by (auto simp: seg_append)
    show ?thesis
    proof (cases u)
      case True
      then have "plug_backward ?p h = h" using pm by (simp add: plug_backward_def)
      then show ?thesis using h snoc b True by (simp add: same_ram_def backward_def)
    next
      case False
      have lf: "hp_lfree h \<noteq> ?p"
        using h snoc b False pm(3) lowest_le [of ws] by (auto simp: heap_seg_def lowest_append)
      have pu: "u16c (tot ws) = tot ws" using S pm(5) by (simp add: MEM_SIZE_ALIGNED_def)
      have lf': "hp_lfree (plug_backward ?p h) = hp_lfree h" "same_ram h (plug_backward ?p h)"
          "st_used (plug_backward ?p h) = st_used h"
        using lf pm by (simp_all add: plug_backward_def Let_def same_ram_def)
      have hm: "hp_mem (plug_backward ?p h) = (let hm = (hp_mem h)(tot ws := (hp_mem h (tot ws))\<lparr>mh_next := tot ws + k + n\<rparr>)
        in if tot ws + k + n \<noteq> MEM_SIZE_ALIGNED
           then hm(tot ws + k + n := (hm (tot ws + k + n))\<lparr>mh_prev := tot ws\<rparr>) else hm)"
        using at pm lf pu False by (simp add: plug_backward_def Let_def)
      have "seg (hp_mem (plug_backward ?p h)) 0 0 (ws @ [(k + n, False)] @ ys)"
        by (rule merge_seg [OF _ _ hm]) (use s S snoc b False pm(5) in auto)
      moreover have "hp_mem (plug_backward ?p h) MEM_SIZE_ALIGNED = hp_mem h MEM_SIZE_ALIGNED"
        unfolding hm using S at(3) pm(3,5) by (auto simp: Let_def)
      moreover have "backward xs ((n, False) # ys) = ws @ (k + n, False) # ys"
        using snoc b False by (simp add: backward_def)
      ultimately show ?thesis
        using h lf' snoc b False S pm(5) by (simp add: heap_seg_def same_ram_def lowest_append)
    qed
  qed
qed

lemma no_adjacent_free:
  assumes "no_adjacent (xs @ (n, True) # ys)"
  shows "no_adjacent (blk_free xs n ys)"
proof -
  obtain k zs where f: "forward n ys = (k, False) # zs" and z: "zs = [] \<or> snd (hd zs)"
    and nz: "no_adjacent zs"
    using assms by (cases rule: forward_cases [of ys n])
      (auto simp: no_adjacent_def successively_append_iff successively_Cons)
  show ?thesis
  proof (cases xs rule: rev_cases)
    case Nil
    then show ?thesis using f z nz by (simp add: blk_free_def backward_def no_adjacent_def successively_Cons)
  next
    case (snoc ws b)
    have ws: "no_adjacent (ws @ [b])" using assms snoc by (auto simp: no_adjacent_def successively_append_iff)
    show ?thesis
      using ws f z nz snoc
      by (cases "snd b") (auto simp: blk_free_def backward_def no_adjacent_def successively_append_iff successively_Cons)
  qed
qed

lemma link_valid:
  assumes h: "heap_seg h (xs @ (n, u) # ys)"
  shows "mem_link_valid (tot xs) h"
proof -
  let ?p = "tot xs"
  have s: "seg (hp_mem h) 0 0 (xs @ (n, u) # ys)" and S: "?p + n + tot ys = MEM_SIZE_ALIGNED"
    using h heap_seg_bound [OF h] by (simp_all add: heap_seg_def MEM_SIZE_ALIGNED_def)
  have at: "mnext h ?p = ?p + n" "mprev h ?p = lastp 0 0 xs" using seg_at [OF s] by auto
  have pv: "lastp 0 0 xs = ?p \<or> lastp 0 0 xs \<le> ?p \<and> mnext h (lastp 0 0 xs) = ?p"
  proof (cases xs rule: rev_cases)
    case (snoc ws b)
    then show ?thesis using s by (cases b) (auto simp: seg_append)
  qed simp
  have nx: "?p + n \<noteq> MEM_SIZE_ALIGNED \<Longrightarrow> mprev h (?p + n) = ?p"
  proof -
    assume "?p + n \<noteq> MEM_SIZE_ALIGNED"
    then obtain m v zs where "ys = (m, v) # zs" using S by (cases ys) auto
    then show ?thesis using s by (simp add: seg_append)
  qed
  show ?thesis unfolding mem_link_valid_def at using pv nx S by auto
qed

lemma mem_free_inv:
  assumes h: "heap_inv h (xs @ (n, True) # ys)"
  shows "\<exists>h'. mem_free (Some (hp_ram h + tot xs + 8)) h = Inr h' \<and> heap_inv h' (blk_free xs n ys) \<and> same_ram h h'"
proof -
  let ?p = "tot xs" and ?r = "hp_ram h + tot xs + 8"
  have hs: "heap_seg h (xs @ (n, True) # ys)" using h by (simp add: heap_inv_def)
  have S: "?p + n + tot ys = 20480" by (rule heap_seg_bound [OF hs])
  have s: "seg (hp_mem h) 0 0 (xs @ (n, True) # ys)" and ra: "hp_ram h mod 4 = 0" using hs by (simp_all add: heap_seg_def)
  have at: "mused h ?p = 1" "20 \<le> n" using seg_at [OF s] by auto
  have "?p mod 4 = 0" using s seg_tot_mod by (auto simp: seg_append)
  then have al: "?r mod MEM_ALIGNMENT = 0" using ra unfolding MEM_ALIGNMENT_def by presburger
  define h1 where "h1 = (let h = set_mused ?p 0 h; h = (if ?p < hp_lfree h then h\<lparr>hp_lfree := ?p\<rparr> else h)
      in MEM_STATS_DEC_USED (mnext h ?p + 65536 - u16c ?p) h)"
  note m = mark_free [OF hs, folded h1_def]
  have run: "mem_free (Some ?r) h = plug_holes ?p h1"
    using al S at link_valid [OF hs] by (simp add: mem_free_def mem_consts h1_def Let_def)
  have plug: "plug_holes ?p h1 = Inr (plug_backward ?p (plug_forward ?p h1))"
    using m(3,4) S at(2) by (simp add: plug_holes_def MEM_SIZE_ALIGNED_def)
  have f: "heap_seg (plug_forward ?p h1) (xs @ forward n ys)" "same_ram h1 (plug_forward ?p h1)"
    using plug_forward_seg [OF m(1)] by auto
  obtain k zs where fw: "forward n ys = (k, False) # zs" by (cases rule: forward_cases [of ys n]) auto
  have "heap_seg (plug_backward ?p (plug_forward ?p h1)) (blk_free xs n ys)"
      "same_ram (plug_forward ?p h1) (plug_backward ?p (plug_forward ?p h1))"
    using plug_backward_seg [OF f(1) [unfolded fw]] by (simp_all add: blk_free_def fw)
  moreover have "no_adjacent (blk_free xs n ys)" using h no_adjacent_free by (simp add: heap_inv_def)
  ultimately show ?thesis using run plug m(2) f(2) by (simp add: heap_inv_def same_ram_def)
qed

section \<open>Shrinking keeps the invariant\<close>

text \<open>The block of length \<open>n\<close> between \<open>xs\<close> and \<open>ys\<close> cut to the length \<open>t\<close>.\<close>

definition blk_trim :: "block list \<Rightarrow> nat \<Rightarrow> nat \<Rightarrow> block list \<Rightarrow> block list" where
  "blk_trim xs n t ys =
     (if t = n then xs @ (n, True) # ys
      else if ys \<noteq> [] \<and> \<not> snd (hd ys) then xs @ (t, True) # (fst (hd ys) + (n - t), False) # tl ys
      else if t + 20 \<le> n then xs @ (t, True) # (n - t, False) # ys
      else xs @ (n, True) # ys)"

lemma used_1: "mh_used r = 1 \<Longrightarrow> r\<lparr>mh_used := 1\<rparr> = r"
  by (metis mem_hdr.surjective mem_hdr.update_convs(3) mem_hdr.select_convs(3))

lemma lowest_divide:
  assumes "seg hm 0 0 xs" "0 < t"
  shows "lowest (xs @ (t, True) # (k, False) # ys) = (if \<forall>b\<in>set xs. snd b then tot xs + t else lowest xs)"
  using assms by (simp add: lowest_append)

text \<open>The step both branches share: a new free header at \<open>p2\<close>, linked between the block and \<open>e\<close>.\<close>

lemma trim_divide:
  assumes h: "heap_inv h (xs @ (n, True) # ys)" and t: "20 \<le> t" "t mod 4 = 0" "t < n"
    and old: "(n, True) # ys = old @ zs" "20 \<le> tot old - t" "in_use old = n"
    and zs: "zs = [] \<or> snd (hd zs)"
    and h1: "hp_mem h1 = divide (tot xs) (tot xs + t) (tot xs + tot old) (hp_mem h)"
      "hp_lfree h1 = lowest (xs @ (t, True) # (tot old - t, False) # zs)" "same_ram h h1"
      "st_used h1 = st_used h"
  shows "heap_inv (MEM_STATS_DEC_USED (n - t) h1) (xs @ (t, True) # (tot old - t, False) # zs)"
proof -
  have hs: "heap_seg h (xs @ (n, True) # ys)" and na: "no_adjacent (xs @ (n, True) # ys)"
    using h by (simp_all add: heap_inv_def)
  have S: "tot xs + n + tot ys = 20480" by (rule heap_seg_bound [OF hs])
  have ts: "n + tot ys = tot old + tot zs" using arg_cong [OF old(1), of tot] by simp
  have s: "seg (hp_mem h) 0 0 (xs @ old @ zs)" using hs old(1) by (simp add: heap_seg_def)
  have pv: "mprev h (tot xs) = lastp 0 0 xs" using hs seg_at [of "hp_mem h" xs n True ys] by (simp add: heap_seg_def)
  have "tot old mod 4 = 0" using s seg_tot_mod by (auto simp: seg_append)
  then have m: "(tot old - t) mod 4 = 0" using t(2) old(2) by presburger
  have "seg (hp_mem h1) 0 0 (xs @ [(t, True), (tot old - t, False)] @ zs)"
    unfolding h1(1) using S ts by (intro seg_divide [OF s _ pv t(1,2) old(2) m]) (simp add: MEM_SIZE_ALIGNED_def)
  moreover have "hp_mem h1 MEM_SIZE_ALIGNED = hp_mem h MEM_SIZE_ALIGNED"
    unfolding h1(1) using S t by (intro divide_end) (simp_all add: MEM_SIZE_ALIGNED_def)
  moreover have "u16c (st_used h1 + 65536 - u16c (n - t)) = in_use xs + t + in_use zs"
  proof -
    have "in_use ((n, True) # ys) = in_use (old @ zs)" using old(1) by simp
    then have u: "st_used h1 = in_use xs + n + in_use zs"
      using hs h1(4) old(3) by (simp add: heap_seg_def)
    have "in_use xs \<le> tot xs" "in_use zs \<le> tot zs" by (rule in_use_le)+
    then have "st_used h1 < 65536" using u S ts old(2) t(3) in_use_le [of old] old(3) by linarith
    moreover have "u16c (n - t) = n - t" using S by (intro u16c_small) simp
    ultimately have "u16c (st_used h1 + 65536 - u16c (n - t)) = st_used h1 - (n - t)"
      using u t(3) by (simp only:) (rule u16c_sub, simp_all)
    then show ?thesis using u t(3) by simp
  qed
  moreover have "tot (xs @ (t, True) # (tot old - t, False) # zs) = MEM_SIZE_ALIGNED"
    using S ts old(2) by (simp add: MEM_SIZE_ALIGNED_def)
  moreover have "no_adjacent (xs @ (t, True) # (tot old - t, False) # zs)"
  proof -
    have "no_adjacent (old @ zs)" "no_adjacent xs"
      using na old(1) by (auto simp: no_adjacent_def successively_append_iff)
    then show ?thesis using zs by (auto simp: no_adjacent_def successively_append_iff successively_Cons)
  qed
  ultimately show ?thesis
    using hs h1(2,3) by (simp add: heap_inv_def heap_seg_def same_ram_def)
qed

lemma mem_trim_eqn:
  assumes "new_size < 65536" "heap_seg h (xs @ (n, True) # ys)"
  defines "p \<equiv> tot xs" and "newsize \<equiv> request new_size"
  shows "mem_trim (hp_ram h + p + 8) new_size h =
    (if 20480 < new_size then Inr (None, h)
     else if n < newsize + 8 then Inl AssertFailed
     else if newsize + 8 = n then Inr (Some (hp_ram h + p + 8), h)
     else if mused h (p + n) = 0 then
       (let p2 = p + (newsize + 8);
            h' = (if hp_lfree h = p + n then h\<lparr>hp_lfree := p2\<rparr> else h);
            h' = trim_cut p p p2 (mnext h (p + n)) h'
        in if p + n = MEM_SIZE_ALIGNED then Inl AssertFailed
           else Inr (Some (hp_ram h + p + 8), MEM_STATS_DEC_USED (n - (newsize + 8)) h'))
     else if newsize + 28 \<le> n then
       (let p2 = p + (newsize + 8);
            h' = (if p2 < hp_lfree h then h\<lparr>hp_lfree := p2\<rparr> else h);
            h' = trim_cut p p p2 (p + n) h'
        in if p + n = MEM_SIZE_ALIGNED then Inl AssertFailed
           else Inr (Some (hp_ram h + p + 8), MEM_STATS_DEC_USED (n - (newsize + 8)) h'))
     else Inr (Some (hp_ram h + p + 8), h))"
proof -
  have S: "p + n + tot ys = 20480" using heap_seg_bound [OF assms(2)] by (simp add: p_def)
  have s: "seg (hp_mem h) 0 0 (xs @ (n, True) # ys)" using assms(2) by (simp add: heap_seg_def)
  have at: "mnext h p = p + n" "20 \<le> n" using seg_at [OF s] by (auto simp: p_def)
  have pu: "u16c p = p" using S at by simp
  have sz: "u16c (u16c (mnext h p + 65536 - p) + 65536 - SIZEOF_STRUCT_MEM) = n - 8"
  proof -
    have "u16c (mnext h p + 65536 - p) = mnext h p - p" using S at by (intro u16c_sub) simp_all
    then have i: "u16c (mnext h p + 65536 - p) = n" using at by simp
    show ?thesis unfolding i SIZEOF_STRUCT_MEM_def using S at by (intro u16c_sub) simp_all
  qed
  have sz': "u16c (u16c (p + n + 65536 - p) + 65536 - SIZEOF_STRUCT_MEM) = n - 8"
    using sz at(1) by simp
  show ?thesis
  proof (cases "new_size \<le> 20480")
    case False
    have "LWIP_MEM_ALIGN new_size = 65536 \<or> new_size \<le> LWIP_MEM_ALIGN new_size \<and> LWIP_MEM_ALIGN new_size < 65536"
      using assms(1) unfolding LWIP_MEM_ALIGN_def MEM_ALIGNMENT_def by presburger
    then have "MEM_SIZE_ALIGNED < u16c (LWIP_MEM_ALIGN new_size) \<or> u16c (LWIP_MEM_ALIGN new_size) = 0"
      using False by (auto simp: u16c_def MEM_SIZE_ALIGNED_def)
    then show ?thesis
      using False unfolding mem_trim_def Let_def by (auto simp: mem_consts)
  next
    case True
    have "LWIP_MEM_ALIGN new_size < 65536"
      using True unfolding LWIP_MEM_ALIGN_def MEM_ALIGNMENT_def by presburger
    then have r: "(if u16c (LWIP_MEM_ALIGN new_size) < MIN_SIZE_ALIGNED then MIN_SIZE_ALIGNED
      else u16c (LWIP_MEM_ALIGN new_size)) = newsize"
      by (simp add: newsize_def request_def mem_consts max_def)
    have b: "\<not> (MEM_SIZE_ALIGNED < newsize \<or> newsize < new_size)" "newsize \<le> 20480"
      using request_props(3,4) [of new_size] True by (simp_all add: newsize_def mem_consts)
    have m: "hp_ram h + p + 8 - SIZEOF_STRUCT_MEM - hp_ram h = p" by (simp add: SIZEOF_STRUCT_MEM_def)
    have c: "hp_ram h \<le> hp_ram h + p + 8 \<and> hp_ram h + p + 8 < hp_ram h + MEM_SIZE_ALIGNED"
      "\<not> hp_ram h + p + 8 < hp_ram h + SIZEOF_STRUCT_MEM" using S at by (simp_all add: mem_consts)
    have p2: "u16c (p + SIZEOF_STRUCT_MEM + newsize) = p + (newsize + 8)" if "newsize + 8 \<le> n"
      using that S by (simp add: SIZEOF_STRUCT_MEM_def)
    have d: "n - 8 - newsize = n - (newsize + 8)" by simp
    have q: "\<not> newsize \<le> n - 8 \<longleftrightarrow> n < newsize + 8" "newsize = n - 8 \<longleftrightarrow> newsize + 8 = n"
      "newsize + SIZEOF_STRUCT_MEM + MIN_SIZE_ALIGNED \<le> n - 8 \<longleftrightarrow> newsize + 28 \<le> n"
      using at(2) request_props(2) [of new_size] by (auto simp: mem_consts newsize_def)
    have g: "\<not> (MEM_SIZE_ALIGNED < newsize \<or> newsize < new_size) = True" "(20480 < new_size) = False"
      using b True by simp_all
    consider "n < newsize + 8" | "newsize + 8 = n" | "newsize + 8 < n" "mused h (p + n) = 0"
      | "newsize + 8 < n" "mused h (p + n) \<noteq> 0" "newsize + 28 \<le> n" | "newsize + 8 < n" "mused h (p + n) \<noteq> 0" "\<not> newsize + 28 \<le> n"
      by linarith
    then show ?thesis
    proof cases
      case 1
      then show ?thesis unfolding mem_trim_def Let_def r m pu sz d q(1) using b c True by simp
    next
      case 2
      then have "newsize \<le> n - 8" "newsize = n - 8" by simp_all
      then show ?thesis unfolding mem_trim_def Let_def r m pu sz using 2 b c True by simp
    next
      case 3
      then have k: "newsize \<le> n - 8" "newsize \<noteq> n - 8" "\<not> n < newsize + 8" "newsize + 8 \<noteq> n" by simp_all
      show ?thesis unfolding mem_trim_def Let_def r m pu at(1) sz' d using 3 k b c True p2 by simp
    next
      case 4
      then have k: "newsize \<le> n - 8" "newsize \<noteq> n - 8" "\<not> n < newsize + 8" "newsize + 8 \<noteq> n"
        "newsize + SIZEOF_STRUCT_MEM + MIN_SIZE_ALIGNED \<le> n - 8" by (simp_all add: mem_consts)
      show ?thesis unfolding mem_trim_def Let_def r m pu at(1) sz' d using 4 k b c True p2 at(1) by simp
    next
      case 5
      then have k: "newsize \<le> n - 8" "newsize \<noteq> n - 8" "\<not> n < newsize + 8" "newsize + 8 \<noteq> n"
        "\<not> newsize + SIZEOF_STRUCT_MEM + MIN_SIZE_ALIGNED \<le> n - 8" using at(2) by (simp_all add: mem_consts)
      show ?thesis unfolding mem_trim_def Let_def r m pu at(1) sz' d using 5 k b c True by simp
    qed
  qed
qed


lemma trim_cut_mem:
  assumes "mused h p = 1" "p < p2"
  shows "hp_mem (trim_cut p p p2 e h) = divide p p2 e (hp_mem h)"
    "hp_lfree (trim_cut p p p2 e h) = hp_lfree h" "same_ram h (trim_cut p p p2 e h)"
    "st_used (trim_cut p p p2 e h) = st_used h"
  using assms used_1 [of "hp_mem h p"]
  by (auto simp: trim_cut_def divide_def same_ram_def Let_def fun_eq_iff)

lemma mem_trim_inv:
  assumes h: "heap_inv h (xs @ (n, True) # ys)" and sz: "new_size \<le> 20480"
  defines "t \<equiv> request new_size + 8"
  shows "if n < t \<or> ys = [] \<and> t + 20 \<le> n then mem_trim (hp_ram h + tot xs + 8) new_size h = Inl AssertFailed
    else \<exists>h'. mem_trim (hp_ram h + tot xs + 8) new_size h = Inr (Some (hp_ram h + tot xs + 8), h') \<and>
      heap_inv h' (blk_trim xs n t ys) \<and> same_ram h h'"
proof -
  let ?p = "tot xs" and ?r = "hp_ram h + tot xs + 8"
  have hs: "heap_seg h (xs @ (n, True) # ys)" and na: "no_adjacent (xs @ (n, True) # ys)"
    using h by (simp_all add: heap_inv_def)
  have S: "?p + n + tot ys = MEM_SIZE_ALIGNED" using heap_seg_bound [OF hs] by (simp add: MEM_SIZE_ALIGNED_def)
  have s: "seg (hp_mem h) 0 0 (xs @ (n, True) # ys)" and low: "hp_lfree h = lowest (xs @ (n, True) # ys)"
    and e: "mused h MEM_SIZE_ALIGNED = 1" using hs by (simp_all add: heap_seg_def)
  have at: "mused h ?p = 1" "20 \<le> n" using seg_at [OF s] by auto
  have sx: "seg (hp_mem h) 0 0 xs" using s by (simp add: seg_append)
  have lx: "(\<forall>b\<in>set xs. snd b) \<or> lowest xs < tot xs" using lowest_less [OF sx] by blast
  have t: "20 \<le> t" "t mod 4 = 0" using request_props(1,2) [of new_size] unfolding t_def by presburger+
  have ny: "ys \<noteq> [] \<Longrightarrow> ?p + n \<noteq> MEM_SIZE_ALIGNED" "ys = [] \<Longrightarrow> ?p + n = MEM_SIZE_ALIGNED"
    using S s by (cases ys; auto simp: seg_append)+
  have un: "mused h (?p + n) = (if ys = [] \<or> snd (hd ys) then 1 else 0)"
    using s e ny(2) by (cases ys) (auto simp: seg_append)
  note run = mem_trim_eqn [OF _ hs, of new_size, folded t_def]
  have bt: "t + 20 \<le> n \<longleftrightarrow> request new_size + 28 \<le> n" unfolding t_def by presburger
  consider "n < t" | "t = n" | m zs where "t < n" "ys = (m, False) # zs"
    | "t < n" "ys = [] \<or> snd (hd ys)" "\<not> t + 20 \<le> n" | "ys = []" "t + 20 \<le> n"
    | "t < n" "ys \<noteq> []" "snd (hd ys)" "t + 20 \<le> n"
  proof (cases "t < n")
    case True
    then show ?thesis using that(3-6) by (cases ys; cases "t + 20 \<le> n"; cases "snd (hd ys)"; fastforce)
  next
    case False
    then show ?thesis using that(1,2) by linarith
  qed
  then show ?thesis
  proof cases
    case 1
    then show ?thesis using run sz by simp
  next
    case 2
    then show ?thesis using run sz h by (auto simp: blk_trim_def same_ram_def)
  next
    case 3
    define h1 where "h1 = (if hp_lfree h = ?p + n then h\<lparr>hp_lfree := ?p + t\<rparr> else h)"
    have "mused h1 ?p = 1" "?p < ?p + t" using at(1) t(1) by (simp_all add: h1_def)
    note tc = trim_cut_mem [OF this]
    let ?h2 = "trim_cut ?p ?p (?p + t) (mnext h (?p + n)) h1"
    have nx: "mnext h (?p + n) = ?p + tot [(n, True), (m, False)]" "20 \<le> m" using s 3 by (simp_all add: seg_append)
    have "mem_trim ?r new_size h = Inr (Some ?r, MEM_STATS_DEC_USED (n - t) ?h2)"
      using run sz 3 un ny(1) by (simp add: h1_def Let_def)
    moreover have "heap_inv (MEM_STATS_DEC_USED (n - t) ?h2) (xs @ (t, True) # (tot [(n, True), (m, False)] - t, False) # zs)"
    proof (rule trim_divide [OF h t 3(1)])
      show "(n, True) # ys = [(n, True), (m, False)] @ zs" "20 \<le> tot [(n, True), (m, False)] - t" "in_use [(n, True), (m, False)] = n"
        using 3 nx(2) by simp_all
      show "zs = [] \<or> snd (hd zs)"
        using na 3 by (cases zs) (auto simp: no_adjacent_def successively_append_iff)
      show "hp_lfree ?h2 = lowest (xs @ (t, True) # (tot [(n, True), (m, False)] - t, False) # zs)"
        unfolding tc(2) using low 3 lx by (cases "\<forall>b\<in>set xs. snd b") (simp_all add: h1_def lowest_append)
      show "hp_mem ?h2 = divide ?p (?p + t) (?p + tot [(n, True), (m, False)]) (hp_mem h)" "same_ram h ?h2" "st_used ?h2 = st_used h"
        unfolding tc(1,4) using tc(3) nx(1) by (simp_all add: h1_def same_ram_def)
    qed
    moreover have "same_ram h ?h2" using tc(3) by (simp add: h1_def same_ram_def)
    ultimately show ?thesis using 3 by (simp add: blk_trim_def same_ram_def add.commute)
  next
    case 4
    then show ?thesis using run sz un bt h by (auto simp: blk_trim_def same_ram_def)
  next
    case 5
    then show ?thesis using run sz un bt ny(2) by simp
  next
    case 6
    define h1 where "h1 = (if ?p + t < hp_lfree h then h\<lparr>hp_lfree := ?p + t\<rparr> else h)"
    have "mused h1 ?p = 1" "?p < ?p + t" using at(1) t(1) by (simp_all add: h1_def)
    note tc = trim_cut_mem [OF this]
    let ?h2 = "trim_cut ?p ?p (?p + t) (?p + n) h1"
    have "mem_trim ?r new_size h = Inr (Some ?r, MEM_STATS_DEC_USED (n - t) ?h2)"
      using run sz 6 un bt ny(1) by (simp add: h1_def Let_def)
    moreover have "heap_inv (MEM_STATS_DEC_USED (n - t) ?h2) (xs @ (t, True) # (tot [(n, True)] - t, False) # ys)"
    proof (rule trim_divide [OF h t 6(1)])
      show "(n, True) # ys = [(n, True)] @ ys" "20 \<le> tot [(n, True)] - t" "in_use [(n, True)] = n" "ys = [] \<or> snd (hd ys)"
        using 6 by simp_all
      show "hp_lfree ?h2 = lowest (xs @ (t, True) # (tot [(n, True)] - t, False) # ys)"
        unfolding tc(2) using low 6 lx by (cases "\<forall>b\<in>set xs. snd b") (simp_all add: h1_def lowest_append)
      show "hp_mem ?h2 = divide ?p (?p + t) (?p + tot [(n, True)]) (hp_mem h)" "same_ram h ?h2" "st_used ?h2 = st_used h"
        unfolding tc(1,4) using tc(3) by (simp_all add: h1_def same_ram_def)
    qed
    moreover have "same_ram h ?h2" using tc(3) by (simp add: h1_def same_ram_def)
    ultimately show ?thesis using 6 by (simp add: blk_trim_def same_ram_def)
  qed
qed

section \<open>Blocks in use and their places\<close>

text \<open>The indices and lengths of the blocks in use.\<close>

fun offs :: "nat \<Rightarrow> block list \<Rightarrow> (nat \<times> nat) set" where
  "offs p [] = {}"
| "offs p ((n, u) # bs) = (if u then {(p, n)} else {}) \<union> offs (p + n) bs"

lemma offs_append: "offs p (xs @ ys) = offs p xs \<union> offs (p + tot xs) ys"
  by (induction p xs rule: offs.induct) (auto simp: add.assoc)

lemma offs_bound: "(q, k) \<in> offs p bs \<Longrightarrow> p \<le> q \<and> q + k \<le> p + tot bs"
  by (induction p bs rule: offs.induct) (auto split: if_splits)

lemma offs_disjoint:
  "(q, k) \<in> offs p bs \<Longrightarrow> (r, l) \<in> offs p bs \<Longrightarrow> (q, k) = (r, l) \<or> q + k \<le> r \<or> r + l \<le> q"
  by (induction p bs rule: offs.induct) (auto split: if_splits dest: offs_bound)

lemma offs_split:
  assumes "(q, k) \<in> offs p bs"
  obtains xs ys where "bs = xs @ (k, True) # ys" "q = p + tot xs"
  using assms
proof (induction p bs arbitrary: thesis rule: offs.induct)
  case (2 p n u bs)
  show ?case
  proof (cases "u \<and> (q, k) = (p, n)")
    case True
    then show ?thesis using 2(2) [of "[]" bs] by simp
  next
    case False
    then have "(q, k) \<in> offs (p + n) bs" using 2(3) by (auto split: if_splits)
    then obtain xs ys where "bs = xs @ (k, True) # ys" "q = p + n + tot xs" by (rule 2(1) [rotated])
    then show ?thesis using 2(2) [of "(n, u) # xs" ys] by simp
  qed
qed simp

lemma offs_others:
  assumes "\<forall>b\<in>set (xs @ (n, u) # ys). 0 < fst b"
  shows "{x \<in> offs 0 (xs @ (n, u) # ys). fst x \<noteq> tot xs} = offs 0 xs \<union> offs (tot xs + n) ys"
proof -
  have lt: "q < tot xs" if m: "(q, k) \<in> offs 0 xs" for q k
  proof -
    obtain ws zs where "xs = ws @ (k, True) # zs" "q = tot ws" using offs_split [OF m] by (metis add_0)
    then show ?thesis using assms by auto
  qed
  have gt: "tot xs < q" if "(q, k) \<in> offs (tot xs + n) ys" for q k
    using offs_bound [OF that] assms by auto
  show ?thesis using lt gt by (fastforce simp: offs_append split: if_splits)
qed

lemma offs_free: "offs 0 (blk_free xs n ys) = offs 0 xs \<union> offs (tot xs + n) ys"
proof -
  have f: "offs (tot xs) (forward n ys) = offs (tot xs + n) ys"
    by (cases rule: forward_cases [of ys n]) (auto simp: add.assoc)
  obtain k zs where fw: "forward n ys = (k, False) # zs" by (cases rule: forward_cases [of ys n]) auto
  show ?thesis
  proof (cases xs rule: rev_cases)
    case Nil
    then show ?thesis using f by (simp add: blk_free_def backward_def)
  next
    case (snoc ws b)
    then show ?thesis using f fw
      by (cases b) (auto simp: blk_free_def backward_def offs_append add.assoc)
  qed
qed

section \<open>Clients of the heap\<close>

text \<open>
  \<open>held A h bs\<close>: the clients hold exactly the blocks in use; \<open>A\<close> maps the address each was given to the size it
  was asked with, which the block has room for.
\<close>

definition held :: "(nat \<rightharpoonup> nat) \<Rightarrow> nat \<Rightarrow> block list \<Rightarrow> bool" where
  "held A base bs \<longleftrightarrow>
     (\<forall>p k. (p, k) \<in> offs 0 bs \<longrightarrow> (\<exists>n. A (base + p + 8) = Some n \<and> n + 8 \<le> k)) \<and>
     (\<forall>a n. A a = Some n \<longrightarrow> (\<exists>p k. (p, k) \<in> offs 0 bs \<and> a = base + p + 8))"

lemma held_update:
  assumes "held A base bs" "offs 0 bs' = insert (p, k) {x \<in> offs 0 bs. fst x \<noteq> p}" "n + 8 \<le> k"
  shows "held (A(base + p + 8 \<mapsto> n)) base bs'"
  using assms unfolding held_def by (simp split: if_splits) (metis fst_conv)

lemma held_remove:
  assumes "held A base bs" "offs 0 bs' = {x \<in> offs 0 bs. fst x \<noteq> p}"
  shows "held (A(base + p + 8 := None)) base bs'"
  using assms unfolding held_def by (simp split: if_splits) (metis fst_conv)

lemma held_block:
  assumes "held A base bs" "A a = Some n"
  obtains xs k ys where "bs = xs @ (k, True) # ys" "a = base + tot xs + 8" "n + 8 \<le> k"
proof -
  obtain p k where pk: "(p, k) \<in> offs 0 bs" "a = base + p + 8" using assms by (auto simp: held_def)
  then have "n + 8 \<le> k" using assms unfolding held_def by (metis option.inject)
  then show ?thesis using offs_split [OF pk(1)] pk(2) that by auto
qed

lemma inv_pos: "heap_inv h bs \<Longrightarrow> \<forall>b\<in>set bs. 0 < fst b"
  using seg_sizes by (fastforce simp: heap_inv_def heap_seg_def)

lemma place_head:
  assumes "sz + 8 \<le> n"
  shows "\<exists>k zs. place sz n = (k, True) # zs \<and> sz + 8 \<le> k \<and> offs (p + k) (zs @ ys) = offs (p + n) ys"
proof (cases "sz + 28 \<le> n")
  case True
  then have "p + (sz + 8) + (n - (sz + 8)) = p + n" by simp
  then show ?thesis using True by (simp add: place_def)
qed (use assms in \<open>simp add: place_def\<close>)

lemma trim_head:
  assumes "t \<le> n"
  shows "\<exists>l zs. blk_trim xs n t ys = xs @ (l, True) # zs \<and> t \<le> l \<and> offs (p + l) zs = offs (p + n) ys"
proof -
  have e: "p + t + (m + (n - t)) = p + n + m" "p + t + (n - t) = p + n" for m
    using assms by simp_all
  consider "t = n" | m zs where "ys = (m, False) # zs" | "ys = [] \<or> snd (hd ys)"
    by (cases ys; cases "snd (hd ys)") auto
  then show ?thesis
  proof cases
    case 2
    then show ?thesis using assms by (cases "t = n") (simp_all add: blk_trim_def e add.commute add.left_commute)
  qed (use assms in \<open>auto simp: blk_trim_def e\<close>)
qed

text \<open>Every step of a client keeps the two invariants.\<close>

lemma held_malloc:
  assumes h: "heap_inv h bs" "held A (hp_ram h) bs" and sz: "size_in < 65536"
    and run: "mem_malloc size_in h = Some (Inr (r, h'))"
  obtains bs' where "heap_inv h' bs'" "same_ram h h'"
    "held (case r of None \<Rightarrow> A | Some a \<Rightarrow> A(a \<mapsto> size_in)) (hp_ram h) bs'"
proof -
  note m = mem_malloc_inv [OF h(1) sz]
  show ?thesis
  proof (cases "if size_in = 0 \<or> 20480 < size_in then None else blk_fit (request size_in) bs")
    case None
    then show ?thesis using m run h(2) that by auto
  next
    case (Some p)
    let ?sz = "request size_in"
    have "blk_fit ?sz bs = Some p" using Some by (auto split: if_splits)
    then obtain xs n ys where b: "bs = xs @ (n, False) # ys" "p = tot xs" "?sz + 8 \<le> n" "\<forall>b\<in>set xs. \<not> fits ?sz b"
      by (rule blk_fit_split)
    have r: "r = Some (hp_ram h + p + 8)" "heap_inv h' (blk_alloc ?sz bs)" "same_ram h h'"
      using m run Some by auto
    have ba: "blk_alloc ?sz bs = xs @ place ?sz n @ ys" using b by (simp add: blk_alloc_split)
    obtain k zs where pl: "place ?sz n = (k, True) # zs" "offs (tot xs + k) (zs @ ys) = offs (tot xs + n) ys" "?sz + 8 \<le> k"
      using place_head [OF b(3)] by blast
    have "{x \<in> offs 0 bs. fst x \<noteq> tot xs} = offs 0 xs \<union> offs (tot xs + n) ys"
      unfolding b(1) by (rule offs_others) (use inv_pos [OF h(1)] b(1) in simp)
    then have "offs 0 (blk_alloc ?sz bs) = insert (tot xs, k) {x \<in> offs 0 bs. fst x \<noteq> tot xs}"
      using pl(2) by (simp add: ba pl(1) offs_append)
    from held_update [OF h(2) this, of size_in] have "held (A(hp_ram h + p + 8 \<mapsto> size_in)) (hp_ram h) (blk_alloc ?sz bs)"
      using pl(3) request_props(3) [of size_in] b(2) by simp
    then show ?thesis using that [OF r(2,3)] r(1) by simp
  qed
qed

lemma held_free:
  assumes h: "heap_inv h bs" "held A (hp_ram h) bs" and a: "A a = Some n"
  obtains h' bs' where "mem_free (Some a) h = Inr h'" "heap_inv h' bs'" "same_ram h h'" "held (A(a := None)) (hp_ram h) bs'"
proof -
  obtain xs k ys where b: "bs = xs @ (k, True) # ys" "a = hp_ram h + tot xs + 8" by (rule held_block [OF h(2) a])
  obtain h' where h': "mem_free (Some a) h = Inr h'" "heap_inv h' (blk_free xs k ys)" "same_ram h h'"
    using mem_free_inv [OF h(1) [unfolded b(1)]] b(2) by blast
  have "offs 0 (blk_free xs k ys) = {x \<in> offs 0 bs. fst x \<noteq> tot xs}"
    unfolding b(1) offs_free by (rule offs_others [symmetric]) (use inv_pos [OF h(1)] b(1) in simp)
  then show ?thesis using that [OF h'] held_remove [OF h(2)] b(2) by simp
qed

lemma held_trim:
  assumes h: "heap_inv h bs" "held A (hp_ram h) bs" and a: "A a = Some n" and m: "m \<le> n"
    and run: "mem_trim a m h = Inr (r, h')"
  obtains bs' where "heap_inv h' bs'" "same_ram h h'" "held (A(a \<mapsto> m)) (hp_ram h) bs'" "r = Some a"
proof -
  obtain xs k ys where b: "bs = xs @ (k, True) # ys" "a = hp_ram h + tot xs + 8" "n + 8 \<le> k" by (rule held_block [OF h(2) a])
  let ?t = "request m + 8"
  have k: "k \<le> 20480" using heap_seg_bound [of h xs k True ys] h(1) b(1) by (simp add: heap_inv_def)
  then have m2: "m \<le> 20480" using m b(3) by simp
  have h': "heap_inv h' (blk_trim xs k ?t ys)" "same_ram h h'" "r = Some a"
    using mem_trim_inv [OF h(1) [unfolded b(1)] m2] run b(2) by (auto split: if_splits)
  have "\<not> k < ?t" using mem_trim_inv [OF h(1) [unfolded b(1)] m2] run b(2) by (auto split: if_splits)
  then obtain l zs where l: "blk_trim xs k ?t ys = xs @ (l, True) # zs" "offs (tot xs + l) zs = offs (tot xs + k) ys" "?t \<le> l"
    using trim_head by (metis not_le)
  have "{x \<in> offs 0 bs. fst x \<noteq> tot xs} = offs 0 xs \<union> offs (tot xs + k) ys"
    unfolding b(1) by (rule offs_others) (use inv_pos [OF h(1)] b(1) in simp)
  then have "offs 0 (blk_trim xs k ?t ys) = insert (tot xs, l) {x \<in> offs 0 bs. fst x \<noteq> tot xs}"
    using l(2) by (simp add: l(1) offs_append)
  from held_update [OF h(2) this, of m] have "held (A(a \<mapsto> m)) (hp_ram h) (blk_trim xs k ?t ys)"
    using l(3) request_props(3) [of m] b(2) by simp
  then show ?thesis using that h' by simp
qed

lemma mem_init_inv:
  assumes "st_used h = 0"
  shows "heap_inv (mem_init ram_heap h) [(20480, False)]" "hp_ram (mem_init ram_heap h) = LWIP_MEM_ALIGN ram_heap"
  using assms
  by (simp_all add: mem_init_def Let_def heap_inv_def heap_seg_def no_adjacent_def MEM_SIZE_ALIGNED_def
      LWIP_MEM_ALIGN_def MEM_ALIGNMENT_def)

text \<open>
  A run of clients from the initialisation: they allocate, also zeroed blocks, release and shrink what they hold,
  and write into it.  \<open>A\<close> are the addresses they hold, with the sizes they asked for.
\<close>

inductive heap_run :: "nat \<Rightarrow> heap \<Rightarrow> (nat \<rightharpoonup> nat) \<Rightarrow> bool" for ram_heap where
  init: "st_used h = 0 \<Longrightarrow> heap_run ram_heap (mem_init ram_heap h) Map.empty"
| alloc: "heap_run ram_heap h A \<Longrightarrow> n < 65536 \<Longrightarrow> mem_malloc n h = Some (Inr (r, h')) \<Longrightarrow>
    heap_run ram_heap h' (case r of None \<Rightarrow> A | Some a \<Rightarrow> A(a \<mapsto> n))"
| calloc: "heap_run ram_heap h A \<Longrightarrow> mem_calloc c n h = Some (Inr (r, h')) \<Longrightarrow>
    heap_run ram_heap h' (case r of None \<Rightarrow> A | Some a \<Rightarrow> A(a \<mapsto> c * n))"
| free: "heap_run ram_heap h A \<Longrightarrow> A a = Some n \<Longrightarrow> mem_free (Some a) h = Inr h' \<Longrightarrow> heap_run ram_heap h' (A(a := None))"
| trim: "heap_run ram_heap h A \<Longrightarrow> A a = Some n \<Longrightarrow> m \<le> n \<Longrightarrow> mem_trim a m h = Inr (r, h') \<Longrightarrow>
    heap_run ram_heap h' (A(a \<mapsto> m))"
| user: "heap_run ram_heap h A \<Longrightarrow> A a = Some n \<Longrightarrow> i < n \<Longrightarrow>
    heap_run ram_heap (h\<lparr>hp_data := (hp_data h)(a - hp_ram h + i := v)\<rparr>) A"

lemma inv_data [simp]: "heap_inv (h\<lparr>hp_data := d\<rparr>) bs = heap_inv h bs"
  by (simp add: heap_inv_def heap_seg_def)

lemma heap_run_inv:
  "heap_run ram_heap h A \<Longrightarrow> \<exists>bs. heap_inv h bs \<and> held A (hp_ram h) bs \<and> hp_ram h = LWIP_MEM_ALIGN ram_heap"
proof (induction rule: heap_run.induct)
  case (init h)
  then show ?case using mem_init_inv [OF init] by (intro exI [of _ "[(20480, False)]"]) (simp add: held_def)
next
  case (alloc h A n r h')
  then obtain bs where i: "heap_inv h bs" "held A (hp_ram h) bs" "hp_ram h = LWIP_MEM_ALIGN ram_heap" by blast
  show ?case by (rule held_malloc [OF i(1,2) alloc.hyps(2,3)]) (use i(3) in \<open>auto simp: same_ram_def\<close>)
next
  case (calloc h A c n r h')
  then obtain bs where i: "heap_inv h bs" "held A (hp_ram h) bs" "hp_ram h = LWIP_MEM_ALIGN ram_heap" by blast
  show ?case
  proof (cases "u16c (c * n) = c * n")
    case False
    then show ?thesis using i calloc.hyps(2) by (auto simp: mem_calloc_def)
  next
    case True
    then have n: "c * n < 65536" by (metis u16c_def mod_less_divisor zero_less_numeral)
    have "\<exists>h1 d. mem_malloc (c * n) h = Some (Inr (r, h1)) \<and> (h' = h1\<lparr>hp_data := d\<rparr> \<or> h' = h1)"
      using calloc.hyps(2) True by (fastforce simp: mem_calloc_def Let_def split: option.splits sum.splits)
    then obtain h1 d where h1: "mem_malloc (c * n) h = Some (Inr (r, h1))" "h' = h1\<lparr>hp_data := d\<rparr> \<or> h' = h1"
      by blast
    show ?thesis by (rule held_malloc [OF i(1,2) n h1(1)]) (use i(3) h1(2) in \<open>auto simp: same_ram_def\<close>)
  qed
next
  case (free h A a n h')
  then obtain bs where i: "heap_inv h bs" "held A (hp_ram h) bs" "hp_ram h = LWIP_MEM_ALIGN ram_heap" by blast
  show ?case by (rule held_free [OF i(1,2) free.hyps(2)]) (metis i(3) free.hyps(3) same_ram_def sum.inject(2))
next
  case (trim h A a n m r h')
  then obtain bs where i: "heap_inv h bs" "held A (hp_ram h) bs" "hp_ram h = LWIP_MEM_ALIGN ram_heap" by blast
  show ?case by (rule held_trim [OF i(1,2) trim.hyps(2-4)]) (metis i(3) same_ram_def)
qed simp

section \<open>Properties\<close>

text \<open>
  C3.  The heap implements a list of blocks: from a state that represents \<open>bs\<close>, an allocation returns, without
  a failed assertion and without running forever, the data of the first free block with room for the request,
  which is divided when the rest can hold a block of its own, and NULL when there is none; a release joins the
  block with its free neighbours; a shrink gives the end of the block to the free block behind it, or
  makes a block of it.  The new state represents the new list, statistics and lowest free block included.
  A shrink stops in an assertion in exactly two cases: the size is larger than the block, or the block is the last one and
  the shrink would leave a rest of 20 bytes or more.
\<close>

theorem heap_refines:
  assumes "heap_inv h bs"
  shows "(\<forall>n<65536.
      case (if n = 0 \<or> 20480 < n then None else blk_fit (request n) bs) of
        None \<Rightarrow> \<exists>h'. mem_malloc n h = Some (Inr (None, h')) \<and> heap_inv h' bs \<and> same_ram h h'
      | Some p \<Rightarrow> \<exists>h'. mem_malloc n h = Some (Inr (Some (hp_ram h + p + 8), h')) \<and>
          heap_inv h' (blk_alloc (request n) bs) \<and> same_ram h h') \<and>
    (\<forall>xs n ys. bs = xs @ (n, True) # ys \<longrightarrow>
      (\<exists>h'. mem_free (Some (hp_ram h + tot xs + 8)) h = Inr h' \<and> heap_inv h' (blk_free xs n ys) \<and> same_ram h h')) \<and>
    (\<forall>xs n ys m. bs = xs @ (n, True) # ys \<longrightarrow> m \<le> 20480 \<longrightarrow>
      (if n < request m + 8 \<or> ys = [] \<and> request m + 8 + 20 \<le> n
       then mem_trim (hp_ram h + tot xs + 8) m h = Inl AssertFailed
       else \<exists>h'. mem_trim (hp_ram h + tot xs + 8) m h = Inr (Some (hp_ram h + tot xs + 8), h') \<and>
         heap_inv h' (blk_trim xs n (request m + 8) ys) \<and> same_ram h h'))"
proof (intro conjI allI impI, goal_cases)
  case (1 n)
  then show ?case by (rule mem_malloc_inv [OF assms])
next
  case (2 xs n ys)
  then show ?case using assms mem_free_inv by blast
next
  case (3 xs n ys m)
  then show ?case using assms mem_trim_inv by blast
qed

definition demo_heap :: heap where
  "demo_heap = \<lparr>hp_ram = 0, hp_mem = (\<lambda>_. \<lparr>mh_next = 0, mh_prev = 0, mh_used = 0\<rparr>), hp_lfree = 0, hp_data = (\<lambda>_. 0),
     st_used = 0, st_max = 0, st_avail = 0, st_err = 0, st_illegal = 0\<rparr>"

lemma demo_fit:
  "blk_fit (request 101) [(20480, False)] = Some 0"
  "blk_alloc (request 101) [(20480, False)] = [(112, True), (20368, False)]"
  by (simp_all add: blk_fit_def fits_def request_def LWIP_MEM_ALIGN_def MEM_ALIGNMENT_def place_def max_def)

theorem heap_refines_witness:
  "\<exists>h'. mem_malloc 101 (mem_init 0 demo_heap) = Some (Inr (Some 8, h')) \<and>
     heap_inv h' [(112, True), (20368, False)]"
proof -
  have u: "st_used demo_heap = 0" by (simp add: demo_heap_def)
  note r = conjunct1 [OF heap_refines [OF mem_init_inv(1) [OF u, of 0]], rule_format, of 101]
  show ?thesis
    using r demo_fit mem_init_inv(2) [OF u, of 0] by (simp add: LWIP_MEM_ALIGN_def MEM_ALIGNMENT_def) blast
qed

text \<open>
  C4.  What the heap hands out is exclusive: in every run of clients, held blocks lie inside the heap, are aligned,
  and between any two of them there is room for a header; a held block can be released and an
  allocation of any size returns.
\<close>

theorem heap_exclusive:
  assumes "heap_run ram_heap h A"
  shows "(\<forall>a n. A a = Some n \<longrightarrow>
       a mod MEM_ALIGNMENT = 0 \<and> LWIP_MEM_ALIGN ram_heap + SIZEOF_STRUCT_MEM \<le> a \<and>
       a + n \<le> LWIP_MEM_ALIGN ram_heap + MEM_SIZE_ALIGNED \<and> (\<exists>h'. mem_free (Some a) h = Inr h')) \<and>
    (\<forall>a n b m. A a = Some n \<longrightarrow> A b = Some m \<longrightarrow> a \<noteq> b \<longrightarrow>
       a + n + SIZEOF_STRUCT_MEM \<le> b \<or> b + m + SIZEOF_STRUCT_MEM \<le> a) \<and>
    (\<forall>n<65536. \<exists>r h'. mem_malloc n h = Some (Inr (r, h')))"
proof (intro conjI)
  obtain bs where i: "heap_inv h bs" "held A (hp_ram h) bs" "hp_ram h = LWIP_MEM_ALIGN ram_heap"
    using heap_run_inv [OF assms] by blast
  have hs: "heap_seg h bs" using i(1) by (simp add: heap_inv_def)
  show "\<forall>a n. A a = Some n \<longrightarrow>
       a mod MEM_ALIGNMENT = 0 \<and> LWIP_MEM_ALIGN ram_heap + SIZEOF_STRUCT_MEM \<le> a \<and>
       a + n \<le> LWIP_MEM_ALIGN ram_heap + MEM_SIZE_ALIGNED \<and> (\<exists>h'. mem_free (Some a) h = Inr h')"
  proof (intro allI impI)
    fix a n
    assume a: "A a = Some n"
    obtain xs k ys where b: "bs = xs @ (k, True) # ys" "a = hp_ram h + tot xs + 8" "n + 8 \<le> k"
      by (rule held_block [OF i(2) a])
    have S: "tot xs + k + tot ys = 20480" using hs b(1) heap_seg_bound by blast
    have "tot xs mod 4 = 0" "hp_ram h mod 4 = 0" using hs b(1) seg_tot_mod by (auto simp: heap_seg_def seg_append simp del: tot_simps)
    then have "a mod 4 = 0" using b(2) by presburger
    moreover have "\<exists>h'. mem_free (Some a) h = Inr h'" by (rule held_free [OF i(1,2) a]) blast
    ultimately show "a mod MEM_ALIGNMENT = 0 \<and> LWIP_MEM_ALIGN ram_heap + SIZEOF_STRUCT_MEM \<le> a \<and>
       a + n \<le> LWIP_MEM_ALIGN ram_heap + MEM_SIZE_ALIGNED \<and> (\<exists>h'. mem_free (Some a) h = Inr h')"
      using b S i(3) by (simp add: MEM_ALIGNMENT_def mem_consts)
  qed
  show "\<forall>a n b m. A a = Some n \<longrightarrow> A b = Some m \<longrightarrow> a \<noteq> b \<longrightarrow>
       a + n + SIZEOF_STRUCT_MEM \<le> b \<or> b + m + SIZEOF_STRUCT_MEM \<le> a"
  proof (intro allI impI)
    fix a n b m
    assume ab: "A a = Some n" "A b = Some m" "a \<noteq> b"
    obtain p k where p: "(p, k) \<in> offs 0 bs" "a = hp_ram h + p + 8" "n + 8 \<le> k"
      using i(2) ab(1) unfolding held_def by (metis option.inject)
    obtain q l where q: "(q, l) \<in> offs 0 bs" "b = hp_ram h + q + 8" "m + 8 \<le> l"
      using i(2) ab(2) unfolding held_def by (metis option.inject)
    show "a + n + SIZEOF_STRUCT_MEM \<le> b \<or> b + m + SIZEOF_STRUCT_MEM \<le> a"
      using offs_disjoint [OF p(1) q(1)] p q ab(3) by (auto simp: SIZEOF_STRUCT_MEM_def)
  qed
  show "\<forall>n<65536. \<exists>r h'. mem_malloc n h = Some (Inr (r, h'))"
  proof (intro allI impI)
    fix n :: nat
    assume "n < 65536"
    then show "\<exists>r h'. mem_malloc n h = Some (Inr (r, h'))"
      using mem_malloc_inv [OF i(1), of n]
      by (cases "if n = 0 \<or> 20480 < n then None else blk_fit (request n) bs") auto
  qed
qed

lemma demo_run:
  obtains h' where "mem_malloc 101 (mem_init 0 demo_heap) = Some (Inr (Some 8, h'))" "heap_run 0 h' [8 \<mapsto> 101]"
proof -
  have u: "st_used demo_heap = 0" by (simp add: demo_heap_def)
  obtain h' where m: "mem_malloc 101 (mem_init 0 demo_heap) = Some (Inr (Some 8, h'))"
    using mem_malloc_inv [OF mem_init_inv(1) [OF u], of 101 0] mem_init_inv(2) [OF u, of 0] demo_fit(1)
    by (auto simp: LWIP_MEM_ALIGN_def MEM_ALIGNMENT_def)
  show ?thesis using that [OF m] heap_run.alloc [OF heap_run.init [OF u] _ m] by simp
qed

theorem heap_exclusive_witness:
  "\<exists>h' a. mem_malloc 101 (mem_init 0 demo_heap) = Some (Inr (Some a, h')) \<and> 8 \<le> a \<and> a + 101 \<le> 20480 \<and>
     (\<exists>h''. mem_free (Some a) h' = Inr h'')"
proof -
  obtain h' where m: "mem_malloc 101 (mem_init 0 demo_heap) = Some (Inr (Some 8, h'))" "heap_run 0 h' [8 \<mapsto> 101]"
    by (rule demo_run)
  from heap_exclusive [OF m(2)] show ?thesis
    using m(1) by (auto simp: LWIP_MEM_ALIGN_def MEM_ALIGNMENT_def mem_consts)
qed

lemma all_free:
  assumes "heap_inv h bs" "offs 0 bs = {}"
  shows "bs = [(20480, False)]"
proof -
  have "\<not> snd b" if "b \<in> set bs" for b
    using assms(2) split_list [OF that] by (cases b) (auto simp: offs_append)
  moreover have "bs \<noteq> []" "tot bs = 20480" and na: "no_adjacent bs"
    using assms(1) by (auto simp: heap_inv_def heap_seg_def MEM_SIZE_ALIGNED_def)
  moreover obtain b cs where "bs = b # cs" using \<open>bs \<noteq> []\<close> by (cases bs) auto
  moreover from calculation have "cs = []" by (cases cs) (auto simp: no_adjacent_def)
  ultimately show ?thesis by (cases b) auto
qed

text \<open>
  C29.  Nothing is lost: whenever the clients have released everything they held, in whatever order, the heap is one
  free block again, and an allocation of any size up to all of it succeeds.
\<close>

theorem heap_reclaims:
  assumes "heap_run ram_heap h Map.empty" "0 < n" "n \<le> MEM_SIZE_ALIGNED - SIZEOF_STRUCT_MEM"
  shows "st_used h = 0 \<and>
    (\<exists>h'. mem_malloc n h = Some (Inr (Some (LWIP_MEM_ALIGN ram_heap + SIZEOF_STRUCT_MEM), h')))"
proof -
  obtain bs where i: "heap_inv h bs" "held Map.empty (hp_ram h) bs" "hp_ram h = LWIP_MEM_ALIGN ram_heap"
    using heap_run_inv [OF assms(1)] by blast
  have "offs 0 bs = {}" using i(2) by (fastforce simp: held_def)
  then have bs: "bs = [(20480, False)]" by (rule all_free [OF i(1)])
  have n: "0 < n" "n \<le> 20472" using assms(2,3) by (simp_all add: mem_consts)
  then have "LWIP_MEM_ALIGN n \<le> 20472" unfolding LWIP_MEM_ALIGN_def MEM_ALIGNMENT_def by presburger
  then have "blk_fit (request n) bs = Some 0" by (simp add: bs blk_fit_def fits_def request_def)
  then have "\<exists>h'. mem_malloc n h = Some (Inr (Some (hp_ram h + 8), h'))"
    using mem_malloc_inv [OF i(1), of n] n by auto
  moreover have "st_used h = 0" using i(1) by (simp add: bs heap_inv_def heap_seg_def)
  ultimately show ?thesis by (simp add: i(3) SIZEOF_STRUCT_MEM_def)
qed

theorem heap_reclaims_witness:
  "\<exists>h'. mem_malloc 20472 (mem_init 0 demo_heap) = Some (Inr (Some 8, h'))"
  using heap_reclaims [OF heap_run.init, of demo_heap 20472 0]
  by (simp add: demo_heap_def mem_consts LWIP_MEM_ALIGN_def MEM_ALIGNMENT_def)

text \<open>
  The last block cannot be shrunk: after an allocation that takes the whole heap, \<^verbatim>\<open>mem_trim\<close> to any size that
  leaves room for a block fails the assertion that there is a next block, although its code then
  would handle the end of the heap.
\<close>

lemma trim_last_asserts:
  assumes "st_used h = 0" "m \<le> 20452"
  shows "\<exists>h'. mem_malloc 20472 (mem_init ram_heap h) = Some (Inr (Some (LWIP_MEM_ALIGN ram_heap + 8), h')) \<and>
    mem_trim (LWIP_MEM_ALIGN ram_heap + 8) m h' = Inl AssertFailed"
proof -
  have r: "request 20472 = 20472" by (simp add: request_def LWIP_MEM_ALIGN_def MEM_ALIGNMENT_def)
  have f: "blk_fit (request 20472) [(20480, False)] = Some 0" "blk_alloc (request 20472) [(20480, False)] = [(20480, True)]"
    unfolding r by (simp_all add: blk_fit_def fits_def place_def)
  obtain h' where h': "mem_malloc 20472 (mem_init ram_heap h) = Some (Inr (Some (LWIP_MEM_ALIGN ram_heap + 8), h'))"
    "heap_inv h' [(20480, True)]" "same_ram (mem_init ram_heap h) h'"
    using mem_malloc_inv [OF mem_init_inv(1) [OF assms(1), of ram_heap], of 20472] mem_init_inv(2) [OF assms(1), of ram_heap] f
    by auto
  have "LWIP_MEM_ALIGN m \<le> 20452" using assms(2) unfolding LWIP_MEM_ALIGN_def MEM_ALIGNMENT_def by presburger
  then have "request m + 8 + 20 \<le> 20480" by (simp add: request_def)
  then have "mem_trim (hp_ram h' + tot [] + 8) m h' = Inl AssertFailed"
    using mem_trim_inv [of h' "[]" 20480 "[]" m] h'(2) assms(2) by simp
  then show ?thesis using h'(1,3) mem_init_inv(2) [OF assms(1), of ram_heap] by (simp add: same_ram_def)
qed

lemma trim_last_asserts_witness:
  "\<exists>h'. mem_malloc 20472 (mem_init 0 demo_heap) = Some (Inr (Some 8, h')) \<and> mem_trim 8 100 h' = Inl AssertFailed"
  using trim_last_asserts [of demo_heap 100 0] by (simp add: demo_heap_def LWIP_MEM_ALIGN_def MEM_ALIGNMENT_def)

lemma plug_used:
  "mused (plug_forward p h) q = mused h q" "hp_ram (plug_forward p h) = hp_ram h"
  "mused (plug_backward p h) q = mused h q" "hp_ram (plug_backward p h) = hp_ram h"
  by (auto simp: plug_forward_def plug_backward_def Let_def)

text \<open>
  The heap notices a block that is given back twice: right after a release of a held block, a second
  release of the same address only counts an illegal operation, also when the block has been joined
  with its neighbours.
\<close>

lemma heap_double_free:
  assumes "heap_run ram_heap h A" "A a = Some n" "mem_free (Some a) h = Inr h'"
  shows "mem_free (Some a) h' = Inr (illegal h')"
proof -
  obtain bs where i: "heap_inv h bs" "held A (hp_ram h) bs" using heap_run_inv [OF assms(1)] by blast
  obtain xs k ys where b: "bs = xs @ (k, True) # ys" "a = hp_ram h + tot xs + 8" by (rule held_block [OF i(2) assms(2)])
  have hs: "heap_seg h (xs @ (k, True) # ys)" using i(1) b(1) by (simp add: heap_inv_def)
  have s: "seg (hp_mem h) 0 0 (xs @ (k, True) # ys)" and ra: "hp_ram h mod 4 = 0" using hs by (simp_all add: heap_seg_def)
  have at: "mused h (tot xs) = 1" "20 \<le> k" using seg_at [OF s] by auto
  have S: "tot xs + k + tot ys = 20480" by (rule heap_seg_bound [OF hs])
  have "tot xs mod 4 = 0" using s seg_tot_mod by (auto simp: seg_append)
  then have al: "a mod MEM_ALIGNMENT = 0" using ra b(2) unfolding MEM_ALIGNMENT_def by presburger
  have r: "\<not> (a < hp_ram h + SIZEOF_STRUCT_MEM \<or> hp_ram h + MEM_SIZE_ALIGNED < a + MIN_SIZE_ALIGNED)"
    "a - SIZEOF_STRUCT_MEM - hp_ram h = tot xs"
    using S at(2) b(2) by (simp_all add: mem_consts)
  have "mused h' (tot xs) = 0 \<and> hp_ram h' = hp_ram h"
    using assms(3) al r at(1) link_valid [OF hs]
    by (auto simp: mem_free_def plug_holes_def plug_used Let_def split: if_splits)
  then show ?thesis using al r by (simp add: mem_free_def Let_def)
qed

lemma heap_double_free_witness:
  "\<exists>h1 h2. mem_malloc 101 (mem_init 0 demo_heap) = Some (Inr (Some 8, h1)) \<and> mem_free (Some 8) h1 = Inr h2 \<and>
     mem_free (Some 8) h2 = Inr (illegal h2)"
proof -
  obtain h1 where m: "mem_malloc 101 (mem_init 0 demo_heap) = Some (Inr (Some 8, h1))" "heap_run 0 h1 [8 \<mapsto> 101]"
    by (rule demo_run)
  obtain bs where i: "heap_inv h1 bs" "held [8 \<mapsto> 101] (hp_ram h1) bs" using heap_run_inv [OF m(2)] by blast
  obtain h2 where h2: "mem_free (Some 8) h1 = Inr h2" by (rule held_free [OF i, of 8 101]) auto
  show ?thesis using heap_double_free [OF m(2) _ h2, of 101] m(1) h2 by auto
qed

text \<open>Pointers that are no blocks at all, and the zeroed allocation.\<close>

lemma mem_free_foreign:
  assumes "a mod MEM_ALIGNMENT \<noteq> 0 \<or> a < hp_ram h + SIZEOF_STRUCT_MEM \<or> hp_ram h + MEM_SIZE_ALIGNED < a + MIN_SIZE_ALIGNED"
  shows "mem_free (Some a) h = Inr (illegal h)"
  using assms by (auto simp: mem_free_def)

lemma calloc_zeroes:
  assumes "mem_calloc count sz h = Some (Inr (Some a, h'))"
  shows "count * sz < 65536 \<and> (\<forall>i<count * sz. hp_data h' (a - hp_ram h' + i) = 0)"
  using assms by (auto simp: mem_calloc_def u16c_def Let_def mod_less_divisor split: if_splits option.splits sum.splits)

end
