(* ===== verification/LwPbuf.thy ===== *)
theory LwPbuf
  imports LwHeap
begin

text \<open>
  \<^verbatim>\<open>pbuf.c\<close>: packet buffers.  A \<^verbatim>\<open>struct pbuf\<close> lives in a heap block, in an element of the pool \<^verbatim>\<open>PBUF\<close> or in
  one of the pool \<^verbatim>\<open>PBUF_POOL\<close>, as its allocation source says; \<open>pw_buf\<close> holds the structures that are
  allocated, so that a dereference of a released one is a fault, and \<open>pw_byte\<close> the bytes payload pointers point to.
  The port's configuration: custom buffers on (fragmentation), out-of-sequence queues on, no copying checksums,
  no window scaling, one thread.  The 16 bit fields are natural numbers, every cast to them a \<open>u16c\<close>.
  Pointers are addresses, \<open>None\<close> or 0 the null pointer; a structure has 16 bytes.  What
  \<^verbatim>\<open>custom_free_function\<close> of a custom buffer does is the parameter \<open>cf\<close>.
\<close>

section \<open>State\<close>

record pbuf =
  pb_next :: "nat option"
  payload :: nat
  tot_len :: nat
  pb_len :: nat
  type_internal :: u8
  pb_flags :: u8
  pb_ref :: nat
  if_idx :: u8

record pmem =
  pm_heap :: heap
  pm_ref :: memp_pool
  pm_pool :: memp_pool

record pworld =
  pw_buf :: "nat \<rightharpoonup> pbuf"
  pw_byte :: "nat \<Rightarrow> u8"
  pw_mem :: pmem
  pbuf_free_ooseq_pending :: u8

type_synonym 'a run = "(fault + 'a) option"
type_synonym custom_free = "nat \<Rightarrow> (pworld \<Rightarrow> fault + pworld) option"

definition u8c :: "nat \<Rightarrow> nat" where "u8c n = n mod 256"

definition SIZEOF_STRUCT_PBUF :: nat where "SIZEOF_STRUCT_PBUF = 16"
definition PBUF_POOL_BUFSIZE_ALIGNED :: nat where "PBUF_POOL_BUFSIZE_ALIGNED = 1500"

lemmas pbuf_consts = SIZEOF_STRUCT_PBUF_def PBUF_POOL_BUFSIZE_ALIGNED_def

text \<open>The layers, as the header room they ask for, and the types.\<close>

abbreviation (input) PBUF_TRANSPORT :: nat where "PBUF_TRANSPORT \<equiv> 54"
abbreviation (input) PBUF_IP :: nat where "PBUF_IP \<equiv> 34"
abbreviation (input) PBUF_LINK :: nat where "PBUF_LINK \<equiv> 14"
abbreviation (input) PBUF_RAW_TX :: nat where "PBUF_RAW_TX \<equiv> 0"
abbreviation (input) PBUF_RAW :: nat where "PBUF_RAW \<equiv> 0"

abbreviation (input) PBUF_TYPE_FLAG_STRUCT_DATA_CONTIGUOUS :: u8 where "PBUF_TYPE_FLAG_STRUCT_DATA_CONTIGUOUS \<equiv> 0x80"
abbreviation (input) PBUF_TYPE_ALLOC_SRC_MASK :: u8 where "PBUF_TYPE_ALLOC_SRC_MASK \<equiv> 0x0F"
abbreviation (input) PBUF_TYPE_ALLOC_SRC_MASK_STD_HEAP :: u8 where "PBUF_TYPE_ALLOC_SRC_MASK_STD_HEAP \<equiv> 0x00"
abbreviation (input) PBUF_TYPE_ALLOC_SRC_MASK_STD_MEMP_PBUF :: u8 where "PBUF_TYPE_ALLOC_SRC_MASK_STD_MEMP_PBUF \<equiv> 0x01"
abbreviation (input) PBUF_TYPE_ALLOC_SRC_MASK_STD_MEMP_PBUF_POOL :: u8 where
  "PBUF_TYPE_ALLOC_SRC_MASK_STD_MEMP_PBUF_POOL \<equiv> 0x02"
abbreviation (input) PBUF_RAM :: u16 where "PBUF_RAM \<equiv> 0x0280"
abbreviation (input) PBUF_ROM :: u16 where "PBUF_ROM \<equiv> 0x0001"
abbreviation (input) PBUF_REF :: u16 where "PBUF_REF \<equiv> 0x0041"
abbreviation (input) PBUF_POOL :: u16 where "PBUF_POOL \<equiv> 0x0182"
abbreviation (input) PBUF_FLAG_IS_CUSTOM :: u8 where "PBUF_FLAG_IS_CUSTOM \<equiv> 0x02"

abbreviation (input) ERR_OK :: int where "ERR_OK \<equiv> 0"
abbreviation (input) ERR_MEM :: int where "ERR_MEM \<equiv> -1"
abbreviation (input) ERR_VAL :: int where "ERR_VAL \<equiv> -6"
abbreviation (input) ERR_ARG :: int where "ERR_ARG \<equiv> -16"

text \<open>Steps that may fault after a loop that may not end.\<close>

definition rbind :: "'a run \<Rightarrow> ('a \<Rightarrow> 'b run) \<Rightarrow> 'b run" where
  "rbind r f = (case r of None \<Rightarrow> None | Some (Inl e) \<Rightarrow> Some (Inl e) | Some (Inr a) \<Rightarrow> f a)"

lemma rbind_simps [simp]: "rbind (Some (Inr a)) f = f a" "rbind (Some (Inl e)) f = Some (Inl e)" "rbind None f = None"
  by (simp_all add: rbind_def)

text \<open>A structure stored, a pointer dereferenced, a field changed.\<close>

definition put :: "nat \<Rightarrow> pbuf \<Rightarrow> pworld \<Rightarrow> pworld" where
  "put p b s = s\<lparr>pw_buf := (pw_buf s)(p \<mapsto> b)\<rparr>"

definition on_mem :: "(pmem \<Rightarrow> pmem) \<Rightarrow> pworld \<Rightarrow> pworld" where
  "on_mem f s = s\<lparr>pw_mem := f (pw_mem s)\<rparr>"

text \<open>\<^verbatim>\<open>MEMCPY\<close> between two places of the memory, out of an application's buffer and into one.\<close>

definition memcpy :: "nat \<Rightarrow> nat \<Rightarrow> nat \<Rightarrow> pworld \<Rightarrow> pworld" where
  "memcpy dst src n s = s\<lparr>pw_byte := (\<lambda>i. if dst \<le> i \<and> i < dst + n then pw_byte s (src + (i - dst)) else pw_byte s i)\<rparr>"

definition store_bytes :: "nat \<Rightarrow> u8 list \<Rightarrow> pworld \<Rightarrow> pworld" where
  "store_bytes dst xs s = s\<lparr>pw_byte := (\<lambda>i. if dst \<le> i \<and> i < dst + length xs then xs ! (i - dst) else pw_byte s i)\<rparr>"

definition load_bytes :: "nat \<Rightarrow> nat \<Rightarrow> pworld \<Rightarrow> u8 list" where
  "load_bytes src n s = map (\<lambda>i. pw_byte s (src + i)) [0..<n]"

section \<open>Release\<close>

definition pbuf_get_allocsrc :: "pbuf \<Rightarrow> u8" where
  "pbuf_get_allocsrc b = type_internal b AND PBUF_TYPE_ALLOC_SRC_MASK"

definition pbuf_match_allocsrc :: "pbuf \<Rightarrow> u8 \<Rightarrow> bool" where
  "pbuf_match_allocsrc b type \<longleftrightarrow> pbuf_get_allocsrc b = type AND PBUF_TYPE_ALLOC_SRC_MASK"

text \<open>The memory of a buffer given back to the source it came from.\<close>

definition pm_release :: "u8 \<Rightarrow> nat \<Rightarrow> pmem \<Rightarrow> fault + pmem" where
  "pm_release alloc_src p m =
     (if alloc_src = PBUF_TYPE_ALLOC_SRC_MASK_STD_MEMP_PBUF_POOL then
        seq (do_memp_free_pool p (pm_pool m)) (\<lambda>d. Inr (m\<lparr>pm_pool := d\<rparr>))
      else if alloc_src = PBUF_TYPE_ALLOC_SRC_MASK_STD_MEMP_PBUF then
        seq (do_memp_free_pool p (pm_ref m)) (\<lambda>d. Inr (m\<lparr>pm_ref := d\<rparr>))
      else if alloc_src = PBUF_TYPE_ALLOC_SRC_MASK_STD_HEAP then
        seq (mem_free (Some p) (pm_heap m)) (\<lambda>h. Inr (m\<lparr>pm_heap := h\<rparr>))
      else Inl AssertFailed)"

definition pbuf_dealloc :: "custom_free \<Rightarrow> nat \<Rightarrow> pbuf \<Rightarrow> pworld \<Rightarrow> fault + pworld" where
  "pbuf_dealloc cf p b s =
     (let alloc_src = pbuf_get_allocsrc b
      in if pb_flags b AND PBUF_FLAG_IS_CUSTOM \<noteq> 0 then
           (case cf p of None \<Rightarrow> Inl AssertFailed | Some custom_free_function \<Rightarrow> custom_free_function s)
         else seq (pm_release alloc_src p (pw_mem s))
           (\<lambda>m. Inr (s\<lparr>pw_buf := (pw_buf s)(p := None), pw_mem := m\<rparr>)))"

partial_function (option) pbuf_free_loop :: "custom_free \<Rightarrow> nat option \<Rightarrow> nat \<Rightarrow> pworld \<Rightarrow> (nat \<times> pworld) run" where
  "pbuf_free_loop cf p count s =
     (case p of
        None \<Rightarrow> Some (Inr (count, s))
      | Some p \<Rightarrow>
          (case pw_buf s p of
             None \<Rightarrow> Some (Inl DanglingPtr)
           | Some b \<Rightarrow>
               if \<not> 0 < pb_ref b then Some (Inl AssertFailed)
               else
                 (let ref = u8c (pb_ref b + 255); b = b\<lparr>pb_ref := ref\<rparr>; s = put p b s
                  in if ref = 0 then
                       (let q = pb_next b
                        in case pbuf_dealloc cf p b s of
                             Inl e \<Rightarrow> Some (Inl e)
                           | Inr s \<Rightarrow> pbuf_free_loop cf q (u8c (count + 1)) s)
                     else pbuf_free_loop cf None count s)))"

definition pbuf_free :: "custom_free \<Rightarrow> nat option \<Rightarrow> pworld \<Rightarrow> (nat \<times> pworld) run" where
  "pbuf_free cf p s = (if p = None then Some (Inl AssertFailed) else pbuf_free_loop cf p 0 s)"

section \<open>Allocation\<close>

text \<open>What a pool that is empty leaves for \<^verbatim>\<open>sys_check_timeouts\<close> to do.\<close>

definition pbuf_pool_is_empty :: "pworld \<Rightarrow> pworld" where
  "pbuf_pool_is_empty s = s\<lparr>pbuf_free_ooseq_pending := 1\<rparr>"

definition pbuf_init_alloced_pbuf :: "nat \<Rightarrow> nat \<Rightarrow> nat \<Rightarrow> nat \<Rightarrow> u16 \<Rightarrow> u8 \<Rightarrow> pworld \<Rightarrow> pworld" where
  "pbuf_init_alloced_pbuf p pl all_len len type flags s =
     put p \<lparr>pb_next = None, payload = pl, tot_len = all_len, pb_len = len, type_internal = ucast type, pb_flags = flags,
       pb_ref = 1, if_idx = 0\<rparr> s"

definition pm_memp_pbuf :: "pmem \<Rightarrow> fault + nat option \<times> pmem" where
  "pm_memp_pbuf m = seq (do_memp_malloc_pool (pm_ref m)) (\<lambda>(r, d). Inr (r, m\<lparr>pm_ref := d\<rparr>))"

definition pm_memp_pool :: "pmem \<Rightarrow> fault + nat option \<times> pmem" where
  "pm_memp_pool m = seq (do_memp_malloc_pool (pm_pool m)) (\<lambda>(r, d). Inr (r, m\<lparr>pm_pool := d\<rparr>))"

definition pm_heap_alloc :: "nat \<Rightarrow> pmem \<Rightarrow> (nat option \<times> pmem) run" where
  "pm_heap_alloc n m = rbind (mem_malloc n (pm_heap m)) (\<lambda>(r, h). Some (Inr (r, m\<lparr>pm_heap := h\<rparr>)))"

definition pbuf_alloc_reference :: "nat \<Rightarrow> nat \<Rightarrow> u16 \<Rightarrow> pworld \<Rightarrow> fault + nat option \<times> pworld" where
  "pbuf_alloc_reference pl len type s =
     (if \<not> (type = PBUF_REF \<or> type = PBUF_ROM) then Inl AssertFailed
      else seq (pm_memp_pbuf (pw_mem s))
        (\<lambda>(r, m). let s = s\<lparr>pw_mem := m\<rparr>
          in case r of None \<Rightarrow> Inr (None, s)
             | Some p \<Rightarrow> Inr (Some p, pbuf_init_alloced_pbuf p pl len len type 0 s)))"

text \<open>\<^verbatim>\<open>last->next = q\<close>, or \<open>q\<close> as the head of the chain.\<close>

definition link_last :: "nat option \<Rightarrow> nat \<Rightarrow> pworld \<Rightarrow> fault + pworld" where
  "link_last lst q s =
     (case lst of
        None \<Rightarrow> Inr s
      | Some l \<Rightarrow> seq (deref (pw_buf s) l) (\<lambda>b. Inr (put l (b\<lparr>pb_next := Some q\<rparr>) s)))"

partial_function (option) alloc_pool_loop ::
    "custom_free \<Rightarrow> nat option \<Rightarrow> nat option \<Rightarrow> nat \<Rightarrow> nat \<Rightarrow> u16 \<Rightarrow> pworld \<Rightarrow> (nat option \<times> pworld) run" where
  "alloc_pool_loop cf p lst rem_len offset type s =
     (case pm_memp_pool (pw_mem s) of
        Inl e \<Rightarrow> Some (Inl e)
      | Inr (r, m) \<Rightarrow>
          (let s = s\<lparr>pw_mem := m\<rparr>
           in case r of
                None \<Rightarrow>
                  (let s = pbuf_pool_is_empty s
                   in case p of
                        None \<Rightarrow> Some (Inr (None, s))
                      | Some p \<Rightarrow> rbind (pbuf_free cf (Some p) s) (\<lambda>(n, s). Some (Inr (None, s))))
              | Some q \<Rightarrow>
                  (let qlen = min rem_len (u16c (sub32 PBUF_POOL_BUFSIZE_ALIGNED (LWIP_MEM_ALIGN offset)));
                       pl = LWIP_MEM_ALIGN (q + SIZEOF_STRUCT_PBUF + offset);
                       s = pbuf_init_alloced_pbuf q pl rem_len qlen type 0 s
                   in if pl mod MEM_ALIGNMENT \<noteq> 0 then Some (Inl AssertFailed)
                      else if \<not> 0 < sub32 PBUF_POOL_BUFSIZE_ALIGNED (LWIP_MEM_ALIGN offset) then Some (Inl AssertFailed)
                      else
                        (case link_last lst q s of
                           Inl e \<Rightarrow> Some (Inl e)
                         | Inr s \<Rightarrow>
                             let p = (if p = None then Some q else p);
                                 rem_len = u16c (rem_len + 65536 - qlen)
                             in if 0 < rem_len then alloc_pool_loop cf p (Some q) rem_len 0 type s
                                else Some (Inr (p, s))))))"

definition pbuf_alloc :: "custom_free \<Rightarrow> nat \<Rightarrow> nat \<Rightarrow> u16 \<Rightarrow> pworld \<Rightarrow> (nat option \<times> pworld) run" where
  "pbuf_alloc cf layer len type s =
     (let offset = u16c layer
      in if type = PBUF_REF \<or> type = PBUF_ROM then Some (pbuf_alloc_reference 0 len type s)
         else if type = PBUF_POOL then alloc_pool_loop cf None None len offset type s
         else if type = PBUF_RAM then
           (let payload_len = u16c (LWIP_MEM_ALIGN offset + LWIP_MEM_ALIGN len);
                alloc_len = u16c (LWIP_MEM_ALIGN SIZEOF_STRUCT_PBUF + payload_len)
            in if payload_len < LWIP_MEM_ALIGN len \<or> alloc_len < LWIP_MEM_ALIGN len then Some (Inr (None, s))
               else rbind (pm_heap_alloc alloc_len (pw_mem s))
                 (\<lambda>(r, m). let s = s\<lparr>pw_mem := m\<rparr>
                   in case r of
                        None \<Rightarrow> Some (Inr (None, s))
                      | Some p \<Rightarrow>
                          (let pl = LWIP_MEM_ALIGN (p + SIZEOF_STRUCT_PBUF + offset);
                               s = pbuf_init_alloced_pbuf p pl len len type 0 s
                           in if pl mod MEM_ALIGNMENT \<noteq> 0 then Some (Inl AssertFailed) else Some (Inr (Some p, s)))))
         else Some (Inl AssertFailed))"

definition pbuf_alloced_custom :: "nat \<Rightarrow> nat \<Rightarrow> u16 \<Rightarrow> nat \<Rightarrow> nat \<Rightarrow> nat \<Rightarrow> pworld \<Rightarrow> nat option \<times> pworld" where
  "pbuf_alloced_custom l len type p payload_mem payload_mem_len s =
     (let offset = u16c l
      in if payload_mem_len < LWIP_MEM_ALIGN offset + len then (None, s)
         else (let pl = (if payload_mem \<noteq> 0 then payload_mem + LWIP_MEM_ALIGN offset else 0)
               in (Some p, pbuf_init_alloced_pbuf p pl len len type PBUF_FLAG_IS_CUSTOM s)))"

section \<open>Shrinking\<close>

partial_function (option) realloc_skip :: "nat \<Rightarrow> nat \<Rightarrow> nat \<Rightarrow> pworld \<Rightarrow> (nat \<times> nat \<times> pworld) run" where
  "realloc_skip rem_len shrink q s =
     (case pw_buf s q of
        None \<Rightarrow> Some (Inl DanglingPtr)
      | Some b \<Rightarrow>
          if pb_len b < rem_len then
            (let rem_len = u16c (rem_len + 65536 - pb_len b);
                 s = put q (b\<lparr>tot_len := u16c (tot_len b + 65536 - shrink)\<rparr>) s
             in case pb_next b of
                  None \<Rightarrow> Some (Inl AssertFailed)
                | Some q \<Rightarrow> realloc_skip rem_len shrink q s)
          else Some (Inr (rem_len, q, s)))"

text \<open>The size given to \<^verbatim>\<open>mem_trim\<close>: the distance of the payload from the structure and what remains of it.\<close>

definition trim_size :: "nat \<Rightarrow> nat \<Rightarrow> nat \<Rightarrow> nat" where
  "trim_size pl q rem_len = nat ((int pl - int q + int rem_len) mod 65536)"

definition realloc_trim :: "nat \<Rightarrow> nat \<Rightarrow> pworld \<Rightarrow> fault + nat \<times> pworld" where
  "realloc_trim rem_len q s =
     seq (deref (pw_buf s) q) (\<lambda>b.
       if pbuf_match_allocsrc b PBUF_TYPE_ALLOC_SRC_MASK_STD_HEAP \<and> rem_len \<noteq> pb_len b \<and>
          pb_flags b AND PBUF_FLAG_IS_CUSTOM = 0
       then seq (mem_trim q (trim_size (payload b) q rem_len) (pm_heap (pw_mem s)))
         (\<lambda>(r, h). let s = on_mem (\<lambda>m. m\<lparr>pm_heap := h\<rparr>) s
           in case r of None \<Rightarrow> Inl AssertFailed | Some q \<Rightarrow> Inr (q, s))
       else Inr (q, s))"

definition pbuf_realloc :: "custom_free \<Rightarrow> nat option \<Rightarrow> nat \<Rightarrow> pworld \<Rightarrow> pworld run" where
  "pbuf_realloc cf p new_len s =
     (case p of
        None \<Rightarrow> Some (Inl AssertFailed)
      | Some p \<Rightarrow>
          (case pw_buf s p of
             None \<Rightarrow> Some (Inl DanglingPtr)
           | Some b \<Rightarrow>
               if tot_len b \<le> new_len then Some (Inr s)
               else
                 rbind (realloc_skip new_len (u16c (tot_len b + 65536 - new_len)) p s) (\<lambda>(rem_len, q, s).
                 rbind (Some (realloc_trim rem_len q s)) (\<lambda>(q, s).
                 rbind (Some (deref (pw_buf s) q)) (\<lambda>b.
                   let s = put q (b\<lparr>pb_len := rem_len, tot_len := rem_len\<rparr>) s
                   in rbind (case pb_next b of None \<Rightarrow> Some (Inr s)
                             | Some n \<Rightarrow> rbind (pbuf_free cf (Some n) s) (\<lambda>(_, s). Some (Inr s))) (\<lambda>s.
                      rbind (Some (deref (pw_buf s) q)) (\<lambda>b. Some (Inr (put q (b\<lparr>pb_next := None\<rparr>) s)))))))))"

section \<open>Headers\<close>

definition pbuf_add_header_impl :: "nat option \<Rightarrow> nat \<Rightarrow> bool \<Rightarrow> pworld \<Rightarrow> fault + nat \<times> pworld" where
  "pbuf_add_header_impl p header_size_increment force s =
     (case p of
        None \<Rightarrow> Inl AssertFailed
      | Some p \<Rightarrow>
          if 0xFFFF < header_size_increment then Inr (1, s)
          else if header_size_increment = 0 then Inr (0, s)
          else
            (let increment_magnitude = u16c header_size_increment
             in seq (deref (pw_buf s) p) (\<lambda>b.
               if u16c (increment_magnitude + tot_len b) < increment_magnitude then Inr (1, s)
               else
                 (let moved = int (payload b) - int header_size_increment;
                      done = (\<lambda>s. if moved < 0 then Inl OutOfBounds
                        else Inr (0, put p (b\<lparr>payload := nat moved, pb_len := u16c (pb_len b + increment_magnitude),
                          tot_len := u16c (tot_len b + increment_magnitude)\<rparr>) s))
                  in if type_internal b AND PBUF_TYPE_FLAG_STRUCT_DATA_CONTIGUOUS \<noteq> 0 then
                       (if moved < int (p + SIZEOF_STRUCT_PBUF) then Inr (1, s) else done s)
                     else if force then done s else Inr (1, s)))))"

definition pbuf_add_header :: "nat option \<Rightarrow> nat \<Rightarrow> pworld \<Rightarrow> fault + nat \<times> pworld" where
  "pbuf_add_header p header_size_increment s = pbuf_add_header_impl p header_size_increment False s"

definition pbuf_add_header_force :: "nat option \<Rightarrow> nat \<Rightarrow> pworld \<Rightarrow> fault + nat \<times> pworld" where
  "pbuf_add_header_force p header_size_increment s = pbuf_add_header_impl p header_size_increment True s"

definition pbuf_remove_header :: "nat option \<Rightarrow> nat \<Rightarrow> pworld \<Rightarrow> fault + nat \<times> pworld" where
  "pbuf_remove_header p header_size_decrement s =
     (case p of
        None \<Rightarrow> Inl AssertFailed
      | Some p \<Rightarrow>
          if 0xFFFF < header_size_decrement then Inr (1, s)
          else if header_size_decrement = 0 then Inr (0, s)
          else
            (let increment_magnitude = u16c header_size_decrement
             in seq (deref (pw_buf s) p) (\<lambda>b.
               if \<not> increment_magnitude \<le> pb_len b then Inr (1, s)
               else Inr (0, put p (b\<lparr>payload := payload b + header_size_decrement,
                      pb_len := u16c (pb_len b + 65536 - increment_magnitude),
                      tot_len := u16c (tot_len b + 65536 - increment_magnitude)\<rparr>) s))))"

text \<open>The signed variants; \<open>n\<close> is the value of the 16 bit signed argument.\<close>

definition pbuf_header_impl :: "nat option \<Rightarrow> int \<Rightarrow> bool \<Rightarrow> pworld \<Rightarrow> fault + nat \<times> pworld" where
  "pbuf_header_impl p n force s =
     (if n < 0 then pbuf_remove_header p (nat (- n)) s else pbuf_add_header_impl p (nat n) force s)"

definition pbuf_header :: "nat option \<Rightarrow> int \<Rightarrow> pworld \<Rightarrow> fault + nat \<times> pworld" where
  "pbuf_header p n s = pbuf_header_impl p n False s"

definition pbuf_header_force :: "nat option \<Rightarrow> int \<Rightarrow> pworld \<Rightarrow> fault + nat \<times> pworld" where
  "pbuf_header_force p n s = pbuf_header_impl p n True s"

partial_function (option) free_header_loop :: "custom_free \<Rightarrow> nat option \<Rightarrow> nat \<Rightarrow> pworld \<Rightarrow> (nat option \<times> pworld) run" where
  "free_header_loop cf p free_left s =
     (case p of
        None \<Rightarrow> Some (Inr (None, s))
      | Some p \<Rightarrow>
          if free_left = 0 then Some (Inr (Some p, s))
          else
            (case pw_buf s p of
               None \<Rightarrow> Some (Inl DanglingPtr)
             | Some b \<Rightarrow>
                 if pb_len b \<le> free_left then
                   (let f = p; free_left = u16c (free_left + 65536 - pb_len b); q = pb_next b;
                        s = put f (b\<lparr>pb_next := None\<rparr>) s
                    in case pbuf_free cf (Some f) s of
                         None \<Rightarrow> None
                       | Some (Inl e) \<Rightarrow> Some (Inl e)
                       | Some (Inr (n, s)) \<Rightarrow> free_header_loop cf q free_left s)
                 else
                   (case pbuf_remove_header (Some p) free_left s of
                      Inl e \<Rightarrow> Some (Inl e)
                    | Inr (n, s) \<Rightarrow> free_header_loop cf (Some p) 0 s)))"

definition pbuf_free_header :: "custom_free \<Rightarrow> nat option \<Rightarrow> nat \<Rightarrow> pworld \<Rightarrow> (nat option \<times> pworld) run" where
  "pbuf_free_header cf q sz s = free_header_loop cf q sz s"

section \<open>Chains and references\<close>

partial_function (option) clen_loop :: "nat option \<Rightarrow> nat \<Rightarrow> pworld \<Rightarrow> nat run" where
  "clen_loop p len s =
     (case p of
        None \<Rightarrow> Some (Inr len)
      | Some p \<Rightarrow>
          (case pw_buf s p of None \<Rightarrow> Some (Inl DanglingPtr) | Some b \<Rightarrow> clen_loop (pb_next b) (u16c (len + 1)) s))"

definition pbuf_clen :: "nat option \<Rightarrow> pworld \<Rightarrow> nat run" where
  "pbuf_clen p s = clen_loop p 0 s"

definition pbuf_ref :: "nat option \<Rightarrow> pworld \<Rightarrow> fault + pworld" where
  "pbuf_ref p s =
     (case p of
        None \<Rightarrow> Inr s
      | Some p \<Rightarrow> seq (deref (pw_buf s) p) (\<lambda>b.
          let b = b\<lparr>pb_ref := u8c (pb_ref b + 1)\<rparr>
          in if \<not> 0 < pb_ref b then Inl AssertFailed else Inr (put p b s)))"

text \<open>The walk to the last buffer of the head, adding the length of the tail on the way.\<close>

partial_function (option) cat_loop :: "nat \<Rightarrow> nat \<Rightarrow> pworld \<Rightarrow> (nat \<times> pworld) run" where
  "cat_loop t p s =
     (case pw_buf s p of
        None \<Rightarrow> Some (Inl DanglingPtr)
      | Some b \<Rightarrow>
          (case pb_next b of
             None \<Rightarrow> Some (Inr (p, s))
           | Some q \<Rightarrow>
               (case pw_buf s t of
                  None \<Rightarrow> Some (Inl DanglingPtr)
                | Some bt \<Rightarrow> cat_loop t q (put p (b\<lparr>tot_len := u16c (tot_len b + tot_len bt)\<rparr>) s))))"

definition pbuf_cat :: "nat option \<Rightarrow> nat option \<Rightarrow> pworld \<Rightarrow> pworld run" where
  "pbuf_cat h t s =
     (case (h, t) of
        (Some h, Some t) \<Rightarrow>
          rbind (cat_loop t h s) (\<lambda>(p, s).
          rbind (Some (deref (pw_buf s) p)) (\<lambda>b.
            if tot_len b \<noteq> pb_len b then Some (Inl AssertFailed)
            else if pb_next b \<noteq> None then Some (Inl AssertFailed)
            else rbind (Some (deref (pw_buf s) t)) (\<lambda>bt.
              Some (Inr (put p (b\<lparr>tot_len := u16c (tot_len b + tot_len bt), pb_next := Some t\<rparr>) s)))))
      | _ \<Rightarrow> Some (Inr s))"

definition pbuf_chain :: "nat option \<Rightarrow> nat option \<Rightarrow> pworld \<Rightarrow> pworld run" where
  "pbuf_chain h t s = rbind (pbuf_cat h t s) (\<lambda>s. Some (pbuf_ref t s))"

definition pbuf_dechain :: "custom_free \<Rightarrow> nat \<Rightarrow> pworld \<Rightarrow> (nat option \<times> pworld) run" where
  "pbuf_dechain cf p s =
     rbind (Some (deref (pw_buf s) p)) (\<lambda>b.
     rbind (case pb_next b of
        None \<Rightarrow> Some (Inr (1, s))
      | Some q \<Rightarrow>
          rbind (Some (deref (pw_buf s) q)) (\<lambda>bq.
            if int (tot_len bq) \<noteq> int (tot_len b) - int (pb_len b) then Some (Inl AssertFailed)
            else
              (let s = put q (bq\<lparr>tot_len := u16c (tot_len b + 65536 - pb_len b)\<rparr>) s;
                   s = put p (b\<lparr>pb_next := None, tot_len := pb_len b\<rparr>) s
               in pbuf_free cf (Some q) s))) (\<lambda>(tail_gone, s).
     rbind (Some (deref (pw_buf s) p)) (\<lambda>b'.
       if tot_len b' \<noteq> pb_len b' then Some (Inl AssertFailed)
       else Some (Inr (if 0 < tail_gone then None else pb_next b, s)))))"

end
