(* ===== verification/LwPbufMem.thy ===== *)
theory LwPbufMem
  imports LwPbuf
begin

text \<open>
  The memory under the packet buffers: heap blocks and the elements of two pools.  The locale \<open>buffer_memory\<close> is the
  contract \<^verbatim>\<open>pbuf.c\<close> relies on (a piece handed out is fresh, aligned and apart from all others, and can be given
  back); its interpretation \<open>pm\<close> shows that \<^verbatim>\<open>mem.c\<close> and \<^verbatim>\<open>memp.c\<close> together keep it.
\<close>

section \<open>The contract of the memory under the buffers\<close>

text \<open>
  \<open>inv m L\<close>: the memory is in order and has handed out the pieces \<open>L\<close>, each with the source it came from and its
  room in bytes.
\<close>

locale buffer_memory =
  fixes inv :: "'m \<Rightarrow> (nat \<rightharpoonup> u8 \<times> nat) \<Rightarrow> bool"
    and ok :: "u8 \<Rightarrow> nat \<Rightarrow> bool"
    and alloc :: "u8 \<Rightarrow> nat \<Rightarrow> 'm \<Rightarrow> (fault + nat option \<times> 'm) option"
    and release :: "u8 \<Rightarrow> nat \<Rightarrow> 'm \<Rightarrow> fault + 'm"
  assumes inv_finite: "inv m L \<Longrightarrow> finite (dom L)"
    and alloc_ok: "inv m L \<Longrightarrow> ok src n \<Longrightarrow> \<exists>r m'. alloc src n m = Some (Inr (r, m')) \<and>
      (case r of None \<Rightarrow> inv m' L | Some p \<Rightarrow> p \<notin> dom L \<and> p mod 4 = 0 \<and> inv m' (L(p \<mapsto> (src, n))))"
    and release_ok: "inv m L \<Longrightarrow> L p = Some (src, n) \<Longrightarrow> \<exists>m'. release src p m = Inr m' \<and> inv m' (L(p := None))"
    and apart: "inv m L \<Longrightarrow> L p = Some (src, n) \<Longrightarrow> L q = Some (src', k) \<Longrightarrow> p \<noteq> q \<Longrightarrow> p + n \<le> q \<or> q + k \<le> p"
begin

lemma alloc_cases:
  assumes "inv m L" "ok src n"
  obtains (none) m' where "alloc src n m = Some (Inr (None, m'))" "inv m' L"
  | (some) p m' where "alloc src n m = Some (Inr (Some p, m'))" "p \<notin> dom L" "p mod 4 = 0" "inv m' (L(p \<mapsto> (src, n)))"
proof -
  obtain r m' where r: "alloc src n m = Some (Inr (r, m'))"
    "case r of None \<Rightarrow> inv m' L | Some p \<Rightarrow> p \<notin> dom L \<and> p mod 4 = 0 \<and> inv m' (L(p \<mapsto> (src, n)))"
    using alloc_ok [OF assms] by blast
  then show ?thesis using none some by (cases r) auto
qed

text \<open>Two bytes of different pieces are different bytes.\<close>

lemma bytes_apart:
  assumes "inv m L" "L p = Some (src, n)" "L q = Some (src', k)" "p \<noteq> q" "p \<le> i" "i < p + n" "q \<le> j" "j < q + k"
  shows "i \<noteq> j"
  using apart [OF assms(1-4)] assms(5-) by auto

text \<open>A piece can be given back and asked for again; nothing else moves.\<close>

fun release_all :: "(u8 \<times> nat) list \<Rightarrow> 'm \<Rightarrow> fault + 'm" where
  "release_all [] m = Inr m"
| "release_all ((src, p) # ps) m = seq (release src p m) (release_all ps)"

lemma release_all_ok:
  assumes "inv m L" "distinct (map snd ps)" "\<forall>(src, p)\<in>set ps. \<exists>n. L p = Some (src, n)"
  shows "\<exists>m'. release_all ps m = Inr m' \<and> inv m' (L |` (- snd ` set ps))"
  using assms
proof (induction ps arbitrary: m L)
  case Nil
  then show ?case by simp
next
  case (Cons a ps)
  obtain src p n where a: "a = (src, p)" "L p = Some (src, n)" using Cons.prems(3) by (cases a) auto
  obtain m1 where m1: "release src p m = Inr m1" "inv m1 (L(p := None))" using release_ok [OF Cons.prems(1) a(2)] by blast
  have "\<forall>(src, q)\<in>set ps. \<exists>n. (L(p := None)) q = Some (src, n)"
    using Cons.prems(2,3) a(1) by (force simp: image_iff)
  moreover have "distinct (map snd ps)" using Cons.prems(2) by simp
  ultimately obtain m2 where "release_all ps m1 = Inr m2" "inv m2 ((L(p := None)) |` (- snd ` set ps))"
    using Cons.IH [OF m1(2)] by blast
  moreover have "(L(p := None)) |` (- snd ` set ps) = L |` (- snd ` set (a # ps))"
    by (rule ext) (auto simp: restrict_map_def a)
  ultimately show ?case using a(1) m1(1) by simp
qed

end

section \<open>Heap and pools keep it\<close>

definition pm_alloc :: "u8 \<Rightarrow> nat \<Rightarrow> pmem \<Rightarrow> (nat option \<times> pmem) run" where
  "pm_alloc src n m =
     (if src = PBUF_TYPE_ALLOC_SRC_MASK_STD_MEMP_PBUF_POOL then Some (pm_memp_pool m)
      else if src = PBUF_TYPE_ALLOC_SRC_MASK_STD_MEMP_PBUF then Some (pm_memp_pbuf m)
      else pm_heap_alloc n m)"

definition room_of :: "u8 \<Rightarrow> nat \<Rightarrow> bool" where
  "room_of src n \<longleftrightarrow> (if src = 2 then n = 1516 else if src = 1 then n = 16 else src = 0 \<and> 0 < n \<and> n < 65536)"

text \<open>The places the three sources hand out memory from.\<close>

definition pool_area :: "memp_pool \<Rightarrow> nat set" where
  "pool_area d = {LWIP_MEM_ALIGN (mp_base d)..<LWIP_MEM_ALIGN (mp_base d) + mp_num d * mp_size d}"

definition heap_area :: "heap \<Rightarrow> nat set" where
  "heap_area h = {hp_ram h..<hp_ram h + 20480}"

definition areas_apart :: "pmem \<Rightarrow> bool" where
  "areas_apart m \<longleftrightarrow> heap_area (pm_heap m) \<inter> pool_area (pm_ref m) = {} \<and> heap_area (pm_heap m) \<inter> pool_area (pm_pool m) = {} \<and>
     pool_area (pm_ref m) \<inter> pool_area (pm_pool m) = {}"

definition area :: "pmem \<Rightarrow> u8 \<Rightarrow> nat set" where
  "area m src = (if src = 2 then pool_area (pm_pool m) else if src = 1 then pool_area (pm_ref m) else heap_area (pm_heap m))"

lemma area_simps [simp]: "area m 0 = heap_area (pm_heap m)" "area m 1 = pool_area (pm_ref m)" "area m 2 = pool_area (pm_pool m)"
  by (simp_all add: area_def)

lemma area_disjoint:
  assumes "areas_apart m" "src \<noteq> src'" "src = 0 \<or> src = 1 \<or> src = 2" "src' = 0 \<or> src' = 1 \<or> src' = 2"
  shows "area m src \<inter> area m src' = {}"
  using assms(3,4) by (elim disjE) (use assms(1,2) in \<open>auto simp: areas_apart_def\<close>)

definition from_src :: "(nat \<rightharpoonup> u8 \<times> nat) \<Rightarrow> u8 \<Rightarrow> nat \<rightharpoonup> nat" where
  "from_src L src p = (case L p of Some (src', n) \<Rightarrow> if src' = src then Some n else None | None \<Rightarrow> None)"

definition pmem_inv :: "pmem \<Rightarrow> (nat \<rightharpoonup> u8 \<times> nat) \<Rightarrow> bool" where
  "pmem_inv m L \<longleftrightarrow> (\<exists>bs. heap_inv (pm_heap m) bs \<and> held (from_src L 0) (hp_ram (pm_heap m)) bs) \<and>
     pool_inv (pm_ref m) (dom (from_src L 1)) \<and> pool_inv (pm_pool m) (dom (from_src L 2)) \<and>
     mp_size (pm_ref m) = 16 \<and> mp_size (pm_pool m) = 1516 \<and> areas_apart m \<and>
     (\<forall>p src n. L p = Some (src, n) \<longrightarrow> room_of src n)"

lemma from_src_upd:
  "from_src (L(p \<mapsto> (src, n))) src = (from_src L src)(p \<mapsto> n)"
  "src \<noteq> src' \<Longrightarrow> L p = None \<Longrightarrow> from_src (L(p \<mapsto> (src, n))) src' = from_src L src'"
  "from_src (L(p := None)) src = (from_src L src)(p := None)"
  "L p = Some (src, n) \<Longrightarrow> from_src L src p = Some n"
  by (auto simp: from_src_def fun_eq_iff)

lemma held_range:
  assumes "heap_inv h bs" "held A (hp_ram h) bs" "A a = Some n"
  shows "hp_ram h \<le> a \<and> a + n \<le> hp_ram h + 20480 \<and> a mod 4 = 0"
proof -
  obtain xs k ys where b: "bs = xs @ (k, True) # ys" "a = hp_ram h + tot xs + 8" "n + 8 \<le> k" by (rule held_block [OF assms(2,3)])
  have hs: "heap_seg h bs" using assms(1) by (simp add: heap_inv_def)
  then have "tot xs + k + tot ys = 20480" using heap_seg_bound [of h xs k True ys] b(1) by simp
  moreover have "seg (hp_mem h) 0 0 (xs @ (k, True) # ys)" "hp_ram h mod 4 = 0" using hs by (simp_all add: heap_seg_def b(1))
  then have "hp_ram h mod 4 = 0" "tot xs mod 4 = 0" using seg_tot_mod by (auto simp: seg_append)
  then have "(hp_ram h + tot xs + 8) mod 4 = 0" by presburger
  ultimately show ?thesis using b by simp
qed

lemma held_apart:
  assumes "heap_inv h bs" "held A (hp_ram h) bs" "A a = Some n" "A c = Some k" "a \<noteq> c"
  shows "a + n \<le> c \<or> c + k \<le> a"
proof -
  obtain p l where p: "(p, l) \<in> offs 0 bs" "a = hp_ram h + p + 8" using assms(2,3) by (auto simp: held_def)
  obtain q j where q: "(q, j) \<in> offs 0 bs" "c = hp_ram h + q + 8" using assms(2,4) by (auto simp: held_def)
  have "n + 8 \<le> l" "k + 8 \<le> j" using assms(2-4) p q unfolding held_def by (metis option.inject)+
  then show ?thesis using offs_disjoint [OF p(1) q(1)] p q assms(5) by auto
qed

lemma held_finite:
  assumes "held A base bs"
  shows "finite (dom A)"
proof -
  have "finite (offs p bs)" for p by (induction p bs rule: offs.induct) auto
  moreover have "dom A \<subseteq> (\<lambda>(p, k). base + p + 8) ` offs 0 bs"
    using assms by (force simp: held_def)
  ultimately show ?thesis using finite_subset by blast
qed

lemma elem_area: "p \<in> elems d \<Longrightarrow> i < mp_size d \<Longrightarrow> p + i \<in> pool_area d"
proof -
  assume "p \<in> elems d" "i < mp_size d"
  then obtain j where j: "j < mp_num d" "p = LWIP_MEM_ALIGN (mp_base d) + j * mp_size d" by (auto simp: elems_def)
  have "Suc j * mp_size d \<le> mp_num d * mp_size d" using j(1) by (intro mult_le_mono1) simp
  then show ?thesis using j(2) \<open>i < mp_size d\<close> by (simp add: pool_area_def)
qed

lemma elems_apart:
  assumes "p \<in> elems d" "q \<in> elems d" "p \<noteq> q"
  shows "p + mp_size d \<le> q \<or> q + mp_size d \<le> p"
proof -
  obtain i j where ij: "p = LWIP_MEM_ALIGN (mp_base d) + i * mp_size d" "q = LWIP_MEM_ALIGN (mp_base d) + j * mp_size d"
    using assms(1,2) by (auto simp: elems_def)
  then have "i \<noteq> j" using assms(3) by auto
  then have "Suc i * mp_size d \<le> j * mp_size d \<or> Suc j * mp_size d \<le> i * mp_size d"
    by (metis mult_le_mono1 Suc_leI nat_neq_iff)
  then show ?thesis using ij by auto
qed

text \<open>An allocation of the heap is none of the blocks in use.\<close>

lemma heap_fresh:
  assumes h: "heap_inv h bs" "held A (hp_ram h) bs" and sz: "n < 65536" and run: "mem_malloc n h = Some (Inr (Some p, h'))"
    and a: "A p = Some k"
  shows False
proof -
  note m = mem_malloc_inv [OF h(1) sz]
  have "\<not> (n = 0 \<or> 20480 < n)"
  proof
    assume c: "n = 0 \<or> 20480 < n"
    show False using m run by (simp only: if_P [OF c] option.case) auto
  qed
  then obtain q where q: "blk_fit (request n) bs = Some q" "p = hp_ram h + q + 8" using m run by (auto split: option.splits)
  obtain xs j ys where b: "bs = xs @ (j, False) # ys" "q = tot xs" by (rule blk_fit_split [OF q(1)])
  obtain ws l zs where c: "bs = ws @ (l, True) # zs" "p = hp_ram h + tot ws + 8" by (rule held_block [OF h(2) a])
  have "seg (hp_mem h) 0 0 bs" using h(1) by (simp add: heap_inv_def heap_seg_def)
  then have "mused h (tot xs) = 0" "mused h (tot ws) = 1" using seg_at [of "hp_mem h"] b(1) c(1) by (metis (full_types))+
  moreover have "tot xs = tot ws" using b(2) c(2) q(2) by simp
  ultimately show False by simp
qed

text \<open>Each piece lies in the area of its source.\<close>

lemma pmem_area:
  assumes "pmem_inv m L" "L p = Some (src, n)"
  shows "{p..<p + n} \<subseteq> area m src"
    "0 < n" "p mod 4 = 0" "src = 0 \<or> src = 1 \<or> src = 2"
proof -
  obtain bs where h: "heap_inv (pm_heap m) bs" "held (from_src L 0) (hp_ram (pm_heap m)) bs"
    using assms(1) by (auto simp: pmem_inv_def)
  have R: "room_of src n" using assms by (simp add: pmem_inv_def)
  then show s: "src = 0 \<or> src = 1 \<or> src = 2" and "0 < n" by (auto simp: room_of_def split: if_splits)
  have f: "from_src L src p = Some n" using assms(2) by (simp add: from_src_def)
  have e1: "src = 1 \<Longrightarrow> p \<in> elems (pm_ref m)" and e2: "src = 2 \<Longrightarrow> p \<in> elems (pm_pool m)"
    using assms(1) f subsetD [OF pool_inv_card(2) [of "pm_ref m"]] subsetD [OF pool_inv_card(2) [of "pm_pool m"]]
    unfolding pmem_inv_def by blast+
  have "desc_ok (pm_ref m)" "desc_ok (pm_pool m)" using assms(1) by (simp_all add: pmem_inv_def pool_inv_def)
  then show "p mod 4 = 0"
    using s e1 e2 elems_aligned held_range [OF h] f unfolding MEM_ALIGNMENT_def by blast
  show "{p..<p + n} \<subseteq> area m src"
  proof
    fix x assume "x \<in> {p..<p + n}"
    then have x: "x = p + (x - p)" "x - p < n" "p \<le> x" "x < p + n" by auto
    have "src = 0 \<Longrightarrow> x \<in> heap_area (pm_heap m)" using held_range [OF h, of p n] f x by (auto simp: heap_area_def)
    moreover have "src = 1 \<Longrightarrow> x \<in> pool_area (pm_ref m)"
      using elem_area [OF e1, of "x - p"] R x assms(1) by (simp add: room_of_def pmem_inv_def)
    moreover have "src = 2 \<Longrightarrow> x \<in> pool_area (pm_pool m)"
      using elem_area [OF e2, of "x - p"] R x assms(1) by (simp add: room_of_def pmem_inv_def)
    ultimately show "x \<in> area m src"
      using s by auto
  qed
qed


lemma pmem_apart:
  assumes "pmem_inv m L" "L p = Some (src, n)" "L q = Some (src', k)" "p \<noteq> q"
  shows "p + n \<le> q \<or> q + k \<le> p"
proof (cases "src = src'")
  case False
  have "area m src \<inter> area m src' = {}"
    using area_disjoint [OF _ False pmem_area(4) [OF assms(1,2)] pmem_area(4) [OF assms(1,3)]] assms(1) by (simp add: pmem_inv_def)
  then have d: "{p..<p + n} \<inter> {q..<q + k} = {}"
    using pmem_area(1) [OF assms(1,2)] pmem_area(1) [OF assms(1,3)] by blast
  have "0 < n" "0 < k" using pmem_area(2) assms(1-3) by blast+
  then have "\<not> (p < q + k \<and> q < p + n)"
    using d by (metis IntI atLeastLessThan_iff empty_iff linorder_le_cases order_refl less_add_same_cancel1)
  then show ?thesis by linarith
next
  case True
  have f: "from_src L src p = Some n" "from_src L src q = Some k" using assms(2,3) True by (simp_all add: from_src_def)
  have R: "room_of src n" "room_of src k" using assms True by (auto simp: pmem_inv_def)
  obtain bs where h: "heap_inv (pm_heap m) bs" "held (from_src L 0) (hp_ram (pm_heap m)) bs"
    using assms(1) by (auto simp: pmem_inv_def)
  have e: "dom (from_src L 1) \<subseteq> elems (pm_ref m)" "dom (from_src L 2) \<subseteq> elems (pm_pool m)"
    using pool_inv_card(2) assms(1) unfolding pmem_inv_def by blast+
  consider "src = 0" | "src = 1" | "src = 2" using pmem_area(4) [OF assms(1,2)] by blast
  then show ?thesis
  proof cases
    case 1
    then show ?thesis using held_apart [OF h] f assms(4) by blast
  next
    case 2
    then show ?thesis
      using elems_apart [of p "pm_ref m" q] e(1) f assms(1,4) R by (auto simp: pmem_inv_def room_of_def)
  next
    case 3
    then show ?thesis
      using elems_apart [of p "pm_pool m" q] e(2) f assms(1,4) R by (auto simp: pmem_inv_def room_of_def)
  qed
qed

text \<open>An allocation or release in one of the pools keeps where the pool lies.\<close>

lemma pool_fields:
  "do_memp_malloc_pool d = Inr (r, d') \<Longrightarrow> mp_base d' = mp_base d \<and> mp_size d' = mp_size d \<and> mp_num d' = mp_num d"
  "do_memp_free_pool p d = Inr d' \<Longrightarrow> mp_base d' = mp_base d \<and> mp_size d' = mp_size d \<and> mp_num d' = mp_num d"
  by (auto simp: do_memp_malloc_pool_def do_memp_free_pool_def Let_def split: option.splits if_splits)

lemma area_cong: "mp_base d' = mp_base d \<and> mp_size d' = mp_size d \<and> mp_num d' = mp_num d \<Longrightarrow> pool_area d' = pool_area d"
  by (simp add: pool_area_def)

lemma fresh_elem:
  assumes "pmem_inv m L" "pool_inv d' (insert p A)" "d = pm_ref m \<and> A = dom (from_src L 1) \<or> d = pm_pool m \<and> A = dom (from_src L 2)"
    "mp_base d' = mp_base d \<and> mp_size d' = mp_size d \<and> mp_num d' = mp_num d" "p \<notin> A"
  shows "L p = None"
proof (rule ccontr)
  assume "L p \<noteq> None"
  then obtain src n where l: "L p = Some (src, n)" by auto
  have "p \<in> elems d'" using pool_inv_card(2) [OF assms(2)] by simp
  then have "p \<in> pool_area d"
    using elem_area [of p d' 0] assms(1,3,4) area_cong [OF assms(4)] by (auto simp: pmem_inv_def)
  moreover have "p \<in> area m src"
    by (rule subsetD [OF pmem_area(1) [OF assms(1) l]]) (use pmem_area(2) [OF assms(1) l] in simp)
  moreover have "from_src L src p = Some n" using l by (simp add: from_src_def)
  ultimately show False
    using assms(1,3,5) pmem_area(4) [OF assms(1) l] unfolding pmem_inv_def areas_apart_def by (auto split: if_splits)
qed

lemma pmem_inv_ref:
  assumes "pmem_inv m L"
  shows "\<exists>r m'. pm_memp_pbuf m = Inr (r, m') \<and>
    (case r of None \<Rightarrow> pmem_inv m' L | Some p \<Rightarrow> p \<notin> dom L \<and> p mod 4 = 0 \<and> pmem_inv m' (L(p \<mapsto> (1, 16))))"
proof -
  have i: "pool_inv (pm_ref m) (dom (from_src L 1))" using assms by (simp add: pmem_inv_def)
  show ?thesis
  proof (cases rule: mp.alloc_cases [OF i, case_names some full])
    case (some p d')
    note f = pool_fields(1) [OF some(1)]
    have L: "L p = None" by (rule fresh_elem [OF assms some(3) _ f some(2)]) simp
    have s: "from_src (L(p \<mapsto> (1, 16))) 1 = (from_src L 1)(p \<mapsto> 16)" "from_src (L(p \<mapsto> (1, 16))) 0 = from_src L 0"
      "from_src (L(p \<mapsto> (1, 16))) 2 = from_src L 2"
      using L by (simp_all add: from_src_upd)
    have "pmem_inv (m\<lparr>pm_ref := d'\<rparr>) (L(p \<mapsto> (1, 16)))"
      using assms some(3) f L s area_cong [OF f]
      by (auto simp: pmem_inv_def room_of_def areas_apart_def insert_absorb)
    moreover from this have "p mod 4 = 0" by (rule pmem_area(3)) simp
    ultimately show ?thesis using some(1) L by (auto simp: pm_memp_pbuf_def)
  next
    case (full d')
    note f = pool_fields(1) [OF full(1)]
    then show ?thesis
      using assms full area_cong [OF f] by (auto simp: pm_memp_pbuf_def pmem_inv_def areas_apart_def)
  qed
qed

lemma pmem_inv_pool:
  assumes "pmem_inv m L"
  shows "\<exists>r m'. pm_memp_pool m = Inr (r, m') \<and>
    (case r of None \<Rightarrow> pmem_inv m' L | Some p \<Rightarrow> p \<notin> dom L \<and> p mod 4 = 0 \<and> pmem_inv m' (L(p \<mapsto> (2, 1516))))"
proof -
  have i: "pool_inv (pm_pool m) (dom (from_src L 2))" using assms by (simp add: pmem_inv_def)
  show ?thesis
  proof (cases rule: mp.alloc_cases [OF i, case_names some full])
    case (some p d')
    note f = pool_fields(1) [OF some(1)]
    have L: "L p = None" by (rule fresh_elem [OF assms some(3) _ f some(2)]) simp
    have s: "from_src (L(p \<mapsto> (2, 1516))) 2 = (from_src L 2)(p \<mapsto> 1516)" "from_src (L(p \<mapsto> (2, 1516))) 0 = from_src L 0"
      "from_src (L(p \<mapsto> (2, 1516))) 1 = from_src L 1"
      using L by (simp_all add: from_src_upd)
    have "pmem_inv (m\<lparr>pm_pool := d'\<rparr>) (L(p \<mapsto> (2, 1516)))"
      using assms some(3) f L s area_cong [OF f]
      by (auto simp: pmem_inv_def room_of_def areas_apart_def)
    moreover from this have "p mod 4 = 0" by (rule pmem_area(3)) simp
    ultimately show ?thesis using some(1) L by (auto simp: pm_memp_pool_def)
  next
    case (full d')
    note f = pool_fields(1) [OF full(1)]
    then show ?thesis
      using assms full area_cong [OF f] by (auto simp: pm_memp_pool_def pmem_inv_def areas_apart_def)
  qed
qed


lemma pmem_inv_heap:
  assumes "pmem_inv m L" "0 < n" "n < 65536"
  shows "\<exists>r m'. pm_heap_alloc n m = Some (Inr (r, m')) \<and>
    (case r of None \<Rightarrow> pmem_inv m' L | Some p \<Rightarrow> p \<notin> dom L \<and> p mod 4 = 0 \<and> pmem_inv m' (L(p \<mapsto> (0, n))))"
proof -
  obtain bs where h: "heap_inv (pm_heap m) bs" "held (from_src L 0) (hp_ram (pm_heap m)) bs"
    using assms(1) by (auto simp: pmem_inv_def)
  obtain r h' where run: "mem_malloc n (pm_heap m) = Some (Inr (r, h'))"
    using mem_malloc_inv [OF h(1) assms(3)] by (auto split: option.splits)
  obtain bs' where b: "heap_inv h' bs'" "same_ram (pm_heap m) h'"
    "held (case r of None \<Rightarrow> from_src L 0 | Some a \<Rightarrow> (from_src L 0)(a \<mapsto> n)) (hp_ram (pm_heap m)) bs'"
    by (rule held_malloc [OF h assms(3) run])
  have ram: "hp_ram h' = hp_ram (pm_heap m)" using b(2) by (simp add: same_ram_def)
  show ?thesis
  proof (cases r)
    case None
    then have "pmem_inv (m\<lparr>pm_heap := h'\<rparr>) L"
      using assms(1) b ram unfolding pmem_inv_def areas_apart_def heap_area_def by auto
    then show ?thesis using run None by (simp add: pm_heap_alloc_def)
  next
    case (Some p)
    let ?A = "(from_src L 0)(p \<mapsto> n)"
    have hd: "held ?A (hp_ram h') bs'" using b(3) Some ram by simp
    have rg: "p \<in> heap_area (pm_heap m)" "p mod 4 = 0"
      using held_range [OF b(1) hd, of p n] ram assms(2) by (auto simp: heap_area_def)
    have new: "from_src L 0 p = None"
    proof (rule ccontr)
      assume "from_src L 0 p \<noteq> None"
      then obtain k where k: "from_src L 0 p = Some k" by auto
      show False using heap_fresh [OF h assms(3) run [unfolded Some] k] .
    qed
    have L: "L p = None"
    proof (rule ccontr)
      assume "L p \<noteq> None"
      then obtain src k where l: "L p = Some (src, k)" by auto
      then have "src \<noteq> 0" using new by (auto simp: from_src_def)
      moreover have "p \<in> area m src"
        by (rule subsetD [OF pmem_area(1) [OF assms(1) l]]) (use pmem_area(2) [OF assms(1) l] in simp)
      ultimately show False
        using rg(1) area_disjoint [of m src 0] pmem_area(4) [OF assms(1) l] assms(1) by (auto simp: pmem_inv_def)
    qed
    have s: "from_src (L(p \<mapsto> (0, n))) 0 = ?A" "from_src (L(p \<mapsto> (0, n))) 1 = from_src L 1" "from_src (L(p \<mapsto> (0, n))) 2 = from_src L 2"
      using L by (simp_all add: from_src_upd)
    have "pmem_inv (m\<lparr>pm_heap := h'\<rparr>) (L(p \<mapsto> (0, n)))"
      using assms b(1) hd ram unfolding pmem_inv_def areas_apart_def heap_area_def s by (auto simp: room_of_def)
    then show ?thesis using run Some rg(2) L by (auto simp: pm_heap_alloc_def)
  qed
qed


lemma pmem_inv_release:
  assumes "pmem_inv m L" "L p = Some (src, n)"
  shows "\<exists>m'. pm_release src p m = Inr m' \<and> pmem_inv m' (L(p := None))"
proof -
  obtain bs where h: "heap_inv (pm_heap m) bs" "held (from_src L 0) (hp_ram (pm_heap m)) bs"
    using assms(1) by (auto simp: pmem_inv_def)
  have f: "from_src L src p = Some n" using assms(2) by (simp add: from_src_def)
  have o: "src' \<noteq> src \<Longrightarrow> from_src (L(p := None)) src' = from_src L src'" for src'
    using assms(2) by (auto simp: from_src_def fun_eq_iff)
  have R: "\<forall>q src n. (L(p := None)) q = Some (src, n) \<longrightarrow> room_of src n" using assms(1) by (auto simp: pmem_inv_def)
  consider "src = 0" | "src = 1" | "src = 2" using pmem_area(4) [OF assms] by blast
  then show ?thesis
  proof cases
    case 1
    obtain h' bs' where b: "mem_free (Some p) (pm_heap m) = Inr h'" "heap_inv h' bs'" "same_ram (pm_heap m) h'"
      "held ((from_src L 0)(p := None)) (hp_ram (pm_heap m)) bs'"
      by (rule held_free [OF h f [unfolded 1]])
    have ram: "hp_ram h' = hp_ram (pm_heap m)" using b(3) by (simp add: same_ram_def)
    have "pmem_inv (m\<lparr>pm_heap := h'\<rparr>) (L(p := None))"
      using assms(1) b(2,4) ram o [of 1] o [of 2] R 1 unfolding pmem_inv_def areas_apart_def heap_area_def from_src_upd(3) by auto
    then show ?thesis using b(1) 1 by (simp add: pm_release_def)
  next
    case 2
    obtain d' where d: "do_memp_free_pool p (pm_ref m) = Inr d'" "pool_inv d' (dom (from_src L 1) - {p})"
      using free_pool_used [of "pm_ref m" "dom (from_src L 1)" p] assms(1) f 2 by (auto simp: pmem_inv_def)
    note g = pool_fields(2) [OF d(1)]
    have "pmem_inv (m\<lparr>pm_ref := d'\<rparr>) (L(p := None))"
      using assms(1) d(2) g area_cong [OF g] o [of 0] o [of 2] R 2 unfolding pmem_inv_def areas_apart_def
      by (auto simp: from_src_upd(3))
    then show ?thesis using d(1) 2 by (simp add: pm_release_def)
  next
    case 3
    obtain d' where d: "do_memp_free_pool p (pm_pool m) = Inr d'" "pool_inv d' (dom (from_src L 2) - {p})"
      using free_pool_used [of "pm_pool m" "dom (from_src L 2)" p] assms(1) f 3 by (auto simp: pmem_inv_def)
    note g = pool_fields(2) [OF d(1)]
    have "pmem_inv (m\<lparr>pm_pool := d'\<rparr>) (L(p := None))"
      using assms(1) d(2) g area_cong [OF g] o [of 0] o [of 1] R 3 unfolding pmem_inv_def areas_apart_def
      by (auto simp: from_src_upd(3))
    then show ?thesis using d(1) 3 by (simp add: pm_release_def)
  qed
qed

text \<open>Shrinking a heap piece.\<close>

lemma pmem_inv_trim:
  assumes "pmem_inv m L" "L p = Some (0, n)" "k \<le> n" "0 < k" "mem_trim p k (pm_heap m) = Inr (r, h')"
  shows "r = Some p" "pmem_inv (m\<lparr>pm_heap := h'\<rparr>) (L(p \<mapsto> (0, k)))"
proof -
  obtain bs where h: "heap_inv (pm_heap m) bs" "held (from_src L 0) (hp_ram (pm_heap m)) bs"
    using assms(1) by (auto simp: pmem_inv_def)
  have f: "from_src L 0 p = Some n" using assms(2) by (simp add: from_src_def)
  obtain bs' where b: "heap_inv h' bs'" "same_ram (pm_heap m) h'" "held ((from_src L 0)(p \<mapsto> k)) (hp_ram (pm_heap m)) bs'" "r = Some p"
    by (rule held_trim [OF h f assms(3,5)])
  show "r = Some p" by (rule b(4))
  have ram: "hp_ram h' = hp_ram (pm_heap m)" using b(2) by (simp add: same_ram_def)
  have s: "from_src (L(p \<mapsto> (0, k))) 0 = (from_src L 0)(p \<mapsto> k)" "from_src (L(p \<mapsto> (0, k))) 1 = from_src L 1"
    "from_src (L(p \<mapsto> (0, k))) 2 = from_src L 2"
    using assms(2) by (auto simp: from_src_def fun_eq_iff)
  have "n < 65536" using assms(1,2) by (auto simp: pmem_inv_def room_of_def split: if_splits)
  then show "pmem_inv (m\<lparr>pm_heap := h'\<rparr>) (L(p \<mapsto> (0, k)))"
    using assms(1,3,4) b ram unfolding pmem_inv_def areas_apart_def heap_area_def s by (auto simp: room_of_def)
qed

interpretation pm: buffer_memory pmem_inv room_of pm_alloc pm_release
proof unfold_locales
  fix m L assume i: "pmem_inv m L"
  show "finite (dom L)"
  proof -
    obtain bs where h: "held (from_src L 0) (hp_ram (pm_heap m)) bs" using i by (auto simp: pmem_inv_def)
    have "finite (dom (from_src L 1))" "finite (dom (from_src L 2))"
      using i pool_inv_card(1) by (auto simp: pmem_inv_def)
    moreover have "dom L \<subseteq> dom (from_src L 0) \<union> dom (from_src L 1) \<union> dom (from_src L 2)"
    proof
      fix p assume "p \<in> dom L"
      then obtain src n where l: "L p = Some (src, n)" by auto
      then show "p \<in> dom (from_src L 0) \<union> dom (from_src L 1) \<union> dom (from_src L 2)"
        using pmem_area(4) [OF i l] by (auto simp: from_src_def)
    qed
    ultimately show ?thesis using held_finite [OF h] by (meson finite_UnI finite_subset)
  qed
  show "\<exists>r m'. pm_alloc src n m = Some (Inr (r, m')) \<and>
      (case r of None \<Rightarrow> pmem_inv m' L | Some p \<Rightarrow> p \<notin> dom L \<and> p mod 4 = 0 \<and> pmem_inv m' (L(p \<mapsto> (src, n))))" if "room_of src n" for src n
    using pmem_inv_pool [OF i] pmem_inv_ref [OF i] pmem_inv_heap [OF i, of n] that
    by (auto simp: pm_alloc_def room_of_def split: if_splits)
  show "\<exists>m'. pm_release src p m = Inr m' \<and> pmem_inv m' (L(p := None))" if "L p = Some (src, n)" for p src n
    by (rule pmem_inv_release [OF i that])
  show "p + n \<le> q \<or> q + k \<le> p" if "L p = Some (src, n)" "L q = Some (src', k)" "p \<noteq> q" for p q src src' n k
    by (rule pmem_apart [OF i that])
qed

end
