(* ===== verification/LwPbufRefs.thy ===== *)
theory LwPbufRefs
  imports LwPbufMem "HOL-Library.Multiset"
begin

text \<open>
  References to packet buffers: the invariant that a count is the number of references, that links do not dangle or
  form cycles, and that payloads stay inside their memory; every operation of \<^verbatim>\<open>pbuf.c\<close> that changes a structure
  keeps it (\<open>chains_inv\<close>), and the properties of the runs of the users follow.
\<close>

section \<open>Buffers in their memory\<close>

text \<open>
  A structure of a known type, no custom one, its payload inside the memory its allocation source handed out; the
  payload of a \<^verbatim>\<open>PBUF_ROM\<close> or \<^verbatim>\<open>PBUF_REF\<close> is the caller's.
\<close>

definition buf_ok :: "(nat \<rightharpoonup> u8 \<times> nat) \<Rightarrow> nat \<Rightarrow> pbuf \<Rightarrow> bool" where
  "buf_ok L p b \<longleftrightarrow> pb_flags b AND PBUF_FLAG_IS_CUSTOM = 0 \<and> tot_len b < 65536 \<and> pb_len b < 65536 \<and>
     (\<exists>n. L p = Some (pbuf_get_allocsrc b, n) \<and>
       (type_internal b AND PBUF_TYPE_FLAG_STRUCT_DATA_CONTIGUOUS \<noteq> 0 \<longleftrightarrow> pbuf_get_allocsrc b \<noteq> 1) \<and>
       (pbuf_get_allocsrc b \<noteq> 1 \<longrightarrow> p + SIZEOF_STRUCT_PBUF \<le> payload b \<and> payload b + pb_len b \<le> p + n))"

definition world_inv :: "pworld \<Rightarrow> (nat \<rightharpoonup> u8 \<times> nat) \<Rightarrow> bool" where
  "world_inv s L \<longleftrightarrow> pmem_inv (pw_mem s) L \<and> dom (pw_buf s) = dom L \<and> (\<forall>p b. pw_buf s p = Some b \<longrightarrow> buf_ok L p b)"

lemma world_finite: "world_inv s L \<Longrightarrow> finite (dom (pw_buf s))"
  unfolding world_inv_def by (metis pm.inv_finite)

lemma pbuf_put_simps [simp]:
  "pw_buf (put p b s) = (pw_buf s)(p \<mapsto> b)" "pw_byte (put p b s) = pw_byte s" "pw_mem (put p b s) = pw_mem s"
  "pbuf_free_ooseq_pending (put p b s) = pbuf_free_ooseq_pending s" "put p b (put p b' s) = put p b s"
  by (simp_all add: put_def)

text \<open>A change of a structure that keeps type, flags and place.\<close>

lemma world_inv_put:
  assumes "world_inv s L" "pw_buf s p = Some b" "buf_ok L p b'"
  shows "world_inv (put p b' s) L"
  using assms by (auto simp: world_inv_def insert_absorb)

lemma buf_ok_ref [simp]: "buf_ok L p (b\<lparr>pb_ref := r\<rparr>) = buf_ok L p b" "buf_ok L p (b\<lparr>pb_next := nx\<rparr>) = buf_ok L p b"
  by (simp_all add: buf_ok_def pbuf_get_allocsrc_def)

lemma buf_ok_other: "buf_ok (L(q := v)) p b = buf_ok L p b" if "p \<noteq> q"
  using that by (simp add: buf_ok_def)

text \<open>The buffer at \<open>p\<close> gone, its memory \<open>m\<close> again.\<close>

definition drop_buf :: "nat \<Rightarrow> pmem \<Rightarrow> pworld \<Rightarrow> pworld" where
  "drop_buf p m s = s\<lparr>pw_buf := (pw_buf s)(p := None), pw_mem := m\<rparr>"

lemma drop_simps [simp]:
  "pw_buf (drop_buf p m s) = (pw_buf s)(p := None)" "pw_byte (drop_buf p m s) = pw_byte s" "pw_mem (drop_buf p m s) = m"
  "pbuf_free_ooseq_pending (drop_buf p m s) = pbuf_free_ooseq_pending s" "drop_buf p m (put p b s) = drop_buf p m s"
  by (simp_all add: drop_buf_def put_def)

lemma dealloc_ok:
  assumes "world_inv s L" "pw_buf s p = Some b"
  shows "\<exists>m. pbuf_dealloc cf p (b\<lparr>pb_ref := r\<rparr>) (put p (b\<lparr>pb_ref := r\<rparr>) s) = Inr (drop_buf p m s) \<and>
    world_inv (drop_buf p m s) (L(p := None))"
proof -
  have b: "buf_ok L p b" and i: "pmem_inv (pw_mem s) L" using assms by (simp_all add: world_inv_def)
  then obtain n where "L p = Some (pbuf_get_allocsrc b, n)" by (auto simp: buf_ok_def)
  then obtain m where m: "pm_release (pbuf_get_allocsrc b) p (pw_mem s) = Inr m" "pmem_inv m (L(p := None))"
    using pm.release_ok [OF i] by blast
  have "pbuf_dealloc cf p (b\<lparr>pb_ref := r\<rparr>) (put p (b\<lparr>pb_ref := r\<rparr>) s) = Inr (drop_buf p m s)"
    using b m(1) by (simp add: pbuf_dealloc_def buf_ok_def pbuf_get_allocsrc_def drop_buf_def put_def)
  moreover have "world_inv (drop_buf p m s) (L(p := None))"
    using assms m(2) by (auto simp: world_inv_def buf_ok_other)
  ultimately show ?thesis by blast
qed

section \<open>Reference counts\<close>

definition edges :: "pworld \<Rightarrow> (nat \<times> nat) set" where
  "edges s = {(p, q). \<exists>b. pw_buf s p = Some b \<and> pb_next b = Some q}"

text \<open>The buffers that point to \<open>q\<close>, those of \<open>X\<close> not counted.\<close>

definition pointers :: "nat set \<Rightarrow> pworld \<Rightarrow> nat \<Rightarrow> nat set" where
  "pointers X s q = {p. p \<notin> X \<and> (p, q) \<in> edges s}"

text \<open>
  The contract the comments of the code state: a count is the number of references, those the users hold (\<open>H\<close>) and
  those of the \<^verbatim>\<open>next\<close> pointers; and no reference dangles.
\<close>

definition refs_ok :: "nat set \<Rightarrow> pworld \<Rightarrow> nat multiset \<Rightarrow> bool" where
  "refs_ok X s H \<longleftrightarrow>
     (\<forall>q b. pw_buf s q = Some b \<longrightarrow> pb_ref b = count H q + card (pointers X s q) \<and> 0 < pb_ref b \<and> pb_ref b < 256) \<and>
     set_mset H \<subseteq> dom (pw_buf s) \<and> (\<forall>p q. p \<notin> X \<longrightarrow> (p, q) \<in> edges s \<longrightarrow> q \<in> dom (pw_buf s))"

lemma refs_okI:
  assumes "\<And>q b. pw_buf s q = Some b \<Longrightarrow> pb_ref b = count H q + card (pointers X s q) \<and> 0 < pb_ref b \<and> pb_ref b < 256"
    "set_mset H \<subseteq> dom (pw_buf s)" "\<And>p q. p \<notin> X \<Longrightarrow> (p, q) \<in> edges s \<Longrightarrow> q \<in> dom (pw_buf s)"
  shows "refs_ok X s H"
  unfolding refs_ok_def using assms(2) by (intro conjI allI impI) (rule assms(1) [THEN conjunct1] assms(1) [THEN conjunct2, THEN conjunct1]
    assms(1) [THEN conjunct2, THEN conjunct2] assms(3) | assumption)+

lemma refs_okD:
  assumes "refs_ok X s H"
  shows "pw_buf s q = Some b \<Longrightarrow> pb_ref b = count H q + card (pointers X s q) \<and> 0 < pb_ref b \<and> pb_ref b < 256"
    "set_mset H \<subseteq> dom (pw_buf s)" "p \<notin> X \<Longrightarrow> (p, q) \<in> edges s \<Longrightarrow> q \<in> dom (pw_buf s)"
  using assms unfolding refs_ok_def by blast+

lemma edges_dom: "(p, q) \<in> edges s \<Longrightarrow> p \<in> dom (pw_buf s)"
  by (auto simp: edges_def)

lemma pointers_finite: "finite (dom (pw_buf s)) \<Longrightarrow> finite (pointers X s q)"
  by (rule finite_subset [of _ "dom (pw_buf s)"]) (auto simp: pointers_def dest: edges_dom)

lemma edges_put: "edges (put p b s) = {(x, y) \<in> edges s. x \<noteq> p} \<union> (case pb_next b of None \<Rightarrow> {} | Some q \<Rightarrow> {(p, q)})"
  by (auto simp: edges_def split: option.splits if_splits)

lemma edges_put_same: "pw_buf s p = Some b \<Longrightarrow> pb_next b' = pb_next b \<Longrightarrow> edges (put p b' s) = edges s"
  by (auto simp: edges_def split: if_splits)

lemma edges_drop: "edges (drop_buf p m s) = {(x, y) \<in> edges s. x \<noteq> p}"
  by (auto simp: edges_def split: if_splits)

lemma u8c_simps: "0 < r \<Longrightarrow> r < 256 \<Longrightarrow> u8c (r + 255) = r - 1" "r < 256 \<Longrightarrow> u8c r = r"
  by (simp_all add: u8c_def mod_if)

text \<open>A reference given up that was not the last.\<close>

lemma refs_ok_dec:
  assumes "refs_ok X s (add_mset p H)" "pw_buf s p = Some b" "1 < pb_ref b"
  shows "refs_ok X (put p (b\<lparr>pb_ref := pb_ref b - 1\<rparr>) s) H"
proof -
  let ?s = "put p (b\<lparr>pb_ref := pb_ref b - 1\<rparr>) s"
  have e: "edges (put p (b\<lparr>pb_ref := pb_ref b - 1\<rparr>) s) = edges s" using edges_put_same [OF assms(2)] by simp
  have pt: "pointers X ?s q = pointers X s q" for q unfolding pointers_def e ..
  moreover have c: "pb_ref b = count (add_mset p H) p + card (pointers X s p)" using assms(1,2) unfolding refs_ok_def by blast
  moreover have "pb_ref b < 256" using assms(1,2) unfolding refs_ok_def by blast
  ultimately have p: "pb_ref b - 1 = count H p + card (pointers X ?s p) \<and> 0 < pb_ref b - 1 \<and> pb_ref b - 1 < 256"
    using assms(3) by simp
  have q: "pb_ref b' = count H q + card (pointers X ?s q) \<and> 0 < pb_ref b' \<and> pb_ref b' < 256"
    if "pw_buf s q = Some b'" "q \<noteq> p" for q b'
  proof -
    have "pb_ref b' = count (add_mset p H) q + card (pointers X s q) \<and> 0 < pb_ref b' \<and> pb_ref b' < 256"
      using assms(1) that(1) unfolding refs_ok_def by blast
    then show ?thesis unfolding pt using that(2) by (metis count_add_mset)
  qed
  have "pb_ref b' = count H q + card (pointers X ?s q) \<and> 0 < pb_ref b' \<and> pb_ref b' < 256"
    if "pw_buf ?s q = Some b'" for q b'
  proof (cases "q = p")
    case True
    then have "pb_ref b' = pb_ref b - 1" using that by auto
    then show ?thesis using p unfolding True by metis
  next
    case False
    then have "pw_buf s q = Some b'" using that by simp
    then show ?thesis using q False by blast
  qed
  moreover have "dom (pw_buf ?s) = dom (pw_buf s)" using assms(2) by auto
  moreover have "set_mset H \<subseteq> dom (pw_buf s)" "\<forall>p q. p \<notin> X \<longrightarrow> (p, q) \<in> edges s \<longrightarrow> q \<in> dom (pw_buf s)"
    using assms(1) unfolding refs_ok_def by simp_all
  ultimately show ?thesis unfolding refs_ok_def e by metis
qed

text \<open>The last reference given up: the buffer goes, and its pointer to the next is a reference in hand.\<close>

lemma refs_ok_last:
  assumes r: "refs_ok X s (add_mset p H)" and b: "pw_buf s p = Some b" and one: "pb_ref b = 1" and X: "p \<notin> X"
    and f: "finite (dom (pw_buf s))"
  shows "refs_ok X (drop_buf p m s) (case pb_next b of None \<Rightarrow> H | Some q \<Rightarrow> add_mset q H)"
proof -
  let ?s = "drop_buf p m s" and ?H = "case pb_next b of None \<Rightarrow> H | Some q \<Rightarrow> add_mset q H"
  have cnt: "pb_ref b' = count (add_mset p H) q + card (pointers X s q)" if "pw_buf s q = Some b'" for q b'
    using r that unfolding refs_ok_def by blast
  have "1 = Suc (count H p) + card (pointers X s p)" using cnt [OF b] one by simp
  then have none: "p \<notin># H" "pointers X s p = {}"
    using pointers_finite [OF f] by (auto simp: not_in_iff)
  have pt: "pointers X ?s q = pointers X s q - {p}" for q by (auto simp: pointers_def edges_drop)
  have pe: "p \<in> pointers X s q \<longleftrightarrow> pb_next b = Some q" for q using b X by (auto simp: pointers_def edges_def)
  have live: "q \<in> dom (pw_buf s)" if "pb_next b = Some q" for q
    using r X b that unfolding refs_ok_def edges_def by blast
  have ne: "pb_next b \<noteq> Some p" using pe [of p] none(2) by blast
  show ?thesis
    unfolding refs_ok_def
  proof (intro conjI allI impI)
    fix q b' assume q: "pw_buf ?s q = Some b'"
    then have q': "pw_buf s q = Some b'" "q \<noteq> p" by (auto split: if_splits)
    show "pb_ref b' = count ?H q + card (pointers X ?s q)"
    proof (cases "pb_next b = Some q")
      case True
      then have "p \<in> pointers X s q" using pe by simp
      then have "card (pointers X s q) = Suc (card (pointers X s q - {p}))"
        using pointers_finite [OF f] by (metis card_Suc_Diff1)
      then show ?thesis using cnt [OF q'(1)] q'(2) True by (simp add: pt)
    next
      case False
      then have "pointers X s q - {p} = pointers X s q" using pe by blast
      then show ?thesis using cnt [OF q'(1)] q'(2) False by (auto simp: pt split: option.splits)
    qed
    show "0 < pb_ref b'" "pb_ref b' < 256" using r q'(1) unfolding refs_ok_def by blast+
  next
    have "set_mset H \<subseteq> dom (pw_buf s)" using r unfolding refs_ok_def by simp
    then show "set_mset ?H \<subseteq> dom (pw_buf ?s)"
      using none(1) live ne by (auto split: option.splits)
  next
    fix x y assume x: "x \<notin> X" and e: "(x, y) \<in> edges ?s"
    then have e': "(x, y) \<in> edges s" "x \<noteq> p" by (auto simp: edges_drop)
    have "y \<noteq> p" using none(2) e'(1) x by (auto simp: pointers_def)
    then show "y \<in> dom (pw_buf ?s)" using r x e'(1) unfolding refs_ok_def by auto
  qed
qed

section \<open>Release\<close>

text \<open>What a release leaves: some buffers gone, of the others only a count changed.\<close>

definition only_freed :: "pworld \<Rightarrow> pworld \<Rightarrow> bool" where
  "only_freed s s' \<longleftrightarrow> pw_byte s' = pw_byte s \<and> pbuf_free_ooseq_pending s' = pbuf_free_ooseq_pending s \<and>
     (\<forall>q b'. pw_buf s' q = Some b' \<longrightarrow> (\<exists>b. pw_buf s q = Some b \<and> b' = b\<lparr>pb_ref := pb_ref b'\<rparr>))"

lemma only_freed_refl [simp]: "only_freed s s"
  by (simp add: only_freed_def)

lemma only_freed_trans: "only_freed s t \<Longrightarrow> only_freed t u \<Longrightarrow> only_freed s u"
proof -
  assume a: "only_freed s t" "only_freed t u"
  have "\<exists>b. pw_buf s q = Some b \<and> b2 = b\<lparr>pb_ref := pb_ref b2\<rparr>" if q: "pw_buf u q = Some b2" for q b2
  proof -
    obtain b1 where b1: "pw_buf t q = Some b1" "b2 = b1\<lparr>pb_ref := pb_ref b2\<rparr>" using a(2) q unfolding only_freed_def by blast
    obtain b where b: "pw_buf s q = Some b" "b1 = b\<lparr>pb_ref := pb_ref b1\<rparr>" using a(1) b1(1) unfolding only_freed_def by blast
    have "b1\<lparr>pb_ref := pb_ref b2\<rparr> = b\<lparr>pb_ref := pb_ref b2\<rparr>" by (subst b(2)) simp
    then show ?thesis using b(1) b1(2) by simp
  qed
  then show "only_freed s u" using a unfolding only_freed_def by simp
qed

lemma only_freed_edges: "only_freed s s' \<Longrightarrow> edges s' \<subseteq> edges s"
proof
  fix e assume o: "only_freed s s'" and "e \<in> edges s'"
  then obtain p q b' where e: "e = (p, q)" "pw_buf s' p = Some b'" "pb_next b' = Some q" by (auto simp: edges_def)
  then obtain b where "pw_buf s p = Some b" "b' = b\<lparr>pb_ref := pb_ref b'\<rparr>" using o unfolding only_freed_def by blast
  moreover from this(2) have "pb_next b' = pb_next b" by (metis pbuf.select_convs(1) pbuf.surjective pbuf.update_convs(7))
  ultimately show "e \<in> edges s" using e by (auto simp: edges_def)
qed

lemma free_loop_None [simp]: "pbuf_free_loop cf None c s = Some (Inr (c, s))"
  by (subst pbuf_free_loop.simps) simp

lemma free_loop_dec:
  "pw_buf s p = Some b \<Longrightarrow> 1 < pb_ref b \<Longrightarrow> pb_ref b < 256 \<Longrightarrow>
   pbuf_free_loop cf (Some p) c s = Some (Inr (c, put p (b\<lparr>pb_ref := pb_ref b - 1\<rparr>) s))"
  by (subst pbuf_free_loop.simps) (simp add: Let_def u8c_simps)

lemma free_loop_last:
  assumes "pw_buf s p = Some b" "pb_ref b = 1" "pbuf_dealloc cf p (b\<lparr>pb_ref := 0\<rparr>) (put p (b\<lparr>pb_ref := 0\<rparr>) s) = Inr s'"
  shows "pbuf_free_loop cf (Some p) c s = pbuf_free_loop cf (pb_next b) (u8c (c + 1)) s'"
  using assms by (subst pbuf_free_loop.simps) (simp add: Let_def u8c_def)

text \<open>The loop ends, never faults, and keeps the counts; \<open>X\<close> are buffers the caller has taken out of their chain.\<close>

lemma free_loop_inv:
  assumes "world_inv s L" "refs_ok X s (add_mset p H)" "edges s \<subseteq> E" "acyclic E" "\<forall>x\<in>X. (x, p) \<in> E\<^sup>+"
  shows "\<exists>n s' L'. pbuf_free_loop cf (Some p) c s = Some (Inr (n, s')) \<and> world_inv s' L' \<and> refs_ok X s' H \<and>
    only_freed s s' \<and> X \<inter> dom (pw_buf s) \<subseteq> dom (pw_buf s') \<and> L' \<subseteq>\<^sub>m L"
  using assms
proof (induction "card (dom (pw_buf s))" arbitrary: s L p c rule: less_induct)
  case less
  have f: "finite (dom (pw_buf s))" by (rule world_finite [OF less.prems(1)])
  have "p \<in> dom (pw_buf s)" using less.prems(2) by (simp add: refs_ok_def)
  then obtain b where b: "pw_buf s p = Some b" by auto
  have r: "0 < pb_ref b" "pb_ref b < 256" using less.prems(2) b unfolding refs_ok_def by blast+
  have pX: "p \<notin> X" using less.prems(4,5) by (auto simp: acyclic_def)
  show ?case
  proof (cases "pb_ref b = 1")
    case False
    then have g: "1 < pb_ref b" using r by simp
    let ?s = "put p (b\<lparr>pb_ref := pb_ref b - 1\<rparr>) s"
    have "world_inv ?s L" using world_inv_put [OF less.prems(1) b] less.prems(1) b by (auto simp: world_inv_def)
    moreover have "only_freed s ?s" using b by (auto simp: only_freed_def)
    ultimately show ?thesis
      using free_loop_dec [OF b g r(2)] refs_ok_dec [OF less.prems(2) b g] by (fastforce simp: map_le_def)
  next
    case True
    obtain m where m: "pbuf_dealloc cf p (b\<lparr>pb_ref := 0\<rparr>) (put p (b\<lparr>pb_ref := 0\<rparr>) s) = Inr (drop_buf p m s)"
      "world_inv (drop_buf p m s) (L(p := None))"
      using dealloc_ok [OF less.prems(1) b] by blast
    let ?s = "drop_buf p m s"
    note run = free_loop_last [OF b True m(1), of c]
    note last = refs_ok_last [OF less.prems(2) b True pX f, of m]
    have o: "only_freed s ?s" by (auto simp: only_freed_def split: if_splits)
    have sub: "X \<inter> dom (pw_buf s) \<subseteq> dom (pw_buf ?s)" using pX by auto
    show ?thesis
    proof (cases "pb_next b")
      case None
      then have "pbuf_free_loop cf (Some p) c s = Some (Inr (u8c (c + 1), ?s))" "refs_ok X ?s H" using run last by simp_all
      moreover have "L(p := None) \<subseteq>\<^sub>m L" by (simp add: map_le_def)
      ultimately show ?thesis using m(2) o sub by blast
    next
      case (Some q)
      have "(p, q) \<in> E" using b Some less.prems(3) by (auto simp: edges_def)
      then have X: "\<forall>x\<in>X. (x, q) \<in> E\<^sup>+" using less.prems(5) by (meson trancl.trancl_into_trancl)
      have smaller: "card (dom (pw_buf ?s)) < card (dom (pw_buf s))"
        using card_Diff1_less [OF f domI [of "pw_buf s" p b, OF b]] by simp
      have E: "edges ?s \<subseteq> E" using less.prems(3) by (auto simp: edges_drop)
      have last': "refs_ok X ?s (add_mset q H)" using last Some by simp
      obtain n s' L' where s': "pbuf_free_loop cf (Some q) (u8c (c + 1)) ?s = Some (Inr (n, s'))" "world_inv s' L'"
        "refs_ok X s' H" "only_freed ?s s'" "X \<inter> dom (pw_buf ?s) \<subseteq> dom (pw_buf s')" "L' \<subseteq>\<^sub>m L(p := None)"
        using less.hyps [OF smaller m(2) last' E less.prems(4) X, of "u8c (c + 1)"] by blast
      have "L' \<subseteq>\<^sub>m L" using s'(6) by (auto simp: map_le_def split: if_splits)
      moreover have "X \<inter> dom (pw_buf s) \<subseteq> dom (pw_buf s')" using sub s'(5) by blast
      ultimately show ?thesis using run Some s' only_freed_trans [OF o s'(4)] by auto
    qed
  qed
qed

section \<open>The invariant of the module\<close>

definition chains_inv :: "pworld \<Rightarrow> (nat \<rightharpoonup> u8 \<times> nat) \<Rightarrow> nat multiset \<Rightarrow> bool" where
  "chains_inv s L H \<longleftrightarrow> world_inv s L \<and> refs_ok {} s H \<and> acyclic (edges s)"

lemma chains_inv_live: "chains_inv s L H \<Longrightarrow> p \<in># H \<Longrightarrow> \<exists>b. pw_buf s p = Some b"
  by (auto simp: chains_inv_def refs_ok_def)

lemma chains_inv_buf: "chains_inv s L H \<Longrightarrow> pw_buf s p = Some b \<Longrightarrow> buf_ok L p b"
  by (simp add: chains_inv_def world_inv_def)

text \<open>Changes that keep the links and the counts.\<close>

definition same_links :: "pworld \<Rightarrow> pworld \<Rightarrow> bool" where
  "same_links s s' \<longleftrightarrow> (\<forall>p. map_option (\<lambda>b. (pb_next b, pb_ref b)) (pw_buf s' p) = map_option (\<lambda>b. (pb_next b, pb_ref b)) (pw_buf s p))"

lemma same_links_buf: "same_links s s' \<Longrightarrow> pw_buf s p = Some b \<Longrightarrow> \<exists>b'. pw_buf s' p = Some b' \<and> pb_next b' = pb_next b \<and> pb_ref b' = pb_ref b"
  unfolding same_links_def by (erule allE [of _ p]) auto

lemma same_links_sym: "same_links s s' \<Longrightarrow> same_links s' s"
  by (simp add: same_links_def)

lemma same_links_trans: "same_links s t \<Longrightarrow> same_links t u \<Longrightarrow> same_links s u"
  by (simp add: same_links_def)

lemma same_links_edges: "same_links s s' \<Longrightarrow> edges s' = edges s"
  unfolding edges_def using same_links_buf same_links_sym by (metis (no_types, lifting))

lemma same_links_dom: "same_links s s' \<Longrightarrow> dom (pw_buf s') = dom (pw_buf s)"
  using same_links_buf same_links_sym by blast

lemma refs_ok_links:
  assumes "refs_ok X s H" "same_links s s'"
  shows "refs_ok X s' H"
proof -
  have p: "pointers X s' q = pointers X s q" for q unfolding pointers_def same_links_edges [OF assms(2)] ..
  have cnt: "pb_ref b' = count H q + card (pointers X s q) \<and> 0 < pb_ref b' \<and> pb_ref b' < 256" if q: "pw_buf s' q = Some b'" for q b'
  proof -
    obtain b where b: "pw_buf s q = Some b" "pb_ref b = pb_ref b'"
      using same_links_buf [OF same_links_sym [OF assms(2)] q] by metis
    have "pb_ref b = count H q + card (pointers X s q) \<and> 0 < pb_ref b \<and> pb_ref b < 256"
      using assms(1) b(1) unfolding refs_ok_def by blast
    then show ?thesis unfolding b(2) .
  qed
  show ?thesis
  proof (rule refs_okI)
    show "pb_ref b = count H q + card (pointers X s' q) \<and> 0 < pb_ref b \<and> pb_ref b < 256" if "pw_buf s' q = Some b" for q b
      unfolding p by (rule cnt [OF that])
    show "set_mset H \<subseteq> dom (pw_buf s')" using refs_okD(2) [OF assms(1)] same_links_dom [OF assms(2)] by simp
    show "y \<in> dom (pw_buf s')" if "x \<notin> X" "(x, y) \<in> edges s'" for x y
      using refs_okD(3) [OF assms(1)] that same_links_dom [OF assms(2)] same_links_edges [OF assms(2)] by simp
  qed
qed

lemma chains_inv_links:
  assumes "chains_inv s L H" "same_links s s'" "world_inv s' L'"
  shows "chains_inv s' L' H"
  using assms refs_ok_links [OF _ assms(2)] same_links_edges [OF assms(2)] by (simp add: chains_inv_def)

lemma same_links_put: "pw_buf s p = Some b \<Longrightarrow> pb_next b' = pb_next b \<Longrightarrow> pb_ref b' = pb_ref b \<Longrightarrow> same_links s (put p b' s)"
  by (simp add: same_links_def)

lemma chains_inv_put:
  assumes "chains_inv s L H" "pw_buf s p = Some b" "buf_ok L p b'" "pb_next b' = pb_next b" "pb_ref b' = pb_ref b"
  shows "chains_inv (put p b' s) L H"
  by (rule chains_inv_links [OF assms(1) same_links_put [OF assms(2,4,5)]])
    (use assms world_inv_put in \<open>auto simp: chains_inv_def\<close>)

text \<open>The structures and the memory are all the invariant speaks of.\<close>

lemma chains_inv_cong: "pw_buf s' = pw_buf s \<Longrightarrow> pw_mem s' = pw_mem s \<Longrightarrow> chains_inv s' L H = chains_inv s L H"
  by (simp add: chains_inv_def world_inv_def refs_ok_def pointers_def edges_def)

section \<open>Steps between the users and the links\<close>

text \<open>A new buffer is a reference in hand.\<close>

lemma chains_inv_new:
  assumes "chains_inv s L H" "L p = None" "pmem_inv m (L(p \<mapsto> v))" "buf_ok (L(p \<mapsto> v)) p b" "pb_next b = None" "pb_ref b = 1"
  shows "chains_inv (put p b (s\<lparr>pw_mem := m\<rparr>)) (L(p \<mapsto> v)) (add_mset p H)"
proof -
  let ?s = "put p b (s\<lparr>pw_mem := m\<rparr>)"
  have i: "world_inv s L" "refs_ok {} s H" "acyclic (edges s)" using assms(1) by (simp_all add: chains_inv_def)
  have p: "pw_buf s p = None" using i(1) assms(2) by (auto simp: world_inv_def)
  have e: "edges ?s = edges s" using assms(5) p by (auto simp: edges_def split: if_splits)
  have pt: "pointers {} ?s q = pointers {} s q" for q unfolding pointers_def e ..
  have np: "pointers {} s p = {}" using i(2) p unfolding refs_ok_def pointers_def by blast
  have nh: "p \<notin># H" using i(2) p unfolding refs_ok_def by blast
  have w: "world_inv ?s (L(p \<mapsto> v))"
    using i(1) assms(3,4) p by (auto simp: world_inv_def buf_ok_other)
  have "refs_ok {} ?s (add_mset p H)"
    unfolding refs_ok_def e pt
  proof (intro conjI allI impI)
    fix q b' assume q: "pw_buf ?s q = Some b'"
    show "pb_ref b' = count (add_mset p H) q + card (pointers {} s q)" "0 < pb_ref b'" "pb_ref b' < 256"
    proof (atomize (full), cases "q = p")
      case True
      then show "pb_ref b' = count (add_mset p H) q + card (pointers {} s q) \<and> 0 < pb_ref b' \<and> pb_ref b' < 256"
        using q assms(6) np nh by (simp add: not_in_iff)
    next
      case False
      then have "pw_buf s q = Some b'" using q by simp
      then have "pb_ref b' = count H q + card (pointers {} s q) \<and> 0 < pb_ref b' \<and> pb_ref b' < 256"
        using i(2) unfolding refs_ok_def by blast
      then show "pb_ref b' = count (add_mset p H) q + card (pointers {} s q) \<and> 0 < pb_ref b' \<and> pb_ref b' < 256"
        using False by (metis count_add_mset)
    qed
  next
    have "set_mset H \<subseteq> dom (pw_buf s)" using i(2) by (simp add: refs_ok_def)
    then show "set_mset (add_mset p H) \<subseteq> dom (pw_buf ?s)" by auto
  next
    fix x y assume "(x, y) \<in> edges s"
    then have "y \<in> dom (pw_buf s)" using i(2) unfolding refs_ok_def by blast
    then show "y \<in> dom (pw_buf ?s)" by auto
  qed
  then show ?thesis using w e i(3) by (simp add: chains_inv_def)
qed

text \<open>One more reference to a live buffer.\<close>

lemma chains_inv_ref:
  assumes "chains_inv s L H" "pw_buf s p = Some b" "pb_ref b < 255"
  shows "chains_inv (put p (b\<lparr>pb_ref := pb_ref b + 1\<rparr>) s) L (add_mset p H)"
proof -
  let ?s = "put p (b\<lparr>pb_ref := pb_ref b + 1\<rparr>) s"
  have i: "world_inv s L" "refs_ok {} s H" "acyclic (edges s)" using assms(1) by (simp_all add: chains_inv_def)
  have e: "edges ?s = edges s" using edges_put_same [OF assms(2)] by simp
  have pt: "pointers {} ?s q = pointers {} s q" for q unfolding pointers_def e ..
  have "refs_ok {} ?s (add_mset p H)"
    unfolding refs_ok_def e pt
  proof (intro conjI allI impI)
    fix q b' assume q: "pw_buf ?s q = Some b'"
    show "pb_ref b' = count (add_mset p H) q + card (pointers {} s q)" "0 < pb_ref b'" "pb_ref b' < 256"
    proof (atomize (full), cases "q = p")
      case True
      have "pb_ref b = count H p + card (pointers {} s p)" using i(2) assms(2) unfolding refs_ok_def by blast
      then show "pb_ref b' = count (add_mset p H) q + card (pointers {} s q) \<and> 0 < pb_ref b' \<and> pb_ref b' < 256"
        using q True assms(3) by auto
    next
      case False
      then have "pw_buf s q = Some b'" using q by simp
      then have "pb_ref b' = count H q + card (pointers {} s q) \<and> 0 < pb_ref b' \<and> pb_ref b' < 256"
        using i(2) unfolding refs_ok_def by blast
      then show "pb_ref b' = count (add_mset p H) q + card (pointers {} s q) \<and> 0 < pb_ref b' \<and> pb_ref b' < 256"
        using False by (metis count_add_mset)
    qed
  next
    show "set_mset (add_mset p H) \<subseteq> dom (pw_buf ?s)" using i(2) by (auto simp: refs_ok_def)
  next
    fix x y assume "(x, y) \<in> edges s"
    then have "y \<in> dom (pw_buf s)" using i(2) unfolding refs_ok_def by blast
    then show "y \<in> dom (pw_buf ?s)" by auto
  qed
  moreover have "world_inv ?s L" using world_inv_put [OF i(1) assms(2)] i(1) assms(2) by (auto simp: world_inv_def)
  ultimately show ?thesis using e i(3) by (simp add: chains_inv_def)
qed

text \<open>A reference in hand stored into the \<^verbatim>\<open>next\<close> field of the last buffer of another chain, and taken out again.\<close>

lemma chains_inv_link:
  assumes "chains_inv s L (add_mset q H)" "pw_buf s p = Some b" "pb_next b = None" "(q, p) \<notin> (edges s)\<^sup>*"
    "buf_ok L p b'" "pb_next b' = Some q" "pb_ref b' = pb_ref b"
  shows "chains_inv (put p b' s) L H"
proof -
  let ?s = "put p b' s"
  have i: "world_inv s L" "refs_ok {} s (add_mset q H)" "acyclic (edges s)" using assms(1) by (simp_all add: chains_inv_def)
  have e: "edges ?s = insert (p, q) (edges s)"
    using assms(2,3,6) by (auto simp: edges_def split: if_splits)
  have np: "(p, x) \<notin> edges s" for x using assms(2,3) by (auto simp: edges_def)
  have pt: "pointers {} ?s x = (if x = q then insert p (pointers {} s q) else pointers {} s x)" for x
    by (auto simp: pointers_def e)
  have fin: "finite (pointers {} s q)" by (rule pointers_finite [OF world_finite [OF i(1)]])
  have card: "card (pointers {} ?s x) = card (pointers {} s x) + (if x = q then 1 else 0)" for x
    using fin np card_insert_disjoint [of "pointers {} s q" p] by (simp add: pt) (simp add: pointers_def)
  have "refs_ok {} ?s H"
    unfolding refs_ok_def
  proof (intro conjI allI impI)
    fix x c assume x: "pw_buf ?s x = Some c"
    obtain c' where c': "pw_buf s x = Some c'" "pb_ref c = pb_ref c'" using x assms(2,7) by (cases "x = p") auto
    have "pb_ref c' = count (add_mset q H) x + card (pointers {} s x) \<and> 0 < pb_ref c' \<and> pb_ref c' < 256"
      using i(2) c'(1) unfolding refs_ok_def by blast
    then show "pb_ref c = count H x + card (pointers {} ?s x)" "0 < pb_ref c" "pb_ref c < 256"
      using c'(2) card [of x] by (auto split: if_splits)
  next
    show "set_mset H \<subseteq> dom (pw_buf ?s)" using i(2) by (auto simp: refs_ok_def)
  next
    fix x y assume "(x, y) \<in> edges ?s"
    then have "y \<in> dom (pw_buf s)" using i(2) unfolding e refs_ok_def by auto
    then show "y \<in> dom (pw_buf ?s)" by auto
  qed
  moreover have "acyclic (edges ?s)" unfolding e using i(3) assms(4) by (simp add: acyclic_insert)
  moreover have "world_inv ?s L" by (rule world_inv_put [OF i(1) assms(2,5)])
  ultimately show ?thesis by (simp add: chains_inv_def)
qed

lemma chains_inv_unlink:
  assumes "chains_inv s L H" "pw_buf s p = Some b" "pb_next b = Some q" "buf_ok L p b'" "pb_next b' = None" "pb_ref b' = pb_ref b"
  shows "chains_inv (put p b' s) L (add_mset q H)"
proof -
  let ?s = "put p b' s"
  have i: "world_inv s L" "refs_ok {} s H" "acyclic (edges s)" using assms(1) by (simp_all add: chains_inv_def)
  have e: "edges ?s = edges s - {(p, q)}"
    using assms(2,3,5) by (auto simp: edges_def split: if_splits)
  have in_e: "(p, q) \<in> edges s" using assms(2,3) by (auto simp: edges_def)
  have pt: "pointers {} ?s x = (if x = q then pointers {} s q - {p} else pointers {} s x)" for x
    by (auto simp: pointers_def e)
  have fin: "finite (pointers {} s q)" by (rule pointers_finite [OF world_finite [OF i(1)]])
  have card: "card (pointers {} s x) = card (pointers {} ?s x) + (if x = q then 1 else 0)" for x
    using card_Suc_Diff1 [OF fin, of p] in_e by (simp add: pt) (simp add: pointers_def)
  have "refs_ok {} ?s (add_mset q H)"
    unfolding refs_ok_def
  proof (intro conjI allI impI)
    fix x c assume x: "pw_buf ?s x = Some c"
    obtain c' where c': "pw_buf s x = Some c'" "pb_ref c = pb_ref c'" using x assms(2,6) by (cases "x = p") auto
    have "pb_ref c' = count H x + card (pointers {} s x) \<and> 0 < pb_ref c' \<and> pb_ref c' < 256"
      using i(2) c'(1) unfolding refs_ok_def by blast
    then show "pb_ref c = count (add_mset q H) x + card (pointers {} ?s x)" "0 < pb_ref c" "pb_ref c < 256"
      using c'(2) card [of x] by (auto split: if_splits)
  next
    have "q \<in> dom (pw_buf s)" using i(2) in_e unfolding refs_ok_def by blast
    then show "set_mset (add_mset q H) \<subseteq> dom (pw_buf ?s)" using i(2) by (auto simp: refs_ok_def)
  next
    fix x y assume "(x, y) \<in> edges ?s"
    then have "y \<in> dom (pw_buf s)" using i(2) unfolding e refs_ok_def by auto
    then show "y \<in> dom (pw_buf ?s)" by auto
  qed
  moreover have "acyclic (edges ?s)" unfolding e using i(3) by (rule acyclic_subset) auto
  moreover have "world_inv ?s L" by (rule world_inv_put [OF i(1) assms(2,4)])
  ultimately show ?thesis by (simp add: chains_inv_def)
qed

section \<open>The operations keep it\<close>

lemma free_ok:
  assumes "chains_inv s L (add_mset p H)"
  shows "\<exists>n s' L'. pbuf_free cf (Some p) s = Some (Inr (n, s')) \<and> chains_inv s' L' H \<and> only_freed s s' \<and> L' \<subseteq>\<^sub>m L"
proof -
  have i: "world_inv s L" "refs_ok {} s (add_mset p H)" "acyclic (edges s)" using assms by (simp_all add: chains_inv_def)
  obtain n s' L' where s': "pbuf_free_loop cf (Some p) 0 s = Some (Inr (n, s'))" "world_inv s' L'" "refs_ok {} s' H"
    "only_freed s s'" "L' \<subseteq>\<^sub>m L"
    using free_loop_inv [OF i(1,2) order_refl i(3), of cf 0] by blast
  have "acyclic (edges s')" using i(3) only_freed_edges [OF s'(4)] by (rule acyclic_subset)
  then show ?thesis using s' by (auto simp: pbuf_free_def chains_inv_def)
qed

lemma ref_ok:
  assumes "chains_inv s L H" "pw_buf s p = Some b"
  shows "if pb_ref b = 255 then pbuf_ref (Some p) s = Inl AssertFailed
    else \<exists>s'. pbuf_ref (Some p) s = Inr s' \<and> chains_inv s' L (add_mset p H)"
proof -
  have "pb_ref b < 256" using assms unfolding chains_inv_def refs_ok_def by blast
  then show ?thesis
    using chains_inv_ref [OF assms] assms(2) by (cases "pb_ref b = 255") (auto simp: pbuf_ref_def u8c_def deref_def)
qed

lemma u16c_less [simp]: "u16c n < 65536"
  by (simp add: u16c_def)

lemma chains_wf: "chains_inv s L H \<Longrightarrow> wf ((edges s)\<inverse>)"
proof -
  assume i: "chains_inv s L H"
  have "finite (dom (pw_buf s))" using i world_finite by (auto simp: chains_inv_def)
  moreover have "edges s \<subseteq> dom (pw_buf s) \<times> dom (pw_buf s)"
    using i refs_okD(3) [of "{}" s H] by (auto simp: chains_inv_def dest: edges_dom)
  ultimately have "finite (edges s)" by (meson finite_SigmaI finite_subset)
  then show ?thesis using i by (simp add: chains_inv_def finite_acyclic_wf_converse)
qed

lemma edge_live: "chains_inv s L H \<Longrightarrow> pw_buf s p = Some b \<Longrightarrow> pb_next b = Some q \<Longrightarrow> \<exists>b'. pw_buf s q = Some b'"
  using refs_okD(3) [of "{}" s H p q] by (auto simp: chains_inv_def edges_def)

lemma path_live: "(p, q) \<in> (edges s)\<^sup>* \<Longrightarrow> chains_inv s L H \<Longrightarrow> pw_buf s p = Some b \<Longrightarrow> \<exists>b'. pw_buf s q = Some b'"
  by (induction rule: rtrancl_induct) (auto simp: edges_def dest: edge_live)

lemma buf_ok_len [simp]: "buf_ok L p b \<Longrightarrow> t < 65536 \<Longrightarrow> buf_ok L p (b\<lparr>tot_len := t\<rparr>)"
  by (simp add: buf_ok_def pbuf_get_allocsrc_def)

text \<open>The walk over the head of a concatenation.\<close>

lemma cat_loop_ok:
  assumes "wf (E\<inverse>)" "edges s = E" "chains_inv s L H" "pw_buf s p = Some b" "pw_buf s t \<noteq> None"
  shows "\<exists>q s'. cat_loop t p s = Some (Inr (q, s')) \<and> chains_inv s' L H \<and> same_links s s' \<and> (p, q) \<in> E\<^sup>* \<and>
    pw_mem s' = pw_mem s \<and> pw_byte s' = pw_byte s \<and> (\<exists>bq. pw_buf s' q = Some bq \<and> pb_next bq = None)"
  using assms
proof (induction p arbitrary: s b rule: wf_induct_rule)
  case (less p)
  show ?case
  proof (cases "pb_next b")
    case None
    then show ?thesis using less.prems by (subst cat_loop.simps) (auto simp: same_links_def)
  next
    case (Some q)
    obtain bt where bt: "pw_buf s t = Some bt" using less.prems(4) by auto
    let ?s = "put p (b\<lparr>tot_len := u16c (tot_len b + tot_len bt)\<rparr>) s"
    have l: "same_links s ?s" by (rule same_links_put [OF less.prems(3)]) simp_all
    have i: "chains_inv ?s L H"
      by (rule chains_inv_put [OF less.prems(2,3)]) (use chains_inv_buf [OF less.prems(2,3)] in simp_all)
    have e: "edges ?s = E" using same_links_edges [OF l] less.prems(1) by simp
    have pq: "(p, q) \<in> E" using less.prems(1,3) Some by (auto simp: edges_def)
    obtain b' where b': "pw_buf ?s q = Some b'"
      using edge_live [OF less.prems(2,3) Some] same_links_dom [OF l] by blast
    have t': "pw_buf ?s t \<noteq> None" using bt by simp
    obtain r s' where "cat_loop t q ?s = Some (Inr (r, s'))" "chains_inv s' L H" "same_links ?s s'" "(q, r) \<in> E\<^sup>*"
      "pw_mem s' = pw_mem ?s" "pw_byte s' = pw_byte ?s" "\<exists>bq. pw_buf s' r = Some bq \<and> pb_next bq = None"
      using less.IH [OF _ e i b' t'] pq by (metis converse_iff)
    moreover have "(p, r) \<in> E\<^sup>*" using pq \<open>(q, r) \<in> E\<^sup>*\<close> by (rule converse_rtrancl_into_rtrancl)
    ultimately show ?thesis
      using same_links_trans [OF l] less.prems(3) Some bt by (subst cat_loop.simps) auto
  qed
qed

lemma cat_ok:
  assumes "chains_inv s L (add_mset t H)" "pw_buf s h = Some b" "\<forall>x. (h, x) \<in> (edges s)\<^sup>* \<longrightarrow> (t, x) \<notin> (edges s)\<^sup>*"
  shows "pbuf_cat (Some h) (Some t) s = Some (Inl AssertFailed) \<or>
    (\<exists>s'. pbuf_cat (Some h) (Some t) s = Some (Inr s') \<and> chains_inv s' L H)"
proof -
  have t: "pw_buf s t \<noteq> None" using chains_inv_live [OF assms(1)] by auto
  obtain q s1 bq where c: "cat_loop t h s = Some (Inr (q, s1))" "chains_inv s1 L (add_mset t H)" "same_links s s1"
    "(h, q) \<in> (edges s)\<^sup>*" "pw_buf s1 q = Some bq" "pb_next bq = None"
    using cat_loop_ok [OF chains_wf [OF assms(1)] refl assms(1,2) t] by blast
  obtain bt where bt: "pw_buf s1 t = Some bt" using t same_links_dom [OF c(3)] by blast
  show ?thesis
  proof (cases "tot_len bq = pb_len bq")
    case False
    then show ?thesis using c by (simp add: pbuf_cat_def deref_def)
  next
    case True
    let ?b = "bq\<lparr>tot_len := u16c (tot_len bq + tot_len bt), pb_next := Some t\<rparr>"
    have np: "(t, q) \<notin> (edges s1)\<^sup>*" using assms(3) c(4) same_links_edges [OF c(3)] by simp
    have "buf_ok L q ?b" using chains_inv_buf [OF c(2,5)] by simp
    then have "chains_inv (put q ?b s1) L H" by (intro chains_inv_link [OF c(2,5,6) np]) simp_all
    then show ?thesis using c bt True by (auto simp: pbuf_cat_def deref_def)
  qed
qed

lemma chain_ok:
  assumes "chains_inv s L H" "t \<in># H" "pw_buf s h = Some b" "\<forall>x. (h, x) \<in> (edges s)\<^sup>* \<longrightarrow> (t, x) \<notin> (edges s)\<^sup>*"
    "pbuf_chain (Some h) (Some t) s = Some (Inr s')"
  shows "chains_inv s' L H"
proof -
  obtain H' where H: "H = add_mset t H'" using assms(2) by (metis mset_add)
  obtain s1 where s1: "pbuf_cat (Some h) (Some t) s = Some (Inr s1)" "chains_inv s1 L H'"
    using cat_ok [OF assms(1) [unfolded H] assms(3,4)] assms(5) by (auto simp: pbuf_chain_def)
  then have r: "pbuf_ref (Some t) s1 = Inr s'" using assms(5) by (simp add: pbuf_chain_def)
  obtain bt where bt: "pw_buf s1 t = Some bt" using r by (cases "pw_buf s1 t") (auto simp: pbuf_ref_def deref_def)
  show ?thesis using ref_ok [OF s1(2) bt] r by (auto simp: H split: if_splits)
qed

lemma dechain_ok:
  assumes "chains_inv s L H" "p \<in># H" "pbuf_dechain cf p s = Some (Inr (r, s'))"
  shows "\<exists>L'. chains_inv s' L' H"
proof -
  obtain b where b: "pw_buf s p = Some b" using chains_inv_live [OF assms(1,2)] by blast
  show ?thesis
  proof (cases "pb_next b")
    case None
    then have "s' = s" using assms(3) b by (auto simp: pbuf_dechain_def deref_def split: if_splits)
    then show ?thesis using assms(1) by blast
  next
    case (Some q)
    obtain bq where bq: "pw_buf s q = Some bq" using edge_live [OF assms(1) b Some] by blast
    have "(p, q) \<in> edges s" using b Some by (auto simp: edges_def)
    then have ne: "p \<noteq> q" using assms(1) by (auto simp: chains_inv_def acyclic_def)
    let ?s1 = "put q (bq\<lparr>tot_len := u16c (tot_len b + 65536 - pb_len b)\<rparr>) s"
    have i1: "chains_inv ?s1 L H"
      by (rule chains_inv_put [OF assms(1) bq]) (use chains_inv_buf [OF assms(1) bq] in simp_all)
    let ?s2 = "put p (b\<lparr>pb_next := None, tot_len := pb_len b\<rparr>) ?s1"
    have "pb_len b < 65536" using chains_inv_buf [OF assms(1) b] by (simp add: buf_ok_def)
    then have i2: "chains_inv ?s2 L (add_mset q H)"
      by (intro chains_inv_unlink [OF i1 _ Some]) (use b ne chains_inv_buf [OF assms(1) b] in simp_all)
    obtain n s3 L' where s3: "pbuf_free cf (Some q) ?s2 = Some (Inr (n, s3))" "chains_inv s3 L' H"
      using free_ok [OF i2] by blast
    obtain b3 where b3: "pw_buf s3 p = Some b3" using chains_inv_live [OF s3(2) assms(2)] by blast
    have "s' = s3"
      using assms(3) b Some bq s3(1) b3 by (auto simp: pbuf_dechain_def deref_def Let_def split: if_splits)
    then show ?thesis using s3(2) by blast
  qed
qed

section \<open>Headers\<close>

lemma u16c_minus: "m \<le> n \<Longrightarrow> n < 65536 \<Longrightarrow> u16c (n + 65536 - m) = n - m"
  by (simp add: u16c_def mod_if)

lemma remove_header_ok:
  assumes "chains_inv s L H" "pw_buf s p = Some b"
  shows "\<exists>n s'. pbuf_remove_header (Some p) d s = Inr (n, s') \<and> chains_inv s' L H \<and> same_links s s' \<and> pw_mem s' = pw_mem s"
proof (cases "0 < d \<and> d \<le> pb_len b")
  case True
  have ok: "buf_ok L p b" by (rule chains_inv_buf [OF assms])
  then have d: "d < 65536" using True by (auto simp: buf_ok_def)
  let ?b = "b\<lparr>payload := payload b + d, pb_len := u16c (pb_len b + 65536 - u16c d), tot_len := u16c (tot_len b + 65536 - u16c d)\<rparr>"
  have "buf_ok L p ?b"
    using ok True d u16c_minus [of d "pb_len b"] by (auto simp: buf_ok_def pbuf_get_allocsrc_def)
  then have "chains_inv (put p ?b s) L H" by (intro chains_inv_put [OF assms]) simp_all
  then show ?thesis
    using True d assms(2) same_links_put [OF assms(2), of ?b] by (auto simp: pbuf_remove_header_def deref_def)
next
  case False
  have "pb_len b < 65536" using chains_inv_buf [OF assms] by (simp add: buf_ok_def)
  then have "pbuf_remove_header (Some p) d s = Inr (0, s) \<or> pbuf_remove_header (Some p) d s = Inr (1, s)"
    using False assms(2) by (auto simp: pbuf_remove_header_def deref_def)
  then show ?thesis using assms(1) by (auto simp: same_links_def)
qed

lemma add_header_ok:
  assumes "chains_inv s L H" "pw_buf s p = Some b" "pbuf_add_header_impl (Some p) d force s = Inr (n, s')"
  shows "chains_inv s' L H"
proof (cases "s' = s")
  case False
  have ok: "buf_ok L p b" by (rule chains_inv_buf [OF assms(1,2)])
  let ?b = "b\<lparr>payload := nat (int (payload b) - int d), pb_len := u16c (pb_len b + u16c d), tot_len := u16c (tot_len b + u16c d)\<rparr>"
  have d: "d \<le> 0xFFFF" "0 < d" "s' = put p ?b s" "\<not> int (payload b) - int d < 0"
    "type_internal b AND 0x80 \<noteq> 0 \<longrightarrow> \<not> int (payload b) - int d < int (p + SIZEOF_STRUCT_PBUF)"
    "\<not> u16c (u16c d + tot_len b) < u16c d"
    using assms(2,3) False by (auto simp: pbuf_add_header_impl_def deref_def Let_def split: if_splits)
  have "u16c (pb_len b + u16c d) \<le> pb_len b + d" using mod_less_eq_dividend d(1) by (simp add: u16c_def) 
  then have "buf_ok L p ?b"
    using ok d(4,5) by (auto simp: buf_ok_def pbuf_get_allocsrc_def)
  then show ?thesis unfolding d(3) by (intro chains_inv_put [OF assms(1,2)]) simp_all
qed (use assms(1) in simp)

lemma free_header_ok:
  assumes "wf (E\<inverse>)" "edges s \<subseteq> E" "chains_inv s L (case p of None \<Rightarrow> H | Some p \<Rightarrow> add_mset p H)"
  shows "\<exists>r s' L'. free_header_loop cf p left s = Some (Inr (r, s')) \<and> chains_inv s' L' (case r of None \<Rightarrow> H | Some q \<Rightarrow> add_mset q H)"
proof (cases p)
  case None
  then show ?thesis using assms(3) by (subst free_header_loop.simps) auto
next
  case (Some p0)
  have "\<exists>r s' L'. free_header_loop cf (Some p0) left s = Some (Inr (r, s')) \<and> chains_inv s' L' (case r of None \<Rightarrow> H | Some q \<Rightarrow> add_mset q H)"
    using assms(1,2) assms(3) [unfolded Some option.case]
  proof (induction p0 arbitrary: s L left rule: wf_induct_rule)
    case (less p)
    obtain b where b: "pw_buf s p = Some b" using chains_inv_live [OF less.prems(2)] by auto
    consider "left = 0" | "0 < left" "left < pb_len b" | "0 < left" "pb_len b \<le> left" by linarith
    then show ?case
    proof cases
      case 1
      then show ?thesis using less.prems by (subst free_header_loop.simps) auto
    next
      case 2
      obtain n s1 where s1: "pbuf_remove_header (Some p) left s = Inr (n, s1)" "chains_inv s1 L (add_mset p H)"
        using remove_header_ok [OF less.prems(2) b] by blast
      have "free_header_loop cf (Some p) left s = free_header_loop cf (Some p) 0 s1"
        using 2 b s1(1) by (subst free_header_loop.simps) simp
      moreover have "free_header_loop cf (Some p) 0 s1 = Some (Inr (Some p, s1))"
        by (subst free_header_loop.simps) simp
      ultimately show ?thesis using s1(2) by auto
    next
      case 3
      let ?s = "put p (b\<lparr>pb_next := None\<rparr>) s" and ?l = "u16c (left + 65536 - pb_len b)"
      have ok: "buf_ok L p b" by (rule chains_inv_buf [OF less.prems(2) b])
      let ?H = "case pb_next b of None \<Rightarrow> H | Some q \<Rightarrow> add_mset q H"
      have i: "chains_inv ?s L (add_mset p ?H)"
      proof (cases "pb_next b")
        case None
        then have "b\<lparr>pb_next := None\<rparr> = b" by simp
        then show ?thesis using less.prems(2) b None by (simp add: put_def fun_upd_idem)
      next
        case (Some q)
        then show ?thesis
          using chains_inv_unlink [OF less.prems(2) b Some, of "b\<lparr>pb_next := None\<rparr>"] ok by (simp add: add_mset_commute)
      qed
      obtain n s1 L1 where s1: "pbuf_free cf (Some p) ?s = Some (Inr (n, s1))" "chains_inv s1 L1 ?H" "only_freed ?s s1"
        using free_ok [OF i] by blast
      have run: "free_header_loop cf (Some p) left s = free_header_loop cf (pb_next b) ?l s1"
        using 3 b s1(1) by (subst free_header_loop.simps) (simp add: Let_def)
      show ?thesis
      proof (cases "pb_next b")
        case None
        then show ?thesis using run s1(2) by (subst (asm) (2) free_header_loop.simps) auto
      next
        case (Some q)
        have "(p, q) \<in> E" using b Some less.prems(1) by (auto simp: edges_def)
        then have "(q, p) \<in> E\<inverse>" by simp
        moreover have "edges ?s \<subseteq> edges s" by (auto simp: edges_put)
        then have "edges s1 \<subseteq> E" using only_freed_edges [OF s1(3)] less.prems(1) by blast
        moreover have "chains_inv s1 L1 (add_mset q H)" using s1(2) Some by simp
        ultimately show ?thesis using less.IH run Some by metis
      qed
    qed
  qed
  then show ?thesis using Some by simp
qed

section \<open>Shrinking\<close>

lemma realloc_skip_ok:
  assumes "wf (E\<inverse>)" "edges s = E" "chains_inv s L H" "pw_buf s p = Some b" "rem < 65536"
  shows "realloc_skip rem shrink p s = Some (Inl AssertFailed) \<or>
    (\<exists>q s' rem' bq. realloc_skip rem shrink p s = Some (Inr (rem', q, s')) \<and> chains_inv s' L H \<and> same_links s s' \<and>
      pw_buf s' q = Some bq \<and> rem' \<le> pb_len bq)"
  using assms
proof (induction p arbitrary: s b rem rule: wf_induct_rule)
  case (less p)
  show ?case
  proof (cases "pb_len b < rem")
    case False
    then show ?thesis using less.prems by (subst (1 2) realloc_skip.simps) (auto simp: same_links_def)
  next
    case True
    let ?s = "put p (b\<lparr>tot_len := u16c (tot_len b + 65536 - shrink)\<rparr>) s" and ?r = "u16c (rem + 65536 - pb_len b)"
    show ?thesis
    proof (cases "pb_next b")
      case None
      then show ?thesis using less.prems True by (subst realloc_skip.simps) (simp add: Let_def)
    next
      case (Some q)
      have l: "same_links s ?s" by (rule same_links_put [OF less.prems(3)]) simp_all
      have i: "chains_inv ?s L H"
        by (rule chains_inv_put [OF less.prems(2,3)]) (use chains_inv_buf [OF less.prems(2,3)] in simp_all)
      have e: "edges ?s = E" using same_links_edges [OF l] less.prems(1) by simp
      have pq: "(q, p) \<in> E\<inverse>" using less.prems(1,3) Some by (auto simp: edges_def)
      obtain b' where b': "pw_buf ?s q = Some b'"
        using edge_live [OF less.prems(2,3) Some] same_links_dom [OF l] by blast
      have run: "realloc_skip rem shrink p s = realloc_skip ?r shrink q ?s"
        using less.prems True Some by (subst realloc_skip.simps) (simp add: Let_def)
      show ?thesis unfolding run using less.IH [OF pq e i b' u16c_less] same_links_trans [OF l] by blast
    qed
  qed
qed

text \<open>Hiding the link of a buffer whose successor is being released, and clearing it.\<close>

lemma refs_ok_hide:
  assumes "refs_ok {} s H" "pw_buf s q = Some b" "pb_next b = Some n" "finite (dom (pw_buf s))"
  shows "refs_ok {q} s (add_mset n H)"
proof (rule refs_okI)
  fix x c assume x: "pw_buf s x = Some c"
  have pt: "pointers {q} s x = pointers {} s x - {q}" by (auto simp: pointers_def)
  have pe: "q \<in> pointers {} s x \<longleftrightarrow> x = n" using assms(2,3) by (auto simp: pointers_def edges_def)
  have "card (pointers {} s x) = card (pointers {q} s x) + (if x = n then 1 else 0)"
    using card_Suc_Diff1 [OF pointers_finite [OF assms(4)], of q "{}" x] pe by (simp add: pt)
  then show "pb_ref c = count (add_mset n H) x + card (pointers {q} s x) \<and> 0 < pb_ref c \<and> pb_ref c < 256"
    using refs_okD(1) [OF assms(1) x] by auto
next
  show "set_mset (add_mset n H) \<subseteq> dom (pw_buf s)"
    using refs_okD(2) [OF assms(1)] refs_okD(3) [OF assms(1), of q n] assms(2,3) by (auto simp: edges_def)
  show "y \<in> dom (pw_buf s)" if "(x, y) \<in> edges s" for x y using refs_okD(3) [OF assms(1) _ that] by simp
qed

lemma refs_ok_clear:
  assumes "refs_ok {q} s H" "pw_buf s q = Some b"
  shows "refs_ok {} (put q (b\<lparr>pb_next := None\<rparr>) s) H"
proof (rule refs_okI)
  let ?s = "put q (b\<lparr>pb_next := None\<rparr>) s"
  have e: "edges ?s = {(x, y) \<in> edges s. x \<noteq> q}" by (simp add: edges_put)
  have pt: "pointers {} ?s x = pointers {q} s x" for x unfolding pointers_def e by auto
  show "pb_ref c = count H x + card (pointers {} ?s x) \<and> 0 < pb_ref c \<and> pb_ref c < 256" if x: "pw_buf ?s x = Some c" for x c
  proof -
    obtain c' where "pw_buf s x = Some c'" "pb_ref c = pb_ref c'" using x assms(2) by (cases "x = q") auto
    then show ?thesis using refs_okD(1) [OF assms(1)] unfolding pt by metis
  qed
  show "set_mset H \<subseteq> dom (pw_buf ?s)" using refs_okD(2) [OF assms(1)] by auto
  show "y \<in> dom (pw_buf ?s)" if "(x, y) \<in> edges ?s" for x y
    using refs_okD(3) [OF assms(1), of x y] that by (auto simp: e)
qed

text \<open>The trimmed piece keeps room for what remains of the payload.\<close>

lemma realloc_trim_ok:
  assumes "chains_inv s L H" "pw_buf s q = Some b" "rem \<le> pb_len b" "realloc_trim rem q s = Inr (q', s')"
  shows "q' = q \<and> (\<exists>L'. chains_inv (put q (b\<lparr>pb_len := rem, tot_len := rem\<rparr>) s') L' H) \<and>
    pw_buf s' = pw_buf s \<and> pw_byte s' = pw_byte s"
proof -
  have ok: "buf_ok L q b" by (rule chains_inv_buf [OF assms(1,2)])
  have i: "world_inv s L" "pmem_inv (pw_mem s) L" using assms(1) by (simp_all add: chains_inv_def world_inv_def)
  let ?b = "b\<lparr>pb_len := rem, tot_len := rem\<rparr>"
  show ?thesis
  proof (cases "pbuf_get_allocsrc b = 0 \<and> rem \<noteq> pb_len b")
    case False
    then have "q' = q" "s' = s"
      using assms(2,4) by (auto simp: realloc_trim_def deref_def pbuf_match_allocsrc_def)
    moreover have "chains_inv (put q ?b s) L H"
      by (rule chains_inv_put [OF assms(1,2)]) (use ok assms(3) in \<open>auto simp: buf_ok_def pbuf_get_allocsrc_def\<close>)
    ultimately show ?thesis by blast
  next
    case True
    obtain n where n: "L q = Some (0, n)" "q + 16 \<le> payload b" "payload b + pb_len b \<le> q + n"
      using ok True by (auto simp: buf_ok_def SIZEOF_STRUCT_PBUF_def)
    let ?k = "payload b - q + rem"
    have "n < 65536" using i(2) n(1) by (auto simp: pmem_inv_def room_of_def split: if_splits)
    then have k: "trim_size (payload b) q rem = ?k" "?k \<le> n" "0 < ?k"
      using n(2,3) assms(3) by (auto simp: trim_size_def nat_eq_iff of_nat_diff)
    have fl: "pb_flags b AND 2 = 0" using ok by (simp add: buf_ok_def)
    obtain r h where t: "mem_trim q ?k (pm_heap (pw_mem s)) = Inr (r, h)"
      using assms(2,4) True fl k(1)
      by (cases "mem_trim q ?k (pm_heap (pw_mem s))") (auto simp: realloc_trim_def deref_def pbuf_match_allocsrc_def)
    note m = pmem_inv_trim [OF i(2) n(1) k(2,3) t]
    let ?s = "on_mem (\<lambda>m. m\<lparr>pm_heap := h\<rparr>) s" and ?L = "L(q \<mapsto> (0, ?k))"
    have s': "q' = q" "s' = ?s"
      using assms(2,4) True fl k(1) t m(1) by (auto simp: realloc_trim_def deref_def pbuf_match_allocsrc_def)
    have "buf_ok ?L q ?b"
      using ok n True assms(3) by (auto simp: buf_ok_def pbuf_get_allocsrc_def SIZEOF_STRUCT_PBUF_def)
    then have "world_inv (put q ?b ?s) ?L"
      using i assms(2) m(2) n(1) by (auto simp: world_inv_def on_mem_def buf_ok_other)
    moreover have "same_links s (put q ?b ?s)" using assms(2) by (auto simp: same_links_def on_mem_def)
    ultimately have "chains_inv (put q ?b ?s) ?L H" using chains_inv_links [OF assms(1)] by blast
    then show ?thesis using s' by (auto simp: on_mem_def)
  qed
qed

lemma realloc_ok:
  assumes "chains_inv s L H" "p \<in># H" "n < 65536" "pbuf_realloc cf (Some p) n s = Some (Inr s')"
  shows "\<exists>L'. chains_inv s' L' H"
proof -
  obtain b where b: "pw_buf s p = Some b" using chains_inv_live [OF assms(1,2)] by blast
  show ?thesis
  proof (cases "tot_len b \<le> n")
    case True
    then show ?thesis using assms(1,4) b by (auto simp: pbuf_realloc_def)
  next
    case False
    obtain rem q s1 where r: "realloc_skip n (u16c (tot_len b + 65536 - n)) p s = Some (Inr (rem, q, s1))"
      using realloc_skip_ok [OF chains_wf [OF assms(1)] refl assms(1) b assms(3), of "u16c (tot_len b + 65536 - n)"] assms(4) b False
      by (auto simp: pbuf_realloc_def)
    then obtain bq where i1: "chains_inv s1 L H" "pw_buf s1 q = Some bq" "rem \<le> pb_len bq"
      using realloc_skip_ok [OF chains_wf [OF assms(1)] refl assms(1) b assms(3), of "u16c (tot_len b + 65536 - n)"] by auto
    obtain q' s2 where t: "realloc_trim rem q s1 = Inr (q', s2)"
      using assms(4) b False r by (cases "realloc_trim rem q s1") (auto simp: pbuf_realloc_def)
    note tr = realloc_trim_ok [OF i1 t]
    let ?s3 = "put q (bq\<lparr>pb_len := rem, tot_len := rem\<rparr>) s2"
    obtain L3 where i3: "chains_inv ?s3 L3 H" using tr by blast
    have b3: "pw_buf ?s3 q = Some (bq\<lparr>pb_len := rem, tot_len := rem\<rparr>)" by simp
    have run: "pbuf_realloc cf (Some p) n s =
        rbind (case pb_next bq of None \<Rightarrow> Some (Inr ?s3) | Some n \<Rightarrow> rbind (pbuf_free cf (Some n) ?s3) (\<lambda>(_, s). Some (Inr s)))
          (\<lambda>s. rbind (Some (deref (pw_buf s) q)) (\<lambda>b. Some (Inr (put q (b\<lparr>pb_next := None\<rparr>) s))))"
      using b False r t tr i1(2) by (simp add: pbuf_realloc_def deref_def Let_def)
    show ?thesis
    proof (cases "pb_next bq")
      case None
      have "bq\<lparr>pb_len := rem, tot_len := rem, pb_next := None\<rparr> = bq\<lparr>pb_len := rem, tot_len := rem\<rparr>"
        using None by (cases bq) simp
      moreover have "s' = put q (bq\<lparr>pb_len := rem, tot_len := rem, pb_next := None\<rparr>) s2"
        using run assms(4) None by (simp add: deref_def)
      ultimately have "s' = ?s3" by (simp only:)
      then show ?thesis using i3 by auto
    next
      case (Some x)
      have w: "world_inv ?s3 L3" "refs_ok {} ?s3 H" "acyclic (edges ?s3)" using i3 by (simp_all add: chains_inv_def)
      have "(q, x) \<in> edges ?s3" using Some by (auto simp: edges_def)
      then have X: "\<forall>y\<in>{q}. (y, x) \<in> (edges ?s3)\<^sup>+" by auto
      have hd: "refs_ok {q} ?s3 (add_mset x H)"
        by (rule refs_ok_hide [OF w(2) b3 _ world_finite [OF w(1)]]) (simp add: Some)
      obtain m s4 L4 where f: "pbuf_free_loop cf (Some x) 0 ?s3 = Some (Inr (m, s4))" "world_inv s4 L4" "refs_ok {q} s4 H"
        "only_freed ?s3 s4" "{q} \<inter> dom (pw_buf ?s3) \<subseteq> dom (pw_buf s4)"
        using free_loop_inv [OF w(1) hd order_refl w(3) X, of cf 0] by blast
      then obtain b4 where b4: "pw_buf s4 q = Some b4" by auto
      have s': "s' = put q (b4\<lparr>pb_next := None\<rparr>) s4"
        using run assms(4) Some f(1) b4 by (simp add: pbuf_free_def deref_def)
      have "edges s' \<subseteq> edges s4" unfolding s' by (auto simp: edges_put)
      then have "acyclic (edges s')" using acyclic_subset [OF w(3)] only_freed_edges [OF f(4)] by blast
      moreover have "world_inv s' L4"
        unfolding s' by (rule world_inv_put [OF f(2) b4]) (use f(2) b4 in \<open>simp add: world_inv_def\<close>)
      ultimately show ?thesis using refs_ok_clear [OF f(3) b4] s' by (auto simp: chains_inv_def)
    qed
  qed
qed

section \<open>Allocation\<close>

lemma align4: "LWIP_MEM_ALIGN (p + 16 + n) = p + 16 + LWIP_MEM_ALIGN n" if "p mod 4 = 0"
proof -
  obtain k where "p = 4 * k" using \<open>p mod 4 = 0\<close> by auto
  then have "p + 16 + n + 4 - 1 = (n + 4 - 1) + (k + 4) * 4" by simp
  then show ?thesis unfolding LWIP_MEM_ALIGN_def MEM_ALIGNMENT_def using \<open>p = 4 * k\<close> by (simp only: div_mult_self1) simp
qed

lemma align_ge: "n \<le> LWIP_MEM_ALIGN n" "LWIP_MEM_ALIGN n < n + 4"
  unfolding LWIP_MEM_ALIGN_def MEM_ALIGNMENT_def by presburger+

abbreviation handed :: "nat option \<Rightarrow> nat multiset \<Rightarrow> nat multiset" where
  "handed r H \<equiv> (case r of None \<Rightarrow> H | Some p \<Rightarrow> add_mset p H)"

lemma world_L: "chains_inv s L H \<Longrightarrow> pmem_inv (pw_mem s) L"
  by (simp add: chains_inv_def world_inv_def)

lemma chains_inv_mem: "chains_inv s L H \<Longrightarrow> pmem_inv m L \<Longrightarrow> chains_inv (s\<lparr>pw_mem := m\<rparr>) L H"
proof -
  have "edges (s\<lparr>pw_mem := m\<rparr>) = edges s" by (simp add: edges_def)
  moreover from this have "refs_ok {} (s\<lparr>pw_mem := m\<rparr>) H = refs_ok {} s H" by (simp add: refs_ok_def pointers_def)
  ultimately show "chains_inv s L H \<Longrightarrow> pmem_inv m L \<Longrightarrow> chains_inv (s\<lparr>pw_mem := m\<rparr>) L H"
    by (simp add: chains_inv_def world_inv_def)
qed

lemma alloc_reference_ok:
  assumes "chains_inv s L H" "type = PBUF_REF \<or> type = PBUF_ROM" "n < 65536"
  shows "\<exists>r s' L'. pbuf_alloc_reference pl n type s = Inr (r, s') \<and> chains_inv s' L' (handed r H)"
proof -
  obtain r m where m: "pm_memp_pbuf (pw_mem s) = Inr (r, m)"
    "case r of None \<Rightarrow> pmem_inv m L | Some p \<Rightarrow> p \<notin> dom L \<and> p mod 4 = 0 \<and> pmem_inv m (L(p \<mapsto> (1, 16)))"
    using pmem_inv_ref [OF world_L [OF assms(1)]] by blast
  show ?thesis
  proof (cases r)
    case None
    then show ?thesis using m assms chains_inv_mem [OF assms(1)] by (auto simp: pbuf_alloc_reference_def)
  next
    case (Some p)
    let ?b = "\<lparr>pb_next = None, payload = pl, tot_len = n, pb_len = n, type_internal = ucast type, pb_flags = 0, pb_ref = 1, if_idx = 0\<rparr>"
    have "buf_ok (L(p \<mapsto> (1, 16))) p ?b" using assms(2,3) by (auto simp: buf_ok_def pbuf_get_allocsrc_def)
    then have "chains_inv (put p ?b (s\<lparr>pw_mem := m\<rparr>)) (L(p \<mapsto> (1, 16))) (add_mset p H)"
      using m(2) Some by (intro chains_inv_new [OF assms(1)]) auto
    then show ?thesis using m(1) Some assms(2) by (auto simp: pbuf_alloc_reference_def pbuf_init_alloced_pbuf_def)
  qed
qed

lemma u16c_wrap: "65536 \<le> n \<Longrightarrow> n < 131072 \<Longrightarrow> u16c n = n - 65536"
  by (simp add: u16c_def mod_if)

lemma alloc_ram_size:
  assumes "n < 65536" "l \<le> 54"
  defines "pl \<equiv> u16c (LWIP_MEM_ALIGN l + LWIP_MEM_ALIGN n)"
  defines "al \<equiv> u16c (LWIP_MEM_ALIGN 16 + pl)"
  assumes "\<not> (pl < LWIP_MEM_ALIGN n \<or> al < LWIP_MEM_ALIGN n)"
  shows "pl = LWIP_MEM_ALIGN l + LWIP_MEM_ALIGN n" "al = 16 + pl" "0 < al" "al < 65536"
proof -
  have l: "LWIP_MEM_ALIGN l \<le> 56" "LWIP_MEM_ALIGN n \<le> 65536"
    using assms(1,2) unfolding LWIP_MEM_ALIGN_def MEM_ALIGNMENT_def by presburger+
  have a: "LWIP_MEM_ALIGN 16 = 16" by (simp add: LWIP_MEM_ALIGN_def MEM_ALIGNMENT_def)
  show pl: "pl = LWIP_MEM_ALIGN l + LWIP_MEM_ALIGN n"
  proof (rule ccontr)
    assume c: "pl \<noteq> LWIP_MEM_ALIGN l + LWIP_MEM_ALIGN n"
    then have o: "65536 \<le> LWIP_MEM_ALIGN l + LWIP_MEM_ALIGN n" unfolding pl_def using u16c_small not_le by blast
    then have "pl = LWIP_MEM_ALIGN l + LWIP_MEM_ALIGN n - 65536" using u16c_wrap l unfolding pl_def by simp
    then show False using assms(5) l o by linarith
  qed
  moreover have "pl < 65536" by (simp add: pl_def)
  ultimately show al: "al = 16 + pl"
    using u16c_wrap [of "16 + pl"] u16c_small [of "16 + pl"] assms(5) l unfolding al_def a by (cases "16 + pl < 65536") simp_all
  then show "0 < al" by simp
  show "al < 65536" by (simp add: al_def)
qed

lemma alloc_ram_ok:
  assumes "chains_inv s L H" "n < 65536" "l \<le> 54"
  shows "\<exists>r s' L'. pbuf_alloc cf l n PBUF_RAM s = Some (Inr (r, s')) \<and> chains_inv s' L' (handed r H)"
proof -
  let ?pl = "u16c (LWIP_MEM_ALIGN l + LWIP_MEM_ALIGN n)"
  let ?al = "u16c (LWIP_MEM_ALIGN 16 + ?pl)"
  have u: "u16c l = l" using assms(3) by simp
  show ?thesis
  proof (cases "?pl < LWIP_MEM_ALIGN n \<or> ?al < LWIP_MEM_ALIGN n")
    case True
    then show ?thesis using assms(1) u by (auto simp: pbuf_alloc_def Let_def SIZEOF_STRUCT_PBUF_def)
  next
    case False
    note z = alloc_ram_size [OF assms(2,3) False]
    obtain r m where m: "pm_heap_alloc ?al (pw_mem s) = Some (Inr (r, m))"
      "case r of None \<Rightarrow> pmem_inv m L | Some p \<Rightarrow> p \<notin> dom L \<and> p mod 4 = 0 \<and> pmem_inv m (L(p \<mapsto> (0, ?al)))"
      using pmem_inv_heap [OF world_L [OF assms(1)] z(3,4)] by blast
    show ?thesis
    proof (cases r)
      case None
      then show ?thesis
        using m False u chains_inv_mem [OF assms(1)] by (auto simp: pbuf_alloc_def Let_def SIZEOF_STRUCT_PBUF_def)
    next
      case (Some p)
      have p: "p \<notin> dom L" "p mod 4 = 0" "pmem_inv m (L(p \<mapsto> (0, ?al)))" using m(2) Some by simp_all
      let ?a = "LWIP_MEM_ALIGN (p + 16 + l)"
      let ?b = "\<lparr>pb_next = None, payload = ?a, tot_len = n, pb_len = n, type_internal = ucast (0x0280 :: u16), pb_flags = 0, pb_ref = 1, if_idx = 0\<rparr>"
      have "?a + n \<le> p + ?al" "p + 16 \<le> ?a"
        using align4 [OF p(2), of l] z(1,2) align_ge(1) [of n] by linarith+
      then have "buf_ok (L(p \<mapsto> (0, ?al))) p ?b"
        using assms(2) by (simp add: buf_ok_def pbuf_get_allocsrc_def SIZEOF_STRUCT_PBUF_def)
      then have "chains_inv (put p ?b (s\<lparr>pw_mem := m\<rparr>)) (L(p \<mapsto> (0, ?al))) (add_mset p H)"
        using p by (intro chains_inv_new [OF assms(1)]) auto
      moreover have "pbuf_alloc cf l n PBUF_RAM s = Some (Inr (Some p, put p ?b (s\<lparr>pw_mem := m\<rparr>)))"
        using m(1) Some False u align_mod [of "p + 16 + l"]
        by (simp add: pbuf_alloc_def Let_def SIZEOF_STRUCT_PBUF_def pbuf_init_alloced_pbuf_def)
      ultimately show ?thesis by auto
    qed
  qed
qed


text \<open>A new buffer behind the last of the chain under construction.\<close>

lemma link_last_ok:
  assumes "chains_inv s L (add_mset q H)" "pw_buf s q = Some bq" "pb_next bq = None" "pw_buf s l = Some b" "pb_next b = None" "l \<noteq> q"
  shows "chains_inv (put l (b\<lparr>pb_next := Some q\<rparr>) s) L H"
proof -
  have "x = q" if "(q, x) \<in> (edges s)\<^sup>*" for x
    using that by (cases rule: converse_rtranclE) (use assms(2,3) in \<open>auto simp: edges_def\<close>)
  then have "(q, l) \<notin> (edges s)\<^sup>*" using assms(6) by blast
  then show ?thesis
    by (intro chains_inv_link [OF assms(1,4,5)]) (use chains_inv_buf [OF assms(1,4)] in simp_all)
qed

lemma sub32_pool: "l \<le> 54 \<Longrightarrow> sub32 1500 (LWIP_MEM_ALIGN l) = 1500 - LWIP_MEM_ALIGN l \<and> LWIP_MEM_ALIGN l \<le> 56"
proof -
  assume "l \<le> 54"
  then have "LWIP_MEM_ALIGN l \<le> 56" unfolding LWIP_MEM_ALIGN_def MEM_ALIGNMENT_def by presburger
  then show ?thesis by (simp add: sub32_eq)
qed

lemma alloc_pool_loop_ok:
  assumes "chains_inv s L (handed p H)" "(p = None) = (lst = None)" "0 < rem \<or> lst = None" "rem < 65536" "l \<le> 54"
    "\<forall>x. lst = Some x \<longrightarrow> (\<exists>b. pw_buf s x = Some b \<and> pb_next b = None)"
  shows "\<exists>r s' L'. alloc_pool_loop cf p lst rem l PBUF_POOL s = Some (Inr (r, s')) \<and> chains_inv s' L' (handed r H)"
  using assms
proof (induction rem arbitrary: s L p lst l rule: less_induct)
  case (less rem)
  obtain r m where m: "pm_memp_pool (pw_mem s) = Inr (r, m)"
    "case r of None \<Rightarrow> pmem_inv m L | Some p \<Rightarrow> p \<notin> dom L \<and> p mod 4 = 0 \<and> pmem_inv m (L(p \<mapsto> (2, 1516)))"
    using pmem_inv_pool [OF world_L [OF less.prems(1)]] by blast
  show ?case
  proof (cases r)
    case None
    let ?s = "pbuf_pool_is_empty (s\<lparr>pw_mem := m\<rparr>)"
    have i: "chains_inv ?s L (handed p H)"
      using chains_inv_mem [OF less.prems(1), of m] m(2) None chains_inv_cong [of ?s "s\<lparr>pw_mem := m\<rparr>"]
      by (simp add: pbuf_pool_is_empty_def)
    show ?thesis
    proof (cases p)
      case None': None
      then show ?thesis using i m(1) None by (subst alloc_pool_loop.simps) auto
    next
      case (Some p0)
      then obtain n s' L' where "pbuf_free cf (Some p0) ?s = Some (Inr (n, s'))" "chains_inv s' L' H"
        using free_ok [of ?s L p0 H cf] i by auto
      then show ?thesis using m(1) None Some by (subst alloc_pool_loop.simps) auto
    qed
  next
    case (Some q)
    have q: "q \<notin> dom L" "q mod 4 = 0" "pmem_inv m (L(q \<mapsto> (2, 1516)))" using m(2) Some by simp_all
    let ?a = "LWIP_MEM_ALIGN (q + 16 + l)" and ?n = "min rem (u16c (sub32 1500 (LWIP_MEM_ALIGN l)))"
    let ?b = "\<lparr>pb_next = None, payload = ?a, tot_len = rem, pb_len = ?n, type_internal = ucast (0x0182 :: u16), pb_flags = 0, pb_ref = 1, if_idx = 0\<rparr>"
    let ?s = "put q ?b (s\<lparr>pw_mem := m\<rparr>)" and ?L = "L(q \<mapsto> (2, 1516))"
    note sb = sub32_pool [OF less.prems(5)]
    have n: "?n = min rem (1500 - LWIP_MEM_ALIGN l)" "?n \<le> rem" "0 < rem \<Longrightarrow> 0 < ?n" using sb by simp_all
    have "?a + ?n \<le> q + 1516" "q + 16 \<le> ?a" using align4 [OF q(2), of l] n(1) sb by linarith+
    then have "buf_ok ?L q ?b"
      using less.prems(4) by (simp add: buf_ok_def pbuf_get_allocsrc_def SIZEOF_STRUCT_PBUF_def)
    then have i: "chains_inv ?s ?L (add_mset q (handed p H))"
      using q by (intro chains_inv_new [OF less.prems(1)]) auto
    have "q \<notin> dom (pw_buf s)" using less.prems(1) q(1) by (auto simp: chains_inv_def world_inv_def)
    then have fresh: "pw_buf s q = None" by auto
    have "\<exists>s1. link_last lst q ?s = Inr s1 \<and> chains_inv s1 ?L (handed (if p = None then Some q else p) H) \<and>
        (\<exists>b. pw_buf s1 q = Some b \<and> pb_next b = None)"
    proof (cases lst)
      case None
      then show ?thesis using i less.prems(2) by (simp add: link_last_def)
    next
      case (Some x)
      obtain bx where bx: "pw_buf s x = Some bx" "pb_next bx = None" using less.prems(6) Some by blast
      then have ne: "x \<noteq> q" using fresh by auto
      have "chains_inv (put x (bx\<lparr>pb_next := Some q\<rparr>) ?s) ?L (handed p H)"
        by (rule link_last_ok [OF i, of ?b]) (use bx ne in simp_all)
      then show ?thesis using Some bx ne less.prems(2) by (auto simp: link_last_def deref_def)
    qed
    then obtain s1 where s1: "link_last lst q ?s = Inr s1" "chains_inv s1 ?L (handed (if p = None then Some q else p) H)"
      "\<exists>b. pw_buf s1 q = Some b \<and> pb_next b = None" by blast
    have rem: "u16c (rem + 65536 - ?n) = rem - ?n" by (rule u16c_minus [OF n(2) less.prems(4)])
    have u: "u16c (1500 - LWIP_MEM_ALIGN l) = 1500 - LWIP_MEM_ALIGN l" by (rule u16c_small) simp
    have run: "alloc_pool_loop cf p lst rem l PBUF_POOL s =
        (if 0 < rem - ?n then alloc_pool_loop cf (if p = None then Some q else p) (Some q) (rem - ?n) 0 PBUF_POOL s1
         else Some (Inr (if p = None then Some q else p, s1)))"
      using m(1) Some s1(1) rem sb u align_mod [of "q + 16 + l"] unfolding n(1)
      by (subst alloc_pool_loop.simps) (simp add: Let_def pbuf_init_alloced_pbuf_def pbuf_consts MEM_ALIGNMENT_def cong: if_cong)
    show ?thesis
    proof (cases "0 < rem - ?n")
      case False
      then show ?thesis using run s1(2) by auto
    next
      case True
      then have "rem - ?n < rem" using n(3) by linarith
      from less.IH [OF this s1(2)] show ?thesis using run True s1(3) less.prems(4) by auto
    qed
  qed
qed

text \<open>Every kind of allocation.\<close>

lemma alloc_ok:
  assumes "chains_inv s L H" "n < 65536" "l \<le> 54" "type \<in> {PBUF_RAM, PBUF_ROM, PBUF_REF, PBUF_POOL}"
  shows "\<exists>r s' L'. pbuf_alloc cf l n type s = Some (Inr (r, s')) \<and> chains_inv s' L' (handed r H)"
proof -
  consider "type = PBUF_RAM" | "type = PBUF_REF \<or> type = PBUF_ROM" | "type = PBUF_POOL" using assms(4) by auto
  then show ?thesis
  proof cases
    case 1
    then show ?thesis using alloc_ram_ok [OF assms(1-3)] by simp
  next
    case 2
    then show ?thesis using alloc_reference_ok [OF assms(1) 2 assms(2), of 0] by (auto simp: pbuf_alloc_def)
  next
    case 3
    then show ?thesis
      using alloc_pool_loop_ok [of s L H None None n l] assms by (simp add: pbuf_alloc_def)
  qed
qed

section \<open>Runs of the users\<close>

text \<open>
  The users call the functions of the file on what they hold; \<open>H\<close> are their references.  A concatenation takes over the
  reference to its tail, \<^verbatim>\<open>pbuf_chain\<close> leaves it; neither is called with two chains that share a buffer.  In
  between the users write bytes, the payload pointer of a buffer that refers to data of theirs, the flags
  other than the custom one, and the interface index.
\<close>

inductive pbuf_run :: "custom_free \<Rightarrow> pworld \<Rightarrow> nat multiset \<Rightarrow> bool" for cf where
  init: "pw_buf s = Map.empty \<Longrightarrow> pmem_inv (pw_mem s) Map.empty \<Longrightarrow> pbuf_run cf s {#}"
| alloc: "pbuf_run cf s H \<Longrightarrow> n < 65536 \<Longrightarrow> l \<le> PBUF_TRANSPORT \<Longrightarrow> type \<in> {PBUF_RAM, PBUF_ROM, PBUF_REF, PBUF_POOL} \<Longrightarrow>
    pbuf_alloc cf l n type s = Some (Inr (r, s')) \<Longrightarrow> pbuf_run cf s' (handed r H)"
| alloc_reference: "pbuf_run cf s H \<Longrightarrow> n < 65536 \<Longrightarrow> type \<in> {PBUF_ROM, PBUF_REF} \<Longrightarrow>
    pbuf_alloc_reference pl n type s = Inr (r, s') \<Longrightarrow> pbuf_run cf s' (handed r H)"
| free: "pbuf_run cf s (add_mset p H) \<Longrightarrow> pbuf_free cf (Some p) s = Some (Inr (n, s')) \<Longrightarrow> pbuf_run cf s' H"
| ref: "pbuf_run cf s H \<Longrightarrow> pw_buf s p \<noteq> None \<Longrightarrow> pbuf_ref (Some p) s = Inr s' \<Longrightarrow> pbuf_run cf s' (add_mset p H)"
| cat: "pbuf_run cf s (add_mset t H) \<Longrightarrow> h \<in># H \<Longrightarrow> \<forall>x. (h, x) \<in> (edges s)\<^sup>* \<longrightarrow> (t, x) \<notin> (edges s)\<^sup>* \<Longrightarrow>
    pbuf_cat (Some h) (Some t) s = Some (Inr s') \<Longrightarrow> pbuf_run cf s' H"
| chain: "pbuf_run cf s H \<Longrightarrow> t \<in># H \<Longrightarrow> h \<in># H \<Longrightarrow> \<forall>x. (h, x) \<in> (edges s)\<^sup>* \<longrightarrow> (t, x) \<notin> (edges s)\<^sup>* \<Longrightarrow>
    pbuf_chain (Some h) (Some t) s = Some (Inr s') \<Longrightarrow> pbuf_run cf s' H"
| dechain: "pbuf_run cf s H \<Longrightarrow> p \<in># H \<Longrightarrow> pbuf_dechain cf p s = Some (Inr (r, s')) \<Longrightarrow> pbuf_run cf s' H"
| realloc: "pbuf_run cf s H \<Longrightarrow> p \<in># H \<Longrightarrow> n < 65536 \<Longrightarrow> pbuf_realloc cf (Some p) n s = Some (Inr s') \<Longrightarrow> pbuf_run cf s' H"
| add_header: "pbuf_run cf s H \<Longrightarrow> p \<in># H \<Longrightarrow> pbuf_add_header_impl (Some p) d force s = Inr (n, s') \<Longrightarrow> pbuf_run cf s' H"
| remove_header: "pbuf_run cf s H \<Longrightarrow> p \<in># H \<Longrightarrow> pbuf_remove_header (Some p) d s = Inr (n, s') \<Longrightarrow> pbuf_run cf s' H"
| free_header: "pbuf_run cf s (add_mset p H) \<Longrightarrow> pbuf_free_header cf (Some p) d s = Some (Inr (r, s')) \<Longrightarrow> pbuf_run cf s' (handed r H)"
| bytes: "pbuf_run cf s H \<Longrightarrow> pbuf_run cf (s\<lparr>pw_byte := m\<rparr>) H"
| fields: "pbuf_run cf s H \<Longrightarrow> pw_buf s p = Some b \<Longrightarrow> pbuf_get_allocsrc b \<noteq> 1 \<longrightarrow> pl = payload b \<Longrightarrow>
    f AND PBUF_FLAG_IS_CUSTOM = 0 \<Longrightarrow> pbuf_run cf (put p (b\<lparr>payload := pl, pb_flags := f, if_idx := i\<rparr>) s) H"

lemma pbuf_run_inv: "pbuf_run cf s H \<Longrightarrow> \<exists>L. chains_inv s L H"
proof (induction rule: pbuf_run.induct)
  case (init s)
  then have "edges s = {}" "refs_ok {} s {#}" by (auto simp: edges_def intro: refs_okI)
  then show ?case using init by (intro exI [of _ Map.empty]) (auto simp: chains_inv_def world_inv_def acyclic_def)
next
  case (alloc s H n l type r s')
  then obtain L where i: "chains_inv s L H" by blast
  show ?case using alloc_ok [OF i alloc.hyps(2-4), of cf] alloc.hyps(5) by auto
next
  case (alloc_reference s H n type pl r s')
  then obtain L where i: "chains_inv s L H" by blast
  show ?case using alloc_reference_ok [OF i _ alloc_reference.hyps(2), of type pl] alloc_reference.hyps(3,4) by auto
next
  case (free s p H n s')
  then obtain L where i: "chains_inv s L (add_mset p H)" by blast
  show ?case using free_ok [OF i, of cf] free.hyps(2) by auto
next
  case (ref s H p s')
  then obtain L b where i: "chains_inv s L H" "pw_buf s p = Some b" by auto
  then show ?case using ref_ok [OF i] ref.hyps(3) by (auto split: if_splits)
next
  case (cat s t H h s')
  then obtain L where i: "chains_inv s L (add_mset t H)" by blast
  then obtain b where b: "pw_buf s h = Some b" using chains_inv_live [OF i, of h] cat.hyps(2) by auto
  show ?case using cat_ok [OF i b cat.hyps(3)] cat.hyps(4) by auto
next
  case (chain s H t h s')
  then obtain L where i: "chains_inv s L H" by blast
  then obtain b where b: "pw_buf s h = Some b" using chains_inv_live [OF i chain.hyps(3)] by blast
  show ?case using chain_ok [OF i chain.hyps(2) b chain.hyps(4,5)] by blast
next
  case (dechain s H p r s')
  then obtain L where i: "chains_inv s L H" by blast
  show ?case by (rule dechain_ok [OF i dechain.hyps(2,3)])
next
  case (realloc s H p n s')
  then obtain L where i: "chains_inv s L H" by blast
  show ?case by (rule realloc_ok [OF i realloc.hyps(2-4)])
next
  case (add_header s H p d force n s')
  then obtain L where i: "chains_inv s L H" by blast
  then obtain b where b: "pw_buf s p = Some b" using chains_inv_live add_header.hyps(2) by blast
  show ?case using add_header_ok [OF i b add_header.hyps(3)] by blast
next
  case (remove_header s H p d n s')
  then obtain L where i: "chains_inv s L H" by blast
  then obtain b where b: "pw_buf s p = Some b" using chains_inv_live remove_header.hyps(2) by blast
  show ?case using remove_header_ok [OF i b, of d] remove_header.hyps(3) by auto
next
  case (free_header s p H d r s')
  then obtain L where i: "chains_inv s L (add_mset p H)" by blast
  obtain r' s1 L' where "free_header_loop cf (Some p) d s = Some (Inr (r', s1))" "chains_inv s1 L' (handed r' H)"
    using free_header_ok [OF chains_wf [OF i] order_refl, where p = "Some p" and H = H and left = d and cf = cf and L = L] i by auto
  then show ?case using free_header.hyps(2) by (auto simp: pbuf_free_header_def)
next
  case (bytes s H m)
  then show ?case using chains_inv_cong [of "s\<lparr>pw_byte := m\<rparr>" s] by auto
next
  case (fields s H p b pl f i)
  then obtain L where c: "chains_inv s L H" by blast
  have "buf_ok L p (b\<lparr>payload := pl, pb_flags := f, if_idx := i\<rparr>)"
    using chains_inv_buf [OF c fields.hyps(2)] fields.hyps(3,4) by (auto simp: buf_ok_def pbuf_get_allocsrc_def)
  from chains_inv_put [OF c fields.hyps(2) this] show ?case by auto
qed

section \<open>Properties\<close>

text \<open>
  C8.  The reference count of a packet buffer is the number of references to it: in every run of the users each
  count is the number of references they hold to the buffer and of buffers that point to it; no reference
  dangles, so that every reference a user holds can be given up, which returns.
\<close>

theorem pbuf_refcount:
  assumes "pbuf_run cf s H"
  shows "(\<forall>p b. pw_buf s p = Some b \<longrightarrow> pb_ref b = count H p + card {q. (q, p) \<in> edges s}) \<and>
    (\<forall>p\<in>#H. \<exists>n s'. pw_buf s p \<noteq> None \<and> pbuf_free cf (Some p) s = Some (Inr (n, s'))) \<and>
    (\<forall>p q. (p, q) \<in> edges s \<longrightarrow> pw_buf s q \<noteq> None)"
proof -
  obtain L where i: "chains_inv s L H" using pbuf_run_inv [OF assms] by blast
  then have r: "refs_ok {} s H" by (simp add: chains_inv_def)
  have "\<exists>n s'. pbuf_free cf (Some p) s = Some (Inr (n, s'))" if "p \<in># H" for p
    using free_ok [of s L p "H - {#p#}" cf] i that by auto
  moreover have "pw_buf s p \<noteq> None" if "p \<in># H" for p using refs_okD(2) [OF r] that by auto
  moreover have "pb_ref b = count H p + card {q. (q, p) \<in> edges s}" if "pw_buf s p = Some b" for p b
    using refs_okD(1) [OF r that] by (simp add: pointers_def)
  moreover have "pw_buf s q \<noteq> None" if "(p, q) \<in> edges s" for p q using refs_okD(3) [OF r _ that] by auto
  ultimately show ?thesis by blast
qed

text \<open>The memory at start-up: an empty heap and two full pools, apart from each other.\<close>

definition demo_pmem :: pmem where
  "demo_pmem = \<lparr>pm_heap = mem_init 0x20000000 demo_heap,
     pm_ref = memp_init_pool \<lparr>mp_base = 0x20010000, mp_size = 16, mp_num = 16, mp_tab = None, mp_next = (\<lambda>_. None),
       mp_used = 0, mp_max = 0, mp_err = 0, mp_avail = 0\<rparr>,
     pm_pool = memp_init_pool \<lparr>mp_base = 0x20011000, mp_size = 1516, mp_num = 10, mp_tab = None, mp_next = (\<lambda>_. None),
       mp_used = 0, mp_max = 0, mp_err = 0, mp_avail = 0\<rparr>\<rparr>"

definition demo_world :: pworld where
  "demo_world = \<lparr>pw_buf = Map.empty, pw_byte = (\<lambda>_. 0), pw_mem = demo_pmem, pbuf_free_ooseq_pending = 0\<rparr>"

lemma init_fields [simp]: "mp_base (memp_init_pool d) = mp_base d" "mp_size (memp_init_pool d) = mp_size d" "mp_num (memp_init_pool d) = mp_num d"
  by (simp_all add: memp_init_pool_def Let_def)

lemma demo_inv: "pmem_inv demo_pmem Map.empty"
proof -
  have d: "dom (from_src Map.empty src) = {}" "from_src Map.empty src = Map.empty" for src
    by (auto simp: from_src_def fun_eq_iff)
  have h: "heap_inv (pm_heap demo_pmem) [(20480, False)]" "hp_ram (pm_heap demo_pmem) = 0x20000000"
    using mem_init_inv [of demo_heap "0x20000000"]
    by (simp_all add: demo_pmem_def demo_heap_def LWIP_MEM_ALIGN_def MEM_ALIGNMENT_def)
  have p: "pool_inv (pm_ref demo_pmem) {}" "pool_inv (pm_pool demo_pmem) {}"
    by (simp_all add: demo_pmem_def memp_init_pool_inv desc_ok_def MEM_ALIGNMENT_def)
  have a: "areas_apart demo_pmem"
    unfolding areas_apart_def heap_area_def pool_area_def h(2)
    by (simp add: demo_pmem_def LWIP_MEM_ALIGN_def MEM_ALIGNMENT_def)
  show ?thesis
    using h p a unfolding pmem_inv_def d by (auto simp: demo_pmem_def held_def intro!: exI [of _ "[(20480, False)]"])
qed

lemma pbuf_demo_run: "pbuf_run cf demo_world {#}"
  using demo_inv by (intro pbuf_run.init) (simp_all add: demo_world_def)


lemma demo_ref_alloc: "\<exists>p s. pbuf_alloc cf 0 100 PBUF_REF demo_world = Some (Inr (Some p, s)) \<and>
    (\<exists>b. pw_buf s p = Some b \<and> pb_ref b = 1 \<and> pb_next b = None)"
proof -
  have "pool_inv (pm_ref demo_pmem) {}" "mp_num (pm_ref demo_pmem) = 16"
    using demo_inv by (simp_all add: demo_pmem_def memp_init_pool_inv desc_ok_def MEM_ALIGNMENT_def)
  then obtain p d where "do_memp_malloc_pool (pm_ref demo_pmem) = Inr (Some p, d)"
    using malloc_pool_some [of "pm_ref demo_pmem" "{}"] by auto
  then show ?thesis
    by (simp add: pbuf_alloc_def pbuf_alloc_reference_def pm_memp_pbuf_def demo_world_def pbuf_init_alloced_pbuf_def)
qed

theorem pbuf_refcount_witness:
  "\<exists>p s n s'. pbuf_alloc (\<lambda>_. None) 0 100 PBUF_REF demo_world = Some (Inr (Some p, s)) \<and>
    pbuf_free (\<lambda>_. None) (Some p) s = Some (Inr (n, s'))"
proof -
  obtain p s where a: "pbuf_alloc (\<lambda>_. None) 0 100 PBUF_REF demo_world = Some (Inr (Some p, s))"
    using demo_ref_alloc by blast
  have "pbuf_run (\<lambda>_. None) s {#p#}" using pbuf_run.alloc [OF pbuf_demo_run _ _ _ a] by simp
  from pbuf_refcount [OF this] show ?thesis using a by auto
qed

text \<open>
  C9.  Nothing leaks: in every run, when the users have given up all their references, no buffer is left, the heap is one
  free block again and every element of the two pools is free.
\<close>

theorem pbuf_no_leak:
  assumes "pbuf_run cf s {#}"
  shows "pw_buf s = Map.empty \<and> heap_inv (pm_heap (pw_mem s)) [(20480, False)] \<and>
    pool_inv (pm_ref (pw_mem s)) {} \<and> pool_inv (pm_pool (pw_mem s)) {}"
proof -
  obtain L where i: "chains_inv s L {#}" using pbuf_run_inv [OF assms] by blast
  then have r: "refs_ok {} s {#}" and w: "world_inv s L" and a: "acyclic (edges s)" by (simp_all add: chains_inv_def)
  have fin: "finite (edges s)"
    by (rule finite_subset [of _ "dom (pw_buf s) \<times> dom (pw_buf s)"])
      (use world_finite [OF w] refs_okD(3) [OF r] in \<open>auto dest: edges_dom\<close>)
  have "dom (pw_buf s) = {}"
  proof (rule ccontr)
    assume "dom (pw_buf s) \<noteq> {}"
    then obtain p where p: "p \<in> dom (pw_buf s)" "\<And>q. (q, p) \<in> edges s \<Longrightarrow> q \<notin> dom (pw_buf s)"
      using finite_acyclic_wf [OF fin a] by (metis (no_types, opaque_lifting) ex_in_conv wfE_min)
    then obtain b where b: "pw_buf s p = Some b" by auto
    have "pointers {} s p = {}" using p(2) edges_dom by (auto simp: pointers_def)
    then show False using refs_okD(1) [OF r b] by auto
  qed
  then have e: "pw_buf s = Map.empty" "L = Map.empty" using w by (auto simp: world_inv_def)
  have d: "from_src Map.empty src = Map.empty" for src by (auto simp: from_src_def fun_eq_iff)
  obtain bs where bs: "heap_inv (pm_heap (pw_mem s)) bs" "held Map.empty (hp_ram (pm_heap (pw_mem s))) bs"
    and p: "pool_inv (pm_ref (pw_mem s)) {}" "pool_inv (pm_pool (pw_mem s)) {}"
    using w unfolding world_inv_def pmem_inv_def e(2) d by auto
  have "offs 0 bs = {}" using bs(2) by (auto simp: held_def)
  then show ?thesis using all_free [OF bs(1)] bs(1) p e(1) by simp
qed

theorem pbuf_no_leak_witness:
  "\<exists>p s n s'. pbuf_alloc (\<lambda>_. None) 0 100 PBUF_REF demo_world = Some (Inr (Some p, s)) \<and>
    pbuf_free (\<lambda>_. None) (Some p) s = Some (Inr (n, s')) \<and> pw_buf s' = Map.empty"
proof -
  obtain p s where a: "pbuf_alloc (\<lambda>_. None) 0 100 PBUF_REF demo_world = Some (Inr (Some p, s))"
    using demo_ref_alloc by blast
  have r: "pbuf_run (\<lambda>_. None) s {#p#}" using pbuf_run.alloc [OF pbuf_demo_run _ _ _ a] by simp
  then obtain L where "chains_inv s L {#p#}" using pbuf_run_inv by blast
  then obtain n s' where f: "pbuf_free (\<lambda>_. None) (Some p) s = Some (Inr (n, s'))" using free_ok [of s L p "{#}"] by blast
  have "pbuf_run (\<lambda>_. None) s' {#}" by (rule pbuf_run.free [OF r f])
  from pbuf_no_leak [OF this] show ?thesis using a f by blast
qed

text \<open>A \<^verbatim>\<open>PBUF_RAM\<close> buffer of 100 bytes behind room for 54 bytes of headers.\<close>

lemma demo_ram_alloc:
  "\<exists>p s b. pbuf_alloc cf 54 100 PBUF_RAM demo_world = Some (Inr (Some p, s)) \<and> pw_buf s p = Some b \<and> pbuf_get_allocsrc b = 0 \<and> pb_len b = 100"
proof -
  have u: "st_used demo_heap = 0" by (simp add: demo_heap_def)
  have h: "pm_heap demo_pmem = mem_init 0x20000000 demo_heap" by (simp add: demo_pmem_def)
  obtain h' where m: "mem_malloc 172 (mem_init 0x20000000 demo_heap) = Some (Inr (Some 0x20000008, h'))"
    using mem_malloc_inv [OF mem_init_inv(1) [OF u], of 172 "0x20000000"] mem_init_inv(2) [OF u, of "0x20000000"]
    by (auto simp: LWIP_MEM_ALIGN_def MEM_ALIGNMENT_def request_def blk_fit_def fits_def)
  show ?thesis using m h
    by (simp add: pbuf_alloc_def Let_def demo_world_def pm_heap_alloc_def LWIP_MEM_ALIGN_def MEM_ALIGNMENT_def SIZEOF_STRUCT_PBUF_def
        pbuf_init_alloced_pbuf_def pbuf_get_allocsrc_def)
qed



section \<open>What a release removes\<close>

fun chain_of :: "pworld \<Rightarrow> nat option \<Rightarrow> nat list \<Rightarrow> bool" where
  "chain_of s p [] \<longleftrightarrow> p = None"
| "chain_of s p (q # qs) \<longleftrightarrow> p = Some q \<and> (\<exists>b. pw_buf s q = Some b \<and> chain_of s (pb_next b) qs)"

definition count_of :: "pworld \<Rightarrow> nat \<Rightarrow> nat" where
  "count_of s q = (case pw_buf s q of None \<Rightarrow> 0 | Some b \<Rightarrow> pb_ref b)"

lemma chain_of_frame:
  "\<forall>q\<in>set qs. map_option pb_next (pw_buf s' q) = map_option pb_next (pw_buf s q) \<Longrightarrow> chain_of s' p qs = chain_of s p qs"
proof (induction qs arbitrary: p)
  case (Cons q qs)
  then have q: "map_option pb_next (pw_buf s' q) = map_option pb_next (pw_buf s q)" by simp
  show ?case
  proof (cases "pw_buf s q")
    case None
    then show ?thesis using q by simp
  next
    case (Some b)
    then obtain b' where "pw_buf s' q = Some b'" "pb_next b' = pb_next b" using q by auto
    then show ?thesis using Cons.IH [of "pb_next b"] Cons.prems Some by simp
  qed
qed simp

lemma chain_live: "chain_of s p qs \<Longrightarrow> q \<in> set qs \<Longrightarrow> \<exists>b. pw_buf s q = Some b"
  by (induction s p qs rule: chain_of.induct) auto

lemma chain_path: "chain_of s (Some p) (p # qs) \<Longrightarrow> x \<in> set qs \<Longrightarrow> (p, x) \<in> (edges s)\<^sup>+"
proof (induction qs arbitrary: p)
  case (Cons q qs)
  obtain b where b: "pw_buf s p = Some b" "pb_next b = Some q" "chain_of s (Some q) (q # qs)" using Cons.prems(1) by auto
  have e: "(p, q) \<in> edges s" using b by (auto simp: edges_def)
  show ?case
  proof (cases "x = q")
    case False
    then have "(q, x) \<in> (edges s)\<^sup>+" using Cons.IH [OF b(3)] Cons.prems(2) by simp
    then show ?thesis using e by (rule trancl_into_trancl2 [rotated])
  qed (use e in auto)
qed simp

lemma chain_distinct: "chain_of s p qs \<Longrightarrow> acyclic (edges s) \<Longrightarrow> distinct qs"
proof (induction qs arbitrary: p)
  case (Cons q qs)
  have "q \<notin> set qs" using chain_path [of s q qs q] Cons.prems by (auto simp: acyclic_def)
  then show ?case using Cons by auto
qed simp

text \<open>The buffers at the head with one reference only go; the next loses one.\<close>

definition released :: "nat list \<Rightarrow> pworld \<Rightarrow> nat \<rightharpoonup> pbuf" where
  "released qs s = (let gone = takeWhile (\<lambda>q. count_of s q = 1) qs; rest = dropWhile (\<lambda>q. count_of s q = 1) qs
     in (\<lambda>x. if x \<in> set gone then None
        else if rest \<noteq> [] \<and> x = hd rest then map_option (\<lambda>b. b\<lparr>pb_ref := pb_ref b - 1\<rparr>) (pw_buf s x)
        else pw_buf s x))"

lemma free_loop_chain:
  assumes "world_inv s L" "chain_of s p qs" "distinct qs" "\<forall>q\<in>set qs. 0 < count_of s q \<and> count_of s q < 256" "c < 256"
  shows "\<exists>s' L'. pbuf_free_loop cf p c s = Some (Inr (u8c (c + length (takeWhile (\<lambda>q. count_of s q = 1) qs)), s')) \<and>
    pw_buf s' = released qs s \<and> pw_byte s' = pw_byte s \<and> world_inv s' L'"
  using assms
proof (induction qs arbitrary: s L p c)
  case Nil
  then show ?case by (auto simp: released_def u8c_simps)
next
  case (Cons q qs)
  obtain b where b: "p = Some q" "pw_buf s q = Some b" "chain_of s (pb_next b) qs" using Cons.prems(2) by auto
  have r: "0 < pb_ref b" "pb_ref b < 256" "count_of s q = pb_ref b" using Cons.prems(4) b(2) by (auto simp: count_of_def)
  show ?case
  proof (cases "pb_ref b = 1")
    case False
    let ?s = "put q (b\<lparr>pb_ref := pb_ref b - 1\<rparr>) s"
    have "world_inv ?s L" by (rule world_inv_put [OF Cons.prems(1) b(2)]) (use Cons.prems(1) b(2) in \<open>simp add: world_inv_def\<close>)
    moreover have "pw_buf ?s = released (q # qs) s" using r False b(2) by (simp add: released_def fun_upd_def fun_eq_iff)
    ultimately show ?thesis
      using free_loop_dec [OF b(2) _ r(2), of cf c] False r b(1) Cons.prems(5) by (auto simp: u8c_simps)
  next
    case True
    obtain m where m: "pbuf_dealloc cf q (b\<lparr>pb_ref := 0\<rparr>) (put q (b\<lparr>pb_ref := 0\<rparr>) s) = Inr (drop_buf q m s)"
      "world_inv (drop_buf q m s) (L(q := None))"
      using dealloc_ok [OF Cons.prems(1) b(2)] by blast
    let ?s = "drop_buf q m s"
    have nq: "q \<notin> set qs" using Cons.prems(3) by simp
    then have cnt: "\<forall>x\<in>set qs. count_of ?s x = count_of s x" by (auto simp: count_of_def)
    have "chain_of ?s (pb_next b) qs" using b(3) nq chain_of_frame [of qs ?s s] by auto
    moreover have "\<forall>q\<in>set qs. 0 < count_of ?s q \<and> count_of ?s q < 256" using Cons.prems(4) cnt by simp
    moreover have d: "distinct qs" "u8c (c + 1) < 256" using Cons.prems(3) by (simp_all add: u8c_def)
    ultimately obtain s' L' where s': "pbuf_free_loop cf (pb_next b) (u8c (c + 1)) ?s =
        Some (Inr (u8c (u8c (c + 1) + length (takeWhile (\<lambda>q. count_of ?s q = 1) qs)), s'))"
      "pw_buf s' = released qs ?s" "pw_byte s' = pw_byte ?s" "world_inv s' L'"
      using Cons.IH [OF m(2), of "pb_next b" "u8c (c + 1)"] d by blast
    have tw: "takeWhile (\<lambda>q. count_of ?s q = 1) qs = takeWhile (\<lambda>q. count_of s q = 1) qs"
      "dropWhile (\<lambda>q. count_of ?s q = 1) qs = dropWhile (\<lambda>q. count_of s q = 1) qs"
      using cnt by (auto intro: takeWhile_cong dropWhile_cong)
    have "hd (dropWhile (\<lambda>q. count_of s q = 1) qs) \<noteq> q" if "dropWhile (\<lambda>q. count_of s q = 1) qs \<noteq> []"
      using that nq by (metis hd_in_set set_dropWhileD)
    moreover have "released (q # qs) s = (\<lambda>x. if x = q \<or> x \<in> set (takeWhile (\<lambda>q. count_of s q = 1) qs) then None
        else if dropWhile (\<lambda>q. count_of s q = 1) qs \<noteq> [] \<and> x = hd (dropWhile (\<lambda>q. count_of s q = 1) qs)
        then map_option (\<lambda>b. b\<lparr>pb_ref := pb_ref b - 1\<rparr>) (pw_buf s x) else pw_buf s x)"
      using True r(3) by (simp add: released_def Let_def cong: if_cong)
    ultimately have "released qs ?s = released (q # qs) s"
      unfolding released_def [of qs ?s] tw Let_def by (intro ext) simp
    moreover have "u8c (u8c (c + 1) + k) = u8c (c + Suc k)" for k by (simp add: u8c_def mod_simps)
    ultimately show ?thesis
      using s' True r(3) unfolding b(1) free_loop_last [OF b(2) True m(1), of c] tw
      by (intro exI [of _ s'] exI [of _ L']) simp
  qed
qed

text \<open>
  C27.  A release gives up one reference and removes what is no longer referenced: in every run, for a reference a user
  holds to the head of the chain \<open>qs\<close>, \<^verbatim>\<open>pbuf_free\<close> deallocates exactly the buffers before the first one with a second
  reference, which loses one, and changes no other buffer; it returns their number modulo 256.
\<close>

theorem pbuf_free_prefix:
  assumes "pbuf_run cf s H" "p \<in># H" "chain_of s (Some p) qs"
  shows "\<exists>s'. pbuf_free cf (Some p) s = Some (Inr (length (takeWhile (\<lambda>q. count_of s q = 1) qs) mod 256, s')) \<and>
    pw_buf s' = released qs s \<and> pw_byte s' = pw_byte s"
proof -
  obtain L where i: "chains_inv s L H" using pbuf_run_inv [OF assms(1)] by blast
  have w: "world_inv s L" and r: "refs_ok {} s H" and a: "acyclic (edges s)" using i by (simp_all add: chains_inv_def)
  have d: "distinct qs" by (rule chain_distinct [OF assms(3) a])
  have "0 < count_of s q \<and> count_of s q < 256" if q: "q \<in> set qs" for q
  proof -
    obtain b where b: "pw_buf s q = Some b" using chain_live [OF assms(3) q] by blast
    then show ?thesis using refs_okD(1) [OF r b] by (auto simp: count_of_def)
  qed
  then obtain s' where "pbuf_free_loop cf (Some p) 0 s = Some (Inr (u8c (0 + length (takeWhile (\<lambda>q. count_of s q = 1) qs)), s'))"
    "pw_buf s' = released qs s" "pw_byte s' = pw_byte s"
    using free_loop_chain [OF w assms(3) d, of 0 cf] by auto
  then show ?thesis by (auto simp: pbuf_free_def u8c_def)
qed


theorem pbuf_free_prefix_witness:
  "\<exists>p s s'. pbuf_alloc (\<lambda>_. None) 0 100 PBUF_REF demo_world = Some (Inr (Some p, s)) \<and>
    pbuf_free (\<lambda>_. None) (Some p) s = Some (Inr (1, s')) \<and> pw_buf s' p = None"
proof -
  obtain p s b where a: "pbuf_alloc (\<lambda>_. None) 0 100 PBUF_REF demo_world = Some (Inr (Some p, s))"
    "pw_buf s p = Some b" "pb_ref b = 1" "pb_next b = None" using demo_ref_alloc by blast
  have r: "pbuf_run (\<lambda>_. None) s {#p#}" using pbuf_run.alloc [OF pbuf_demo_run _ _ _ a(1)] by simp
  have "chain_of s (Some p) [p]" using a by simp
  from pbuf_free_prefix [OF r _ this] show ?thesis using a by (auto simp: count_of_def released_def)
qed

end
