(* ===== verification/LwPbufData.thy ===== *)
theory LwPbufData
  imports LwPbufRefs LwDef
begin

text \<open>
  \<^verbatim>\<open>pbuf.c\<close>, the second half: reading, storing, copying and searching the data a chain of buffers holds.
  The content of a chain is the list of its bytes in order, and each operation is shown to be what it should be on
  that list, however it is divided into buffers: \<open>content\<close> is the abstraction, \<open>packet\<close> what a
  caller promises (the chain ends, every \<^verbatim>\<open>tot_len\<close> is what is left of it, fewer than 65536 bytes).
\<close>

section \<open>Reaching a byte\<close>

partial_function (option) skip_loop :: "nat option \<Rightarrow> nat \<Rightarrow> pworld \<Rightarrow> (nat option \<times> nat) run" where
  "skip_loop q offset_left s =
     (case q of
        None \<Rightarrow> Some (Inr (None, offset_left))
      | Some q \<Rightarrow>
          (case pw_buf s q of
             None \<Rightarrow> Some (Inl DanglingPtr)
           | Some b \<Rightarrow>
               if pb_len b \<le> offset_left then skip_loop (pb_next b) (u16c (offset_left + 65536 - pb_len b)) s
               else Some (Inr (Some q, offset_left))))"

definition pbuf_skip_const :: "nat option \<Rightarrow> nat \<Rightarrow> pworld \<Rightarrow> (nat option \<times> nat) run" where
  "pbuf_skip_const p in_offset s = skip_loop p in_offset s"

definition pbuf_skip :: "nat option \<Rightarrow> nat \<Rightarrow> pworld \<Rightarrow> (nat option \<times> nat) run" where
  "pbuf_skip p in_offset s = pbuf_skip_const p in_offset s"

definition pbuf_try_get_at :: "nat option \<Rightarrow> nat \<Rightarrow> pworld \<Rightarrow> int run" where
  "pbuf_try_get_at p offset s =
     rbind (pbuf_skip_const p offset s) (\<lambda>(q, q_idx).
       case q of
         None \<Rightarrow> Some (Inr (-1))
       | Some q \<Rightarrow> rbind (Some (deref (pw_buf s) q)) (\<lambda>b.
           if q_idx < pb_len b then Some (Inr (uint (pw_byte s (payload b + q_idx)))) else Some (Inr (-1))))"

definition pbuf_get_at :: "nat option \<Rightarrow> nat \<Rightarrow> pworld \<Rightarrow> u8 run" where
  "pbuf_get_at p offset s = rbind (pbuf_try_get_at p offset s) (\<lambda>ret. Some (Inr (if 0 \<le> ret then word_of_int ret else 0)))"

definition pbuf_put_at :: "nat option \<Rightarrow> nat \<Rightarrow> u8 \<Rightarrow> pworld \<Rightarrow> pworld run" where
  "pbuf_put_at p offset dat s =
     rbind (pbuf_skip p offset s) (\<lambda>(q, q_idx).
       case q of
         None \<Rightarrow> Some (Inr s)
       | Some q \<Rightarrow> rbind (Some (deref (pw_buf s) q)) (\<lambda>b.
           if q_idx < pb_len b then Some (Inr (s\<lparr>pw_byte := (pw_byte s)(payload b + q_idx := dat)\<rparr>)) else Some (Inr s)))"

section \<open>Copying out\<close>

text \<open>The application's buffer is a list; a store behind its end is a fault.\<close>

partial_function (option) copy_partial_loop ::
    "nat option \<Rightarrow> nat \<Rightarrow> nat \<Rightarrow> nat \<Rightarrow> nat \<Rightarrow> u8 list \<Rightarrow> pworld \<Rightarrow> (nat \<times> u8 list) run" where
  "copy_partial_loop p len offset left copied_total dataptr s =
     (case p of
        None \<Rightarrow> Some (Inr (copied_total, dataptr))
      | Some p \<Rightarrow>
          if len = 0 then Some (Inr (copied_total, dataptr))
          else
            (case pw_buf s p of
               None \<Rightarrow> Some (Inl DanglingPtr)
             | Some b \<Rightarrow>
                 if offset \<noteq> 0 \<and> pb_len b \<le> offset
                 then copy_partial_loop (pb_next b) len (u16c (offset + 65536 - pb_len b)) left copied_total dataptr s
                 else
                   (let buf_copy_len = u16c (pb_len b + 65536 - offset);
                        buf_copy_len = (if len < buf_copy_len then len else buf_copy_len)
                    in if length dataptr < left + buf_copy_len then Some (Inl OutOfBounds)
                       else copy_partial_loop (pb_next b) (u16c (len + 65536 - buf_copy_len)) 0 (u16c (left + buf_copy_len))
                         (u16c (copied_total + buf_copy_len))
                         (take left dataptr @ load_bytes (payload b + offset) buf_copy_len s @ drop (left + buf_copy_len) dataptr) s)))"

definition pbuf_copy_partial :: "nat option \<Rightarrow> u8 list option \<Rightarrow> nat \<Rightarrow> nat \<Rightarrow> pworld \<Rightarrow> (nat \<times> u8 list option) run" where
  "pbuf_copy_partial buf dataptr len offset s =
     (if buf = None then Some (Inr (0, dataptr))
      else (case dataptr of
         None \<Rightarrow> Some (Inr (0, dataptr))
       | Some dat \<Rightarrow> rbind (copy_partial_loop buf len offset 0 0 dat s) (\<lambda>(n, dat). Some (Inr (n, Some dat)))))"

text \<open>A null pointer, a pointer into a payload, or the buffer given.\<close>

datatype contiguous = CNull | CPayload nat | CBuffer "u8 list"

definition pbuf_get_contiguous :: "nat option \<Rightarrow> u8 list option \<Rightarrow> nat \<Rightarrow> nat \<Rightarrow> nat \<Rightarrow> pworld \<Rightarrow> contiguous run" where
  "pbuf_get_contiguous p buffer bufsize len offset s =
     (if p = None then Some (Inr CNull)
      else (case buffer of
         None \<Rightarrow> Some (Inr CNull)
       | Some buffer \<Rightarrow>
           if \<not> len \<le> bufsize then Some (Inr CNull)
           else
             rbind (pbuf_skip_const p offset s) (\<lambda>(q, out_offset).
               case q of
                 None \<Rightarrow> Some (Inr CNull)
               | Some q \<Rightarrow> rbind (Some (deref (pw_buf s) q)) (\<lambda>b.
                   if out_offset + len \<le> pb_len b then Some (Inr (CPayload (payload b + out_offset)))
                   else rbind (pbuf_copy_partial (Some q) (Some buffer) len out_offset s) (\<lambda>(n, dat).
                     if n \<noteq> len then Some (Inr CNull) else Some (Inr (CBuffer (the dat))))))))"

section \<open>Copying in\<close>

partial_function (option) take_loop :: "nat option \<Rightarrow> nat \<Rightarrow> nat \<Rightarrow> u8 list \<Rightarrow> pworld \<Rightarrow> (nat \<times> pworld) run" where
  "take_loop p total_copy_len copied_total dataptr s =
     (if total_copy_len = 0 then Some (Inr (copied_total, s))
      else
        (case p of
           None \<Rightarrow> Some (Inl AssertFailed)
         | Some p \<Rightarrow>
             (case pw_buf s p of
                None \<Rightarrow> Some (Inl DanglingPtr)
              | Some b \<Rightarrow>
                  (let n = (if pb_len b < total_copy_len then pb_len b else total_copy_len)
                   in if length dataptr < copied_total + n then Some (Inl OutOfBounds)
                      else take_loop (pb_next b) (total_copy_len - n) (copied_total + n) dataptr
                        (store_bytes (payload b) (take n (drop copied_total dataptr)) s)))))"

definition pbuf_take :: "nat option \<Rightarrow> u8 list option \<Rightarrow> nat \<Rightarrow> pworld \<Rightarrow> (int \<times> pworld) run" where
  "pbuf_take buf dataptr len s =
     (case buf of
        None \<Rightarrow> Some (Inr (ERR_ARG, s))
      | Some p \<Rightarrow>
          (case dataptr of
             None \<Rightarrow> Some (Inr (ERR_ARG, s))
           | Some dat \<Rightarrow>
               rbind (Some (deref (pw_buf s) p)) (\<lambda>b.
                 if \<not> len \<le> tot_len b then Some (Inr (ERR_MEM, s))
                 else rbind (take_loop buf len 0 dat s) (\<lambda>(n, s).
                   if n \<noteq> len then Some (Inl AssertFailed) else Some (Inr (ERR_OK, s))))))"

definition pbuf_take_at :: "nat option \<Rightarrow> u8 list \<Rightarrow> nat \<Rightarrow> nat \<Rightarrow> pworld \<Rightarrow> (int \<times> pworld) run" where
  "pbuf_take_at buf dataptr len offset s =
     rbind (pbuf_skip buf offset s) (\<lambda>(q, target_offset).
       case q of
         None \<Rightarrow> Some (Inr (ERR_MEM, s))
       | Some q \<Rightarrow> rbind (Some (deref (pw_buf s) q)) (\<lambda>b.
           if \<not> target_offset + len \<le> tot_len b then Some (Inr (ERR_MEM, s))
           else if \<not> target_offset < pb_len b then Some (Inl AssertFailed)
           else
             (let first_copy_len = u16c (min (pb_len b - target_offset) len)
              in if length dataptr < first_copy_len then Some (Inl OutOfBounds)
                 else
                   (let s = store_bytes (payload b + target_offset) (take first_copy_len dataptr) s;
                        remaining_len = u16c (len + 65536 - first_copy_len)
                    in if 0 < remaining_len then pbuf_take (pb_next b) (Some (drop first_copy_len dataptr)) remaining_len s
                       else Some (Inr (ERR_OK, s))))))"

section \<open>Copying between chains\<close>

text \<open>The test that stops at a packet queue.\<close>

definition queued :: "nat option \<Rightarrow> pworld \<Rightarrow> fault + bool" where
  "queued p s =
     (case p of None \<Rightarrow> Inr False
      | Some p \<Rightarrow> seq (deref (pw_buf s) p) (\<lambda>b. Inr (pb_len b = tot_len b \<and> pb_next b \<noteq> None)))"

partial_function (option) copy_loop :: "nat option \<Rightarrow> nat option \<Rightarrow> nat \<Rightarrow> nat \<Rightarrow> pworld \<Rightarrow> (int \<times> pworld) run" where
  "copy_loop p_to p_from offset_to offset_from s =
     (case seq (nonnull p_to) (deref (pw_buf s)) of
        Inl e \<Rightarrow> Some (Inl e)
      | Inr bt \<Rightarrow>
          (case seq (nonnull p_from) (deref (pw_buf s)) of
             Inl e \<Rightarrow> Some (Inl e)
           | Inr bf \<Rightarrow>
               (let len = (if sub32 (pb_len bf) offset_from \<le> sub32 (pb_len bt) offset_to
                           then sub32 (pb_len bf) offset_from else sub32 (pb_len bt) offset_to);
                    s = memcpy (payload bt + offset_to) (payload bf + offset_from) len s;
                    offset_to = offset_to + len;
                    offset_from = offset_from + len
                in if \<not> offset_to \<le> pb_len bt then Some (Inl AssertFailed)
                   else if \<not> offset_from \<le> pb_len bf then Some (Inl AssertFailed)
                   else
                     (let from_done = (pb_len bf \<le> offset_from);
                          p_from = (if from_done then pb_next bf else p_from);
                          offset_from = (if from_done then 0 else offset_from);
                          to_done = (offset_to = pb_len bt);
                          p_to = (if to_done then pb_next bt else p_to);
                          offset_to = (if to_done then 0 else offset_to)
                      in if to_done \<and> p_to = None \<and> p_from \<noteq> None then Some (Inr (ERR_ARG, s))
                         else
                           (case queued p_from s of
                              Inl e \<Rightarrow> Some (Inl e)
                            | Inr queue \<Rightarrow>
                                if queue then Some (Inr (ERR_VAL, s))
                                else
                                  (case queued p_to s of
                                     Inl e \<Rightarrow> Some (Inl e)
                                   | Inr queue \<Rightarrow>
                                       if queue then Some (Inr (ERR_VAL, s))
                                       else if p_from = None then Some (Inr (ERR_OK, s))
                                       else copy_loop p_to p_from offset_to offset_from s))))))"

definition pbuf_copy :: "nat option \<Rightarrow> nat option \<Rightarrow> pworld \<Rightarrow> (int \<times> pworld) run" where
  "pbuf_copy p_to p_from s =
     (case (p_to, p_from) of
        (Some t, Some f) \<Rightarrow>
          rbind (Some (deref (pw_buf s) t)) (\<lambda>bt. rbind (Some (deref (pw_buf s) f)) (\<lambda>bf.
            if \<not> tot_len bf \<le> tot_len bt then Some (Inr (ERR_ARG, s)) else copy_loop p_to p_from 0 0 s))
      | _ \<Rightarrow> Some (Inr (ERR_ARG, s)))"

definition pbuf_clone :: "custom_free \<Rightarrow> nat \<Rightarrow> u16 \<Rightarrow> nat \<Rightarrow> pworld \<Rightarrow> (nat option \<times> pworld) run" where
  "pbuf_clone cf layer type p s =
     rbind (Some (deref (pw_buf s) p)) (\<lambda>b.
     rbind (pbuf_alloc cf layer (tot_len b) type s) (\<lambda>(q, s).
       case q of
         None \<Rightarrow> Some (Inr (None, s))
       | Some q \<Rightarrow> rbind (pbuf_copy (Some q) (Some p) s) (\<lambda>(err, s).
           if err \<noteq> ERR_OK then Some (Inl AssertFailed) else Some (Inr (Some q, s)))))"

definition pbuf_coalesce :: "custom_free \<Rightarrow> nat \<Rightarrow> nat \<Rightarrow> pworld \<Rightarrow> (nat \<times> pworld) run" where
  "pbuf_coalesce cf p layer s =
     rbind (Some (deref (pw_buf s) p)) (\<lambda>b.
       if pb_next b = None then Some (Inr (p, s))
       else rbind (pbuf_clone cf layer PBUF_RAM p s) (\<lambda>(q, s).
         case q of
           None \<Rightarrow> Some (Inr (p, s))
         | Some q \<Rightarrow> rbind (pbuf_free cf (Some p) s) (\<lambda>(_, s). Some (Inr (q, s)))))"

section \<open>Searching\<close>

text \<open>The comparison of \<open>n\<close> bytes; \<open>i\<close> of them have been equal.\<close>

fun memcmp_loop :: "nat option \<Rightarrow> nat \<Rightarrow> u8 list \<Rightarrow> nat \<Rightarrow> nat \<Rightarrow> pworld \<Rightarrow> nat run" where
  "memcmp_loop q start s2 i 0 s = Some (Inr 0)"
| "memcmp_loop q start s2 i (Suc k) s =
     rbind (pbuf_get_at q (u16c (start + i)) s) (\<lambda>a.
     rbind (Some (index s2 i)) (\<lambda>b.
       if a \<noteq> b then Some (Inr (u16c (min (i + 1) 0xFFFF))) else memcmp_loop q start s2 (i + 1) k s))"

definition pbuf_memcmp :: "nat \<Rightarrow> nat \<Rightarrow> u8 list \<Rightarrow> nat \<Rightarrow> pworld \<Rightarrow> nat run" where
  "pbuf_memcmp p offset s2 n s =
     rbind (Some (deref (pw_buf s) p)) (\<lambda>b.
       if tot_len b < offset + n then Some (Inr 0xFFFF)
       else rbind (skip_loop (Some p) offset s) (\<lambda>(q, start). memcmp_loop q start s2 0 n s))"

partial_function (option) memfind_loop :: "nat \<Rightarrow> u8 list \<Rightarrow> nat \<Rightarrow> nat \<Rightarrow> nat \<Rightarrow> pworld \<Rightarrow> nat run" where
  "memfind_loop p mem mem_len i max_cmp_start s =
     (if i \<le> max_cmp_start then
        (case pbuf_memcmp p i mem mem_len s of
           None \<Rightarrow> None
         | Some (Inl e) \<Rightarrow> Some (Inl e)
         | Some (Inr diff) \<Rightarrow>
             if diff = 0 then Some (Inr i) else memfind_loop p mem mem_len (u16c (i + 1)) max_cmp_start s)
      else Some (Inr 0xFFFF))"

definition pbuf_memfind :: "nat \<Rightarrow> u8 list \<Rightarrow> nat \<Rightarrow> nat \<Rightarrow> pworld \<Rightarrow> nat run" where
  "pbuf_memfind p mem mem_len start_offset s =
     rbind (Some (deref (pw_buf s) p)) (\<lambda>b.
       let max_cmp_start = u16c (tot_len b + 65536 - mem_len)
       in if mem_len + start_offset \<le> tot_len b then memfind_loop p mem mem_len start_offset max_cmp_start s
          else Some (Inr 0xFFFF))"

definition pbuf_strstr :: "nat \<Rightarrow> u8 list option \<Rightarrow> pworld \<Rightarrow> nat run" where
  "pbuf_strstr p substr s =
     (case substr of
        None \<Rightarrow> Some (Inr 0xFFFF)
      | Some str \<Rightarrow>
          rbind (Some (index str 0)) (\<lambda>c.
            if c = 0 then Some (Inr 0xFFFF)
            else rbind (Some (deref (pw_buf s) p)) (\<lambda>b.
              if tot_len b = 0xFFFF then Some (Inr 0xFFFF)
              else rbind (Some (c_strlen str)) (\<lambda>substr_len.
                if 0xFFFF \<le> substr_len then Some (Inr 0xFFFF)
                else pbuf_memfind p str (u16c substr_len) 0 s))))"

section \<open>The bytes of a chain\<close>

text \<open>The addresses of the payload bytes of a chain, in order, and what they hold.\<close>

definition span :: "pworld \<Rightarrow> nat \<Rightarrow> nat list" where
  "span s q = (case pw_buf s q of None \<Rightarrow> [] | Some b \<Rightarrow> [payload b..<payload b + pb_len b])"

definition addrs :: "pworld \<Rightarrow> nat list \<Rightarrow> nat list" where
  "addrs s qs = concat (map (span s) qs)"

definition content :: "pworld \<Rightarrow> nat list \<Rightarrow> u8 list" where
  "content s qs = map (pw_byte s) (addrs s qs)"

lemma addrs_simps [simp]: "addrs s [] = []" "addrs s (q # qs) = span s q @ addrs s qs" "addrs s (xs @ ys) = addrs s xs @ addrs s ys"
  by (simp_all add: addrs_def)

lemma content_simps [simp]: "content s [] = []" "content s (q # qs) = map (pw_byte s) (span s q) @ content s qs"
    "content s (xs @ ys) = content s xs @ content s ys" "length (content s qs) = length (addrs s qs)"
  by (simp_all add: content_def)

lemma span_Some: "pw_buf s q = Some b \<Longrightarrow> span s q = [payload b..<payload b + pb_len b]"
  by (simp add: span_def)

lemma addrs_cong: "pw_buf s' = pw_buf s \<Longrightarrow> addrs s' qs = addrs s qs"
proof -
  assume "pw_buf s' = pw_buf s"
  then have "span s' = span s" by (simp add: span_def fun_eq_iff)
  then show ?thesis by (simp add: addrs_def)
qed

lemma chain_cong: "pw_buf s' = pw_buf s \<Longrightarrow> chain_of s' p qs = chain_of s p qs"
  by (rule chain_of_frame) simp

lemma load_span: "load_bytes a n s = map (pw_byte s) [a..<a + n]"
  by (rule nth_equalityI) (simp_all add: load_bytes_def)

definition head :: "nat list \<Rightarrow> nat option" where
  "head qs = (case qs of [] \<Rightarrow> None | q # _ \<Rightarrow> Some q)"

lemma head_simps [simp]: "head [] = None" "head (q # qs) = Some q"
  by (simp_all add: head_def)

lemma chain_head: "chain_of s p qs \<Longrightarrow> p = head qs"
  by (cases qs) simp_all

lemma chain_append: "chain_of s p (xs @ ys) \<Longrightarrow> chain_of s (head ys) ys"
  by (induction s p xs rule: chain_of.induct) (auto dest: chain_head)

section \<open>Skipping\<close>

lemma skip_loop_chain:
  assumes "chain_of s p qs" "length (addrs s qs) < 65536" "off < 65536"
  shows "\<exists>xs ys. qs = xs @ ys \<and> length (addrs s xs) \<le> off \<and> (\<forall>y zs. ys = y # zs \<longrightarrow> off - length (addrs s xs) < length (span s y)) \<and>
    skip_loop p off s = Some (Inr (head ys, off - length (addrs s xs)))"
  using assms
proof (induction qs arbitrary: p off)
  case Nil
  then show ?case by (intro exI [of _ "[]"]) (simp add: skip_loop.simps)
next
  case (Cons q qs)
  obtain b where b: "p = Some q" "pw_buf s q = Some b" "chain_of s (pb_next b) qs" using Cons.prems(1) by auto
  note sp = span_Some [OF b(2)]
  show ?case
  proof (cases "pb_len b \<le> off")
    case False
    then show ?thesis using b sp by (intro exI [of _ "[]"] exI [of _ "q # qs"]) (simp add: skip_loop.simps)
  next
    case True
    have u: "u16c (off + 65536 - pb_len b) = off - pb_len b" by (rule u16c_minus [OF True Cons.prems(3)])
    have l: "length (addrs s qs) < 65536" and o: "off - pb_len b < 65536" using Cons.prems(2,3) by simp_all
    obtain xs ys where xy: "qs = xs @ ys" "length (addrs s xs) \<le> off - pb_len b"
      "\<forall>y zs. ys = y # zs \<longrightarrow> off - pb_len b - length (addrs s xs) < length (span s y)"
      "skip_loop (pb_next b) (off - pb_len b) s = Some (Inr (head ys, off - pb_len b - length (addrs s xs)))"
      using Cons.IH [OF b(3) l] o by blast
    have "skip_loop p off s = skip_loop (pb_next b) (off - pb_len b) s"
      using b True u by (subst skip_loop.simps) simp
    then show ?thesis
      using xy True sp by (intro exI [of _ "q # xs"] exI [of _ ys]) (simp add: diff_diff_add)
  qed
qed

text \<open>The byte at an offset, or the end of the chain.\<close>

lemma skip_cases:
  assumes "chain_of s p qs" "length (addrs s qs) < 65536" "off < 65536"
  obtains (found) xs y zs b where "qs = xs @ y # zs" "pw_buf s y = Some b" "off = length (addrs s xs) + (off - length (addrs s xs))"
      "off - length (addrs s xs) < pb_len b" "skip_loop p off s = Some (Inr (Some y, off - length (addrs s xs)))"
      "off < length (addrs s qs)" "addrs s qs ! off = payload b + (off - length (addrs s xs))"
    | (beyond) off' where "skip_loop p off s = Some (Inr (None, off'))" "length (addrs s qs) \<le> off"
proof -
  obtain xs ys where xy: "qs = xs @ ys" "length (addrs s xs) \<le> off"
    "\<forall>y zs. ys = y # zs \<longrightarrow> off - length (addrs s xs) < length (span s y)"
    "skip_loop p off s = Some (Inr (head ys, off - length (addrs s xs)))"
    using skip_loop_chain [OF assms] by blast
  show thesis
  proof (cases ys)
    case Nil
    then show thesis using beyond xy by simp
  next
    case (Cons y zs)
    obtain b where b: "pw_buf s y = Some b" using chain_live [OF assms(1), of y] xy(1) Cons by auto
    have lt: "off - length (addrs s xs) < pb_len b" using xy(3) Cons span_Some [OF b] by simp
    have "addrs s qs ! off = payload b + (off - length (addrs s xs))"
      using xy(1,2) Cons span_Some [OF b] lt by (simp add: nth_append)
    moreover have "off < length (addrs s qs)" using xy(1,2) Cons span_Some [OF b] lt by simp
    ultimately show thesis using found [of xs y zs b] xy Cons b lt by simp
  qed
qed

lemma try_get_at_chain:
  assumes "chain_of s p qs" "length (addrs s qs) < 65536" "off < 65536"
  shows "pbuf_try_get_at p off s = Some (Inr (if off < length (addrs s qs) then uint (content s qs ! off) else -1))"
  using assms
proof (cases rule: skip_cases)
  case (found xs y zs b)
  then have "content s qs ! off = pw_byte s (payload b + (off - length (addrs s xs)))"
    unfolding content_def by (metis nth_map)
  then show ?thesis using found by (simp add: pbuf_try_get_at_def pbuf_skip_const_def)
next
  case (beyond off')
  then show ?thesis by (simp add: pbuf_try_get_at_def pbuf_skip_const_def)
qed

lemma get_at_chain:
  assumes "chain_of s p qs" "length (addrs s qs) < 65536" "off < 65536"
  shows "pbuf_get_at p off s = Some (Inr (if off < length (addrs s qs) then content s qs ! off else 0))"
  using try_get_at_chain [OF assms] by (simp add: pbuf_get_at_def)

lemma map_upd_nth: "distinct xs \<Longrightarrow> i < length xs \<Longrightarrow> map (f(xs ! i := v)) xs = (map f xs)[i := v]"
  by (rule nth_equalityI) (auto simp: nth_list_update nth_eq_iff_index_eq)

lemma put_at_chain:
  assumes "chain_of s p qs" "length (addrs s qs) < 65536" "off < 65536" "distinct (addrs s qs)"
  shows "\<exists>s'. pbuf_put_at p off v s = Some (Inr s') \<and> pw_buf s' = pw_buf s \<and> pw_mem s' = pw_mem s \<and>
    content s' qs = (if off < length (addrs s qs) then (content s qs)[off := v] else content s qs)"
  using assms(1-3)
proof (cases rule: skip_cases)
  case (found xs y zs b)
  let ?s = "s\<lparr>pw_byte := (pw_byte s)(addrs s qs ! off := v)\<rparr>"
  have "pbuf_put_at p off v s = Some (Inr ?s)"
    using found by (simp add: pbuf_put_at_def pbuf_skip_def pbuf_skip_const_def)
  moreover have "content ?s qs = (content s qs)[off := v]"
    unfolding content_def addrs_cong [of ?s s qs, simplified] using map_upd_nth [OF assms(4) found(6)] by simp
  ultimately show ?thesis using found(6) by auto
next
  case (beyond off')
  then show ?thesis by (simp add: pbuf_put_at_def pbuf_skip_def pbuf_skip_const_def)
qed

section \<open>Copying out\<close>

lemma copy_partial_chain:
  assumes "chain_of s p qs" "length (addrs s qs) < 65536" "off < 65536" "n < 65536"
    "left + min n (length (addrs s qs) - off) \<le> length dat" "left + n < 65536" "copied + n < 65536"
  shows "copy_partial_loop p n off left copied dat s = Some (Inr (copied + min n (length (addrs s qs) - off),
    take left dat @ take n (drop off (content s qs)) @ drop (left + min n (length (addrs s qs) - off)) dat))"
  using assms
proof (induction qs arbitrary: p n off left copied dat)
  case Nil
  then show ?case by (simp add: copy_partial_loop.simps)
next
  case (Cons q qs)
  obtain b where b: "p = Some q" "pw_buf s q = Some b" "chain_of s (pb_next b) qs" using Cons.prems(1) by auto
  note sp = span_Some [OF b(2)]
  have len: "pb_len b < 65536" "length (addrs s qs) < 65536" using Cons.prems(2) sp by simp_all
  consider "n = 0" | "0 < n" "off \<noteq> 0" "pb_len b \<le> off" | "0 < n" "off = 0 \<or> off < pb_len b" by linarith
  then show ?case
  proof cases
    case 1
    then show ?thesis using b by (subst copy_partial_loop.simps) simp
  next
    case 2
    have u: "u16c (off + 65536 - pb_len b) = off - pb_len b" by (rule u16c_minus [OF 2(3) Cons.prems(3)])
    have "copy_partial_loop p n off left copied dat s = copy_partial_loop (pb_next b) n (off - pb_len b) left copied dat s"
      using b 2 u by (subst copy_partial_loop.simps) simp
    moreover have "length (addrs s (q # qs)) - off = length (addrs s qs) - (off - pb_len b)" using 2 sp by simp
    moreover have "drop off (content s (q # qs)) = drop (off - pb_len b) (content s qs)" using 2 sp by simp
    ultimately show ?thesis
      using Cons.IH [OF b(3) len(2), of "off - pb_len b" n left dat copied] Cons.prems by simp
  next
    case 3
    define k where "k = min n (pb_len b - off)"
    define l where "l = length (addrs s qs)"
    have kn: "k \<le> n" "k \<le> pb_len b - off" by (simp_all add: k_def)
    have u: "u16c (pb_len b + 65536 - off) = pb_len b - off" using 3 len by (intro u16c_minus) auto
    have n: "u16c (n + 65536 - k) = n - k" by (rule u16c_minus [OF kn(1) Cons.prems(4)])
    have sm: "u16c (left + k) = left + k" "u16c (copied + k) = copied + k"
      using Cons.prems(6,7) kn(1) by (auto intro!: u16c_small)
    have tot: "min n (length (addrs s (q # qs)) - off) = k + min (n - k) l"
      using sp 3 unfolding k_def l_def by (auto simp: min_def)
    have fit: "left + (k + min (n - k) l) \<le> length dat" using Cons.prems(5) unfolding tot .
    define x where "x = load_bytes (payload b + off) k s"
    define d where "d = take left dat @ x @ drop (left + k) dat"
    have lx: "length x = k" by (simp add: x_def load_bytes_def)
    have ld: "length d = length dat" using fit by (simp add: d_def lx)
    have run: "copy_partial_loop p n off left copied dat s = copy_partial_loop (pb_next b) (n - k) 0 (left + k) (copied + k) d s"
    proof -
      have mm: "(if n < pb_len b - off then n else pb_len b - off) = k" by (simp add: k_def min_def)
      have no: "\<not> (off \<noteq> 0 \<and> pb_len b \<le> off)" "\<not> length dat < left + k" "n \<noteq> 0" using 3 fit by auto
      show ?thesis
        unfolding b(1) d_def x_def by (subst copy_partial_loop.simps)
          (simp only: option.case b(2) Let_def u mm no n sm if_False if_True)
    qed
    have ih: "copy_partial_loop (pb_next b) (n - k) 0 (left + k) (copied + k) d s = Some (Inr (copied + k + min (n - k) l,
        take (left + k) d @ take (n - k) (content s qs) @ drop (left + k + min (n - k) l) d))"
      using Cons.IH [OF b(3) len(2), of 0 "n - k" "left + k" d "copied + k"] Cons.prems(4,6,7) fit kn(1)
      unfolding ld l_def by simp
    have "take (left + k) d = take left dat @ x" using fit by (simp add: d_def lx)
    moreover have "drop (left + k + j) d = drop (left + (k + j)) dat" for j using fit by (simp add: d_def lx ac_simps)
    moreover have "take n (drop off (content s (q # qs))) = x @ take (n - k) (content s qs)"
    proof -
      have "drop off (content s (q # qs)) = map (pw_byte s) [payload b + off..<payload b + pb_len b] @ content s qs"
        using sp 3 by (auto simp: drop_map drop_upt)
      moreover have "take n [payload b + off..<payload b + pb_len b] = [payload b + off..<payload b + off + k]"
        using 3 by (auto simp: k_def min_def)
      moreover have "n - (pb_len b - off) = n - k" by (simp add: k_def)
      ultimately show ?thesis using 3 by (simp add: x_def load_span take_map)
    qed
    ultimately show ?thesis unfolding run ih tot by simp
  qed
qed

section \<open>Copying in\<close>

lemma store_fields [simp]: "pw_buf (store_bytes a xs s) = pw_buf s" "pw_mem (store_bytes a xs s) = pw_mem s"
  by (simp_all add: store_bytes_def)

lemma store_outside: "i \<notin> {a..<a + length xs} \<Longrightarrow> pw_byte (store_bytes a xs s) i = pw_byte s i"
  by (auto simp: store_bytes_def)

lemma store_span:
  assumes "length xs \<le> m"
  shows "map (pw_byte (store_bytes a xs s)) [a..<a + m] = xs @ drop (length xs) (map (pw_byte s) [a..<a + m])"
  by (rule nth_equalityI) (use assms in \<open>auto simp: store_bytes_def nth_append\<close>)

lemma content_cong: "pw_buf s' = pw_buf s \<Longrightarrow> (\<And>i. i \<in> set (addrs s qs) \<Longrightarrow> pw_byte s' i = pw_byte s i) \<Longrightarrow> content s' qs = content s qs"
proof -
  assume p: "pw_buf s' = pw_buf s" and e: "\<And>i. i \<in> set (addrs s qs) \<Longrightarrow> pw_byte s' i = pw_byte s i"
  show ?thesis unfolding content_def addrs_cong [OF p] by (rule map_cong [OF refl e])
qed

lemma take_chain:
  assumes "chain_of s p qs" "distinct (addrs s qs)" "n \<le> length (addrs s qs)" "copied + n \<le> length dat"
  shows "\<exists>s'. take_loop p n copied dat s = Some (Inr (copied + n, s')) \<and> pw_buf s' = pw_buf s \<and> pw_mem s' = pw_mem s \<and>
    content s' qs = take n (drop copied dat) @ drop n (content s qs) \<and> (\<forall>i. i \<notin> set (addrs s qs) \<longrightarrow> pw_byte s' i = pw_byte s i)"
  using assms
proof (induction qs arbitrary: p n copied s)
  case Nil
  then show ?case by (subst take_loop.simps) auto
next
  case (Cons q qs)
  obtain b where b: "p = Some q" "pw_buf s q = Some b" "chain_of s (pb_next b) qs" using Cons.prems(1) by auto
  note sp = span_Some [OF b(2)]
  show ?case
  proof (cases "n = 0")
    case True
    then show ?thesis by (subst take_loop.simps) auto
  next
    case False
    define k where "k = min n (pb_len b)"
    define xs where "xs = take k (drop copied dat)"
    define s1 where "s1 = store_bytes (payload b) xs s"
    have lx: "length xs = k" "k \<le> n" "k \<le> pb_len b" using Cons.prems(4) by (auto simp: xs_def k_def)
    have s1: "pw_buf s1 = pw_buf s" "pw_mem s1 = pw_mem s" by (simp_all add: s1_def)
    have run: "take_loop p n copied dat s = take_loop (pb_next b) (n - k) (copied + k) dat s1"
    proof -
      have "(if pb_len b < n then pb_len b else n) = k" by (simp add: k_def)
      then show ?thesis
        using b False Cons.prems(4) lx by (subst take_loop.simps) (simp add: Let_def s1_def xs_def)
    qed
    have d: "distinct (addrs s qs)" "set (span s q) \<inter> set (addrs s qs) = {}" using Cons.prems(2) by simp_all
    have a1: "addrs s1 qs = addrs s qs" by (rule addrs_cong [OF s1(1)])
    have out: "pw_byte s1 i = pw_byte s i" if "i \<notin> set (span s q)" for i
      using that lx sp unfolding s1_def by (intro store_outside) auto
    have c1: "content s1 qs = content s qs" by (rule content_cong [OF s1(1) out]) (use d(2) in blast)
    have nk: "n - k \<le> length (addrs s qs)" using Cons.prems(3) sp by (auto simp: k_def min_def)
    have pre: "chain_of s1 (pb_next b) qs" "distinct (addrs s1 qs)" "n - k \<le> length (addrs s1 qs)" "copied + k + (n - k) \<le> length dat"
      using b(3) d(1) nk Cons.prems(4) lx(2) unfolding chain_cong [OF s1(1)] a1 by simp_all
    obtain s' where s': "take_loop (pb_next b) (n - k) (copied + k) dat s1 = Some (Inr (copied + k + (n - k), s'))"
      "pw_buf s' = pw_buf s1" "pw_mem s' = pw_mem s1"
      "content s' qs = take (n - k) (drop (copied + k) dat) @ drop (n - k) (content s1 qs)"
      "\<forall>i. i \<notin> set (addrs s1 qs) \<longrightarrow> pw_byte s' i = pw_byte s1 i"
      using Cons.IH [OF pre] by blast
    have "map (pw_byte s') (span s q) = map (pw_byte s1) (span s q)" using s'(5) d(2) unfolding a1 by (intro map_cong) auto
    also have "\<dots> = xs @ drop k (map (pw_byte s) (span s q))"
      unfolding s1_def sp using store_span [of xs "pb_len b" "payload b" s] lx by simp
    finally have q: "map (pw_byte s') (span s q) = xs @ drop k (map (pw_byte s) (span s q))" .
    have sq: "span s' q = span s q" using s'(2) s1(1) by (simp add: span_def)
    have "take n (drop copied dat) = xs @ take (n - k) (drop (copied + k) dat)"
      unfolding xs_def using lx(2) by (metis add.commute drop_drop le_add_diff_inverse take_add)
    moreover have "drop n (content s (q # qs)) = drop k (map (pw_byte s) (span s q)) @ drop (n - k) (content s qs)"
      using sp by (cases "n \<le> pb_len b") (simp_all add: k_def min_def)
    moreover have "k < n \<longrightarrow> drop k (map (pw_byte s) (span s q)) = []" using sp by (simp add: k_def)
    moreover have "k = n \<longrightarrow> take (n - k) (drop (copied + k) dat) = []" by simp
    ultimately have "content s' (q # qs) = take n (drop copied dat) @ drop n (content s (q # qs))"
      using q s'(4) c1 sq lx(2) by (cases "k = n") (simp_all del: drop_map)
    moreover have "pw_byte s' i = pw_byte s i" if "i \<notin> set (addrs s (q # qs))" for i
      using that s'(5) out a1 by simp
    moreover have "copied + k + (n - k) = copied + n" using lx(2) by simp
    ultimately show ?thesis unfolding run using s'(1-3) s1 by (intro exI [of _ s']) simp
  qed
qed

text \<open>The length a chain says it has: every buffer's \<^verbatim>\<open>tot_len\<close> is what is left of the chain from it on.\<close>

fun lens_ok :: "pworld \<Rightarrow> nat list \<Rightarrow> bool" where
  "lens_ok s [] \<longleftrightarrow> True"
| "lens_ok s (q # qs) \<longleftrightarrow> (\<exists>b. pw_buf s q = Some b \<and> tot_len b = length (addrs s (q # qs))) \<and> lens_ok s qs"

definition packet :: "pworld \<Rightarrow> nat \<Rightarrow> nat list \<Rightarrow> bool" where
  "packet s p qs \<longleftrightarrow> chain_of s (Some p) qs \<and> lens_ok s qs \<and> length (addrs s qs) < 65536"

lemma lens_cong: "pw_buf s' = pw_buf s \<Longrightarrow> lens_ok s' qs = lens_ok s qs"
proof -
  assume p: "pw_buf s' = pw_buf s"
  show ?thesis by (induction qs) (simp_all only: lens_ok.simps addrs_cong [OF p] p)
qed

lemma packet_head:
  assumes "packet s p qs"
  obtains b where "pw_buf s p = Some b" "tot_len b = length (addrs s qs)" "hd qs = p" "qs \<noteq> []"
proof -
  have "chain_of s (Some p) qs" "lens_ok s qs" using assms by (simp_all add: packet_def)
  then have "\<exists>b. pw_buf s p = Some b \<and> tot_len b = length (addrs s qs) \<and> hd qs = p \<and> qs \<noteq> []"
    by (cases qs) auto
  then show thesis using that by blast
qed

lemma take_at_tail:
  assumes "packet s p qs" "qs = xs @ y # zs" "pw_buf s y = Some b"
  shows "tot_len b = length (addrs s (y # zs))" "chain_of s (pb_next b) zs" "zs \<noteq> [] \<Longrightarrow> pb_next b = Some (hd zs) \<and> packet s (hd zs) zs"
proof -
  have "lens_ok s (xs @ y # zs) \<Longrightarrow> lens_ok s (y # zs)" by (induction xs) auto
  then have l: "lens_ok s (y # zs)" using assms(1,2) by (simp add: packet_def)
  then show "tot_len b = length (addrs s (y # zs))" using assms(3) by auto
  have c: "chain_of s (Some y) (y # zs)" using chain_append [of s "Some p" xs "y # zs"] assms(1,2) by (simp add: packet_def)
  then show n: "chain_of s (pb_next b) zs" using assms(3) by simp
  show "pb_next b = Some (hd zs) \<and> packet s (hd zs) zs" if "zs \<noteq> []"
    using that chain_head [OF n] n l assms(1,2) by (cases zs) (auto simp: packet_def)
qed

lemma pbuf_take_packet:
  assumes "packet s p qs" "distinct (addrs s qs)" "n \<le> length dat"
  shows "if length (addrs s qs) < n then pbuf_take (Some p) (Some dat) n s = Some (Inr (ERR_MEM, s))
    else \<exists>s'. pbuf_take (Some p) (Some dat) n s = Some (Inr (ERR_OK, s')) \<and> pw_buf s' = pw_buf s \<and> pw_mem s' = pw_mem s \<and>
      content s' qs = take n dat @ drop n (content s qs) \<and> (\<forall>i. i \<notin> set (addrs s qs) \<longrightarrow> pw_byte s' i = pw_byte s i)"
proof -
  obtain b where b: "pw_buf s p = Some b" "tot_len b = length (addrs s qs)" by (rule packet_head [OF assms(1)])
  have c: "chain_of s (Some p) qs" using assms(1) by (simp add: packet_def)
  show ?thesis using take_chain [OF c assms(2), of n 0 dat] assms(3) b by (auto simp: pbuf_take_def deref_def)
qed

text \<open>Storing at an offset replaces that part of the content.\<close>

lemma pbuf_take_at_packet:
  assumes "packet s p qs" "distinct (addrs s qs)" "n \<le> length dat" "n < 65536" "off < 65536"
  shows "if length (addrs s qs) \<le> off \<or> length (addrs s qs) < off + n then pbuf_take_at (Some p) dat n off s = Some (Inr (ERR_MEM, s))
    else \<exists>s'. pbuf_take_at (Some p) dat n off s = Some (Inr (ERR_OK, s')) \<and> pw_buf s' = pw_buf s \<and>
      content s' qs = take off (content s qs) @ take n dat @ drop (off + n) (content s qs)"
proof -
  have c: "chain_of s (Some p) qs" "length (addrs s qs) < 65536" using assms(1) by (simp_all add: packet_def)
  show ?thesis
    using c(1) c(2) assms(5)
  proof (cases rule: skip_cases)
    case (beyond off')
    then show ?thesis by (simp add: pbuf_take_at_def pbuf_skip_def pbuf_skip_const_def)
  next
    case (found xs y zs b)
    define o' where "o' = off - length (addrs s xs)"
    note tl = take_at_tail [OF assms(1) found(1,2)]
    have of: "off = length (addrs s xs) + o'" "o' < pb_len b" using found(3,4) by (simp_all add: o'_def)
    have sp: "span s y = [payload b..<payload b + pb_len b]" by (rule span_Some [OF found(2)])
    have tot: "length (addrs s qs) = length (addrs s xs) + tot_len b" using found(1) tl(1) by simp
    have sk: "pbuf_skip (Some p) off s = Some (Inr (Some y, o'))" using found(5) by (simp add: pbuf_skip_def pbuf_skip_const_def o'_def)
    show ?thesis
    proof (cases "tot_len b < o' + n")
      case True
      then show ?thesis using sk of tot found(2) by (simp add: pbuf_take_at_def deref_def)
    next
      case False
      define k where "k = min (pb_len b - o') n"
      define s1 where "s1 = store_bytes (payload b + o') (take k dat) s"
      have k: "k \<le> n" "k < 65536" "length (take k dat) = k" "o' + k \<le> pb_len b" using assms(3,4) of(2) by (auto simp: k_def)
      have s1: "pw_buf s1 = pw_buf s" "pw_mem s1 = pw_mem s" by (simp_all add: s1_def)
      have run: "pbuf_take_at (Some p) dat n off s =
          (if 0 < n - k then pbuf_take (pb_next b) (Some (drop k dat)) (n - k) s1 else Some (Inr (ERR_OK, s1)))"
        using sk found(2) False of(2) assms(3) k u16c_minus [OF k(1) assms(4)]
        by (simp add: pbuf_take_at_def deref_def Let_def k_def [symmetric] s1_def)
      have dd: "set (addrs s xs) \<inter> set (span s y) = {}" "set (addrs s zs) \<inter> set (span s y) = {}" "distinct (addrs s zs)"
        "set (addrs s xs) \<inter> set (addrs s zs) = {}"
        using assms(2) found(1) by auto
      have out: "pw_byte s1 i = pw_byte s i" if "i \<notin> set (span s y)" for i
        using that k sp unfolding s1_def by (intro store_outside) auto
      have cx: "content s1 xs = content s xs" "content s1 zs = content s zs"
        by (rule content_cong [OF s1(1) out], use dd in blast)+
      have sy: "map (pw_byte s1) (span s y) = take o' (map (pw_byte s) (span s y)) @ take k dat @ drop (o' + k) (map (pw_byte s) (span s y))"
        unfolding sp s1_def by (rule nth_equalityI) (use k of(2) in \<open>auto simp: store_bytes_def nth_append\<close>)
      have target: "take off (content s qs) @ take n dat @ drop (off + n) (content s qs) =
          content s xs @ take o' (map (pw_byte s) (span s y)) @ take n dat @ drop (o' + n) (map (pw_byte s) (span s y)) @
          drop (o' + n - pb_len b) (content s zs)"
        using found(1) of sp by simp
      show ?thesis
      proof (cases "k = n")
        case True
        have "content s1 qs = take off (content s qs) @ take n dat @ drop (off + n) (content s qs)"
          unfolding target using found(1) cx sy True k span_def [of s1 y] span_def [of s y] s1(1) by simp
        moreover have "o' < tot_len b" using tl(1) sp of(2) by simp
        ultimately show ?thesis using run True of tot False s1 by auto
      next
        case ne: False
        then have kn: "k < n" "o' + k = pb_len b" using k(1) of(2) by (auto simp: k_def min_def split: if_splits)
        have lz: "n - k \<le> length (addrs s zs)" using False tl(1) sp kn by simp
        then have z: "zs \<noteq> []" using kn by auto
        have pz: "packet s1 (hd zs) zs"
          using tl(3) [OF z] s1(1) chain_cong [OF s1(1)] addrs_cong [OF s1(1)] by (auto simp: packet_def lens_cong [OF s1(1)])
        obtain s' where s': "pbuf_take (Some (hd zs)) (Some (drop k dat)) (n - k) s1 = Some (Inr (ERR_OK, s'))"
          "pw_buf s' = pw_buf s1" "content s' zs = take (n - k) (drop k dat) @ drop (n - k) (content s1 zs)"
          "\<forall>i. i \<notin> set (addrs s1 zs) \<longrightarrow> pw_byte s' i = pw_byte s1 i"
          using pbuf_take_packet [OF pz, of "n - k" "drop k dat"] dd(3) lz assms(3) unfolding addrs_cong [OF s1(1)] by force
        have b': "pw_buf s' = pw_buf s" using s'(2) s1(1) by simp
        have cx': "content s' xs = content s1 xs"
          by (rule content_cong [OF s'(2)]) (use s'(4) dd(4) addrs_cong [OF s1(1)] in auto)
        have sy': "map (pw_byte s') (span s y) = map (pw_byte s1) (span s y)"
          using s'(4) dd(2) addrs_cong [OF s1(1)] by (intro map_cong) auto
        have on: "o' + n - pb_len b = n - k" using kn by simp
        have "take n dat = take k dat @ take (n - k) (drop k dat)" using kn(1) by (metis le_add_diff_inverse less_imp_le take_add)
        then have "content s' qs = take off (content s qs) @ take n dat @ drop (off + n) (content s qs)"
          unfolding target using found(1) cx cx' sy sy' s'(3) kn on sp span_def [of s' y] span_def [of s y] b' by simp
        then show ?thesis using run kn of tot False s'(1) b' tl(3) [OF z] by auto
      qed
    qed
  qed
qed

section \<open>Searching\<close>

lemma memcmp_loop_chain:
  assumes "chain_of s q ys" "length (addrs s ys) < 65536" "start + i + k \<le> length (addrs s ys)" "i + k \<le> length s2"
  shows "\<exists>r. memcmp_loop q start s2 i k s = Some (Inr r) \<and>
    (r = 0 \<longleftrightarrow> take k (drop (start + i) (content s ys)) = take k (drop i s2))"
  using assms(3,4)
proof (induction k arbitrary: i)
  case (Suc k)
  have lt: "start + i < length (addrs s ys)" "start + i < 65536" "i < length s2" using Suc.prems assms(2) by simp_all
  have g: "pbuf_get_at q (u16c (start + i)) s = Some (Inr (content s ys ! (start + i)))"
    using get_at_chain [OF assms(1,2) lt(2)] lt(1,2) by simp
  have c: "drop (start + i) (content s ys) = content s ys ! (start + i) # drop (start + Suc i) (content s ys)"
    "drop i s2 = s2 ! i # drop (Suc i) s2"
    using lt by (simp_all add: Cons_nth_drop_Suc)
  show ?case
  proof (cases "content s ys ! (start + i) = s2 ! i")
    case True
    then show ?thesis using Suc.IH [of "Suc i"] Suc.prems g lt(3) by (simp add: c)
  next
    case False
    have "u16c (min (i + 1) 65535) \<noteq> 0" by (simp add: min_def)
    then show ?thesis using False g lt(3) by (simp add: c)
  qed
qed simp

lemma memcmp_packet:
  assumes "packet s p qs" "off < 65536" "n \<le> length s2"
  shows "\<exists>r. pbuf_memcmp p off s2 n s = Some (Inr r) \<and> (if length (addrs s qs) < off + n then r = 0xFFFF
    else (r = 0 \<longleftrightarrow> take n (drop off (content s qs)) = take n s2))"
proof -
  obtain b where b: "pw_buf s p = Some b" "tot_len b = length (addrs s qs)" by (rule packet_head [OF assms(1)])
  have c: "chain_of s (Some p) qs" "length (addrs s qs) < 65536" using assms(1) by (simp_all add: packet_def)
  show ?thesis
  proof (cases "length (addrs s qs) < off + n")
    case True
    then show ?thesis using b by (simp add: pbuf_memcmp_def deref_def)
  next
    case False
    obtain xs ys where xy: "qs = xs @ ys" "length (addrs s xs) \<le> off"
      "skip_loop (Some p) off s = Some (Inr (head ys, off - length (addrs s xs)))"
      using skip_loop_chain [OF c assms(2)] by blast
    have y: "chain_of s (head ys) ys" "length (addrs s ys) < 65536"
      using chain_append [of s "Some p" xs ys] c xy(1) by simp_all
    have "off - length (addrs s xs) + 0 + n \<le> length (addrs s ys)" using False xy(1,2) by simp
    then obtain r where r: "memcmp_loop (head ys) (off - length (addrs s xs)) s2 0 n s = Some (Inr r)"
      "r = 0 \<longleftrightarrow> take n (drop (off - length (addrs s xs)) (content s ys)) = take n s2"
      using memcmp_loop_chain [OF y, of "off - length (addrs s xs)" 0 n s2] assms(3) by auto
    have "drop off (content s qs) = drop (off - length (addrs s xs)) (content s ys)" using xy(1,2) by simp
    then show ?thesis using r b xy(3) False by (simp add: pbuf_memcmp_def deref_def)
  qed
qed

definition occurs :: "u8 list \<Rightarrow> nat \<Rightarrow> u8 list \<Rightarrow> nat \<Rightarrow> bool" where
  "occurs mem n xs j \<longleftrightarrow> take n (drop j xs) = take n mem"

lemma memfind_loop_packet:
  assumes "packet s p qs" "n \<le> length mem" "n \<le> length (addrs s qs)" "m = length (addrs s qs) - n" "i < 65536"
  shows "memfind_loop p mem n i m s = Some (Inr (case find (occurs mem n (content s qs)) [i..<m + 1] of None \<Rightarrow> 0xFFFF | Some j \<Rightarrow> j))"
  using assms(5)
proof (induction "m + 1 - i" arbitrary: i)
  case 0
  then show ?case by (simp add: memfind_loop.simps)
next
  case (Suc d)
  then have im: "i \<le> m" by simp
  have mlt: "m < 65536" using assms(1,4) unfolding packet_def by linarith
  obtain r where r: "pbuf_memcmp p i mem n s = Some (Inr r)" "r = 0 \<longleftrightarrow> occurs mem n (content s qs) i"
    using memcmp_packet [OF assms(1) Suc.prems assms(2)] im assms(3,4) by (auto simp: occurs_def)
  have u: "[i..<m + 1] = i # [i + 1..<m + 1]" using im by (simp add: upt_conv_Cons)
  show ?case
  proof (cases "r = 0")
    case True
    then show ?thesis using im r u by (subst memfind_loop.simps) simp
  next
    case False
    then have "n \<noteq> 0" using r(2) by (cases "n = 0") (auto simp: occurs_def)
    then have "i + 1 < 65536" using im assms(3,4) assms(1) unfolding packet_def by linarith
    moreover from this have "u16c (i + 1) = i + 1" by (rule u16c_small)
    ultimately have "memfind_loop p mem n i m s = memfind_loop p mem n (i + 1) m s"
      using im r(1) False by (subst memfind_loop.simps) simp
    then show ?thesis using Suc.hyps(1) [of "i + 1"] Suc.hyps(2) \<open>i + 1 < 65536\<close> r(2) False by (simp only: u find.simps) simp
  qed
qed

lemma memfind_packet:
  assumes "packet s p qs" "n \<le> length mem" "start < 65536"
  shows "pbuf_memfind p mem n start s = Some (Inr (if n + start \<le> length (addrs s qs)
    then (case find (occurs mem n (content s qs)) [start..<length (addrs s qs) - n + 1] of None \<Rightarrow> 0xFFFF | Some j \<Rightarrow> j) else 0xFFFF))"
proof -
  obtain b where b: "pw_buf s p = Some b" "tot_len b = length (addrs s qs)" by (rule packet_head [OF assms(1)])
  have l: "length (addrs s qs) < 65536" using assms(1) by (simp add: packet_def)
  show ?thesis
  proof (cases "n + start \<le> length (addrs s qs)")
    case True
    then have n: "n \<le> length (addrs s qs)" by simp
    show ?thesis
      using memfind_loop_packet [OF assms(1,2) n refl assms(3)] u16c_minus [OF n l] True b
      by (simp add: pbuf_memfind_def deref_def)
  next
    case False
    then show ?thesis using b by (simp add: pbuf_memfind_def deref_def)
  qed
qed

text \<open>
  C26.  A search in a packet finds the first occurrence: for every chain whose lengths are right, and every string of 1 to
  65534 characters, \<^verbatim>\<open>pbuf_strstr\<close> returns the first offset in the content at which the string occurs, also
  across buffers, and 65535 when there is none or the packet has 65535 bytes.
\<close>

theorem pbuf_strstr_first:
  assumes "packet s p qs" "0 \<notin> set str" "str \<noteq> []" "length str < 0xFFFF"
  shows "pbuf_strstr p (Some (str @ 0 # rest)) s = Some (Inr (if length (content s qs) = 0xFFFF then 0xFFFF
    else (case find (\<lambda>j. take (length str) (drop j (content s qs)) = str) [0..<length (content s qs) + 1] of None \<Rightarrow> 0xFFFF | Some j \<Rightarrow> j)))"
proof -
  obtain b where b: "pw_buf s p = Some b" "tot_len b = length (addrs s qs)" by (rule packet_head [OF assms(1)])
  let ?n = "length str" and ?l = "length (addrs s qs)"
  have o: "occurs (str @ 0 # rest) ?n xs = (\<lambda>j. take ?n (drop j xs) = str)" for xs by (simp add: occurs_def fun_eq_iff)
  have none: "find (\<lambda>j. take ?n (drop j (content s qs)) = str) js = None" if "\<forall>j\<in>set js. ?l < j + ?n" for js
  proof -
    have "take ?n (drop j (content s qs)) \<noteq> str" if "?l < j + ?n" for j
      using that assms(3) by (auto dest: arg_cong [of _ _ length])
    then show ?thesis using that by (auto simp: find_None_iff)
  qed
  have "find (\<lambda>j. take ?n (drop j (content s qs)) = str) [0..<?l + 1] =
      (if ?n \<le> ?l then find (\<lambda>j. take ?n (drop j (content s qs)) = str) [0..<?l - ?n + 1] else None)"
  proof (cases "?n \<le> ?l")
    case True
    have "[0..<?l + 1] = [0..<?l - ?n + 1] @ [?l - ?n + 1..<?l + 1]" using upt_add_eq_append [of 0 "?l - ?n + 1" ?n] True by simp
    moreover have "find (\<lambda>j. take ?n (drop j (content s qs)) = str) [?l - ?n + 1..<?l + 1] = None" using True by (intro none) auto
    moreover have "find P (xs @ ys) = (case find P xs of None \<Rightarrow> find P ys | Some x \<Rightarrow> Some x)" for P :: "nat \<Rightarrow> bool" and xs ys
      by (induction xs) auto
    ultimately show ?thesis using True by (auto split: option.split)
  next
    case False
    then show ?thesis by (simp only: if_False) (rule none, auto)
  qed
  moreover have "c_strlen (str @ 0 # rest) = Inr ?n" by (rule c_strlen_app [OF assms(2)])
  moreover have "index (str @ 0 # rest) 0 = Inr (hd str)" "hd str \<noteq> 0" using assms(2,3) by (cases str; auto)+
  moreover have "u16c ?n = ?n" using assms(4) by simp
  ultimately show ?thesis
    using memfind_packet [OF assms(1), of ?n "str @ 0 # rest" 0] b assms(4) by (simp add: pbuf_strstr_def deref_def o)
qed

section \<open>Copying between chains\<close>

lemma memcpy_fields [simp]: "pw_buf (memcpy a b n s) = pw_buf s" "pw_mem (memcpy a b n s) = pw_mem s"
  by (simp_all add: memcpy_def)

lemma memcpy_outside: "i \<notin> {a..<a + n} \<Longrightarrow> pw_byte (memcpy a b n s) i = pw_byte s i"
  by (auto simp: memcpy_def)

lemma memcpy_span: "map (pw_byte (memcpy a b n s)) [a..<a + n] = map (pw_byte s) [b..<b + n]"
  by (rule nth_equalityI) (simp_all add: memcpy_def)

text \<open>A chain whose last buffer holds something, or that is one buffer; a queue of packets does not look like it.\<close>

definition ends_full :: "pworld \<Rightarrow> nat list \<Rightarrow> bool" where
  "ends_full s qs \<longleftrightarrow> tl qs = [] \<or> span s (last qs) \<noteq> []"

lemma ends_full_tl: "ends_full s (q # qs) \<Longrightarrow> ends_full s qs"
  by (cases qs) (auto simp: ends_full_def)

lemma ends_full_pos: "ends_full s (q # qs) \<Longrightarrow> qs \<noteq> [] \<Longrightarrow> 0 < length (addrs s qs)"
  using append_butlast_last_id [of qs] by (metis addrs_simps(2,3) append_is_Nil_conv ends_full_def last_ConsR length_greater_0_conv list.sel(3))

lemma queued_chain:
  assumes "chain_of s (head qs) qs" "lens_ok s qs" "ends_full s qs"
  shows "queued (head qs) s = Inr False"
proof (cases qs)
  case Nil
  then show ?thesis by (simp add: queued_def)
next
  case (Cons q rs)
  obtain b where b: "pw_buf s q = Some b" "chain_of s (pb_next b) rs" using assms(1) Cons by auto
  have t: "tot_len b = length (addrs s (q # rs))" using assms(2) b Cons by auto
  have "rs \<noteq> [] \<Longrightarrow> pb_len b \<noteq> tot_len b" using ends_full_pos [of s q rs] assms(3) Cons t span_Some [OF b(1)] by auto
  moreover have "rs = [] \<Longrightarrow> pb_next b = None" using b(2) by simp
  ultimately show ?thesis using b Cons by (auto simp: queued_def deref_def)
qed

lemma sub32_small: "b \<le> a \<Longrightarrow> a < 65536 \<Longrightarrow> sub32 a b = a - b"
  by (rule sub32_eq) simp_all

lemma memcpy_part:
  assumes "distinct ([a..<a + n] @ A)" "set ([a..<a + n] @ A) \<inter> set ([b..<b + n] @ B) = {}"
    "map (pw_byte s') A = map (pw_byte (memcpy a b n s)) B @ map (pw_byte (memcpy a b n s)) (drop (length B) A)"
    "\<forall>i. i \<notin> set A \<longrightarrow> pw_byte s' i = pw_byte (memcpy a b n s) i"
  shows "map (pw_byte s') ([a..<a + n] @ A) = map (pw_byte s) ([b..<b + n] @ B) @ map (pw_byte s) (drop (length ([b..<b + n] @ B)) ([a..<a + n] @ A))"
    "\<forall>i. i \<notin> set ([a..<a + n] @ A) \<longrightarrow> pw_byte s' i = pw_byte s i"
proof -
  have out: "pw_byte (memcpy a b n s) i = pw_byte s i" if "i \<notin> set [a..<a + n]" for i
    using that by (intro memcpy_outside) simp
  have "map (pw_byte s') [a..<a + n] = map (pw_byte (memcpy a b n s)) [a..<a + n]"
    using assms(1,4) by (intro map_cong) auto
  also have "\<dots> = map (pw_byte s) [b..<b + n]" by (rule memcpy_span)
  finally have 1: "map (pw_byte s') [a..<a + n] = map (pw_byte s) [b..<b + n]" .
  have 2: "map (pw_byte (memcpy a b n s)) B = map (pw_byte s) B"
    using assms(2) by (intro map_cong refl out) auto
  have 3: "map (pw_byte (memcpy a b n s)) (drop k A) = map (pw_byte s) (drop k A)" for k
    using assms(1) in_set_dropD [of _ k A] by (intro map_cong refl out) auto
  show "map (pw_byte s') ([a..<a + n] @ A) = map (pw_byte s) ([b..<b + n] @ B) @ map (pw_byte s) (drop (length ([b..<b + n] @ B)) ([a..<a + n] @ A))"
    unfolding map_append 1 assms(3) 2 3 by simp
  show "\<forall>i. i \<notin> set ([a..<a + n] @ A) \<longrightarrow> pw_byte s' i = pw_byte s i" using assms(4) out by simp
qed

text \<open>What is left of a chain after a piece of its first buffer.\<close>

lemma drop_span:
  assumes "pw_buf s q = Some b" "off + n \<le> pb_len b"
  shows "drop off (addrs s (q # qs)) = [payload b + off..<payload b + off + n] @
    (if off + n = pb_len b then addrs s qs else drop (off + n) (addrs s (q # qs)))"
proof -
  have u: "[payload b + off..<payload b + pb_len b] =
      [payload b + off..<payload b + off + n] @ [payload b + off + n..<payload b + pb_len b]"
    using upt_add_eq_append [of "payload b + off" "payload b + off + n" "pb_len b - off - n"] assms(2) by simp
  have l: "drop off (addrs s (q # qs)) = [payload b + off..<payload b + pb_len b] @ addrs s qs"
    "off + n < pb_len b \<Longrightarrow> drop (off + n) (addrs s (q # qs)) = [payload b + off + n..<payload b + pb_len b] @ addrs s qs"
    using assms(2) by (simp_all add: span_Some [OF assms(1)] add.assoc)
  show ?thesis
  proof (cases "off + n = pb_len b")
    case True
    then show ?thesis unfolding l(1) by (simp add: add.assoc)
  next
    case False
    then show ?thesis using assms(2) l(2) unfolding l(1) u by simp
  qed
qed

text \<open>
  The loop: what is left of the source replaces the beginning of what is left of the target.
\<close>

lemma copy_loop_chain:
  assumes "T \<noteq> []" "F \<noteq> []" "chain_of s (head T) T" "chain_of s (head F) F" "lens_ok s T" "lens_ok s F"
    "ends_full s T" "ends_full s F" "length (addrs s T) < 65536" "length (addrs s F) < 65536"
    "ot \<le> length (span s (hd T))" "og \<le> length (span s (hd F))"
    "length (drop og (addrs s F)) \<le> length (drop ot (addrs s T))"
  shows "\<exists>s'. copy_loop (head T) (head F) ot og s = Some (Inr (ERR_OK, s')) \<and> pw_buf s' = pw_buf s \<and> pw_mem s' = pw_mem s \<and>
    (distinct (addrs s T) \<longrightarrow> set (addrs s T) \<inter> set (addrs s F) = {} \<longrightarrow>
     map (pw_byte s') (drop ot (addrs s T)) = map (pw_byte s) (drop og (addrs s F)) @
      map (pw_byte s) (drop (length (drop og (addrs s F))) (drop ot (addrs s T))) \<and>
     (\<forall>i. i \<notin> set (drop ot (addrs s T)) \<longrightarrow> pw_byte s' i = pw_byte s i))"
  using assms
proof (induction "length T + length F" arbitrary: T F ot og s rule: less_induct)
  case less
  obtain t ts where T: "T = t # ts" using less.prems(1) by (cases T) auto
  obtain f fs where F: "F = f # fs" using less.prems(2) by (cases F) auto
  obtain bt where bt: "pw_buf s t = Some bt" "chain_of s (pb_next bt) ts" using less.prems(3) T by auto
  obtain bf where bf: "pw_buf s f = Some bf" "chain_of s (pb_next bf) fs" using less.prems(4) F by auto
  note st = span_Some [OF bt(1)] and sf = span_Some [OF bf(1)]
  define n where "n = min (pb_len bf - og) (pb_len bt - ot)"
  define s1 where "s1 = memcpy (payload bt + ot) (payload bf + og) n s"
  have off: "ot \<le> pb_len bt" "og \<le> pb_len bf" "pb_len bt < 65536" "pb_len bf < 65536"
    using less.prems(9-12) st sf T F by simp_all
  have n: "ot + n \<le> pb_len bt" "og + n \<le> pb_len bf" "pb_len bf \<le> og + n \<or> ot + n = pb_len bt"
    using off unfolding n_def by linarith+
  have s1: "pw_buf s1 = pw_buf s" "pw_mem s1 = pw_mem s" by (simp_all add: s1_def)
  note same = chain_cong [OF s1(1)] lens_cong [OF s1(1)] addrs_cong [OF s1(1)]
  define fd where "fd \<longleftrightarrow> pb_len bf \<le> og + n"
  define td where "td \<longleftrightarrow> ot + n = pb_len bt"
  define F' where "F' = (if fd then fs else F)"
  define T' where "T' = (if td then ts else T)"
  define og' where "og' = (if fd then 0 else og + n)"
  define ot' where "ot' = (if td then 0 else ot + n)"
  have nf: "pb_next bf = head fs" and nt: "pb_next bt = head ts" using chain_head bt(2) bf(2) by auto
  have hF: "(if fd then pb_next bf else Some f) = head F'" and hT: "(if td then pb_next bt else Some t) = head T'"
    using nf nt by (simp_all add: F'_def T'_def F T)
  have eF: "ends_full s F'" and eT: "ends_full s T'"
    using less.prems(7,8) ends_full_tl unfolding F'_def T'_def F T by auto
  have cF: "chain_of s (head F') F'" "lens_ok s F'" and cT: "chain_of s (head T') T'" "lens_ok s T'"
    using less.prems(3-6) bt(2) bf(2) nf nt unfolding F'_def T'_def F T by (simp_all split: if_splits)
  have e1: "ends_full s1 X = ends_full s X" for X by (simp add: ends_full_def span_def s1(1))
  have qf: "queued (head F') s1 = Inr False" and qt: "queued (head T') s1 = Inr False"
    by (rule queued_chain; simp only: same e1 cF cT eF eT)+
  have dF: "drop og (addrs s F) = [payload bf + og..<payload bf + og + n] @ drop og' (addrs s F')"
    using drop_span [OF bf(1) n(2), of fs] n(2) unfolding F F'_def og'_def fd_def by auto
  have dT: "drop ot (addrs s T) = [payload bt + ot..<payload bt + ot + n] @ drop ot' (addrs s T')"
    using drop_span [OF bt(1) n(1), of ts] unfolding T T'_def ot'_def td_def by auto
  have le: "length (drop og' (addrs s F')) \<le> length (drop ot' (addrs s T'))"
    using less.prems(13) unfolding dF dT by simp
  have pos: "drop og' (addrs s F') \<noteq> []" if "F' \<noteq> []"
  proof (cases fd)
    case True
    then show ?thesis using ends_full_pos [of s f fs] less.prems(8) that unfolding F'_def og'_def F by auto
  next
    case False
    then show ?thesis using sf unfolding F'_def og'_def F fd_def by simp
  qed
  have rest: "F' \<noteq> [] \<Longrightarrow> T' \<noteq> []" using pos le by (cases T') auto
  have run: "copy_loop (head T) (head F) ot og s =
      (if F' = [] then Some (Inr (ERR_OK, s1)) else copy_loop (head T') (head F') ot' og' s1)"
  proof -
    have m: "(if sub32 (pb_len bf) og \<le> sub32 (pb_len bt) ot then sub32 (pb_len bf) og else sub32 (pb_len bt) ot) = n"
      using sub32_small [OF off(1,3)] sub32_small [OF off(2,4)] by (simp add: n_def min_def)
    have no: "(td \<and> head T' = None \<and> F' \<noteq> []) = False" using rest by (cases F'; cases T') auto
    have h0: "head F' = None \<longleftrightarrow> F' = []" by (cases F') auto
    have hd: "head T = Some t" "head F = Some f" by (simp_all add: T F)
    show ?thesis
      unfolding hd by (subst copy_loop.simps)
        (simp only: nonnull_simps seq_simps deref_Some [of "pw_buf s", OF bt(1)] deref_Some [of "pw_buf s", OF bf(1)] sum.case Let_def m s1_def [symmetric] n(1,2)
          not_True_eq_False if_False fd_def [symmetric] td_def [symmetric] og'_def [symmetric] ot'_def [symmetric] hF hT no qf qt h0)
  qed
  have outside: "\<exists>s'. (if F' = [] then Some (Inr (ERR_OK, s1)) else copy_loop (head T') (head F') ot' og' s1) = Some (Inr (ERR_OK, s')) \<and>
    pw_buf s' = pw_buf s1 \<and> pw_mem s' = pw_mem s1 \<and>
    (distinct (addrs s T) \<longrightarrow> set (addrs s T) \<inter> set (addrs s F) = {} \<longrightarrow>
     map (pw_byte s') (drop ot' (addrs s T')) = map (pw_byte s1) (drop og' (addrs s F')) @
      map (pw_byte s1) (drop (length (drop og' (addrs s F'))) (drop ot' (addrs s T'))) \<and>
     (\<forall>i. i \<notin> set (drop ot' (addrs s T')) \<longrightarrow> pw_byte s' i = pw_byte s1 i))"
  proof (cases "F' = []")
    case False
    have small: "length T' + length F' < length T + length F"
      using n(3) unfolding T'_def F'_def T F td_def fd_def by auto
    have sub: "set (addrs s T') \<subseteq> set (addrs s T)" "set (addrs s F') \<subseteq> set (addrs s F)" "distinct (addrs s T) \<Longrightarrow> distinct (addrs s T')"
      "length (addrs s T') \<le> length (addrs s T)" "length (addrs s F') \<le> length (addrs s F)"
      unfolding T'_def F'_def T F by auto
    have o: "ot' \<le> length (span s1 (hd T'))" "og' \<le> length (span s1 (hd F'))"
      using n(1,2) st sf unfolding ot'_def og'_def T'_def F'_def T F td_def fd_def by (simp_all add: span_def s1(1))
    have len: "length (addrs s T') < 65536" "length (addrs s F') < 65536" using sub(4,5) less.prems(9,10) by simp_all
    have dis: "distinct (addrs s T) \<Longrightarrow> set (addrs s T) \<inter> set (addrs s F) = {} \<Longrightarrow>
        distinct (addrs s T') \<and> set (addrs s T') \<inter> set (addrs s F') = {}"
      using sub(1-3) by blast
    note step = less.hyps [OF small rest [OF False] False, of s1 ot' og', unfolded same e1, OF cT(1) cF(1) cT(2) cF(2) eT eF len o le]
    show ?thesis using step dis False by (simp only: if_False) blast
  qed simp
  then obtain s' where s': "copy_loop (head T) (head F) ot og s = Some (Inr (ERR_OK, s'))" "pw_buf s' = pw_buf s1" "pw_mem s' = pw_mem s1"
    "distinct (addrs s T) \<longrightarrow> set (addrs s T) \<inter> set (addrs s F) = {} \<longrightarrow>
     map (pw_byte s') (drop ot' (addrs s T')) = map (pw_byte s1) (drop og' (addrs s F')) @
      map (pw_byte s1) (drop (length (drop og' (addrs s F'))) (drop ot' (addrs s T'))) \<and>
     (\<forall>i. i \<notin> set (drop ot' (addrs s T')) \<longrightarrow> pw_byte s' i = pw_byte s1 i)"
    unfolding run by blast
  have bytes: "map (pw_byte s') (drop ot (addrs s T)) = map (pw_byte s) (drop og (addrs s F)) @
      map (pw_byte s) (drop (length (drop og (addrs s F))) (drop ot (addrs s T))) \<and>
     (\<forall>i. i \<notin> set (drop ot (addrs s T)) \<longrightarrow> pw_byte s' i = pw_byte s i)"
    if d: "distinct (addrs s T)" "set (addrs s T) \<inter> set (addrs s F) = {}"
  proof -
    have dd: "distinct ([payload bt + ot..<payload bt + ot + n] @ drop ot' (addrs s T'))"
      using distinct_drop [OF d(1), of ot] unfolding dT .
    have di: "set ([payload bt + ot..<payload bt + ot + n] @ drop ot' (addrs s T')) \<inter>
        set ([payload bf + og..<payload bf + og + n] @ drop og' (addrs s F')) = {}"
      using d(2) set_drop_subset [of ot "addrs s T"] set_drop_subset [of og "addrs s F"] unfolding dT dF by blast
    have b: "map (pw_byte s') (drop ot' (addrs s T')) = map (pw_byte s1) (drop og' (addrs s F')) @
        map (pw_byte s1) (drop (length (drop og' (addrs s F'))) (drop ot' (addrs s T')))"
      "\<forall>i. i \<notin> set (drop ot' (addrs s T')) \<longrightarrow> pw_byte s' i = pw_byte s1 i"
      using s'(4) d by blast+
    note b' = b [unfolded s1_def]
    have m1: "map (pw_byte s') ([payload bt + ot..<payload bt + ot + n] @ drop ot' (addrs s T')) =
      map (pw_byte s) ([payload bf + og..<payload bf + og + n] @ drop og' (addrs s F')) @
      map (pw_byte s) (drop (length ([payload bf + og..<payload bf + og + n] @ drop og' (addrs s F'))) ([payload bt + ot..<payload bt + ot + n] @ drop ot' (addrs s T')))"
      by (rule memcpy_part(1) [OF dd di b'])
    have m2: "\<forall>i. i \<notin> set ([payload bt + ot..<payload bt + ot + n] @ drop ot' (addrs s T')) \<longrightarrow> pw_byte s' i = pw_byte s i"
      by (rule memcpy_part(2) [OF dd di b'])
    show ?thesis unfolding dT dF by (rule conjI, rule m1, rule m2)
  qed
  show ?case
  proof (intro exI conjI impI)
    show "copy_loop (head T) (head F) ot og s = Some (Inr (ERR_OK, s'))" by (rule s'(1))
    show "pw_buf s' = pw_buf s" "pw_mem s' = pw_mem s" using s'(2,3) s1 by simp_all
  qed (rule bytes [THEN conjunct1], assumption+, rule bytes [THEN conjunct2], assumption+)
qed

text \<open>
  C24.  Copying is exact: for two packets whose lengths are right, whose bytes lie apart and which do not end in an empty
  buffer, the source being no longer than the target, \<^verbatim>\<open>pbuf_copy\<close> returns \<^verbatim>\<open>ERR_OK\<close>, the target then
  begins with the bytes of the source, however the two are divided into buffers, and neither the rest of the target nor
  any other byte nor any structure changes.
\<close>

theorem pbuf_copy_exact:
  assumes "packet s t T" "packet s f F" "ends_full s T" "ends_full s F" "distinct (addrs s T)"
    "set (addrs s T) \<inter> set (addrs s F) = {}" "length (content s F) \<le> length (content s T)"
  shows "\<exists>s'. pbuf_copy (Some t) (Some f) s = Some (Inr (ERR_OK, s')) \<and> pw_buf s' = pw_buf s \<and> pw_mem s' = pw_mem s \<and>
    content s' T = content s F @ drop (length (content s F)) (content s T) \<and> content s' F = content s F \<and>
    (\<forall>i. i \<notin> set (addrs s T) \<longrightarrow> pw_byte s' i = pw_byte s i)"
proof -
  obtain bt where bt: "pw_buf s t = Some bt" "tot_len bt = length (addrs s T)" "hd T = t" "T \<noteq> []" by (rule packet_head [OF assms(1)])
  obtain bf where bf: "pw_buf s f = Some bf" "tot_len bf = length (addrs s F)" "hd F = f" "F \<noteq> []" by (rule packet_head [OF assms(2)])
  have c: "chain_of s (head T) T" "chain_of s (head F) F" "lens_ok s T" "lens_ok s F" "length (addrs s T) < 65536" "length (addrs s F) < 65536"
    and h: "head T = Some t" "head F = Some f"
    using assms(1,2) chain_head by (auto simp: packet_def)
  have run: "pbuf_copy (Some t) (Some f) s = copy_loop (Some t) (Some f) 0 0 s"
    using bt bf assms(7) by (simp add: pbuf_copy_def deref_def)
  obtain s' where s': "copy_loop (head T) (head F) 0 0 s = Some (Inr (ERR_OK, s'))" "pw_buf s' = pw_buf s" "pw_mem s' = pw_mem s"
    "map (pw_byte s') (addrs s T) = map (pw_byte s) (addrs s F) @ map (pw_byte s) (drop (length (addrs s F)) (addrs s T))"
    "\<forall>i. i \<notin> set (addrs s T) \<longrightarrow> pw_byte s' i = pw_byte s i"
    using copy_loop_chain [OF bt(4) bf(4) c(1,2,3,4) assms(3,4) c(5,6), of 0 0] assms(5-7) by auto
  have "content s' T = content s F @ drop (length (content s F)) (content s T)"
    using s'(4) by (simp add: content_def addrs_cong [OF s'(2)] drop_map)
  moreover have "content s' F = content s F" using s'(5) assms(6) by (intro content_cong [OF s'(2)]) auto
  ultimately show ?thesis using run s' h by auto
qed

text \<open>A packet of two buffers and one of one buffer, of five bytes each.\<close>

definition two_packets :: pworld where
  "two_packets = \<lparr>pw_buf = [10 \<mapsto> \<lparr>pb_next = Some 20, payload = 100, tot_len = 5, pb_len = 2, type_internal = 0x80, pb_flags = 0, pb_ref = 1, if_idx = 0\<rparr>,
       20 \<mapsto> \<lparr>pb_next = None, payload = 200, tot_len = 3, pb_len = 3, type_internal = 0x80, pb_flags = 0, pb_ref = 1, if_idx = 0\<rparr>,
       30 \<mapsto> \<lparr>pb_next = None, payload = 330, tot_len = 5, pb_len = 5, type_internal = 0x80, pb_flags = 0, pb_ref = 1, if_idx = 0\<rparr>],
     pw_byte = (\<lambda>i. word_of_nat (i mod 100 + 65)), pw_mem = demo_pmem, pbuf_free_ooseq_pending = 0\<rparr>"

lemma two_packets_span: "span two_packets 10 = [100, 101]" "span two_packets 20 = [200, 201, 202]" "span two_packets 30 = [330, 331, 332, 333, 334]"
  by (simp_all add: two_packets_def span_def upt_rec)

lemma two_packets_byte: "pw_byte two_packets i = word_of_nat (i mod 100 + 65)"
  by (simp add: two_packets_def)

lemma two_packets_content:
  "content two_packets [10, 20] = [65, 66, 65, 66, 67]" "content two_packets [30] = [95, 96, 97, 98, 99]"
  by (simp_all add: two_packets_span two_packets_byte)

lemma two_packets_ok: "packet two_packets 10 [10, 20]" "packet two_packets 30 [30]"
  by (simp_all add: packet_def two_packets_span) (simp_all add: two_packets_def)

theorem pbuf_copy_exact_witness:
  "\<exists>s'. pbuf_copy (Some 10) (Some 30) two_packets = Some (Inr (ERR_OK, s')) \<and> content s' [10, 20] = [95, 96, 97, 98, 99]"
proof -
  have "ends_full two_packets [10, 20]" "ends_full two_packets [30]" by (simp_all add: ends_full_def two_packets_span)
  moreover have "distinct (addrs two_packets [10, 20])" "set (addrs two_packets [10, 20]) \<inter> set (addrs two_packets [30]) = {}"
    by (simp_all add: two_packets_span)
  ultimately obtain s' where "pbuf_copy (Some 10) (Some 30) two_packets = Some (Inr (ERR_OK, s'))"
    "content s' [10, 20] = content two_packets [30] @ drop (length (content two_packets [30])) (content two_packets [10, 20])"
    using pbuf_copy_exact [OF two_packets_ok] unfolding two_packets_content by auto
  then show ?thesis unfolding two_packets_content by auto
qed

text \<open>
  C25.  What is stored in a packet is what is read from it: for every packet whose bytes lie apart, every offset inside it
  and every \<open>n\<close> bytes that fit behind the offset, \<^verbatim>\<open>pbuf_take_at\<close> succeeds, and then
  \<^verbatim>\<open>pbuf_copy_partial\<close> of \<open>n\<close> bytes at that offset returns \<open>n\<close> and these bytes, and a read of
  any byte before or behind them gives what the packet held before.
\<close>

theorem pbuf_take_copy_roundtrip:
  assumes "packet s p qs" "distinct (addrs s qs)" "off < length (addrs s qs)" "off + n \<le> length (addrs s qs)"
    "n \<le> length dat" "n \<le> length buf"
  shows "\<exists>s'. pbuf_take_at (Some p) dat n off s = Some (Inr (ERR_OK, s')) \<and>
    pbuf_copy_partial (Some p) (Some buf) n off s' = Some (Inr (n, Some (take n dat @ drop n buf))) \<and>
    (\<forall>i. (i < off \<or> off + n \<le> i) \<longrightarrow> i < 65536 \<longrightarrow> pbuf_get_at (Some p) i s' = pbuf_get_at (Some p) i s)"
proof -
  have c: "chain_of s (Some p) qs" "length (addrs s qs) < 65536" using assms(1) by (simp_all add: packet_def)
  have lt: "n < 65536" "off < 65536" using c(2) assms(3,4) by simp_all
  obtain s' where s': "pbuf_take_at (Some p) dat n off s = Some (Inr (ERR_OK, s'))" "pw_buf s' = pw_buf s"
    "content s' qs = take off (content s qs) @ take n dat @ drop (off + n) (content s qs)"
    using pbuf_take_at_packet [OF assms(1,2,5) lt] assms(3,4) by auto
  note a = addrs_cong [OF s'(2)]
  have c': "chain_of s' (Some p) qs" "length (addrs s' qs) < 65536" using c by (simp_all only: chain_cong [OF s'(2)] a)
  have m: "min n (length (addrs s qs) - off) = n" using assms(4) by simp
  have "take n (drop off (content s' qs)) = take n dat" unfolding s'(3) using assms(3,5) by simp
  then have "pbuf_copy_partial (Some p) (Some buf) n off s' = Some (Inr (n, Some (take n dat @ drop n buf)))"
    using copy_partial_chain [OF c' lt(2,1), of 0 buf 0] assms(6) lt(1) unfolding a m by (simp add: pbuf_copy_partial_def)
  moreover have "pbuf_get_at (Some p) i s' = pbuf_get_at (Some p) i s" if "i < off \<or> off + n \<le> i" "i < 65536" for i
  proof -
    have "content s' qs ! i = content s qs ! i" if "i < length (addrs s qs)"
      unfolding s'(3) using \<open>i < off \<or> off + n \<le> i\<close> that assms(3-5) by (auto simp: nth_append)
    then show ?thesis using get_at_chain [OF c that(2)] get_at_chain [OF c' that(2)] unfolding a by simp
  qed
  ultimately show ?thesis using s'(1) by blast
qed

theorem pbuf_take_copy_roundtrip_witness:
  "\<exists>s'. pbuf_take_at (Some 10) [1, 2, 3] 3 1 two_packets = Some (Inr (ERR_OK, s')) \<and>
    pbuf_copy_partial (Some 10) (Some [0, 0, 0, 0]) 3 1 s' = Some (Inr (3, Some [1, 2, 3, 0]))"
proof -
  have "distinct (addrs two_packets [10, 20])" "1 < length (addrs two_packets [10, 20])" "1 + 3 \<le> length (addrs two_packets [10, 20])"
    by (simp_all add: two_packets_span)
  then show ?thesis
    using pbuf_take_copy_roundtrip [OF two_packets_ok(1), of 1 3 "[1, 2, 3]" "[0, 0, 0, 0]"] by fastforce
qed

theorem pbuf_strstr_first_witness: "pbuf_strstr 10 (Some [66, 65, 0]) two_packets = Some (Inr 1)"
  using pbuf_strstr_first [OF two_packets_ok(1), of "[66, 65]" "[]"] unfolding two_packets_content by (simp add: upt_rec)

text \<open>
  The condition on the last buffer is needed: a source that ends in an empty buffer and fills its target is copied to the last
  byte, and the call then reports that the target is too small.
\<close>

definition empty_tail :: pworld where
  "empty_tail = two_packets\<lparr>pw_buf := (pw_buf two_packets)
     (10 \<mapsto> \<lparr>pb_next = Some 20, payload = 100, tot_len = 5, pb_len = 5, type_internal = 0x80, pb_flags = 0, pb_ref = 1, if_idx = 0\<rparr>,
      20 \<mapsto> \<lparr>pb_next = None, payload = 200, tot_len = 0, pb_len = 0, type_internal = 0x80, pb_flags = 0, pb_ref = 1, if_idx = 0\<rparr>)\<rparr>"

lemma pbuf_copy_empty_tail:
  "packet empty_tail 10 [10, 20] \<and> packet empty_tail 30 [30] \<and> length (content empty_tail [10, 20]) = length (content empty_tail [30]) \<and>
   pbuf_copy (Some 30) (Some 10) empty_tail = Some (Inr (ERR_ARG, memcpy 330 100 5 empty_tail))"
proof -
  have b: "pw_buf empty_tail 10 = Some \<lparr>pb_next = Some 20, payload = 100, tot_len = 5, pb_len = 5, type_internal = 0x80, pb_flags = 0, pb_ref = 1, if_idx = 0\<rparr>"
    "pw_buf empty_tail 20 = Some \<lparr>pb_next = None, payload = 200, tot_len = 0, pb_len = 0, type_internal = 0x80, pb_flags = 0, pb_ref = 1, if_idx = 0\<rparr>"
    "pw_buf empty_tail 30 = Some \<lparr>pb_next = None, payload = 330, tot_len = 5, pb_len = 5, type_internal = 0x80, pb_flags = 0, pb_ref = 1, if_idx = 0\<rparr>"
    by (simp_all add: empty_tail_def two_packets_def)
  have "packet empty_tail 10 [10, 20]" "packet empty_tail 30 [30]" "length (content empty_tail [10, 20]) = length (content empty_tail [30])"
    using b by (simp_all add: packet_def span_def)
  moreover have "pbuf_copy (Some 30) (Some 10) empty_tail = Some (Inr (ERR_ARG, memcpy 330 100 5 empty_tail))"
    using b by (simp add: pbuf_copy_def deref_def copy_loop.simps Let_def queued_def sub32_small)
  ultimately show ?thesis by blast
qed

end
