(* ===== verification/LwEther.thy ===== *)
theory LwEther
  imports LwPbufData LwIp4
begin

text \<open>
  Below the protocols: network interfaces, the route of \<^verbatim>\<open>ipv4/ip4.c\<close>, and the frames \<^verbatim>\<open>netif/ethernet.c\<close> sends.
  The world is the packet buffers, the interfaces and what the driver was given.  An interface's
  \<^verbatim>\<open>linkoutput\<close> is the parameter \<open>lo\<close>: it sees the frame, that is the buffer and the memory at that moment, and the
  frames before it, and answers an error code; as its contract asks, it leaves the buffer to the caller.
  Every call is logged.  Statistics are on, 16 bits wide; those of an interface have 32 bits.
\<close>

section \<open>State\<close>

datatype eth_addr = ETH_ADDR u8 u8 u8 u8 u8 u8

record eth_netif = netif +
  nf_gw :: u32
  nf_hwaddr :: eth_addr
  nf_hwaddr_len :: u8
  nf_num :: u8

datatype counter = ArpXmit | ArpRecv | ArpDrop | ArpLenerr | ArpMemerr | ArpProterr | ArpErr | ArpCachehit | LinkLenerr
  | IpRterr | IpOutNoRoutes | IfInErrors nat | IfInUnknownProtos nat

record frame =
  fr_netif :: nat
  fr_pbuf :: nat
  fr_world :: pworld

record eworld =
  ew_pb :: pworld
  ew_netif :: "nat \<rightharpoonup> eth_netif"
  netif_list :: "nat list"
  netif_default :: "nat option"
  ip4_default_multicast_netif :: "nat option"
  ew_stats :: "counter \<Rightarrow> nat"
  ew_sent :: "frame list"

type_synonym linkoutput = "frame list \<Rightarrow> frame \<Rightarrow> int"

abbreviation (input) ERR_BUF :: int where "ERR_BUF \<equiv> -2"
abbreviation (input) ERR_RTE :: int where "ERR_RTE \<equiv> -4"

definition SIZEOF_ETH_HDR :: nat where "SIZEOF_ETH_HDR = 14"
definition ETHTYPE_IP :: u16 where "ETHTYPE_IP = 0x0800"
definition ETHTYPE_ARP :: u16 where "ETHTYPE_ARP = 0x0806"
definition ETH_HWADDR_LEN :: u8 where "ETH_HWADDR_LEN = 6"
definition ethbroadcast :: eth_addr where "ethbroadcast = ETH_ADDR 0xFF 0xFF 0xFF 0xFF 0xFF 0xFF"
definition ethzero :: eth_addr where "ethzero = ETH_ADDR 0 0 0 0 0 0"
definition NETIF_FLAG_UP :: u8 where "NETIF_FLAG_UP = 0x01"
definition NETIF_FLAG_LINK_UP :: u8 where "NETIF_FLAG_LINK_UP = 0x04"
definition NETIF_FLAG_ETHARP :: u8 where "NETIF_FLAG_ETHARP = 0x08"

definition counter_size :: "counter \<Rightarrow> nat" where
  "counter_size c = (case c of IpOutNoRoutes \<Rightarrow> 2 ^ 32 | IfInErrors _ \<Rightarrow> 2 ^ 32 | IfInUnknownProtos _ \<Rightarrow> 2 ^ 32 | _ \<Rightarrow> 2 ^ 16)"

definition stats_inc :: "counter \<Rightarrow> 'a eworld_scheme \<Rightarrow> 'a eworld_scheme" where
  "stats_inc c w = w\<lparr>ew_stats := (ew_stats w)(c := (ew_stats w c + 1) mod counter_size c)\<rparr>"

text \<open>A call of \<^verbatim>\<open>pbuf.c\<close> on the buffers of the world.\<close>

definition on_pb :: "(pworld \<Rightarrow> ('r \<times> pworld) run) \<Rightarrow> 'a eworld_scheme \<Rightarrow> ('r \<times> 'a eworld_scheme) run" where
  "on_pb f w = rbind (f (ew_pb w)) (\<lambda>(r, s). Some (Inr (r, w\<lparr>ew_pb := s\<rparr>)))"

section \<open>Bytes in memory\<close>

definition eth_bytes :: "eth_addr \<Rightarrow> u8 list" where
  "eth_bytes e = (case e of ETH_ADDR a b c d f g \<Rightarrow> [a, b, c, d, f, g])"

definition u16_bytes :: "u16 \<Rightarrow> u8 list" where
  "u16_bytes v = [ucast v, ucast (drop_bit 8 v)]"

definition rd_eth :: "nat \<Rightarrow> pworld \<Rightarrow> eth_addr" where
  "rd_eth a s = ETH_ADDR (pw_byte s a) (pw_byte s (a + 1)) (pw_byte s (a + 2)) (pw_byte s (a + 3)) (pw_byte s (a + 4)) (pw_byte s (a + 5))"

definition rd_u16 :: "nat \<Rightarrow> pworld \<Rightarrow> u16" where
  "rd_u16 a s = ucast (pw_byte s a) OR push_bit 8 (ucast (pw_byte s (a + 1)))"

definition rd_u32 :: "nat \<Rightarrow> pworld \<Rightarrow> u32" where
  "rd_u32 a s = ucast (pw_byte s a) OR push_bit 8 (ucast (pw_byte s (a + 1))) OR push_bit 16 (ucast (pw_byte s (a + 2)))
     OR push_bit 24 (ucast (pw_byte s (a + 3)))"

section \<open>Addresses\<close>

definition ip4_addr_ismulticast :: "u32 \<Rightarrow> bool" where
  "ip4_addr_ismulticast addr \<longleftrightarrow> addr AND lwip_htonl 0xF0000000 = lwip_htonl 0xE0000000"

definition ip4_addr_islinklocal :: "u32 \<Rightarrow> bool" where
  "ip4_addr_islinklocal addr \<longleftrightarrow> addr AND lwip_htonl 0xFFFF0000 = lwip_htonl 0xA9FE0000"

definition ip4_addr_isloopback :: "u32 \<Rightarrow> bool" where
  "ip4_addr_isloopback addr \<longleftrightarrow> addr AND lwip_htonl 0xFF000000 = lwip_htonl (push_bit 24 127)"

definition ip4_addr_get_byte :: "u32 \<Rightarrow> nat \<Rightarrow> u8" where
  "ip4_addr_get_byte addr idx = bytes32 addr ! idx"

definition netif_is_up :: "eth_netif \<Rightarrow> bool" where
  "netif_is_up n \<longleftrightarrow> nf_flags n AND NETIF_FLAG_UP \<noteq> 0"

definition netif_is_link_up :: "eth_netif \<Rightarrow> bool" where
  "netif_is_link_up n \<longleftrightarrow> nf_flags n AND NETIF_FLAG_LINK_UP \<noteq> 0"

definition netif_get_index :: "eth_netif \<Rightarrow> u8" where
  "netif_get_index n = nf_num n + 1"

section \<open>The route\<close>

fun route_loop :: "(nat \<rightharpoonup> eth_netif) \<Rightarrow> u32 \<Rightarrow> nat list \<Rightarrow> fault + nat option" where
  "route_loop netifs dest [] = Inr None"
| "route_loop netifs dest (netif # ns) =
     seq (deref netifs netif) (\<lambda>n.
       if netif_is_up n \<and> netif_is_link_up n \<and> nf_ip_addr n \<noteq> 0 then
         (if ip4_addr_netcmp dest (nf_ip_addr n) (nf_netmask n) then Inr (Some netif)
          else if nf_flags n AND NETIF_FLAG_BROADCAST = 0 \<and> dest = nf_gw n then Inr (Some netif)
          else route_loop netifs dest ns)
       else route_loop netifs dest ns)"

definition ip4_set_default_multicast_netif :: "nat option \<Rightarrow> 'a eworld_scheme \<Rightarrow> 'a eworld_scheme" where
  "ip4_set_default_multicast_netif d w = w\<lparr>ip4_default_multicast_netif := d\<rparr>"

definition ip4_route :: "u32 \<Rightarrow> 'a eworld_scheme \<Rightarrow> (nat option \<times> 'a eworld_scheme) run" where
  "ip4_route dest w =
     (if ip4_addr_ismulticast dest \<and> ip4_default_multicast_netif w \<noteq> None then Some (Inr (ip4_default_multicast_netif w, w))
      else rbind (Some (route_loop (ew_netif w) dest (netif_list w))) (\<lambda>found.
       case found of
         Some netif \<Rightarrow> Some (Inr (Some netif, w))
       | None \<Rightarrow>
           rbind (Some (case netif_default w of
               None \<Rightarrow> Inr True
             | Some d \<Rightarrow> seq (deref (ew_netif w) d) (\<lambda>n.
                 Inr (\<not> netif_is_up n \<or> \<not> netif_is_link_up n \<or> nf_ip_addr n = 0 \<or> ip4_addr_isloopback dest)))) (\<lambda>unusable.
             if unusable then Some (Inr (None, stats_inc IpOutNoRoutes (stats_inc IpRterr w)))
             else Some (Inr (netif_default w, w)))))"

section \<open>Sending a frame\<close>

definition ethernet_output ::
    "linkoutput \<Rightarrow> nat option \<Rightarrow> nat \<Rightarrow> eth_addr \<Rightarrow> eth_addr \<Rightarrow> u16 \<Rightarrow> 'a eworld_scheme \<Rightarrow> (int \<times> 'a eworld_scheme) run" where
  "ethernet_output lo netif p src dst eth_type w =
     (let eth_type_be = lwip_htons eth_type
      in rbind (on_pb (\<lambda>s. Some (pbuf_add_header (Some p) SIZEOF_ETH_HDR s)) w) (\<lambda>(failed, w).
           if failed \<noteq> 0 then Some (Inr (ERR_BUF, stats_inc LinkLenerr w))
           else
             rbind (Some (deref (pw_buf (ew_pb w)) p)) (\<lambda>b.
               let ethhdr = payload b;
                   s = store_bytes (ethhdr + 12) (u16_bytes eth_type_be) (ew_pb w);
                   s = store_bytes ethhdr (eth_bytes dst) s;
                   s = store_bytes (ethhdr + 6) (eth_bytes src) s;
                   w = w\<lparr>ew_pb := s\<rparr>
               in rbind (Some (nonnull netif)) (\<lambda>i.
                  rbind (Some (deref (ew_netif w) i)) (\<lambda>n.
                    if nf_hwaddr_len n \<noteq> ETH_HWADDR_LEN then Some (Inl AssertFailed)
                    else
                      (let fr = \<lparr>fr_netif = i, fr_pbuf = p, fr_world = s\<rparr>
                       in Some (Inr (lo (ew_sent w) fr, w\<lparr>ew_sent := ew_sent w @ [fr]\<rparr>))))))))"

end
