(* ===== verification/LwEtharp.thy ===== *)
theory LwEtharp
  imports LwEther
begin

text \<open>
  \<^verbatim>\<open>ipv4/etharp.c\<close> and \<^verbatim>\<open>ethernet_input\<close>: the ARP cache, as the port configures it (ten entries, one queued packet per
  entry, static entries, entries match the interface, one cached index).  The table is the list of its entries; the index of
  an entry is a position in it.  The fields of an ARP packet are read where the code reads them; addresses inside it
  are handed on by value, since nothing writes the packet while it is processed.  A pointer to an interface is its
  number, \<open>None\<close> is the null pointer.
\<close>

section \<open>State\<close>

datatype etharp_state = ETHARP_STATE_EMPTY | ETHARP_STATE_PENDING | ETHARP_STATE_STABLE
  | ETHARP_STATE_STABLE_REREQUESTING_1 | ETHARP_STATE_STABLE_REREQUESTING_2 | ETHARP_STATE_STATIC

fun state_no :: "etharp_state \<Rightarrow> nat" where
  "state_no ETHARP_STATE_EMPTY = 0"
| "state_no ETHARP_STATE_PENDING = 1"
| "state_no ETHARP_STATE_STABLE = 2"
| "state_no ETHARP_STATE_STABLE_REREQUESTING_1 = 3"
| "state_no ETHARP_STATE_STABLE_REREQUESTING_2 = 4"
| "state_no ETHARP_STATE_STATIC = 5"

text \<open>The code compares states by number.\<close>

instantiation etharp_state :: linorder
begin

definition less_eq_etharp_state :: "etharp_state \<Rightarrow> etharp_state \<Rightarrow> bool" where
  "less_eq_etharp_state a b \<longleftrightarrow> state_no a \<le> state_no b"

definition less_etharp_state :: "etharp_state \<Rightarrow> etharp_state \<Rightarrow> bool" where
  "less_etharp_state a b \<longleftrightarrow> state_no a < state_no b"

instance
proof
  fix a b :: etharp_state
  show "a \<le> b \<Longrightarrow> b \<le> a \<Longrightarrow> a = b" by (cases a; cases b) (simp_all add: less_eq_etharp_state_def)
qed (auto simp: less_eq_etharp_state_def less_etharp_state_def)

end

record arp_entry =
  ae_q :: "nat option"
  ae_ipaddr :: u32
  ae_netif :: "nat option"
  ae_ethaddr :: eth_addr
  ae_ctime :: nat
  ae_state :: etharp_state

record aworld = eworld +
  arp_table :: "arp_entry list"
  etharp_cached_entry :: nat

definition ARP_TABLE_SIZE :: nat where "ARP_TABLE_SIZE = 10"
definition ARP_MAXAGE :: nat where "ARP_MAXAGE = 300"
definition ARP_AGE_REREQUEST_USED_UNICAST :: nat where "ARP_AGE_REREQUEST_USED_UNICAST = ARP_MAXAGE - 30"
definition ARP_AGE_REREQUEST_USED_BROADCAST :: nat where "ARP_AGE_REREQUEST_USED_BROADCAST = ARP_MAXAGE - 15"
definition ARP_MAXPENDING :: nat where "ARP_MAXPENDING = 5"
definition ETHARP_FLAG_TRY_HARD :: u8 where "ETHARP_FLAG_TRY_HARD = 1"
definition ETHARP_FLAG_FIND_ONLY :: u8 where "ETHARP_FLAG_FIND_ONLY = 2"
definition ETHARP_FLAG_STATIC_ENTRY :: u8 where "ETHARP_FLAG_STATIC_ENTRY = 4"
definition SIZEOF_ETHARP_HDR :: nat where "SIZEOF_ETHARP_HDR = 28"
definition ARP_REQUEST :: u16 where "ARP_REQUEST = 1"
definition ARP_REPLY :: u16 where "ARP_REPLY = 2"
definition LWIP_IANA_HWTYPE_ETHERNET :: u16 where "LWIP_IANA_HWTYPE_ETHERNET = 1"

text \<open>An entry of the table, read and changed.\<close>

definition arp_at :: "nat \<Rightarrow> 'a aworld_scheme \<Rightarrow> arp_entry run" where
  "arp_at i w = Some (index (arp_table w) i)"

definition arp_set :: "nat \<Rightarrow> (arp_entry \<Rightarrow> arp_entry) \<Rightarrow> 'a aworld_scheme \<Rightarrow> 'a aworld_scheme" where
  "arp_set i f w = w\<lparr>arp_table := (arp_table w)[i := f (arp_table w ! i)]\<rparr>"

section \<open>Sending ARP packets\<close>

text \<open>The fields of \<^verbatim>\<open>struct etharp_hdr\<close> at address \<open>hdr\<close>.\<close>

definition hdr_hwtype :: "nat \<Rightarrow> pworld \<Rightarrow> u16" where "hdr_hwtype hdr s = rd_u16 hdr s"
definition hdr_proto :: "nat \<Rightarrow> pworld \<Rightarrow> u16" where "hdr_proto hdr s = rd_u16 (hdr + 2) s"
definition hdr_hwlen :: "nat \<Rightarrow> pworld \<Rightarrow> u8" where "hdr_hwlen hdr s = pw_byte s (hdr + 4)"
definition hdr_protolen :: "nat \<Rightarrow> pworld \<Rightarrow> u8" where "hdr_protolen hdr s = pw_byte s (hdr + 5)"
definition hdr_opcode :: "nat \<Rightarrow> pworld \<Rightarrow> u16" where "hdr_opcode hdr s = rd_u16 (hdr + 6) s"
definition hdr_shwaddr :: "nat \<Rightarrow> pworld \<Rightarrow> eth_addr" where "hdr_shwaddr hdr s = rd_eth (hdr + 8) s"
definition hdr_sipaddr :: "nat \<Rightarrow> pworld \<Rightarrow> u32" where "hdr_sipaddr hdr s = rd_u32 (hdr + 14) s"
definition hdr_dipaddr :: "nat \<Rightarrow> pworld \<Rightarrow> u32" where "hdr_dipaddr hdr s = rd_u32 (hdr + 24) s"

definition etharp_raw :: "custom_free \<Rightarrow> linkoutput \<Rightarrow> nat option \<Rightarrow> eth_addr \<Rightarrow> eth_addr \<Rightarrow> eth_addr \<Rightarrow> u32 \<Rightarrow> eth_addr \<Rightarrow> u32 \<Rightarrow> u16 \<Rightarrow>
    'a eworld_scheme \<Rightarrow> (int \<times> 'a eworld_scheme) run" where
  "etharp_raw cf lo netif ethsrc_addr ethdst_addr hwsrc_addr ipsrc_addr hwdst_addr ipdst_addr opcode w =
     (let result = ERR_OK
      in rbind (Some (nonnull netif)) (\<lambda>i.
         rbind (on_pb (pbuf_alloc cf PBUF_LINK SIZEOF_ETHARP_HDR PBUF_RAM) w) (\<lambda>(p, w).
           case p of
             None \<Rightarrow> Some (Inr (ERR_MEM, stats_inc ArpMemerr w))
           | Some p \<Rightarrow>
               rbind (Some (deref (pw_buf (ew_pb w)) p)) (\<lambda>b.
                 if \<not> SIZEOF_ETHARP_HDR \<le> pb_len b then Some (Inl AssertFailed)
                 else
                   (let hdr = payload b;
                        s = store_bytes (hdr + 6) (u16_bytes (lwip_htons opcode)) (ew_pb w)
                    in rbind (Some (deref (ew_netif w) i)) (\<lambda>n.
                         if nf_hwaddr_len n \<noteq> ETH_HWADDR_LEN then Some (Inl AssertFailed)
                         else
                           (let s = store_bytes (hdr + 8) (eth_bytes hwsrc_addr) s;
                                s = store_bytes (hdr + 18) (eth_bytes hwdst_addr) s;
                                s = store_bytes (hdr + 14) (bytes32 ipsrc_addr) s;
                                s = store_bytes (hdr + 24) (bytes32 ipdst_addr) s;
                                s = store_bytes hdr (u16_bytes (lwip_htons LWIP_IANA_HWTYPE_ETHERNET)) s;
                                s = store_bytes (hdr + 2) (u16_bytes (lwip_htons ETHTYPE_IP)) s;
                                s = store_bytes (hdr + 4) [ETH_HWADDR_LEN] s;
                                s = store_bytes (hdr + 5) [4] s
                            in rbind (ethernet_output lo netif p ethsrc_addr ethdst_addr ETHTYPE_ARP (w\<lparr>ew_pb := s\<rparr>)) (\<lambda>(_, w).
                               rbind (on_pb (pbuf_free cf (Some p)) (stats_inc ArpXmit w)) (\<lambda>(_, w).
                                 Some (Inr (result, w)))))))))))"

definition etharp_request_dst ::
    "custom_free \<Rightarrow> linkoutput \<Rightarrow> nat option \<Rightarrow> u32 \<Rightarrow> eth_addr \<Rightarrow> 'a eworld_scheme \<Rightarrow> (int \<times> 'a eworld_scheme) run" where
  "etharp_request_dst cf lo netif ipaddr hw_dst_addr w =
     rbind (Some (seq (nonnull netif) (deref (ew_netif w)))) (\<lambda>n.
       etharp_raw cf lo netif (nf_hwaddr n) hw_dst_addr (nf_hwaddr n) (nf_ip_addr n) ethzero ipaddr ARP_REQUEST w)"

definition etharp_request :: "custom_free \<Rightarrow> linkoutput \<Rightarrow> nat option \<Rightarrow> u32 \<Rightarrow> 'a eworld_scheme \<Rightarrow> (int \<times> 'a eworld_scheme) run" where
  "etharp_request cf lo netif ipaddr w = etharp_request_dst cf lo netif ipaddr ethbroadcast w"

section \<open>The table\<close>

definition etharp_free_entry :: "custom_free \<Rightarrow> nat \<Rightarrow> 'a aworld_scheme \<Rightarrow> (unit \<times> 'a aworld_scheme) run" where
  "etharp_free_entry cf i w =
     rbind (arp_at i w) (\<lambda>e.
     rbind (case ae_q e of
         None \<Rightarrow> Some (Inr ((), w))
       | Some q \<Rightarrow> rbind (on_pb (pbuf_free cf (Some q)) w) (\<lambda>(_, w). Some (Inr ((), arp_set i (ae_q_update (\<lambda>_. None)) w)))) (\<lambda>(_, w).
       Some (Inr ((), arp_set i (ae_state_update (\<lambda>_. ETHARP_STATE_EMPTY)) w))))"

text \<open>One round of the timer's loop.\<close>

definition tmr_entry :: "custom_free \<Rightarrow> linkoutput \<Rightarrow> nat \<Rightarrow> 'a aworld_scheme \<Rightarrow> (unit \<times> 'a aworld_scheme) run" where
  "tmr_entry cf lo i w =
     rbind (arp_at i w) (\<lambda>e.
       if ae_state e \<noteq> ETHARP_STATE_EMPTY \<and> ae_state e \<noteq> ETHARP_STATE_STATIC then
         (let ctime = u16c (ae_ctime e + 1);
              w = arp_set i (ae_ctime_update (\<lambda>_. ctime)) w
          in if ARP_MAXAGE \<le> ctime \<or> (ae_state e = ETHARP_STATE_PENDING \<and> ARP_MAXPENDING \<le> ctime) then etharp_free_entry cf i w
             else if ae_state e = ETHARP_STATE_STABLE_REREQUESTING_1 then
               Some (Inr ((), arp_set i (ae_state_update (\<lambda>_. ETHARP_STATE_STABLE_REREQUESTING_2)) w))
             else if ae_state e = ETHARP_STATE_STABLE_REREQUESTING_2 then
               Some (Inr ((), arp_set i (ae_state_update (\<lambda>_. ETHARP_STATE_STABLE)) w))
             else if ae_state e = ETHARP_STATE_PENDING then
               rbind (etharp_request cf lo (ae_netif e) (ae_ipaddr e) w) (\<lambda>(_, w). Some (Inr ((), w)))
             else Some (Inr ((), w)))
       else Some (Inr ((), w)))"

fun tmr_loop :: "custom_free \<Rightarrow> linkoutput \<Rightarrow> nat list \<Rightarrow> 'a aworld_scheme \<Rightarrow> (unit \<times> 'a aworld_scheme) run" where
  "tmr_loop cf lo [] w = Some (Inr ((), w))"
| "tmr_loop cf lo (i # is) w = rbind (tmr_entry cf lo i w) (\<lambda>(_, w). tmr_loop cf lo is w)"

definition etharp_tmr :: "custom_free \<Rightarrow> linkoutput \<Rightarrow> 'a aworld_scheme \<Rightarrow> (unit \<times> 'a aworld_scheme) run" where
  "etharp_tmr cf lo w = tmr_loop cf lo [0..<ARP_TABLE_SIZE] w"

text \<open>The candidates of the search, \<open>ARP_TABLE_SIZE\<close> for none, and the ages of the oldest.\<close>

record candidates =
  c_empty :: nat
  old_pending :: nat
  old_stable :: nat
  old_queue :: nat
  age_pending :: nat
  age_stable :: nat
  age_queue :: nat

definition no_candidates :: candidates where
  "no_candidates = \<lparr>c_empty = ARP_TABLE_SIZE, old_pending = ARP_TABLE_SIZE, old_stable = ARP_TABLE_SIZE, old_queue = ARP_TABLE_SIZE,
     age_pending = 0, age_stable = 0, age_queue = 0\<rparr>"

definition remember :: "arp_entry \<Rightarrow> nat \<Rightarrow> candidates \<Rightarrow> candidates" where
  "remember e i c =
     (if ae_state e = ETHARP_STATE_PENDING then
        (if ae_q e \<noteq> None then (if age_queue c \<le> ae_ctime e then c\<lparr>old_queue := i, age_queue := ae_ctime e\<rparr> else c)
         else (if age_pending c \<le> ae_ctime e then c\<lparr>old_pending := i, age_pending := ae_ctime e\<rparr> else c))
      else if ETHARP_STATE_STABLE \<le> ae_state e then
        (if ae_state e < ETHARP_STATE_STATIC then
           (if age_stable c \<le> ae_ctime e then c\<lparr>old_stable := i, age_stable := ae_ctime e\<rparr> else c)
         else c)
      else c)"

text \<open>The sweep: \<open>Inl i\<close> is the return with a match.\<close>

fun find_loop :: "u32 option \<Rightarrow> nat option \<Rightarrow> arp_entry list \<Rightarrow> nat \<Rightarrow> candidates \<Rightarrow> nat + candidates" where
  "find_loop ipaddr netif [] i c = Inr c"
| "find_loop ipaddr netif (e # es) i c =
     (if c_empty c = ARP_TABLE_SIZE \<and> ae_state e = ETHARP_STATE_EMPTY then find_loop ipaddr netif es (i + 1) (c\<lparr>c_empty := i\<rparr>)
      else if ae_state e \<noteq> ETHARP_STATE_EMPTY then
        (if ipaddr = Some (ae_ipaddr e) \<and> (netif = None \<or> netif = ae_netif e) then Inl i
         else find_loop ipaddr netif es (i + 1) (remember e i c))
      else find_loop ipaddr netif es (i + 1) c)"

definition etharp_find_entry ::
    "custom_free \<Rightarrow> u32 option \<Rightarrow> u8 \<Rightarrow> nat option \<Rightarrow> 'a aworld_scheme \<Rightarrow> (int \<times> 'a aworld_scheme) run" where
  "etharp_find_entry cf ipaddr flags netif w =
     (case find_loop ipaddr netif (arp_table w) 0 no_candidates of
        Inl i \<Rightarrow> Some (Inr (int i, w))
      | Inr c \<Rightarrow>
          if flags AND ETHARP_FLAG_FIND_ONLY \<noteq> 0 \<or> (c_empty c = ARP_TABLE_SIZE \<and> flags AND ETHARP_FLAG_TRY_HARD = 0)
          then Some (Inr (ERR_MEM, w))
          else
            (let fresh = (\<lambda>(i, w).
                   rbind (arp_at i w) (\<lambda>e.
                     if ae_state e \<noteq> ETHARP_STATE_EMPTY then Some (Inl AssertFailed)
                     else
                       (let w = (case ipaddr of None \<Rightarrow> w | Some a \<Rightarrow> arp_set i (ae_ipaddr_update (\<lambda>_. a)) w);
                            w = arp_set i (ae_ctime_update (\<lambda>_. 0)) w;
                            w = arp_set i (ae_netif_update (\<lambda>_. netif)) w
                        in Some (Inr (int i, w)))));
                 recycle = (\<lambda>i. rbind (etharp_free_entry cf i w) (\<lambda>(_, w). fresh (i, w)))
             in if c_empty c < ARP_TABLE_SIZE then fresh (c_empty c, w)
                else if old_stable c < ARP_TABLE_SIZE then
                  rbind (arp_at (old_stable c) w) (\<lambda>e. if ae_q e \<noteq> None then Some (Inl AssertFailed) else recycle (old_stable c))
                else if old_pending c < ARP_TABLE_SIZE then recycle (old_pending c)
                else if old_queue c < ARP_TABLE_SIZE then recycle (old_queue c)
                else Some (Inr (ERR_MEM, w))))"

definition etharp_update_arp_entry ::
    "custom_free \<Rightarrow> linkoutput \<Rightarrow> nat option \<Rightarrow> u32 \<Rightarrow> eth_addr \<Rightarrow> u8 \<Rightarrow> 'a aworld_scheme \<Rightarrow> (int \<times> 'a aworld_scheme) run" where
  "etharp_update_arp_entry cf lo netif ipaddr ethaddr flags w =
     rbind (Some (seq (nonnull netif) (deref (ew_netif w)))) (\<lambda>n.
       if nf_hwaddr_len n \<noteq> ETH_HWADDR_LEN then Some (Inl AssertFailed)
       else if ipaddr = 0 \<or> ip4_addr_isbroadcast_u32 ipaddr n \<or> ip4_addr_ismulticast ipaddr then Some (Inr (ERR_ARG, w))
       else
         rbind (etharp_find_entry cf (Some ipaddr) flags netif w) (\<lambda>(i, w).
           if i < 0 then Some (Inr (i, w))
           else
             (let i = nat i
              in rbind (arp_at i w) (\<lambda>e.
                   if flags AND ETHARP_FLAG_STATIC_ENTRY = 0 \<and> ae_state e = ETHARP_STATE_STATIC then Some (Inr (ERR_VAL, w))
                   else
                     (let state = (if flags AND ETHARP_FLAG_STATIC_ENTRY \<noteq> 0 then ETHARP_STATE_STATIC else ETHARP_STATE_STABLE);
                          w = arp_set i (ae_state_update (\<lambda>_. state)) w;
                          w = arp_set i (ae_netif_update (\<lambda>_. netif)) w;
                          w = arp_set i (ae_ethaddr_update (\<lambda>_. ethaddr)) w;
                          w = arp_set i (ae_ctime_update (\<lambda>_. 0)) w
                      in case ae_q e of
                           None \<Rightarrow> Some (Inr (ERR_OK, w))
                         | Some p \<Rightarrow>
                             (let w = arp_set i (ae_q_update (\<lambda>_. None)) w
                              in rbind (ethernet_output lo netif p (nf_hwaddr n) ethaddr ETHTYPE_IP w) (\<lambda>(_, w).
                                 rbind (on_pb (pbuf_free cf (Some p)) w) (\<lambda>(_, w). Some (Inr (ERR_OK, w))))))))))"

definition etharp_add_static_entry ::
    "custom_free \<Rightarrow> linkoutput \<Rightarrow> u32 \<Rightarrow> eth_addr \<Rightarrow> 'a aworld_scheme \<Rightarrow> (int \<times> 'a aworld_scheme) run" where
  "etharp_add_static_entry cf lo ipaddr ethaddr w =
     rbind (ip4_route ipaddr w) (\<lambda>(netif, w).
       if netif = None then Some (Inr (ERR_RTE, w))
       else etharp_update_arp_entry cf lo netif ipaddr ethaddr (ETHARP_FLAG_TRY_HARD OR ETHARP_FLAG_STATIC_ENTRY) w)"

definition etharp_remove_static_entry :: "custom_free \<Rightarrow> u32 \<Rightarrow> 'a aworld_scheme \<Rightarrow> (int \<times> 'a aworld_scheme) run" where
  "etharp_remove_static_entry cf ipaddr w =
     rbind (etharp_find_entry cf (Some ipaddr) ETHARP_FLAG_FIND_ONLY None w) (\<lambda>(i, w).
       if i < 0 then Some (Inr (i, w))
       else rbind (arp_at (nat i) w) (\<lambda>e.
         if ae_state e \<noteq> ETHARP_STATE_STATIC then Some (Inr (ERR_ARG, w))
         else rbind (etharp_free_entry cf (nat i) w) (\<lambda>(_, w). Some (Inr (ERR_OK, w)))))"

fun cleanup_loop :: "custom_free \<Rightarrow> nat option \<Rightarrow> nat list \<Rightarrow> 'a aworld_scheme \<Rightarrow> (unit \<times> 'a aworld_scheme) run" where
  "cleanup_loop cf netif [] w = Some (Inr ((), w))"
| "cleanup_loop cf netif (i # is) w =
     rbind (arp_at i w) (\<lambda>e.
     rbind (if ae_state e \<noteq> ETHARP_STATE_EMPTY \<and> ae_netif e = netif then etharp_free_entry cf i w else Some (Inr ((), w))) (\<lambda>(_, w).
       cleanup_loop cf netif is w))"

definition etharp_cleanup_netif :: "custom_free \<Rightarrow> nat option \<Rightarrow> 'a aworld_scheme \<Rightarrow> (unit \<times> 'a aworld_scheme) run" where
  "etharp_cleanup_netif cf netif w = cleanup_loop cf netif [0..<ARP_TABLE_SIZE] w"

text \<open>The entry's addresses are the values at the pointers that are returned.\<close>

definition etharp_find_addr ::
    "custom_free \<Rightarrow> nat option \<Rightarrow> u32 \<Rightarrow> 'a aworld_scheme \<Rightarrow> ((int \<times> (eth_addr \<times> u32) option) \<times> 'a aworld_scheme) run" where
  "etharp_find_addr cf netif ipaddr w =
     rbind (etharp_find_entry cf (Some ipaddr) ETHARP_FLAG_FIND_ONLY netif w) (\<lambda>(i, w).
       if 0 \<le> i then
         rbind (arp_at (nat i) w) (\<lambda>e.
           if ETHARP_STATE_STABLE \<le> ae_state e then Some (Inr ((i, Some (ae_ethaddr e, ae_ipaddr e)), w))
           else Some (Inr ((-1, None), w)))
       else Some (Inr ((-1, None), w)))"

definition etharp_get_entry :: "nat \<Rightarrow> 'a aworld_scheme \<Rightarrow> (int \<times> (u32 \<times> nat option \<times> eth_addr) option) run" where
  "etharp_get_entry i w =
     (if i < ARP_TABLE_SIZE then
        rbind (arp_at i w) (\<lambda>e.
          if ETHARP_STATE_STABLE \<le> ae_state e then Some (Inr (1, Some (ae_ipaddr e, ae_netif e, ae_ethaddr e)))
          else Some (Inr (0, None)))
      else Some (Inr (0, None)))"

section \<open>Outgoing packets\<close>

definition etharp_output_to_arp_index ::
    "custom_free \<Rightarrow> linkoutput \<Rightarrow> nat option \<Rightarrow> nat \<Rightarrow> nat \<Rightarrow> 'a aworld_scheme \<Rightarrow> (int \<times> 'a aworld_scheme) run" where
  "etharp_output_to_arp_index cf lo netif q arp_idx w =
     rbind (arp_at arp_idx w) (\<lambda>e.
       if \<not> ETHARP_STATE_STABLE \<le> ae_state e then Some (Inl AssertFailed)
       else
         (let rerequested = (\<lambda>(err, w).
                Some (Inr ((), if err = ERR_OK then arp_set arp_idx (ae_state_update (\<lambda>_. ETHARP_STATE_STABLE_REREQUESTING_1)) w else w)))
          in rbind
            (if ae_state e = ETHARP_STATE_STABLE then
               (if ARP_AGE_REREQUEST_USED_BROADCAST \<le> ae_ctime e
                then rbind (etharp_request cf lo netif (ae_ipaddr e) w) rerequested
                else if ARP_AGE_REREQUEST_USED_UNICAST \<le> ae_ctime e
                then rbind (etharp_request_dst cf lo netif (ae_ipaddr e) (ae_ethaddr e) w) rerequested
                else Some (Inr ((), w)))
             else Some (Inr ((), w))) (\<lambda>(_, w).
          rbind (Some (seq (nonnull netif) (deref (ew_netif w)))) (\<lambda>n.
          rbind (arp_at arp_idx w) (\<lambda>e. ethernet_output lo netif q (nf_hwaddr n) (ae_ethaddr e) ETHTYPE_IP w)))))"

text \<open>The loop that looks for a buffer that has to be copied.\<close>

definition PBUF_NEEDS_COPY :: "pbuf \<Rightarrow> bool" where
  "PBUF_NEEDS_COPY b \<longleftrightarrow> type_internal b AND 0x40 \<noteq> 0"

partial_function (option) copy_needed_loop :: "nat option \<Rightarrow> pworld \<Rightarrow> bool run" where
  "copy_needed_loop p s =
     (case p of
        None \<Rightarrow> Some (Inr False)
      | Some p \<Rightarrow>
          (case pw_buf s p of
             None \<Rightarrow> Some (Inl DanglingPtr)
           | Some b \<Rightarrow>
               if \<not> (pb_len b \<noteq> tot_len b \<or> pb_next b = None) then Some (Inl AssertFailed)
               else if PBUF_NEEDS_COPY b then Some (Inr True)
               else copy_needed_loop (pb_next b) s))"

text \<open>What a pending entry does with a packet: keep it, or a copy of it, in place of the one it had.\<close>

definition queue_packet :: "custom_free \<Rightarrow> nat \<Rightarrow> nat \<Rightarrow> 'a aworld_scheme \<Rightarrow> (int \<times> 'a aworld_scheme) run" where
  "queue_packet cf i q w =
     rbind (copy_needed_loop (Some q) (ew_pb w)) (\<lambda>copy_needed.
     rbind (if copy_needed then on_pb (pbuf_clone cf PBUF_LINK PBUF_RAM q) w
            else on_pb (\<lambda>s. Some (seq (pbuf_ref (Some q) s) (\<lambda>s. Inr (Some q, s)))) w) (\<lambda>(p, w).
       case p of
         None \<Rightarrow> Some (Inr (ERR_MEM, stats_inc ArpMemerr w))
       | Some p \<Rightarrow>
           rbind (arp_at i w) (\<lambda>e.
           rbind (case ae_q e of
               None \<Rightarrow> Some (Inr ((), w))
             | Some old \<Rightarrow> rbind (on_pb (pbuf_free cf (Some old)) w) (\<lambda>(_, w). Some (Inr ((), w)))) (\<lambda>(_, w).
             Some (Inr (ERR_OK, arp_set i (ae_q_update (\<lambda>_. Some p)) w))))))"

definition etharp_query ::
    "custom_free \<Rightarrow> linkoutput \<Rightarrow> nat option \<Rightarrow> u32 \<Rightarrow> nat option \<Rightarrow> 'a aworld_scheme \<Rightarrow> (int \<times> 'a aworld_scheme) run" where
  "etharp_query cf lo netif ipaddr q w =
     rbind (Some (seq (nonnull netif) (deref (ew_netif w)))) (\<lambda>n.
       if ip4_addr_isbroadcast_u32 ipaddr n \<or> ip4_addr_ismulticast ipaddr \<or> ipaddr = 0 then Some (Inr (ERR_ARG, w))
       else
         rbind (etharp_find_entry cf (Some ipaddr) ETHARP_FLAG_TRY_HARD netif w) (\<lambda>(i_err, w).
           if i_err < 0 then Some (Inr (i_err, if q \<noteq> None then stats_inc ArpMemerr w else w))
           else
             (let i = nat i_err
              in rbind (arp_at i w) (\<lambda>e.
                   let is_new_entry = (ae_state e = ETHARP_STATE_EMPTY);
                       w = (if is_new_entry then arp_set i (ae_netif_update (\<lambda>_. netif))
                              (arp_set i (ae_state_update (\<lambda>_. ETHARP_STATE_PENDING)) w) else w)
                   in rbind (if is_new_entry \<or> q = None then etharp_request cf lo netif ipaddr w else Some (Inr (ERR_MEM, w)))
                        (\<lambda>(result, w).
                          case q of
                            None \<Rightarrow> Some (Inr (result, w))
                          | Some q \<Rightarrow>
                              rbind (arp_at i w) (\<lambda>e.
                                if ETHARP_STATE_STABLE \<le> ae_state e then
                                  (let w = w\<lparr>etharp_cached_entry := i\<rparr>
                                   in ethernet_output lo netif q (nf_hwaddr n) (ae_ethaddr e) ETHTYPE_IP w)
                                else if ae_state e = ETHARP_STATE_PENDING then queue_packet cf i q w
                                else Some (Inr (result, w))))))))"

text \<open>The multicast address, and the loop over the stable entries.\<close>

definition mcastaddr :: "u32 \<Rightarrow> eth_addr" where
  "mcastaddr ipaddr = ETH_ADDR 0x01 0x00 0x5E (ip4_addr_get_byte ipaddr 1 AND 0x7F) (ip4_addr_get_byte ipaddr 2) (ip4_addr_get_byte ipaddr 3)"

definition stable_for :: "nat option \<Rightarrow> u32 \<Rightarrow> arp_entry \<Rightarrow> bool" where
  "stable_for netif dst_addr e \<longleftrightarrow> ETHARP_STATE_STABLE \<le> ae_state e \<and> ae_netif e = netif \<and> dst_addr = ae_ipaddr e"

fun output_loop :: "custom_free \<Rightarrow> linkoutput \<Rightarrow> nat option \<Rightarrow> nat \<Rightarrow> u32 \<Rightarrow> nat list \<Rightarrow> 'a aworld_scheme \<Rightarrow> (int \<times> 'a aworld_scheme) run" where
  "output_loop cf lo netif q dst_addr [] w = etharp_query cf lo netif dst_addr (Some q) w"
| "output_loop cf lo netif q dst_addr (i # is) w =
     rbind (arp_at i w) (\<lambda>e.
       if stable_for netif dst_addr e then etharp_output_to_arp_index cf lo netif q i (w\<lparr>etharp_cached_entry := i\<rparr>)
       else output_loop cf lo netif q dst_addr is w)"

definition etharp_output ::
    "custom_free \<Rightarrow> linkoutput \<Rightarrow> nat option \<Rightarrow> nat option \<Rightarrow> u32 \<Rightarrow> 'a aworld_scheme \<Rightarrow> (int \<times> 'a aworld_scheme) run" where
  "etharp_output cf lo netif q ipaddr w =
     rbind (Some (nonnull netif)) (\<lambda>i.
     rbind (Some (nonnull q)) (\<lambda>q.
     rbind (Some (deref (ew_netif w) i)) (\<lambda>n.
       if ip4_addr_isbroadcast_u32 ipaddr n then ethernet_output lo netif q (nf_hwaddr n) ethbroadcast ETHTYPE_IP w
       else if ip4_addr_ismulticast ipaddr then ethernet_output lo netif q (nf_hwaddr n) (mcastaddr ipaddr) ETHTYPE_IP w
       else
         (let outside = (\<not> ip4_addr_netcmp ipaddr (nf_ip_addr n) (nf_netmask n) \<and> \<not> ip4_addr_islinklocal ipaddr)
          in if outside \<and> nf_gw n = 0 then Some (Inr (ERR_RTE, w))
             else
               (let dst_addr = (if outside then nf_gw n else ipaddr)
                in rbind (arp_at (etharp_cached_entry w) w) (\<lambda>e.
                     if stable_for netif dst_addr e
                     then etharp_output_to_arp_index cf lo netif q (etharp_cached_entry w) (stats_inc ArpCachehit w)
                     else output_loop cf lo netif q dst_addr [0..<ARP_TABLE_SIZE] w))))))"

section \<open>Incoming packets\<close>

definition etharp_input :: "custom_free \<Rightarrow> linkoutput \<Rightarrow> nat \<Rightarrow> nat option \<Rightarrow> 'a aworld_scheme \<Rightarrow> (unit \<times> 'a aworld_scheme) run" where
  "etharp_input cf lo p netif w =
     (case netif of
        None \<Rightarrow> Some (Inr ((), w))
      | Some i \<Rightarrow>
          rbind (Some (deref (pw_buf (ew_pb w)) p)) (\<lambda>b.
            let hdr = payload b;
                s = ew_pb w
            in if hdr_hwtype hdr s \<noteq> lwip_htons LWIP_IANA_HWTYPE_ETHERNET \<or> hdr_hwlen hdr s \<noteq> ETH_HWADDR_LEN \<or>
                  hdr_protolen hdr s \<noteq> 4 \<or> hdr_proto hdr s \<noteq> lwip_htons ETHTYPE_IP then
                 rbind (on_pb (pbuf_free cf (Some p)) (stats_inc ArpDrop (stats_inc ArpProterr w))) (\<lambda>(_, w). Some (Inr ((), w)))
               else
                 (let w = stats_inc ArpRecv w;
                      sipaddr = hdr_sipaddr hdr s;
                      dipaddr = hdr_dipaddr hdr s;
                      shwaddr = hdr_shwaddr hdr s
                  in rbind (Some (deref (ew_netif w) i)) (\<lambda>n.
                     let for_us = (if nf_ip_addr n = 0 then False else dipaddr = nf_ip_addr n)
                     in rbind (etharp_update_arp_entry cf lo netif sipaddr shwaddr
                            (if for_us then ETHARP_FLAG_TRY_HARD else ETHARP_FLAG_FIND_ONLY) w) (\<lambda>(_, w).
                        let opcode = hdr_opcode hdr (ew_pb w)
                        in rbind
                          (if opcode = lwip_htons ARP_REQUEST then
                             (if for_us then
                                rbind (etharp_raw cf lo netif (nf_hwaddr n) shwaddr (nf_hwaddr n) (nf_ip_addr n) shwaddr sipaddr ARP_REPLY w)
                                  (\<lambda>(_, w). Some (Inr ((), w)))
                              else Some (Inr ((), w)))
                           else if opcode = lwip_htons ARP_REPLY then Some (Inr ((), w))
                           else Some (Inr ((), stats_inc ArpErr w))) (\<lambda>(_, w).
                        rbind (on_pb (pbuf_free cf (Some p)) w) (\<lambda>(_, w). Some (Inr ((), w)))))))))"

text \<open>\<^verbatim>\<open>ip4_input\<close> is the parameter \<open>ip4_input\<close>: it consumes the packet.\<close>

definition PBUF_FLAG_LLBCAST :: u8 where "PBUF_FLAG_LLBCAST = 0x08"
definition PBUF_FLAG_LLMCAST :: u8 where "PBUF_FLAG_LLMCAST = 0x10"

definition link_flags :: "eth_addr \<Rightarrow> u8 \<Rightarrow> u8" where
  "link_flags dest flags =
     (case dest of ETH_ADDR a0 a1 a2 _ _ _ \<Rightarrow>
        if a0 AND 1 \<noteq> 0 then
          (if a0 = 0x01 then (if a1 = 0x00 \<and> a2 = 0x5E then flags OR PBUF_FLAG_LLMCAST else flags)
           else if dest = ethbroadcast then flags OR PBUF_FLAG_LLBCAST
           else flags)
        else flags)"

definition ethernet_input ::
    "custom_free \<Rightarrow> linkoutput \<Rightarrow> (nat \<Rightarrow> nat option \<Rightarrow> 'a aworld_scheme \<Rightarrow> (unit \<times> 'a aworld_scheme) run) \<Rightarrow> nat \<Rightarrow> nat option \<Rightarrow>
     'a aworld_scheme \<Rightarrow> (int \<times> 'a aworld_scheme) run" where
  "ethernet_input cf lo ip4_input p netif w =
     (let free_and_return = (\<lambda>w. rbind (on_pb (pbuf_free cf (Some p)) w) (\<lambda>(_, w). Some (Inr (ERR_OK, w))))
      in rbind (Some (deref (pw_buf (ew_pb w)) p)) (\<lambda>b.
         rbind (Some (nonnull netif)) (\<lambda>i.
         rbind (Some (deref (ew_netif w) i)) (\<lambda>n.
           if pb_len b \<le> SIZEOF_ETH_HDR then
             free_and_return (stats_inc (IfInErrors i) (stats_inc ArpDrop (stats_inc ArpProterr w)))
           else
             (let b = (if if_idx b = 0 then b\<lparr>if_idx := netif_get_index n\<rparr> else b);
                  ethhdr = payload b;
                  type = rd_u16 (ethhdr + 12) (ew_pb w);
                  b = b\<lparr>pb_flags := link_flags (rd_eth ethhdr (ew_pb w)) (pb_flags b)\<rparr>;
                  w = w\<lparr>ew_pb := put p b (ew_pb w)\<rparr>
              in if type = lwip_htons ETHTYPE_IP then
                   (if nf_flags n AND NETIF_FLAG_ETHARP = 0 then free_and_return w
                    else rbind (on_pb (\<lambda>s. Some (pbuf_remove_header (Some p) SIZEOF_ETH_HDR s)) w) (\<lambda>(failed, w).
                      if failed \<noteq> 0 then free_and_return w
                      else rbind (ip4_input p netif w) (\<lambda>(_, w). Some (Inr (ERR_OK, w)))))
                 else if type = lwip_htons ETHTYPE_ARP then
                   (if nf_flags n AND NETIF_FLAG_ETHARP = 0 then free_and_return w
                    else rbind (on_pb (\<lambda>s. Some (pbuf_remove_header (Some p) SIZEOF_ETH_HDR s)) w) (\<lambda>(failed, w).
                      if failed \<noteq> 0 then free_and_return (stats_inc ArpDrop (stats_inc ArpLenerr w))
                      else rbind (etharp_input cf lo p netif w) (\<lambda>(_, w). Some (Inr (ERR_OK, w)))))
                 else free_and_return (stats_inc (IfInUnknownProtos i) (stats_inc ArpDrop (stats_inc ArpProterr w))))))))"

end
