(* ===== verification/LwArpFrames.thy ===== *)
theory LwArpFrames
  imports LwEtharp
begin

text \<open>
  How \<^verbatim>\<open>etharp.c\<close> uses packet buffers: the calls of \<^verbatim>\<open>pbuf.c\<close> it makes keep the buffers' run, what a call that returns means
  (\<open>returns\<close>), the frame \<^verbatim>\<open>ethernet_output\<close> hands to the driver, and the ARP packet \<^verbatim>\<open>etharp_raw\<close> builds.
\<close>

section \<open>Packet buffers, as their users see them\<close>

lemma run_inv: "pbuf_run cf s H \<Longrightarrow> \<exists>L. chains_inv s L H"
  by (rule pbuf_run_inv)

lemma run_live: "pbuf_run cf s H \<Longrightarrow> p \<in># H \<Longrightarrow> \<exists>b. pw_buf s p = Some b"
  using pbuf_run_inv chains_inv_live by blast

lemma run_alloc:
  assumes "pbuf_run cf s H" "n < 65536" "l \<le> 54"
  shows "\<exists>r s'. pbuf_alloc cf l n PBUF_RAM s = Some (Inr (r, s')) \<and> pbuf_run cf s' (handed r H) \<and> pw_byte s' = pw_byte s \<and>
    (case r of None \<Rightarrow> pw_buf s' = pw_buf s
     | Some p \<Rightarrow> pw_buf s p = None \<and> (\<exists>a. p + 16 + l \<le> a \<and> pw_buf s' = (pw_buf s)(p \<mapsto>
         \<lparr>pb_next = None, payload = a, tot_len = n, pb_len = n, type_internal = 0x80, pb_flags = 0, pb_ref = 1, if_idx = 0\<rparr>)))"
proof -
  obtain L where i: "chains_inv s L H" using pbuf_run_inv [OF assms(1)] by blast
  obtain r s' L' where a: "pbuf_alloc cf l n PBUF_RAM s = Some (Inr (r, s'))" "chains_inv s' L' (handed r H)"
    using alloc_ram_ok [OF i assms(2,3)] by blast
  have run: "pbuf_run cf s' (handed r H)" by (rule pbuf_run.alloc [OF assms(1,2,3) _ a(1)]) simp
  have f: "pw_byte s' = pw_byte s \<and> (case r of None \<Rightarrow> pw_buf s' = pw_buf s
     | Some p \<Rightarrow> pw_buf s' = (pw_buf s)(p \<mapsto> \<lparr>pb_next = None, payload = LWIP_MEM_ALIGN (p + 16 + l), tot_len = n, pb_len = n,
         type_internal = 0x80, pb_flags = 0, pb_ref = 1, if_idx = 0\<rparr>))"
    using a(1) assms(3)
    by (auto simp: pbuf_alloc_def Let_def rbind_def pbuf_init_alloced_pbuf_def put_def SIZEOF_STRUCT_PBUF_def
        split: option.splits sum.splits prod.splits if_splits)
  have fresh: "pw_buf s p = None" if r: "r = Some p" for p
  proof (rule ccontr)
    assume "pw_buf s p \<noteq> None"
    then obtain b where b: "pw_buf s p = Some b" by auto
    have s': "pw_buf s' p = Some \<lparr>pb_next = None, payload = LWIP_MEM_ALIGN (p + 16 + l), tot_len = n, pb_len = n,
         type_internal = 0x80, pb_flags = 0, pb_ref = 1, if_idx = 0\<rparr>" using f r by simp
    have "pb_ref b = count H p + card (pointers {} s p) \<and> 0 < pb_ref b"
      using refs_okD(1) [OF _ b] i by (auto simp: chains_inv_def)
    moreover have "1 = count (add_mset p H) p + card (pointers {} s' p)"
      using refs_okD(1) [OF _ s', of "{}" "add_mset p H"] a(2) r by (auto simp: chains_inv_def)
    ultimately have "count H p = 0" "card (pointers {} s' p) = 0" "0 < card (pointers {} s p)" by simp_all
    then obtain q where q: "(q, p) \<in> edges s" by (auto simp: pointers_def card_gt_0_iff)
    have "q \<noteq> p"
    proof
      assume "q = p"
      then show False using q i unfolding chains_inv_def acyclic_def by blast
    qed
    then have "(q, p) \<in> edges s'" using q f r by (auto simp: edges_def)
    moreover have "finite (pointers {} s' p)"
    proof -
      have "finite (dom (pw_buf s'))" using a(2) world_finite by (auto simp: chains_inv_def)
      then show ?thesis by (rule rev_finite_subset) (auto simp: pointers_def edges_def)
    qed
    ultimately show False using \<open>card (pointers {} s' p) = 0\<close> by (auto simp: pointers_def)
  qed
  have "p + 16 + l \<le> LWIP_MEM_ALIGN (p + 16 + l)" for p by (rule align_ge(1))
  then have "case r of None \<Rightarrow> pw_buf s' = pw_buf s
     | Some p \<Rightarrow> pw_buf s p = None \<and> (\<exists>a. p + 16 + l \<le> a \<and> pw_buf s' = (pw_buf s)(p \<mapsto>
         \<lparr>pb_next = None, payload = a, tot_len = n, pb_len = n, type_internal = 0x80, pb_flags = 0, pb_ref = 1, if_idx = 0\<rparr>))"
    using f fresh by (auto split: option.splits)
  then show ?thesis using a(1) run f by blast
qed

lemma run_free:
  assumes "pbuf_run cf s (add_mset p H)"
  shows "\<exists>n s'. pbuf_free cf (Some p) s = Some (Inr (n, s')) \<and> pbuf_run cf s' H \<and> only_freed s s'"
proof -
  obtain L where i: "chains_inv s L (add_mset p H)" using pbuf_run_inv [OF assms] by blast
  obtain n s' where s': "pbuf_free cf (Some p) s = Some (Inr (n, s'))" "only_freed s s'" using free_ok [OF i, of cf] by blast
  then show ?thesis using pbuf_run.free [OF assms s'(1)] by blast
qed

lemma run_free_single:
  assumes "pbuf_run cf s (add_mset p H)" "pw_buf s p = Some b" "pb_ref b = 1" "pb_next b = None"
  shows "\<exists>n s'. pbuf_free cf (Some p) s = Some (Inr (n, s')) \<and> pbuf_run cf s' H \<and> pw_buf s' = (pw_buf s)(p := None) \<and> pw_byte s' = pw_byte s"
proof -
  obtain L where i: "chains_inv s L (add_mset p H)" using pbuf_run_inv [OF assms(1)] by blast
  then have w: "world_inv s L" by (simp add: chains_inv_def)
  have c: "chain_of s (Some p) [p]" "count_of s p = 1" using assms(2-4) by (simp_all add: count_of_def)
  obtain s' L' where s': "pbuf_free_loop cf (Some p) 0 s = Some (Inr (1, s'))" "pw_buf s' = released [p] s" "pw_byte s' = pw_byte s"
    using free_loop_chain [OF w c(1), of 0 cf] c(2) by (auto simp: u8c_def)
  have "pbuf_free cf (Some p) s = Some (Inr (1, s'))" using s'(1) by (simp add: pbuf_free_def)
  then show ?thesis using pbuf_run.free [OF assms(1)] s'(2,3) c(2) by (auto simp: released_def fun_eq_iff)
qed

lemma run_add_header:
  assumes "pbuf_run cf s H" "p \<in># H" "0 < d" "d < 65536"
  shows "\<exists>b n s'. pw_buf s p = Some b \<and> pbuf_add_header (Some p) d s = Inr (n, s') \<and> pbuf_run cf s' H \<and> pw_byte s' = pw_byte s \<and>
    (if n = 0 then p + 16 + d \<le> payload b \<and>
       pw_buf s' = (pw_buf s)(p \<mapsto> b\<lparr>payload := payload b - d, pb_len := u16c (pb_len b + d), tot_len := u16c (tot_len b + d)\<rparr>)
     else s' = s)"
proof -
  obtain b where b: "pw_buf s p = Some b" using run_live [OF assms(1,2)] by blast
  have "\<exists>n s'. pbuf_add_header (Some p) d s = Inr (n, s') \<and> pw_byte s' = pw_byte s \<and>
    (if n = 0 then p + 16 + d \<le> payload b \<and>
       pw_buf s' = (pw_buf s)(p \<mapsto> b\<lparr>payload := payload b - d, pb_len := u16c (pb_len b + d), tot_len := u16c (tot_len b + d)\<rparr>)
     else s' = s)"
    using b assms(3,4)
    by (auto simp: pbuf_add_header_def pbuf_add_header_impl_def deref_def Let_def put_def SIZEOF_STRUCT_PBUF_def nat_diff_distrib')
  then obtain n s' where r: "pbuf_add_header (Some p) d s = Inr (n, s')" "pw_byte s' = pw_byte s"
    "if n = 0 then p + 16 + d \<le> payload b \<and>
       pw_buf s' = (pw_buf s)(p \<mapsto> b\<lparr>payload := payload b - d, pb_len := u16c (pb_len b + d), tot_len := u16c (tot_len b + d)\<rparr>)
     else s' = s" by blast
  have "pbuf_run cf s' H" using pbuf_run.add_header [OF assms(1,2)] r(1) by (simp add: pbuf_add_header_def)
  then show ?thesis using b r by blast
qed

section \<open>Calls that return\<close>

text \<open>A call returns, without a fault, and its result satisfies \<open>P\<close>.\<close>

definition returns :: "'a run \<Rightarrow> ('a \<Rightarrow> bool) \<Rightarrow> bool" where
  "returns m P \<longleftrightarrow> (case m of Some (Inr a) \<Rightarrow> P a | _ \<Rightarrow> False)"

lemma returns_simps [simp]: "returns (Some (Inr a)) P \<longleftrightarrow> P a" "\<not> returns (Some (Inl e)) P" "\<not> returns None P"
  by (simp_all add: returns_def)

lemma returns_iff: "returns m P \<longleftrightarrow> (\<exists>a. m = Some (Inr a) \<and> P a)"
  by (auto simp: returns_def split: option.splits sum.splits)

lemma returns_bind: "returns m Q \<Longrightarrow> (\<And>a. Q a \<Longrightarrow> returns (f a) P) \<Longrightarrow> returns (rbind m f) P"
  by (auto simp: returns_iff)

lemma returns_mono: "returns m Q \<Longrightarrow> (\<And>a. Q a \<Longrightarrow> P a) \<Longrightarrow> returns m P"
  by (auto simp: returns_iff)

lemma returns_pairE: "returns m (\<lambda>(r, w). P r w) \<Longrightarrow> (\<And>r w. m = Some (Inr (r, w)) \<Longrightarrow> P r w \<Longrightarrow> thesis) \<Longrightarrow> thesis"
  by (auto simp: returns_iff)

lemma returns_bind_iff: "returns (rbind m f) P \<longleftrightarrow> returns m (\<lambda>a. returns (f a) P)"
  by (cases m rule: option.exhaust; cases "the m") (auto simp: returns_def rbind_def)

text \<open>What only buffers, statistics and frames tell apart.\<close>

definition io_same :: "'a eworld_scheme \<Rightarrow> 'a eworld_scheme \<Rightarrow> bool" where
  "io_same w w' \<longleftrightarrow> (\<exists>s st fr. w' = w\<lparr>ew_pb := s, ew_stats := st, ew_sent := fr\<rparr>)"

lemma io_same_refl [simp]: "io_same w w"
  unfolding io_same_def by (intro exI [of _ "ew_pb w"] exI [of _ "ew_stats w"] exI [of _ "ew_sent w"]) simp

lemma io_same_trans: "io_same w w' \<Longrightarrow> io_same w' w'' \<Longrightarrow> io_same w w''"
  unfolding io_same_def by (elim exE) (auto intro!: exI)

lemma io_same_simps [simp]: "io_same w (w\<lparr>ew_pb := s\<rparr>)" "io_same w (stats_inc c w)" "io_same w (w\<lparr>ew_sent := fr\<rparr>)"
  unfolding io_same_def stats_inc_def
  subgoal by (intro exI [of _ s] exI [of _ "ew_stats w"] exI [of _ "ew_sent w"]) simp
  subgoal by (intro exI [of _ "ew_pb w"] exI exI [of _ "ew_sent w"]) simp
  subgoal by (intro exI [of _ "ew_pb w"] exI [of _ "ew_stats w"] exI [of _ fr]) simp
  done

lemma io_same_steps [simp]:
  "io_same w w' \<Longrightarrow> io_same w (w'\<lparr>ew_pb := s\<rparr>)" "io_same w w' \<Longrightarrow> io_same w (stats_inc c w')" "io_same w w' \<Longrightarrow> io_same w (w'\<lparr>ew_sent := fr\<rparr>)"
  using io_same_trans io_same_simps by blast+

lemma io_same_fields:
  "io_same w w' \<Longrightarrow> ew_netif w' = ew_netif w \<and> netif_list w' = netif_list w \<and> netif_default w' = netif_default w"
  by (auto simp: io_same_def)

lemma io_same_arp: "io_same w w' \<Longrightarrow> arp_table w' = arp_table w \<and> etharp_cached_entry w' = etharp_cached_entry w"
  by (auto simp: io_same_def)

lemma stats_inc_fields [simp]:
  "ew_pb (stats_inc c w) = ew_pb w" "ew_netif (stats_inc c w) = ew_netif w" "ew_sent (stats_inc c w) = ew_sent w"
  "netif_list (stats_inc c w) = netif_list w" "netif_default (stats_inc c w) = netif_default w"
  by (simp_all add: stats_inc_def)

lemma stats_inc_arp [simp]: "arp_table (stats_inc c w) = arp_table w" "etharp_cached_entry (stats_inc c w) = etharp_cached_entry w"
  by (simp_all add: stats_inc_def)

lemma on_pb_returns: "returns (on_pb f w) P \<longleftrightarrow> returns (f (ew_pb w)) (\<lambda>(r, s). P (r, w\<lparr>ew_pb := s\<rparr>))"
  by (simp add: on_pb_def returns_bind_iff case_prod_unfold)

section \<open>Bytes\<close>

lemma htons_bytes: "u16_bytes (lwip_htons v) = [ucast (drop_bit 8 v), ucast v]"
proof -
  have m: "(0x00FF :: u16) = mask 8" "(0xFF00 :: u16) = push_bit 8 (mask 8)" by (simp_all add: mask_eq_exp_minus_1)
  show ?thesis unfolding u16_bytes_def lwip_htons_def m by (auto simp: bit_eq_iff bit_simps)
qed

lemma eth_bytes_length [simp]: "length (eth_bytes e) = 6"
  by (cases e) (simp add: eth_bytes_def)

lemma bytes32_length [simp]: "length (bytes32 a) = 4"
  by (simp add: bytes32_def)

definition frame_header :: "eth_addr \<Rightarrow> eth_addr \<Rightarrow> u16 \<Rightarrow> u8 list" where
  "frame_header dst src type = eth_bytes dst @ eth_bytes src @ [ucast (drop_bit 8 type), ucast type]"

lemma frame_header_length [simp]: "length (frame_header dst src type) = 14"
  by (simp add: frame_header_def)

lemma load_store: "map (pw_byte (store_bytes a xs s)) [a..<a + length xs] = xs"
  using store_span [of xs "length xs" a s] by simp

lemma store_cong: "pw_byte s = pw_byte t \<Longrightarrow> pw_byte (store_bytes a xs s) = pw_byte (store_bytes a xs t)"
  by (simp add: store_bytes_def fun_eq_iff)

lemma store_twice:
  "store_bytes (a + length xs) ys (store_bytes a xs s) = store_bytes a (xs @ ys) s"
  by (auto simp: store_bytes_def fun_eq_iff nth_append intro!: arg_cong [where f = "\<lambda>m. s\<lparr>pw_byte := m\<rparr>"])

lemma store_swap:
  assumes "a + length xs \<le> b \<or> b + length ys \<le> a"
  shows "store_bytes a xs (store_bytes b ys s) = store_bytes b ys (store_bytes a xs s)"
  using assms by (auto simp: store_bytes_def fun_eq_iff intro!: arg_cong [where f = "\<lambda>m. s\<lparr>pw_byte := m\<rparr>"])

lemma pbuf_run_store: "pbuf_run cf s H \<Longrightarrow> pbuf_run cf (store_bytes a xs s) H"
  by (simp add: store_bytes_def pbuf_run.bytes)

lemma header_stores:
  "store_bytes (a + 6) (eth_bytes src) (store_bytes a (eth_bytes dst) (store_bytes (a + 12) (u16_bytes (lwip_htons type)) s)) =
    store_bytes a (frame_header dst src type) s"
proof -
  have l: "length (u16_bytes v) = 2" for v by (simp add: u16_bytes_def)
  have "store_bytes (a + 6) (eth_bytes src) (store_bytes a (eth_bytes dst) (store_bytes (a + 12) (u16_bytes (lwip_htons type)) s)) =
     store_bytes (a + 12) (u16_bytes (lwip_htons type)) (store_bytes (a + 6) (eth_bytes src) (store_bytes a (eth_bytes dst) s))"
    using store_swap [of a "eth_bytes dst" "a + 12" "u16_bytes (lwip_htons type)" s]
      store_swap [of "a + 6" "eth_bytes src" "a + 12" "u16_bytes (lwip_htons type)"] by (simp add: l)
  also have "\<dots> = store_bytes a (frame_header dst src type) s"
    using store_twice [of a "eth_bytes dst" "eth_bytes src" s]
      store_twice [of a "eth_bytes dst @ eth_bytes src" "u16_bytes (lwip_htons type)" s]
    by (simp add: frame_header_def htons_bytes)
  finally show ?thesis .
qed

section \<open>Frames\<close>

text \<open>The buffer after its header was put in front of the data.\<close>

definition framed :: "pbuf \<Rightarrow> pbuf" where
  "framed b = b\<lparr>payload := payload b - 14, pb_len := u16c (pb_len b + 14), tot_len := u16c (tot_len b + 14)\<rparr>"

definition frame_of :: "nat \<Rightarrow> nat \<Rightarrow> eth_addr \<Rightarrow> eth_addr \<Rightarrow> u16 \<Rightarrow> pworld \<Rightarrow> pworld \<Rightarrow> bool" where
  "frame_of p a dst src type s s' \<longleftrightarrow> pw_buf s' = (pw_buf s)(p := map_option framed (pw_buf s p)) \<and>
     pw_byte s' = pw_byte (store_bytes (a - 14) (frame_header dst src type) s)"

lemma header_fits:
  assumes "pw_buf s p = Some b" "tot_len b < 65536" "pbuf_add_header (Some p) 14 s = Inr (k, s')"
  shows "k = 0 \<longleftrightarrow> p + 30 \<le> payload b \<and> type_internal b AND 0x80 \<noteq> 0 \<and> tot_len b < 65522"
proof -
  have "u16c (u16c 14 + tot_len b) < u16c 14 \<longleftrightarrow> \<not> tot_len b < 65522" using assms(2) u16c_wrap [of "14 + tot_len b"] by (cases "tot_len b < 65522") simp_all
  then show ?thesis using assms(1,3)
    by (auto simp: pbuf_add_header_def pbuf_add_header_impl_def deref_def Let_def SIZEOF_STRUCT_PBUF_def split: if_splits)
qed

lemma ethernet_output_ok:
  assumes "pbuf_run cf (ew_pb w) G" "p \<in># G" "ew_netif w i = Some n" "nf_hwaddr_len n = 6"
  shows "\<exists>b. pw_buf (ew_pb w) p = Some b \<and> returns (ethernet_output lo (Some i) p src dst type w) (\<lambda>(r, w').
    pbuf_run cf (ew_pb w') G \<and> io_same w w' \<and>
    (if p + 30 \<le> payload b \<and> type_internal b AND 0x80 \<noteq> 0 \<and> tot_len b < 65522 then
       (\<exists>fr. frame_of p (payload b) dst src type (ew_pb w) (fr_world fr) \<and> fr_netif fr = i \<and> fr_pbuf fr = p \<and>
         r = lo (ew_sent w) fr \<and> ew_sent w' = ew_sent w @ [fr] \<and> ew_pb w' = fr_world fr)
     else r = ERR_BUF \<and> ew_sent w' = ew_sent w \<and> ew_pb w' = ew_pb w))"
proof -
  obtain b k s' where h: "pw_buf (ew_pb w) p = Some b" "pbuf_add_header (Some p) 14 (ew_pb w) = Inr (k, s')" "pbuf_run cf s' G"
    "pw_byte s' = pw_byte (ew_pb w)" "if k = 0 then p + 16 + 14 \<le> payload b \<and>
       pw_buf s' = (pw_buf (ew_pb w))(p \<mapsto> b\<lparr>payload := payload b - 14, pb_len := u16c (pb_len b + 14), tot_len := u16c (tot_len b + 14)\<rparr>)
     else s' = ew_pb w"
    using run_add_header [OF assms(1,2), of 14] by auto
  obtain L where "chains_inv (ew_pb w) L G" using pbuf_run_inv [OF assms(1)] by blast
  then have t: "tot_len b < 65536" using chains_inv_buf h(1) by (auto simp: buf_ok_def)
  have k: "k = 0 \<longleftrightarrow> p + 30 \<le> payload b \<and> type_internal b AND 0x80 \<noteq> 0 \<and> tot_len b < 65522"
    using header_fits [OF h(1) t h(2)] .
  show ?thesis
  proof (cases "k = 0")
    case True
    have b': "pw_buf s' p = Some (framed b)" and up: "pw_buf s' = (pw_buf (ew_pb w))(p \<mapsto> framed b)" using h(5) True by (simp_all add: framed_def)
    define s2 where "s2 = store_bytes (payload b - 14) (frame_header dst src type) s'"
    define fr where "fr = \<lparr>fr_netif = i, fr_pbuf = p, fr_world = s2\<rparr>"
    have f: "frame_of p (payload b) dst src type (ew_pb w) s2"
      unfolding frame_of_def s2_def using h(1,4) up by (simp add: store_bytes_def fun_eq_iff)
    have io: "io_same w (w\<lparr>ew_pb := s2, ew_sent := ew_sent w @ [fr]\<rparr>)"
      using io_same_trans [OF io_same_simps(1) io_same_simps(3)] by blast
    have hd: "payload (framed b) = payload b - 14" by (simp add: framed_def)
    have "ethernet_output lo (Some i) p src dst type w = Some (Inr (lo (ew_sent w) fr, w\<lparr>ew_pb := s2, ew_sent := ew_sent w @ [fr]\<rparr>))"
      unfolding ethernet_output_def Let_def on_pb_def SIZEOF_ETH_HDR_def h(2)
      using b' assms(3,4) True by (simp add: header_stores hd ETH_HWADDR_LEN_def s2_def fr_def)
    moreover have "pbuf_run cf s2 G" unfolding s2_def by (rule pbuf_run_store [OF h(3)])
    ultimately show ?thesis using h(1) k True f io by (auto simp: fr_def)
  next
    case False
    have "ethernet_output lo (Some i) p src dst type w = Some (Inr (ERR_BUF, stats_inc LinkLenerr (w\<lparr>ew_pb := s'\<rparr>)))"
      unfolding ethernet_output_def Let_def on_pb_def SIZEOF_ETH_HDR_def h(2) using False by simp
    moreover have "w\<lparr>ew_pb := s'\<rparr> = w" using h(5) False by simp
    ultimately show ?thesis using h(1) k False assms(1) by auto
  qed
qed

section \<open>ARP packets\<close>

definition arp_bytes :: "u16 \<Rightarrow> eth_addr \<Rightarrow> u32 \<Rightarrow> eth_addr \<Rightarrow> u32 \<Rightarrow> u8 list" where
  "arp_bytes opcode sha spa tha tpa = [0, 1, 8, 0, 6, 4, ucast (drop_bit 8 opcode), ucast opcode] @ eth_bytes sha @ bytes32 spa @ eth_bytes tha @ bytes32 tpa"

lemma arp_bytes_length [simp]: "length (arp_bytes opcode sha spa tha tpa) = 28"
  by (simp add: arp_bytes_def)

lemma arp_stores:
  "store_bytes (hdr + 5) [4] (store_bytes (hdr + 4) [ETH_HWADDR_LEN] (store_bytes (hdr + 2) (u16_bytes (lwip_htons ETHTYPE_IP))
    (store_bytes hdr (u16_bytes (lwip_htons LWIP_IANA_HWTYPE_ETHERNET)) (store_bytes (hdr + 24) (bytes32 tpa) (store_bytes (hdr + 14) (bytes32 spa)
    (store_bytes (hdr + 18) (eth_bytes tha) (store_bytes (hdr + 8) (eth_bytes sha) (store_bytes (hdr + 6) (u16_bytes (lwip_htons opcode)) s)))))))) =
    store_bytes hdr (arp_bytes opcode sha spa tha tpa) s" (is "?l = ?r")
proof -
  have c: "u16_bytes (lwip_htons ETHTYPE_IP) = [8, 0]" "u16_bytes (lwip_htons LWIP_IANA_HWTYPE_ETHERNET) = [0, 1]"
    by (simp_all add: htons_bytes ETHTYPE_IP_def LWIP_IANA_HWTYPE_ETHERNET_def)
  have "pw_byte ?l i = pw_byte ?r i" for i
  proof (cases "hdr \<le> i \<and> i < hdr + 28")
    case False
    then show ?thesis by (auto simp: store_bytes_def htons_bytes ETH_HWADDR_LEN_def)
  next
    case True
    then obtain k where k: "i = hdr + k" "k < 28" by (metis add.commute add_less_cancel_left le_Suc_ex)
    obtain a b c d e f where sha: "sha = ETH_ADDR a b c d e f" by (cases sha)
    obtain a' b' c' d' e' f' where tha: "tha = ETH_ADDR a' b' c' d' e' f'" by (cases tha)
    have "k \<in> {0, 1, 2, 3, 4, 5, 6, 7, 8, 9, 10, 11, 12, 13, 14, 15, 16, 17, 18, 19, 20, 21, 22, 23, 24, 25, 26, 27}"
      using k(2) by (simp add: less_Suc_eq numeral_eq_Suc)
    then show ?thesis
      unfolding k(1) c sha tha
      by (elim insertE emptyE) (simp_all add: store_bytes_def htons_bytes arp_bytes_def eth_bytes_def bytes32_def ETH_HWADDR_LEN_def)
  qed
  then have "pw_byte ?l = pw_byte ?r" by (rule ext)
  then show ?thesis by (simp add: store_bytes_def)
qed

lemma etharp_raw_ok:
  assumes "pbuf_run cf (ew_pb w) G" "ew_netif w i = Some n" "nf_hwaddr_len n = 6"
  shows "returns (etharp_raw cf lo (Some i) ethsrc ethdst sha spa tha tpa opcode w) (\<lambda>(r, w').
    pbuf_run cf (ew_pb w') G \<and> io_same w w' \<and> pw_buf (ew_pb w') = pw_buf (ew_pb w) \<and>
    (r = ERR_MEM \<and> ew_sent w' = ew_sent w \<and> pw_byte (ew_pb w') = pw_byte (ew_pb w) \<or>
     r = ERR_OK \<and> (\<exists>fr a. ew_sent w' = ew_sent w @ [fr] \<and> fr_netif fr = i \<and> packet (fr_world fr) (fr_pbuf fr) [fr_pbuf fr] \<and>
       content (fr_world fr) [fr_pbuf fr] = frame_header ethdst ethsrc ETHTYPE_ARP @ arp_bytes opcode sha spa tha tpa \<and>
       pw_byte (ew_pb w') = pw_byte (fr_world fr) \<and>
       pw_byte (fr_world fr) = pw_byte (store_bytes a (frame_header ethdst ethsrc ETHTYPE_ARP @ arp_bytes opcode sha spa tha tpa) (ew_pb w)))))"
proof -
  obtain r s where a: "pbuf_alloc cf PBUF_LINK SIZEOF_ETHARP_HDR PBUF_RAM (ew_pb w) = Some (Inr (r, s))" "pbuf_run cf s (handed r G)"
    "pw_byte s = pw_byte (ew_pb w)" "case r of None \<Rightarrow> pw_buf s = pw_buf (ew_pb w)
     | Some p \<Rightarrow> pw_buf (ew_pb w) p = None \<and> (\<exists>a. p + 16 + 14 \<le> a \<and> pw_buf s = (pw_buf (ew_pb w))(p \<mapsto>
         \<lparr>pb_next = None, payload = a, tot_len = 28, pb_len = 28, type_internal = 0x80, pb_flags = 0, pb_ref = 1, if_idx = 0\<rparr>))"
    using run_alloc [OF assms(1), of 28 14] unfolding SIZEOF_ETHARP_HDR_def by auto
  show ?thesis
  proof (cases r)
    case None
    then show ?thesis using a by (simp add: etharp_raw_def on_pb_def)
  next
    case (Some p)
    then have "pw_buf (ew_pb w) p = None" "\<exists>ad. p + 16 + 14 \<le> ad \<and> pw_buf s = (pw_buf (ew_pb w))(p \<mapsto>
         \<lparr>pb_next = None, payload = ad, tot_len = 28, pb_len = 28, type_internal = 0x80, pb_flags = 0, pb_ref = 1, if_idx = 0\<rparr>)"
      using a(4) by simp_all
    then obtain ad where p: "pw_buf (ew_pb w) p = None" "p + 16 + 14 \<le> ad" and up: "pw_buf s = (pw_buf (ew_pb w))(p \<mapsto>
         \<lparr>pb_next = None, payload = ad, tot_len = 28, pb_len = 28, type_internal = 0x80, pb_flags = 0, pb_ref = 1, if_idx = 0\<rparr>)"
      by blast
    define b where "b = \<lparr>pb_next = None, payload = ad, tot_len = 28, pb_len = 28, type_internal = 0x80, pb_flags = 0, pb_ref = 1, if_idx = 0\<rparr>"
    define s1 where "s1 = store_bytes ad (arp_bytes opcode sha spa tha tpa) s"
    have run1: "pbuf_run cf s1 (add_mset p G)" unfolding s1_def using a(2) Some by (simp add: pbuf_run_store)
    have buf1: "pw_buf s1 p = Some b" "pw_buf s1 = (pw_buf (ew_pb w))(p \<mapsto> b)" by (simp_all add: s1_def up b_def)
    let ?w1 = "w\<lparr>ew_pb := s1\<rparr>"
    have out: "returns (ethernet_output lo (Some i) p ethsrc ethdst ETHTYPE_ARP ?w1) (\<lambda>(r, w').
      pbuf_run cf (ew_pb w') (add_mset p G) \<and> io_same ?w1 w' \<and> (\<exists>fr. frame_of p ad ethdst ethsrc ETHTYPE_ARP s1 (fr_world fr) \<and>
        fr_netif fr = i \<and> fr_pbuf fr = p \<and> ew_sent w' = ew_sent w @ [fr] \<and> ew_pb w' = fr_world fr))"
    proof -
      have g: "pbuf_run cf (ew_pb ?w1) (add_mset p G)" "p \<in># add_mset p G" "ew_netif ?w1 i = Some n" using run1 assms(2) by simp_all
      show ?thesis
        using ethernet_output_ok [OF g assms(3), of lo ethsrc ethdst ETHTYPE_ARP] buf1(1) p(2)
        by (auto simp: b_def elim!: returns_mono)
    qed
    then obtain r' w' where o1: "ethernet_output lo (Some i) p ethsrc ethdst ETHTYPE_ARP ?w1 = Some (Inr (r', w'))"
      and o2: "pbuf_run cf (ew_pb w') (add_mset p G) \<and> io_same ?w1 w' \<and> (\<exists>fr. frame_of p ad ethdst ethsrc ETHTYPE_ARP s1 (fr_world fr) \<and>
        fr_netif fr = i \<and> fr_pbuf fr = p \<and> ew_sent w' = ew_sent w @ [fr] \<and> ew_pb w' = fr_world fr)"
      by (rule returns_pairE)
    then obtain fr where o: "ethernet_output lo (Some i) p ethsrc ethdst ETHTYPE_ARP ?w1 = Some (Inr (r', w'))"
      "pbuf_run cf (ew_pb w') (add_mset p G)" "io_same ?w1 w'" "frame_of p ad ethdst ethsrc ETHTYPE_ARP s1 (fr_world fr)"
      "fr_netif fr = i" "fr_pbuf fr = p" "ew_sent w' = ew_sent w @ [fr]" "ew_pb w' = fr_world fr" by blast
    have bf: "pw_buf (fr_world fr) p = Some (framed b)" using o(4) buf1(1) by (simp add: frame_of_def)
    obtain k s2 where f: "pbuf_free cf (Some p) (ew_pb w') = Some (Inr (k, s2))" "pbuf_run cf s2 G"
      "pw_buf s2 = (pw_buf (ew_pb w'))(p := None)" "pw_byte s2 = pw_byte (ew_pb w')"
      using run_free_single [OF o(2), of "framed b"] bf o(8) by (auto simp: framed_def b_def)
    have "pw_buf s2 = pw_buf (ew_pb w)"
      using f(3) o(4,8) buf1(2) p(1) by (auto simp: frame_of_def fun_eq_iff)
    moreover have run: "etharp_raw cf lo (Some i) ethsrc ethdst sha spa tha tpa opcode w = Some (Inr (ERR_OK, (stats_inc ArpXmit w')\<lparr>ew_pb := s2\<rparr>))"
      using a(1) Some up o(1) f(1) assms(2,3)
      by (simp add: etharp_raw_def on_pb_def deref_def Let_def SIZEOF_ETHARP_HDR_def arp_stores s1_def ETH_HWADDR_LEN_def [symmetric] del: add_2_eq_Suc')
    moreover have "io_same w ((stats_inc ArpXmit w')\<lparr>ew_pb := s2\<rparr>)"
      by (rule io_same_trans [OF io_same_trans [OF io_same_simps(1) o(3)] io_same_trans [OF io_same_simps(2) io_same_simps(1)]])
    moreover have bts: "pw_byte (fr_world fr) = pw_byte (store_bytes (ad - 14) (frame_header ethdst ethsrc ETHTYPE_ARP @ arp_bytes opcode sha spa tha tpa) (ew_pb w))"
    proof -
      have s: "s1 = store_bytes (ad - 14 + length (frame_header ethdst ethsrc ETHTYPE_ARP)) (arp_bytes opcode sha spa tha tpa) s"
        using p(2) by (simp add: s1_def)
      have "store_bytes (ad - 14) (frame_header ethdst ethsrc ETHTYPE_ARP) s1 =
        store_bytes (ad - 14 + length (frame_header ethdst ethsrc ETHTYPE_ARP)) (arp_bytes opcode sha spa tha tpa)
          (store_bytes (ad - 14) (frame_header ethdst ethsrc ETHTYPE_ARP) s)"
        unfolding s by (rule store_swap) simp
      also have "\<dots> = store_bytes (ad - 14) (frame_header ethdst ethsrc ETHTYPE_ARP @ arp_bytes opcode sha spa tha tpa) s"
        by (rule store_twice)
      finally show ?thesis using o(4) store_cong [OF a(3)] by (simp add: frame_of_def)
    qed
    moreover have pk: "packet (fr_world fr) p [p]" using bf by (simp add: packet_def framed_def b_def span_def)
    moreover have "content (fr_world fr) [p] = frame_header ethdst ethsrc ETHTYPE_ARP @ arp_bytes opcode sha spa tha tpa"
    proof -
      have "span (fr_world fr) p = [ad - 14..<ad - 14 + length (frame_header ethdst ethsrc ETHTYPE_ARP @ arp_bytes opcode sha spa tha tpa)]"
        using bf by (simp add: span_def framed_def b_def)
      then show ?thesis by (simp add: bts load_store del: length_append)
    qed
    ultimately show ?thesis using f(2,4) o(5-8)
      unfolding run returns_simps split by (intro conjI disjI2 exI [of _ fr] exI [of _ "ad - 14"]) simp_all
  qed
qed

end
