(* ===== verification/LwArpTable.thy ===== *)
theory LwArpTable
  imports LwArpFrames
begin

text \<open>
  The table of \<^verbatim>\<open>etharp.c\<close>: its invariant, the search that picks an entry (\<^verbatim>\<open>etharp_find_entry\<close>), learning an address
  (\<^verbatim>\<open>etharp_update_arp_entry\<close>), and the cache as a map from an address on an interface to a hardware address.
\<close>

section \<open>The invariant of the cache\<close>

definition ether :: "(nat \<rightharpoonup> eth_netif) \<Rightarrow> nat option \<Rightarrow> bool" where
  "ether nf p \<longleftrightarrow> (\<exists>i n. p = Some i \<and> nf i = Some n \<and> nf_hwaddr_len n = 6)"

definition nonempty :: "arp_entry \<Rightarrow> bool" where
  "nonempty e \<longleftrightarrow> ae_state e \<noteq> ETHARP_STATE_EMPTY"

text \<open>
  Only pending entries queue a packet; an entry in use names an Ethernet interface, and its age has not reached the limit.
\<close>

definition entry_ok :: "(nat \<rightharpoonup> eth_netif) \<Rightarrow> arp_entry \<Rightarrow> bool" where
  "entry_ok nf e \<longleftrightarrow> (ae_state e \<noteq> ETHARP_STATE_PENDING \<longrightarrow> ae_q e = None) \<and>
     (nonempty e \<longrightarrow> ether nf (ae_netif e) \<and> ae_ctime e < ARP_MAXAGE) \<and>
     (ae_state e = ETHARP_STATE_PENDING \<longrightarrow> ae_ctime e < ARP_MAXPENDING)"

definition same_key :: "arp_entry \<Rightarrow> arp_entry \<Rightarrow> bool" where
  "same_key e e' \<longleftrightarrow> ae_ipaddr e = ae_ipaddr e' \<and> ae_netif e = ae_netif e'"

text \<open>At most one entry for an address on an interface.\<close>

definition table_ok :: "(nat \<rightharpoonup> eth_netif) \<Rightarrow> arp_entry list \<Rightarrow> bool" where
  "table_ok nf es \<longleftrightarrow> length es = ARP_TABLE_SIZE \<and> (\<forall>i<ARP_TABLE_SIZE. entry_ok nf (es ! i)) \<and>
     (\<forall>i<ARP_TABLE_SIZE. \<forall>j<ARP_TABLE_SIZE. i \<noteq> j \<longrightarrow> nonempty (es ! i) \<longrightarrow> nonempty (es ! j) \<longrightarrow> \<not> same_key (es ! i) (es ! j))"

definition queue_refs :: "arp_entry list \<Rightarrow> nat multiset" where
  "queue_refs es = (\<Sum>e\<leftarrow>es. handed (ae_q e) {#})"

definition arp_inv :: "custom_free \<Rightarrow> 'a aworld_scheme \<Rightarrow> nat multiset \<Rightarrow> bool" where
  "arp_inv cf w H \<longleftrightarrow> table_ok (ew_netif w) (arp_table w) \<and> etharp_cached_entry w < ARP_TABLE_SIZE \<and>
     pbuf_run cf (ew_pb w) (H + queue_refs (arp_table w))"

lemma table_okI:
  assumes "length es = 10" "\<And>i. i < 10 \<Longrightarrow> entry_ok nf (es ! i)"
    "\<And>i j. i < 10 \<Longrightarrow> j < 10 \<Longrightarrow> i \<noteq> j \<Longrightarrow> nonempty (es ! i) \<Longrightarrow> nonempty (es ! j) \<Longrightarrow> \<not> same_key (es ! i) (es ! j)"
  shows "table_ok nf es"
  using assms unfolding table_ok_def ARP_TABLE_SIZE_def by blast

lemma table_okD:
  assumes "table_ok nf es"
  shows "length es = 10" "i < 10 \<Longrightarrow> entry_ok nf (es ! i)"
    "i < 10 \<Longrightarrow> j < 10 \<Longrightarrow> i \<noteq> j \<Longrightarrow> nonempty (es ! i) \<Longrightarrow> nonempty (es ! j) \<Longrightarrow> \<not> same_key (es ! i) (es ! j)"
  using assms unfolding table_ok_def ARP_TABLE_SIZE_def by blast+

lemma table_ok_update:
  assumes "table_ok nf es" "i < 10" "entry_ok nf e"
    "\<And>j. nonempty e \<Longrightarrow> j < 10 \<Longrightarrow> j \<noteq> i \<Longrightarrow> nonempty (es ! j) \<Longrightarrow> \<not> same_key e (es ! j)"
  shows "table_ok nf (es[i := e])"
proof (rule table_okI)
  have s: "same_key x y = same_key y x" for x y by (auto simp: same_key_def)
  fix a b assume "a < 10" "b < 10" "a \<noteq> b" "nonempty (es[i := e] ! a)" "nonempty (es[i := e] ! b)"
  then show "\<not> same_key (es[i := e] ! a) (es[i := e] ! b)"
    using assms(4) [of a] assms(4) [of b] table_okD(1) [OF assms(1)] table_okD(3) [OF assms(1), of a b] assms(2) s
    by (cases "a = i"; cases "b = i") (simp_all add: s)
qed (use assms table_okD(1,2) [OF assms(1)] in \<open>auto simp: nth_list_update\<close>)

lemma table_ok_same_key:
  assumes "table_ok nf es" "i < 10" "entry_ok nf e" "nonempty (es ! i)" "same_key e (es ! i)"
  shows "table_ok nf (es[i := e])"
proof (rule table_ok_update [OF assms(1,2,3)])
  fix j assume "j < 10" "j \<noteq> i" "nonempty (es ! j)"
  then show "\<not> same_key e (es ! j)" using table_okD(3) [OF assms(1,2), of j] assms(4,5) by (auto simp: same_key_def)
qed

lemma queue_refs_update:
  assumes "i < length es"
  shows "queue_refs (es[i := e]) + handed (ae_q (es ! i)) {#} = queue_refs es + handed (ae_q e) {#}"
  using assms
proof (induction es arbitrary: i)
  case (Cons a es)
  then show ?case by (cases i) (auto simp: queue_refs_def ac_simps)
qed simp

lemma queue_refs_same: "i < length es \<Longrightarrow> ae_q e = ae_q (es ! i) \<Longrightarrow> queue_refs (es[i := e]) = queue_refs es"
  using queue_refs_update [of i es e] by (auto split: option.splits)

lemma queue_refs_drop: "i < length es \<Longrightarrow> ae_q (es ! i) = Some q \<Longrightarrow> ae_q e = None \<Longrightarrow> queue_refs es = add_mset q (queue_refs (es[i := e]))"
  using queue_refs_update [of i es e] by simp

lemma queue_refs_put: "i < length es \<Longrightarrow> ae_q (es ! i) = None \<Longrightarrow> ae_q e = Some q \<Longrightarrow> queue_refs (es[i := e]) = add_mset q (queue_refs es)"
  using queue_refs_update [of i es e] by simp

lemma arp_invD:
  assumes "arp_inv cf w H"
  shows "table_ok (ew_netif w) (arp_table w)" "etharp_cached_entry w < 10" "pbuf_run cf (ew_pb w) (H + queue_refs (arp_table w))"
    "length (arp_table w) = 10"
  using assms unfolding arp_inv_def ARP_TABLE_SIZE_def by (auto dest: table_okD(1))

lemma arp_at_ok [simp]: "i < length (arp_table w) \<Longrightarrow> arp_at i w = Some (Inr (arp_table w ! i))"
  by (simp add: arp_at_def)

lemma arp_set_fields [simp]:
  "ew_pb (arp_set i f w) = ew_pb w" "ew_netif (arp_set i f w) = ew_netif w" "ew_sent (arp_set i f w) = ew_sent w"
  "netif_list (arp_set i f w) = netif_list w" "netif_default (arp_set i f w) = netif_default w" "ew_stats (arp_set i f w) = ew_stats w"
  "etharp_cached_entry (arp_set i f w) = etharp_cached_entry w" "arp_table (arp_set i f w) = (arp_table w)[i := f (arp_table w ! i)]"
  by (simp_all add: arp_set_def)

lemma arp_inv_io:
  assumes "arp_inv cf w H" "io_same w w'" "pbuf_run cf (ew_pb w') (H' + queue_refs (arp_table w))"
  shows "arp_inv cf w' H'"
  using assms io_same_fields [OF assms(2)] io_same_arp [OF assms(2)] by (simp add: arp_inv_def)

section \<open>The search\<close>

definition matches :: "u32 option \<Rightarrow> nat option \<Rightarrow> arp_entry \<Rightarrow> bool" where
  "matches ipaddr netif e \<longleftrightarrow> nonempty e \<and> ipaddr = Some (ae_ipaddr e) \<and> (netif = None \<or> netif = ae_netif e)"

text \<open>The candidate \<open>o\<close> of age \<open>a\<close> is the last of the oldest among the first \<open>k\<close> entries that satisfy \<open>P\<close>.\<close>

definition oldest :: "arp_entry list \<Rightarrow> nat \<Rightarrow> (arp_entry \<Rightarrow> bool) \<Rightarrow> nat \<Rightarrow> nat \<Rightarrow> bool" where
  "oldest T k P o' a \<longleftrightarrow> (if o' = ARP_TABLE_SIZE then (\<forall>j<k. \<not> P (T ! j)) \<and> a = 0
     else o' < k \<and> P (T ! o') \<and> ae_ctime (T ! o') = a \<and> (\<forall>j<k. P (T ! j) \<longrightarrow> ae_ctime (T ! j) \<le> a))"

definition recyclable :: "arp_entry \<Rightarrow> bool" where
  "recyclable e \<longleftrightarrow> ETHARP_STATE_STABLE \<le> ae_state e \<and> ae_state e < ETHARP_STATE_STATIC"

definition pending_free :: "arp_entry \<Rightarrow> bool" where
  "pending_free e \<longleftrightarrow> ae_state e = ETHARP_STATE_PENDING \<and> ae_q e = None"

definition pending_queued :: "arp_entry \<Rightarrow> bool" where
  "pending_queued e \<longleftrightarrow> ae_state e = ETHARP_STATE_PENDING \<and> ae_q e \<noteq> None"

definition candidates_ok :: "arp_entry list \<Rightarrow> nat \<Rightarrow> candidates \<Rightarrow> bool" where
  "candidates_ok T k c \<longleftrightarrow>
     (if c_empty c = ARP_TABLE_SIZE then \<forall>j<k. nonempty (T ! j)
      else c_empty c < k \<and> \<not> nonempty (T ! c_empty c) \<and> (\<forall>j<c_empty c. nonempty (T ! j))) \<and>
     oldest T k recyclable (old_stable c) (age_stable c) \<and> oldest T k pending_free (old_pending c) (age_pending c) \<and>
     oldest T k pending_queued (old_queue c) (age_queue c)"

lemma oldest_skip: "oldest T k P o' a \<Longrightarrow> \<not> P (T ! k) \<Longrightarrow> oldest T (Suc k) P o' a"
  by (auto simp: oldest_def less_Suc_eq)

lemma oldest_take: "oldest T k P o' a \<Longrightarrow> k < 10 \<Longrightarrow> P (T ! k) \<Longrightarrow> a \<le> ae_ctime (T ! k) \<Longrightarrow> oldest T (Suc k) P k (ae_ctime (T ! k))"
  by (auto simp: oldest_def less_Suc_eq ARP_TABLE_SIZE_def split: if_splits intro: order_trans)

lemma oldest_keep: "oldest T k P o' a \<Longrightarrow> \<not> a \<le> ae_ctime (T ! k) \<Longrightarrow> oldest T (Suc k) P o' a"
  by (auto simp: oldest_def less_Suc_eq split: if_splits)

lemmas order_simps = less_eq_etharp_state_def less_etharp_state_def
lemmas class_defs = recyclable_def pending_free_def pending_queued_def nonempty_def order_simps

lemma remember_ok:
  assumes "candidates_ok T k c" "k < 10" "nonempty (T ! k)"
  shows "candidates_ok T (Suc k) (remember (T ! k) k c)"
proof -
  have e: "c_empty (remember (T ! k) k c) = c_empty c" by (simp add: remember_def)
  have c: "if c_empty c = ARP_TABLE_SIZE then \<forall>j<k. nonempty (T ! j)
      else c_empty c < k \<and> \<not> nonempty (T ! c_empty c) \<and> (\<forall>j<c_empty c. nonempty (T ! j))"
    "oldest T k recyclable (old_stable c) (age_stable c)" "oldest T k pending_free (old_pending c) (age_pending c)"
    "oldest T k pending_queued (old_queue c) (age_queue c)"
    using assms(1) unfolding candidates_ok_def by blast+
  have 1: "oldest T (Suc k) recyclable (old_stable (remember (T ! k) k c)) (age_stable (remember (T ! k) k c))"
    using oldest_skip [OF c(2)] oldest_take [OF c(2) assms(2)] oldest_keep [OF c(2)]
    by (cases "ae_state (T ! k)") (auto simp: remember_def class_defs)
  have 2: "oldest T (Suc k) pending_free (old_pending (remember (T ! k) k c)) (age_pending (remember (T ! k) k c))"
    using oldest_skip [OF c(3)] oldest_take [OF c(3) assms(2)] oldest_keep [OF c(3)]
    by (cases "ae_state (T ! k)") (auto simp: remember_def class_defs)
  have 3: "oldest T (Suc k) pending_queued (old_queue (remember (T ! k) k c)) (age_queue (remember (T ! k) k c))"
    using oldest_skip [OF c(4)] oldest_take [OF c(4) assms(2)] oldest_keep [OF c(4)]
    by (cases "ae_state (T ! k)") (auto simp: remember_def class_defs)
  show ?thesis unfolding candidates_ok_def e using c(1) assms(3) 1 2 3 by (auto simp: less_Suc_eq)
qed

lemma skip_empty_ok:
  assumes "candidates_ok T k c" "k < 10" "\<not> nonempty (T ! k)"
  shows "candidates_ok T (Suc k) (if c_empty c = ARP_TABLE_SIZE then c\<lparr>c_empty := k\<rparr> else c)"
proof -
  have n: "\<not> recyclable (T ! k)" "\<not> pending_free (T ! k)" "\<not> pending_queued (T ! k)" using assms(3) by (auto simp: class_defs)
  show ?thesis
    using assms(1,2,3) n by (auto simp: candidates_ok_def ARP_TABLE_SIZE_def less_Suc_eq intro: oldest_skip split: if_splits)
qed

lemma find_loop_ok:
  assumes "candidates_ok T k c" "k \<le> 10" "length T = 10" "\<forall>j<k. \<not> matches ipaddr netif (T ! j)"
  shows "(\<exists>i<10. find_loop ipaddr netif (drop k T) k c = Inl i \<and> matches ipaddr netif (T ! i) \<and> (\<forall>j<i. \<not> matches ipaddr netif (T ! j))) \<or>
    (\<exists>c'. find_loop ipaddr netif (drop k T) k c = Inr c' \<and> candidates_ok T 10 c' \<and> (\<forall>j<10. \<not> matches ipaddr netif (T ! j)))"
  using assms(1,2,4)
proof (induction "10 - k" arbitrary: k c)
  case 0
  then show ?case using assms(3) by simp
next
  case (Suc d)
  then have k: "k < 10" by simp
  have dr: "drop k T = T ! k # drop (Suc k) T" using k assms(3) by (simp add: Cons_nth_drop_Suc)
  have ih: ?case if "candidates_ok T (Suc k) c'" "\<not> matches ipaddr netif (T ! k)"
    "find_loop ipaddr netif (drop k T) k c = find_loop ipaddr netif (drop (Suc k) T) (Suc k) c'" for c'
    unfolding that(3) using that(1,2) Suc.hyps(2) Suc.prems(3) k by (intro Suc.hyps(1)) (auto simp: less_Suc_eq)
  show ?case
  proof (cases "nonempty (T ! k)")
    case True
    show ?thesis
    proof (cases "matches ipaddr netif (T ! k)")
      case m: True
      then have "find_loop ipaddr netif (drop k T) k c = Inl k" by (auto simp: dr matches_def nonempty_def)
      then show ?thesis using m Suc.prems(3) k by blast
    next
      case m: False
      then have "find_loop ipaddr netif (drop k T) k c = find_loop ipaddr netif (drop (Suc k) T) (Suc k) (remember (T ! k) k c)"
        using True by (auto simp: dr matches_def nonempty_def)
      then show ?thesis by (rule ih [OF remember_ok [OF Suc.prems(1) k True] m])
    qed
  next
    case False
    then show ?thesis
      using ih [OF skip_empty_ok [OF Suc.prems(1) k False]] by (auto simp: dr nonempty_def matches_def)
  qed
qed

lemma find_loop_cases:
  assumes "length T = 10"
  obtains (found) i where "i < 10" "find_loop ipaddr netif T 0 no_candidates = Inl i" "matches ipaddr netif (T ! i)" "\<forall>j<i. \<not> matches ipaddr netif (T ! j)"
    | (candidates) c where "find_loop ipaddr netif T 0 no_candidates = Inr c" "candidates_ok T 10 c" "\<forall>j<10. \<not> matches ipaddr netif (T ! j)"
proof -
  have "candidates_ok T 0 no_candidates" by (simp add: candidates_ok_def no_candidates_def oldest_def)
  from find_loop_ok [OF this _ assms, of ipaddr netif] show thesis using found candidates by auto
qed

section \<open>What a release leaves of a packet\<close>

definition shape_kept :: "pworld \<Rightarrow> pworld \<Rightarrow> bool" where
  "shape_kept s s' \<longleftrightarrow> (\<forall>q b'. pw_buf s' q = Some b' \<longrightarrow> (\<exists>b. pw_buf s q = Some b \<and> b' = b\<lparr>pb_ref := pb_ref b'\<rparr>))"

lemma shape_kept_freed: "only_freed s s' \<Longrightarrow> shape_kept s s'"
  by (simp add: only_freed_def shape_kept_def)

lemma shape_kept_same: "pw_buf s' = pw_buf s \<Longrightarrow> shape_kept s s'"
  by (auto simp: shape_kept_def)

lemma shape_kept_trans:
  assumes "shape_kept s t" "shape_kept t u"
  shows "shape_kept s u"
  unfolding shape_kept_def
proof (intro allI impI)
  fix q b2 assume q: "pw_buf u q = Some b2"
  obtain b1 where b1: "pw_buf t q = Some b1" "b2 = b1\<lparr>pb_ref := pb_ref b2\<rparr>" using assms(2) q unfolding shape_kept_def by blast
  obtain b where b: "pw_buf s q = Some b" "b1 = b\<lparr>pb_ref := pb_ref b1\<rparr>" using assms(1) b1(1) unfolding shape_kept_def by blast
  have "b1\<lparr>pb_ref := pb_ref b2\<rparr> = b\<lparr>pb_ref := pb_ref b2\<rparr>" by (subst b(2)) simp
  then show "\<exists>b. pw_buf s q = Some b \<and> b2 = b\<lparr>pb_ref := pb_ref b2\<rparr>" using b(1) b1(2) by metis
qed

lemma shape_keptE:
  assumes "shape_kept s s'" "pw_buf s' q = Some b'"
  obtains b where "pw_buf s q = Some b" "pb_next b' = pb_next b" "payload b' = payload b" "pb_len b' = pb_len b" "tot_len b' = tot_len b"
    "type_internal b' = type_internal b"
proof -
  obtain b where b: "pw_buf s q = Some b" "b' = b\<lparr>pb_ref := pb_ref b'\<rparr>" using assms unfolding shape_kept_def by blast
  then show thesis using that [OF b(1)] by (cases b; cases b') simp
qed

text \<open>A packet that can be sent or queued: its lengths are right, and it is no queue of packets.\<close>

definition sendable :: "pworld \<Rightarrow> nat \<Rightarrow> bool" where
  "sendable s q \<longleftrightarrow> (\<exists>qs. packet s q qs \<and> ends_full s qs)"

lemma run_next_live:
  assumes "pbuf_run cf s G" "pw_buf s q = Some b" "pb_next b = Some r"
  shows "\<exists>b'. pw_buf s r = Some b'"
proof -
  obtain L where "chains_inv s L G" using pbuf_run_inv [OF assms(1)] by blast
  then have "refs_ok {} s G" by (simp add: chains_inv_def)
  then show ?thesis using refs_okD(3) [of "{}" s G q r] assms(2,3) by (auto simp: edges_def)
qed

lemma kept_chain:
  assumes "pbuf_run cf s' G" "shape_kept s s'" "chain_of s (Some q) qs" "pw_buf s' q \<noteq> None"
  shows "chain_of s' (Some q) qs \<and> (\<forall>x\<in>set qs. span s' x = span s x) \<and> (lens_ok s qs \<longrightarrow> lens_ok s' qs)"
  using assms(3,4)
proof (induction qs arbitrary: q)
  case (Cons x qs)
  obtain b where b: "x = q" "pw_buf s q = Some b" "chain_of s (pb_next b) qs" using Cons.prems(1) by auto
  obtain b' where b': "pw_buf s' q = Some b'" using Cons.prems(2) by auto
  have eq: "pb_next b' = pb_next b" "payload b' = payload b" "pb_len b' = pb_len b" "tot_len b' = tot_len b"
    using shape_keptE [OF assms(2) b'] b(2) by auto
  have sp: "span s' q = span s q" using b(2) b' eq by (simp add: span_def)
  show ?case
  proof (cases "pb_next b")
    case None
    then have "qs = []" using b(3) by (cases qs) auto
    then show ?thesis using b b' eq sp None by auto
  next
    case (Some r)
    have live: "pw_buf s' r \<noteq> None" using run_next_live [OF assms(1) b'] Some eq by auto
    have ih: "chain_of s' (Some r) qs \<and> (\<forall>x\<in>set qs. span s' x = span s x) \<and> (lens_ok s qs \<longrightarrow> lens_ok s' qs)"
      using Cons.IH [OF _ live] b(3) Some by simp
    then have ad: "addrs s' qs = addrs s qs" unfolding addrs_def by (metis (no_types, lifting) map_cong)
    show ?thesis using ih b b' eq sp Some ad by auto
  qed
qed simp

lemma kept_sendable:
  assumes "pbuf_run cf s' G" "shape_kept s s'" "q \<in># G" "sendable s q"
  shows "sendable s' q"
proof -
  obtain qs where q: "packet s q qs" "ends_full s qs" using assms(4) by (auto simp: sendable_def)
  have k: "chain_of s' (Some q) qs \<and> (\<forall>x\<in>set qs. span s' x = span s x) \<and> (lens_ok s qs \<longrightarrow> lens_ok s' qs)"
    using kept_chain [OF assms(1,2)] run_live [OF assms(1,3)] q(1) by (auto simp: packet_def)
  then have ad: "addrs s' qs = addrs s qs" unfolding addrs_def by (metis (no_types, lifting) map_cong)
  have "ends_full s' qs"
  proof (cases "tl qs = []")
    case False
    then have "last qs \<in> set qs" by (cases qs) auto
    then show ?thesis using q(2) k by (auto simp: ends_full_def)
  qed (simp add: ends_full_def)
  then show ?thesis using k ad q(1) unfolding sendable_def packet_def by auto
qed

lemma kept_ref:
  assumes "pbuf_run cf s G" "pbuf_run cf s' G'" "G' \<subseteq># G" "shape_kept s s'" "pw_buf s q = Some b" "pw_buf s' q = Some b'"
  shows "pb_ref b' \<le> pb_ref b"
proof -
  obtain L L' where i: "chains_inv s L G" "chains_inv s' L' G'" using pbuf_run_inv assms(1,2) by blast
  have r: "pb_ref b = count G q + card (pointers {} s q)" "pb_ref b' = count G' q + card (pointers {} s' q)"
    using refs_okD(1) [OF _ assms(5)] refs_okD(1) [OF _ assms(6)] i unfolding chains_inv_def by blast+
  have "finite (dom (pw_buf s))" using i(1) world_finite by (auto simp: chains_inv_def)
  then have "finite (pointers {} s q)" by (rule rev_finite_subset) (auto simp: pointers_def edges_def)
  moreover have "pointers {} s' q \<subseteq> pointers {} s q"
    using assms(4) by (auto simp: pointers_def edges_def elim!: shape_keptE)
  ultimately show ?thesis using r mset_subset_eq_count [OF assms(3), of q] by (simp add: add_mono card_mono)
qed

section \<open>Taking an entry\<close>

definition cleared :: "arp_entry \<Rightarrow> arp_entry" where
  "cleared e = e\<lparr>ae_q := None, ae_state := ETHARP_STATE_EMPTY\<rparr>"

lemma cleared_ok: "entry_ok nf (cleared e)" "\<not> nonempty (cleared e)" "ae_q (cleared e) = None"
  by (simp_all add: cleared_def entry_ok_def nonempty_def)

text \<open>What taking an entry changes.\<close>

definition taken :: "nat \<Rightarrow> arp_entry \<Rightarrow> 'a aworld_scheme \<Rightarrow> 'a aworld_scheme \<Rightarrow> bool" where
  "taken i e w w' \<longleftrightarrow> (\<exists>s'. w' = w\<lparr>ew_pb := s', arp_table := (arp_table w)[i := e]\<rparr> \<and> only_freed (ew_pb w) s')"

lemma free_entry_core:
  assumes "table_ok (ew_netif w) ((arp_table w)[i := cleared (arp_table w ! i)])" "etharp_cached_entry w < 10"
    "pbuf_run cf (ew_pb w) (H + queue_refs (arp_table w))" "i < 10"
  shows "returns (etharp_free_entry cf i w) (\<lambda>(_, w'). arp_inv cf w' H \<and> taken i (cleared (arp_table w ! i)) w w')"
proof -
  let ?e = "arp_table w ! i" and ?t = "(arp_table w)[i := cleared (arp_table w ! i)]"
  note t = assms(1)
  have i: "i < length (arp_table w)" using assms(4) table_okD(1) [OF t] by simp
  show ?thesis
  proof (cases "ae_q ?e")
    case None
    have q: "queue_refs ?t = queue_refs (arp_table w)" using i None by (intro queue_refs_same) (simp_all add: cleared_ok)
    have c: "cleared ?e = ?e\<lparr>ae_state := ETHARP_STATE_EMPTY\<rparr>" using None by (cases ?e) (simp add: cleared_def)
    have "etharp_free_entry cf i w = Some (Inr ((), w\<lparr>arp_table := ?t\<rparr>))"
      using i None by (simp add: etharp_free_entry_def arp_set_def c)
    moreover have "arp_inv cf (w\<lparr>arp_table := ?t\<rparr>) H" using t q assms by (simp add: arp_inv_def ARP_TABLE_SIZE_def)
    moreover have "w\<lparr>arp_table := ?t\<rparr> = w\<lparr>ew_pb := ew_pb w, arp_table := ?t\<rparr>" by simp
    ultimately show ?thesis unfolding taken_def using only_freed_refl by (simp only: returns_simps split) blast
  next
    case (Some q)
    have r: "queue_refs (arp_table w) = add_mset q (queue_refs ?t)" by (rule queue_refs_drop [OF i Some]) (simp add: cleared_ok)
    have "pbuf_run cf (ew_pb w) (add_mset q (H + queue_refs ?t))" using assms(3) r by simp
    then obtain n s' where f: "pbuf_free cf (Some q) (ew_pb w) = Some (Inr (n, s'))" "pbuf_run cf s' (H + queue_refs ?t)" "only_freed (ew_pb w) s'"
      using run_free by blast
    have "etharp_free_entry cf i w = Some (Inr ((), w\<lparr>ew_pb := s', arp_table := ?t\<rparr>))"
      using i Some f(1) by (simp add: etharp_free_entry_def on_pb_def arp_set_def cleared_def)
    moreover have "arp_inv cf (w\<lparr>ew_pb := s', arp_table := ?t\<rparr>) H" using t f(2) assms by (simp add: arp_inv_def ARP_TABLE_SIZE_def)
    ultimately show ?thesis unfolding taken_def using f(3) by (simp only: returns_simps split) blast
  qed
qed

lemma free_entry_ok:
  assumes "arp_inv cf w H" "i < 10"
  shows "returns (etharp_free_entry cf i w) (\<lambda>(_, w'). arp_inv cf w' H \<and> taken i (cleared (arp_table w ! i)) w w')"
proof -
  note inv = arp_invD [OF assms(1)]
  have t: "table_ok (ew_netif w) ((arp_table w)[i := cleared (arp_table w ! i)])"
    by (rule table_ok_update [OF inv(1) assms(2)]) (simp_all add: cleared_ok)
  show ?thesis by (rule free_entry_core [OF t inv(2,3) assms(2)])
qed

text \<open>The entry as the search hands it out for a new address.\<close>

definition fresh_entry :: "u32 \<Rightarrow> nat option \<Rightarrow> arp_entry \<Rightarrow> arp_entry" where
  "fresh_entry ipaddr netif e = e\<lparr>ae_q := None, ae_ipaddr := ipaddr, ae_netif := netif, ae_ctime := 0, ae_state := ETHARP_STATE_EMPTY\<rparr>"

text \<open>The entry that is given up: the first empty one, or else the oldest of the first of the three classes that has one.\<close>

definition oldest_of :: "(arp_entry \<Rightarrow> bool) \<Rightarrow> arp_entry list \<Rightarrow> nat \<Rightarrow> bool" where
  "oldest_of P T i \<longleftrightarrow> P (T ! i) \<and> (\<forall>j<10. P (T ! j) \<longrightarrow> ae_ctime (T ! j) \<le> ae_ctime (T ! i))"

definition victim :: "arp_entry list \<Rightarrow> nat \<Rightarrow> bool" where
  "victim T i \<longleftrightarrow> i < 10 \<and>
     (if \<exists>j<10. \<not> nonempty (T ! j) then \<not> nonempty (T ! i) \<and> (\<forall>j<i. nonempty (T ! j))
      else if \<exists>j<10. recyclable (T ! j) then oldest_of recyclable T i
      else if \<exists>j<10. pending_free (T ! j) then oldest_of pending_free T i
      else oldest_of pending_queued T i)"

lemma victim_empty:
  assumes "candidates_ok T 10 c" "c_empty c < 10"
  shows "victim T (c_empty c) \<and> \<not> nonempty (T ! c_empty c)"
  using assms by (auto simp: candidates_ok_def victim_def ARP_TABLE_SIZE_def)

lemma victim_full:
  assumes "candidates_ok T 10 c" "\<not> c_empty c < 10"
  shows "\<forall>j<10. nonempty (T ! j)" "old_stable c < 10 \<Longrightarrow> victim T (old_stable c) \<and> recyclable (T ! old_stable c)"
    "\<not> old_stable c < 10 \<Longrightarrow> old_pending c < 10 \<Longrightarrow> victim T (old_pending c)"
    "\<not> old_stable c < 10 \<Longrightarrow> \<not> old_pending c < 10 \<Longrightarrow> old_queue c < 10 \<Longrightarrow> victim T (old_queue c)"
    "\<not> old_stable c < 10 \<Longrightarrow> \<not> old_pending c < 10 \<Longrightarrow> \<not> old_queue c < 10 \<Longrightarrow> j < 10 \<Longrightarrow> ae_state (T ! j) = ETHARP_STATE_STATIC"
proof -
  have c: "c_empty c = 10" and n: "\<forall>j<10. nonempty (T ! j)" and o: "oldest T 10 recyclable (old_stable c) (age_stable c)"
    "oldest T 10 pending_free (old_pending c) (age_pending c)" "oldest T 10 pending_queued (old_queue c) (age_queue c)"
    using assms by (auto simp: candidates_ok_def ARP_TABLE_SIZE_def split: if_splits)
  show "\<forall>j<10. nonempty (T ! j)" by (rule n)
  show "old_stable c < 10 \<Longrightarrow> victim T (old_stable c) \<and> recyclable (T ! old_stable c)"
    using o(1) n by (auto simp: victim_def oldest_of_def oldest_def ARP_TABLE_SIZE_def split: if_splits)
  show "\<not> old_stable c < 10 \<Longrightarrow> old_pending c < 10 \<Longrightarrow> victim T (old_pending c)"
    using o(1,2) n by (auto simp: victim_def oldest_of_def oldest_def ARP_TABLE_SIZE_def split: if_splits)
  show "\<not> old_stable c < 10 \<Longrightarrow> \<not> old_pending c < 10 \<Longrightarrow> old_queue c < 10 \<Longrightarrow> victim T (old_queue c)"
    using o n by (auto simp: victim_def oldest_of_def oldest_def ARP_TABLE_SIZE_def split: if_splits)
  show "\<not> old_stable c < 10 \<Longrightarrow> \<not> old_pending c < 10 \<Longrightarrow> \<not> old_queue c < 10 \<Longrightarrow> j < 10 \<Longrightarrow> ae_state (T ! j) = ETHARP_STATE_STATIC"
    using o n by (cases "ae_state (T ! j)") (auto simp: oldest_def ARP_TABLE_SIZE_def class_defs split: if_splits)
qed

lemma arp_inv_set:
  assumes "arp_inv cf w H" "i < 10" "entry_ok (ew_netif w) e" "ae_q e = ae_q (arp_table w ! i)"
    "\<And>j. nonempty e \<Longrightarrow> j < 10 \<Longrightarrow> j \<noteq> i \<Longrightarrow> nonempty (arp_table w ! j) \<Longrightarrow> \<not> same_key e (arp_table w ! j)"
  shows "arp_inv cf (w\<lparr>arp_table := (arp_table w)[i := e]\<rparr>) H"
proof -
  note inv = arp_invD [OF assms(1)]
  have "table_ok (ew_netif w) ((arp_table w)[i := e])" by (rule table_ok_update [OF inv(1) assms(2,3,5)])
  moreover have "queue_refs ((arp_table w)[i := e]) = queue_refs (arp_table w)" using queue_refs_same [of i "arp_table w" e] assms(2,4) inv(4) by simp
  ultimately show ?thesis using inv by (simp add: arp_inv_def ARP_TABLE_SIZE_def)
qed

lemma fresh_entry_ok [simp]: "entry_ok nf (fresh_entry a p e)" "\<not> nonempty (fresh_entry a p e)" "ae_q (fresh_entry a p e) = None"
  "ae_state (fresh_entry a p e) = ETHARP_STATE_EMPTY" "ae_ipaddr (fresh_entry a p e) = a" "ae_netif (fresh_entry a p e) = p"
  "ae_ctime (fresh_entry a p e) = 0"
  by (simp_all add: fresh_entry_def entry_ok_def nonempty_def)

lemma fresh_cleared: "fresh_entry a p (cleared e) = fresh_entry a p e"
  by (simp add: fresh_entry_def cleared_def)

lemma take_empty:
  assumes "arp_inv cf w H" "i < 10" "\<not> nonempty (arp_table w ! i)"
  shows "rbind (arp_at i w) (\<lambda>e. if ae_state e \<noteq> ETHARP_STATE_EMPTY then Some (Inl AssertFailed) else
      (let w = (case Some a of None \<Rightarrow> w | Some a \<Rightarrow> arp_set i (ae_ipaddr_update (\<lambda>_. a)) w);
           w = arp_set i (ae_ctime_update (\<lambda>_. 0)) w;
           w = arp_set i (ae_netif_update (\<lambda>_. netif)) w
       in Some (Inr (int i, w)))) =
    Some (Inr (int i, w\<lparr>arp_table := (arp_table w)[i := fresh_entry a netif (arp_table w ! i)]\<rparr>))"
    "arp_inv cf (w\<lparr>arp_table := (arp_table w)[i := fresh_entry a netif (arp_table w ! i)]\<rparr>) H"
proof -
  note inv = arp_invD [OF assms(1)]
  have q: "ae_q (arp_table w ! i) = None" "ae_state (arp_table w ! i) = ETHARP_STATE_EMPTY"
    using table_okD(2) [OF inv(1) assms(2)] assms(3) by (auto simp: entry_ok_def nonempty_def)
  have "fresh_entry a netif (arp_table w ! i) = (arp_table w ! i)\<lparr>ae_ipaddr := a, ae_ctime := 0, ae_netif := netif\<rparr>"
    using q by (cases "arp_table w ! i") (simp add: fresh_entry_def)
  then show "rbind (arp_at i w) (\<lambda>e. if ae_state e \<noteq> ETHARP_STATE_EMPTY then Some (Inl AssertFailed) else
      (let w = (case Some a of None \<Rightarrow> w | Some a \<Rightarrow> arp_set i (ae_ipaddr_update (\<lambda>_. a)) w);
           w = arp_set i (ae_ctime_update (\<lambda>_. 0)) w;
           w = arp_set i (ae_netif_update (\<lambda>_. netif)) w
       in Some (Inr (int i, w)))) =
    Some (Inr (int i, w\<lparr>arp_table := (arp_table w)[i := fresh_entry a netif (arp_table w ! i)]\<rparr>))"
    using assms(2) inv(4) q(2) by (simp add: arp_set_def Let_def)
  show "arp_inv cf (w\<lparr>arp_table := (arp_table w)[i := fresh_entry a netif (arp_table w ! i)]\<rparr>) H"
    by (rule arp_inv_set [OF assms(1,2)]) (simp_all add: q)
qed

lemma find_entry_ok:
  fixes w :: "'a aworld_scheme"
  assumes "arp_inv cf w H"
  shows "returns (etharp_find_entry cf (Some a) flags netif w) (\<lambda>(r, w').
    arp_inv cf w' H \<and>
    ((\<exists>i<10. r = int i \<and> w' = w \<and> matches (Some a) netif (arp_table w ! i) \<and> (\<forall>j<i. \<not> matches (Some a) netif (arp_table w ! j))) \<or>
     (\<forall>j<10. \<not> matches (Some a) netif (arp_table w ! j)) \<and>
       (r = ERR_MEM \<and> w' = w \<and> (flags AND ETHARP_FLAG_FIND_ONLY \<noteq> 0 \<or> (\<forall>j<10. nonempty (arp_table w ! j)) \<and>
           (flags AND ETHARP_FLAG_TRY_HARD \<noteq> 0 \<longrightarrow> (\<forall>j<10. ae_state (arp_table w ! j) = ETHARP_STATE_STATIC))) \<or>
        (\<exists>i. r = int i \<and> victim (arp_table w) i \<and> flags AND ETHARP_FLAG_FIND_ONLY = 0 \<and>
           (nonempty (arp_table w ! i) \<longrightarrow> flags AND ETHARP_FLAG_TRY_HARD \<noteq> 0) \<and>
           taken i (fresh_entry a netif (arp_table w ! i)) w w'))))"
    (is "returns _ ?P")
proof -
  let ?T = "arp_table w"
  note inv = arp_invD [OF assms]
  from inv(4) show ?thesis
  proof (cases rule: find_loop_cases [where ipaddr = "Some a" and netif = netif])
    case (found i)
    then show ?thesis using assms unfolding etharp_find_entry_def by simp
  next
    case (candidates c)
    let ?fresh = "\<lambda>(i, w :: 'a aworld_scheme). rbind (arp_at i w) (\<lambda>e. if ae_state e \<noteq> ETHARP_STATE_EMPTY then Some (Inl AssertFailed) else
      (let w = (case Some a of None \<Rightarrow> w | Some a \<Rightarrow> arp_set i (ae_ipaddr_update (\<lambda>_. a)) w);
           w = arp_set i (ae_ctime_update (\<lambda>_. 0)) w;
           w = arp_set i (ae_netif_update (\<lambda>_. netif)) w
       in Some (Inr (int i, w))))"
    let ?recycle = "\<lambda>i. rbind (etharp_free_entry cf i w) (\<lambda>(_, w). ?fresh (i, w))"
    have goal: "?P (int i, w')" if "arp_inv cf w' H" "victim ?T i" "flags AND ETHARP_FLAG_FIND_ONLY = 0"
      "nonempty (?T ! i) \<longrightarrow> flags AND ETHARP_FLAG_TRY_HARD \<noteq> 0" "taken i (fresh_entry a netif (?T ! i)) w w'" for i w'
      using that candidates(3) by blast
    have recycle: "returns (?recycle i) ?P" if v: "victim ?T i" "flags AND ETHARP_FLAG_FIND_ONLY = 0" "flags AND ETHARP_FLAG_TRY_HARD \<noteq> 0" for i
    proof -
      have i: "i < 10" using v(1) by (simp add: victim_def)
      from free_entry_ok [OF assms i] obtain w1 where w1: "etharp_free_entry cf i w = Some (Inr ((), w1))" "arp_inv cf w1 H"
        "taken i (cleared (?T ! i)) w w1" by (auto elim!: returns_pairE)
      then obtain s' where s': "w1 = w\<lparr>ew_pb := s', arp_table := ?T[i := cleared (?T ! i)]\<rparr>" "only_freed (ew_pb w) s'"
        unfolding taken_def by blast
      have at: "arp_table w1 ! i = cleared (?T ! i)" using s'(1) i inv(4) by simp
      have n: "\<not> nonempty (arp_table w1 ! i)" by (simp add: at cleared_ok)
      note t = take_empty [OF w1(2) i n, of a netif]
      have "taken i (fresh_entry a netif (?T ! i)) w (w1\<lparr>arp_table := (arp_table w1)[i := fresh_entry a netif (arp_table w1 ! i)]\<rparr>)"
        unfolding taken_def using s'(2) by (intro exI [of _ s']) (simp add: i inv(4) fresh_cleared s'(1))
      then have "?P (int i, w1\<lparr>arp_table := (arp_table w1)[i := fresh_entry a netif (arp_table w1 ! i)]\<rparr>)" using t(2) v by (intro goal) simp_all
      moreover have "?recycle i = Some (Inr (int i, w1\<lparr>arp_table := (arp_table w1)[i := fresh_entry a netif (arp_table w1 ! i)]\<rparr>))"
        unfolding w1(1) rbind_simps split using t(1) by simp
      ultimately show ?thesis by simp
    qed
    show ?thesis
    proof (cases "flags AND ETHARP_FLAG_FIND_ONLY \<noteq> 0")
      case True
      then show ?thesis using assms candidates unfolding etharp_find_entry_def by simp
    next
      case only: False
      show ?thesis
      proof (cases "c_empty c < 10")
        case True
        note e = victim_empty [OF candidates(2) True]
        have fr: "?fresh (c_empty c, w) = Some (Inr (int (c_empty c), w\<lparr>arp_table := ?T[c_empty c := fresh_entry a netif (?T ! c_empty c)]\<rparr>))"
          "arp_inv cf (w\<lparr>arp_table := ?T[c_empty c := fresh_entry a netif (?T ! c_empty c)]\<rparr>) H"
          unfolding split using take_empty [OF assms True] e by blast+
        have tk: "taken (c_empty c) (fresh_entry a netif (?T ! c_empty c)) w (w\<lparr>arp_table := ?T[c_empty c := fresh_entry a netif (?T ! c_empty c)]\<rparr>)"
          unfolding taken_def by (intro exI [of _ "ew_pb w"]) simp
        have "etharp_find_entry cf (Some a) flags netif w = ?fresh (c_empty c, w)"
          using candidates(1) only True by (simp add: etharp_find_entry_def ARP_TABLE_SIZE_def)
        moreover have "?P (int (c_empty c), w\<lparr>arp_table := ?T[c_empty c := fresh_entry a netif (?T ! c_empty c)]\<rparr>)"
          using e only by (intro goal [OF fr(2) _ _ _ tk]) simp_all
        ultimately show ?thesis using fr(1) by simp
      next
        case False
        note v = victim_full [OF candidates(2) False]
        have ce: "c_empty c = ARP_TABLE_SIZE" using candidates(2) False by (auto simp: candidates_ok_def ARP_TABLE_SIZE_def split: if_splits)
        show ?thesis
        proof (cases "flags AND ETHARP_FLAG_TRY_HARD = 0")
          case True
          then show ?thesis using candidates assms v(1) ce by (simp add: etharp_find_entry_def)
        next
          case hard: False
          have "etharp_find_entry cf (Some a) flags netif w =
            (if old_stable c < ARP_TABLE_SIZE then
               rbind (arp_at (old_stable c) w) (\<lambda>e. if ae_q e \<noteq> None then Some (Inl AssertFailed) else ?recycle (old_stable c))
             else if old_pending c < ARP_TABLE_SIZE then ?recycle (old_pending c)
             else if old_queue c < ARP_TABLE_SIZE then ?recycle (old_queue c)
             else Some (Inr (ERR_MEM, w)))"
            using candidates(1) only ce hard unfolding etharp_find_entry_def by simp
          moreover have "rbind (arp_at (old_stable c) w) (\<lambda>e. if ae_q e \<noteq> None then Some (Inl AssertFailed) else ?recycle (old_stable c)) = ?recycle (old_stable c)"
            if "old_stable c < 10"
          proof -
            have "ae_q (?T ! old_stable c) = None"
              using v(2) [OF that] table_okD(2) [OF inv(1) that] by (auto simp: entry_ok_def recyclable_def less_eq_etharp_state_def)
            then show ?thesis using that inv(4) by simp
          qed
          ultimately show ?thesis
            using v recycle only hard assms candidates(3) by (auto simp: ARP_TABLE_SIZE_def)
        qed
      qed
    qed
  qed
qed

section \<open>Learning an address\<close>

text \<open>What sending a packet added to the frames: one frame, if there was room for its header.\<close>

definition sends :: "nat \<Rightarrow> nat \<Rightarrow> eth_addr \<Rightarrow> eth_addr \<Rightarrow> u16 \<Rightarrow> pworld \<Rightarrow> frame list \<Rightarrow> bool" where
  "sends i p dst src type s out \<longleftrightarrow> (\<exists>b. pw_buf s p = Some b \<and>
     (if p + 30 \<le> payload b \<and> type_internal b AND 0x80 \<noteq> 0 \<and> tot_len b < 65522
      then \<exists>fr. out = [fr] \<and> fr_netif fr = i \<and> fr_pbuf fr = p \<and> frame_of p (payload b) dst src type s (fr_world fr)
      else out = []))"

definition net_same :: "'a eworld_scheme \<Rightarrow> 'a eworld_scheme \<Rightarrow> bool" where
  "net_same w w' \<longleftrightarrow> ew_netif w' = ew_netif w \<and> netif_list w' = netif_list w \<and> netif_default w' = netif_default w"

lemma net_same_io: "io_same w w' \<Longrightarrow> net_same w w'"
  by (simp add: net_same_def io_same_fields)

lemma net_same_refl [simp]: "net_same w w"
  by (simp add: net_same_def)

lemma net_same_trans: "net_same w w' \<Longrightarrow> net_same w' w'' \<Longrightarrow> net_same w w''"
  by (simp add: net_same_def)

lemma taken_fields:
  assumes "taken i e w w'"
  shows "net_same w w'" "ew_sent w' = ew_sent w" "ew_stats w' = ew_stats w" "etharp_cached_entry w' = etharp_cached_entry w"
    "arp_table w' = (arp_table w)[i := e]" "only_freed (ew_pb w) (ew_pb w')"
  using assms by (auto simp: taken_def net_same_def)

lemma output_ok:
  assumes "pbuf_run cf (ew_pb w) G" "p \<in># G" "ew_netif w i = Some n" "nf_hwaddr_len n = 6"
  shows "returns (ethernet_output lo (Some i) p src dst type w) (\<lambda>(r, w').
    pbuf_run cf (ew_pb w') G \<and> io_same w w' \<and> (\<exists>out. ew_sent w' = ew_sent w @ out \<and> sends i p dst src type (ew_pb w) out \<and>
      r = (case out of [] \<Rightarrow> ERR_BUF | fr # _ \<Rightarrow> lo (ew_sent w) fr) \<and> ew_pb w' = (case out of [] \<Rightarrow> ew_pb w | fr # _ \<Rightarrow> fr_world fr)))"
proof -
  obtain b where b: "pw_buf (ew_pb w) p = Some b" and r: "returns (ethernet_output lo (Some i) p src dst type w) (\<lambda>(r, w').
    pbuf_run cf (ew_pb w') G \<and> io_same w w' \<and>
    (if p + 30 \<le> payload b \<and> type_internal b AND 0x80 \<noteq> 0 \<and> tot_len b < 65522 then
       (\<exists>fr. frame_of p (payload b) dst src type (ew_pb w) (fr_world fr) \<and> fr_netif fr = i \<and> fr_pbuf fr = p \<and>
         r = lo (ew_sent w) fr \<and> ew_sent w' = ew_sent w @ [fr] \<and> ew_pb w' = fr_world fr)
     else r = ERR_BUF \<and> ew_sent w' = ew_sent w \<and> ew_pb w' = ew_pb w))"
    using ethernet_output_ok [OF assms, of lo src dst type] by blast
  show ?thesis
  proof (rule returns_mono [OF r], unfold split_paired_all split, elim conjE, intro conjI)
    fix r' w' assume a: "if p + 30 \<le> payload b \<and> type_internal b AND 0x80 \<noteq> 0 \<and> tot_len b < 65522 then
       (\<exists>fr. frame_of p (payload b) dst src type (ew_pb w) (fr_world fr) \<and> fr_netif fr = i \<and> fr_pbuf fr = p \<and>
         r' = lo (ew_sent w) fr \<and> ew_sent w' = ew_sent w @ [fr] \<and> ew_pb w' = fr_world fr)
     else r' = ERR_BUF \<and> ew_sent w' = ew_sent w \<and> ew_pb w' = ew_pb w"
    show "\<exists>out. ew_sent w' = ew_sent w @ out \<and> sends i p dst src type (ew_pb w) out \<and>
      r' = (case out of [] \<Rightarrow> ERR_BUF | fr # _ \<Rightarrow> lo (ew_sent w) fr) \<and> ew_pb w' = (case out of [] \<Rightarrow> ew_pb w | fr # _ \<Rightarrow> fr_world fr)"
    proof (cases "p + 30 \<le> payload b \<and> type_internal b AND 0x80 \<noteq> 0 \<and> tot_len b < 65522")
      case True
      then obtain fr where "frame_of p (payload b) dst src type (ew_pb w) (fr_world fr)" "fr_netif fr = i" "fr_pbuf fr = p"
         "r' = lo (ew_sent w) fr" "ew_sent w' = ew_sent w @ [fr]" "ew_pb w' = fr_world fr" using a by (auto simp del: fun_upd_apply)
      then show ?thesis using b True by (intro exI [of _ "[fr]"]) (simp add: sends_def)
    next
      case False
      then have "r' = ERR_BUF" "ew_sent w' = ew_sent w" "ew_pb w' = ew_pb w" using a by (simp_all split: if_splits)
      then show ?thesis using b False unfolding sends_def by (intro exI [of _ "[]"] conjI exI [of _ b]) (simp_all del: de_Morgan_conj)
    qed
  qed simp_all
qed

definition learned :: "u32 \<Rightarrow> nat \<Rightarrow> eth_addr \<Rightarrow> etharp_state \<Rightarrow> arp_entry" where
  "learned a i mac st = \<lparr>ae_q = None, ae_ipaddr = a, ae_netif = Some i, ae_ethaddr = mac, ae_ctime = 0, ae_state = st\<rparr>"

lemma learned_fields [simp]: "ae_q (learned a i mac st) = None" "ae_ipaddr (learned a i mac st) = a" "ae_netif (learned a i mac st) = Some i"
  "ae_ethaddr (learned a i mac st) = mac" "ae_ctime (learned a i mac st) = 0" "ae_state (learned a i mac st) = st"
  by (simp_all add: learned_def)

lemma learned_ok:
  assumes "nf i = Some n" "nf_hwaddr_len n = 6" "st = ETHARP_STATE_STABLE \<or> st = ETHARP_STATE_STATIC"
  shows "entry_ok nf (learned a i mac st)"
  using assms by (auto simp: entry_ok_def ether_def ARP_MAXAGE_def)

text \<open>The end of the update: the entry is written and the packet it queued is sent.\<close>

definition learn :: "custom_free \<Rightarrow> linkoutput \<Rightarrow> nat \<Rightarrow> eth_netif \<Rightarrow> nat \<Rightarrow> eth_addr \<Rightarrow> etharp_state \<Rightarrow> 'a aworld_scheme \<Rightarrow>
    (int \<times> 'a aworld_scheme) run" where
  "learn cf lo i n k mac st w =
     (let w = arp_set k (ae_state_update (\<lambda>_. st)) w;
          w = arp_set k (ae_netif_update (\<lambda>_. Some i)) w;
          w = arp_set k (ae_ethaddr_update (\<lambda>_. mac)) w;
          w = arp_set k (ae_ctime_update (\<lambda>_. 0)) w
      in case ae_q (arp_table w ! k) of
           None \<Rightarrow> Some (Inr (ERR_OK, w))
         | Some p \<Rightarrow>
             (let w = arp_set k (ae_q_update (\<lambda>_. None)) w
              in rbind (ethernet_output lo (Some i) p (nf_hwaddr n) mac ETHTYPE_IP w) (\<lambda>(_, w).
                 rbind (on_pb (pbuf_free cf (Some p)) w) (\<lambda>(_, w). Some (Inr (ERR_OK, w))))))"

lemma learn_ok:
  fixes w :: "'a aworld_scheme"
  assumes "arp_inv cf w H" "ew_netif w i = Some n" "nf_hwaddr_len n = 6" "k < 10" "ae_ipaddr (arp_table w ! k) = a"
    "st = ETHARP_STATE_STABLE \<or> st = ETHARP_STATE_STATIC"
    "\<forall>j<10. j \<noteq> k \<longrightarrow> \<not> matches (Some a) (Some i) (arp_table w ! j)"
  shows "returns (learn cf lo i n k mac st w)
    (\<lambda>(r, w'). r = ERR_OK \<and> arp_inv cf w' H \<and> net_same w w' \<and> etharp_cached_entry w' = etharp_cached_entry w \<and>
       arp_table w' = (arp_table w)[k := learned a i mac st] \<and>
       (\<exists>out. ew_sent w' = ew_sent w @ out \<and>
          (case ae_q (arp_table w ! k) of None \<Rightarrow> out = [] | Some p \<Rightarrow> sends i p mac (nf_hwaddr n) ETHTYPE_IP (ew_pb w) out)))"
proof -
  note inv = arp_invD [OF assms(1)]
  let ?T = "(arp_table w)[k := learned a i mac st]"
  let ?w1 = "w\<lparr>arp_table := ?T\<rparr>"
  have t: "table_ok (ew_netif w) ?T"
  proof (rule table_ok_update [OF inv(1) assms(4) learned_ok [of "ew_netif w" i n, OF assms(2,3,6)]])
    fix j assume "j < 10" "j \<noteq> k" "nonempty (arp_table w ! j)"
    then show "\<not> same_key (learned a i mac st) (arp_table w ! j)" using assms(7) by (auto simp: same_key_def matches_def)
  qed
  have k: "k < length (arp_table w)" using assms(4) inv(4) by simp
  show ?thesis
  proof (cases "ae_q (arp_table w ! k)")
    case None
    have e: "(arp_table w ! k)\<lparr>ae_state := st, ae_netif := Some i, ae_ethaddr := mac, ae_ctime := 0\<rparr> = learned a i mac st"
      using None assms(5) by (cases "arp_table w ! k") (simp add: learned_def)
    have "queue_refs ?T = queue_refs (arp_table w)" by (rule queue_refs_same [OF k]) (simp add: None)
    then have "arp_inv cf ?w1 H" using t inv by (simp add: arp_inv_def ARP_TABLE_SIZE_def)
    moreover have "net_same w ?w1" by (simp add: net_same_def)
    ultimately show ?thesis using None k e by (simp add: learn_def Let_def arp_set_def)
  next
    case (Some p)
    have e: "(arp_table w ! k)\<lparr>ae_state := st, ae_netif := Some i, ae_ethaddr := mac, ae_ctime := 0, ae_q := None\<rparr> = learned a i mac st"
      using assms(5) by (cases "arp_table w ! k") (simp add: learned_def)
    have w1: "arp_set k (ae_q_update (\<lambda>_. None)) (arp_set k (ae_ctime_update (\<lambda>_. 0)) (arp_set k (ae_ethaddr_update (\<lambda>_. mac))
      (arp_set k (ae_netif_update (\<lambda>_. Some i)) (arp_set k (ae_state_update (\<lambda>_. st)) w)))) = ?w1" using k e by (simp add: arp_set_def)
    have q: "queue_refs (arp_table w) = add_mset p (queue_refs ?T)" by (rule queue_refs_drop [OF k Some]) simp
    have run: "pbuf_run cf (ew_pb ?w1) (add_mset p (H + queue_refs ?T))" using inv(3) q by simp
    have nf: "ew_netif ?w1 i = Some n" using assms(2) by simp
    obtain r w2 where w2: "ethernet_output lo (Some i) p (nf_hwaddr n) mac ETHTYPE_IP ?w1 = Some (Inr (r, w2))"
      "pbuf_run cf (ew_pb w2) (add_mset p (H + queue_refs ?T))" "io_same ?w1 w2"
      "\<exists>out. ew_sent w2 = ew_sent w @ out \<and> sends i p mac (nf_hwaddr n) ETHTYPE_IP (ew_pb w) out"
      using output_ok [OF run _ nf assms(3), of p lo "nf_hwaddr n" mac ETHTYPE_IP] by (auto elim!: returns_pairE)
    obtain m s3 where s3: "pbuf_free cf (Some p) (ew_pb w2) = Some (Inr (m, s3))" "pbuf_run cf s3 (H + queue_refs ?T)"
      using run_free [OF w2(2)] by blast
    let ?w3 = "w2\<lparr>ew_pb := s3\<rparr>"
    have io: "io_same ?w1 ?w3" using w2(3) by simp
    have "arp_inv cf ?w3 H" using t s3(2) io_same_fields [OF io] io_same_arp [OF io] inv(2) by (simp add: arp_inv_def ARP_TABLE_SIZE_def)
    moreover have "net_same w ?w3" using net_same_io [OF io] by (simp add: net_same_def)
    moreover have "etharp_cached_entry ?w3 = etharp_cached_entry w" "arp_table ?w3 = ?T" using io_same_arp [OF io] by simp_all
    moreover have "ae_q (arp_table (arp_set k (ae_ctime_update (\<lambda>_. 0)) (arp_set k (ae_ethaddr_update (\<lambda>_. mac))
      (arp_set k (ae_netif_update (\<lambda>_. Some i)) (arp_set k (ae_state_update (\<lambda>_. st)) w)))) ! k) = Some p" using Some k by simp
    ultimately show ?thesis using w2(4) by (simp add: learn_def Let_def w1 w2(1) s3(1) on_pb_def Some del: arp_set_fields)
  qed
qed

lemma match_unique:
  assumes "table_ok nf T" "k < 10" "matches (Some a) (Some i) (T ! k)" "j < 10" "j \<noteq> k"
  shows "\<not> matches (Some a) (Some i) (T ! j)"
  using table_okD(3) [OF assms(1,2,4)] assms(3,5) unfolding matches_def same_key_def by (metis option.distinct(1) option.inject)

definition update_state :: "u8 \<Rightarrow> etharp_state" where
  "update_state flags = (if flags AND ETHARP_FLAG_STATIC_ENTRY \<noteq> 0 then ETHARP_STATE_STATIC else ETHARP_STATE_STABLE)"

lemma update_state_cases: "update_state flags = ETHARP_STATE_STABLE \<or> update_state flags = ETHARP_STATE_STATIC"
  by (simp add: update_state_def)

text \<open>The entry that learns an address: the one that has it, or one that is given up.\<close>

definition learns :: "u32 \<Rightarrow> nat \<Rightarrow> u8 \<Rightarrow> arp_entry list \<Rightarrow> nat \<Rightarrow> bool" where
  "learns a i flags T k \<longleftrightarrow> k < 10 \<and> (if \<exists>j<10. matches (Some a) (Some i) (T ! j) then matches (Some a) (Some i) (T ! k)
     else victim T k \<and> flags AND ETHARP_FLAG_FIND_ONLY = 0 \<and> (nonempty (T ! k) \<longrightarrow> flags AND ETHARP_FLAG_TRY_HARD \<noteq> 0))"

definition unusable_addr :: "u32 \<Rightarrow> eth_netif \<Rightarrow> bool" where
  "unusable_addr a n \<longleftrightarrow> a = 0 \<or> ip4_addr_isbroadcast_u32 a n \<or> ip4_addr_ismulticast a"

text \<open>A successful update: the entry holds the address, and the packet that was waiting for it was sent.\<close>

definition updated :: "nat \<Rightarrow> eth_netif \<Rightarrow> u32 \<Rightarrow> eth_addr \<Rightarrow> u8 \<Rightarrow> 'a aworld_scheme \<Rightarrow> 'a aworld_scheme \<Rightarrow> bool" where
  "updated i n a mac flags w w' \<longleftrightarrow> \<not> unusable_addr a n \<and> net_same w w' \<and> etharp_cached_entry w' = etharp_cached_entry w \<and>
       (\<exists>k out. learns a i flags (arp_table w) k \<and> arp_table w' = (arp_table w)[k := learned a i mac (update_state flags)] \<and>
          ew_sent w' = ew_sent w @ out \<and>
          (case ae_q (arp_table w ! k) of
             Some p \<Rightarrow> if matches (Some a) (Some i) (arp_table w ! k) then sends i p mac (nf_hwaddr n) ETHTYPE_IP (ew_pb w) out else out = []
           | None \<Rightarrow> out = []))"

lemma update_ok:
  fixes w :: "'a aworld_scheme"
  assumes "arp_inv cf w H" "ew_netif w i = Some n" "nf_hwaddr_len n = 6"
  shows "returns (etharp_update_arp_entry cf lo (Some i) a mac flags w) (\<lambda>(r, w'). arp_inv cf w' H \<and>
    ((r = ERR_ARG \<and> unusable_addr a n \<or> r = ERR_MEM \<and> (\<forall>j<10. \<not> matches (Some a) (Some i) (arp_table w ! j)) \<and>
        (flags AND ETHARP_FLAG_FIND_ONLY \<noteq> 0 \<or> flags AND ETHARP_FLAG_TRY_HARD = 0 \<or> (\<forall>j<10. ae_state (arp_table w ! j) = ETHARP_STATE_STATIC)) \<or>
      r = ERR_VAL \<and> flags AND ETHARP_FLAG_STATIC_ENTRY = 0 \<and>
        (\<exists>k<10. matches (Some a) (Some i) (arp_table w ! k) \<and> ae_state (arp_table w ! k) = ETHARP_STATE_STATIC)) \<and> w' = w \<or>
     r = ERR_OK \<and> updated i n a mac flags w w'))"
    (is "returns _ ?P")
proof (cases "unusable_addr a n")
  case True
  then show ?thesis using assms by (auto simp: etharp_update_arp_entry_def deref_def ETH_HWADDR_LEN_def unusable_addr_def)
next
  case usable: False
  let ?T = "arp_table w"
  note inv = arp_invD [OF assms(1)]
  let ?rest = "\<lambda>k w. learn cf lo i n k mac (update_state flags) w"
  define tail where "tail = (\<lambda>k (w :: 'a aworld_scheme) (e :: arp_entry).
          if flags AND ETHARP_FLAG_STATIC_ENTRY = 0 \<and> ae_state e = ETHARP_STATE_STATIC then Some (Inr (ERR_VAL, w))
          else let w' = arp_set k (ae_state_update (\<lambda>_. update_state flags)) w;
                      w' = arp_set k (ae_netif_update (\<lambda>_. Some i)) w';
                      w' = arp_set k (ae_ethaddr_update (\<lambda>_. mac)) w';
                      w' = arp_set k (ae_ctime_update (\<lambda>_. 0)) w'
                  in case ae_q e of
                       None \<Rightarrow> Some (Inr (ERR_OK, w'))
                     | Some p \<Rightarrow>
                         (let w = arp_set k (ae_q_update (\<lambda>_. None)) w'
                          in rbind (ethernet_output lo (Some i) p (nf_hwaddr n) mac ETHTYPE_IP w) (\<lambda>(_, w).
                             rbind (on_pb (pbuf_free cf (Some p)) w) (\<lambda>(_, w). Some (Inr (ERR_OK, w))))))"
  have go: "etharp_update_arp_entry cf lo (Some i) a mac flags w =
      rbind (etharp_find_entry cf (Some a) flags (Some i) w) (\<lambda>(r, w). if r < 0 then Some (Inr (r, w)) else rbind (arp_at (nat r) w) (tail (nat r) w))"
    using usable assms(2,3) unfolding etharp_update_arp_entry_def unusable_addr_def update_state_def Let_def tail_def
    by (simp add: deref_def ETH_HWADDR_LEN_def)
  have rest: "rbind (arp_at k w1) (tail k w1) =
      (if flags AND ETHARP_FLAG_STATIC_ENTRY = 0 \<and> ae_state (arp_table w1 ! k) = ETHARP_STATE_STATIC then Some (Inr (ERR_VAL, w1)) else ?rest k w1)"
    if "k < length (arp_table w1)" for k w1
    using that unfolding learn_def tail_def Let_def by simp
  from find_entry_ok [OF assms(1), of a flags "Some i"] obtain r w1 where
    f: "etharp_find_entry cf (Some a) flags (Some i) w = Some (Inr (r, w1))" "arp_inv cf w1 H" and
    c: "(\<exists>k<10. r = int k \<and> w1 = w \<and> matches (Some a) (Some i) (?T ! k)) \<or>
     (\<forall>j<10. \<not> matches (Some a) (Some i) (?T ! j)) \<and> (r = ERR_MEM \<and> w1 = w \<and>
        (flags AND ETHARP_FLAG_FIND_ONLY \<noteq> 0 \<or> flags AND ETHARP_FLAG_TRY_HARD = 0 \<or> (\<forall>j<10. ae_state (?T ! j) = ETHARP_STATE_STATIC)) \<or>
        (\<exists>k. r = int k \<and> victim ?T k \<and> flags AND ETHARP_FLAG_FIND_ONLY = 0 \<and> (nonempty (?T ! k) \<longrightarrow> flags AND ETHARP_FLAG_TRY_HARD \<noteq> 0) \<and>
           taken k (fresh_entry a (Some i) (?T ! k)) w w1))"
    by (rule returns_pairE) blast
  consider (found) k where "k < 10" "r = int k" "w1 = w" "matches (Some a) (Some i) (?T ! k)"
    | (none) "r = ERR_MEM" "w1 = w" "\<forall>j<10. \<not> matches (Some a) (Some i) (?T ! j)"
        "flags AND ETHARP_FLAG_FIND_ONLY \<noteq> 0 \<or> flags AND ETHARP_FLAG_TRY_HARD = 0 \<or> (\<forall>j<10. ae_state (?T ! j) = ETHARP_STATE_STATIC)"
    | (taken) k where "r = int k" "victim ?T k" "flags AND ETHARP_FLAG_FIND_ONLY = 0" "nonempty (?T ! k) \<longrightarrow> flags AND ETHARP_FLAG_TRY_HARD \<noteq> 0"
        "taken k (fresh_entry a (Some i) (?T ! k)) w w1" "\<forall>j<10. \<not> matches (Some a) (Some i) (?T ! j)"
    using c by blast
  then show ?thesis
  proof cases
    case none
    then show ?thesis using f go assms(1) by simp
  next
    case (found k)
    have k: "k < length ?T" "ae_ipaddr (?T ! k) = a" using found inv(4) by (simp_all add: matches_def)
    have l: "learns a i flags ?T k" using found by (auto simp: learns_def)
    have mu: "\<forall>j<10. j \<noteq> k \<longrightarrow> \<not> matches (Some a) (Some i) (?T ! j)" using match_unique [OF inv(1) found(1,4)] by blast
    note lk = learn_ok [OF assms found(1) k(2) update_state_cases [of flags] mu, where lo = lo and mac = mac]
    show ?thesis
    proof (cases "flags AND ETHARP_FLAG_STATIC_ENTRY = 0 \<and> ae_state (?T ! k) = ETHARP_STATE_STATIC")
      case True
      then show ?thesis using f go found rest [OF k(1)] assms(1) by auto
    next
      case False
      have "etharp_update_arp_entry cf lo (Some i) a mac flags w = ?rest k w" using False f(1) go found(2,3) rest [OF k(1)] by auto
      moreover have "returns (?rest k w) ?P"
      proof -
        obtain r' w' out where g: "?rest k w = Some (Inr (r', w'))" and a: "r' = ERR_OK" "arp_inv cf w' H" "net_same w w'"
          "etharp_cached_entry w' = etharp_cached_entry w" "arp_table w' = ?T[k := learned a i mac (update_state flags)]" "ew_sent w' = ew_sent w @ out"
          "case ae_q (?T ! k) of None \<Rightarrow> out = [] | Some p \<Rightarrow> sends i p mac (nf_hwaddr n) ETHTYPE_IP (ew_pb w) out"
          using lk by (elim returns_pairE conjE exE) (rule that; assumption)
        have "updated i n a mac flags w w'" unfolding updated_def
          using a usable l found(4) by (intro conjI exI [of _ k] exI [of _ out]) (simp_all split: option.splits)
        then show ?thesis using a g by simp
      qed
      ultimately show ?thesis by simp
    qed
  next
    case (taken k)
    note t = taken_fields [OF taken(5)]
    have k: "k < 10" "k < length ?T" "k < length (arp_table w1)" using taken(2) inv(4) t(5) by (simp_all add: victim_def)
    have at: "arp_table w1 ! k = fresh_entry a (Some i) (?T ! k)" using t(5) k by simp
    have l: "learns a i flags ?T k" using taken k by (auto simp: learns_def)
    have nf: "ew_netif w1 i = Some n" using t(1) assms(2) by (simp add: net_same_def)
    have un: "\<forall>j<10. j \<noteq> k \<longrightarrow> \<not> matches (Some a) (Some i) (arp_table w1 ! j)" using taken(6) t(5) by simp
    have ip: "ae_ipaddr (arp_table w1 ! k) = a" by (simp add: at)
    note lk = learn_ok [OF f(2) nf assms(3) k(1) ip update_state_cases [of flags] un, where lo = lo and mac = mac]
    have "etharp_update_arp_entry cf lo (Some i) a mac flags w = ?rest k w1" using f(1) go taken(1) rest [OF k(3)] by (simp add: at)
    moreover have "returns (?rest k w1) ?P"
    proof -
      obtain r' w' out where g: "?rest k w1 = Some (Inr (r', w'))" and a: "r' = ERR_OK" "arp_inv cf w' H" "net_same w1 w'" "etharp_cached_entry w' = etharp_cached_entry w1"
        "arp_table w' = (arp_table w1)[k := learned a i mac (update_state flags)]" "ew_sent w' = ew_sent w1 @ out"
        "case ae_q (arp_table w1 ! k) of None \<Rightarrow> out = [] | Some p \<Rightarrow> sends i p mac (nf_hwaddr n) ETHTYPE_IP (ew_pb w1) out"
        using lk by (elim returns_pairE conjE exE) (rule that; assumption)
      have "net_same w w'" using net_same_trans [OF t(1) a(3)] .
      moreover have "arp_table w' = ?T[k := learned a i mac (update_state flags)]" using a(5) t(5) by simp
      moreover have "out = []" using a(7) by (simp add: at)
      moreover have "case ae_q (?T ! k) of None \<Rightarrow> out = [] |
        Some p \<Rightarrow> if matches (Some a) (Some i) (?T ! k) then sends i p mac (nf_hwaddr n) ETHTYPE_IP (ew_pb w) out else out = []"
        using \<open>out = []\<close> taken(6) k(1) by (auto split: option.splits)
      ultimately have "updated i n a mac flags w w'" unfolding updated_def
        using a t usable l by (intro conjI exI [of _ k] exI [of _ out]) simp_all
      then show ?thesis using a g by simp
    qed
    ultimately show ?thesis by simp
  qed
qed

section \<open>The cache as a map\<close>

text \<open>What the table knows: the hardware address of an address on an interface.\<close>

definition cache :: "arp_entry list \<Rightarrow> u32 \<times> nat \<Rightarrow> eth_addr option" where
  "cache T x = map_option ae_ethaddr (List.find (stable_for (Some (snd x)) (fst x)) T)"

definition holds_key :: "u32 \<times> nat \<Rightarrow> arp_entry \<Rightarrow> bool" where
  "holds_key x e \<longleftrightarrow> stable_for (Some (snd x)) (fst x) e"

lemma stable_matches: "stable_for (Some i) a e \<longleftrightarrow> matches (Some a) (Some i) e \<and> ETHARP_STATE_STABLE \<le> ae_state e"
  by (cases "ae_state e") (auto simp: stable_for_def matches_def nonempty_def less_eq_etharp_state_def)

lemma holds_unique:
  assumes "table_ok nf T" "k < 10" "j < 10" "holds_key x (T ! k)" "holds_key x (T ! j)"
  shows "j = k"
  using match_unique [OF assms(1,2) _ assms(3)] assms(4,5) by (auto simp: holds_key_def stable_matches)

lemma cache_at:
  assumes "table_ok nf T" "k < 10" "holds_key x (T ! k)"
  shows "cache T x = Some (ae_ethaddr (T ! k))"
proof -
  have l: "length T = 10" using table_okD(1) [OF assms(1)] .
  obtain e where e: "List.find (stable_for (Some (snd x)) (fst x)) T = Some e"
    using assms(2,3) l by (cases "List.find (stable_for (Some (snd x)) (fst x)) T") (auto simp: find_None_iff holds_key_def dest: nth_mem)
  then obtain j where "j < 10" "e = T ! j" "stable_for (Some (snd x)) (fst x) (T ! j)" using l by (auto simp: find_Some_iff)
  then show ?thesis using holds_unique [OF assms(1,2) _ assms(3)] e by (auto simp: cache_def holds_key_def)
qed

lemma cache_none: "length T = 10 \<Longrightarrow> \<forall>k<10. \<not> holds_key x (T ! k) \<Longrightarrow> cache T x = None"
  by (auto simp: cache_def find_None_iff holds_key_def in_set_conv_nth)

lemma cache_iff:
  assumes "table_ok nf T"
  shows "cache T x = Some m \<longleftrightarrow> (\<exists>k<10. holds_key x (T ! k) \<and> ae_ethaddr (T ! k) = m)"
proof (cases "\<exists>k<10. holds_key x (T ! k)")
  case True
  then show ?thesis using cache_at [OF assms] by (metis option.inject)
next
  case False
  then show ?thesis using cache_none [of T x] table_okD(1) [OF assms] by auto
qed

lemma cache_eqI:
  assumes "table_ok nf T'" "\<And>x m. (\<exists>k<10. holds_key x (T' ! k) \<and> ae_ethaddr (T' ! k) = m) \<longleftrightarrow> g x = Some m"
  shows "cache T' = g"
  using assms cache_iff [OF assms(1)] by (intro ext) (metis not_Some_eq)

lemma cache_update:
  assumes "table_ok nf T" "table_ok nf (T[k := e])" "k < 10"
  shows "cache (T[k := e]) = (\<lambda>x. if holds_key x e then Some (ae_ethaddr e) else if holds_key x (T ! k) then None else cache T x)"
proof (rule cache_eqI [OF assms(2)])
  have l: "length T = 10" using table_okD(1) [OF assms(1)] .
  fix x m
  have nth: "T[k := e] ! j = (if j = k then e else T ! j)" if "j < 10" for j using that l assms(3) by simp
  show "(\<exists>j<10. holds_key x (T[k := e] ! j) \<and> ae_ethaddr (T[k := e] ! j) = m) \<longleftrightarrow>
    (if holds_key x e then Some (ae_ethaddr e) else if holds_key x (T ! k) then None else cache T x) = Some m" (is "?l \<longleftrightarrow> ?r")
  proof (cases "holds_key x e")
    case True
    then have "holds_key x (T[k := e] ! k)" using nth [OF assms(3)] by simp
    then show ?thesis using holds_unique [OF assms(2,3)] nth assms(3) True by (metis option.inject)
  next
    case False
    show ?thesis
    proof (cases "holds_key x (T ! k)")
      case True
      then have "\<not> holds_key x (T ! j)" if "j < 10" "j \<noteq> k" for j using holds_unique [OF assms(1,3) that(1)] that(2) by blast
      then show ?thesis using False True nth by (auto split: if_splits)
    next
      case old: False
      have "?l \<longleftrightarrow> (\<exists>j<10. holds_key x (T ! j) \<and> ae_ethaddr (T ! j) = m)" using nth False old by metis
      then show ?thesis using False old cache_iff [OF assms(1)] by simp
    qed
  qed
qed

lemma find_only_ok:
  assumes "arp_inv cf w H" "flags AND ETHARP_FLAG_FIND_ONLY \<noteq> 0"
  shows "\<exists>r. etharp_find_entry cf (Some a) flags netif w = Some (Inr (r, w)) \<and>
    ((\<exists>k<10. r = int k \<and> matches (Some a) netif (arp_table w ! k) \<and> (\<forall>j<k. \<not> matches (Some a) netif (arp_table w ! j))) \<or>
     r = ERR_MEM \<and> (\<forall>j<10. \<not> matches (Some a) netif (arp_table w ! j)))"
  using find_entry_ok [OF assms(1), of a flags netif] assms(2) by (auto elim!: returns_pairE)

lemma find_addr_ok:
  assumes "arp_inv cf w H"
  shows "\<exists>k. etharp_find_addr cf (Some i) a w = Some (Inr ((k, map_option (\<lambda>m. (m, a)) (cache (arp_table w) (a, i))), w)) \<and>
    (case cache (arp_table w) (a, i) of None \<Rightarrow> k = -1
     | Some m \<Rightarrow> 0 \<le> k \<and> k < 10 \<and> ae_netif (arp_table w ! nat k) = Some i)"
proof -
  note inv = arp_invD [OF assms]
  have fl: "ETHARP_FLAG_FIND_ONLY AND ETHARP_FLAG_FIND_ONLY \<noteq> 0" by (simp add: ETHARP_FLAG_FIND_ONLY_def)
  obtain r where f: "etharp_find_entry cf (Some a) ETHARP_FLAG_FIND_ONLY (Some i) w = Some (Inr (r, w))" and
    c: "(\<exists>k<10. r = int k \<and> matches (Some a) (Some i) (arp_table w ! k)) \<or> r = ERR_MEM \<and> (\<forall>j<10. \<not> matches (Some a) (Some i) (arp_table w ! j))"
    using find_only_ok [OF assms fl, of a "Some i"] by blast
  from c show ?thesis
  proof (elim disjE exE conjE)
    fix k assume k: "k < 10" "r = int k" "matches (Some a) (Some i) (arp_table w ! k)"
    show ?thesis
    proof (cases "ETHARP_STATE_STABLE \<le> ae_state (arp_table w ! k)")
      case True
      then have h: "holds_key (a, i) (arp_table w ! k)" using k(3) by (simp add: holds_key_def stable_matches)
      show ?thesis using f k True inv(4) cache_at [OF inv(1) k(1) h] by (auto simp: etharp_find_addr_def matches_def)
    next
      case False
      have "\<not> holds_key (a, i) (arp_table w ! j)" if "j < 10" for j
        using False match_unique [OF inv(1) k(1,3) that] by (cases "j = k") (auto simp: holds_key_def stable_matches)
      then have "cache (arp_table w) (a, i) = None" using cache_none [OF inv(4)] by blast
      then show ?thesis using f k False inv(4) by (simp add: etharp_find_addr_def)
    qed
  next
    assume n: "r = ERR_MEM" "\<forall>j<10. \<not> matches (Some a) (Some i) (arp_table w ! j)"
    then have "cache (arp_table w) (a, i) = None" using cache_none [OF inv(4)] by (auto simp: holds_key_def stable_matches)
    then show ?thesis using f n(1) by (simp add: etharp_find_addr_def)
  qed
qed

text \<open>An update puts the address into the map; the key of the entry it took is gone.\<close>

lemma updated_cache:
  assumes "arp_inv cf w H" "arp_inv cf w' H" "updated i n a mac flags w w'"
  shows "\<exists>k<10. cache (arp_table w') = (\<lambda>x. if x = (a, i) then Some mac else if holds_key x (arp_table w ! k) then None else cache (arp_table w) x) \<and>
    ((\<exists>j<10. matches (Some a) (Some i) (arp_table w ! j)) \<longrightarrow> matches (Some a) (Some i) (arp_table w ! k)) \<and>
    (nonempty (arp_table w ! k) \<longrightarrow> flags AND ETHARP_FLAG_TRY_HARD \<noteq> 0 \<or> matches (Some a) (Some i) (arp_table w ! k))"
proof -
  obtain k where k: "k < 10" "arp_table w' = (arp_table w)[k := learned a i mac (update_state flags)]" "learns a i flags (arp_table w) k" "net_same w w'"
    using assms(3) by (auto simp: updated_def learns_def)
  have t: "table_ok (ew_netif w) ((arp_table w)[k := learned a i mac (update_state flags)])"
    using arp_invD(1) [OF assms(2)] k(2,4) by (simp add: net_same_def)
  have h: "holds_key x (learned a i mac (update_state flags)) \<longleftrightarrow> x = (a, i)" for x
    by (cases x) (auto simp: holds_key_def stable_for_def update_state_def less_eq_etharp_state_def)
  show ?thesis using k cache_update [OF arp_invD(1) [OF assms(1)] t k(1)] by (intro exI [of _ k]) (auto simp: h learns_def split: if_splits)
qed

end
