(* ===== verification/LwArpCalls.thy ===== *)
theory LwArpCalls
  imports LwArpTable
begin

text \<open>
  The operations of \<^verbatim>\<open>etharp.c\<close> on the table: the timer and expiry, the removal of entries, queueing a packet on a pending
  entry, and queries.
\<close>

section \<open>The timer\<close>

text \<open>What became of an ARP request: one frame, or nothing when no buffer was free.\<close>

definition asked :: "nat \<Rightarrow> eth_netif \<Rightarrow> eth_addr \<Rightarrow> u32 \<Rightarrow> frame list \<Rightarrow> bool" where
  "asked i n dst a out \<longleftrightarrow> out = [] \<or> (\<exists>fr. out = [fr] \<and> fr_netif fr = i \<and> packet (fr_world fr) (fr_pbuf fr) [fr_pbuf fr] \<and>
     content (fr_world fr) [fr_pbuf fr] =
       frame_header dst (nf_hwaddr n) ETHTYPE_ARP @ arp_bytes ARP_REQUEST (nf_hwaddr n) (nf_ip_addr n) ethzero a)"

lemma request_dst_ok:
  assumes "pbuf_run cf (ew_pb w) G" "ew_netif w i = Some n" "nf_hwaddr_len n = 6"
  shows "returns (etharp_request_dst cf lo (Some i) a dst w) (\<lambda>(r, w').
    pbuf_run cf (ew_pb w') G \<and> io_same w w' \<and> pw_buf (ew_pb w') = pw_buf (ew_pb w) \<and>
    (\<exists>out. ew_sent w' = ew_sent w @ out \<and> asked i n dst a out \<and> r = (if out = [] then ERR_MEM else ERR_OK)))"
proof -
  have e: "etharp_request_dst cf lo (Some i) a dst w =
      etharp_raw cf lo (Some i) (nf_hwaddr n) dst (nf_hwaddr n) (nf_ip_addr n) ethzero a ARP_REQUEST w"
    using assms(2) by (simp add: etharp_request_dst_def deref_def)
  obtain r w' where r: "etharp_request_dst cf lo (Some i) a dst w = Some (Inr (r, w'))" "pbuf_run cf (ew_pb w') G" "io_same w w'"
    "pw_buf (ew_pb w') = pw_buf (ew_pb w)" and
    c: "r = ERR_MEM \<and> ew_sent w' = ew_sent w \<or> r = ERR_OK \<and> (\<exists>fr. ew_sent w' = ew_sent w @ [fr] \<and> fr_netif fr = i \<and>
       packet (fr_world fr) (fr_pbuf fr) [fr_pbuf fr] \<and> content (fr_world fr) [fr_pbuf fr] =
         frame_header dst (nf_hwaddr n) ETHTYPE_ARP @ arp_bytes ARP_REQUEST (nf_hwaddr n) (nf_ip_addr n) ethzero a)"
    unfolding e using etharp_raw_ok [OF assms, of lo "nf_hwaddr n" dst "nf_hwaddr n" "nf_ip_addr n" ethzero a ARP_REQUEST]
    by (rule returns_pairE) blast
  from c have "\<exists>out. ew_sent w' = ew_sent w @ out \<and> asked i n dst a out \<and> r = (if out = [] then ERR_MEM else ERR_OK)"
  proof (elim disjE conjE exE)
    assume "r = ERR_MEM" "ew_sent w' = ew_sent w"
    then show ?thesis by (intro exI [of _ "[]"]) (simp add: asked_def)
  next
    fix fr assume "r = ERR_OK" "ew_sent w' = ew_sent w @ [fr]" "fr_netif fr = i" "packet (fr_world fr) (fr_pbuf fr) [fr_pbuf fr]"
      "content (fr_world fr) [fr_pbuf fr] = frame_header dst (nf_hwaddr n) ETHTYPE_ARP @ arp_bytes ARP_REQUEST (nf_hwaddr n) (nf_ip_addr n) ethzero a"
    then show ?thesis unfolding asked_def by (intro exI [of _ "[fr]"]) simp
  qed
  then show ?thesis using r by simp
qed

lemma request_ok:
  assumes "arp_inv cf w H" "ew_netif w i = Some n" "nf_hwaddr_len n = 6"
  shows "returns (etharp_request cf lo (Some i) a w) (\<lambda>(r, w'). arp_inv cf w' H \<and> io_same w w' \<and> pw_buf (ew_pb w') = pw_buf (ew_pb w) \<and>
    (\<exists>out. ew_sent w' = ew_sent w @ out \<and> asked i n ethbroadcast a out \<and> r = (if out = [] then ERR_MEM else ERR_OK)))"
proof -
  obtain r w' where "etharp_request_dst cf lo (Some i) a ethbroadcast w = Some (Inr (r, w'))" "pbuf_run cf (ew_pb w') (H + queue_refs (arp_table w))"
    "io_same w w'" "pw_buf (ew_pb w') = pw_buf (ew_pb w)"
    "\<exists>out. ew_sent w' = ew_sent w @ out \<and> asked i n ethbroadcast a out \<and> r = (if out = [] then ERR_MEM else ERR_OK)"
    using request_dst_ok [OF arp_invD(3) [OF assms(1)] assms(2,3), of lo a ethbroadcast] by (rule returns_pairE) blast
  then show ?thesis using arp_inv_io [OF assms(1)] unfolding etharp_request_def by simp
qed

text \<open>A second in the life of an entry.\<close>

definition tick :: "arp_entry \<Rightarrow> arp_entry" where
  "tick e = (if ae_state e = ETHARP_STATE_EMPTY \<or> ae_state e = ETHARP_STATE_STATIC then e
     else (let c = ae_ctime e + 1 in
       if ARP_MAXAGE \<le> c \<or> (ae_state e = ETHARP_STATE_PENDING \<and> ARP_MAXPENDING \<le> c) then cleared (e\<lparr>ae_ctime := c\<rparr>)
       else if ae_state e = ETHARP_STATE_STABLE_REREQUESTING_1 then e\<lparr>ae_ctime := c, ae_state := ETHARP_STATE_STABLE_REREQUESTING_2\<rparr>
       else if ae_state e = ETHARP_STATE_STABLE_REREQUESTING_2 then e\<lparr>ae_ctime := c, ae_state := ETHARP_STATE_STABLE\<rparr>
       else e\<lparr>ae_ctime := c\<rparr>))"

lemma tick_ok: "entry_ok nf e \<Longrightarrow> entry_ok nf (tick e)"
  by (auto simp: tick_def entry_ok_def Let_def cleared_def nonempty_def)

lemma tick_keeps: "nonempty (tick e) \<Longrightarrow> nonempty e \<and> same_key (tick e) e \<and> ae_ethaddr (tick e) = ae_ethaddr e \<and> ae_q (tick e) = ae_q e"
  by (auto simp: tick_def Let_def cleared_def nonempty_def same_key_def split: if_splits)

text \<open>The frames of a round: a request for an entry that stays pending.\<close>

definition tick_asks :: "(nat \<rightharpoonup> eth_netif) \<Rightarrow> arp_entry \<Rightarrow> frame list \<Rightarrow> bool" where
  "tick_asks nf e out \<longleftrightarrow> (if ae_state e = ETHARP_STATE_PENDING \<and> nonempty (tick e)
     then \<exists>i n. ae_netif e = Some i \<and> nf i = Some n \<and> asked i n ethbroadcast (ae_ipaddr e) out else out = [])"

lemma tick_key:
  assumes "table_ok nf T" "i < 10" "e' = tick (T ! i)"
  shows "table_ok nf (T[i := e'])"
proof (rule table_ok_update [OF assms(1,2)])
  show "entry_ok nf e'" using tick_ok table_okD(2) [OF assms(1,2)] assms(3) by simp
  fix j assume "nonempty e'" "j < 10" "j \<noteq> i" "nonempty (T ! j)"
  then show "\<not> same_key e' (T ! j)" using table_okD(3) [OF assms(1,2), of j] tick_keeps [of "T ! i"] assms(3) by (auto simp: same_key_def)
qed

definition ticked :: "custom_free \<Rightarrow> nat multiset \<Rightarrow> nat \<Rightarrow> 'a aworld_scheme \<Rightarrow> 'a aworld_scheme \<Rightarrow> bool" where
  "ticked cf H i w w' \<longleftrightarrow> arp_inv cf w' H \<and> net_same w w' \<and> etharp_cached_entry w' = etharp_cached_entry w \<and>
    arp_table w' = (arp_table w)[i := tick (arp_table w ! i)] \<and> (\<exists>out. ew_sent w' = ew_sent w @ out \<and> tick_asks (ew_netif w) (arp_table w ! i) out)"

lemma tmr_gone:
  assumes "arp_inv cf w H" "i < 10" "ae_state (arp_table w ! i) \<noteq> ETHARP_STATE_EMPTY" "ae_state (arp_table w ! i) \<noteq> ETHARP_STATE_STATIC"
    "ARP_MAXAGE \<le> ae_ctime (arp_table w ! i) + 1 \<or> (ae_state (arp_table w ! i) = ETHARP_STATE_PENDING \<and> ARP_MAXPENDING \<le> ae_ctime (arp_table w ! i) + 1)"
  shows "returns (etharp_free_entry cf i (arp_set i (ae_ctime_update (\<lambda>_. ae_ctime (arp_table w ! i) + 1)) w)) (\<lambda>(_, w'). ticked cf H i w w')"
proof -
  let ?e = "arp_table w ! i" and ?w1 = "arp_set i (ae_ctime_update (\<lambda>_. ae_ctime (arp_table w ! i) + 1)) w"
  note inv = arp_invD [OF assms(1)]
  have i: "i < length (arp_table w)" using assms(2) inv(4) by simp
  have at1: "arp_table ?w1 ! i = ?e\<lparr>ae_ctime := ae_ctime ?e + 1\<rparr>" using i by simp
  have te: "cleared (arp_table ?w1 ! i) = tick ?e" unfolding at1 using assms(3-5) by (simp add: tick_def)
  have u1: "(arp_table ?w1)[i := x] = (arp_table w)[i := x]" for x by simp
  have q1: "queue_refs (arp_table ?w1) = queue_refs (arp_table w)" using i by (simp add: queue_refs_same)
  have t: "table_ok (ew_netif ?w1) ((arp_table ?w1)[i := cleared (arp_table ?w1 ! i)])"
    unfolding u1 te using tick_key [OF inv(1) assms(2) refl] by simp
  have r: "pbuf_run cf (ew_pb ?w1) (H + queue_refs (arp_table ?w1))" unfolding q1 using inv(3) by simp
  have c: "etharp_cached_entry ?w1 < 10" using inv(2) by simp
  obtain w' where w': "etharp_free_entry cf i ?w1 = Some (Inr ((), w'))" "arp_inv cf w' H" "taken i (cleared (arp_table ?w1 ! i)) ?w1 w'"
    using free_entry_core [OF t c r assms(2)] by (rule returns_pairE) simp
  note tk = taken_fields [OF w'(3)]
  have "\<not> nonempty (tick ?e)" unfolding te [symmetric] by (simp add: cleared_ok)
  then have "tick_asks (ew_netif w) ?e []" by (simp add: tick_asks_def)
  moreover have "net_same w w'" using tk(1) by (simp add: net_same_def)
  moreover have "arp_table w' = (arp_table w)[i := tick ?e]" using tk(5) unfolding te u1 .
  moreover have "etharp_cached_entry w' = etharp_cached_entry w" "ew_sent w' = ew_sent w" using tk(2,4) by simp_all
  ultimately have "ticked cf H i w w'" unfolding ticked_def using w'(2) by (intro conjI exI [of _ "[]"]) simp_all
  then show ?thesis unfolding w'(1) by simp
qed

lemma tmr_stays:
  assumes "arp_inv cf w H" "i < 10" "ae_q (tick (arp_table w ! i)) = ae_q (arp_table w ! i)"
  shows "arp_inv cf (w\<lparr>arp_table := (arp_table w)[i := tick (arp_table w ! i)]\<rparr>) H"
    "ae_state (arp_table w ! i) \<noteq> ETHARP_STATE_PENDING \<Longrightarrow> ticked cf H i w (w\<lparr>arp_table := (arp_table w)[i := tick (arp_table w ! i)]\<rparr>)"
proof -
  note inv = arp_invD [OF assms(1)]
  have i: "i < length (arp_table w)" using assms(2) inv(4) by simp
  show "arp_inv cf (w\<lparr>arp_table := (arp_table w)[i := tick (arp_table w ! i)]\<rparr>) H"
    using tick_key [OF inv(1) assms(2) refl] inv queue_refs_same [OF i assms(3)] by (simp add: arp_inv_def ARP_TABLE_SIZE_def)
  then show "ae_state (arp_table w ! i) \<noteq> ETHARP_STATE_PENDING \<Longrightarrow> ticked cf H i w (w\<lparr>arp_table := (arp_table w)[i := tick (arp_table w ! i)]\<rparr>)"
    unfolding ticked_def by (intro conjI exI [of _ "[]"]) (simp_all add: net_same_def tick_asks_def)
qed

lemma tmr_pending:
  assumes "arp_inv cf w H" "i < 10" "ae_state (arp_table w ! i) = ETHARP_STATE_PENDING" "ae_ctime (arp_table w ! i) + 1 < ARP_MAXPENDING"
  shows "returns (etharp_request cf lo (ae_netif (arp_table w ! i)) (ae_ipaddr (arp_table w ! i))
    (arp_set i (ae_ctime_update (\<lambda>_. ae_ctime (arp_table w ! i) + 1)) w)) (\<lambda>(_, w'). ticked cf H i w w')"
proof -
  let ?e = "arp_table w ! i" and ?w1 = "arp_set i (ae_ctime_update (\<lambda>_. ae_ctime (arp_table w ! i) + 1)) w"
  have te: "tick ?e = ?e\<lparr>ae_ctime := ae_ctime ?e + 1\<rparr>" using assms(3,4) by (simp add: tick_def ARP_MAXPENDING_def ARP_MAXAGE_def)
  have w1: "?w1 = w\<lparr>arp_table := (arp_table w)[i := tick ?e]\<rparr>" by (simp add: te arp_set_def)
  have "entry_ok (ew_netif w) ?e" using table_okD(2) [OF arp_invD(1) [OF assms(1)] assms(2)] .
  then obtain j n where n: "ae_netif ?e = Some j" "ew_netif w j = Some n" "nf_hwaddr_len n = 6"
    using assms(3) by (auto simp: entry_ok_def nonempty_def ether_def)
  have n1: "ew_netif ?w1 j = Some n" using n by simp
  have i1: "arp_inv cf ?w1 H" unfolding w1 by (rule tmr_stays(1) [OF assms(1,2)]) (simp add: te)
  obtain r w' where r: "etharp_request cf lo (Some j) (ae_ipaddr ?e) ?w1 = Some (Inr (r, w'))" and
    "arp_inv cf w' H \<and> io_same ?w1 w' \<and> pw_buf (ew_pb w') = pw_buf (ew_pb ?w1) \<and>
    (\<exists>out. ew_sent w' = ew_sent ?w1 @ out \<and> asked j n ethbroadcast (ae_ipaddr ?e) out \<and> r = (if out = [] then ERR_MEM else ERR_OK))"
    using request_ok [OF i1 n1 n(3), of lo "ae_ipaddr ?e"] by (rule returns_pairE)
  then obtain out where w': "arp_inv cf w' H" "io_same ?w1 w'" "ew_sent w' = ew_sent w @ out" "asked j n ethbroadcast (ae_ipaddr ?e) out" by auto
  have "tick_asks (ew_netif w) ?e out" using assms(3) n w'(4) te by (auto simp: tick_asks_def nonempty_def)
  moreover have "net_same w w'" using net_same_io [OF w'(2)] by (simp add: net_same_def)
  moreover have "arp_table w' = (arp_table w)[i := tick ?e]" using io_same_arp [OF w'(2)] by (simp add: te)
  moreover have "etharp_cached_entry w' = etharp_cached_entry w" using io_same_arp [OF w'(2)] by simp
  ultimately have "ticked cf H i w w'" unfolding ticked_def using w'(1,3) by (intro conjI exI [of _ out]) simp_all
  then show ?thesis unfolding n(1) r by simp
qed

lemma tmr_entry_ok:
  assumes "arp_inv cf w H" "i < 10"
  shows "returns (tmr_entry cf lo i w) (\<lambda>(_, w'). ticked cf H i w w')"
proof -
  let ?e = "arp_table w ! i"
  note inv = arp_invD [OF assms(1)]
  have i: "i < length (arp_table w)" using assms(2) inv(4) by simp
  have ok: "entry_ok (ew_netif w) ?e" by (rule table_okD(2) [OF inv(1) assms(2)])
  show ?thesis
  proof (cases "ae_state ?e = ETHARP_STATE_EMPTY \<or> ae_state ?e = ETHARP_STATE_STATIC")
    case True
    then have "tick ?e = ?e" by (auto simp: tick_def)
    moreover have "tmr_entry cf lo i w = Some (Inr ((), w))" using True i by (auto simp: tmr_entry_def)
    ultimately show ?thesis using tmr_stays(2) [OF assms] True by auto
  next
    case False
    then have c: "ae_ctime ?e < ARP_MAXAGE" using ok by (auto simp: entry_ok_def nonempty_def)
    have u: "u16c (ae_ctime ?e + 1) = ae_ctime ?e + 1" using c by (simp add: ARP_MAXAGE_def)
    show ?thesis
    proof (cases "ARP_MAXAGE \<le> ae_ctime ?e + 1 \<or> (ae_state ?e = ETHARP_STATE_PENDING \<and> ARP_MAXPENDING \<le> ae_ctime ?e + 1)")
      case True
      have "tmr_entry cf lo i w = etharp_free_entry cf i (arp_set i (ae_ctime_update (\<lambda>_. ae_ctime ?e + 1)) w)"
        using False True i u by (simp add: tmr_entry_def)
      then show ?thesis using tmr_gone [OF assms] False True by simp
    next
      case stay: False
      show ?thesis
      proof (cases "ae_state ?e = ETHARP_STATE_PENDING")
        case True
        have "tmr_entry cf lo i w = rbind (etharp_request cf lo (ae_netif ?e) (ae_ipaddr ?e)
            (arp_set i (ae_ctime_update (\<lambda>_. ae_ctime ?e + 1)) w)) (\<lambda>(_, w). Some (Inr ((), w)))"
          using True stay i u by (simp add: tmr_entry_def)
        moreover have "ae_ctime ?e + 1 < ARP_MAXPENDING" using True stay by auto
        ultimately show ?thesis using tmr_pending [OF assms True, of lo] by (simp add: returns_bind_iff case_prod_unfold)
      next
        case np: False
        have q: "ae_q (tick ?e) = ae_q ?e" using False stay np by (simp add: tick_def)
        have "tmr_entry cf lo i w = Some (Inr ((), w\<lparr>arp_table := (arp_table w)[i := tick ?e]\<rparr>))"
          using False stay np i u by (cases "ae_state ?e") (simp_all add: tmr_entry_def tick_def arp_set_def)
        then show ?thesis using tmr_stays(2) [OF assms q np] by simp
      qed
    qed
  qed
qed

lemma sweep_step:
  assumes "k < length T" "T1 = T[k := f (T ! k)]"
  shows "take (Suc k) T1 @ map f (drop (Suc k) T1) = take k T @ map f (drop k T)" "drop (Suc k) T1 = drop (Suc k) T" "drop k T = T ! k # drop (Suc k) T"
  using assms by (simp_all add: take_Suc_conv_app_nth Cons_nth_drop_Suc [symmetric])

lemma tmr_loop_ok:
  assumes "arp_inv cf w H" "k \<le> 10"
  shows "returns (tmr_loop cf lo [k..<10] w) (\<lambda>(_, w'). arp_inv cf w' H \<and> net_same w w' \<and> etharp_cached_entry w' = etharp_cached_entry w \<and>
    arp_table w' = take k (arp_table w) @ map tick (drop k (arp_table w)) \<and>
    (\<exists>outs. ew_sent w' = ew_sent w @ concat outs \<and> list_all2 (tick_asks (ew_netif w)) (drop k (arp_table w)) outs))"
  using assms
proof (induction "10 - k" arbitrary: k w)
  case 0
  then show ?case using arp_invD(4) [OF 0(2)] by simp
next
  case (Suc d)
  then have k: "k < 10" "k < length (arp_table w)" using arp_invD(4) [OF Suc.prems(1)] by simp_all
  obtain w1 where t: "tmr_entry cf lo k w = Some (Inr ((), w1))" "ticked cf H k w w1"
    using tmr_entry_ok [OF Suc.prems(1) k(1), of lo] by (rule returns_pairE) simp
  then obtain out where w1: "arp_inv cf w1 H" "net_same w w1" "etharp_cached_entry w1 = etharp_cached_entry w"
    "arp_table w1 = (arp_table w)[k := tick (arp_table w ! k)]" "ew_sent w1 = ew_sent w @ out" "tick_asks (ew_netif w) (arp_table w ! k) out"
    by (auto simp: ticked_def)
  note st = sweep_step [where f = tick, OF k(2) w1(4)]
  have d: "d = 10 - Suc k" using Suc.hyps(2) by simp
  obtain w2 outs where w2: "tmr_loop cf lo [Suc k..<10] w1 = Some (Inr ((), w2))" "arp_inv cf w2 H" "net_same w1 w2"
    "etharp_cached_entry w2 = etharp_cached_entry w1" "arp_table w2 = take (Suc k) (arp_table w1) @ map tick (drop (Suc k) (arp_table w1))"
    "ew_sent w2 = ew_sent w1 @ concat outs" "list_all2 (tick_asks (ew_netif w1)) (drop (Suc k) (arp_table w1)) outs"
    using Suc.hyps(1) [OF d w1(1)] k(1) by (auto elim!: returns_pairE)
  have nf: "ew_netif w1 = ew_netif w" using w1(2) by (simp add: net_same_def)
  have "tmr_loop cf lo [k..<10] w = Some (Inr ((), w2))" using k t(1) w2(1) by (simp add: upt_conv_Cons)
  moreover have "net_same w w2" using net_same_trans [OF w1(2) w2(3)] .
  moreover have "ew_sent w2 = ew_sent w @ concat (out # outs)" using w1(5) w2(6) by simp
  moreover have "list_all2 (tick_asks (ew_netif w)) (drop k (arp_table w)) (out # outs)" using w2(7) w1(6) unfolding st nf by simp
  moreover have "arp_table w2 = take k (arp_table w) @ map tick (drop k (arp_table w))" using w2(5) unfolding st(1) .
  ultimately show ?case using w2(2,4) w1(3) by (simp only: returns_simps split) blast
qed

lemma etharp_tmr_ok:
  assumes "arp_inv cf w H"
  shows "returns (etharp_tmr cf lo w) (\<lambda>(_, w'). arp_inv cf w' H \<and> net_same w w' \<and> etharp_cached_entry w' = etharp_cached_entry w \<and>
    arp_table w' = map tick (arp_table w) \<and>
    (\<exists>outs. ew_sent w' = ew_sent w @ concat outs \<and> list_all2 (tick_asks (ew_netif w)) (arp_table w) outs))"
  using tmr_loop_ok [OF assms, of 0 lo] by (simp add: etharp_tmr_def ARP_TABLE_SIZE_def)

text \<open>The calls of \<open>n\<close> seconds.\<close>

primrec seconds :: "custom_free \<Rightarrow> linkoutput \<Rightarrow> nat \<Rightarrow> 'a aworld_scheme \<Rightarrow> (unit \<times> 'a aworld_scheme) run" where
  "seconds cf lo 0 w = Some (Inr ((), w))"
| "seconds cf lo (Suc n) w = rbind (etharp_tmr cf lo w) (\<lambda>(_, w). seconds cf lo n w)"

lemma seconds_ok:
  assumes "arp_inv cf w H"
  shows "returns (seconds cf lo n w) (\<lambda>(_, w'). arp_inv cf w' H \<and> arp_table w' = map (tick ^^ n) (arp_table w))"
  using assms
proof (induction n arbitrary: w)
  case (Suc n)
  obtain w1 where w1: "etharp_tmr cf lo w = Some (Inr ((), w1))" "arp_inv cf w1 H" "arp_table w1 = map tick (arp_table w)"
    using etharp_tmr_ok [OF Suc.prems, of lo] by (auto elim!: returns_pairE)
  have "map (tick ^^ n) (arp_table w1) = map (tick ^^ Suc n) (arp_table w)" unfolding w1(3) by (simp add: funpow_swap1)
  then show ?case using Suc.IH [OF w1(2)] unfolding seconds.simps w1(1) by (simp del: funpow.simps)
qed simp

definition lifetime :: "arp_entry \<Rightarrow> nat" where
  "lifetime e = (if ae_state e = ETHARP_STATE_PENDING then ARP_MAXPENDING else ARP_MAXAGE)"

definition usable :: "arp_entry \<Rightarrow> bool" where
  "usable e \<longleftrightarrow> ETHARP_STATE_STABLE \<le> ae_state e"

lemma tick_step:
  assumes "nonempty e" "ae_ctime e < lifetime e"
  shows "nonempty (tick e) \<longleftrightarrow> ae_state e = ETHARP_STATE_STATIC \<or> ae_ctime e + 1 < lifetime e"
    "nonempty (tick e) \<Longrightarrow> usable (tick e) = usable e \<and> lifetime (tick e) = lifetime e \<and> same_key (tick e) e \<and> ae_ethaddr (tick e) = ae_ethaddr e \<and>
       (ae_state (tick e) = ETHARP_STATE_STATIC \<longleftrightarrow> ae_state e = ETHARP_STATE_STATIC) \<and>
       ae_ctime (tick e) = (if ae_state e = ETHARP_STATE_STATIC then ae_ctime e else ae_ctime e + 1)"
  using assms
  by (cases "ae_state e"; auto simp: tick_def lifetime_def nonempty_def usable_def same_key_def less_eq_etharp_state_def Let_def cleared_def ARP_MAXAGE_def
      ARP_MAXPENDING_def split: if_splits)+

lemma tick_empty: "\<not> nonempty e \<Longrightarrow> tick e = e"
  by (simp add: tick_def nonempty_def)

lemma tick_pow_empty: "\<not> nonempty e \<Longrightarrow> (tick ^^ n) e = e"
  by (induction n) (simp_all add: tick_empty)

lemma tick_pow:
  assumes "nonempty e" "ae_ctime e < lifetime e"
  shows "(nonempty ((tick ^^ n) e) \<longleftrightarrow> ae_state e = ETHARP_STATE_STATIC \<or> ae_ctime e + n < lifetime e) \<and>
    (nonempty ((tick ^^ n) e) \<longrightarrow> usable ((tick ^^ n) e) = usable e \<and> same_key ((tick ^^ n) e) e \<and> ae_ethaddr ((tick ^^ n) e) = ae_ethaddr e)"
  using assms
proof (induction n arbitrary: e)
  case 0
  then show ?case by (simp add: same_key_def)
next
  case (Suc n)
  note st = tick_step [OF Suc.prems]
  have p: "(tick ^^ Suc n) e = (tick ^^ n) (tick e)" by (simp add: funpow_swap1)
  show ?case
  proof (cases "nonempty (tick e)")
    case False
    then show ?thesis unfolding p tick_pow_empty [OF False] using st(1) by simp
  next
    case True
    note s2 = st(2) [OF True]
    have "ae_ctime (tick e) < lifetime (tick e)" using s2 st(1) True Suc.prems(2) by (auto split: if_splits)
    note ih = Suc.IH [OF True this]
    show ?thesis unfolding p using ih s2 Suc.prems by (auto simp: same_key_def split: if_splits)
  qed
qed

lemma holds_usable: "holds_key x e \<longleftrightarrow> usable e \<and> ae_netif e = Some (snd x) \<and> ae_ipaddr e = fst x"
  by (auto simp: holds_key_def stable_for_def usable_def)

lemma usable_nonempty: "usable e \<Longrightarrow> nonempty e \<and> lifetime e = ARP_MAXAGE"
  by (cases "ae_state e") (auto simp: usable_def nonempty_def lifetime_def less_eq_etharp_state_def)

lemma entry_ok_lifetime: "entry_ok nf e \<Longrightarrow> nonempty e \<Longrightarrow> ae_ctime e < lifetime e"
  by (simp add: entry_ok_def lifetime_def)

text \<open>The map after \<open>n\<close> seconds: what is young enough, or static.\<close>

definition survives :: "nat \<Rightarrow> arp_entry \<Rightarrow> bool" where
  "survives n e \<longleftrightarrow> ae_state e = ETHARP_STATE_STATIC \<or> ae_ctime e + n < ARP_MAXAGE"

lemma holds_tick:
  assumes "entry_ok nf e"
  shows "holds_key x ((tick ^^ n) e) \<longleftrightarrow> holds_key x e \<and> survives n e"
    "holds_key x ((tick ^^ n) e) \<Longrightarrow> ae_ethaddr ((tick ^^ n) e) = ae_ethaddr e"
proof -
  have "(holds_key x ((tick ^^ n) e) \<longleftrightarrow> holds_key x e \<and> survives n e) \<and> (holds_key x ((tick ^^ n) e) \<longrightarrow> ae_ethaddr ((tick ^^ n) e) = ae_ethaddr e)"
  proof (cases "nonempty e")
    case False
    then show ?thesis using usable_nonempty [of e] by (auto simp: tick_pow_empty holds_usable)
  next
    case True
    note t = tick_pow [OF True entry_ok_lifetime [OF assms True], of n]
    show ?thesis
    proof (cases "usable e")
      case True
      then show ?thesis using t usable_nonempty [of e] usable_nonempty [of "(tick ^^ n) e"]
        by (auto simp: holds_usable survives_def same_key_def)
    next
      case False
      then have "\<not> usable ((tick ^^ n) e)" using t usable_nonempty [of "(tick ^^ n) e"] by blast
      then show ?thesis using False by (simp add: holds_usable)
    qed
  qed
  then show "holds_key x ((tick ^^ n) e) \<longleftrightarrow> holds_key x e \<and> survives n e"
    "holds_key x ((tick ^^ n) e) \<Longrightarrow> ae_ethaddr ((tick ^^ n) e) = ae_ethaddr e" by blast+
qed

lemma expiry_ok:
  assumes "arp_inv cf w H"
  shows "returns (seconds cf lo n w) (\<lambda>(_, w'). arp_inv cf w' H \<and>
    (\<forall>k<10. nonempty (arp_table w ! k) \<longrightarrow> (nonempty (arp_table w' ! k) \<longleftrightarrow>
       ae_state (arp_table w ! k) = ETHARP_STATE_STATIC \<or> ae_ctime (arp_table w ! k) + n < lifetime (arp_table w ! k))) \<and>
    (\<forall>x m. cache (arp_table w') x = Some m \<longleftrightarrow> (\<exists>k<10. holds_key x (arp_table w ! k) \<and> survives n (arp_table w ! k) \<and> ae_ethaddr (arp_table w ! k) = m)))"
proof -
  note inv = arp_invD [OF assms]
  obtain w' where w': "seconds cf lo n w = Some (Inr ((), w'))" "arp_inv cf w' H" "arp_table w' = map (tick ^^ n) (arp_table w)"
    using seconds_ok [OF assms, of lo n] by (auto elim!: returns_pairE)
  have at: "arp_table w' ! k = (tick ^^ n) (arp_table w ! k)" if "k < 10" for k using w'(3) inv(4) that by simp
  have ok: "entry_ok (ew_netif w) (arp_table w ! k)" if "k < 10" for k by (rule table_okD(2) [OF inv(1) that])
  have 1: "nonempty (arp_table w' ! k) \<longleftrightarrow> ae_state (arp_table w ! k) = ETHARP_STATE_STATIC \<or> ae_ctime (arp_table w ! k) + n < lifetime (arp_table w ! k)"
    if "k < 10" "nonempty (arp_table w ! k)" for k
    using tick_pow [OF that(2) entry_ok_lifetime [OF ok [OF that(1)] that(2)], of n] at [OF that(1)] by simp
  have 2: "cache (arp_table w') x = Some m \<longleftrightarrow> (\<exists>k<10. holds_key x (arp_table w ! k) \<and> survives n (arp_table w ! k) \<and> ae_ethaddr (arp_table w ! k) = m)" for x m
    unfolding cache_iff [OF arp_invD(1) [OF w'(2)]] using at holds_tick [OF ok] by metis
  show ?thesis unfolding w'(1) returns_simps split using w'(2) 1 2 by blast
qed

section \<open>Interfaces that go away, static entries\<close>

definition sweep_netif :: "nat option \<Rightarrow> arp_entry \<Rightarrow> arp_entry" where
  "sweep_netif netif e = (if nonempty e \<and> ae_netif e = netif then cleared e else e)"

lemma cleanup_loop_ok:
  assumes "arp_inv cf w H" "k \<le> 10"
  shows "returns (cleanup_loop cf netif [k..<10] w) (\<lambda>(_, w'). arp_inv cf w' H \<and> net_same w w' \<and> etharp_cached_entry w' = etharp_cached_entry w \<and>
    ew_sent w' = ew_sent w \<and> arp_table w' = take k (arp_table w) @ map (sweep_netif netif) (drop k (arp_table w)))"
  using assms
proof (induction "10 - k" arbitrary: k w)
  case 0
  then show ?case using arp_invD(4) [OF 0(2)] by simp
next
  case (Suc d)
  then have k: "k < 10" "k < length (arp_table w)" using arp_invD(4) [OF Suc.prems(1)] by simp_all
  let ?b = "if ae_state (arp_table w ! k) \<noteq> ETHARP_STATE_EMPTY \<and> ae_netif (arp_table w ! k) = netif then etharp_free_entry cf k w else Some (Inr ((), w))"
  have "returns ?b (\<lambda>(_, w1). arp_inv cf w1 H \<and> net_same w w1 \<and> etharp_cached_entry w1 = etharp_cached_entry w \<and> ew_sent w1 = ew_sent w \<and>
      arp_table w1 = (arp_table w)[k := sweep_netif netif (arp_table w ! k)])"
  proof (cases "nonempty (arp_table w ! k) \<and> ae_netif (arp_table w ! k) = netif")
    case True
    then obtain w1 where "etharp_free_entry cf k w = Some (Inr ((), w1))" "arp_inv cf w1 H" "taken k (cleared (arp_table w ! k)) w w1"
      using free_entry_ok [OF Suc.prems(1) k(1)] by (auto elim!: returns_pairE)
    then show ?thesis using True taken_fields [of k "cleared (arp_table w ! k)" w w1] by (simp add: sweep_netif_def nonempty_def)
  next
    case False
    then show ?thesis using Suc.prems(1) by (auto simp: sweep_netif_def nonempty_def)
  qed
  then obtain w1 where b: "?b = Some (Inr ((), w1))" and w1: "arp_inv cf w1 H" "net_same w w1" "etharp_cached_entry w1 = etharp_cached_entry w"
    "ew_sent w1 = ew_sent w" "arp_table w1 = (arp_table w)[k := sweep_netif netif (arp_table w ! k)]" by (auto elim!: returns_pairE)
  note st = sweep_step [where f = "sweep_netif netif", OF k(2) w1(5)]
  have d: "d = 10 - Suc k" using Suc.hyps(2) by simp
  have "cleanup_loop cf netif [k..<10] w = cleanup_loop cf netif [Suc k..<10] w1"
    using k b by (simp add: upt_conv_Cons)
  then show ?case using Suc.hyps(1) [OF d w1(1)] k(1) w1(2-4) unfolding st(1) by (auto elim!: returns_pairE intro: net_same_trans)
qed

lemma cleanup_ok:
  assumes "arp_inv cf w H" "\<forall>i. Some i \<noteq> netif \<longrightarrow> nf' i = ew_netif w i"
  shows "returns (etharp_cleanup_netif cf netif w) (\<lambda>(_, w'). arp_inv cf (w'\<lparr>ew_netif := nf'\<rparr>) H \<and> net_same w w' \<and> ew_sent w' = ew_sent w \<and>
    arp_table w' = map (sweep_netif netif) (arp_table w))"
proof -
  obtain w' where w': "etharp_cleanup_netif cf netif w = Some (Inr ((), w'))" "arp_inv cf w' H" "net_same w w'" "ew_sent w' = ew_sent w"
    "arp_table w' = map (sweep_netif netif) (arp_table w)"
    using cleanup_loop_ok [OF assms(1), of 0 netif] by (auto simp: etharp_cleanup_netif_def ARP_TABLE_SIZE_def elim!: returns_pairE)
  note inv = arp_invD [OF w'(2)]
  have "table_ok nf' (arp_table w')"
  proof (rule table_okI [OF inv(4)])
    fix k :: nat assume k: "k < 10"
    have ok: "entry_ok (ew_netif w) (arp_table w' ! k)" using table_okD(2) [OF inv(1) k] w'(3) by (simp add: net_same_def)
    have "\<not> (nonempty (arp_table w' ! k) \<and> ae_netif (arp_table w' ! k) = netif)" using w'(5) k arp_invD(4) [OF assms(1)] cleared_ok(2)
      by (auto simp: sweep_netif_def)
    then show "entry_ok nf' (arp_table w' ! k)" using ok assms(2) by (auto simp: entry_ok_def ether_def)
  qed (use table_okD(3) [OF inv(1)] in blast)
  then have "arp_inv cf (w'\<lparr>ew_netif := nf'\<rparr>) H" using inv by (simp add: arp_inv_def ARP_TABLE_SIZE_def)
  then show ?thesis using w' by simp
qed

lemma find_any_ok:
  assumes "arp_inv cf w H"
  shows "\<exists>r. etharp_find_entry cf (Some a) ETHARP_FLAG_FIND_ONLY netif w = Some (Inr (r, w)) \<and>
    ((\<exists>k<10. r = int k \<and> matches (Some a) netif (arp_table w ! k) \<and> (\<forall>j<k. \<not> matches (Some a) netif (arp_table w ! j))) \<or>
     r = ERR_MEM \<and> (\<forall>j<10. \<not> matches (Some a) netif (arp_table w ! j)))"
  by (rule find_only_ok [OF assms]) (simp add: ETHARP_FLAG_FIND_ONLY_def)

lemma remove_static_ok:
  assumes "arp_inv cf w H"
  shows "returns (etharp_remove_static_entry cf a w) (\<lambda>(r, w'). arp_inv cf w' H \<and> net_same w w' \<and> ew_sent w' = ew_sent w \<and>
    (r = ERR_MEM \<and> w' = w \<and> (\<forall>j<10. \<not> matches (Some a) None (arp_table w ! j)) \<or>
     (\<exists>k<10. matches (Some a) None (arp_table w ! k) \<and> (\<forall>j<k. \<not> matches (Some a) None (arp_table w ! j)) \<and>
       (if ae_state (arp_table w ! k) = ETHARP_STATE_STATIC then r = ERR_OK \<and> arp_table w' = (arp_table w)[k := cleared (arp_table w ! k)]
        else r = ERR_ARG \<and> w' = w))))"
proof -
  note inv = arp_invD [OF assms]
  obtain r where f: "etharp_find_entry cf (Some a) ETHARP_FLAG_FIND_ONLY None w = Some (Inr (r, w))" and
    c: "(\<exists>k<10. r = int k \<and> matches (Some a) None (arp_table w ! k) \<and> (\<forall>j<k. \<not> matches (Some a) None (arp_table w ! j))) \<or>
      r = ERR_MEM \<and> (\<forall>j<10. \<not> matches (Some a) None (arp_table w ! j))"
    using find_any_ok [OF assms, of a None] by blast
  from c show ?thesis
  proof (elim disjE exE conjE)
    fix k assume k: "k < 10" "r = int k" "matches (Some a) None (arp_table w ! k)" "\<forall>j<k. \<not> matches (Some a) None (arp_table w ! j)"
    show ?thesis
    proof (cases "ae_state (arp_table w ! k) = ETHARP_STATE_STATIC")
      case True
      obtain w' where w': "etharp_free_entry cf k w = Some (Inr ((), w'))" "arp_inv cf w' H" "taken k (cleared (arp_table w ! k)) w w'"
        using free_entry_ok [OF assms k(1)] by (auto elim!: returns_pairE)
      note t = taken_fields [OF w'(3)]
      have "etharp_remove_static_entry cf a w = Some (Inr (ERR_OK, w'))" using f k True w'(1) inv(4) by (simp add: etharp_remove_static_entry_def)
      then show ?thesis using w'(2) t True k by simp blast
    next
      case False
      have "etharp_remove_static_entry cf a w = Some (Inr (ERR_ARG, w))" using f k False inv(4) by (simp add: etharp_remove_static_entry_def)
      then show ?thesis using False k assms by simp blast
    qed
  next
    assume "r = ERR_MEM" "\<forall>j<10. \<not> matches (Some a) None (arp_table w ! j)"
    then show ?thesis using f assms by (simp add: etharp_remove_static_entry_def)
  qed
qed

section \<open>Queueing a packet\<close>

lemma copy_loop_run:
  assumes "copy_loop t f ot og s = Some r" "pbuf_run cf s G"
  shows "\<forall>e s'. r = Inr (e, s') \<longrightarrow> pbuf_run cf s' G"
proof -
  have m: "pbuf_run cf (memcpy a b n s) G" if "pbuf_run cf s G" for a b n s using that by (simp add: memcpy_def pbuf_run.bytes)
  have "pbuf_run cf s G \<longrightarrow> (\<forall>e s'. r = Inr (e, s') \<longrightarrow> pbuf_run cf s' G)"
    by (rule copy_loop.raw_induct [where P = "\<lambda>_ _ _ _ s r. pbuf_run cf s G \<longrightarrow> (\<forall>e s'. r = Inr (e, s') \<longrightarrow> pbuf_run cf s' G)", OF _ assms(1)])
      (auto simp: Let_def intro: m split: sum.splits if_splits; blast intro: m)
  then show ?thesis using assms(2) by blast
qed

text \<open>A packet with a buffer whose data may change under the queue.\<close>

definition needs_copy :: "pworld \<Rightarrow> nat \<Rightarrow> bool" where
  "needs_copy s q \<longleftrightarrow> (\<exists>qs. chain_of s (Some q) qs \<and> (\<exists>x\<in>set qs. \<exists>b. pw_buf s x = Some b \<and> PBUF_NEEDS_COPY b))"

lemma chain_of_unique: "chain_of s p xs \<Longrightarrow> chain_of s p ys \<Longrightarrow> xs = ys"
proof (induction xs arbitrary: p ys)
  case (Cons x xs)
  then show ?case by (cases ys) auto
qed (auto elim: chain_of.elims)

lemma sendable_chain:
  assumes "packet s q qs" "ends_full s qs"
  shows "\<exists>b. copy_needed_loop (Some q) s = Some (Inr b) \<and> (b \<longrightarrow> needs_copy s q)"
proof -
  have "\<exists>b. copy_needed_loop p s = Some (Inr b) \<and> (b \<longrightarrow> (\<exists>x\<in>set qs. \<exists>b. pw_buf s x = Some b \<and> PBUF_NEEDS_COPY b))" if "chain_of s p qs" "lens_ok s qs" "ends_full s qs" for p qs
    using that
  proof (induction qs arbitrary: p)
    case (Cons x qs)
    obtain b where b: "p = Some x" "pw_buf s x = Some b" "chain_of s (pb_next b) qs" "tot_len b = length (addrs s (x # qs))" "lens_ok s qs"
      using Cons.prems by auto
    have "pb_len b \<noteq> tot_len b \<or> pb_next b = None"
    proof (cases "pb_next b")
      case (Some y)
      then have "qs \<noteq> []" using b(3) by auto
      then have "0 < length (addrs s qs)" by (rule ends_full_pos [OF Cons.prems(3)])
      then show ?thesis using b(2,4) by (simp add: span_Some)
    qed simp
    then show ?case using Cons.IH [OF b(3,5) ends_full_tl [OF Cons.prems(3)]] b(1,2) by (subst copy_needed_loop.simps) auto
  qed (intro exI [of _ False], simp add: copy_needed_loop.simps)
  from this [of "Some q" qs] show ?thesis using assms unfolding packet_def needs_copy_def by blast
qed

lemma run_clone:
  assumes "pbuf_run cf s G" "packet s q qs" "ends_full s qs"
  shows "\<exists>r s'. pbuf_clone cf PBUF_LINK PBUF_RAM q s = Some (Inr (r, s')) \<and> pbuf_run cf s' (handed r G) \<and>
    (case r of None \<Rightarrow> pw_buf s' = pw_buf s \<and> pw_byte s' = pw_byte s
     | Some t \<Rightarrow> pw_buf s t = None \<and> (\<exists>a. t + 30 \<le> a \<and> pw_buf s' = (pw_buf s)(t \<mapsto> \<lparr>pb_next = None, payload = a, tot_len = length (addrs s qs),
           pb_len = length (addrs s qs), type_internal = 0x80, pb_flags = 0, pb_ref = 1, if_idx = 0\<rparr>) \<and>
         (set (addrs s' [t]) \<inter> set (addrs s qs) = {} \<longrightarrow> content s' [t] = content s qs)))"
proof -
  obtain b where b: "pw_buf s q = Some b" "tot_len b = length (addrs s qs)" "hd qs = q" "qs \<noteq> []" by (rule packet_head [OF assms(2)])
  let ?n = "length (addrs s qs)"
  have n: "?n < 65536" using assms(2) by (simp add: packet_def)
  obtain r s1 where a: "pbuf_alloc cf PBUF_LINK ?n PBUF_RAM s = Some (Inr (r, s1))" "pbuf_run cf s1 (handed r G)" "pw_byte s1 = pw_byte s"
    "case r of None \<Rightarrow> pw_buf s1 = pw_buf s
     | Some p \<Rightarrow> pw_buf s p = None \<and> (\<exists>a. p + 16 + 14 \<le> a \<and> pw_buf s1 = (pw_buf s)(p \<mapsto>
         \<lparr>pb_next = None, payload = a, tot_len = ?n, pb_len = ?n, type_internal = 0x80, pb_flags = 0, pb_ref = 1, if_idx = 0\<rparr>))"
    using run_alloc [OF assms(1) n, of 14] by auto
  show ?thesis
  proof (cases r)
    case None
    then show ?thesis using a b by (simp add: pbuf_clone_def deref_def)
  next
    case (Some t)
    then have "pw_buf s t = None" "\<exists>ad. t + 16 + 14 \<le> ad \<and> pw_buf s1 = (pw_buf s)(t \<mapsto>
         \<lparr>pb_next = None, payload = ad, tot_len = ?n, pb_len = ?n, type_internal = 0x80, pb_flags = 0, pb_ref = 1, if_idx = 0\<rparr>)"
      using a(4) by simp_all
    then obtain ad where t: "pw_buf s t = None" "t + 30 \<le> ad" and up: "pw_buf s1 = (pw_buf s)(t \<mapsto>
         \<lparr>pb_next = None, payload = ad, tot_len = ?n, pb_len = ?n, type_internal = 0x80, pb_flags = 0, pb_ref = 1, if_idx = 0\<rparr>)"
      by (elim exE conjE) (rule that; simp)
    have live: "x \<noteq> t" if "x \<in> set qs" for x
    proof -
      have "pw_buf s x \<noteq> None" if "chain_of s p xs" "x \<in> set xs" for p xs using that by (induction xs arbitrary: p) auto
      then show ?thesis using that t(1) assms(2) by (auto simp: packet_def)
    qed
    have same: "pw_buf s1 x = pw_buf s x" if "x \<in> set qs" for x using up live [OF that] by simp
    have ch: "chain_of s1 p xs = chain_of s p xs" if "set xs \<subseteq> set qs" for p xs
      using that same by (induction xs arbitrary: p) auto
    have sp: "span s1 x = span s x" if "x \<in> set qs" for x using same [OF that] by (simp add: span_def)
    have ad: "addrs s1 xs = addrs s xs" if "set xs \<subseteq> set qs" for xs using sp that unfolding addrs_def by (metis (no_types, lifting) map_cong subsetD)
    have le: "lens_ok s1 xs = lens_ok s xs" if "set xs \<subseteq> set qs" for xs
      using that
    proof (induction xs)
      case (Cons x xs)
      then show ?case using same [of x] ad [of "x # xs"] by (simp del: addrs_simps)
    qed simp
    have ef: "ends_full s1 qs" using assms(3) sp b(4) by (simp add: ends_full_def)
    have st: "span s1 t = [ad..<ad + ?n]" using up by (simp add: span_def)
    have T: "chain_of s1 (head [t]) [t]" "lens_ok s1 [t]" "ends_full s1 [t]" using up st by (simp_all add: head_def ends_full_def)
    have F: "chain_of s1 (head qs) qs" "lens_ok s1 qs" "length (addrs s1 qs) < 65536"
      using assms(2) ch [of qs] le [of qs] ad [of qs] chain_head by (auto simp: packet_def)
    have adT: "addrs s1 [t] = [ad..<ad + ?n]" by (simp add: st)
    obtain s2 where c: "copy_loop (head [t]) (head qs) 0 0 s1 = Some (Inr (ERR_OK, s2))" "pw_buf s2 = pw_buf s1"
      "set (addrs s1 [t]) \<inter> set (addrs s1 qs) = {} \<longrightarrow> map (pw_byte s2) (addrs s1 [t]) = map (pw_byte s1) (addrs s1 qs)"
      using copy_loop_chain [OF _ b(4) T(1) F(1) T(2) F(2) T(3) ef _ F(3), of 0 0] n ad [of qs] by (auto simp: st)
    have h: "head [t] = Some t" "head qs = Some q" using b(3,4) by (auto simp: head_def split: list.splits)
    have "pbuf_copy (Some t) (Some q) s1 = Some (Inr (ERR_OK, s2))"
      using c(1) up b(1,2) same [of q] b(3,4) unfolding h by (auto simp: pbuf_copy_def deref_def hd_in_set)
    then have "pbuf_clone cf PBUF_LINK PBUF_RAM q s = Some (Inr (Some t, s2))"
      using a(1) b(1,2) Some by (simp add: pbuf_clone_def deref_def)
    moreover have "pbuf_run cf s2 (handed (Some t) G)" using copy_loop_run [OF c(1)] a(2) Some by blast
    moreover have "content s2 [t] = content s qs" if "set (addrs s2 [t]) \<inter> set (addrs s qs) = {}"
      using c(3) that unfolding content_def addrs_cong [OF c(2)] ad [OF order_refl] a(3) by blast
    ultimately show ?thesis using t up c(2) by (intro exI conjI) auto
  qed
qed

text \<open>A packet the caller may hand over: its own reference counts, its lengths are right, and one more reference fits.\<close>

definition outgoing :: "pworld \<Rightarrow> nat multiset \<Rightarrow> nat \<Rightarrow> bool" where
  "outgoing s H q \<longleftrightarrow> q \<in># H \<and> sendable s q \<and> (\<forall>b. pw_buf s q = Some b \<longrightarrow> pb_ref b < 255)"

lemma outgoing_kept:
  assumes "outgoing s H q" "pbuf_run cf s (H + Q)" "pbuf_run cf s' (H + Q')" "Q' \<subseteq># Q" "shape_kept s s'"
  shows "outgoing s' H q"
proof -
  have q: "q \<in># H" "sendable s q" using assms(1) by (simp_all add: outgoing_def)
  have "sendable s' q" using kept_sendable [OF assms(3,5) _ q(2)] q(1) by simp
  moreover have "pb_ref b' < 255" if b': "pw_buf s' q = Some b'" for b'
  proof -
    obtain b where b: "pw_buf s q = Some b" using assms(5) b' by (auto simp: shape_kept_def)
    have "pb_ref b' \<le> pb_ref b" by (rule kept_ref [OF assms(2,3) _ assms(5) b b']) (simp add: assms(4))
    moreover have "pb_ref b < 255" using assms(1) b by (simp add: outgoing_def)
    ultimately show ?thesis by simp
  qed
  ultimately show ?thesis using q(1) by (simp add: outgoing_def)
qed

lemma needs_copy_kept:
  assumes "pbuf_run cf s' G" "shape_kept s s'" "q \<in># G" "sendable s q" "needs_copy s' q"
  shows "needs_copy s q"
proof -
  obtain qs where qs: "chain_of s (Some q) qs" using assms(4) by (auto simp: sendable_def packet_def)
  have "chain_of s' (Some q) qs" using kept_chain [OF assms(1,2) qs] run_live [OF assms(1,3)] by auto
  then obtain x b' where x: "x \<in> set qs" "pw_buf s' x = Some b'" "PBUF_NEEDS_COPY b'"
    using assms(5) chain_of_unique unfolding needs_copy_def by metis
  obtain b where "pw_buf s x = Some b" "type_internal b' = type_internal b" using shape_keptE [OF assms(2) x(2)] .
  then show ?thesis using qs x(1,3) unfolding needs_copy_def PBUF_NEEDS_COPY_def by auto
qed

lemma entry_queue: "entry_ok nf e \<Longrightarrow> ae_state e = ETHARP_STATE_PENDING \<Longrightarrow> entry_ok nf (e\<lparr>ae_q := x\<rparr>)"
  by (simp add: entry_ok_def nonempty_def)

text \<open>The packet, or a copy of it, with one reference more.\<close>

lemma take_packet:
  assumes "pbuf_run cf (ew_pb w) (H + Q)" "outgoing (ew_pb w) H q"
  shows "\<exists>b p s. copy_needed_loop (Some q) (ew_pb w) = Some (Inr b) \<and>
    (if b then on_pb (pbuf_clone cf PBUF_LINK PBUF_RAM q) w else on_pb (\<lambda>s. Some (seq (pbuf_ref (Some q) s) (\<lambda>s. Inr (Some q, s)))) w) =
      Some (Inr (p, w\<lparr>ew_pb := s\<rparr>)) \<and> pbuf_run cf s (handed p (H + Q)) \<and> (p = Some q \<or> needs_copy (ew_pb w) q \<and> (\<forall>t. p = Some t \<longrightarrow> t \<notin># H))"
proof -
  obtain qs where q: "packet (ew_pb w) q qs" "ends_full (ew_pb w) qs" "q \<in># H" "\<forall>b. pw_buf (ew_pb w) q = Some b \<longrightarrow> pb_ref b < 255"
    using assms(2) by (auto simp: outgoing_def sendable_def)
  obtain b where b: "copy_needed_loop (Some q) (ew_pb w) = Some (Inr b)" "b \<longrightarrow> needs_copy (ew_pb w) q" using sendable_chain [OF q(1,2)] by blast
  show ?thesis
  proof (cases b)
    case True
    obtain r s' where c: "pbuf_clone cf PBUF_LINK PBUF_RAM q (ew_pb w) = Some (Inr (r, s'))" "pbuf_run cf s' (handed r (H + Q))"
      "case r of None \<Rightarrow> True | Some t \<Rightarrow> pw_buf (ew_pb w) t = None"
      using run_clone [OF assms(1) q(1,2)] by (auto split: option.splits)
    have "t \<notin># H" if "r = Some t" for t using c(3) that run_live [OF assms(1), of t] by auto
    then show ?thesis using b c True by (intro exI [of _ b] exI [of _ r] exI [of _ s']) (simp add: on_pb_def)
  next
    case False
    obtain L where L: "chains_inv (ew_pb w) L (H + Q)" using pbuf_run_inv [OF assms(1)] by blast
    obtain c where c: "pw_buf (ew_pb w) q = Some c" "pb_ref c < 255" using run_live [OF assms(1), of q] q(3,4) by auto
    obtain s' where s': "pbuf_ref (Some q) (ew_pb w) = Inr s'" using ref_ok [OF L c(1)] c(2) by auto
    have "pbuf_run cf s' (add_mset q (H + Q))" by (rule pbuf_run.ref [OF assms(1) _ s']) (simp add: c(1))
    then show ?thesis using b s' False by (intro exI [of _ b] exI [of _ "Some q"] exI [of _ s']) (simp add: on_pb_def)
  qed
qed

lemma queue_packet_ok:
  assumes "arp_inv cf w H" "i < 10" "ae_state (arp_table w ! i) = ETHARP_STATE_PENDING" "outgoing (ew_pb w) H q"
  shows "returns (queue_packet cf i q w) (\<lambda>(r, w'). arp_inv cf w' H \<and> net_same w w' \<and> etharp_cached_entry w' = etharp_cached_entry w \<and>
    ew_sent w' = ew_sent w \<and> (r = ERR_MEM \<and> needs_copy (ew_pb w) q \<and> arp_table w' = arp_table w \<or>
      r = ERR_OK \<and> (\<exists>p. (p = q \<or> needs_copy (ew_pb w) q \<and> p \<notin># H) \<and> arp_table w' = (arp_table w)[i := (arp_table w ! i)\<lparr>ae_q := Some p\<rparr>])))"
proof -
  let ?e = "arp_table w ! i"
  note inv = arp_invD [OF assms(1)]
  have i: "i < length (arp_table w)" using assms(2) inv(4) by simp
  have t: "table_ok (ew_netif w) ((arp_table w)[i := ?e\<lparr>ae_q := x\<rparr>])" for x
    by (rule table_ok_same_key [OF inv(1) assms(2) entry_queue]) (use table_okD(2) [OF inv(1) assms(2)] assms(3) in \<open>simp_all add: nonempty_def same_key_def\<close>)
  obtain b p s where c: "copy_needed_loop (Some q) (ew_pb w) = Some (Inr b)" and
    k: "(if b then on_pb (pbuf_clone cf PBUF_LINK PBUF_RAM q) w else on_pb (\<lambda>s. Some (seq (pbuf_ref (Some q) s) (\<lambda>s. Inr (Some q, s)))) w) =
      Some (Inr (p, w\<lparr>ew_pb := s\<rparr>))" "pbuf_run cf s (handed p (H + queue_refs (arp_table w)))" "p = Some q \<or> needs_copy (ew_pb w) q \<and> (\<forall>t. p = Some t \<longrightarrow> t \<notin># H)"
    using take_packet [OF inv(3) assms(4)] by blast
  have go: "queue_packet cf i q w = (case p of
         None \<Rightarrow> Some (Inr (ERR_MEM, stats_inc ArpMemerr (w\<lparr>ew_pb := s\<rparr>)))
       | Some p \<Rightarrow> rbind (case ae_q ?e of
               None \<Rightarrow> Some (Inr ((), w\<lparr>ew_pb := s\<rparr>))
             | Some old \<Rightarrow> rbind (on_pb (pbuf_free cf (Some old)) (w\<lparr>ew_pb := s\<rparr>)) (\<lambda>(_, w). Some (Inr ((), w)))) (\<lambda>(_, w).
             Some (Inr (ERR_OK, arp_set i (ae_q_update (\<lambda>_. Some p)) w))))"
    unfolding queue_packet_def c rbind_simps k(1) split using i by (auto split: option.splits)
  show ?thesis
  proof (cases p)
    case None
    have "arp_inv cf (stats_inc ArpMemerr (w\<lparr>ew_pb := s\<rparr>)) H" by (rule arp_inv_io [OF assms(1)]) (use k(2) None in simp_all)
    then show ?thesis using None k(3) by (simp add: go net_same_def)
  next
    case (Some x)
    let ?T = "(arp_table w)[i := ?e\<lparr>ae_q := Some x\<rparr>]"
    have "\<exists>s'. (case ae_q ?e of
               None \<Rightarrow> Some (Inr ((), w\<lparr>ew_pb := s\<rparr>))
             | Some old \<Rightarrow> rbind (on_pb (pbuf_free cf (Some old)) (w\<lparr>ew_pb := s\<rparr>)) (\<lambda>(_, w). Some (Inr ((), w)))) =
        Some (Inr ((), w\<lparr>ew_pb := s'\<rparr>)) \<and> pbuf_run cf s' (H + queue_refs ?T)"
    proof (cases "ae_q ?e")
      case None
      have "queue_refs ?T = add_mset x (queue_refs (arp_table w))" by (rule queue_refs_put [OF i None]) simp
      then show ?thesis using None k(2) Some by (intro exI [of _ s]) simp
    next
      case old: (Some old)
      have "queue_refs ?T + {#old#} = queue_refs (arp_table w) + {#x#}" using queue_refs_update [OF i, of "?e\<lparr>ae_q := Some x\<rparr>"] old by simp
      then have eq: "add_mset x (H + queue_refs (arp_table w)) = add_mset old (H + queue_refs ?T)" by simp
      have "pbuf_run cf s (add_mset old (H + queue_refs ?T))" unfolding eq [symmetric] using k(2) Some by simp
      then obtain m s' where "pbuf_free cf (Some old) s = Some (Inr (m, s'))" "pbuf_run cf s' (H + queue_refs ?T)" using run_free by blast
      then show ?thesis using old by (intro exI [of _ s']) (simp add: on_pb_def)
    qed
    then obtain s' where s': "queue_packet cf i q w = Some (Inr (ERR_OK, arp_set i (ae_q_update (\<lambda>_. Some x)) (w\<lparr>ew_pb := s'\<rparr>)))"
      "pbuf_run cf s' (H + queue_refs ?T)" using Some by (auto simp: go)
    have "arp_inv cf (arp_set i (ae_q_update (\<lambda>_. Some x)) (w\<lparr>ew_pb := s'\<rparr>)) H" using s'(2) t [of "Some x"] inv(2) by (simp add: arp_inv_def ARP_TABLE_SIZE_def)
    then show ?thesis using s'(1) k(3) Some by (auto simp: net_same_def)
  qed
qed

section \<open>Queries\<close>

definition query_at :: "custom_free \<Rightarrow> linkoutput \<Rightarrow> nat option \<Rightarrow> eth_netif \<Rightarrow> u32 \<Rightarrow> nat option \<Rightarrow> nat \<Rightarrow> 'a aworld_scheme \<Rightarrow>
    (int \<times> 'a aworld_scheme) run" where
  "query_at cf lo netif n ipaddr q i w =
     rbind (arp_at i w) (\<lambda>e.
                   let is_new_entry = (ae_state e = ETHARP_STATE_EMPTY);
                       w = (if is_new_entry then arp_set i (ae_netif_update (\<lambda>_. netif))
                              (arp_set i (ae_state_update (\<lambda>_. ETHARP_STATE_PENDING)) w) else w)
                   in rbind (if is_new_entry \<or> q = None then etharp_request cf lo netif ipaddr w else Some (Inr (ERR_MEM, w)))
                        (\<lambda>(result, w).
                          case q of
                            None \<Rightarrow> Some (Inr (result, w))
                          | Some q \<Rightarrow>
                              rbind (arp_at i w) (\<lambda>e.
                                if ETHARP_STATE_STABLE \<le> ae_state e then
                                  (let w = w\<lparr>etharp_cached_entry := i\<rparr>
                                   in ethernet_output lo netif q (nf_hwaddr n) (ae_ethaddr e) ETHTYPE_IP w)
                                else if ae_state e = ETHARP_STATE_PENDING then queue_packet cf i q w
                                else Some (Inr (result, w)))))"

lemma query_split:
  assumes "ew_netif w i = Some n"
  shows "etharp_query cf lo (Some i) a q w =
    (if unusable_addr a n then Some (Inr (ERR_ARG, w))
     else rbind (etharp_find_entry cf (Some a) ETHARP_FLAG_TRY_HARD (Some i) w) (\<lambda>(i_err, w).
       if i_err < 0 then Some (Inr (i_err, if q \<noteq> None then stats_inc ArpMemerr w else w))
       else query_at cf lo (Some i) n a q (nat i_err) w))"
  unfolding etharp_query_def query_at_def unusable_addr_def Let_def using assms by (auto simp: deref_def)

definition pending_entry :: "u32 \<Rightarrow> nat \<Rightarrow> arp_entry \<Rightarrow> arp_entry" where
  "pending_entry a i e = (fresh_entry a (Some i) e)\<lparr>ae_state := ETHARP_STATE_PENDING\<rparr>"

lemma pending_entry_fields [simp]: "ae_state (pending_entry a i e) = ETHARP_STATE_PENDING" "ae_q (pending_entry a i e) = None"
  "ae_ipaddr (pending_entry a i e) = a" "ae_netif (pending_entry a i e) = Some i" "ae_ctime (pending_entry a i e) = 0"
  by (simp_all add: pending_entry_def)

text \<open>The result for the entry \<open>e\<close> at index \<open>k\<close>: a request, the packet, or the packet queued.\<close>

definition answered :: "nat \<Rightarrow> eth_netif \<Rightarrow> u32 \<Rightarrow> nat option \<Rightarrow> nat multiset \<Rightarrow> nat \<Rightarrow> arp_entry \<Rightarrow> bool \<Rightarrow> 'a aworld_scheme \<Rightarrow> 'a aworld_scheme \<Rightarrow> int \<Rightarrow> bool" where
  "answered i n a q H k e ask w w' r \<longleftrightarrow> (\<exists>out1 out2. ew_sent w' = ew_sent w @ out1 @ out2 \<and>
     (if ask \<or> q = None then asked i n ethbroadcast a out1 else out1 = []) \<and>
     (case q of
        None \<Rightarrow> out2 = [] \<and> arp_table w' = (arp_table w)[k := e] \<and> r = (if out1 = [] then ERR_MEM else ERR_OK)
      | Some q \<Rightarrow>
          if usable e then arp_table w' = (arp_table w)[k := e] \<and> etharp_cached_entry w' = k \<and>
            sends i q (ae_ethaddr e) (nf_hwaddr n) ETHTYPE_IP (ew_pb w) out2
          else out2 = [] \<and> (r = ERR_MEM \<and> needs_copy (ew_pb w) q \<and> arp_table w' = (arp_table w)[k := e] \<or>
            r = ERR_OK \<and> (\<exists>p. (p = q \<or> needs_copy (ew_pb w) q \<and> p \<notin># H) \<and> arp_table w' = (arp_table w)[k := e\<lparr>ae_q := Some p\<rparr>]))))"

lemma state_cases: "nonempty e \<longleftrightarrow> usable e \<or> ae_state e = ETHARP_STATE_PENDING"
  by (cases "ae_state e") (auto simp: nonempty_def usable_def less_eq_etharp_state_def)

lemma pending_not_usable: "ae_state e = ETHARP_STATE_PENDING \<Longrightarrow> \<not> usable e"
  by (simp add: usable_def less_eq_etharp_state_def)

lemma query_old:
  assumes "arp_inv cf w H" "ew_netif w i = Some n" "nf_hwaddr_len n = 6" "k < 10" "nonempty (arp_table w ! k)"
    "\<And>p. q = Some p \<Longrightarrow> outgoing (ew_pb w) H p"
  shows "returns (query_at cf lo (Some i) n a q k w) (\<lambda>(r, w'). arp_inv cf w' H \<and> net_same w w' \<and> answered i n a q H k (arp_table w ! k) False w w' r)"
proof -
  let ?e = "arp_table w ! k"
  note inv = arp_invD [OF assms(1)]
  have k: "k < length (arp_table w)" and st: "ae_state ?e \<noteq> ETHARP_STATE_EMPTY" using assms(4,5) inv(4) by (simp_all add: nonempty_def)
  show ?thesis
  proof (cases q)
    case None
    obtain r w' out where w': "etharp_request cf lo (Some i) a w = Some (Inr (r, w'))" "arp_inv cf w' H" "io_same w w'"
      "ew_sent w' = ew_sent w @ out" "asked i n ethbroadcast a out" "r = (if out = [] then ERR_MEM else ERR_OK)"
      using request_ok [OF assms(1-3), of lo a] by (auto elim!: returns_pairE)
    have "query_at cf lo (Some i) n a q k w = Some (Inr (r, w'))" using None k st w'(1) by (simp add: query_at_def)
    moreover have "answered i n a q H k ?e False w w' r" unfolding answered_def
      using None w' k io_same_arp [OF w'(3)] by (intro exI [of _ out] exI [of _ "[]"]) simp
    ultimately show ?thesis using w'(2) net_same_io [OF w'(3)] by simp
  next
    case (Some p)
    note og = assms(6) [OF Some]
    show ?thesis
    proof (cases "usable ?e")
      case True
      let ?w1 = "w\<lparr>etharp_cached_entry := k\<rparr>"
      have run: "pbuf_run cf (ew_pb ?w1) (H + queue_refs (arp_table w))" and pin: "p \<in># H + queue_refs (arp_table w)" and nf: "ew_netif ?w1 i = Some n"
        using inv(3) og assms(2) by (simp_all add: outgoing_def)
      obtain r w' out where w': "ethernet_output lo (Some i) p (nf_hwaddr n) (ae_ethaddr ?e) ETHTYPE_IP ?w1 = Some (Inr (r, w'))"
        "pbuf_run cf (ew_pb w') (H + queue_refs (arp_table w))" "io_same ?w1 w'" "ew_sent w' = ew_sent w @ out"
        "sends i p (ae_ethaddr ?e) (nf_hwaddr n) ETHTYPE_IP (ew_pb w) out"
        using output_ok [OF run pin nf assms(3), of lo "nf_hwaddr n" "ae_ethaddr ?e" ETHTYPE_IP] by (auto elim!: returns_pairE)
      have "query_at cf lo (Some i) n a q k w = Some (Inr (r, w'))" using Some k st True w'(1) by (simp add: query_at_def usable_def)
      moreover have "arp_inv cf w' H" using io_same_fields [OF w'(3)] io_same_arp [OF w'(3)] inv(1) w'(2) assms(4)
        by (simp add: arp_inv_def ARP_TABLE_SIZE_def)
      moreover have "net_same w w'" using net_same_io [OF w'(3)] by (simp add: net_same_def)
      moreover have "answered i n a q H k ?e False w w' r" unfolding answered_def
        using Some True w'(4,5) k io_same_arp [OF w'(3)] by (intro exI [of _ "[]"] exI [of _ out]) simp
      ultimately show ?thesis by simp
    next
      case False
      then have pe: "ae_state ?e = ETHARP_STATE_PENDING" using assms(5) by (simp add: state_cases)
      obtain r w' where w': "queue_packet cf k p w = Some (Inr (r, w'))" "arp_inv cf w' H" "net_same w w'" "ew_sent w' = ew_sent w"
        "r = ERR_MEM \<and> needs_copy (ew_pb w) p \<and> arp_table w' = arp_table w \<or> r = ERR_OK \<and> (\<exists>x. (x = p \<or> needs_copy (ew_pb w) p \<and> x \<notin># H) \<and> arp_table w' = (arp_table w)[k := ?e\<lparr>ae_q := Some x\<rparr>])"
        using queue_packet_ok [OF assms(1,4) pe og] by (rule returns_pairE) blast
      have "query_at cf lo (Some i) n a q k w = Some (Inr (r, w'))" using Some k st False pe w'(1) by (simp add: query_at_def usable_def)
      moreover have "answered i n a q H k ?e False w w' r" unfolding answered_def
        using Some False w'(4,5) k by (intro exI [of _ "[]"]) simp
      ultimately show ?thesis using w'(2,3) by simp
    qed
  qed
qed

lemma query_new:
  assumes "arp_inv cf w H" "ew_netif w i = Some n" "nf_hwaddr_len n = 6" "k < 10" "arp_table w ! k = fresh_entry a (Some i) e0"
    "\<forall>j<10. j \<noteq> k \<longrightarrow> \<not> matches (Some a) (Some i) (arp_table w ! j)" "\<And>p. q = Some p \<Longrightarrow> outgoing (ew_pb w) H p"
  shows "returns (query_at cf lo (Some i) n a q k w) (\<lambda>(r, w'). arp_inv cf w' H \<and> net_same w w' \<and> answered i n a q H k (pending_entry a i e0) True w w' r)"
proof -
  let ?e = "pending_entry a i e0"
  note inv = arp_invD [OF assms(1)]
  have k: "k < length (arp_table w)" using assms(4) inv(4) by simp
  let ?w1 = "w\<lparr>arp_table := (arp_table w)[k := ?e]\<rparr>"
  have i1: "arp_inv cf ?w1 H"
  proof (rule arp_inv_set [OF assms(1,4)])
    show "entry_ok (ew_netif w) ?e" using assms(2,3) by (auto simp: entry_ok_def ether_def ARP_MAXAGE_def ARP_MAXPENDING_def)
    fix j assume "j < 10" "j \<noteq> k" "nonempty (arp_table w ! j)"
    then show "\<not> same_key ?e (arp_table w ! j)" using assms(6) by (auto simp: same_key_def matches_def)
  qed (simp add: assms(5))
  have set: "arp_set k (ae_netif_update (\<lambda>_. Some i)) (arp_set k (ae_state_update (\<lambda>_. ETHARP_STATE_PENDING)) w) = ?w1"
  proof -
    have "(fresh_entry a (Some i) e0)\<lparr>ae_state := ETHARP_STATE_PENDING, ae_netif := Some i\<rparr> = ?e" by (simp add: pending_entry_def fresh_entry_def)
    then show ?thesis using k by (simp add: arp_set_def assms(5))
  qed
  have nf: "ew_netif ?w1 i = Some n" using assms(2) by simp
  obtain r w2 out where w2: "etharp_request cf lo (Some i) a ?w1 = Some (Inr (r, w2))" "arp_inv cf w2 H" "io_same ?w1 w2"
    "pw_buf (ew_pb w2) = pw_buf (ew_pb w)" "ew_sent w2 = ew_sent w @ out" "asked i n ethbroadcast a out" "r = (if out = [] then ERR_MEM else ERR_OK)"
    using request_ok [OF i1 nf assms(3), of lo a] by (auto elim!: returns_pairE)
  have T2: "arp_table w2 = (arp_table w)[k := ?e]" "etharp_cached_entry w2 = etharp_cached_entry w" using io_same_arp [OF w2(3)] by simp_all
  have n2: "net_same w w2" using net_same_io [OF w2(3)] by (simp add: net_same_def)
  have at2: "arp_table w2 ! k = ?e" using T2 k by simp
  show ?thesis
  proof (cases q)
    case None
    have "query_at cf lo (Some i) n a q k w = Some (Inr (r, w2))" using None k set w2(1) by (simp add: query_at_def assms(5))
    moreover have "answered i n a q H k ?e True w w2 r" unfolding answered_def
      using None w2(5-7) T2 by (intro exI [of _ out] exI [of _ "[]"]) simp
    ultimately show ?thesis using w2(2) n2 by simp
  next
    case (Some p)
    note og = assms(7) [OF Some]
    have q2: "queue_refs (arp_table w2) = queue_refs (arp_table w)" unfolding T2(1) by (rule queue_refs_same [OF k]) (simp add: assms(5))
    have og2: "outgoing (ew_pb w2) H p"
      by (rule outgoing_kept [OF og inv(3) arp_invD(3) [OF w2(2)] _ shape_kept_same [OF w2(4)]]) (simp add: q2)
    have pe: "ae_state (arp_table w2 ! k) = ETHARP_STATE_PENDING" by (simp add: at2)
    have nc: "needs_copy (ew_pb w) p" if "needs_copy (ew_pb w2) p"
      by (rule needs_copy_kept [OF arp_invD(3) [OF w2(2)] shape_kept_same [OF w2(4)] _ _ that]) (use og in \<open>simp_all add: outgoing_def\<close>)
    obtain r' w' where w': "queue_packet cf k p w2 = Some (Inr (r', w'))" "arp_inv cf w' H" "net_same w2 w'" "ew_sent w' = ew_sent w2"
      "r' = ERR_MEM \<and> needs_copy (ew_pb w2) p \<and> arp_table w' = arp_table w2 \<or> r' = ERR_OK \<and> (\<exists>x. (x = p \<or> needs_copy (ew_pb w2) p \<and> x \<notin># H) \<and> arp_table w' = (arp_table w2)[k := (arp_table w2 ! k)\<lparr>ae_q := Some x\<rparr>])"
      using queue_packet_ok [OF w2(2) assms(4) pe og2] by (rule returns_pairE) blast
    have "query_at cf lo (Some i) n a q k w = Some (Inr (r', w'))" using Some k set w2(1) w'(1) at2 arp_invD(4) [OF w2(2)] assms(4)
      by (simp add: query_at_def assms(5) less_eq_etharp_state_def)
    moreover have "answered i n a q H k ?e True w w' r'"
      unfolding answered_def using Some w2(5,6) w'(4,5) T2 k at2 nc pending_not_usable [of ?e] by (intro exI [of _ out] exI [of _ "[]"]) auto
    ultimately show ?thesis using w'(2) net_same_trans [OF n2 w'(3)] by simp
  qed
qed

definition query_done :: "nat \<Rightarrow> eth_netif \<Rightarrow> u32 \<Rightarrow> nat option \<Rightarrow> nat multiset \<Rightarrow> 'a aworld_scheme \<Rightarrow> 'a aworld_scheme \<Rightarrow> int \<Rightarrow> bool" where
  "query_done i n a q H w w' r \<longleftrightarrow> (if unusable_addr a n then r = ERR_ARG \<and> w' = w
     else if \<exists>k<10. matches (Some a) (Some i) (arp_table w ! k)
     then \<exists>k<10. matches (Some a) (Some i) (arp_table w ! k) \<and> answered i n a q H k (arp_table w ! k) False w w' r
     else if \<forall>k<10. ae_state (arp_table w ! k) = ETHARP_STATE_STATIC
     then r = ERR_MEM \<and> arp_table w' = arp_table w \<and> ew_sent w' = ew_sent w
     else \<exists>k. victim (arp_table w) k \<and> answered i n a q H k (pending_entry a i (arp_table w ! k)) True w w' r)"

lemma answered_taken:
  assumes "answered i n a q H k e ask w1 w' r" "taken k e1 w w1" "ae_state e = ETHARP_STATE_PENDING"
    "\<And>p. q = Some p \<Longrightarrow> needs_copy (ew_pb w1) p \<Longrightarrow> needs_copy (ew_pb w) p"
  shows "answered i n a q H k e ask w w' r"
proof -
  have u: "(arp_table w1)[k := x] = (arp_table w)[k := x]" for x using taken_fields(5) [OF assms(2)] by simp
  note np = if_not_P [OF pending_not_usable [OF assms(3)]]
  from assms(1) obtain out1 out2 where o: "ew_sent w' = ew_sent w @ out1 @ out2" "if ask \<or> q = None then asked i n ethbroadcast a out1 else out1 = []"
    "case q of None \<Rightarrow> out2 = [] \<and> arp_table w' = (arp_table w)[k := e] \<and> r = (if out1 = [] then ERR_MEM else ERR_OK)
      | Some q \<Rightarrow> out2 = [] \<and> (r = ERR_MEM \<and> needs_copy (ew_pb w1) q \<and> arp_table w' = (arp_table w)[k := e] \<or>
            r = ERR_OK \<and> (\<exists>p. (p = q \<or> needs_copy (ew_pb w1) q \<and> p \<notin># H) \<and> arp_table w' = (arp_table w)[k := e\<lparr>ae_q := Some p\<rparr>]))"
    unfolding answered_def u taken_fields(2) [OF assms(2)] np by (elim exE conjE) (rule that; assumption)
  have "case q of None \<Rightarrow> out2 = [] \<and> arp_table w' = (arp_table w)[k := e] \<and> r = (if out1 = [] then ERR_MEM else ERR_OK)
      | Some q \<Rightarrow> out2 = [] \<and> (r = ERR_MEM \<and> needs_copy (ew_pb w) q \<and> arp_table w' = (arp_table w)[k := e] \<or>
            r = ERR_OK \<and> (\<exists>p. (p = q \<or> needs_copy (ew_pb w) q \<and> p \<notin># H) \<and> arp_table w' = (arp_table w)[k := e\<lparr>ae_q := Some p\<rparr>]))"
    using o(3) assms(4) by (cases q) (simp_all only: option.case, blast)
  then show ?thesis unfolding answered_def np using o(1,2) by (intro exI [of _ out1] exI [of _ out2] conjI)
qed

lemma taken_queue_refs:
  assumes "k < length (arp_table w)" "taken k e w w'" "ae_q e = None"
  shows "queue_refs (arp_table w') \<subseteq># queue_refs (arp_table w)"
proof -
  have "queue_refs (arp_table w') + handed (ae_q (arp_table w ! k)) {#} = queue_refs (arp_table w)"
    using queue_refs_update [OF assms(1), of e] assms(3) taken_fields(5) [OF assms(2)] by simp
  then show ?thesis by (metis mset_subset_eq_add_left)
qed

lemma victim_not_all_static: "victim T k \<Longrightarrow> \<not> (\<forall>k<10. ae_state (T ! k) = ETHARP_STATE_STATIC)"
  by (auto simp: victim_def oldest_of_def recyclable_def pending_free_def pending_queued_def nonempty_def split: if_splits)

lemma query_ok:
  assumes "arp_inv cf w H" "ew_netif w i = Some n" "nf_hwaddr_len n = 6" "\<And>p. q = Some p \<Longrightarrow> outgoing (ew_pb w) H p"
  shows "returns (etharp_query cf lo (Some i) a q w) (\<lambda>(r, w'). arp_inv cf w' H \<and> net_same w w' \<and> query_done i n a q H w w' r)"
proof (cases "unusable_addr a n")
  case True
  then show ?thesis using assms(1) by (simp add: query_split [OF assms(2)] query_done_def)
next
  case usable: False
  let ?T = "arp_table w"
  note inv = arp_invD [OF assms(1)]
  have fl: "ETHARP_FLAG_TRY_HARD AND ETHARP_FLAG_FIND_ONLY = 0" "ETHARP_FLAG_TRY_HARD AND ETHARP_FLAG_TRY_HARD \<noteq> 0"
    by (simp_all add: ETHARP_FLAG_TRY_HARD_def ETHARP_FLAG_FIND_ONLY_def)
  obtain r w1 where f: "etharp_find_entry cf (Some a) ETHARP_FLAG_TRY_HARD (Some i) w = Some (Inr (r, w1))" "arp_inv cf w1 H" and
    c: "(\<exists>k<10. r = int k \<and> w1 = w \<and> matches (Some a) (Some i) (?T ! k)) \<or>
     (\<forall>j<10. \<not> matches (Some a) (Some i) (?T ! j)) \<and> (r = ERR_MEM \<and> w1 = w \<and> (\<forall>j<10. ae_state (?T ! j) = ETHARP_STATE_STATIC) \<or>
        (\<exists>k. r = int k \<and> victim ?T k \<and> taken k (fresh_entry a (Some i) (?T ! k)) w w1))"
    using find_entry_ok [OF assms(1), of a ETHARP_FLAG_TRY_HARD "Some i"] fl by (elim returns_pairE) auto
  consider (found) k where "k < 10" "r = int k" "w1 = w" "matches (Some a) (Some i) (?T ! k)"
    | (none) "r = ERR_MEM" "w1 = w" "\<forall>j<10. \<not> matches (Some a) (Some i) (?T ! j)" "\<forall>j<10. ae_state (?T ! j) = ETHARP_STATE_STATIC"
    | (taken) k where "r = int k" "victim ?T k" "taken k (fresh_entry a (Some i) (?T ! k)) w w1" "\<forall>j<10. \<not> matches (Some a) (Some i) (?T ! j)"
    using c by blast
  then show ?thesis
  proof cases
    case none
    have "\<not> (\<exists>k<10. matches (Some a) (Some i) (?T ! k))" using none(3) by blast
    moreover have "etharp_query cf lo (Some i) a q w = Some (Inr (ERR_MEM, if q \<noteq> None then stats_inc ArpMemerr w else w))"
      using f(1) none(1,2) usable by (simp add: query_split [OF assms(2)])
    moreover have "arp_inv cf (stats_inc ArpMemerr w) H" by (rule arp_inv_io [OF assms(1)]) (use inv(3) in simp_all)
    ultimately show ?thesis using none(4) usable assms(1) by (auto simp: query_done_def net_same_def)
  next
    case (found k)
    have "nonempty (?T ! k)" using found(4) by (simp add: matches_def)
    note q = query_old [OF assms(1-3) found(1) this assms(4), of q lo a]
    have "etharp_query cf lo (Some i) a q w = query_at cf lo (Some i) n a q k w" using f(1) found(2,3) usable by (simp add: query_split [OF assms(2)])
    then show ?thesis using q found usable by (auto simp: query_done_def elim!: returns_pairE)
  next
    case (taken k)
    note t = taken_fields [OF taken(3)]
    have k: "k < 10" "k < length ?T" using taken(2) inv(4) by (simp_all add: victim_def)
    have nf: "ew_netif w1 i = Some n" using t(1) assms(2) by (simp add: net_same_def)
    have at: "arp_table w1 ! k = fresh_entry a (Some i) (?T ! k)" using t(5) k by simp
    have un: "\<forall>j<10. j \<noteq> k \<longrightarrow> \<not> matches (Some a) (Some i) (arp_table w1 ! j)" using taken(4) t(5) by simp
    have qr: "queue_refs (arp_table w1) \<subseteq># queue_refs ?T" by (rule taken_queue_refs [OF k(2) taken(3)]) simp
    have og: "outgoing (ew_pb w1) H p" if "q = Some p" for p
      by (rule outgoing_kept [OF assms(4) [OF that] inv(3) arp_invD(3) [OF f(2)] qr shape_kept_freed [OF t(6)]])
    note q = query_new [OF f(2) nf assms(3) k(1) at un og, of q lo]
    have nc: "needs_copy (ew_pb w) p" if "q = Some p" "needs_copy (ew_pb w1) p" for p
      by (rule needs_copy_kept [OF arp_invD(3) [OF f(2)] shape_kept_freed [OF t(6)] _ _ that(2)]) (use assms(4) [OF that(1)] in \<open>simp_all add: outgoing_def\<close>)
    have "etharp_query cf lo (Some i) a q w = query_at cf lo (Some i) n a q k w1" using f(1) taken(1) usable by (simp add: query_split [OF assms(2)])
    moreover have "query_done i n a q H w w' r'" if "answered i n a q H k (pending_entry a i (?T ! k)) True w1 w' r'" for w' r'
      using answered_taken [OF that taken(3) pending_entry_fields(1) nc] victim_not_all_static [OF taken(2)] taken(2,4) usable unfolding query_done_def
      by auto
    ultimately show ?thesis using q net_same_trans [OF t(1)] by (auto elim!: returns_pairE)
  qed
qed

end
