(* ===== verification/LwArpRun.thy ===== *)
theory LwArpRun
  imports LwArpCalls
begin

text \<open>
  Output and input through the cache, \<^verbatim>\<open>ethernet_input\<close>, the route and static entries, and the runs in which callers, the
  buffers' users and the interfaces act in any order.
\<close>

section \<open>Output\<close>

text \<open>Whom an entry in use asks again before it expires.\<close>

definition refresh :: "arp_entry \<Rightarrow> eth_addr option" where
  "refresh e = (if ae_state e \<noteq> ETHARP_STATE_STABLE then None else if ARP_AGE_REREQUEST_USED_BROADCAST \<le> ae_ctime e then Some ethbroadcast
     else if ARP_AGE_REREQUEST_USED_UNICAST \<le> ae_ctime e then Some (ae_ethaddr e) else None)"

definition forwarded :: "nat \<Rightarrow> eth_netif \<Rightarrow> nat \<Rightarrow> nat \<Rightarrow> 'a aworld_scheme \<Rightarrow> 'a aworld_scheme \<Rightarrow> bool" where
  "forwarded i n q k w w' \<longleftrightarrow> (\<exists>out1 out2 s. ew_sent w' = ew_sent w @ out1 @ out2 \<and> pw_buf s = pw_buf (ew_pb w) \<and>
     (case refresh (arp_table w ! k) of None \<Rightarrow> out1 = [] \<and> s = ew_pb w | Some d \<Rightarrow> asked i n d (ae_ipaddr (arp_table w ! k)) out1) \<and>
     arp_table w' = (if out1 = [] then arp_table w
       else (arp_table w)[k := (arp_table w ! k)\<lparr>ae_state := ETHARP_STATE_STABLE_REREQUESTING_1\<rparr>]) \<and>
     sends i q (ae_ethaddr (arp_table w ! k)) (nf_hwaddr n) ETHTYPE_IP s out2)"

definition asked_again :: "custom_free \<Rightarrow> linkoutput \<Rightarrow> nat \<Rightarrow> nat \<Rightarrow> 'a aworld_scheme \<Rightarrow> (unit \<times> 'a aworld_scheme) run" where
  "asked_again cf lo i k w =
     (let e = arp_table w ! k;
          rerequested = (\<lambda>(err, w).
            Some (Inr ((), if err = ERR_OK then arp_set k (ae_state_update (\<lambda>_. ETHARP_STATE_STABLE_REREQUESTING_1)) w else w)))
      in case refresh e of
           None \<Rightarrow> Some (Inr ((), w))
         | Some d \<Rightarrow> rbind (etharp_request_dst cf lo (Some i) (ae_ipaddr e) d w) rerequested)"

lemma index_split:
  assumes "k < length (arp_table w)" "usable (arp_table w ! k)"
  shows "etharp_output_to_arp_index cf lo (Some i) q k w =
    rbind (asked_again cf lo i k w) (\<lambda>(_, w). rbind (Some (deref (ew_netif w) i)) (\<lambda>n.
      rbind (arp_at k w) (\<lambda>e. ethernet_output lo (Some i) q (nf_hwaddr n) (ae_ethaddr e) ETHTYPE_IP w)))"
  using assms unfolding etharp_output_to_arp_index_def asked_again_def refresh_def Let_def etharp_request_def usable_def
  by (auto intro!: arg_cong2 [where f = rbind])

lemma asked_again_ok:
  assumes "arp_inv cf w H" "ew_netif w i = Some n" "nf_hwaddr_len n = 6" "k < 10"
  shows "returns (asked_again cf lo i k w) (\<lambda>(_, w'). arp_inv cf w' H \<and> net_same w w' \<and> etharp_cached_entry w' = etharp_cached_entry w \<and>
    pw_buf (ew_pb w') = pw_buf (ew_pb w) \<and> (\<exists>out. ew_sent w' = ew_sent w @ out \<and>
     (case refresh (arp_table w ! k) of None \<Rightarrow> out = [] \<and> ew_pb w' = ew_pb w | Some d \<Rightarrow> asked i n d (ae_ipaddr (arp_table w ! k)) out) \<and>
     arp_table w' = (if out = [] then arp_table w
       else (arp_table w)[k := (arp_table w ! k)\<lparr>ae_state := ETHARP_STATE_STABLE_REREQUESTING_1\<rparr>])))"
proof -
  let ?e = "arp_table w ! k" and ?T = "(arp_table w)[k := (arp_table w ! k)\<lparr>ae_state := ETHARP_STATE_STABLE_REREQUESTING_1\<rparr>]"
  note inv = arp_invD [OF assms(1)]
  have k: "k < length (arp_table w)" using assms(4) inv(4) by simp
  show ?thesis
  proof (cases "refresh ?e")
    case None
    then show ?thesis using assms(1) by (simp add: asked_again_def)
  next
    case (Some d)
    have st: "ae_state ?e = ETHARP_STATE_STABLE" using Some by (auto simp: refresh_def split: if_splits)
    obtain r w1 where w1: "etharp_request_dst cf lo (Some i) (ae_ipaddr ?e) d w = Some (Inr (r, w1))" "pbuf_run cf (ew_pb w1) (H + queue_refs (arp_table w))"
      "io_same w w1" "pw_buf (ew_pb w1) = pw_buf (ew_pb w)" and
      "\<exists>out. ew_sent w1 = ew_sent w @ out \<and> asked i n d (ae_ipaddr ?e) out \<and> r = (if out = [] then ERR_MEM else ERR_OK)"
      using request_dst_ok [OF inv(3) assms(2,3), of lo "ae_ipaddr ?e" d] by (rule returns_pairE) blast
    then obtain out where out: "ew_sent w1 = ew_sent w @ out" "asked i n d (ae_ipaddr ?e) out" "r = (if out = [] then ERR_MEM else ERR_OK)" by blast
    have i1: "arp_inv cf w1 H" by (rule arp_inv_io [OF assms(1) w1(3,2)])
    have T1: "arp_table w1 = arp_table w" "etharp_cached_entry w1 = etharp_cached_entry w" using io_same_arp [OF w1(3)] by simp_all
    let ?w2 = "if out = [] then w1 else arp_set k (ae_state_update (\<lambda>_. ETHARP_STATE_STABLE_REREQUESTING_1)) w1"
    have go: "asked_again cf lo i k w = Some (Inr ((), ?w2))" using Some w1(1) out(3) by (simp add: asked_again_def)
    have "entry_ok (ew_netif w1) ?e" using table_okD(2) [OF arp_invD(1) [OF i1] assms(4)] T1 by simp
    then have eo: "entry_ok (ew_netif w1) (?e\<lparr>ae_state := ETHARP_STATE_STABLE_REREQUESTING_1\<rparr>)" using st by (simp add: entry_ok_def nonempty_def)
    have "arp_inv cf (w1\<lparr>arp_table := (arp_table w1)[k := ?e\<lparr>ae_state := ETHARP_STATE_STABLE_REREQUESTING_1\<rparr>]\<rparr>) H"
    proof (rule arp_inv_set [OF i1 assms(4) eo])
      fix j assume "j < 10" "j \<noteq> k" "nonempty (arp_table w1 ! j)"
      then show "\<not> same_key (?e\<lparr>ae_state := ETHARP_STATE_STABLE_REREQUESTING_1\<rparr>) (arp_table w1 ! j)"
        using table_okD(3) [OF inv(1) assms(4), of j] T1 st by (auto simp: same_key_def nonempty_def)
    qed (simp add: T1)
    then have "arp_inv cf ?w2 H" using i1 T1 by (simp add: arp_set_def)
    moreover have "net_same w ?w2" using net_same_io [OF w1(3)] by (simp add: net_same_def)
    moreover have "arp_table ?w2 = (if out = [] then arp_table w else ?T)" "ew_sent ?w2 = ew_sent w @ out" "pw_buf (ew_pb ?w2) = pw_buf (ew_pb w)"
      "etharp_cached_entry ?w2 = etharp_cached_entry w" using T1 out(1) w1(4) by simp_all
    ultimately show ?thesis unfolding go returns_simps split using Some out(2) by (intro conjI exI [of _ out]) simp_all
  qed
qed

lemma index_ok:
  assumes "arp_inv cf w H" "ew_netif w i = Some n" "nf_hwaddr_len n = 6" "k < 10" "usable (arp_table w ! k)" "q \<in># H"
  shows "returns (etharp_output_to_arp_index cf lo (Some i) q k w) (\<lambda>(_, w'). arp_inv cf w' H \<and> net_same w w' \<and>
    etharp_cached_entry w' = etharp_cached_entry w \<and> forwarded i n q k w w')"
proof -
  let ?e = "arp_table w ! k"
  note inv = arp_invD [OF assms(1)]
  have k: "k < length (arp_table w)" using assms(4) inv(4) by simp
  obtain w1 where w1: "asked_again cf lo i k w = Some (Inr ((), w1))" "arp_inv cf w1 H" "net_same w w1" "etharp_cached_entry w1 = etharp_cached_entry w"
    "pw_buf (ew_pb w1) = pw_buf (ew_pb w)" and "\<exists>out. ew_sent w1 = ew_sent w @ out \<and>
     (case refresh ?e of None \<Rightarrow> out = [] \<and> ew_pb w1 = ew_pb w | Some d \<Rightarrow> asked i n d (ae_ipaddr ?e) out) \<and>
     arp_table w1 = (if out = [] then arp_table w else (arp_table w)[k := ?e\<lparr>ae_state := ETHARP_STATE_STABLE_REREQUESTING_1\<rparr>])"
    using asked_again_ok [OF assms(1-4), of lo] by (rule returns_pairE) simp
  then obtain out where out: "ew_sent w1 = ew_sent w @ out"
    "case refresh ?e of None \<Rightarrow> out = [] \<and> ew_pb w1 = ew_pb w | Some d \<Rightarrow> asked i n d (ae_ipaddr ?e) out"
    "arp_table w1 = (if out = [] then arp_table w else (arp_table w)[k := ?e\<lparr>ae_state := ETHARP_STATE_STABLE_REREQUESTING_1\<rparr>])" by blast
  have nf: "ew_netif w1 i = Some n" using w1(3) assms(2) by (simp add: net_same_def)
  have at: "ae_ethaddr (arp_table w1 ! k) = ae_ethaddr ?e" using out(3) k by simp
  have q: "q \<in># H + queue_refs (arp_table w1)" using assms(6) by simp
  have k1: "k < length (arp_table w1)" using arp_invD(4) [OF w1(2)] assms(4) by simp
  obtain r w2 out2 where w2: "ethernet_output lo (Some i) q (nf_hwaddr n) (ae_ethaddr ?e) ETHTYPE_IP w1 = Some (Inr (r, w2))"
    "pbuf_run cf (ew_pb w2) (H + queue_refs (arp_table w1))" "io_same w1 w2" "ew_sent w2 = ew_sent w1 @ out2"
    "sends i q (ae_ethaddr ?e) (nf_hwaddr n) ETHTYPE_IP (ew_pb w1) out2"
    using output_ok [OF arp_invD(3) [OF w1(2)] q nf assms(3), of lo "nf_hwaddr n" "ae_ethaddr ?e" ETHTYPE_IP] by (auto elim!: returns_pairE)
  have "etharp_output_to_arp_index cf lo (Some i) q k w = Some (Inr (r, w2))"
    unfolding index_split [OF k assms(5)] w1(1) using w2(1) nf k1 at by (simp add: deref_def)
  moreover have "arp_inv cf w2 H" by (rule arp_inv_io [OF w1(2) w2(3,2)])
  moreover have "net_same w w2" by (rule net_same_trans [OF w1(3) net_same_io [OF w2(3)]])
  moreover have "etharp_cached_entry w2 = etharp_cached_entry w" "arp_table w2 = arp_table w1" using io_same_arp [OF w2(3)] w1(4) by simp_all
  moreover have "forwarded i n q k w w2" unfolding forwarded_def
    using out w1(5) w2(4,5) \<open>arp_table w2 = arp_table w1\<close> by (intro exI [of _ out] exI [of _ out2] exI [of _ "ew_pb w1"]) (simp split: option.splits)
  ultimately show ?thesis by simp
qed

lemma forwarded_cong:
  "ew_sent w1 = ew_sent w \<Longrightarrow> ew_pb w1 = ew_pb w \<Longrightarrow> arp_table w1 = arp_table w \<Longrightarrow> forwarded i n q k w1 w' = forwarded i n q k w w'"
  unfolding forwarded_def by (simp only:)

lemma output_direct:
  assumes "arp_inv cf w H" "ew_netif w i = Some n" "nf_hwaddr_len n = 6" "q \<in># H"
  shows "returns (ethernet_output lo (Some i) q (nf_hwaddr n) dst ETHTYPE_IP w) (\<lambda>(r, w'). arp_inv cf w' H \<and> net_same w w' \<and>
      arp_table w' = arp_table w \<and> (\<exists>out. ew_sent w' = ew_sent w @ out \<and> sends i q dst (nf_hwaddr n) ETHTYPE_IP (ew_pb w) out))"
proof -
  have pin: "q \<in># H + queue_refs (arp_table w)" using assms(4) by simp
  obtain r w' where w': "ethernet_output lo (Some i) q (nf_hwaddr n) dst ETHTYPE_IP w = Some (Inr (r, w'))"
    "pbuf_run cf (ew_pb w') (H + queue_refs (arp_table w))" "io_same w w'"
    "\<exists>out. ew_sent w' = ew_sent w @ out \<and> sends i q dst (nf_hwaddr n) ETHTYPE_IP (ew_pb w) out"
    using output_ok [OF arp_invD(3) [OF assms(1)] pin assms(2,3), of lo "nf_hwaddr n" dst ETHTYPE_IP] by (rule returns_pairE) blast
  then show ?thesis using arp_inv_io [OF assms(1) w'(3,2)] net_same_io [OF w'(3)] io_same_arp [OF w'(3)] by simp
qed

definition off_net :: "eth_netif \<Rightarrow> u32 \<Rightarrow> bool" where
  "off_net n a \<longleftrightarrow> \<not> ip4_addr_netcmp a (nf_ip_addr n) (nf_netmask n) \<and> \<not> ip4_addr_islinklocal a"

definition next_hop :: "eth_netif \<Rightarrow> u32 \<Rightarrow> u32" where
  "next_hop n a = (if off_net n a then nf_gw n else a)"

lemma output_loop_ok:
  assumes "arp_inv cf w H" "ew_netif w i = Some n" "nf_hwaddr_len n = 6" "outgoing (ew_pb w) H q" "k \<le> 10" "\<forall>j<k. \<not> holds_key (a, i) (arp_table w ! j)"
  shows "returns (output_loop cf lo (Some i) q a [k..<10] w) (\<lambda>(r, w'). arp_inv cf w' H \<and> net_same w w' \<and>
    (if cache (arp_table w) (a, i) = None then query_done i n a (Some q) H w w' r
     else \<exists>k<10. holds_key (a, i) (arp_table w ! k) \<and> forwarded i n q k w w'))"
  using assms(5,6)
proof (induction "10 - k" arbitrary: k)
  case 0
  then have "cache (arp_table w) (a, i) = None" using cache_none [OF arp_invD(4) [OF assms(1)]] by simp
  moreover have "returns (etharp_query cf lo (Some i) a (Some q) w) (\<lambda>(r, w'). arp_inv cf w' H \<and> net_same w w' \<and> query_done i n a (Some q) H w w' r)"
    by (rule query_ok [OF assms(1-3)]) (simp add: assms(4))
  ultimately show ?case using 0 by simp
next
  case (Suc d)
  then have k: "k < 10" "k < length (arp_table w)" using arp_invD(4) [OF assms(1)] by simp_all
  show ?case
  proof (cases "stable_for (Some i) a (arp_table w ! k)")
    case False
    have d: "d = 10 - Suc k" using Suc.hyps(2) by simp
    have "\<forall>j<Suc k. \<not> holds_key (a, i) (arp_table w ! j)" using Suc.prems(2) False by (simp add: less_Suc_eq holds_key_def)
    moreover have "output_loop cf lo (Some i) q a [k..<10] w = output_loop cf lo (Some i) q a [Suc k..<10] w"
      using k False by (simp add: upt_conv_Cons)
    ultimately show ?thesis using Suc.hyps(1) [OF d] k(1) by simp
  next
    case True
    let ?w1 = "w\<lparr>etharp_cached_entry := k\<rparr>"
    have h: "holds_key (a, i) (arp_table w ! k)" using True by (simp add: holds_key_def)
    have c: "cache (arp_table w) (a, i) \<noteq> None" using cache_at [OF arp_invD(1) [OF assms(1)] k(1) h] by simp
    have i1: "arp_inv cf ?w1 H" using arp_invD [OF assms(1)] k(1) by (simp add: arp_inv_def ARP_TABLE_SIZE_def)
    have u: "usable (arp_table ?w1 ! k)" and q: "q \<in># H" and nf: "ew_netif ?w1 i = Some n"
      using True assms(2,4) by (simp_all add: stable_for_def usable_def outgoing_def)
    have "output_loop cf lo (Some i) q a [k..<10] w = etharp_output_to_arp_index cf lo (Some i) q k ?w1"
      using k True by (simp add: upt_conv_Cons)
    moreover have "forwarded i n q k ?w1 w' = forwarded i n q k w w'" for w' by (rule forwarded_cong) simp_all
    moreover have "net_same ?w1 w' = net_same w w'" for w' by (simp add: net_same_def)
    ultimately show ?thesis using index_ok [OF i1 nf assms(3) k(1) u q, of lo] c h k(1) by (auto elim!: returns_pairE)
  qed
qed

definition output_done :: "nat \<Rightarrow> eth_netif \<Rightarrow> nat \<Rightarrow> u32 \<Rightarrow> nat multiset \<Rightarrow> 'a aworld_scheme \<Rightarrow> 'a aworld_scheme \<Rightarrow> int \<Rightarrow> bool" where
  "output_done i n q a H w w' r \<longleftrightarrow>
    (if ip4_addr_isbroadcast_u32 a n \<or> ip4_addr_ismulticast a then arp_table w' = arp_table w \<and> (\<exists>out. ew_sent w' = ew_sent w @ out \<and>
       sends i q (if ip4_addr_isbroadcast_u32 a n then ethbroadcast else mcastaddr a) (nf_hwaddr n) ETHTYPE_IP (ew_pb w) out)
     else if off_net n a \<and> nf_gw n = 0 then r = ERR_RTE \<and> w' = w
     else if cache (arp_table w) (next_hop n a, i) = None then query_done i n (next_hop n a) (Some q) H w w' r
     else \<exists>k<10. holds_key (next_hop n a, i) (arp_table w ! k) \<and> forwarded i n q k w w')"

lemma output_split:
  assumes "ew_netif w i = Some n" "etharp_cached_entry w < length (arp_table w)"
  shows "etharp_output cf lo (Some i) (Some q) a w =
    (if ip4_addr_isbroadcast_u32 a n then ethernet_output lo (Some i) q (nf_hwaddr n) ethbroadcast ETHTYPE_IP w
     else if ip4_addr_ismulticast a then ethernet_output lo (Some i) q (nf_hwaddr n) (mcastaddr a) ETHTYPE_IP w
     else if off_net n a \<and> nf_gw n = 0 then Some (Inr (ERR_RTE, w))
     else if stable_for (Some i) (next_hop n a) (arp_table w ! etharp_cached_entry w)
     then etharp_output_to_arp_index cf lo (Some i) q (etharp_cached_entry w) (stats_inc ArpCachehit w)
     else output_loop cf lo (Some i) q (next_hop n a) [0..<10] w)"
  unfolding etharp_output_def Let_def next_hop_def off_net_def [symmetric] ARP_TABLE_SIZE_def using assms by (simp add: deref_def)

lemma etharp_output_ok:
  assumes "arp_inv cf w H" "ew_netif w i = Some n" "nf_hwaddr_len n = 6" "outgoing (ew_pb w) H q"
  shows "returns (etharp_output cf lo (Some i) (Some q) a w) (\<lambda>(r, w'). arp_inv cf w' H \<and> net_same w w' \<and> output_done i n q a H w w' r)"
proof -
  note inv = arp_invD [OF assms(1)]
  let ?a = "next_hop n a" and ?c = "etharp_cached_entry w"
  have q: "q \<in># H" using assms(4) by (simp add: outgoing_def)
  have c: "?c < 10" "?c < length (arp_table w)" using inv(2,4) by simp_all
  note go = output_split [OF assms(2) c(2), of cf lo q a]
  show ?thesis
  proof (cases "ip4_addr_isbroadcast_u32 a n \<or> ip4_addr_ismulticast a")
    case True
    have "etharp_output cf lo (Some i) (Some q) a w =
        ethernet_output lo (Some i) q (nf_hwaddr n) (if ip4_addr_isbroadcast_u32 a n then ethbroadcast else mcastaddr a) ETHTYPE_IP w"
      using True by (cases "ip4_addr_isbroadcast_u32 a n") (simp_all add: go)
    then show ?thesis using output_direct [OF assms(1-3) q] True by (simp only: output_done_def if_True simp_thms)
  next
    case uni: False
    show ?thesis
    proof (cases "off_net n a \<and> nf_gw n = 0")
      case True
      then show ?thesis using uni assms(1) by (simp add: go output_done_def)
    next
      case on: False
      show ?thesis
      proof (cases "stable_for (Some i) ?a (arp_table w ! ?c)")
        case True
        let ?w1 = "stats_inc ArpCachehit w"
        have h: "holds_key (?a, i) (arp_table w ! ?c)" using True by (simp add: holds_key_def)
        have ch: "cache (arp_table w) (?a, i) \<noteq> None" using cache_at [OF inv(1) c(1) h] by simp
        have i1: "arp_inv cf ?w1 H" by (rule arp_inv_io [OF assms(1)]) (use inv(3) in simp_all)
        have u: "usable (arp_table ?w1 ! ?c)" and nf: "ew_netif ?w1 i = Some n" using True assms(2) by (simp_all add: stable_for_def usable_def)
        obtain r w' where w': "etharp_output_to_arp_index cf lo (Some i) q ?c ?w1 = Some (Inr (r, w'))" "arp_inv cf w' H" "net_same ?w1 w'"
          "forwarded i n q ?c ?w1 w'" using index_ok [OF i1 nf assms(3) c(1) u q, of lo] by (rule returns_pairE) blast
        have "forwarded i n q ?c w w'" using w'(4) forwarded_cong [of ?w1 w i n q ?c w'] by simp
        then have "output_done i n q a H w w' r" using uni on ch h c(1) unfolding output_done_def by (simp only: if_False) blast
        moreover have "net_same w w'" using w'(3) by (simp add: net_same_def)
        moreover have "etharp_output cf lo (Some i) (Some q) a w = Some (Inr (r, w'))" unfolding go using uni on True w'(1) by auto
        ultimately show ?thesis using w'(2) by simp
      next
        case False
        have "etharp_output cf lo (Some i) (Some q) a w = output_loop cf lo (Some i) q ?a [0..<10] w" unfolding go using uni on False by auto
        moreover have "(if cache (arp_table w) (?a, i) = None then query_done i n ?a (Some q) H w w' r
           else \<exists>k<10. holds_key (?a, i) (arp_table w ! k) \<and> forwarded i n q k w w') \<longleftrightarrow> output_done i n q a H w w' r" for r w'
          using uni on unfolding output_done_def by (simp only: if_False)
        ultimately show ?thesis using output_loop_ok [OF assms, of 0 ?a lo] by simp
      qed
    qed
  qed
qed

section \<open>Input\<close>

definition arp_for_cache :: "nat \<Rightarrow> pworld \<Rightarrow> bool" where
  "arp_for_cache hdr s \<longleftrightarrow> hdr_hwtype hdr s = lwip_htons LWIP_IANA_HWTYPE_ETHERNET \<and> hdr_hwlen hdr s = ETH_HWADDR_LEN \<and>
     hdr_protolen hdr s = 4 \<and> hdr_proto hdr s = lwip_htons ETHTYPE_IP"

definition for_us :: "eth_netif \<Rightarrow> nat \<Rightarrow> pworld \<Rightarrow> bool" where
  "for_us n hdr s \<longleftrightarrow> nf_ip_addr n \<noteq> 0 \<and> hdr_dipaddr hdr s = nf_ip_addr n"

definition replied :: "nat \<Rightarrow> eth_netif \<Rightarrow> eth_addr \<Rightarrow> u32 \<Rightarrow> frame list \<Rightarrow> bool" where
  "replied i n dst a out \<longleftrightarrow> out = [] \<or> (\<exists>fr. out = [fr] \<and> fr_netif fr = i \<and> packet (fr_world fr) (fr_pbuf fr) [fr_pbuf fr] \<and>
     content (fr_world fr) [fr_pbuf fr] =
       frame_header dst (nf_hwaddr n) ETHTYPE_ARP @ arp_bytes ARP_REPLY (nf_hwaddr n) (nf_ip_addr n) dst a)"

lemma reply_ok:
  assumes "arp_inv cf w H" "ew_netif w i = Some n" "nf_hwaddr_len n = 6"
  shows "returns (etharp_raw cf lo (Some i) (nf_hwaddr n) dst (nf_hwaddr n) (nf_ip_addr n) dst a ARP_REPLY w) (\<lambda>(_, w').
    arp_inv cf w' H \<and> net_same w w' \<and> arp_table w' = arp_table w \<and> etharp_cached_entry w' = etharp_cached_entry w \<and>
    (\<exists>out. ew_sent w' = ew_sent w @ out \<and> replied i n dst a out))"
proof -
  obtain r w' where r: "etharp_raw cf lo (Some i) (nf_hwaddr n) dst (nf_hwaddr n) (nf_ip_addr n) dst a ARP_REPLY w = Some (Inr (r, w'))"
    "pbuf_run cf (ew_pb w') (H + queue_refs (arp_table w))" "io_same w w'" and
    c: "r = ERR_MEM \<and> ew_sent w' = ew_sent w \<or> r = ERR_OK \<and> (\<exists>fr. ew_sent w' = ew_sent w @ [fr] \<and> fr_netif fr = i \<and>
       packet (fr_world fr) (fr_pbuf fr) [fr_pbuf fr] \<and> content (fr_world fr) [fr_pbuf fr] =
         frame_header dst (nf_hwaddr n) ETHTYPE_ARP @ arp_bytes ARP_REPLY (nf_hwaddr n) (nf_ip_addr n) dst a)"
    using etharp_raw_ok [OF arp_invD(3) [OF assms(1)] assms(2,3), of lo "nf_hwaddr n" dst "nf_hwaddr n" "nf_ip_addr n" dst a ARP_REPLY]
    by (rule returns_pairE) blast
  from c have "\<exists>out. ew_sent w' = ew_sent w @ out \<and> replied i n dst a out"
  proof (elim disjE conjE exE)
    assume "ew_sent w' = ew_sent w"
    then show ?thesis by (intro exI [of _ "[]"]) (simp add: replied_def)
  next
    fix fr assume "ew_sent w' = ew_sent w @ [fr]" "fr_netif fr = i" "packet (fr_world fr) (fr_pbuf fr) [fr_pbuf fr]"
      "content (fr_world fr) [fr_pbuf fr] = frame_header dst (nf_hwaddr n) ETHTYPE_ARP @ arp_bytes ARP_REPLY (nf_hwaddr n) (nf_ip_addr n) dst a"
    then show ?thesis unfolding replied_def by (intro exI [of _ "[fr]"]) simp
  qed
  then show ?thesis using r arp_inv_io [OF assms(1) r(3,2)] net_same_io [OF r(3)] io_same_arp [OF r(3)] by simp
qed

lemma update_returns:
  assumes "arp_inv cf w H" "ew_netif w i = Some n" "nf_hwaddr_len n = 6"
  obtains r w' where "etharp_update_arp_entry cf lo (Some i) a mac flags w = Some (Inr (r, w'))" "arp_inv cf w' H" "net_same w w'"
    "w' = w \<or> r = ERR_OK \<and> updated i n a mac flags w w'"
proof -
  obtain r w' where r: "etharp_update_arp_entry cf lo (Some i) a mac flags w = Some (Inr (r, w'))" "arp_inv cf w' H" "w' = w \<or> r = ERR_OK \<and> updated i n a mac flags w w'"
    using update_ok [OF assms, of lo a mac flags] by (rule returns_pairE) blast
  then have "net_same w w'" by (auto simp: updated_def)
  then show thesis using that r by blast
qed

lemma free_packet:
  assumes "arp_inv cf w (add_mset p H)"
  obtains m s where "on_pb (pbuf_free cf (Some p)) w = Some (Inr (m, w\<lparr>ew_pb := s\<rparr>))" "arp_inv cf (w\<lparr>ew_pb := s\<rparr>) H"
proof -
  have "pbuf_run cf (ew_pb w) (add_mset p (H + queue_refs (arp_table w)))" using arp_invD(3) [OF assms] by simp
  then obtain m s where s: "pbuf_free cf (Some p) (ew_pb w) = Some (Inr (m, s))" "pbuf_run cf s (H + queue_refs (arp_table w))" using run_free by blast
  have "arp_inv cf (w\<lparr>ew_pb := s\<rparr>) H" by (rule arp_inv_io [OF assms io_same_simps(1)]) (simp add: s(2))
  then show thesis using that s(1) by (simp add: on_pb_def)
qed

lemma arp_inv_stats: "arp_inv cf w H \<Longrightarrow> arp_inv cf (stats_inc c w) H"
  by (rule arp_inv_io [OF _ io_same_simps(2)]) (simp_all add: arp_invD(3))

definition input_done :: "custom_free \<Rightarrow> linkoutput \<Rightarrow> nat \<Rightarrow> eth_netif \<Rightarrow> nat \<Rightarrow> 'a aworld_scheme \<Rightarrow> 'a aworld_scheme \<Rightarrow> bool" where
  "input_done cf lo i n hdr w w' \<longleftrightarrow>
    (let s = ew_pb w; us = for_us n hdr s
     in if arp_for_cache hdr s then
          \<exists>r w1 out. etharp_update_arp_entry cf lo (Some i) (hdr_sipaddr hdr s) (hdr_shwaddr hdr s)
              (if us then ETHARP_FLAG_TRY_HARD else ETHARP_FLAG_FIND_ONLY) (stats_inc ArpRecv w) = Some (Inr (r, w1)) \<and>
            arp_table w' = arp_table w1 \<and> ew_sent w' = ew_sent w1 @ out \<and>
            (if us \<and> hdr_opcode hdr (ew_pb w1) = lwip_htons ARP_REQUEST then replied i n (hdr_shwaddr hdr s) (hdr_sipaddr hdr s) out else out = [])
        else arp_table w' = arp_table w \<and> ew_sent w' = ew_sent w)"

definition input_answer :: "custom_free \<Rightarrow> linkoutput \<Rightarrow> nat \<Rightarrow> eth_netif \<Rightarrow> bool \<Rightarrow> eth_addr \<Rightarrow> u32 \<Rightarrow> u16 \<Rightarrow> 'a aworld_scheme \<Rightarrow> (unit \<times> 'a aworld_scheme) run" where
  "input_answer cf lo i n us shwaddr sipaddr opcode w =
                          (if opcode = lwip_htons ARP_REQUEST then
                             (if us then
                                rbind (etharp_raw cf lo (Some i) (nf_hwaddr n) shwaddr (nf_hwaddr n) (nf_ip_addr n) shwaddr sipaddr ARP_REPLY w)
                                  (\<lambda>(_, w). Some (Inr ((), w)))
                              else Some (Inr ((), w)))
                           else if opcode = lwip_htons ARP_REPLY then Some (Inr ((), w))
                           else Some (Inr ((), stats_inc ArpErr w)))"

lemma input_answer_ok:
  assumes "arp_inv cf w H" "ew_netif w i = Some n" "nf_hwaddr_len n = 6"
  shows "returns (input_answer cf lo i n us sha sip opcode w) (\<lambda>(_, w'). arp_inv cf w' H \<and> net_same w w' \<and> arp_table w' = arp_table w \<and>
    (\<exists>out. ew_sent w' = ew_sent w @ out \<and> (if us \<and> opcode = lwip_htons ARP_REQUEST then replied i n sha sip out else out = [])))"
proof (cases "us \<and> opcode = lwip_htons ARP_REQUEST")
  case True
  obtain r w' where "etharp_raw cf lo (Some i) (nf_hwaddr n) sha (nf_hwaddr n) (nf_ip_addr n) sha sip ARP_REPLY w = Some (Inr (r, w'))"
    "arp_inv cf w' H" "net_same w w'" "arp_table w' = arp_table w" "\<exists>out. ew_sent w' = ew_sent w @ out \<and> replied i n sha sip out"
    using reply_ok [OF assms, of lo sha sip] by (rule returns_pairE) blast
  then show ?thesis using True by (simp add: input_answer_def)
next
  case False
  have "net_same w (stats_inc ArpErr w)" by (simp add: net_same_def)
  then show ?thesis using False assms(1) arp_inv_stats [OF assms(1), of ArpErr] by (auto simp: input_answer_def)
qed

lemma input_split:
  assumes "pw_buf (ew_pb w) p = Some b" "ew_netif w i = Some n"
  shows "etharp_input cf lo p (Some i) w =
    (if \<not> arp_for_cache (payload b) (ew_pb w) then
       rbind (on_pb (pbuf_free cf (Some p)) (stats_inc ArpDrop (stats_inc ArpProterr w))) (\<lambda>(_, w). Some (Inr ((), w)))
     else rbind (etharp_update_arp_entry cf lo (Some i) (hdr_sipaddr (payload b) (ew_pb w)) (hdr_shwaddr (payload b) (ew_pb w))
            (if for_us n (payload b) (ew_pb w) then ETHARP_FLAG_TRY_HARD else ETHARP_FLAG_FIND_ONLY) (stats_inc ArpRecv w)) (\<lambda>(_, w1).
          rbind (input_answer cf lo i n (for_us n (payload b) (ew_pb w)) (hdr_shwaddr (payload b) (ew_pb w)) (hdr_sipaddr (payload b) (ew_pb w))
              (hdr_opcode (payload b) (ew_pb w1)) w1) (\<lambda>(_, w2).
            rbind (on_pb (pbuf_free cf (Some p)) w2) (\<lambda>(_, w). Some (Inr ((), w))))))"
proof -
  have us: "(if nf_ip_addr n = 0 then False else hdr_dipaddr (payload b) (ew_pb w) = nf_ip_addr n) = for_us n (payload b) (ew_pb w)"
    by (simp add: for_us_def)
  have hd: "(hdr_hwtype (payload b) (ew_pb w) \<noteq> lwip_htons LWIP_IANA_HWTYPE_ETHERNET \<or> hdr_hwlen (payload b) (ew_pb w) \<noteq> ETH_HWADDR_LEN \<or>
      hdr_protolen (payload b) (ew_pb w) \<noteq> 4 \<or> hdr_proto (payload b) (ew_pb w) \<noteq> lwip_htons ETHTYPE_IP) = (\<not> arp_for_cache (payload b) (ew_pb w))"
    by (auto simp: arp_for_cache_def)
  show ?thesis
    unfolding etharp_input_def Let_def input_answer_def deref_def option.case stats_inc_fields assms rbind_simps us hd split ..
qed

lemma etharp_input_ok:
  assumes "arp_inv cf w (add_mset p H)" "pw_buf (ew_pb w) p = Some b" "ew_netif w i = Some n" "nf_hwaddr_len n = 6"
  shows "returns (etharp_input cf lo p (Some i) w) (\<lambda>(_, w'). arp_inv cf w' H \<and> net_same w w' \<and> input_done cf lo i n (payload b) w w')"
proof (cases "arp_for_cache (payload b) (ew_pb w)")
  case False
  let ?w1 = "stats_inc ArpDrop (stats_inc ArpProterr w)"
  obtain m s where "on_pb (pbuf_free cf (Some p)) ?w1 = Some (Inr (m, ?w1\<lparr>ew_pb := s\<rparr>))" "arp_inv cf (?w1\<lparr>ew_pb := s\<rparr>) H"
    using free_packet [OF arp_inv_stats [OF arp_inv_stats [OF assms(1)]]] by blast
  then show ?thesis using False by (simp add: input_split [OF assms(2,3)] input_done_def net_same_def Let_def)
next
  case True
  let ?s = "ew_pb w" and ?h = "payload b" and ?w0 = "stats_inc ArpRecv w"
  let ?us = "for_us n ?h ?s"
  have nf0: "ew_netif ?w0 i = Some n" using assms(3) by simp
  obtain r w1 where w1: "etharp_update_arp_entry cf lo (Some i) (hdr_sipaddr ?h ?s) (hdr_shwaddr ?h ?s)
      (if ?us then ETHARP_FLAG_TRY_HARD else ETHARP_FLAG_FIND_ONLY) ?w0 = Some (Inr (r, w1))" "arp_inv cf w1 (add_mset p H)" "net_same ?w0 w1"
    by (rule update_returns [OF arp_inv_stats [OF assms(1)] nf0 assms(4)])
  have nf1: "ew_netif w1 i = Some n" using w1(3) assms(3) by (simp add: net_same_def)
  obtain w2 where w2: "input_answer cf lo i n ?us (hdr_shwaddr ?h ?s) (hdr_sipaddr ?h ?s) (hdr_opcode ?h (ew_pb w1)) w1 = Some (Inr ((), w2))"
    "arp_inv cf w2 (add_mset p H)" "net_same w1 w2" "arp_table w2 = arp_table w1" "\<exists>out. ew_sent w2 = ew_sent w1 @ out \<and>
      (if ?us \<and> hdr_opcode ?h (ew_pb w1) = lwip_htons ARP_REQUEST then replied i n (hdr_shwaddr ?h ?s) (hdr_sipaddr ?h ?s) out else out = [])"
    using input_answer_ok [OF w1(2) nf1 assms(4), of lo ?us "hdr_shwaddr ?h ?s" "hdr_sipaddr ?h ?s" "hdr_opcode ?h (ew_pb w1)"] by (rule returns_pairE) simp
  then obtain out where out: "ew_sent w2 = ew_sent w1 @ out"
      "if ?us \<and> hdr_opcode ?h (ew_pb w1) = lwip_htons ARP_REQUEST then replied i n (hdr_shwaddr ?h ?s) (hdr_sipaddr ?h ?s) out else out = []" by blast
  obtain m s where s: "on_pb (pbuf_free cf (Some p)) w2 = Some (Inr (m, w2\<lparr>ew_pb := s\<rparr>))" "arp_inv cf (w2\<lparr>ew_pb := s\<rparr>) H"
    using free_packet [OF w2(2)] by blast
  have "etharp_input cf lo p (Some i) w = Some (Inr ((), w2\<lparr>ew_pb := s\<rparr>))" using True w1(1) w2(1) s(1) by (simp add: input_split [OF assms(2,3)])
  moreover have "net_same w (w2\<lparr>ew_pb := s\<rparr>)" using w1(3) w2(3) by (simp add: net_same_def)
  moreover have "input_done cf lo i n ?h w (w2\<lparr>ew_pb := s\<rparr>)"
    unfolding input_done_def Let_def if_P [OF True] using w1(1) w2(4) out by (intro exI [of _ r] exI [of _ w1] exI [of _ out]) simp
  ultimately show ?thesis using s(2) by simp
qed

section \<open>Frames that come in\<close>

lemma link_flags_custom: "link_flags d f AND 0x02 = f AND 0x02"
proof -
  have "(f OR 0x08) AND 0x02 = f AND 0x02" "(f OR 0x10) AND 0x02 = f AND (0x02 :: u8)" by (simp_all add: bit.conj_disj_distrib2)
  then show ?thesis by (cases d) (simp add: link_flags_def PBUF_FLAG_LLBCAST_def PBUF_FLAG_LLMCAST_def)
qed

lemma arp_inv_pb: "arp_inv cf w H \<Longrightarrow> pbuf_run cf s (H' + queue_refs (arp_table w)) \<Longrightarrow> arp_inv cf (w\<lparr>ew_pb := s\<rparr>) H'"
  by (rule arp_inv_io [OF _ io_same_simps(1)]) simp_all

lemma arp_inv_mark:
  assumes "arp_inv cf w H" "pw_buf (ew_pb w) p = Some b"
  shows "arp_inv cf (w\<lparr>ew_pb := put p (b\<lparr>if_idx := x, pb_flags := link_flags d (pb_flags b)\<rparr>) (ew_pb w)\<rparr>) H"
proof -
  note run = arp_invD(3) [OF assms(1)]
  obtain L where "chains_inv (ew_pb w) L (H + queue_refs (arp_table w))" using pbuf_run_inv [OF run] by blast
  then have "pb_flags b AND 0x02 = 0" using chains_inv_buf assms(2) by (auto simp: buf_ok_def)
  then have "link_flags d (pb_flags b) AND 0x02 = 0" by (simp add: link_flags_custom)
  then have "pbuf_run cf (put p (b\<lparr>payload := payload b, pb_flags := link_flags d (pb_flags b), if_idx := x\<rparr>) (ew_pb w)) (H + queue_refs (arp_table w))"
    by (intro pbuf_run.fields [OF run assms(2)]) simp_all
  moreover have e: "b\<lparr>payload := payload b, pb_flags := link_flags d (pb_flags b), if_idx := x\<rparr> = b\<lparr>if_idx := x, pb_flags := link_flags d (pb_flags b)\<rparr>"
    by (cases b) simp
  ultimately have "pbuf_run cf (put p (b\<lparr>if_idx := x, pb_flags := link_flags d (pb_flags b)\<rparr>) (ew_pb w)) (H + queue_refs (arp_table w))"
    by (simp only: e)
  then show ?thesis by (rule arp_inv_pb [OF assms(1)])
qed

lemma free_and_return:
  assumes "arp_inv cf w (add_mset p H)"
  shows "returns (rbind (on_pb (pbuf_free cf (Some p)) w) (\<lambda>(_, w). Some (Inr (ERR_OK, w)))) (\<lambda>(r, w'). r = ERR_OK \<and> arp_inv cf w' H \<and> net_same w w')"
proof -
  obtain m s where "on_pb (pbuf_free cf (Some p)) w = Some (Inr (m, w\<lparr>ew_pb := s\<rparr>))" "arp_inv cf (w\<lparr>ew_pb := s\<rparr>) H"
    by (rule free_packet [OF assms])
  then show ?thesis by (simp add: net_same_def)
qed

lemma strip_header:
  assumes "arp_inv cf w H" "p \<in># H"
  obtains f s b where "on_pb (\<lambda>s. Some (pbuf_remove_header (Some p) SIZEOF_ETH_HDR s)) w = Some (Inr (f, w\<lparr>ew_pb := s\<rparr>))"
    "arp_inv cf (w\<lparr>ew_pb := s\<rparr>) H" "pw_buf s p = Some b"
proof -
  have p: "p \<in># H + queue_refs (arp_table w)" using assms(2) by simp
  obtain b where b: "pw_buf (ew_pb w) p = Some b" using run_live [OF arp_invD(3) [OF assms(1)] p] by blast
  have "\<exists>f s. pbuf_remove_header (Some p) SIZEOF_ETH_HDR (ew_pb w) = Inr (f, s)"
    using b by (simp add: pbuf_remove_header_def deref_def Let_def SIZEOF_ETH_HDR_def)
  then obtain f s where f: "pbuf_remove_header (Some p) SIZEOF_ETH_HDR (ew_pb w) = Inr (f, s)" by blast
  have run: "pbuf_run cf s (H + queue_refs (arp_table w))" by (rule pbuf_run.remove_header [OF arp_invD(3) [OF assms(1)] p f])
  obtain b' where "pw_buf s p = Some b'" using run_live [OF run p] by blast
  then show thesis using that [of f s b'] f arp_inv_pb [OF assms(1) run] by (simp add: on_pb_def)
qed

lemma ethernet_input_ok:
  fixes w :: "'a aworld_scheme"
  assumes "arp_inv cf w (add_mset p H)" "ew_netif w i = Some n" "nf_hwaddr_len n = 6"
    "\<And>w1. arp_inv cf w1 (add_mset p H) \<Longrightarrow> net_same w w1 \<Longrightarrow> returns (ip4_input p (Some i) w1) (\<lambda>(_, w'). arp_inv cf w' H \<and> net_same w1 w')"
  shows "returns (ethernet_input cf lo ip4_input p (Some i) w) (\<lambda>(r, w'). r = ERR_OK \<and> arp_inv cf w' H \<and> net_same w w')"
proof -
  have p: "p \<in># add_mset p H" by simp
  obtain b where b: "pw_buf (ew_pb w) p = Some b" using run_live [OF arp_invD(3) [OF assms(1)], of p] by auto
  have fr: "returns (rbind (on_pb (pbuf_free cf (Some p)) w1) (\<lambda>(_, w). Some (Inr (ERR_OK, w)))) (\<lambda>(r, w'). r = ERR_OK \<and> arp_inv cf w' H \<and> net_same w w')"
    if "arp_inv cf w1 (add_mset p H)" "net_same w w1" for w1
    using free_and_return [OF that(1)] net_same_trans [OF that(2)] by (elim returns_pairE) (auto simp: net_same_def)
  have st: "net_same w (stats_inc c w1) = net_same w w1" for c w1 by (simp add: net_same_def)
  show ?thesis
  proof (cases "pb_len b \<le> SIZEOF_ETH_HDR")
    case True
    have "returns (rbind (on_pb (pbuf_free cf (Some p)) (stats_inc (IfInErrors i) (stats_inc ArpDrop (stats_inc ArpProterr w)))) (\<lambda>(_, w). Some (Inr (ERR_OK, w))))
        (\<lambda>(r, w'). r = ERR_OK \<and> arp_inv cf w' H \<and> net_same w w')"
      by (rule fr) (simp_all add: st arp_inv_stats assms(1))
    then show ?thesis using True b assms(2) by (simp add: ethernet_input_def deref_def)
  next
    case False
    define idx where "idx = (if if_idx b = 0 then netif_get_index n else if_idx b)"
    define b1 where "b1 = b\<lparr>if_idx := idx, pb_flags := link_flags (rd_eth (payload b) (ew_pb w)) (pb_flags b)\<rparr>"
    define w1 where "w1 = w\<lparr>ew_pb := put p b1 (ew_pb w)\<rparr>"
    define ty where "ty = rd_u16 (payload b + 12) (ew_pb w)"
    have i1: "arp_inv cf w1 (add_mset p H)" unfolding w1_def b1_def by (rule arp_inv_mark [OF assms(1) b])
    have n1: "net_same w w1" by (simp add: w1_def net_same_def)
    have mb: "(if if_idx b = 0 then b\<lparr>if_idx := netif_get_index n\<rparr> else b) = b\<lparr>if_idx := idx\<rparr>" by (cases b) (simp add: idx_def)
    have go: "ethernet_input cf lo ip4_input p (Some i) w =
      (if ty = lwip_htons ETHTYPE_IP then
                   (if nf_flags n AND NETIF_FLAG_ETHARP = 0 then rbind (on_pb (pbuf_free cf (Some p)) w1) (\<lambda>(_, w). Some (Inr (ERR_OK, w)))
                    else rbind (on_pb (\<lambda>s. Some (pbuf_remove_header (Some p) SIZEOF_ETH_HDR s)) w1) (\<lambda>(failed, w).
                      if failed \<noteq> 0 then rbind (on_pb (pbuf_free cf (Some p)) w) (\<lambda>(_, w). Some (Inr (ERR_OK, w)))
                      else rbind (ip4_input p (Some i) w) (\<lambda>(_, w). Some (Inr (ERR_OK, w)))))
                 else if ty = lwip_htons ETHTYPE_ARP then
                   (if nf_flags n AND NETIF_FLAG_ETHARP = 0 then rbind (on_pb (pbuf_free cf (Some p)) w1) (\<lambda>(_, w). Some (Inr (ERR_OK, w)))
                    else rbind (on_pb (\<lambda>s. Some (pbuf_remove_header (Some p) SIZEOF_ETH_HDR s)) w1) (\<lambda>(failed, w).
                      if failed \<noteq> 0 then rbind (on_pb (pbuf_free cf (Some p)) (stats_inc ArpDrop (stats_inc ArpLenerr w))) (\<lambda>(_, w). Some (Inr (ERR_OK, w)))
                      else rbind (etharp_input cf lo p (Some i) w) (\<lambda>(_, w). Some (Inr (ERR_OK, w)))))
                 else rbind (on_pb (pbuf_free cf (Some p)) (stats_inc (IfInUnknownProtos i) (stats_inc ArpDrop (stats_inc ArpProterr w1)))) (\<lambda>(_, w). Some (Inr (ERR_OK, w))))"
      using False b assms(2) mb unfolding ethernet_input_def Let_def ty_def w1_def b1_def by (simp add: deref_def)
    have unknown: "returns (rbind (on_pb (pbuf_free cf (Some p)) (stats_inc (IfInUnknownProtos i) (stats_inc ArpDrop (stats_inc ArpProterr w1)))) (\<lambda>(_, w). Some (Inr (ERR_OK, w))))
        (\<lambda>(r, w'). r = ERR_OK \<and> arp_inv cf w' H \<and> net_same w w')"
      by (rule fr) (simp_all add: st arp_inv_stats i1 n1)
    obtain f s c where h: "on_pb (\<lambda>s. Some (pbuf_remove_header (Some p) SIZEOF_ETH_HDR s)) w1 = Some (Inr (f, w1\<lparr>ew_pb := s\<rparr>))"
      "arp_inv cf (w1\<lparr>ew_pb := s\<rparr>) (add_mset p H)" "pw_buf s p = Some c" by (rule strip_header [OF i1 p])
    let ?w2 = "w1\<lparr>ew_pb := s\<rparr>"
    have n2: "net_same w ?w2" using n1 by (simp add: net_same_def)
    have nf2: "ew_netif ?w2 i = Some n" using n2 assms(2) by (simp add: net_same_def)
    have c2: "pw_buf (ew_pb ?w2) p = Some c" using h(3) by simp
    have ip: "returns (rbind (ip4_input p (Some i) ?w2) (\<lambda>(_, w). Some (Inr (ERR_OK, w)))) (\<lambda>(r, w'). r = ERR_OK \<and> arp_inv cf w' H \<and> net_same w w')"
      using assms(4) [OF h(2) n2] net_same_trans [OF n2] by (elim returns_pairE) (auto simp: net_same_def)
    have arp: "returns (rbind (etharp_input cf lo p (Some i) ?w2) (\<lambda>(_, w). Some (Inr (ERR_OK, w)))) (\<lambda>(r, w'). r = ERR_OK \<and> arp_inv cf w' H \<and> net_same w w')"
      using etharp_input_ok [OF h(2) c2 nf2 assms(3), of lo] net_same_trans [OF n2] by (elim returns_pairE) (auto simp: net_same_def)
    have drop: "returns (rbind (on_pb (pbuf_free cf (Some p)) (stats_inc ArpDrop (stats_inc ArpLenerr ?w2))) (\<lambda>(_, w). Some (Inr (ERR_OK, w))))
        (\<lambda>(r, w'). r = ERR_OK \<and> arp_inv cf w' H \<and> net_same w w')"
      by (rule fr) (simp_all add: st arp_inv_stats h(2) n2)
    show ?thesis unfolding go h(1) rbind_simps split
      using unknown ip arp drop fr [OF i1 n1] fr [OF h(2) n2] by (simp only: split: if_split) blast
  qed
qed

section \<open>Routes and static entries\<close>

definition wants :: "(nat \<rightharpoonup> eth_netif) \<Rightarrow> u32 \<Rightarrow> nat \<Rightarrow> bool" where
  "wants nf a j \<longleftrightarrow> (case nf j of None \<Rightarrow> False | Some n \<Rightarrow> netif_is_up n \<and> netif_is_link_up n \<and> nf_ip_addr n \<noteq> 0 \<and>
     (ip4_addr_netcmp a (nf_ip_addr n) (nf_netmask n) \<or> nf_flags n AND NETIF_FLAG_BROADCAST = 0 \<and> a = nf_gw n))"

definition default_route :: "(nat \<rightharpoonup> eth_netif) \<Rightarrow> u32 \<Rightarrow> nat option \<Rightarrow> nat option" where
  "default_route nf a d = (case d of None \<Rightarrow> None | Some j \<Rightarrow> (case nf j of None \<Rightarrow> None
     | Some n \<Rightarrow> if netif_is_up n \<and> netif_is_link_up n \<and> nf_ip_addr n \<noteq> 0 \<and> \<not> ip4_addr_isloopback a then Some j else None))"

definition nets_live :: "'a eworld_scheme \<Rightarrow> bool" where
  "nets_live w \<longleftrightarrow> (\<forall>j\<in>set (netif_list w) \<union> set_option (netif_default w). ew_netif w j \<noteq> None)"

lemma route_loop_ok: "\<forall>j\<in>set ns. nf j \<noteq> None \<Longrightarrow> route_loop nf a ns = Inr (List.find (wants nf a) ns)"
proof (induction ns)
  case (Cons j ns)
  then obtain n where n: "nf j = Some n" by auto
  have ih: "route_loop nf a ns = Inr (List.find (wants nf a) ns)" using Cons by simp
  have "wants nf a j \<longleftrightarrow> (netif_is_up n \<and> netif_is_link_up n \<and> nf_ip_addr n \<noteq> 0) \<and>
     (ip4_addr_netcmp a (nf_ip_addr n) (nf_netmask n) \<or> nf_flags n AND NETIF_FLAG_BROADCAST = 0 \<and> a = nf_gw n)" using n by (simp add: wants_def)
  then show ?case using n ih by (cases "wants nf a j") (auto simp: deref_def)
qed simp

definition routed :: "u32 \<Rightarrow> 'a eworld_scheme \<Rightarrow> nat option" where
  "routed a w =
     (if ip4_addr_ismulticast a \<and> ip4_default_multicast_netif w \<noteq> None then ip4_default_multicast_netif w
      else case List.find (wants (ew_netif w) a) (netif_list w) of Some j \<Rightarrow> Some j
      | None \<Rightarrow> default_route (ew_netif w) a (netif_default w))"

lemma route_ok:
  assumes "nets_live w"
  shows "\<exists>w'. ip4_route a w = Some (Inr (routed a w, w')) \<and> io_same w w' \<and> ew_pb w' = ew_pb w \<and> ew_sent w' = ew_sent w"
proof (cases "ip4_addr_ismulticast a \<and> ip4_default_multicast_netif w \<noteq> None")
  case True
  then show ?thesis by (intro exI [of _ w]) (simp add: ip4_route_def routed_def)
next
  case False
  have l: "route_loop (ew_netif w) a (netif_list w) = Inr (List.find (wants (ew_netif w) a) (netif_list w))"
    using assms by (intro route_loop_ok) (simp add: nets_live_def)
  note d = ip4_route_def routed_def if_not_P [OF False]
  show ?thesis
  proof (cases "List.find (wants (ew_netif w) a) (netif_list w)")
    case (Some j)
    then show ?thesis unfolding d using l by simp
  next
    case None
    have io: "io_same w (stats_inc IpOutNoRoutes (stats_inc IpRterr w))" by simp
    show ?thesis
    proof (cases "netif_default w")
      case None
      then show ?thesis unfolding d using l io \<open>List.find _ _ = None\<close> by (simp add: default_route_def)
    next
      case (Some j)
      obtain n where n: "ew_netif w j = Some n" using assms Some by (auto simp: nets_live_def)
      show ?thesis unfolding d using l io n Some \<open>List.find _ _ = None\<close> by (auto simp: default_route_def deref_def)
    qed
  qed
qed

lemma add_static_ok:
  assumes "arp_inv cf w H" "nets_live w" "routed a w \<noteq> None \<longrightarrow> ether (ew_netif w) (routed a w)"
  shows "returns (etharp_add_static_entry cf lo a mac w) (\<lambda>(r, w'). arp_inv cf w' H \<and> net_same w w' \<and>
    (case routed a w of
       None \<Rightarrow> r = ERR_RTE \<and> arp_table w' = arp_table w \<and> ew_sent w' = ew_sent w
     | Some i \<Rightarrow> arp_table w' = arp_table w \<and> ew_sent w' = ew_sent w \<or>
         r = ERR_OK \<and> (\<exists>n. ew_netif w i = Some n \<and> updated i n a mac (ETHARP_FLAG_TRY_HARD OR ETHARP_FLAG_STATIC_ENTRY) w w')))"
proof -
  obtain w1 where w1: "ip4_route a w = Some (Inr (routed a w, w1))" "io_same w w1" "ew_pb w1 = ew_pb w" "ew_sent w1 = ew_sent w"
    using route_ok [OF assms(2), of a] by auto
  have i1: "arp_inv cf w1 H" by (rule arp_inv_io [OF assms(1) w1(2)]) (simp add: w1(3) arp_invD(3) [OF assms(1)])
  note n1 = net_same_io [OF w1(2)] and t1 = io_same_arp [OF w1(2)]
  show ?thesis
  proof (cases "routed a w")
    case None
    then show ?thesis using w1 i1 n1 t1 by (simp add: etharp_add_static_entry_def)
  next
    case (Some i)
    obtain n where n: "ew_netif w i = Some n" "nf_hwaddr_len n = 6" using assms(3) Some by (auto simp: ether_def)
    have nf1: "ew_netif w1 i = Some n" using n(1) n1 by (simp add: net_same_def)
    obtain r w2 where w2: "etharp_update_arp_entry cf lo (Some i) a mac (ETHARP_FLAG_TRY_HARD OR ETHARP_FLAG_STATIC_ENTRY) w1 = Some (Inr (r, w2))"
      "arp_inv cf w2 H" "net_same w1 w2" "w2 = w1 \<or> r = ERR_OK \<and> updated i n a mac (ETHARP_FLAG_TRY_HARD OR ETHARP_FLAG_STATIC_ENTRY) w1 w2"
      by (rule update_returns [OF i1 nf1 n(2)])
    have "etharp_add_static_entry cf lo a mac w = Some (Inr (r, w2))" using w1(1) w2(1) Some by (simp add: etharp_add_static_entry_def)
    moreover have f: "ew_netif w1 = ew_netif w" "netif_list w1 = netif_list w" "netif_default w1 = netif_default w" "arp_table w1 = arp_table w"
      "etharp_cached_entry w1 = etharp_cached_entry w" using n1 t1 by (simp_all add: net_same_def)
    moreover have "updated i n a mac f w1 w2 = updated i n a mac f w w2" for f
      by (simp only: updated_def net_same_def f w1(3,4))
    ultimately show ?thesis using w2 net_same_trans [OF n1 w2(3)] Some n t1 w1(4) by auto
  qed
qed

section \<open>Runs\<close>

text \<open>The calls of the cache, and what a caller must grant.\<close>

datatype arp_call = Tmr | Query nat u32 "nat option" | Output nat nat u32 | Request nat u32 | FindAddr nat u32 | Input nat nat
  | Send nat nat eth_addr eth_addr u16 | Cleanup nat | AddStatic u32 eth_addr | RemoveStatic u32

definition drop_result :: "('r \<times> aworld) run \<Rightarrow> (unit \<times> aworld) run" where
  "drop_result m = rbind m (\<lambda>(_, w). Some (Inr ((), w)))"

fun arp_do :: "custom_free \<Rightarrow> linkoutput \<Rightarrow> arp_call \<Rightarrow> aworld \<Rightarrow> (unit \<times> aworld) run" where
  "arp_do cf lo Tmr w = etharp_tmr cf lo w"
| "arp_do cf lo (Query i a q) w = drop_result (etharp_query cf lo (Some i) a q w)"
| "arp_do cf lo (Output i q a) w = drop_result (etharp_output cf lo (Some i) (Some q) a w)"
| "arp_do cf lo (Request i a) w = drop_result (etharp_request cf lo (Some i) a w)"
| "arp_do cf lo (FindAddr i a) w = drop_result (etharp_find_addr cf (Some i) a w)"
| "arp_do cf lo (Input p i) w = etharp_input cf lo p (Some i) w"
| "arp_do cf lo (Send i p src dst type) w = drop_result (ethernet_output lo (Some i) p src dst type w)"
| "arp_do cf lo (Cleanup i) w = etharp_cleanup_netif cf (Some i) w"
| "arp_do cf lo (AddStatic a mac) w = drop_result (etharp_add_static_entry cf lo a mac w)"
| "arp_do cf lo (RemoveStatic a) w = drop_result (etharp_remove_static_entry cf a w)"

fun granted :: "arp_call \<Rightarrow> aworld \<Rightarrow> nat multiset \<Rightarrow> bool" where
  "granted (Query i a q) w H \<longleftrightarrow> ether (ew_netif w) (Some i) \<and> (\<forall>p. q = Some p \<longrightarrow> outgoing (ew_pb w) H p)"
| "granted (Output i q a) w H \<longleftrightarrow> ether (ew_netif w) (Some i) \<and> outgoing (ew_pb w) H q"
| "granted (Request i a) w H \<longleftrightarrow> ether (ew_netif w) (Some i)"
| "granted (Input p i) w H \<longleftrightarrow> ether (ew_netif w) (Some i) \<and> p \<in># H"
| "granted (Send i p src dst type) w H \<longleftrightarrow> ether (ew_netif w) (Some i) \<and> p \<in># H"
| "granted (AddStatic a mac) w H \<longleftrightarrow> nets_live w \<and> (routed a w \<noteq> None \<longrightarrow> ether (ew_netif w) (routed a w))"
| "granted _ w H \<longleftrightarrow> True"

fun held_after :: "arp_call \<Rightarrow> nat multiset \<Rightarrow> nat multiset" where
  "held_after (Input p i) H = H - {#p#}"
| "held_after _ H = H"

definition arp_zero :: arp_entry where
  "arp_zero = \<lparr>ae_q = None, ae_ipaddr = 0, ae_netif = None, ae_ethaddr = ethzero, ae_ctime = 0, ae_state = ETHARP_STATE_EMPTY\<rparr>"

text \<open>
  The cache starts empty.  Between its calls the users of the buffers do anything a run of the buffers allows, as long as the references
  the cache holds stay counted, and interfaces come, change and go, as long as those in use stay.
\<close>

inductive arp_run :: "custom_free \<Rightarrow> linkoutput \<Rightarrow> aworld \<Rightarrow> nat multiset \<Rightarrow> bool" for cf lo where
  init: "pbuf_run cf (ew_pb w) H \<Longrightarrow> arp_table w = replicate ARP_TABLE_SIZE arp_zero \<Longrightarrow> etharp_cached_entry w = 0 \<Longrightarrow> arp_run cf lo w H"
| call: "arp_run cf lo w H \<Longrightarrow> granted c w H \<Longrightarrow> arp_do cf lo c w = Some (Inr ((), w')) \<Longrightarrow> arp_run cf lo w' (held_after c H)"
| buffers: "arp_run cf lo w H \<Longrightarrow> pbuf_run cf s (H' + queue_refs (arp_table w)) \<Longrightarrow> arp_run cf lo (w\<lparr>ew_pb := s\<rparr>) H'"
| interfaces: "arp_run cf lo w H \<Longrightarrow> \<forall>e\<in>set (arp_table w). nonempty e \<longrightarrow> ether nf (ae_netif e) \<Longrightarrow>
    arp_run cf lo (w\<lparr>ew_netif := nf, netif_list := l, netif_default := d, ip4_default_multicast_netif := mc\<rparr>) H"

lemma drop_result_ok: "returns m (\<lambda>(r, w). P w) \<Longrightarrow> returns (drop_result m) (\<lambda>(_, w). P w)"
  by (auto simp: drop_result_def returns_iff)

lemma returns_weaken: "returns m (\<lambda>(r, w). P r w) \<Longrightarrow> (\<And>r w. P r w \<Longrightarrow> Q w) \<Longrightarrow> returns m (\<lambda>(r, w). Q w)"
  by (auto simp: returns_iff)

lemma arp_do_ok:
  assumes "arp_inv cf w H" "granted c w H"
  shows "returns (arp_do cf lo c w) (\<lambda>(_, w'). arp_inv cf w' (held_after c H))"
proof (cases c)
  case Tmr
  then show ?thesis using etharp_tmr_ok [OF assms(1), of lo] by (auto elim!: returns_weaken)
next
  case (Query i a q)
  then obtain n where n: "ew_netif w i = Some n" "nf_hwaddr_len n = 6" "\<And>p. q = Some p \<Longrightarrow> outgoing (ew_pb w) H p" using assms(2) by (auto simp: ether_def)
  show ?thesis unfolding Query arp_do.simps held_after.simps
    by (rule drop_result_ok, rule returns_weaken, rule query_ok [OF assms(1) n]) simp_all
next
  case (Output i q a)
  then obtain n where n: "ew_netif w i = Some n" "nf_hwaddr_len n = 6" "outgoing (ew_pb w) H q" using assms(2) by (auto simp: ether_def)
  show ?thesis unfolding Output arp_do.simps held_after.simps
    by (rule drop_result_ok, rule returns_weaken, rule etharp_output_ok [OF assms(1) n]) simp
next
  case (Request i a)
  then obtain n where n: "ew_netif w i = Some n" "nf_hwaddr_len n = 6" using assms(2) by (auto simp: ether_def)
  show ?thesis unfolding Request arp_do.simps held_after.simps
    by (rule drop_result_ok, rule returns_weaken, rule request_ok [OF assms(1) n]) simp
next
  case (FindAddr i a)
  then show ?thesis using find_addr_ok [OF assms(1), of i a] assms(1) by (auto simp: drop_result_def)
next
  case (Input p i)
  then obtain n where n: "ew_netif w i = Some n" "nf_hwaddr_len n = 6" and p: "p \<in># H" using assms(2) by (auto simp: ether_def)
  have H: "add_mset p (H - {#p#}) = H" using p by simp
  have i1: "arp_inv cf w (add_mset p (H - {#p#}))" unfolding H by (rule assms(1))
  obtain b where b: "pw_buf (ew_pb w) p = Some b" using run_live [OF arp_invD(3) [OF assms(1)], of p] p by auto
  show ?thesis unfolding Input arp_do.simps held_after.simps
    by (rule returns_weaken, rule etharp_input_ok [OF i1 b n]) simp
next
  case (Send i p src dst type)
  then obtain n where n: "ew_netif w i = Some n" "nf_hwaddr_len n = 6" and p: "p \<in># H + queue_refs (arp_table w)" using assms(2) by (auto simp: ether_def)
  show ?thesis unfolding Send arp_do.simps held_after.simps
    by (rule drop_result_ok, rule returns_weaken, rule output_ok [OF arp_invD(3) [OF assms(1)] p n]) (use arp_inv_io [OF assms(1)] in blast)
next
  case (Cleanup i)
  show ?thesis unfolding Cleanup arp_do.simps held_after.simps
    by (rule returns_weaken, rule cleanup_ok [OF assms(1), of "Some i" "ew_netif w"]) (auto simp: arp_inv_def net_same_def)
next
  case (AddStatic a mac)
  then have g: "nets_live w" "routed a w \<noteq> None \<longrightarrow> ether (ew_netif w) (routed a w)" using assms(2) by simp_all
  show ?thesis unfolding AddStatic arp_do.simps held_after.simps
    by (rule drop_result_ok, rule returns_weaken, rule add_static_ok [OF assms(1) g]) simp
next
  case (RemoveStatic a)
  show ?thesis unfolding RemoveStatic arp_do.simps held_after.simps
    by (rule drop_result_ok, rule returns_weaken, rule remove_static_ok [OF assms(1)]) simp
qed

lemma arp_run_inv: "arp_run cf lo w H \<Longrightarrow> arp_inv cf w H"
proof (induction rule: arp_run.induct)
  case (init w H)
  have e: "entry_ok nf arp_zero" "\<not> nonempty arp_zero" "ae_q arp_zero = None" for nf by (simp_all add: arp_zero_def entry_ok_def nonempty_def)
  have "queue_refs (replicate n arp_zero) = {#}" for n by (induction n) (simp_all add: queue_refs_def e)
  then show ?case using init e by (simp add: arp_inv_def table_ok_def ARP_TABLE_SIZE_def)
next
  case (call w H c w')
  then show ?case using arp_do_ok [OF call.IH call.hyps(2), of lo] by simp
next
  case (buffers w H s H')
  then show ?case by (intro arp_inv_pb [OF buffers.IH])
next
  case (interfaces w H nf l d mc)
  note inv = arp_invD [OF interfaces.IH]
  have "entry_ok nf (arp_table w ! k)" if "k < 10" for k
    using table_okD(2) [OF inv(1) that] interfaces.hyps(2) inv(4) that by (auto simp: entry_ok_def)
  then have "table_ok nf (arp_table w)" using table_okD(3) [OF inv(1)] by (intro table_okI [OF inv(4)]) blast+
  then show ?case using inv by (simp add: arp_inv_def ARP_TABLE_SIZE_def)
qed

end
