(* ===== verification/LwArp.thy ===== *)
theory LwArp
  imports LwArpRun
begin

text \<open>
  What callers of the ARP cache rely on, and an interface and a packet on which it is shown.
\<close>

section \<open>What callers rely on\<close>

text \<open>
  The ARP cache never faults: in every run, every call of it whose arguments the caller may use returns, and the run goes on.
\<close>

lemma arp_calls_safe:
  assumes "arp_run cf lo w H" "granted c w H"
  shows "\<exists>w'. arp_do cf lo c w = Some (Inr ((), w')) \<and> arp_run cf lo w' (held_after c H)"
proof -
  obtain w' where w': "arp_do cf lo c w = Some (Inr ((), w'))"
    using arp_do_ok [OF arp_run_inv [OF assms(1)] assms(2), of lo] by (auto elim!: returns_pairE)
  then show ?thesis using arp_run.call [OF assms w'] by blast
qed

text \<open>An interface, and a cache without entries on any run of the buffers.\<close>

definition arp_demo_netif :: eth_netif where
  "arp_demo_netif = \<lparr>nf_flags = 0x0F, nf_ip_addr = lwip_htonl 0xC0A8010A, nf_netmask = lwip_htonl 0xFFFFFF00, nf_gw = lwip_htonl 0xC0A80101,
     nf_hwaddr = ETH_ADDR 2 0 0 0 0 10, nf_hwaddr_len = 6, nf_num = 0\<rparr>"

definition arp_demo :: "pworld \<Rightarrow> aworld" where
  "arp_demo s = \<lparr>ew_pb = s, ew_netif = [0 \<mapsto> arp_demo_netif], netif_list = [0], netif_default = Some 0, ip4_default_multicast_netif = None, ew_stats = (\<lambda>_. 0), ew_sent = [],
     arp_table = replicate ARP_TABLE_SIZE arp_zero, etharp_cached_entry = 0\<rparr>"

lemma arp_demo_fields [simp]: "ew_pb (arp_demo s) = s" "ew_netif (arp_demo s) = [0 \<mapsto> arp_demo_netif]" "nf_hwaddr_len arp_demo_netif = 6"
  "ew_sent (arp_demo s) = []" "arp_table (arp_demo s) = replicate 10 arp_zero" "netif_list (arp_demo s) = [0]" "netif_default (arp_demo s) = Some 0"
  by (simp_all add: arp_demo_def arp_demo_netif_def ARP_TABLE_SIZE_def)

lemma arp_demo_run: "pbuf_run cf s H \<Longrightarrow> arp_run cf lo (arp_demo s) H"
  by (rule arp_run.init) (simp_all add: arp_demo_def)

lemma arp_zero_fields [simp]: "\<not> nonempty arp_zero" "\<not> holds_key x arp_zero" "\<not> matches a i arp_zero" "ae_q arp_zero = None" "\<not> usable arp_zero"
    "ae_state arp_zero = ETHARP_STATE_EMPTY"
  by (simp_all add: arp_zero_def nonempty_def holds_usable usable_def less_eq_etharp_state_def matches_def)

lemma arp_demo_ether [simp]: "ether [0 \<mapsto> arp_demo_netif] (Some 0)"
  by (auto simp: ether_def)

text \<open>A packet of one buffer, with room for the headers.\<close>

lemma demo_packet: "\<exists>p s. pbuf_alloc (\<lambda>_. None) 54 100 PBUF_RAM demo_world = Some (Inr (Some p, s)) \<and> pbuf_run (\<lambda>_. None) s {#p#} \<and>
  outgoing s {#p#} p \<and> \<not> needs_copy s p \<and> (\<exists>b. pw_buf s p = Some b \<and> p + 30 \<le> payload b \<and> type_internal b AND 0x80 \<noteq> 0 \<and> tot_len b = 100)"
proof -
  obtain r s where a: "pbuf_alloc (\<lambda>_. None) 54 100 PBUF_RAM demo_world = Some (Inr (r, s))" "pbuf_run (\<lambda>_. None) s (handed r {#})"
    "case r of None \<Rightarrow> pw_buf s = pw_buf demo_world
     | Some p \<Rightarrow> pw_buf demo_world p = None \<and> (\<exists>a. p + 16 + 54 \<le> a \<and> pw_buf s = (pw_buf demo_world)(p \<mapsto>
         \<lparr>pb_next = None, payload = a, tot_len = 100, pb_len = 100, type_internal = 0x80, pb_flags = 0, pb_ref = 1, if_idx = 0\<rparr>))"
    using run_alloc [OF pbuf_demo_run, of 100 54 "\<lambda>_. None"] by auto
  obtain p where r: "r = Some p" using a(1) demo_ram_alloc [of "\<lambda>_. None"] by auto
  obtain ad where ad: "p + 16 + 54 \<le> ad" "pw_buf s p = Some \<lparr>pb_next = None, payload = ad, tot_len = 100, pb_len = 100, type_internal = 0x80,
      pb_flags = 0, pb_ref = 1, if_idx = 0\<rparr>" using a(3) r by auto
  have pk: "packet s p [p]" using ad(2) by (simp add: packet_def span_def)
  then have "sendable s p" unfolding sendable_def by (intro exI [of _ "[p]"]) (simp add: ends_full_def)
  then have "outgoing s {#p#} p" using ad(2) by (simp add: outgoing_def)
  moreover have "\<not> needs_copy s p"
  proof
    assume "needs_copy s p"
    then obtain qs x b where "chain_of s (Some p) qs" "x \<in> set qs" "pw_buf s x = Some b" "PBUF_NEEDS_COPY b" by (auto simp: needs_copy_def)
    moreover have "chain_of s (Some p) [p]" using pk by (simp add: packet_def)
    ultimately have "x = p" "pw_buf s x = Some b" "PBUF_NEEDS_COPY b" using chain_of_unique [of s "Some p" qs "[p]"] by auto
    then show False using ad(2) by (auto simp: PBUF_NEEDS_COPY_def)
  qed
  ultimately show ?thesis using a(1,2) r ad by auto
qed

abbreviation demo_peer :: u32 where "demo_peer \<equiv> lwip_htonl 0xC0A80102"

lemma demo_addr: "\<not> unusable_addr demo_peer arp_demo_netif"
  by (simp add: unusable_addr_def ip4_addr_isbroadcast_u32_def ip4_addr_ismulticast_def arp_demo_netif_def lwip_htonl_def ip4_addr_netcmp_def NETIF_FLAG_BROADCAST_def)

text \<open>A cache that has asked for an address: one pending entry, just made.\<close>

lemma demo_asked:
  "\<exists>r w k. etharp_query (\<lambda>_. None) (\<lambda>_ _. 0) (Some 0) demo_peer None (arp_demo demo_world) = Some (Inr (r, w)) \<and>
     arp_run (\<lambda>_. None) (\<lambda>_ _. 0) w {#} \<and> ew_netif w 0 = Some arp_demo_netif \<and> k < 10 \<and> arp_table w ! k = pending_entry demo_peer 0 arp_zero"
proof -
  let ?w = "arp_demo demo_world" and ?cf = "\<lambda>_ :: nat. None" and ?lo = "\<lambda>_ _. 0"
  have run: "arp_run ?cf ?lo ?w {#}" by (rule arp_demo_run [OF pbuf_demo_run])
  have n: "ew_netif ?w 0 = Some arp_demo_netif" by simp
  have "returns (etharp_query ?cf ?lo (Some 0) demo_peer None ?w)
      (\<lambda>(r, w'). arp_inv ?cf w' {#} \<and> net_same ?w w' \<and> query_done 0 arp_demo_netif demo_peer None {#} ?w w' r)"
    by (rule query_ok [OF arp_run_inv [OF run] n arp_demo_fields(3)]) simp
  then obtain r w where w: "etharp_query ?cf ?lo (Some 0) demo_peer None ?w = Some (Inr (r, w))" "net_same ?w w"
    "query_done 0 arp_demo_netif demo_peer None {#} ?w w r" by (rule returns_pairE) blast
  have no: "\<not> (\<exists>k<10. matches (Some demo_peer) (Some 0) (arp_table ?w ! k))" "\<not> (\<forall>k<10. ae_state (arp_table ?w ! k) = ETHARP_STATE_STATIC)"
    by (auto intro!: exI [of _ 0])
  obtain k where k: "victim (arp_table ?w) k" "answered 0 arp_demo_netif demo_peer None {#} k (pending_entry demo_peer 0 (arp_table ?w ! k)) True ?w w r"
    using w(3) unfolding query_done_def if_not_P [OF demo_addr] if_not_P [OF no(1)] if_not_P [OF no(2)] by blast
  have k10: "k < 10" using k(1) by (simp add: victim_def)
  have "arp_table w = (arp_table ?w)[k := pending_entry demo_peer 0 (arp_table ?w ! k)]" using k(2) by (auto simp: answered_def)
  then have t: "arp_table w ! k = pending_entry demo_peer 0 arp_zero" using k10 by simp
  have "arp_do ?cf ?lo (Query 0 demo_peer None) ?w = Some (Inr ((), w))" using w(1) by (simp add: drop_result_def)
  moreover have "granted (Query 0 demo_peer None) ?w {#}" by simp
  ultimately have "arp_run ?cf ?lo w {#}" using arp_run.call [OF run] by fastforce
  moreover have "ew_netif w 0 = Some arp_demo_netif" using w(2) by (simp add: net_same_def)
  ultimately show ?thesis using w(1) k10 t by blast
qed

lemma arp_calls_safe_witness:
  "\<exists>p s w'. pbuf_alloc (\<lambda>_. None) 54 100 PBUF_RAM demo_world = Some (Inr (Some p, s)) \<and>
     arp_do (\<lambda>_. None) (\<lambda>_ _. 0) (Output 0 p (lwip_htonl 0xC0A80102)) (arp_demo s) = Some (Inr ((), w'))"
proof -
  obtain p s where d: "pbuf_alloc (\<lambda>_. None) 54 100 PBUF_RAM demo_world = Some (Inr (Some p, s))" "pbuf_run (\<lambda>_. None) s {#p#}" "outgoing s {#p#} p"
    using demo_packet by blast
  have "granted (Output 0 p (lwip_htonl 0xC0A80102)) (arp_demo s) {#p#}" using d(3) by simp
  from arp_calls_safe [OF arp_demo_run [OF d(2)] this, of "\<lambda>_ _. 0"] show ?thesis using d(1) by blast
qed

text \<open>
  C19.  The table of the ARP cache in every run: ten entries, at most one for an address on an interface; an entry in use belongs to
  an Ethernet interface and is younger than its limit; only pending entries hold a packet; and the reference counts of the buffers
  count the packets held there.
\<close>

theorem arp_table_invariant:
  assumes "arp_run cf lo w H"
  shows "length (arp_table w) = 10 \<and> etharp_cached_entry w < 10 \<and>
    (\<forall>i<10. \<forall>j<10. i \<noteq> j \<longrightarrow> nonempty (arp_table w ! i) \<longrightarrow> nonempty (arp_table w ! j) \<longrightarrow>
       ae_ipaddr (arp_table w ! i) \<noteq> ae_ipaddr (arp_table w ! j) \<or> ae_netif (arp_table w ! i) \<noteq> ae_netif (arp_table w ! j)) \<and>
    (\<forall>e\<in>set (arp_table w). (\<forall>p. ae_q e = Some p \<longrightarrow> ae_state e = ETHARP_STATE_PENDING \<and> pw_buf (ew_pb w) p \<noteq> None) \<and>
       (nonempty e \<longrightarrow> ae_ctime e < 300 \<and> (\<exists>i n. ae_netif e = Some i \<and> ew_netif w i = Some n \<and> nf_hwaddr_len n = 6)) \<and>
       (ae_state e = ETHARP_STATE_PENDING \<longrightarrow> ae_ctime e < 5)) \<and>
    (\<forall>p b. pw_buf (ew_pb w) p = Some b \<longrightarrow> pb_ref b = count (H + queue_refs (arp_table w)) p + card {x. \<exists>c. pw_buf (ew_pb w) x = Some c \<and> pb_next c = Some p})"
proof -
  note inv = arp_invD [OF arp_run_inv [OF assms]]
  have q: "p \<in># queue_refs T" if "e \<in> set T" "ae_q e = Some p" for e p T
    using that by (induction T) (auto simp: queue_refs_def split: option.splits)
  have e: "(\<forall>p. ae_q e = Some p \<longrightarrow> ae_state e = ETHARP_STATE_PENDING \<and> pw_buf (ew_pb w) p \<noteq> None) \<and>
       (nonempty e \<longrightarrow> ae_ctime e < 300 \<and> (\<exists>i n. ae_netif e = Some i \<and> ew_netif w i = Some n \<and> nf_hwaddr_len n = 6)) \<and>
       (ae_state e = ETHARP_STATE_PENDING \<longrightarrow> ae_ctime e < 5)" if mem: "e \<in> set (arp_table w)" for e
  proof -
    obtain k where "k < 10" "e = arp_table w ! k" using mem inv(4) by (auto simp: in_set_conv_nth)
    then have ok: "entry_ok (ew_netif w) e" using table_okD(2) [OF inv(1)] by simp
    have "pw_buf (ew_pb w) p \<noteq> None" if "ae_q e = Some p" for p
      using run_live [OF inv(3), of p] q [OF mem that] by auto
    then show ?thesis using ok by (auto simp: entry_ok_def ether_def ARP_MAXAGE_def ARP_MAXPENDING_def)
  qed
  obtain L where L: "chains_inv (ew_pb w) L (H + queue_refs (arp_table w))" using pbuf_run_inv [OF inv(3)] by blast
  have "pb_ref b = count (H + queue_refs (arp_table w)) p + card {x. \<exists>c. pw_buf (ew_pb w) x = Some c \<and> pb_next c = Some p}"
    if "pw_buf (ew_pb w) p = Some b" for p b
  proof -
    have "pointers {} (ew_pb w) p = {x. \<exists>c. pw_buf (ew_pb w) x = Some c \<and> pb_next c = Some p}" by (auto simp: pointers_def edges_def)
    then show ?thesis using L refs_okD(1) [OF _ that, of "{}" "H + queue_refs (arp_table w)"] unfolding chains_inv_def by metis
  qed
  then show ?thesis using inv(2,4) table_okD(3) [OF inv(1)] e unfolding same_key_def by blast
qed

theorem arp_table_invariant_witness:
  "\<exists>r w e. etharp_query (\<lambda>_. None) (\<lambda>_ _. 0) (Some 0) demo_peer None (arp_demo demo_world) = Some (Inr (r, w)) \<and> length (arp_table w) = 10 \<and>
     e \<in> set (arp_table w) \<and> ae_state e = ETHARP_STATE_PENDING \<and> ae_ctime e < 5 \<and> (\<exists>i n. ae_netif e = Some i \<and> ew_netif w i = Some n \<and> nf_hwaddr_len n = 6)"
proof -
  obtain r w k where w: "etharp_query (\<lambda>_. None) (\<lambda>_ _. 0) (Some 0) demo_peer None (arp_demo demo_world) = Some (Inr (r, w))"
    and run: "arp_run (\<lambda>_. None) (\<lambda>_ _. 0) w {#}" and k: "k < 10" "arp_table w ! k = pending_entry demo_peer 0 arp_zero"
    using demo_asked by (elim exE conjE) (rule that; assumption)
  have i: "length (arp_table w) = 10" and e: "\<forall>e\<in>set (arp_table w). (nonempty e \<longrightarrow> ae_ctime e < 300 \<and> (\<exists>i n. ae_netif e = Some i \<and> ew_netif w i = Some n \<and> nf_hwaddr_len n = 6)) \<and>
       (ae_state e = ETHARP_STATE_PENDING \<longrightarrow> ae_ctime e < 5)"
    using arp_table_invariant [OF run] by blast+
  have m: "arp_table w ! k \<in> set (arp_table w)" using i k(1) by simp
  have s: "ae_state (arp_table w ! k) = ETHARP_STATE_PENDING" by (simp add: k(2))
  then have "nonempty (arp_table w ! k)" by (simp add: nonempty_def)
  then show ?thesis using w i m s e [THEN bspec, OF m] by (intro exI [of _ r] exI [of _ w] exI [of _ "arp_table w ! k"]) simp
qed

text \<open>
  C22.  The frame of an ARP packet: \<^verbatim>\<open>etharp_raw\<close> returns, leaves every buffer as it was, and either reports that no
  buffer was free, having sent nothing, or hands the interface exactly one frame: the 14 bytes of the Ethernet header and the 28
  bytes of RFC 826, every field in network order, in one buffer.
\<close>

theorem arp_frame_format:
  assumes "pbuf_run cf (ew_pb w) H" "ew_netif w i = Some n" "nf_hwaddr_len n = 6"
  shows "\<exists>r w'. etharp_raw cf lo (Some i) src dst sha spa tha tpa opcode w = Some (Inr (r, w')) \<and>
    pbuf_run cf (ew_pb w') H \<and> pw_buf (ew_pb w') = pw_buf (ew_pb w) \<and>
    (r = ERR_MEM \<and> ew_sent w' = ew_sent w \<or>
     r = ERR_OK \<and> (\<exists>fr. ew_sent w' = ew_sent w @ [fr] \<and> fr_netif fr = i \<and> packet (fr_world fr) (fr_pbuf fr) [fr_pbuf fr] \<and>
       content (fr_world fr) [fr_pbuf fr] = eth_bytes dst @ eth_bytes src @ [8, 6] @ [0, 1, 8, 0, 6, 4, ucast (drop_bit 8 opcode), ucast opcode] @
         eth_bytes sha @ bytes32 spa @ eth_bytes tha @ bytes32 tpa))"
proof -
  obtain r w' where r: "etharp_raw cf lo (Some i) src dst sha spa tha tpa opcode w = Some (Inr (r, w'))" "pbuf_run cf (ew_pb w') H"
    "pw_buf (ew_pb w') = pw_buf (ew_pb w)" "r = ERR_MEM \<and> ew_sent w' = ew_sent w \<or> r = ERR_OK \<and> (\<exists>fr. ew_sent w' = ew_sent w @ [fr] \<and> fr_netif fr = i \<and>
       packet (fr_world fr) (fr_pbuf fr) [fr_pbuf fr] \<and> content (fr_world fr) [fr_pbuf fr] = frame_header dst src ETHTYPE_ARP @ arp_bytes opcode sha spa tha tpa)"
    using etharp_raw_ok [OF assms, of lo src dst sha spa tha tpa opcode] by (rule returns_pairE) blast
  have "frame_header dst src ETHTYPE_ARP @ arp_bytes opcode sha spa tha tpa = eth_bytes dst @ eth_bytes src @ [8, 6] @
      [0, 1, 8, 0, 6, 4, ucast (drop_bit 8 opcode), ucast opcode] @ eth_bytes sha @ bytes32 spa @ eth_bytes tha @ bytes32 tpa"
    by (simp add: frame_header_def arp_bytes_def ETHTYPE_ARP_def)
  then show ?thesis using r by simp
qed

theorem arp_frame_format_witness:
  "\<exists>r w'. etharp_raw (\<lambda>_. None) (\<lambda>_ _. 0) (Some 0) (ETH_ADDR 2 0 0 0 0 10) ethbroadcast (ETH_ADDR 2 0 0 0 0 10) (lwip_htonl 0xC0A8010A)
     ethzero (lwip_htonl 0xC0A80102) ARP_REQUEST (arp_demo demo_world) = Some (Inr (r, w')) \<and> pw_buf (ew_pb w') = Map.empty"
proof -
  have "pbuf_run (\<lambda>_. None) (ew_pb (arp_demo demo_world)) {#}" "ew_netif (arp_demo demo_world) 0 = Some arp_demo_netif" using pbuf_demo_run by simp_all
  from arp_frame_format [OF this, of "\<lambda>_ _. 0" "ETH_ADDR 2 0 0 0 0 10" ethbroadcast "ETH_ADDR 2 0 0 0 0 10" "lwip_htonl 0xC0A8010A"
     ethzero "lwip_htonl 0xC0A80102" ARP_REQUEST] show ?thesis by (simp add: demo_world_def) blast
qed

text \<open>
  C20.  The cache is a map from an address on an interface to a hardware address: in every run \<^verbatim>\<open>etharp_find_addr\<close> returns
  what the map holds and changes nothing; \<^verbatim>\<open>etharp_update_arp_entry\<close> either changes nothing or, returning
  \<^verbatim>\<open>ERR_OK\<close>, puts the pair into the map; of the other pairs it removes at most the one whose entry it took, and
  none when the address had an entry.
\<close>

theorem arp_cache_is_map:
  assumes "arp_run cf lo w H" "ew_netif w i = Some n" "nf_hwaddr_len n = 6"
  shows "\<exists>k r w'. etharp_find_addr cf (Some i) a w = Some (Inr ((k, map_option (\<lambda>m. (m, a)) (cache (arp_table w) (a, i))), w)) \<and>
    etharp_update_arp_entry cf lo (Some i) a mac flags w = Some (Inr (r, w')) \<and>
    (if r = ERR_OK then \<exists>j<10. cache (arp_table w') = (\<lambda>x. if x = (a, i) then Some mac else if holds_key x (arp_table w ! j) then None else cache (arp_table w) x) \<and>
       ((\<exists>l<10. matches (Some a) (Some i) (arp_table w ! l)) \<longrightarrow> matches (Some a) (Some i) (arp_table w ! j))
     else w' = w)"
proof -
  note inv = arp_run_inv [OF assms(1)]
  obtain k where k: "etharp_find_addr cf (Some i) a w = Some (Inr ((k, map_option (\<lambda>m. (m, a)) (cache (arp_table w) (a, i))), w))"
    using find_addr_ok [OF inv, of i a] by blast
  obtain r w' where u: "etharp_update_arp_entry cf lo (Some i) a mac flags w = Some (Inr (r, w'))" "arp_inv cf w' H"
    "r \<noteq> ERR_OK \<and> w' = w \<or> r = ERR_OK \<and> updated i n a mac flags w w'"
    using update_ok [OF inv assms(2,3), of lo a mac flags] by (elim returns_pairE) auto
  show ?thesis
  proof (cases "r = ERR_OK")
    case True
    then have "updated i n a mac flags w w'" using u(3) by blast
    from updated_cache [OF inv u(2) this] show ?thesis using k u(1) True by (intro exI [of _ k] exI [of _ r] exI [of _ w']) auto
  next
    case False
    then show ?thesis using k u by (intro exI [of _ k] exI [of _ r] exI [of _ w']) auto
  qed
qed

theorem arp_cache_is_map_witness:
  "\<exists>r w w' k. etharp_query (\<lambda>_. None) (\<lambda>_ _. 0) (Some 0) demo_peer None (arp_demo demo_world) = Some (Inr (r, w)) \<and>
     etharp_find_addr (\<lambda>_. None) (Some 0) demo_peer w = Some (Inr ((k, None), w)) \<and>
     etharp_update_arp_entry (\<lambda>_. None) (\<lambda>_ _. 0) (Some 0) demo_peer (ETH_ADDR 2 0 0 0 0 2) ETHARP_FLAG_FIND_ONLY w = Some (Inr (ERR_OK, w')) \<and>
     cache (arp_table w') (demo_peer, 0) = Some (ETH_ADDR 2 0 0 0 0 2)"
proof -
  obtain r w k where w: "etharp_query (\<lambda>_. None) (\<lambda>_ _. 0) (Some 0) demo_peer None (arp_demo demo_world) = Some (Inr (r, w))"
    and run: "arp_run (\<lambda>_. None) (\<lambda>_ _. 0) w {#}" and n: "ew_netif w 0 = Some arp_demo_netif" and k: "k < 10" "arp_table w ! k = pending_entry demo_peer 0 arp_zero"
    using demo_asked by (elim exE conjE) (rule that; assumption)
  note inv = arp_run_inv [OF run]
  have m: "matches (Some demo_peer) (Some 0) (arp_table w ! k)" by (simp add: k(2) matches_def nonempty_def)
  have uq: "j = k" if "j < 10" "matches (Some demo_peer) (Some 0) (arp_table w ! j)" for j
    using match_unique [OF arp_invD(1) [OF inv] k(1) m that(1)] that(2) by blast
  have no: "\<not> (\<forall>j<10. \<not> matches (Some demo_peer) (Some 0) (arp_table w ! j))" using m k(1) by blast
  have ns: "\<not> (\<exists>j<10. matches (Some demo_peer) (Some 0) (arp_table w ! j) \<and> ae_state (arp_table w ! j) = ETHARP_STATE_STATIC)"
    using uq k(2) by fastforce
  have "cache (arp_table w) (demo_peer, 0) = None"
  proof (intro cache_none allI impI)
    show "length (arp_table w) = 10" by (rule arp_invD(4) [OF inv])
  next
    fix j :: nat assume "j < 10"
    then show "\<not> holds_key (demo_peer, 0) (arp_table w ! j)" using uq [of j] k(2) by (auto simp: holds_key_def stable_matches less_eq_etharp_state_def)
  qed
  moreover have "returns (etharp_update_arp_entry (\<lambda>_. None) (\<lambda>_ _. 0) (Some 0) demo_peer (ETH_ADDR 2 0 0 0 0 2) ETHARP_FLAG_FIND_ONLY w) (\<lambda>(r, w'). r = ERR_OK)"
    by (rule returns_mono, rule update_ok [OF inv n arp_demo_fields(3)]) (use demo_addr no ns in \<open>auto split: prod.splits\<close>)
  ultimately show ?thesis
    using arp_cache_is_map [OF run n arp_demo_fields(3), where a = demo_peer and mac = "ETH_ADDR 2 0 0 0 0 2" and flags = ETHARP_FLAG_FIND_ONLY] w
    by (auto simp: returns_iff)
qed

text \<open>
  C23.  Entries expire on time: in every run, after \<open>n\<close> further calls of \<^verbatim>\<open>etharp_tmr\<close>, one a second, an entry is still
  in use exactly when it is static or its age and \<open>n\<close> stay below its limit, 5 for a pending entry and 300 for a stable one, and the
  cache then answers from the surviving entries only, with what they held.
\<close>

theorem arp_expiry:
  assumes "arp_run cf lo w H"
  shows "\<exists>w'. seconds cf lo n w = Some (Inr ((), w')) \<and>
    (\<forall>k<10. nonempty (arp_table w ! k) \<longrightarrow> (nonempty (arp_table w' ! k) \<longleftrightarrow> ae_state (arp_table w ! k) = ETHARP_STATE_STATIC \<or>
       ae_ctime (arp_table w ! k) + n < (if ae_state (arp_table w ! k) = ETHARP_STATE_PENDING then 5 else 300))) \<and>
    (\<forall>x m. cache (arp_table w') x = Some m \<longleftrightarrow> (\<exists>k<10. holds_key x (arp_table w ! k) \<and> ae_ethaddr (arp_table w ! k) = m \<and>
       (ae_state (arp_table w ! k) = ETHARP_STATE_STATIC \<or> ae_ctime (arp_table w ! k) + n < 300)))"
proof -
  obtain w' where w': "seconds cf lo n w = Some (Inr ((), w'))" and c: "arp_inv cf w' H \<and>
    (\<forall>k<10. nonempty (arp_table w ! k) \<longrightarrow> (nonempty (arp_table w' ! k) \<longleftrightarrow>
       ae_state (arp_table w ! k) = ETHARP_STATE_STATIC \<or> ae_ctime (arp_table w ! k) + n < lifetime (arp_table w ! k))) \<and>
    (\<forall>x m. cache (arp_table w') x = Some m \<longleftrightarrow> (\<exists>k<10. holds_key x (arp_table w ! k) \<and> survives n (arp_table w ! k) \<and> ae_ethaddr (arp_table w ! k) = m))"
    using expiry_ok [OF arp_run_inv [OF assms], of lo n] by (rule returns_pairE) simp
  have "lifetime e = (if ae_state e = ETHARP_STATE_PENDING then 5 else 300)" for e by (simp add: lifetime_def ARP_MAXPENDING_def ARP_MAXAGE_def)
  moreover have "survives n e \<longleftrightarrow> ae_state e = ETHARP_STATE_STATIC \<or> ae_ctime e + n < 300" for e by (simp add: survives_def ARP_MAXAGE_def)
  ultimately show ?thesis using w' c by (intro exI [of _ w']) (simp add: conj_commute)
qed

theorem arp_expiry_witness:
  "\<exists>r w w4 w5 k. etharp_query (\<lambda>_. None) (\<lambda>_ _. 0) (Some 0) demo_peer None (arp_demo demo_world) = Some (Inr (r, w)) \<and>
     k < 10 \<and> ae_ipaddr (arp_table w ! k) = demo_peer \<and>
     seconds (\<lambda>_. None) (\<lambda>_ _. 0) 4 w = Some (Inr ((), w4)) \<and> nonempty (arp_table w4 ! k) \<and>
     seconds (\<lambda>_. None) (\<lambda>_ _. 0) 5 w = Some (Inr ((), w5)) \<and> \<not> nonempty (arp_table w5 ! k)"
proof -
  obtain r w k where w: "etharp_query (\<lambda>_. None) (\<lambda>_ _. 0) (Some 0) demo_peer None (arp_demo demo_world) = Some (Inr (r, w))"
    and run: "arp_run (\<lambda>_. None) (\<lambda>_ _. 0) w {#}" and k: "k < 10" "arp_table w ! k = pending_entry demo_peer 0 arp_zero"
    using demo_asked by (elim exE conjE) (rule that; assumption)
  have e: "nonempty (arp_table w ! k)" "ae_state (arp_table w ! k) = ETHARP_STATE_PENDING" "ae_ctime (arp_table w ! k) = 0"
    by (simp_all add: k(2) nonempty_def)
  have x: "\<exists>w'. seconds (\<lambda>_. None) (\<lambda>_ _. 0) n w = Some (Inr ((), w')) \<and> (nonempty (arp_table w' ! k) \<longleftrightarrow> n < 5)" for n
    using arp_expiry [OF run, of n] k(1) e by auto
  obtain w4 where w4: "seconds (\<lambda>_. None) (\<lambda>_ _. 0) 4 w = Some (Inr ((), w4))" "nonempty (arp_table w4 ! k)" using x [of 4] by auto
  obtain w5 where w5: "seconds (\<lambda>_. None) (\<lambda>_ _. 0) 5 w = Some (Inr ((), w5))" "\<not> nonempty (arp_table w5 ! k)" using x [of 5] by auto
  show ?thesis using w k w4 w5 by (intro exI [of _ r] exI [of _ w] exI [of _ w4] exI [of _ w5] exI [of _ k]) simp
qed

text \<open>
  Where a packet goes: in every run \<^verbatim>\<open>etharp_output\<close> of a packet the caller may hand over returns; a broadcast goes to the
  broadcast address, a multicast to its group's address, both at once and without a change of the table; any other packet goes to the
  next hop, the gateway when it is outside the network, \<^verbatim>\<open>ERR_RTE\<close> without one.  When the cache knows the next hop the packet is sent
  to exactly the address it knows, after a new request when the entry is about to expire; otherwise it is queried for.
\<close>

lemma arp_output_delivers:
  assumes "arp_run cf lo w H" "ew_netif w i = Some n" "nf_hwaddr_len n = 6" "outgoing (ew_pb w) H q"
  shows "\<exists>r w'. etharp_output cf lo (Some i) (Some q) a w = Some (Inr (r, w')) \<and>
    (if ip4_addr_isbroadcast_u32 a n \<or> ip4_addr_ismulticast a then arp_table w' = arp_table w \<and> (\<exists>out. ew_sent w' = ew_sent w @ out \<and>
       sends i q (if ip4_addr_isbroadcast_u32 a n then ethbroadcast else mcastaddr a) (nf_hwaddr n) ETHTYPE_IP (ew_pb w) out)
     else if off_net n a \<and> nf_gw n = 0 then r = ERR_RTE \<and> w' = w
     else case cache (arp_table w) (next_hop n a, i) of
       None \<Rightarrow> query_done i n (next_hop n a) (Some q) H w w' r
     | Some m \<Rightarrow> \<exists>out1 out2 s. ew_sent w' = ew_sent w @ out1 @ out2 \<and> pw_buf s = pw_buf (ew_pb w) \<and> sends i q m (nf_hwaddr n) ETHTYPE_IP s out2 \<and>
         (out1 = [] \<or> asked i n ethbroadcast (next_hop n a) out1 \<or> asked i n m (next_hop n a) out1))"
proof -
  note inv = arp_run_inv [OF assms(1)]
  obtain r w' where r: "etharp_output cf lo (Some i) (Some q) a w = Some (Inr (r, w'))" "output_done i n q a H w w' r"
    using etharp_output_ok [OF inv assms(2-4), of lo a] by (rule returns_pairE) blast
  have fw: "\<exists>out1 out2 s. ew_sent w' = ew_sent w @ out1 @ out2 \<and> pw_buf s = pw_buf (ew_pb w) \<and> sends i q m (nf_hwaddr n) ETHTYPE_IP s out2 \<and>
         (out1 = [] \<or> asked i n ethbroadcast b out1 \<or> asked i n m b out1)"
    if c: "cache (arp_table w) (b, i) = Some m" and k: "k < 10" "holds_key (b, i) (arp_table w ! k)" and f: "forwarded i n q k w w'" for m k b
  proof -
    have e: "ae_ethaddr (arp_table w ! k) = m" "ae_ipaddr (arp_table w ! k) = b"
      using cache_at [OF arp_invD(1) [OF inv] k] c k(2) by (simp_all add: holds_usable)
    obtain out1 out2 s where o: "ew_sent w' = ew_sent w @ out1 @ out2" "pw_buf s = pw_buf (ew_pb w)"
      "case refresh (arp_table w ! k) of None \<Rightarrow> out1 = [] \<and> s = ew_pb w | Some d \<Rightarrow> asked i n d b out1" "sends i q m (nf_hwaddr n) ETHTYPE_IP s out2"
      using f unfolding forwarded_def e by (elim exE conjE) (rule that; assumption)
    have "out1 = [] \<or> asked i n ethbroadcast b out1 \<or> asked i n m b out1"
      using o(3) e(1) by (auto simp: refresh_def split: option.splits if_splits)
    then show ?thesis using o(1,2,4) by (intro exI [of _ out1] exI [of _ out2] exI [of _ s]) simp
  qed
  show ?thesis
  proof (cases "\<not> (ip4_addr_isbroadcast_u32 a n \<or> ip4_addr_ismulticast a) \<and> \<not> (off_net n a \<and> nf_gw n = 0) \<and> cache (arp_table w) (next_hop n a, i) \<noteq> None")
    case False
    then show ?thesis using r unfolding output_done_def by (intro exI [of _ r] exI [of _ w']) (auto split: if_splits)
  next
    case True
    then obtain m where m: "cache (arp_table w) (next_hop n a, i) = Some m" by auto
    obtain k where "k < 10" "holds_key (next_hop n a, i) (arp_table w ! k)" "forwarded i n q k w w'"
      using r(2) True unfolding output_done_def by (auto split: if_splits)
    note f = fw [OF m this]
    have nb: "\<not> (ip4_addr_isbroadcast_u32 a n \<or> ip4_addr_ismulticast a)" "\<not> (off_net n a \<and> nf_gw n = 0)" using True by blast+
    show ?thesis unfolding if_not_P [OF nb(1)] if_not_P [OF nb(2)] m option.case using f r(1) by blast
  qed
qed

lemma arp_output_delivers_witness:
  "\<exists>p s r w'. pbuf_alloc (\<lambda>_. None) 54 100 PBUF_RAM demo_world = Some (Inr (Some p, s)) \<and>
     etharp_output (\<lambda>_. None) (\<lambda>_ _. 0) (Some 0) (Some p) 0xFFFFFFFF (arp_demo s) = Some (Inr (r, w')) \<and> (\<exists>fr. ew_sent w' = [fr] \<and> fr_pbuf fr = p)"
proof -
  obtain p s b where d: "pbuf_alloc (\<lambda>_. None) 54 100 PBUF_RAM demo_world = Some (Inr (Some p, s))" "pbuf_run (\<lambda>_. None) s {#p#}" "outgoing s {#p#} p"
    "pw_buf s p = Some b" "p + 30 \<le> payload b" "type_internal b AND 0x80 \<noteq> 0" "tot_len b = 100" using demo_packet by blast
  have n: "ew_netif (arp_demo s) 0 = Some arp_demo_netif" by simp
  have bc: "ip4_addr_isbroadcast_u32 0xFFFFFFFF arp_demo_netif" by (simp add: ip4_addr_isbroadcast_u32_def)
  have o: "outgoing (ew_pb (arp_demo s)) {#p#} p" using d(3) by simp
  from arp_output_delivers [OF arp_demo_run [OF d(2), where lo = "\<lambda>_ _. 0"] n _ o, where a = "0xFFFFFFFF"] bc
  obtain r w' out where "etharp_output (\<lambda>_. None) (\<lambda>_ _. 0) (Some 0) (Some p) 0xFFFFFFFF (arp_demo s) = Some (Inr (r, w'))" "ew_sent w' = out"
    "sends 0 p ethbroadcast (nf_hwaddr arp_demo_netif) ETHTYPE_IP s out" by auto
  then show ?thesis using d by (auto simp: sends_def)
qed

lemma pending_resolved:
  assumes inv: "arp_inv cf w1 H" and nf: "ew_netif w1 i = Some n" "nf_hwaddr_len n = 6" and u: "\<not> unusable_addr a n"
    and k: "k < 10" "matches (Some a) (Some i) (arp_table w1 ! k)" "ae_state (arp_table w1 ! k) \<noteq> ETHARP_STATE_STATIC" "ae_q (arp_table w1 ! k) = Some p"
  shows "\<exists>w2 out. etharp_update_arp_entry cf lo (Some i) a mac ETHARP_FLAG_FIND_ONLY w1 = Some (Inr (ERR_OK, w2)) \<and>
        ew_sent w2 = ew_sent w1 @ out \<and> sends i p mac (nf_hwaddr n) ETHTYPE_IP (ew_pb w1) out \<and> cache (arp_table w2) (a, i) = Some mac \<and>
        queue_refs (arp_table w1) = add_mset p (queue_refs (arp_table w2))"
proof -
  have uq: "j = k" if "j < 10" "matches (Some a) (Some i) (arp_table w1 ! j)" for j
    using match_unique [OF arp_invD(1) [OF inv] k(1,2) that(1)] that(2) by blast
  have no: "\<not> (\<forall>j<10. \<not> matches (Some a) (Some i) (arp_table w1 ! j))" using k(1,2) by blast
  have ns: "\<not> (\<exists>k<10. matches (Some a) (Some i) (arp_table w1 ! k) \<and> ae_state (arp_table w1 ! k) = ETHARP_STATE_STATIC)"
    using k(3) uq by blast
  have "returns (etharp_update_arp_entry cf lo (Some i) a mac ETHARP_FLAG_FIND_ONLY w1) (\<lambda>(r, w'). arp_inv cf w' H \<and> r = ERR_OK \<and> updated i n a mac ETHARP_FLAG_FIND_ONLY w1 w')"
    using update_ok [OF inv nf, of lo a mac ETHARP_FLAG_FIND_ONLY] u no ns by (simp split: if_splits)
  then obtain r2 w2 where w2: "etharp_update_arp_entry cf lo (Some i) a mac ETHARP_FLAG_FIND_ONLY w1 = Some (Inr (r2, w2))" "arp_inv cf w2 H \<and>
    r2 = ERR_OK \<and> updated i n a mac ETHARP_FLAG_FIND_ONLY w1 w2" by (rule returns_pairE) blast
  have up: "updated i n a mac ETHARP_FLAG_FIND_ONLY w1 w2" using w2(2) by simp
  obtain j out where j: "learns a i ETHARP_FLAG_FIND_ONLY (arp_table w1) j" "arp_table w2 = (arp_table w1)[j := learned a i mac (update_state ETHARP_FLAG_FIND_ONLY)]"
    "ew_sent w2 = ew_sent w1 @ out" "case ae_q (arp_table w1 ! j) of
         Some p \<Rightarrow> if matches (Some a) (Some i) (arp_table w1 ! j) then sends i p mac (nf_hwaddr n) ETHTYPE_IP (ew_pb w1) out else out = []
       | None \<Rightarrow> out = []" using up unfolding updated_def by (elim exE conjE) (rule that; assumption)
  have jk: "j = k" using j(1) no uq unfolding learns_def by (auto split: if_splits)
  have s: "sends i p mac (nf_hwaddr n) ETHTYPE_IP (ew_pb w1) out" using j(4) k(2) unfolding jk k(4) by simp
  have l: "k < length (arp_table w1)" using k(1) arp_invD(4) [OF inv] by simp
  have qr: "queue_refs (arp_table w1) = add_mset p (queue_refs (arp_table w2))"
    unfolding j(2) jk by (rule queue_refs_drop) (use k(4) l in simp_all)
  have c: "cache (arp_table w2) (a, i) = Some mac" using updated_cache [OF inv _ up] w2(2) by auto
  show ?thesis using w2 j(3) s c qr by (intro exI [of _ w2] exI [of _ out] conjI) simp_all
qed



text \<open>
  What an ARP packet does: in every run \<^verbatim>\<open>etharp_input\<close> returns and releases the packet.  A packet of another kind changes nothing else.
  The sender of a valid one is learnt when it has an entry that is not static, or when the packet is for this interface and
  an entry can be had; and a request for the address of this interface is answered with at most one reply, to
  the sender, from this interface's addresses, while nothing else is answered.
\<close>

lemma arp_input_learns:
  assumes "arp_run cf lo w H" "p \<in># H" "pw_buf (ew_pb w) p = Some b" "ew_netif w i = Some n" "nf_hwaddr_len n = 6"
  defines "hdr \<equiv> payload b" and "s \<equiv> ew_pb w"
  shows "\<exists>w'. etharp_input cf lo p (Some i) w = Some (Inr ((), w')) \<and> arp_run cf lo w' (H - {#p#}) \<and>
    (if arp_for_cache hdr s then
       \<exists>r w1 out. etharp_update_arp_entry cf lo (Some i) (hdr_sipaddr hdr s) (hdr_shwaddr hdr s)
           (if for_us n hdr s then ETHARP_FLAG_TRY_HARD else ETHARP_FLAG_FIND_ONLY) (stats_inc ArpRecv w) = Some (Inr (r, w1)) \<and>
         arp_table w' = arp_table w1 \<and> ew_sent w' = ew_sent w1 @ out \<and>
         (if for_us n hdr s \<and> hdr_opcode hdr (ew_pb w1) = lwip_htons ARP_REQUEST then replied i n (hdr_shwaddr hdr s) (hdr_sipaddr hdr s) out else out = []) \<and>
         (\<not> unusable_addr (hdr_sipaddr hdr s) n \<and>
            \<not> (\<exists>k<10. matches (Some (hdr_sipaddr hdr s)) (Some i) (arp_table w ! k) \<and> ae_state (arp_table w ! k) = ETHARP_STATE_STATIC) \<and>
            ((\<exists>k<10. matches (Some (hdr_sipaddr hdr s)) (Some i) (arp_table w ! k)) \<or> for_us n hdr s \<and> (\<exists>k<10. ae_state (arp_table w ! k) \<noteq> ETHARP_STATE_STATIC)) \<longrightarrow>
          cache (arp_table w') (hdr_sipaddr hdr s, i) = Some (hdr_shwaddr hdr s))
     else arp_table w' = arp_table w \<and> ew_sent w' = ew_sent w)"
proof -
  note inv = arp_run_inv [OF assms(1)]
  have i1: "arp_inv cf w (add_mset p (H - {#p#}))" using inv assms(2) by simp
  have st: "ether (ew_netif w) (Some i)" using assms(4,5) by (auto simp: ether_def)
  obtain w' where w': "etharp_input cf lo p (Some i) w = Some (Inr ((), w'))" "input_done cf lo i n hdr w w'"
    using etharp_input_ok [OF i1 assms(3-5), of lo] unfolding hdr_def by (rule returns_pairE) simp
  have g: "granted (Input p i) w H" "arp_do cf lo (Input p i) w = Some (Inr ((), w'))" using st assms(2) w'(1) by simp_all
  have run: "arp_run cf lo w' (H - {#p#})" using arp_run.call [OF assms(1) g] by simp
  show ?thesis
  proof (cases "arp_for_cache hdr s")
    case False
    then show ?thesis using w' run unfolding input_done_def s_def Let_def by (intro exI [of _ w']) simp
  next
    case True
    let ?a = "hdr_sipaddr hdr s" and ?m = "hdr_shwaddr hdr s" and ?f = "if for_us n hdr s then ETHARP_FLAG_TRY_HARD else ETHARP_FLAG_FIND_ONLY"
    let ?w0 = "stats_inc ArpRecv w"
    obtain r w1 out where u: "etharp_update_arp_entry cf lo (Some i) ?a ?m ?f ?w0 = Some (Inr (r, w1))" "arp_table w' = arp_table w1" "ew_sent w' = ew_sent w1 @ out"
      "if for_us n hdr s \<and> hdr_opcode hdr (ew_pb w1) = lwip_htons ARP_REQUEST then replied i n ?m ?a out else out = []"
      using w'(2) unfolding input_done_def Let_def s_def [symmetric] if_P [OF True] by (elim exE conjE) (rule that; assumption)
    have i0: "arp_inv cf ?w0 H" by (rule arp_inv_stats [OF inv])
    have nf0: "ew_netif ?w0 i = Some n" using assms(4) by simp
    have fl: "ETHARP_FLAG_TRY_HARD AND ETHARP_FLAG_FIND_ONLY = 0" "ETHARP_FLAG_TRY_HARD \<noteq> 0" by (simp_all add: ETHARP_FLAG_TRY_HARD_def ETHARP_FLAG_FIND_ONLY_def)
    have "cache (arp_table w') (?a, i) = Some ?m" if l: "\<not> unusable_addr ?a n"
      "\<not> (\<exists>k<10. matches (Some ?a) (Some i) (arp_table w ! k) \<and> ae_state (arp_table w ! k) = ETHARP_STATE_STATIC)"
      "(\<exists>k<10. matches (Some ?a) (Some i) (arp_table w ! k)) \<or> for_us n hdr s \<and> (\<exists>k<10. ae_state (arp_table w ! k) \<noteq> ETHARP_STATE_STATIC)"
    proof -
      have "arp_inv cf w1 H \<and> r = ERR_OK \<and> updated i n ?a ?m ?f ?w0 w1"
        using update_ok [OF i0 nf0 assms(5), of lo ?a ?m ?f] l fl unfolding u(1) by (auto split: if_splits)
      then show ?thesis using updated_cache [OF i0, of w1 i n ?a ?m ?f] u(2) by auto
    qed
    then show ?thesis unfolding if_P [OF True] using w'(1) run u
      by (intro exI [of _ w'] conjI exI [of _ r] exI [of _ w1] exI [of _ out]) auto
  qed
qed

end
