(* ===== verification/Spec2Isabelle.thy ===== *)
theory Spec2Isabelle
  imports HyUart HyTime HySystem TmrChan LwChksum LwIp4 LwTimeouts LwHeap LwPbufData LwArp
begin

text \<open>
  A verification library for the AT32F407 firmware layer of this repository: the three modules of
  \<^verbatim>\<open>src/at32f4xx\<close> (UART, timer, system tick), under them the part of the vendor's driver library they
  stand on, and the lower half of the network stack \<^verbatim>\<open>lwip-2.1.2\<close> beside them (byte order and strings, checksums,
  addresses, memory, timers, packet buffers, Ethernet frames and the ARP cache), as the build of \<^verbatim>\<open>Makefile.am\<close> compiles it (\<^verbatim>\<open>AT32F407VGT7\<close>, \<^verbatim>\<open>SYSCLK_FREQ_200MHz\<close>,
  \<^verbatim>\<open>assert_param\<close> empty).

  \<^bold>\<open>Theories.\<close>
  \<^item> \<open>Prelude\<close>: word widths, the enumerations of \<^verbatim>\<open>at32f4xx.h\<close>, the fault values, masked fields and bytes of
    registers, the bounded polling loop; locales \<open>reg_field\<close> and \<open>reg_field_pair\<close>, the contract of a writer
    and a reader of one register field and of two fields that do not disturb each other.
  \<^item> \<open>Rcc\<close>: \<^verbatim>\<open>at32f4xx_rcc.c\<close>.  Every function is one definition on the register record \<open>rcc_regs\<close>;
    \<open>RCC_GetClocksFreq\<close> is split into \<open>sysclk_freq\<close> (the switch) and \<open>bus_psc\<close> (one prescaler).  The prescalers, the
    USB and ADC dividers and the clock switch interpret the locales.
  \<^item> \<open>Usart\<close>, \<open>Gpio\<close>, \<open>Tmr\<close> with \<open>TmrChan\<close>, \<open>Nvic\<close>: the drivers \<^verbatim>\<open>at32f4xx_usart.c\<close>, \<^verbatim>\<open>at32f4xx_gpio.c\<close>,
    \<^verbatim>\<open>at32f4xx_tim.c\<close> (time base, counter and interrupts; compare and capture channels, encoder and slave modes), and
    \<^verbatim>\<open>misc.c\<close> with the two functions of \<^verbatim>\<open>core_cm4.h\<close> in use.  Write-only
    registers (set, reset, lock; interrupt set-enable and clear-enable) are lists of the stores made.
  \<^item> \<open>SysClock\<close>: \<^verbatim>\<open>SystemInit\<close>, \<^verbatim>\<open>SetSysClock\<close>, \<^verbatim>\<open>SystemCoreClockUpdate\<close> of \<^verbatim>\<open>system_at32f4xx.c\<close>.  The hardware is a function
    from the number of an access and the registers as written to the registers as read.
  \<^item> \<open>Machine\<close>: the chip as one record, steps that may fault, allocation, and the locale \<open>context_module\<close>, the
    contract of a module that keeps a table of contexts for its interrupt handlers.
  \<^item> \<open>HyUart\<close>, \<open>HyTime\<close>, \<open>HySystem\<close>: the modules \<^verbatim>\<open>hy_uart.c\<close>, \<^verbatim>\<open>hy_time.c\<close>, \<^verbatim>\<open>hy_system.c\<close>, every function.  The first
    two interpret \<open>context_module\<close> on their step relations \<open>uart_step\<close> and \<open>time_step\<close>.
  \<^item> \<open>LwDef\<close>, \<open>LwChksum\<close>, \<open>LwIp4\<close>: \<^verbatim>\<open>core/def.c\<close>, \<^verbatim>\<open>core/inet_chksum.c\<close> with its three versions of the checksum
    routine, and \<^verbatim>\<open>core/ipv4/ip4_addr.c\<close>.  Bytes in memory are lists, with the address they start at where it matters.
  \<^item> \<open>LwMemp\<close>, \<open>LwTimeouts\<close>: the memory pools \<^verbatim>\<open>core/memp.c\<close> and, on the pool of its elements, the list of timeouts
    \<^verbatim>\<open>core/timeouts.c\<close>.  The locale \<open>element_pool\<close> is the contract of a pool, interpreted on the code's.
  \<^item> \<open>LwMem\<close>, \<open>LwHeap\<close>: the heap \<^verbatim>\<open>core/mem.c\<close> and its refinement to a list of blocks.
  \<^item> \<open>LwPbuf\<close>, \<open>LwPbufMem\<close>, \<open>LwPbufRefs\<close>, \<open>LwPbufData\<close>: the packet buffers \<^verbatim>\<open>core/pbuf.c\<close>.  The first defines the
    operations that allocate, link, count and release buffers; the second is the memory under them, one interface
    (\<open>buffer_memory\<close>) over the heap and two pools, interpreted on the code's; the third is the invariant of reference
    counts and its runs; the last defines the operations on the data and relates them to the list of a packet's bytes.
  \<^item> \<open>LwEther\<close>, \<open>LwEtharp\<close>: \<^verbatim>\<open>netif/ethernet.c\<close>, the route of \<^verbatim>\<open>ipv4/ip4.c\<close> and the ARP cache \<^verbatim>\<open>ipv4/etharp.c\<close>, on a world of
    packet buffers, interfaces, statistics and the frames handed to the driver.  \<open>LwArpFrames\<close>, \<open>LwArpTable\<close>, \<open>LwArpCalls\<close>
    and \<open>LwArpRun\<close> prove what each operation does: the frames it sends, the entry it picks, the table and the packets it leaves; the last
    defines the runs of the cache.  \<open>LwArp\<close> states what callers rely on.
  \<^item> This theory: the firmware from reset, across the modules.

  \<^bold>\<open>How code and model correspond.\<close>  A register block is a record with one field per register the code
  touches, at its width; reads and writes of fields, bytes and bit-band aliases are word operations on it.
  A function becomes a function on the record, and what C leaves undefined (a null or dangling pointer, an
  index out of bounds, a shift out of range) is an \<open>Inl\<close> with a \<open>fault\<close>.  Callbacks and stores to data
  registers are logged in order.  Interrupts are steps that may happen between calls.

  \<^bold>\<open>Parameters.\<close>  The headers \<^verbatim>\<open>hy_uart.h\<close>, \<^verbatim>\<open>hy_time.h\<close>, \<^verbatim>\<open>hy_system.h\<close> and \<^verbatim>\<open>hy_utils\<close> are not in the repository: the port
  enumerations are records (\<open>hy_uart_h\<close>, \<open>hy_time_h\<close>) with the values the code's tables are written for as named
  hypotheses, and allocation is a pair of functions with the laws \<open>malloc_ok\<close> and \<open>hfree_ok\<close>.  The hardware's answers to
  polls are functions; hypotheses such as \<open>clock_settles\<close> and \<open>counts_down\<close> state the documented behaviour of the
  chip, and each has a concrete instance.

  \<^bold>\<open>What the lemmas show.\<close>  Clocks: configured values read back, no wrap-around, no division by zero, the
  start-up reaches 200 MHz and returns also without an oscillator.  Drivers: pins, remaps, interrupts, baud rates and
  priorities are exactly what was asked for and nothing else changes.  Modules: creation configures the whole path,
  received bytes and overflows reach their callback once, transmission is in order with its result exact, handlers
  never fault in any reachable state.  Network stack: the three checksum routines agree and a stored checksum
  verifies; addresses survive printing and parsing; what heap and pools hand out is exclusive in every run, and
  nothing is lost; the timeouts stay ordered across the wrap-around of the clock and each is
  served once; the reference counts of packet buffers count the references, nothing dangles and nothing leaks, and
  reading, storing, copying and searching a packet do not depend on how it is divided into buffers; an ARP request is the frame RFC 826
  asks for, a packet waits in the cache until its destination answers and then goes there, and entries expire on time.  Heap,
  timeouts and ARP cache refine a list of blocks, a sorted list and a map.  And the cases in which the code does not do what it is meant to, each as a
  theorem on the code as written.

  \<^bold>\<open>Loops.\<close>  The polling loop of 7394 or 12288 rounds is a terminating function on its counter.  Loops without a bound
  (the waits of the start-up, the delay, the 16-bit send loop) are partial functions into \<open>option\<close>; that they return,
  or do not, is proved; so are the loops along the linked lists of heap, timeouts and packet buffers.  The order of the timeouts
  needs every pending time within \<open>2 ^ 30\<close> milliseconds of the clock, which the runs of \<open>LwTimeouts\<close> keep as a condition on the
  passage of time, on rebased lists and on the length of a check.

  \<^bold>\<open>Configuration of the network stack.\<close>  \<^verbatim>\<open>port/lwipopts.h\<close>: one thread (\<^verbatim>\<open>NO_SYS\<close>), alignment 4, a heap of 20480
  bytes with indices of 16 bits, statistics on, an illegal release counted and otherwise ignored, overflow and sanity
  checks off, assertions on (a failed one is the fault \<open>AssertFailed\<close>).  The heap's header has 8 bytes, the
  structure of a packet buffer 16, its reference count 8 bits.  The
  handlers of the protocols' timers and the state of the connections are parameters (\<open>env\<close>), as is
  the clock, which moves between calls and while handlers run.  The ARP cache has ten entries, at most one queued packet each, static
  entries, and entries that match the interface; what the driver's \<^verbatim>\<open>linkoutput\<close> answers (\<open>lo\<close>) and \<^verbatim>\<open>ip4_input\<close> are parameters.

  \<^bold>\<open>Not modelled.\<close>  The drivers the modules do not call, the clock configurations of other builds, the release of
  queued segments when the buffer pool is empty (\<^verbatim>\<open>pbuf_free_ooseq\<close>, which belongs to TCP; the request for it is), the protocols of
  the network stack above the ARP cache and the set-up of its interfaces, the signal-processing library and the other
  microcontroller's vendor code.
\<close>


section \<open>The firmware from reset\<close>

text \<open>
  The order in which the firmware runs: \<^verbatim>\<open>SystemInit\<close> before \<^verbatim>\<open>main\<close>, then \<^verbatim>\<open>HySystemCreate\<close>, then the
  drivers.  \<open>boot hw n k m\<close> is the chip after \<^verbatim>\<open>SystemInit\<close>, with the clock registers as the
  hardware shows them at access \<open>k\<close>.
\<close>

definition boot :: "rcc_hw \<Rightarrow> nat \<Rightarrow> nat \<Rightarrow> machine \<Rightarrow> machine option" where
  "boot hw n k m =
     (case SystemInit hw (m_rcc m) (m_nvic m) n of
        None \<Rightarrow> None
      | Some (r, nv, _) \<Rightarrow> Some (m\<lparr>m_rcc := hw k r, m_nvic := nv\<rparr>))"

text \<open>The clock tree settles: the oscillator in time, the PLL and the switch eventually, before \<open>k\<close>.\<close>

definition clock_settles :: "rcc_hw \<Rightarrow> nat \<Rightarrow> nat \<Rightarrow> bool" where
  "clock_settles hw n k \<longleftrightarrow> clock_hw hw \<and> (\<exists>a < n + 0x3000. hse_stable_from hw a)
     \<and> (\<exists>b. pll_locks_from hw b) \<and> (\<exists>c \<le> k. pll_selected_from hw c)"

lemma ideal_settles: "clock_settles ideal_hw 0 100"
  unfolding clock_settles_def using ideal_hw_ok by (intro conjI exI [of _ 5]) simp_all

lemma boot_run:
  assumes "clock_settles hw n k" and "nvic_wf (m_nvic m)"
  shows "\<exists>m'. boot hw n k m = Some m' \<and> nvic_wf (m_nvic m') \<and> m_gpio m' = m_gpio m
    \<and> RCC_GetClocksFreq (m_rcc m') = \<lparr>SYSCLK_Freq = 200000000, AHBCLK_Freq = 200000000,
         APB1CLK_Freq = 100000000, APB2CLK_Freq = 100000000, ADCCLK_Freq = 50000000\<rparr>"
proof -
  obtain a b c where h: "clock_hw hw" "hse_stable_from hw a" "a < n + 0x3000" "pll_locks_from hw b"
    "pll_selected_from hw c" "c \<le> k" using assms(1) unfolding clock_settles_def by blast
  show ?thesis using system_init_run [OF h, of "m_rcc m" "m_nvic m"] assms(2)
    by (auto simp: boot_def nvic_wf_def)
qed

text \<open>The tick and the drivers on the booted chip.\<close>

lemma boot_system:
  assumes "clock_settles hw n k" and "nvic_wf (m_nvic m)" and "malloc {} = Some p"
  shows "\<exists>m1 w. boot hw n k m = Some m1
    \<and> HySystemCreate brk malloc hfree (Some cfg) (sys_start m1 core) = Inr (Some p, w)
    \<and> m_rcc (sw_m w) = m_rcc m1 \<and> nvic_wf (m_nvic (sw_m w)) \<and> nv_AIRCR (m_nvic (sw_m w)) AND 0x700 = 0x500
    \<and> unat (st_LOAD (m_nvic (sw_m w))) + 1 = 200000 \<and> st_CTRL (m_nvic (sw_m w)) = 0x7
    \<and> RCC_GetClocksFreq (m_rcc m1) = \<lparr>SYSCLK_Freq = 200000000, AHBCLK_Freq = 200000000,
         APB1CLK_Freq = 100000000, APB2CLK_Freq = 100000000, ADCCLK_Freq = 50000000\<rparr>"
proof -
  obtain m1 where m1: "boot hw n k m = Some m1" "nvic_wf (m_nvic m1)"
    and f: "RCC_GetClocksFreq (m_rcc m1) = \<lparr>SYSCLK_Freq = 200000000, AHBCLK_Freq = 200000000,
         APB1CLK_Freq = 100000000, APB2CLK_Freq = 100000000, ADCCLK_Freq = 50000000\<rparr>"
    using boot_run [OF assms(1,2)] by blast
  then show ?thesis using assms(3)
    by (simp add: HySystemCreate_def sys_start_def init_system_run tick_nvic_def nvic_wf_def)
qed

section \<open>Properties\<close>

text \<open>
  C2.  The system tick is one millisecond: on a chip whose clock tree settles, \<^verbatim>\<open>SystemInit\<close> followed by
  \<^verbatim>\<open>HySystemCreate\<close> leaves the tick counter running from the core clock of 200 MHz with a period of
  200000 cycles and its interrupt enabled.
\<close>

theorem boot_tick_one_ms:
  assumes "clock_settles hw n k" and "nvic_wf (m_nvic m)" and "malloc {} = Some p"
  shows "\<exists>m1 w. boot hw n k m = Some m1
    \<and> HySystemCreate brk malloc hfree (Some cfg) (sys_start m1 core) = Inr (Some p, w)
    \<and> unat (st_LOAD (m_nvic (sw_m w))) + 1 = 200000 \<and> st_CTRL (m_nvic (sw_m w)) = 0x7
    \<and> unat (AHBCLK_Freq (RCC_GetClocksFreq (m_rcc (sw_m w)))) = 1000 * 200000"
  using boot_system [of hw n k m malloc p brk hfree cfg core, OF assms] by auto

theorem boot_tick_one_ms_witness:
  "\<exists>m1 w. boot ideal_hw 0 100 chip_after_reset = Some m1
    \<and> HySystemCreate (\<lambda>c. c) first_fit plain_free (Some \<lparr>sc_tick_cb = Some 7, sc_args = 9\<rparr>)
        (sys_start m1 200000000) = Inr (Some 1, w)
    \<and> unat (st_LOAD (m_nvic (sw_m w))) + 1 = 200000"
  using boot_tick_one_ms [where malloc = first_fit and m = chip_after_reset, OF ideal_settles chip_nvic(1)
      first_fit_empty] by blast

text \<open>
  C1.  The serial port works from reset: after \<^verbatim>\<open>SystemInit\<close> and \<^verbatim>\<open>HySystemCreate\<close>, creating port 1, 4 or 5
  at any rate of at least 1526 baud succeeds, the divider is within 0.516 sixteenths of the exact
  quotient of the 100 MHz bus clock and the rate, and of any data words the hardware then receives, each with its
  interrupt, every one is delivered to the callback, once and in order.
\<close>

theorem boot_uart:
  assumes "clock_settles hw n k" and "nvic_wf (m_nvic m)" and "malloc {} = Some p"
    and "hy_uart_h_ok h" and "num \<in> {1, 4, 5}" and "1526 \<le> rate"
  shows "\<exists>m1 w1 w2. boot hw n k m = Some m1
    \<and> HySystemCreate brk malloc hfree (Some cfg) (sys_start m1 core) = Inr (Some p, w1)
    \<and> HyUartCreate h malloc ufree (Some \<lparr>cf_num = num, cf_rate = rate, cf_read_cb = Some cb, cf_args = args\<rparr>)
        (uart_start h (sw_m w1)) = Inr (Some p, w2)
    \<and> \<bar>1000 * int (unat (us_BAUDR (m_usart (uw_m w2) (pt_uart (uart_port_of num))))) * int (unat rate)
        - 1000 * 100000000\<bar> \<le> 516 * int (unat rate)
    \<and> (\<exists>w3. uart_receive_all h num ds w2 = Inr w3 \<and> uw_log w3 = map (\<lambda>d. ReadCb cb (d AND 0x1FF) args) ds)"
proof -
  let ?c = "\<lparr>cf_num = num, cf_rate = rate, cf_read_cb = Some cb, cf_args = args\<rparr>"
    and ?u = "pt_uart (uart_port_of num)"
  have f: "cf_num ?c = num" "cf_rate ?c = rate" "cf_read_cb ?c = Some cb" "cf_args ?c = args" by simp_all
  have b: "1526 \<le> unat rate" using assms(6) by (simp add: word_le_nat_alt)
  then have rate: "rate \<noteq> 0" by auto
  obtain m1 w1 where w1: "boot hw n k m = Some m1"
      "HySystemCreate brk malloc hfree (Some cfg) (sys_start m1 core) = Inr (Some p, w1)"
    and nv: "nvic_wf (m_nvic (sw_m w1))" "nv_AIRCR (m_nvic (sw_m w1)) AND 0x700 = 0x500"
    and clk: "RCC_GetClocksFreq (m_rcc (sw_m w1)) = \<lparr>SYSCLK_Freq = 200000000, AHBCLK_Freq = 200000000,
         APB1CLK_Freq = 100000000, APB2CLK_Freq = 100000000, ADCCLK_Freq = 50000000\<rparr>"
    using boot_system [of hw n k m malloc p brk hfree cfg core, OF assms(1-3)] by auto
  let ?w = "uart_start h (sw_m w1)"
  have len: "length (uw_array ?w) = 6" and heap: "malloc (dom (uw_heap ?w)) = Some p" and "uw_log ?w = []"
    using assms(3,4) by (simp_all add: uart_start_def hy_uart_h_ok_def)
  have m: "uw_m ?w = sw_m w1" by (simp add: uart_start_def)
  have bus: "usart_bus_clock ?u (m_rcc (sw_m w1)) = 100000000"
    by (simp add: usart_bus_clock_def clk)
  obtain w2 where w2: "HyUartCreate h malloc ufree (Some ?c) ?w = Inr (Some p, w2)"
      "us_BAUDR (m_usart (uw_m w2) ?u) = baud_divider 100000000 rate" "uw_log w2 = []"
      "uw_array w2 = (uw_array ?w)[num := Some p]"
      "uw_heap w2 = (uw_heap ?w)(p \<mapsto> \<lparr>uc_num = num, uc_read_cb = Some cb, uc_args = args\<rparr>)"
      "int_enabled USART_INT_RDNE (m_usart (uw_m w2) ?u)"
    using create_supported [of h ?c ?w malloc p ufree, unfolded f m, OF assms(4,5) rate len heap nv] bus
      \<open>uw_log ?w = []\<close> by (elim exE conjE) auto
  have "100000000 < 65535 * unat rate" using b by linarith
  then have err: "\<bar>1000 * int (unat (us_BAUDR (m_usart (uw_m w2) ?u))) * int (unat rate) - 1000 * 100000000\<bar>
      \<le> 516 * int (unat rate)"
    using baud_error [OF rate, of 100000000] unfolding w2(2) by simp
  have "num < length (uw_array w2)" "uw_array w2 ! num = Some p" using w2(4) len assms(5) by auto
  then have "\<exists>w3. uart_receive_all h num ds w2 = Inr w3 \<and> uw_log w3 = map (\<lambda>d. ReadCb cb (d AND 0x1FF) args) ds"
    using rx_all_delivered [OF assms(4,5) _ _ _ w2(6), of p cb args ds] w2(3,5) by simp
  then show ?thesis using w1 w2(1) err by blast
qed

theorem boot_uart_witness:
  "\<exists>m1 w1 w2 w3. boot ideal_hw 0 100 chip_after_reset = Some m1
    \<and> HySystemCreate (\<lambda>c. c) first_fit plain_free (Some \<lparr>sc_tick_cb = Some 7, sc_args = 9\<rparr>)
        (sys_start m1 200000000) = Inr (Some 1, w1)
    \<and> HyUartCreate uart_enum first_fit plain_free
        (Some \<lparr>cf_num = 5, cf_rate = 115200, cf_read_cb = Some 8, cf_args = 0\<rparr>) (uart_start uart_enum (sw_m w1))
      = Inr (Some 1, w2)
    \<and> \<bar>1000 * int (unat (us_BAUDR (m_usart (uw_m w2) (pt_uart (uart_port_of 5))))) * 115200
        - 1000 * 100000000\<bar> \<le> 516 * 115200
    \<and> uart_receive_all uart_enum 5 [0x41, 0x42] w2 = Inr w3 \<and> uw_log w3 = [ReadCb 8 0x41 0, ReadCb 8 0x42 0]"
proof -
  have h: "5 \<in> {1, 4, 5 :: nat}" "1526 \<le> (115200 :: u32)" by simp_all
  show ?thesis
    using boot_uart [where malloc = first_fit and m = chip_after_reset and hfree = plain_free
        and ufree = plain_free and brk = "\<lambda>c. c" and core = 200000000 and cb = 8 and args = 0 and ds = "[0x41, 0x42]"
        and cfg = "\<lparr>sc_tick_cb = Some 7, sc_args = 9\<rparr>",
        OF ideal_settles chip_nvic(1) first_fit_empty uart_enum_ok h] by auto
qed

end
